(* ===== verification/Prelude.thy ===== *)
theory Prelude
  imports Main "HOL-Library.AList"
begin

text \<open>
  What every component of the development shares: the JavaScript collections of the source as
  HOL data, with their laws in the simplifier, and the generic contract of a component that
  keeps an invariant over a sequence of operations.

  \<^item> A JavaScript \<open>Map\<close> iterates in insertion order and \<open>set\<close> on a present key keeps the key's
    place. It is an association list read by \<^const>\<open>map_of\<close> and written by \<^const>\<open>AList.update\<close>.
  \<^item> A JavaScript \<open>Set\<close> built from a list keeps the first of each element: \<open>[...new Set(xs)]\<close>
    is \<open>unique xs\<close> below (\<^const>\<open>remdups\<close> of the library keeps the last).
  \<^item> An instant (\<open>Date.now()\<close>, or an ISO string as \<open>toISOString\<close> prints it) is the integer
    number of milliseconds since the epoch: ISO strings of that form compare, as strings, as
    their instants do.
\<close>

type_synonym instant = int

named_theorems guards \<open>the guard lemmas of the operations: which branch a result comes from\<close>

subsection \<open>Lists as the source uses them\<close>

fun uniqueFrom :: "'a list \<Rightarrow> 'a list \<Rightarrow> 'a list" where
  "uniqueFrom kept [] = kept"
| "uniqueFrom kept (x # xs) = uniqueFrom (if x \<in> set kept then kept else kept @ [x]) xs"

definition unique :: "'a list \<Rightarrow> 'a list" where
  "unique xs = uniqueFrom [] xs"

lemma pred_option_code [code]: "pred_option P None = True" "pred_option P (Some x) = P x"
  by simp_all

lemma set_uniqueFrom [simp]: "set (uniqueFrom kept xs) = set kept \<union> set xs"
  by (induction kept xs rule: uniqueFrom.induct) auto

lemma distinct_uniqueFrom [simp]: "distinct (uniqueFrom kept xs) = distinct kept"
  by (induction kept xs rule: uniqueFrom.induct) auto

lemma uniqueFrom_distinct: "distinct (kept @ xs) \<Longrightarrow> uniqueFrom kept xs = kept @ xs"
  by (induction kept xs rule: uniqueFrom.induct) auto

lemma set_unique [simp]: "set (unique xs) = set xs"
  by (simp add: unique_def)

lemma distinct_unique [simp]: "distinct (unique xs)"
  by (simp add: unique_def)

lemma unique_id: "distinct xs \<Longrightarrow> unique xs = xs"
  by (simp add: unique_def uniqueFrom_distinct)

lemma uniqueFrom_append: "uniqueFrom kept (xs @ ys) = uniqueFrom (uniqueFrom kept xs) ys"
  by (induction kept xs rule: uniqueFrom.induct) auto

lemma unique_append_known: "distinct xs \<Longrightarrow> y \<in> set xs \<Longrightarrow> unique (xs @ [y]) = xs"
  by (simp add: unique_def uniqueFrom_append uniqueFrom_distinct)

lemma filter_all: "\<forall>x \<in> set xs. P x \<Longrightarrow> filter P xs = xs"
  by (induction xs) auto

lemma unique_idem [simp]: "unique (unique xs) = unique xs"
  by (simp add: unique_id)

lemma unique_Nil_iff [simp]: "unique xs = [] \<longleftrightarrow> xs = []"
  using set_unique [of xs] by (metis set_empty)

lemma find_append:
  "List.find P (xs @ ys) = (case List.find P xs of None \<Rightarrow> List.find P ys | Some x \<Rightarrow> Some x)"
  by (induction xs) auto

text \<open>\<open>xs.slice(-n)\<close> for \<open>n > 0\<close>: the last \<open>n\<close> elements.\<close>

definition lastN :: "nat \<Rightarrow> 'a list \<Rightarrow> 'a list" where
  "lastN n xs = drop (length xs - n) xs"

lemma length_lastN [simp]: "length (lastN n xs) = min n (length xs)"
  by (simp add: lastN_def)

lemma lastN_all [simp]: "length xs \<le> n \<Longrightarrow> lastN n xs = xs"
  by (simp add: lastN_def)

subsection \<open>Association lists\<close>

lemma map_of_update_eq [simp]: "map_of (AList.update k v m) = (map_of m)(k \<mapsto> v)"
  by (rule update_conv')

lemma map_fst_update_mem: "k \<in> fst ` set m \<Longrightarrow> map fst (AList.update k v m) = map fst m"
  by (induction m) (auto simp: image_iff)

lemma distinct_keys_update [simp]:
  "distinct (map fst m) \<Longrightarrow> distinct (map fst (AList.update k v m))"
  by (rule distinct_update)

lemma map_of_None_keys: "map_of m k = None \<longleftrightarrow> k \<notin> fst ` set m"
  by (rule map_of_eq_None_iff)

text \<open>\<open>new Map(xs.map((x) => [key(x), x]))\<close>: the last element of a key wins.\<close>

definition keyedMap :: "('a \<Rightarrow> 'k) \<Rightarrow> 'a list \<Rightarrow> ('k \<times> 'a) list" where
  "keyedMap key xs = foldl (\<lambda>m x. AList.update (key x) x m) [] xs"

lemma keyedMap_from:
  "map_of (foldl (\<lambda>m x. AList.update (key x) x m) m xs) k
     = (case List.find (\<lambda>x. key x = k) (rev xs) of None \<Rightarrow> map_of m k | Some x \<Rightarrow> Some x)"
  by (induction xs arbitrary: m rule: rev_induct) auto

lemma map_of_keyedMap: "map_of (keyedMap key xs) k = List.find (\<lambda>x. key x = k) (rev xs)"
  by (simp add: keyedMap_def keyedMap_from split: option.splits)

lemma keyedMap_member: "map_of (keyedMap key xs) k = Some x \<Longrightarrow> x \<in> set xs \<and> key x = k"
  by (auto simp: map_of_keyedMap dest!: iffD1 [OF find_Some_iff]) (metis nth_mem set_rev length_rev)

lemma keyedMap_present: "x \<in> set xs \<Longrightarrow> \<exists>y. map_of (keyedMap key xs) (key x) = Some y"
  by (cases "map_of (keyedMap key xs) (key x)") (auto simp: map_of_keyedMap find_None_iff)

lemma keyedMap_distinct:
  assumes "distinct (map key xs)" and "x \<in> set xs"
  shows "map_of (keyedMap key xs) (key x) = Some x"
proof -
  obtain y where y: "map_of (keyedMap key xs) (key x) = Some y" using keyedMap_present [OF assms(2)] by blast
  then have "y \<in> set xs" "key y = key x" by (auto dest: keyedMap_member)
  with assms have "y = x" by (auto simp: distinct_map inj_on_def)
  with y show ?thesis by simp
qed

lemma map_fst_update: "map fst (AList.update k v m) = (if k \<in> fst ` set m then map fst m else map fst m @ [k])"
  by (induction m) auto

lemma keys_keyedMap: "map fst (keyedMap key xs) = unique (map key xs)"
proof -
  have "map fst (foldl (\<lambda>m x. AList.update (key x) x m) m xs) = uniqueFrom (map fst m) (map key xs)" for m
    by (induction xs arbitrary: m) (auto simp: map_fst_update)
  from this [of "[]"] show ?thesis by (simp add: keyedMap_def unique_def)
qed

lemma unique_length_distinct: "length (unique xs) = length xs \<longleftrightarrow> distinct xs"
  by (metis card_distinct distinct_card distinct_unique set_unique)

lemma length_keyedMap: "length (keyedMap key xs) = length xs \<longleftrightarrow> distinct (map key xs)"
  using arg_cong [OF keys_keyedMap [of key xs], of length] unique_length_distinct [of "map key xs"] by simp

subsection \<open>A component that keeps an invariant\<close>

text \<open>
  The contract several components share: their operations, each a total function of the state
  (an operation that raises leaves the state it was given), keep an invariant. What the client
  of such a component may conclude about any sequence of operations is proved here once.
\<close>

locale kept_invariant =
  fixes perform :: "'s \<Rightarrow> 'op \<Rightarrow> 's"
    and holds :: "'s \<Rightarrow> bool"
  assumes perform_holds: "holds s \<Longrightarrow> holds (perform s x)"
begin

lemma run_holds: "holds s \<Longrightarrow> holds (foldl perform s xs)"
  by (induction xs arbitrary: s) (auto intro: perform_holds)

lemma run_holds_prefix: "holds s \<Longrightarrow> holds (foldl perform s (take n xs))"
  by (rule run_holds)

end

subsection \<open>Digits\<close>

definition digitOf :: "nat \<Rightarrow> char" where
  "digitOf d = ''0123456789abcdef'' ! d"

definition digitValue :: "char \<Rightarrow> nat" where
  "digitValue c =
     (if c \<in> set ''0123456789'' then of_char c - 48
      else if c \<in> set ''abcdef'' then of_char c - 87 else 0)"

text \<open>\<open>toString(radix)\<close> and \<open>Number.parseInt(text, radix)\<close> on the digits the pattern admits.\<close>

fun toRadix :: "nat \<Rightarrow> nat \<Rightarrow> string" where
  "toRadix r n = (if r < 2 \<or> n < r then [digitOf n] else toRadix r (n div r) @ [digitOf (n mod r)])"

declare toRadix.simps [simp del]

definition parseRadix :: "nat \<Rightarrow> string \<Rightarrow> nat" where
  "parseRadix r s = foldl (\<lambda>v c. v * r + digitValue c) 0 s"

definition padStart :: "nat \<Rightarrow> char \<Rightarrow> string \<Rightarrow> string" where
  "padStart k c s = replicate (k - length s) c @ s"

lemma digits_read: "\<forall>d < 16. digitValue (digitOf d) = d"
  by code_simp

lemma digitValue_digitOf [simp]: "d < 16 \<Longrightarrow> digitValue (digitOf d) = d"
  using digits_read by blast

lemma parseRadix_append: "parseRadix r (s @ [c]) = parseRadix r s * r + digitValue c"
  by (simp add: parseRadix_def)

lemma parseRadix_toRadix [simp]:
  assumes "2 \<le> r" and "r \<le> 16"
  shows "parseRadix r (toRadix r n) = n"
  using assms
proof (induction r n rule: toRadix.induct)
  case (1 r n)
  show ?case
  proof (cases "n < r")
    case True
    then show ?thesis using "1.prems" by (subst toRadix.simps) (simp add: parseRadix_def)
  next
    case False
    have "n mod r < 16" using "1.prems" by (intro less_le_trans [OF mod_less_divisor]) auto
    then show ?thesis using False 1 by (subst toRadix.simps) (simp add: parseRadix_append)
  qed
qed

lemma parseRadix_zeros: "parseRadix r (replicate k CHR ''0'' @ s) = parseRadix r s"
  by (induction k) (simp_all add: parseRadix_def digitValue_def)

lemma parseRadix_padStart [simp]: "parseRadix r (padStart k CHR ''0'' s) = parseRadix r s"
  by (simp add: padStart_def parseRadix_zeros)

lemma length_toRadix:
  assumes "2 \<le> r" and "n < r ^ k" and "0 < k"
  shows "length (toRadix r n) \<le> k"
  using assms
proof (induction k arbitrary: n)
  case (Suc k)
  show ?case
  proof (cases "n < r")
    case False
    then have "0 < k" using Suc.prems by (cases k) auto
    moreover have "n div r < r ^ k" using Suc.prems by (simp add: less_mult_imp_div_less mult.commute)
    ultimately show ?thesis using Suc.IH Suc.prems(1) False by (subst toRadix.simps) simp
  qed (subst toRadix.simps, simp)
qed simp

lemma length_padStart: "length s \<le> k \<Longrightarrow> length (padStart k c s) = k"
  by (simp add: padStart_def)

lemma set_toRadix: "2 \<le> r \<Longrightarrow> set (toRadix r n) \<subseteq> digitOf ` {..<r}"
proof (induction r n rule: toRadix.induct)
  case (1 r n)
  then show ?case by (subst toRadix.simps) auto
qed

lemma set_padStart: "set (padStart k c s) \<subseteq> insert c (set s)"
  by (auto simp: padStart_def)

subsection \<open>Texts\<close>

text \<open>\<open>text.split(c)\<close>, and the lengths a schema admits.\<close>

fun splitOn :: "char \<Rightarrow> string \<Rightarrow> string list" where
  "splitOn c [] = [[]]"
| "splitOn c (x # xs) =
     (if x = c then [] # splitOn c xs
      else case splitOn c xs of part # rest \<Rightarrow> (x # part) # rest | [] \<Rightarrow> [[x]])"

lemma splitOn_last: "c \<notin> set a \<Longrightarrow> splitOn c a = [a]"
  by (induction a) auto

lemma splitOn_part: "c \<notin> set a \<Longrightarrow> splitOn c (a @ c # s) = a # splitOn c s"
  by (induction a) auto

definition lengthIn :: "nat \<Rightarrow> nat \<Rightarrow> string \<Rightarrow> bool" where
  "lengthIn a b s \<longleftrightarrow> a \<le> length s \<and> length s \<le> b"

definition startsWithText :: "string \<Rightarrow> string \<Rightarrow> bool" where
  "startsWithText s p \<longleftrightarrow> take (length p) s = p"

fun joinWith :: "string \<Rightarrow> string list \<Rightarrow> string" where
  "joinWith sep [] = []"
| "joinWith sep [x] = x"
| "joinWith sep (x # xs) = x @ sep @ joinWith sep xs"

text \<open>\<open>{ ...left, ...right }\<close> of two objects.\<close>

definition spread :: "('k \<times> 'v) list \<Rightarrow> ('k \<times> 'v) list \<Rightarrow> ('k \<times> 'v) list" where
  "spread left right = foldl (\<lambda>m (k, v). AList.update k v m) left right"

lemma map_of_spread:
  "distinct (map fst right) \<Longrightarrow> map_of (spread left right) k = (case map_of right k of None \<Rightarrow> map_of left k | Some v \<Rightarrow> Some v)"
proof (induction right arbitrary: left)
  case (Cons x right)
  then have "map_of right (fst x) = None" by (simp add: map_of_eq_None_iff)
  then show ?case using Cons by (cases x) (auto simp: spread_def split: option.splits)
qed (simp add: spread_def)

lemma spread_member: "(k, v) \<in> set (spread left right) \<Longrightarrow> (k, v) \<in> set left \<or> (k, v) \<in> set right"
proof (induction right arbitrary: left)
  case (Cons x right)
  have m: "(a, b) \<in> set (AList.update c d xs) \<Longrightarrow> (a, b) \<in> set xs \<or> a = c \<and> b = d" for a b c d and xs :: "('a \<times> 'b) list"
    by (induction xs) (auto split: if_splits)
  from Cons.prems have "(k, v) \<in> set (spread (AList.update (fst x) (snd x) left) right)"
    by (simp add: spread_def case_prod_unfold)
  then show ?case using Cons.IH m by fastforce
qed (simp add: spread_def)

lemma distinct_spread: "distinct (map fst left) \<Longrightarrow> distinct (map fst (spread left right))"
  by (induction right arbitrary: left) (auto simp: spread_def)

end
