(* ===== verification/Dependency_Graph.thy ===== *)
theory Dependency_Graph
  imports Prelude
begin

text \<open>
  \<open>packages/protocol-workspace/src/dependency-graph.ts\<close>: breadth-first search along
  \<open>dependsOn\<close> edges (\<open>dependencyPath\<close>), the loop a proposed dependency list would close
  (\<open>dependencyCycle\<close>) and the workspaces that transitively depend on one
  (\<open>transitiveDependents\<close>). The searches are total functions with the source's queue and
  maps; the walk back along \<open>previous\<close>, a loop that would run forever on a broken chain, is a
  \<open>partial_function\<close> whose result \<^const>\<open>None\<close> means that it does not return.
\<close>

type_synonym 'a graph = "('a \<times> 'a list) list"

definition succs :: "'a graph \<Rightarrow> 'a \<Rightarrow> 'a list" where
  "succs g v = (case map_of g v of None \<Rightarrow> [] | Some ts \<Rightarrow> ts)"

definition edges :: "'a graph \<Rightarrow> ('a \<times> 'a) set" where
  "edges g = {(v, w). w \<in> set (succs g v)}"

lemma edges_iff [simp]: "(v, w) \<in> edges g \<longleftrightarrow> w \<in> set (succs g v)"
  by (simp add: edges_def)

lemma succs_update [simp]: "succs (AList.update k ts g) v = (if v = k then ts else succs g v)"
  by (simp add: succs_def)

definition targets :: "'a graph \<Rightarrow> 'a set" where
  "targets g = (\<Union>p \<in> set g. set (snd p))"

lemma finite_targets [simp]: "finite (targets g)"
  by (simp add: targets_def)

lemma succs_targets: "set (succs g v) \<subseteq> targets g"
proof (cases "map_of g v")
  case (Some ts)
  then have "(v, ts) \<in> set g" by (rule map_of_SomeD)
  with Some show ?thesis by (force simp: succs_def targets_def)
qed (simp add: succs_def)

subsection \<open>Breadth-first search\<close>

record 'a search =
  previous :: "'a \<rightharpoonup> 'a"
  seen :: "'a set"
  queue :: "'a list"

datatype 'a found = Path "'a list" | NoPath | Diverges

fun scan :: "'a \<Rightarrow> 'a \<Rightarrow> 'a list \<Rightarrow> 'a search \<Rightarrow> ('a \<rightharpoonup> 'a) + 'a search" where
  "scan to current [] st = Inr st"
| "scan to current (next # rest) st =
     (if next \<in> seen st then scan to current rest st
      else let prev = (previous st)(next \<mapsto> current) in
        if next = to then Inl prev
        else scan to current rest
          (st\<lparr>previous := prev, seen := insert next (seen st), queue := queue st @ [next]\<rparr>))"

partial_function (option) walkBack ::
    "('a \<rightharpoonup> 'a) \<Rightarrow> 'a \<Rightarrow> 'a \<Rightarrow> 'a list \<Rightarrow> 'a list option" where
  "walkBack prev from step path =
     (if step = from then Some (path @ [from])
      else case prev step of
          None \<Rightarrow> None
        | Some before \<Rightarrow> walkBack prev from before (path @ [step]))"

lemma scan_Inr:
  assumes "scan to current ns st = Inr st'"
  shows "to \<notin> set ns - seen st"
    and "seen st' = seen st \<union> set ns"
    and "previous st' = (\<lambda>x. if x \<in> set ns - seen st then Some current else previous st x)"
    and "\<exists>new. queue st' = queue st @ new \<and> distinct new \<and> set new = set ns - seen st"
proof -
  have "to \<notin> set ns - seen st \<and> seen st' = seen st \<union> set ns
      \<and> previous st' = (\<lambda>x. if x \<in> set ns - seen st then Some current else previous st x)
      \<and> (\<exists>new. queue st' = queue st @ new \<and> distinct new \<and> set new = set ns - seen st)"
    using assms
  proof (induction to current ns st rule: scan.induct)
    case (1 to current st)
    then show ?case by auto
  next
    case (2 to current n rest st)
    show ?case
    proof (cases "n \<in> seen st")
      case True
      with 2 show ?thesis by (auto simp: insert_absorb)
    next
      case False
      let ?st = "st\<lparr>previous := (previous st)(n \<mapsto> current), seen := insert n (seen st),
          queue := queue st @ [n]\<rparr>"
      from False 2(3) have nt: "n \<noteq> to" and eq: "scan to current rest ?st = Inr st'"
        by (auto simp: Let_def split: if_splits)
      note IH = 2(2) [OF False refl nt eq, simplified]
      from IH obtain new where new: "queue st' = queue st @ n # new" "distinct new"
        "set new = set rest - insert n (seen st)" by blast
      note rest = conjunct1 [OF IH] conjunct1 [OF conjunct2 [OF IH]]
        conjunct1 [OF conjunct2 [OF conjunct2 [OF IH]]]
      from rest(1) nt False have "to \<notin> set (n # rest) - seen st" by auto
      moreover from rest(2) have "seen st' = seen st \<union> set (n # rest)" by simp
      moreover have "previous st' = (\<lambda>x. if x \<in> set (n # rest) - seen st then Some current else previous st x)"
        using rest(3) False by (auto simp: fun_eq_iff)
      moreover have "queue st' = queue st @ (n # new) \<and> distinct (n # new)
          \<and> set (n # new) = set (n # rest) - seen st"
        using new False by auto
      ultimately show ?thesis by (intro conjI exI [of _ "n # new"]) blast+
    qed
  qed
  then show "to \<notin> set ns - seen st" and "seen st' = seen st \<union> set ns"
    and "previous st' = (\<lambda>x. if x \<in> set ns - seen st then Some current else previous st x)"
    and "\<exists>new. queue st' = queue st @ new \<and> distinct new \<and> set new = set ns - seen st"
    by blast+
qed

lemma scan_Inl:
  assumes "scan to current ns st = Inl prev"
  shows "to \<in> set ns - seen st \<and> (\<forall>x \<in> seen st. prev x = previous st x)"
  using assms
proof (induction to current ns st rule: scan.induct)
  case (2 to current n rest st)
  then show ?case by (fastforce simp: Let_def split: if_splits)
qed simp

definition work :: "'a graph \<Rightarrow> 'a search \<Rightarrow> nat" where
  "work g st = 2 * card (targets g - seen st) + length (queue st)"

lemma scan_work:
  assumes "scan to current ns st = Inr st'" and "set ns \<subseteq> targets g"
  shows "work g st' \<le> work g st"
proof -
  obtain new where new: "queue st' = queue st @ new" "distinct new" "set new = set ns - seen st"
    using scan_Inr(4) [OF assms(1)] by blast
  have "targets g - seen st' = (targets g - seen st) - set new"
    using scan_Inr(2) [OF assms(1)] new(3) by auto
  moreover have "set new \<subseteq> targets g - seen st" using new(3) assms(2) by auto
  ultimately have "card (targets g - seen st') + card (set new) = card (targets g - seen st)"
    by (metis card_Diff_subset card_mono finite_Diff finite_set finite_targets le_add_diff_inverse2)
  moreover have "length new = card (set new)" using new(2) by (simp add: distinct_card)
  ultimately show ?thesis using new(1) by (simp add: work_def)
qed

function bfs :: "'a graph \<Rightarrow> 'a \<Rightarrow> 'a \<Rightarrow> 'a search \<Rightarrow> 'a found" where
  "bfs g from to st =
     (case queue st of
        [] \<Rightarrow> NoPath
      | current # rest \<Rightarrow>
          (case scan to current (succs g current) (st\<lparr>queue := rest\<rparr>) of
             Inl prev \<Rightarrow> (case walkBack prev from current [to] of
                 None \<Rightarrow> Diverges | Some path \<Rightarrow> Path (rev path))
           | Inr st' \<Rightarrow> bfs g from to st'))"
  by pat_completeness auto
termination
proof (relation "measure (\<lambda>(g, from, to, st). work g st)")
  show "wf (measure (\<lambda>(g, from, to, st :: 'a search). work g st))" by simp
next
  fix g :: "'a graph" and "from" to :: 'a and st :: "'a search" and current rest st'
  assume q: "queue st = current # rest"
    and s: "scan to current (succs g current) (st\<lparr>queue := rest\<rparr>) = Inr st'"
  have "work g st' \<le> work g (st\<lparr>queue := rest\<rparr>)" by (rule scan_work [OF s succs_targets])
  also have "\<dots> < work g st" using q by (simp add: work_def)
  finally show "((g, from, to, st'), g, from, to, st) \<in> measure (\<lambda>(g, from, to, st). work g st)"
    by simp
qed

declare bfs.simps [simp del]

definition dependencyPath :: "'a \<Rightarrow> 'a \<Rightarrow> 'a graph \<Rightarrow> 'a found" where
  "dependencyPath from to g =
     (if from = to then Path [from]
      else bfs g from to \<lparr>previous = Map.empty, seen = {from}, queue = [from]\<rparr>)"

subsection \<open>What the walk back returns\<close>

inductive traced :: "('a \<rightharpoonup> 'a) \<Rightarrow> 'a \<Rightarrow> 'a \<Rightarrow> 'a list \<Rightarrow> bool" for prev "from" where
  origin: "traced prev from from [from]"
| step: "x \<noteq> from \<Longrightarrow> prev x = Some p \<Longrightarrow> traced prev from p ys \<Longrightarrow> traced prev from x (x # ys)"

lemma walkBack_traced: "traced prev from x ys \<Longrightarrow> walkBack prev from x path = Some (path @ ys)"
  by (induction arbitrary: path rule: traced.induct) (simp_all add: walkBack.simps)

lemma traced_agree:
  "traced prev from x ys \<Longrightarrow> \<forall>y \<in> set ys. prev' y = prev y \<Longrightarrow> traced prev' from x ys"
  by (induction rule: traced.induct) (auto intro: traced.intros)

lemma traced_shape: "traced prev from x ys \<Longrightarrow> ys \<noteq> [] \<and> hd ys = x \<and> last ys = from"
  by (induction rule: traced.induct) auto

lemma traced_edges:
  assumes "traced prev from x ys" and "\<And>y p. prev y = Some p \<Longrightarrow> y \<in> set (succs g p)"
  shows "successively (\<lambda>w v. w \<in> set (succs g v)) ys"
  using assms(1)
proof (induction rule: traced.induct)
  case (step x p ys)
  then show ?case using assms(2) traced_shape [OF step.hyps(3)]
    by (cases ys) auto
qed simp

text \<open>A path of the graph, both endpoints included, as \<open>dependencyPath\<close> documents it.\<close>

definition isPath :: "'a graph \<Rightarrow> 'a \<Rightarrow> 'a \<Rightarrow> 'a list \<Rightarrow> bool" where
  "isPath g from to p \<longleftrightarrow>
     p \<noteq> [] \<and> hd p = from \<and> last p = to \<and> successively (\<lambda>v w. w \<in> set (succs g v)) p"

lemma isPath_rtrancl: "isPath g from to p \<Longrightarrow> (from, to) \<in> (edges g)\<^sup>*"
proof (induction p arbitrary: "from")
  case (Cons x p)
  show ?case
  proof (cases p)
    case Nil
    with Cons.prems show ?thesis by (auto simp: isPath_def)
  next
    case (Cons y q)
    with Cons.prems have "x = from" "y \<in> set (succs g from)" "isPath g y to p"
      by (auto simp: isPath_def)
    with Cons.IH [of y] show ?thesis by (meson converse_rtrancl_into_rtrancl edges_iff)
  qed
qed (simp add: isPath_def)

subsection \<open>The search invariant\<close>

definition searching :: "'a graph \<Rightarrow> 'a \<Rightarrow> 'a \<Rightarrow> 'a search \<Rightarrow> bool" where
  "searching g from to st \<longleftrightarrow>
     from \<in> seen st \<and> to \<notin> seen st \<and> set (queue st) \<subseteq> seen st
     \<and> (\<forall>x \<in> seen st - set (queue st). set (succs g x) \<subseteq> seen st)
     \<and> (\<forall>x p. previous st x = Some p \<longrightarrow> x \<in> set (succs g p))
     \<and> (\<forall>x \<in> seen st. \<exists>ys. traced (previous st) from x ys \<and> set ys \<subseteq> seen st)"

lemma searching_start:
  "from \<noteq> to \<Longrightarrow> searching g from to \<lparr>previous = Map.empty, seen = {from}, queue = [from]\<rparr>"
  by (auto simp: searching_def intro: traced.origin)

lemma searching_scan:
  assumes inv: "searching g from to st" and q: "queue st = current # rest"
    and s: "scan to current (succs g current) (st\<lparr>queue := rest\<rparr>) = Inr st'"
  shows "searching g from to st'"
proof -
  note facts = scan_Inr [OF s, simplified]
  from inv have start: "from \<in> seen st" and unseen: "to \<notin> seen st"
    and queued: "set (queue st) \<subseteq> seen st"
    and finished: "\<forall>x \<in> seen st - set (queue st). set (succs g x) \<subseteq> seen st"
    and link: "\<forall>x p. previous st x = Some p \<longrightarrow> x \<in> set (succs g p)"
    and walk: "\<forall>x \<in> seen st. \<exists>ys. traced (previous st) from x ys \<and> set ys \<subseteq> seen st"
    unfolding searching_def by blast+
  obtain new where new: "queue st' = rest @ new" "set new = set (succs g current) - seen st"
    using facts(4) by blast
  have cur: "current \<in> seen st" using queued q by simp
  have closed: "set (succs g x) \<subseteq> seen st'" if "x \<in> seen st' - set (queue st')" for x
  proof (cases "x = current")
    case True
    with facts(2) show ?thesis by simp
  next
    case False
    with that new facts(2) q have "x \<in> seen st - set (queue st)" by auto
    with finished facts(2) show ?thesis by blast
  qed
  have prev: "x \<in> set (succs g p)" if "previous st' x = Some p" for x p
    using that link facts(3) by (simp split: if_splits)
  have agree: "previous st' y = previous st y" if "y \<in> seen st" for y
    using that facts(3) by simp
  have old: "\<exists>ys. traced (previous st') from x ys \<and> set ys \<subseteq> seen st" if "x \<in> seen st" for x
    using walk that agree by (meson subsetD traced_agree)
  have "\<exists>ys. traced (previous st') from x ys \<and> set ys \<subseteq> seen st'" if x: "x \<in> seen st'" for x
  proof (cases "x \<in> seen st")
    case True
    with old facts(2) show ?thesis by blast
  next
    case False
    with x facts(2,3) have "previous st' x = Some current" by simp
    moreover obtain ys where "traced (previous st') from current ys" "set ys \<subseteq> seen st"
      using old [OF cur] by blast
    moreover have "x \<noteq> from" using False start by blast
    ultimately have "traced (previous st') from x (x # ys)" "set (x # ys) \<subseteq> seen st'"
      using x facts(2) by (auto intro: traced.step)
    then show ?thesis by blast
  qed
  moreover have "to \<notin> seen st'" using facts(1,2) unseen by blast
  moreover have "set (queue st') \<subseteq> seen st'" using new facts(2) queued q by auto
  moreover have "from \<in> seen st'" using facts(2) start by blast
  ultimately show ?thesis using closed prev unfolding searching_def by blast
qed

lemma searching_exhausted:
  assumes "searching g from to st" and "queue st = []"
  shows "(from, to) \<notin> (edges g)\<^sup>*"
proof
  assume "(from, to) \<in> (edges g)\<^sup>*"
  then have "to \<in> seen st"
    by (induction rule: rtrancl_induct) (use assms in \<open>auto simp: searching_def\<close>)
  with assms(1) show False by (simp add: searching_def)
qed

lemma searching_found:
  assumes inv: "searching g from to st" and q: "queue st = current # rest"
    and s: "scan to current (succs g current) (st\<lparr>queue := rest\<rparr>) = Inl prev"
  shows "\<exists>path. walkBack prev from current [to] = Some path \<and> isPath g from to (rev path)"
proof -
  note facts = scan_Inl [OF s, simplified]
  obtain ys where ys: "traced (previous st) from current ys" "set ys \<subseteq> seen st"
    using inv q unfolding searching_def by force
  have "traced prev from current ys"
    using traced_agree [OF ys(1)] ys(2) facts by blast
  then have "walkBack prev from current [to] = Some (to # ys)"
    by (simp add: walkBack_traced)
  moreover have "successively (\<lambda>w v. w \<in> set (succs g v)) (to # ys)"
    using traced_edges [OF ys(1), of g] traced_shape [OF ys(1)] inv facts
    by (cases ys) (auto simp: searching_def)
  ultimately show ?thesis
    using traced_shape [OF ys(1)] by (simp add: isPath_def successively_rev hd_append hd_rev)
qed

lemma bfs_correct:
  "searching g from to st \<Longrightarrow>
     (\<exists>p. bfs g from to st = Path p \<and> isPath g from to p)
     \<or> (bfs g from to st = NoPath \<and> (from, to) \<notin> (edges g)\<^sup>*)"
proof (induction g "from" to st rule: bfs.induct)
  case (1 g "from" to st)
  show ?case
  proof (cases "queue st")
    case Nil
    with searching_exhausted [OF "1.prems"] show ?thesis by (subst (1 2) bfs.simps) simp
  next
    case (Cons current rest)
    show ?thesis
    proof (cases "scan to current (succs g current) (st\<lparr>queue := rest\<rparr>)")
      case (Inl prev)
      with searching_found [OF "1.prems" Cons] Cons show ?thesis by (subst bfs.simps) fastforce
    next
      case (Inr st')
      with "1.IH" [OF Cons Inr searching_scan [OF "1.prems" Cons Inr]] Cons
      show ?thesis by (subst (1 2) bfs.simps) simp
    qed
  qed
qed

theorem dependencyPath_correct:
  "case dependencyPath from to g of
     Path p \<Rightarrow> isPath g from to p
   | NoPath \<Rightarrow> (from, to) \<notin> (edges g)\<^sup>*
   | Diverges \<Rightarrow> False"
proof (cases "from = to")
  case True
  then show ?thesis by (simp add: dependencyPath_def isPath_def)
next
  case False
  with bfs_correct [OF searching_start [OF False], of g] show ?thesis
    by (auto simp: dependencyPath_def)
qed

lemma dependencyPath_Path: "dependencyPath from to g = Path p \<Longrightarrow> isPath g from to p"
  using dependencyPath_correct [where ?from = "from" and to = to and g = g] by simp

lemma dependencyPath_NoPath:
  "dependencyPath from to g = NoPath \<longleftrightarrow> (from, to) \<notin> (edges g)\<^sup>*"
  using dependencyPath_correct [where ?from = "from" and to = to and g = g]
  by (auto split: found.splits dest: isPath_rtrancl)

lemma dependencyPath_returns: "dependencyPath from to g \<noteq> Diverges"
  using dependencyPath_correct [where ?from = "from" and to = to and g = g] by auto

subsection \<open>The loop a proposal would close\<close>

text \<open>
  The first dependency that leads back wins. \<open>dependencyPath\<close> always returns
  (\<open>dependencyPath_returns\<close>), so its divergent answer never decides here.
\<close>

fun firstBack :: "'a \<Rightarrow> 'a list \<Rightarrow> 'a graph \<Rightarrow> 'a list option" where
  "firstBack workspaceId [] g = None"
| "firstBack workspaceId (dependency # rest) g =
     (case dependencyPath dependency workspaceId g of
        Path back \<Rightarrow> Some (workspaceId # back)
      | _ \<Rightarrow> firstBack workspaceId rest g)"

definition dependencyCycle :: "'a \<Rightarrow> 'a list \<Rightarrow> 'a graph \<Rightarrow> 'a list option" where
  "dependencyCycle workspaceId proposed dependsOn =
     firstBack workspaceId proposed (AList.update workspaceId proposed dependsOn)"

lemma firstBack_None:
  "firstBack w ds g = None \<longleftrightarrow> (\<forall>d \<in> set ds. (d, w) \<notin> (edges g)\<^sup>*)"
proof (induction ds)
  case (Cons d ds)
  then show ?case
    using dependencyPath_NoPath [where ?from = d and to = w and g = g]
      dependencyPath_returns [where ?from = d and to = w and g = g]
    by (cases "dependencyPath d w g") auto
qed simp

lemma firstBack_Some:
  "firstBack w ds g = Some c \<Longrightarrow> \<exists>d \<in> set ds. \<exists>p. c = w # p \<and> isPath g d w p"
  by (induction ds) (auto split: found.splits dest: dependencyPath_Path)

theorem dependencyCycle_None:
  "dependencyCycle w proposed g = None
     \<longleftrightarrow> (w, w) \<notin> (edges (AList.update w proposed g))\<^sup>+"
proof -
  let ?g = "AList.update w proposed g"
  have "(w, w) \<in> (edges ?g)\<^sup>+ \<longleftrightarrow> (\<exists>d \<in> set proposed. (d, w) \<in> (edges ?g)\<^sup>*)"
  proof
    assume "(w, w) \<in> (edges ?g)\<^sup>+"
    then obtain d where "(w, d) \<in> edges ?g" "(d, w) \<in> (edges ?g)\<^sup>*" by (meson tranclD)
    then show "\<exists>d \<in> set proposed. (d, w) \<in> (edges ?g)\<^sup>*" by auto
  next
    assume "\<exists>d \<in> set proposed. (d, w) \<in> (edges ?g)\<^sup>*"
    then obtain d where "(w, d) \<in> edges ?g" "(d, w) \<in> (edges ?g)\<^sup>*" by auto
    then show "(w, w) \<in> (edges ?g)\<^sup>+" by (rule rtrancl_into_trancl2)
  qed
  then show ?thesis by (simp add: dependencyCycle_def firstBack_None)
qed

theorem dependencyCycle_Some:
  assumes "dependencyCycle w proposed g = Some c"
  shows "isPath (AList.update w proposed g) w w c \<and> 2 \<le> length c"
proof -
  obtain d p where d: "d \<in> set proposed" "c = w # p" "isPath (AList.update w proposed g) d w p"
    using firstBack_Some assms unfolding dependencyCycle_def by fast
  then show ?thesis by (cases p) (auto simp: isPath_def)
qed

subsection \<open>Everything that transitively depends on a workspace\<close>

fun indexTargets :: "'a \<Rightarrow> 'a list \<Rightarrow> 'a graph \<Rightarrow> 'a graph" where
  "indexTargets source [] dependents = dependents"
| "indexTargets source (target # rest) dependents =
     indexTargets source rest (AList.update target (succs dependents target @ [source]) dependents)"

definition dependentsIndex :: "'a graph \<Rightarrow> 'a graph" where
  "dependentsIndex dependsOn = foldl (\<lambda>dependents (source, ts). indexTargets source ts dependents) [] dependsOn"

fun expand :: "'a \<Rightarrow> 'a list \<Rightarrow> 'a set \<Rightarrow> 'a list \<Rightarrow> 'a set \<times> 'a list" where
  "expand workspaceId [] result q = (result, q)"
| "expand workspaceId (dependent # rest) result q =
     (if dependent \<in> result \<or> dependent = workspaceId then expand workspaceId rest result q
      else expand workspaceId rest (insert dependent result) (q @ [dependent]))"

lemma expand_spec:
  "expand w ns result q = (result', q') \<Longrightarrow>
     result' = result \<union> (set ns - {w})
     \<and> (\<exists>new. q' = q @ new \<and> distinct new \<and> set new = set ns - {w} - result)"
proof (induction ns arbitrary: result q)
  case (Cons n ns)
  show ?case
  proof (cases "n \<in> result \<or> n = w")
    case True
    with Cons.prems Cons.IH [of result q] show ?thesis by (auto simp: insert_absorb)
  next
    case False
    with Cons.prems have "expand w ns (insert n result) (q @ [n]) = (result', q')" by simp
    from Cons.IH [OF this] obtain new where new: "result' = insert n result \<union> (set ns - {w})"
      "q' = q @ n # new" "distinct new" "set new = set ns - {w} - insert n result" by auto
    have "result' = result \<union> (set (n # ns) - {w})" using new(1) False by auto
    moreover have "distinct (n # new) \<and> set (n # new) = set (n # ns) - {w} - result"
      using new(3,4) False by auto
    ultimately show ?thesis using new(2) by blast
  qed
qed simp

function dependentsLoop :: "'a graph \<Rightarrow> 'a \<Rightarrow> 'a set \<Rightarrow> 'a list \<Rightarrow> 'a set" where
  "dependentsLoop dependents workspaceId result q =
     (case q of
        [] \<Rightarrow> result
      | current # rest \<Rightarrow>
          (case expand workspaceId (succs dependents current) result rest of
             (result', q') \<Rightarrow> dependentsLoop dependents workspaceId result' q'))"
  by pat_completeness auto
termination
proof (relation "measure (\<lambda>(g, w, result, q). 2 * card (targets g - result) + length q)")
  fix g :: "'a graph" and w :: 'a and result q current rest result' q'
  assume q: "q = current # rest" and x: "(result', q') = expand w (succs g current) result rest"
  obtain new where new: "result' = result \<union> (set (succs g current) - {w})" "q' = rest @ new"
    "distinct new" "set new = set (succs g current) - {w} - result"
    using expand_spec [of w "succs g current" result rest result' q'] x by auto
  have sub: "set new \<subseteq> targets g - result" using new(4) succs_targets [of g current] by auto
  have "targets g - result' = (targets g - result) - set new" using new(1,4) by auto
  then have "card (targets g - result') + card (set new) = card (targets g - result)"
    using sub by (metis card_Diff_subset card_mono finite_Diff finite_set finite_targets le_add_diff_inverse2)
  then show "((g, w, result', q'), g, w, result, q)
      \<in> measure (\<lambda>(g, w, result, q). 2 * card (targets g - result) + length q)"
    using new(2,3) q by (simp add: distinct_card)
qed simp

declare dependentsLoop.simps [simp del]

definition transitiveDependents :: "'a \<Rightarrow> 'a graph \<Rightarrow> 'a set" where
  "transitiveDependents workspaceId dependsOn =
     dependentsLoop (dependentsIndex dependsOn) workspaceId {} [workspaceId]"

lemma succs_indexTargets:
  "set (succs (indexTargets source ts d) t) = set (succs d t) \<union> (if t \<in> set ts then {source} else {})"
  by (induction source ts d rule: indexTargets.induct) auto

lemma succs_foldl_index:
  "set (succs (foldl (\<lambda>d (source, ts). indexTargets source ts d) d g) t)
     = set (succs d t) \<union> {source. \<exists>ts. (source, ts) \<in> set g \<and> t \<in> set ts}"
  by (induction g arbitrary: d) (auto simp: succs_indexTargets split: if_splits)

lemma edges_dependentsIndex:
  assumes "distinct (map fst g)"
  shows "edges (dependentsIndex g) = (edges g)\<inverse>"
proof -
  have "source \<in> set (succs (dependentsIndex g) t) \<longleftrightarrow> t \<in> set (succs g source)" for source t
  proof -
    have "source \<in> set (succs (dependentsIndex g) t) \<longleftrightarrow> (\<exists>ts. (source, ts) \<in> set g \<and> t \<in> set ts)"
      by (simp add: dependentsIndex_def succs_foldl_index) (simp add: succs_def)
    also have "\<dots> \<longleftrightarrow> t \<in> set (succs g source)"
      using assms by (auto simp: succs_def split: option.splits dest: map_of_SomeD)
    finally show ?thesis .
  qed
  then show ?thesis by (auto simp: edges_def)
qed

definition expanding :: "'a graph \<Rightarrow> 'a \<Rightarrow> 'a set \<Rightarrow> 'a list \<Rightarrow> bool" where
  "expanding d w result q \<longleftrightarrow>
     w \<notin> result \<and> set q \<subseteq> insert w result
     \<and> (\<forall>x \<in> result. (w, x) \<in> (edges d)\<^sup>*)
     \<and> (\<forall>x \<in> insert w result - set q. set (succs d x) \<subseteq> insert w result)"

lemma expanding_step:
  assumes inv: "expanding d w result (current # rest)"
    and e: "expand w (succs d current) result rest = (result', q')"
  shows "expanding d w result' q'"
proof -
  obtain new where new: "result' = result \<union> (set (succs d current) - {w})" "q' = rest @ new"
    "set new = set (succs d current) - {w} - result"
    using expand_spec [OF e] by auto
  from inv have out: "w \<notin> result" and queued: "set (current # rest) \<subseteq> insert w result"
    and reach: "\<forall>x \<in> result. (w, x) \<in> (edges d)\<^sup>*"
    and finished: "\<forall>x \<in> insert w result - set (current # rest). set (succs d x) \<subseteq> insert w result"
    unfolding expanding_def by blast+
  have cur: "(w, current) \<in> (edges d)\<^sup>*" using queued reach by auto
  have "(w, x) \<in> (edges d)\<^sup>*" if "x \<in> result'" for x
    using that reach new(1) rtrancl_into_rtrancl [OF cur] by auto
  moreover have "set (succs d x) \<subseteq> insert w result'" if x: "x \<in> insert w result' - set q'" for x
  proof (cases "x = current")
    case True
    with new(1) show ?thesis by auto
  next
    case False
    with x new have "x \<in> insert w result - set (current # rest)" by auto
    with finished new(1) show ?thesis by blast
  qed
  moreover have "w \<notin> result'" using out new(1) by simp
  moreover have "set q' \<subseteq> insert w result'" using queued new by auto
  ultimately show ?thesis unfolding expanding_def by blast
qed

lemma dependentsLoop_reach:
  "expanding d w result q \<Longrightarrow> dependentsLoop d w result q = {x. x \<noteq> w \<and> (w, x) \<in> (edges d)\<^sup>*}"
proof (induction d w result q rule: dependentsLoop.induct)
  case (1 d w result q)
  show ?case
  proof (cases q)
    case Nil
    have "x \<in> insert w result" if "(w, x) \<in> (edges d)\<^sup>*" for x
      using that by (induction rule: rtrancl_induct) (use "1.prems" Nil in \<open>auto simp: expanding_def\<close>)
    with "1.prems" Nil show ?thesis by (subst dependentsLoop.simps) (auto simp: expanding_def)
  next
    case (Cons current rest)
    obtain result' q' where e: "expand w (succs d current) result rest = (result', q')" by fastforce
    have "expanding d w result' q'" using expanding_step [OF _ e] "1.prems" Cons by simp
    then have "dependentsLoop d w result' q' = {x. x \<noteq> w \<and> (w, x) \<in> (edges d)\<^sup>*}"
      using "1.IH" [OF Cons e [symmetric]] by simp
    with Cons e show ?thesis by (subst dependentsLoop.simps) simp
  qed
qed

theorem transitiveDependents_correct:
  assumes "distinct (map fst g)"
  shows "transitiveDependents w g = {x. x \<noteq> w \<and> (x, w) \<in> (edges g)\<^sup>+}"
proof -
  have "transitiveDependents w g = {x. x \<noteq> w \<and> (w, x) \<in> (edges (dependentsIndex g))\<^sup>*}"
    unfolding transitiveDependents_def
    by (rule dependentsLoop_reach) (simp add: expanding_def)
  then show ?thesis
    by (auto simp: edges_dependentsIndex [OF assms] rtrancl_converse rtrancl_eq_or_trancl)
qed

subsection \<open>What the searches promise\<close>

text \<open>
  \<open>dependencyPath\<close> always returns. A path it answers leads from the first workspace to the
  second along \<open>dependsOn\<close> edges, both included; when it answers none, the second is not
  reachable from the first.
\<close>

theorem dependencyPath_answers:
  "case dependencyPath from to g of
     Path p \<Rightarrow> isPath g from to p
   | NoPath \<Rightarrow> (from, to) \<notin> (edges g)\<^sup>*
   | Diverges \<Rightarrow> False"
  using dependencyPath_Path [of "from" to g] dependencyPath_NoPath [of "from" to g]
    dependencyPath_returns [of "from" to g]
  by (auto split: found.split)

text \<open>
  The picker and the writer agree: the workspaces \<open>transitiveDependents\<close> takes out of the
  candidates are, with the workspace itself, exactly those whose addition as the only dependency
  \<open>dependencyCycle\<close> refuses.
\<close>

theorem transitiveDependents_refused:
  assumes "distinct (map fst g)"
  shows "d \<in> insert w (transitiveDependents w g) \<longleftrightarrow> dependencyCycle w [d] g \<noteq> None"
proof -
  let ?G = "AList.update w [d] g"
  have kept: "(x, y) \<in> edges ?G \<longleftrightarrow> (x, y) \<in> edges g" if "x \<noteq> w" for x y
    using that by simp
  have into: "(x, w) \<in> (edges ?G)\<^sup>* \<longleftrightarrow> (x, w) \<in> (edges g)\<^sup>*" for x
  proof
    show "(x, w) \<in> (edges g)\<^sup>*" if "(x, w) \<in> (edges ?G)\<^sup>*"
      using that
    proof (induction rule: converse_rtrancl_induct)
      case (step y z)
      then show ?case using kept by (cases "y = w") (auto intro: converse_rtrancl_into_rtrancl)
    qed simp
    show "(x, w) \<in> (edges ?G)\<^sup>*" if "(x, w) \<in> (edges g)\<^sup>*"
      using that
    proof (induction rule: converse_rtrancl_induct)
      case (step y z)
      then show ?case using kept by (cases "y = w") (auto intro: converse_rtrancl_into_rtrancl)
    qed simp
  qed
  have "(w, w) \<in> (edges ?G)\<^sup>+ \<longleftrightarrow> (d, w) \<in> (edges ?G)\<^sup>*"
    using tranclD [of w w "edges ?G"] rtrancl_into_trancl2 [of w d "edges ?G" w] by auto
  then have "dependencyCycle w [d] g \<noteq> None \<longleftrightarrow> (d, w) \<in> (edges g)\<^sup>*"
    using dependencyCycle_None [of w "[d]" g] into by simp
  then show ?thesis
    by (auto simp: transitiveDependents_correct [OF assms] rtrancl_eq_or_trancl)
qed

theorem transitiveDependents_refused_witness:
  "(''c'' :: string) \<in> insert ''a'' (transitiveDependents ''a'' [(''c'', [''b'']), (''b'', [''a''])])
     \<longleftrightarrow> dependencyCycle ''a'' [''c''] [(''c'', [''b'']), (''b'', [''a''])] \<noteq> None"
  by (rule transitiveDependents_refused) simp

end
