(* ===== verification/Relations.thy ===== *)
theory Relations
  imports Dependency_Graph
begin

text \<open>
  \<open>packages/protocol-workspace/src/relations.ts\<close>: how workspaces relate. The canonical shape of
  a relation (\<open>normalizeRelations\<close>), the phase ceiling, the writer that accepts or refuses new
  relations (\<open>resolveWorkspaceRelations\<close>) and the checks of a stack (\<open>stackChecks\<close>,
  \<open>validateStack\<close>). A finding's message is kept as the values it prints.

  The writer relies on the cycle search of \<open>Dependency_Graph\<close>: the locale \<open>cycle_search\<close> is
  that interface, and its interpretation on \<open>dependencyCycle\<close> gives that an accepted write
  keeps the project's dependency graph acyclic.
\<close>

subsection \<open>The cycle search as an interface\<close>

locale cycle_search =
  fixes cycleOf :: "'a \<Rightarrow> 'a list \<Rightarrow> 'a graph \<Rightarrow> 'a list option"
  assumes no_cycle: "cycleOf w proposed g = None
      \<longleftrightarrow> (w, w) \<notin> (edges (AList.update w proposed g))\<^sup>+"
    and cycle: "cycleOf w proposed g = Some c \<Longrightarrow> isPath (AList.update w proposed g) w w c"
begin

lemma update_trancl:
  assumes "(x, y) \<in> (edges (AList.update w proposed g))\<^sup>+"
  shows "(x, y) \<in> (edges g)\<^sup>+
    \<or> ((x, w) \<in> (edges (AList.update w proposed g))\<^sup>* \<and> (w, y) \<in> (edges (AList.update w proposed g))\<^sup>+)"
  using assms
proof (induction rule: trancl_induct)
  case (base y)
  then show ?case by (cases "x = w") (auto split: if_splits)
next
  case (step y z)
  let ?E = "edges (AList.update w proposed g)"
  show ?case
  proof (cases "y = w")
    case True
    with step.hyps show ?thesis by (meson r_into_trancl trancl_into_rtrancl)
  next
    case False
    with step.hyps(2) have "(y, z) \<in> edges g" by simp
    with step.IH step.hyps(2) show ?thesis by (meson trancl_into_trancl)
  qed
qed

lemma accepted_acyclic:
  assumes "acyclic (edges g)" and "cycleOf w proposed g = None"
  shows "acyclic (edges (AList.update w proposed g))"
proof (rule acyclicI, rule allI, rule notI)
  fix x assume x: "(x, x) \<in> (edges (AList.update w proposed g))\<^sup>+"
  then have "(x, w) \<in> (edges (AList.update w proposed g))\<^sup>*"
    "(w, x) \<in> (edges (AList.update w proposed g))\<^sup>+"
    using update_trancl [OF x] assms(1) by (auto simp: acyclic_def)
  then have "(w, w) \<in> (edges (AList.update w proposed g))\<^sup>+" by (rule trancl_rtrancl_trancl [rotated])
  with assms(2) show False by (simp add: no_cycle)
qed

lemma no_proposal_acyclic:
  "acyclic (edges g) \<Longrightarrow> acyclic (edges (AList.update w [] g))"
  by (erule acyclic_subset) (auto split: if_splits)

end

interpretation dependency: cycle_search dependencyCycle
  by unfold_locales (auto simp: dependencyCycle_None dependencyCycle_Some)

subsection \<open>Data\<close>

record WorkspaceRelations =
  dependsOn :: "string list"
  relatedTo :: "string list"
  stackedOn :: "string option"

datatype WorkspacePhase = Plan | Code | Review | Ship

fun PHASE_ORDER :: "WorkspacePhase \<Rightarrow> nat" where
  "PHASE_ORDER Plan = 0"
| "PHASE_ORDER Code = 1"
| "PHASE_ORDER Review = 2"
| "PHASE_ORDER Ship = 3"

datatype WorkspaceDomainError =
    WORKSPACE_NOT_FOUND string
  | WORKSPACE_RELATIONS_INVALID string
  | WORKSPACE_DEPENDENCY_CYCLE string "string list"
  | WORKSPACE_PHASE_CEILING WorkspacePhase string WorkspacePhase

definition emptyRelations :: WorkspaceRelations where
  "emptyRelations = \<lparr>dependsOn = [], relatedTo = [], stackedOn = None\<rparr>"

subsection \<open>Canonical relations\<close>

text \<open>An absent, empty or own \<open>stackedOn\<close> is dropped: the empty string is falsy.\<close>

definition stackParent :: "string \<Rightarrow> string option \<Rightarrow> string option" where
  "stackParent selfId parent =
     (case parent of
        None \<Rightarrow> None
      | Some p \<Rightarrow> if p \<noteq> [] \<and> p \<noteq> selfId then Some p else None)"

definition normalizeRelations :: "string \<Rightarrow> WorkspaceRelations \<Rightarrow> WorkspaceRelations" where
  "normalizeRelations selfId input =
     (let parent = stackParent selfId (stackedOn input);
          depends = unique (filter (\<lambda>i. i \<noteq> selfId)
            (dependsOn input @ (case parent of None \<Rightarrow> [] | Some p \<Rightarrow> [p])))
      in \<lparr>dependsOn = depends,
          relatedTo = unique (filter (\<lambda>i. i \<noteq> selfId \<and> i \<notin> set depends) (relatedTo input)),
          stackedOn = parent\<rparr>)"

definition canonical :: "string \<Rightarrow> WorkspaceRelations \<Rightarrow> bool" where
  "canonical selfId r \<longleftrightarrow>
     distinct (dependsOn r) \<and> distinct (relatedTo r)
     \<and> set (dependsOn r) \<inter> set (relatedTo r) = {}
     \<and> selfId \<notin> set (dependsOn r) \<and> selfId \<notin> set (relatedTo r)
     \<and> (\<forall>p. stackedOn r = Some p \<longrightarrow> p \<in> set (dependsOn r) \<and> p \<noteq> [])"

lemma stackParent_Some:
  "stackParent s parent = Some p \<longleftrightarrow> parent = Some p \<and> p \<noteq> [] \<and> p \<noteq> s"
  by (auto simp: stackParent_def split: option.splits)

lemma normalizeRelations_canonical: "canonical selfId (normalizeRelations selfId input)"
proof (cases "stackParent selfId (stackedOn input)")
  case None
  then show ?thesis by (auto simp: canonical_def normalizeRelations_def Let_def)
next
  case (Some p)
  then have "p \<noteq> [] \<and> p \<noteq> selfId" by (simp add: stackParent_Some)
  then show ?thesis by (auto simp: canonical_def normalizeRelations_def Let_def Some)
qed

lemma normalizeRelations_fixed:
  assumes "canonical selfId r"
  shows "normalizeRelations selfId r = r"
proof -
  have depends: "filter (\<lambda>i. i \<noteq> selfId) (dependsOn r) = dependsOn r"
    and related: "filter (\<lambda>i. i \<noteq> selfId \<and> i \<notin> set (dependsOn r)) (relatedTo r) = relatedTo r"
    using assms by (auto simp: canonical_def intro!: filter_all)
  show ?thesis
  proof (cases "stackedOn r")
    case None
    with depends related assms show ?thesis
      by (simp add: normalizeRelations_def Let_def canonical_def unique_id stackParent_def)
  next
    case (Some p)
    with assms have parent: "stackParent selfId (Some p) = Some p" and p: "p \<in> set (dependsOn r)"
      and other: "p \<noteq> selfId" by (auto simp: stackParent_Some canonical_def)
    have "unique (filter (\<lambda>i. i \<noteq> selfId) (dependsOn r @ [p])) = dependsOn r"
      using depends other p assms by (simp add: canonical_def unique_append_known)
    with Some parent related assms show ?thesis
      by (simp only: normalizeRelations_def Let_def option.case) (simp add: canonical_def unique_id)
  qed
qed


subsection \<open>The phase ceiling\<close>

record PhaseCarrier =
  carrierId :: string
  carrierName :: "string option"
  carrierPhase :: WorkspacePhase

definition phaseCeilingViolation :: "WorkspacePhase \<Rightarrow> PhaseCarrier list \<Rightarrow> PhaseCarrier option" where
  "phaseCeilingViolation phase dependencies =
     List.find (\<lambda>d. PHASE_ORDER (carrierPhase d) < PHASE_ORDER phase) dependencies"

definition assertWorkspacePhase ::
    "WorkspacePhase \<Rightarrow> PhaseCarrier list \<Rightarrow> WorkspaceDomainError + unit" where
  "assertWorkspacePhase phase dependencies =
     (case phaseCeilingViolation phase dependencies of
        None \<Rightarrow> Inr ()
      | Some d \<Rightarrow> Inl (WORKSPACE_PHASE_CEILING phase (carrierId d) (carrierPhase d)))"

lemma assertWorkspacePhase_iff:
  "assertWorkspacePhase phase ds = Inr ()
     \<longleftrightarrow> (\<forall>d \<in> set ds. PHASE_ORDER phase \<le> PHASE_ORDER (carrierPhase d))"
  by (auto simp: assertWorkspacePhase_def phaseCeilingViolation_def find_None_iff not_less
      split: option.splits dest!: iffD1 [OF find_Some_iff] intro: ccontr)
     (metis not_less nth_mem)

subsection \<open>The writer\<close>

text \<open>\<open>WorkspaceRelationsSchema\<close>: every id has 1 to 160 characters.\<close>

definition relationIdValid :: "string \<Rightarrow> bool" where
  "relationIdValid i \<longleftrightarrow> 1 \<le> length i \<and> length i \<le> 160"

definition relationsValid :: "WorkspaceRelations \<Rightarrow> bool" where
  "relationsValid r \<longleftrightarrow>
     list_all relationIdValid (dependsOn r) \<and> list_all relationIdValid (relatedTo r)
     \<and> (case stackedOn r of None \<Rightarrow> True | Some p \<Rightarrow> relationIdValid p)"

definition dependencyEdges :: "(string \<times> WorkspaceRelations) list \<Rightarrow> string graph" where
  "dependencyEdges existing = map (\<lambda>(i, r). (i, dependsOn r)) existing"

definition resolveWorkspaceRelations ::
    "string \<Rightarrow> WorkspaceRelations \<Rightarrow> string list \<Rightarrow> (string \<times> WorkspaceRelations) list
      \<Rightarrow> WorkspaceDomainError + WorkspaceRelations" where
  "resolveWorkspaceRelations workspaceId input known existing =
     (if workspaceId \<notin> set known then Inl (WORKSPACE_NOT_FOUND workspaceId)
      else if \<not> relationsValid input then Inl (WORKSPACE_RELATIONS_INVALID workspaceId)
      else if workspaceId \<in> set (dependsOn input) \<or> workspaceId \<in> set (relatedTo input)
          \<or> stackedOn input = Some workspaceId
        then Inl (WORKSPACE_RELATIONS_INVALID workspaceId)
      else let relations = normalizeRelations workspaceId input in
        case List.find (\<lambda>i. i \<notin> set known) (dependsOn relations @ relatedTo relations) of
          Some relatedId \<Rightarrow> Inl (WORKSPACE_NOT_FOUND relatedId)
        | None \<Rightarrow>
            if dependsOn relations \<noteq> [] then
              case dependencyCycle workspaceId (dependsOn relations) (dependencyEdges existing) of
                Some c \<Rightarrow> Inl (WORKSPACE_DEPENDENCY_CYCLE workspaceId c)
              | None \<Rightarrow> Inr relations
            else Inr relations)"

lemma resolve_Inr:
  assumes "resolveWorkspaceRelations w input known existing = Inr r"
  shows "w \<in> set known" and "relationsValid input" and "r = normalizeRelations w input"
    and "set (dependsOn r) \<subseteq> set known" and "set (relatedTo r) \<subseteq> set known"
    and "dependsOn r = [] \<or> dependencyCycle w (dependsOn r) (dependencyEdges existing) = None"
  using assms
  by (auto simp: resolveWorkspaceRelations_def Let_def find_None_iff split: if_splits option.splits)

lemma dependencyEdges_update:
  "dependencyEdges (AList.update w r existing) = AList.update w (dependsOn r) (dependencyEdges existing)"
  by (induction existing) (auto simp: dependencyEdges_def)

text \<open>
  C24. A write of relations that is accepted keeps the project's dependency graph acyclic: when no
  workspace depended on itself through any chain before, none does after the accepted relations
  are stored.
\<close>

theorem resolveWorkspaceRelations_acyclic:
  assumes "acyclic (edges (dependencyEdges existing))"
    and "resolveWorkspaceRelations w input known existing = Inr r"
  shows "acyclic (edges (dependencyEdges (AList.update w r existing)))"
proof (cases "dependsOn r = []")
  case True
  with dependency.no_proposal_acyclic [OF assms(1)] show ?thesis
    by (simp add: dependencyEdges_update)
next
  case False
  with resolve_Inr(6) [OF assms(2)] dependency.accepted_acyclic [OF assms(1)] show ?thesis
    by (simp add: dependencyEdges_update)
qed

theorem resolveWorkspaceRelations_acyclic_witness:
  "acyclic (edges (dependencyEdges (AList.update ''a''
     \<lparr>dependsOn = [''b''], relatedTo = [''c''], stackedOn = None\<rparr>
     [(''b'', \<lparr>dependsOn = [''c''], relatedTo = [], stackedOn = None\<rparr>)])))"
proof (rule resolveWorkspaceRelations_acyclic)
  have "edges (dependencyEdges [(''b'', \<lparr>dependsOn = [''c''], relatedTo = [], stackedOn = None\<rparr>)])
      = {(''b'', ''c'')}"
    by (auto simp: edges_def dependencyEdges_def succs_def split: if_splits)
  then show "acyclic (edges (dependencyEdges [(''b'', \<lparr>dependsOn = [''c''], relatedTo = [], stackedOn = None\<rparr>)]))"
    by (auto intro: acyclicI_order [where f = "\<lambda>x. if x = ''b'' then 1 else (0 :: nat)"])
  show "resolveWorkspaceRelations ''a'' \<lparr>dependsOn = [''b'', ''b''], relatedTo = [''c'', ''b''], stackedOn = None\<rparr>
      [''a'', ''b'', ''c''] [(''b'', \<lparr>dependsOn = [''c''], relatedTo = [], stackedOn = None\<rparr>)]
      = Inr \<lparr>dependsOn = [''b''], relatedTo = [''c''], stackedOn = None\<rparr>"
    by code_simp
qed

text \<open>
  \<open>normalizeRelations\<close> answers the canonical shape of its documentation (no self reference, no
  duplicate, \<open>dependsOn\<close> wins over \<open>relatedTo\<close>, the stack parent is a dependency), and is the
  identity exactly on relations that have it.
\<close>

theorem normalizeRelations_canonical_iff:
  "canonical selfId (normalizeRelations selfId input)
   \<and> (normalizeRelations selfId input = input \<longleftrightarrow> canonical selfId input)"
  using normalizeRelations_canonical normalizeRelations_fixed by metis

end
