(* ===== verification/Stack_Cycles.thy ===== *)
theory Stack_Cycles
  imports Relations
begin

text \<open>
  \<open>packages/protocol-workspace/src/relations.ts\<close>, \<open>findDependencyCycles\<close>: Tarjan's strongly
  connected components over \<open>dependsOn\<close>, with the source's index, low link and stack. The stack
  is kept top first. \<open>connect\<close> is recursive and its \<open>do .. while\<close> pops until it meets its own
  node, so both are given fuel or an explicit \<^const>\<open>None\<close> for "does not return"; the lemmas at
  the end show that with one unit of fuel per workspace the search always returns.
\<close>

subsection \<open>Data\<close>

record StackWorkspace =
  wsId :: string
  wsName :: "string option"
  wsPhase :: WorkspacePhase
  closedAt :: "instant option"
  relations :: WorkspaceRelations

type_synonym workspaces = "(string \<times> StackWorkspace) list"

record tarjan =
  indexOf :: "string \<rightharpoonup> nat"
  lowLink :: "string \<rightharpoonup> nat"
  onStack :: "string set"
  stack :: "string list"
  counter :: nat
  cyclesOf :: "(string \<times> string list) list"

definition tarjanStart :: tarjan where
  "tarjanStart = \<lparr>indexOf = Map.empty, lowLink = Map.empty, onStack = {}, stack = [], counter = 0,
     cyclesOf = []\<rparr>"

definition dependenciesOf :: "workspaces \<Rightarrow> string \<Rightarrow> string list" where
  "dependenciesOf byId i = (case map_of byId i of None \<Rightarrow> [] | Some w \<Rightarrow> dependsOn (relations w))"

subsection \<open>The algorithm\<close>

fun popComponent :: "string \<Rightarrow> string list \<Rightarrow> string list \<Rightarrow> (string list \<times> string list) option" where
  "popComponent i [] component = None"
| "popComponent i (member # rest) component =
     (if member = i then Some (component @ [member], rest)
      else popComponent i rest (component @ [member]))"

definition enter :: "string \<Rightarrow> tarjan \<Rightarrow> tarjan" where
  "enter i s = s\<lparr>indexOf := (indexOf s)(i \<mapsto> counter s), lowLink := (lowLink s)(i \<mapsto> counter s),
     counter := counter s + 1, stack := i # stack s, onStack := insert i (onStack s)\<rparr>"

text \<open>\<open>Math.min(lowLink.get(id)!, other)\<close>, where both are present.\<close>

definition lowerTo :: "string \<Rightarrow> nat option \<Rightarrow> tarjan \<Rightarrow> tarjan" where
  "lowerTo i other s =
     (case (lowLink s i, other) of
        (Some a, Some b) \<Rightarrow> s\<lparr>lowLink := (lowLink s)(i \<mapsto> min a b)\<rparr>
      | _ \<Rightarrow> s)"

definition leave :: "workspaces \<Rightarrow> string \<Rightarrow> tarjan \<Rightarrow> tarjan option" where
  "leave byId i s =
     (if lowLink s i \<noteq> indexOf s i then Some s
      else case popComponent i (stack s) [] of
          None \<Rightarrow> None
        | Some (component, rest) \<Rightarrow>
            let s' = s\<lparr>stack := rest, onStack := onStack s - set component\<rparr> in
            if length component = 1 \<and> i \<notin> set (dependenciesOf byId i) then Some s'
            else Some (s'\<lparr>cyclesOf := foldl (\<lambda>m member. AList.update member (rev component) m)
              (cyclesOf s) (rev component)\<rparr>))"

fun connect :: "nat \<Rightarrow> workspaces \<Rightarrow> string \<Rightarrow> tarjan \<Rightarrow> tarjan option"
  and visitAll :: "nat \<Rightarrow> workspaces \<Rightarrow> string \<Rightarrow> string list \<Rightarrow> tarjan \<Rightarrow> tarjan option" where
  "connect 0 byId i s = None"
| "connect (Suc fuel) byId i s =
     (case visitAll fuel byId i (dependenciesOf byId i) (enter i s) of
        None \<Rightarrow> None | Some s' \<Rightarrow> leave byId i s')"
| "visitAll fuel byId i [] s = Some s"
| "visitAll fuel byId i (next # rest) s =
     (if next \<notin> fst ` set byId then visitAll fuel byId i rest s
      else if indexOf s next = None then
        (case connect fuel byId next s of
           None \<Rightarrow> None
         | Some s' \<Rightarrow> visitAll fuel byId i rest (lowerTo i (lowLink s' next) s'))
      else if next \<in> onStack s then visitAll fuel byId i rest (lowerTo i (indexOf s next) s)
      else visitAll fuel byId i rest s)"

fun connectAll :: "nat \<Rightarrow> workspaces \<Rightarrow> string list \<Rightarrow> tarjan \<Rightarrow> tarjan option" where
  "connectAll fuel byId [] s = Some s"
| "connectAll fuel byId (i # rest) s =
     (if indexOf s i = None then
        (case connect fuel byId i s of None \<Rightarrow> None | Some s' \<Rightarrow> connectAll fuel byId rest s')
      else connectAll fuel byId rest s)"

definition findDependencyCycles :: "workspaces \<Rightarrow> (string \<times> string list) list option" where
  "findDependencyCycles byId =
     map_option cyclesOf (connectAll (length byId) byId (map fst byId) tarjanStart)"

subsection \<open>The search returns\<close>

definition consistent :: "tarjan \<Rightarrow> bool" where
  "consistent s \<longleftrightarrow> distinct (stack s) \<and> set (stack s) \<subseteq> dom (indexOf s) \<and> onStack s = set (stack s)
     \<and> dom (lowLink s) = dom (indexOf s)"

text \<open>What a call may have done: it indexed more nodes and left what was below it on the stack.\<close>

definition extends :: "tarjan \<Rightarrow> tarjan \<Rightarrow> bool" where
  "extends s s' \<longleftrightarrow> dom (indexOf s) \<subseteq> dom (indexOf s') \<and> (\<exists>new. stack s' = new @ stack s)"

lemma extends_refl [simp]: "extends s s"
  by (simp add: extends_def)

lemma extends_trans: "extends s t \<Longrightarrow> extends t u \<Longrightarrow> extends s u"
  unfolding extends_def by (metis append.assoc subset_trans)

lemma popComponent_found:
  "distinct (xs @ i # ys) \<Longrightarrow> popComponent i (xs @ i # ys) acc = Some (acc @ xs @ [i], ys)"
  by (induction xs arbitrary: acc) auto

lemma lowerTo_fields [simp]:
  "indexOf (lowerTo i v s) = indexOf s" "stack (lowerTo i v s) = stack s"
  "onStack (lowerTo i v s) = onStack s" "counter (lowerTo i v s) = counter s"
  "cyclesOf (lowerTo i v s) = cyclesOf s"
  by (auto simp: lowerTo_def split: option.splits)

lemma dom_lowerTo [simp]: "dom (lowLink (lowerTo i v s)) = dom (lowLink s)"
  by (auto simp: lowerTo_def split: option.splits if_splits)

lemma consistent_lowerTo [simp]: "consistent (lowerTo i v s) = consistent s"
  by (simp add: consistent_def)

lemma extends_lowerTo [simp]:
  "extends s (lowerTo i v t) = extends s t" "extends (lowerTo i v s) t = extends s t"
  by (simp_all add: extends_def)

lemma consistent_enter: "consistent s \<Longrightarrow> indexOf s i = None \<Longrightarrow> consistent (enter i s)"
  by (auto simp: consistent_def enter_def)

lemma leave_returns:
  assumes "consistent s" and "consistent t" and "indexOf s i = None" and "extends (enter i s) t"
  shows "\<exists>u. leave byId i t = Some u \<and> consistent u \<and> extends s u"
proof -
  obtain new where new: "stack t = new @ i # stack s" and dom: "insert i (dom (indexOf s)) \<subseteq> dom (indexOf t)"
    using assms(4) by (auto simp: extends_def enter_def)
  show ?thesis
  proof (cases "lowLink t i = indexOf t i")
    case False
    with assms(2) new dom show ?thesis by (auto simp: leave_def extends_def)
  next
    case True
    have "distinct (new @ i # stack s)" using assms(2) new by (simp add: consistent_def)
    then have "popComponent i (stack t) [] = Some (new @ [i], stack s)"
      using popComponent_found [of new i "stack s" "[]"] new by simp
    with True assms(2) new dom show ?thesis
      by (auto simp: leave_def Let_def consistent_def extends_def)
  qed
qed

definition unindexed :: "workspaces \<Rightarrow> tarjan \<Rightarrow> string set" where
  "unindexed byId s = fst ` set byId - dom (indexOf s)"

lemma finite_unindexed [simp]: "finite (unindexed byId s)"
  by (simp add: unindexed_def)

lemma unindexed_extends: "extends s t \<Longrightarrow> card (unindexed byId t) \<le> card (unindexed byId s)"
  by (rule card_mono) (auto simp: unindexed_def extends_def)

lemma unindexed_lowerTo [simp]: "unindexed byId (lowerTo i v s) = unindexed byId s"
  by (simp add: unindexed_def)

lemma unindexed_enter:
  assumes "i \<in> fst ` set byId" and "indexOf s i = None"
  shows "card (unindexed byId s) = Suc (card (unindexed byId (enter i s)))"
proof -
  have "unindexed byId s = insert i (unindexed byId (enter i s))"
    using assms by (auto simp: unindexed_def enter_def)
  moreover have "i \<notin> unindexed byId (enter i s)" by (simp add: unindexed_def enter_def)
  ultimately show ?thesis by simp
qed

lemma connect_returns:
  "consistent s \<Longrightarrow> indexOf s i = None \<Longrightarrow> i \<in> fst ` set byId \<Longrightarrow> card (unindexed byId s) \<le> fuel \<Longrightarrow>
     \<exists>u. connect fuel byId i s = Some u \<and> consistent u \<and> extends s u"
  "consistent s \<Longrightarrow> card (unindexed byId s) \<le> fuel \<Longrightarrow>
     \<exists>u. visitAll fuel byId i ns s = Some u \<and> consistent u \<and> extends s u"
proof (induction fuel byId i s and fuel byId i ns s rule: connect_visitAll.induct)
  case (1 byId i s)
  then show ?case using unindexed_enter [of i byId s] by simp
next
  case (2 fuel byId i s)
  have "card (unindexed byId (enter i s)) \<le> fuel"
    using unindexed_enter [OF 2(4,3)] 2(5) by simp
  with 2(1) [OF consistent_enter [OF 2(2,3)]] obtain t where
    t: "visitAll fuel byId i (dependenciesOf byId i) (enter i s) = Some t" "consistent t"
      "extends (enter i s) t" by blast
  from leave_returns [OF 2(2) t(2) 2(3) t(3), of byId] t(1) show ?case by auto
next
  case (3 fuel byId i s)
  then show ?case by simp
next
  case (4 fuel byId i n ns s)
  show ?case
  proof (cases "n \<in> fst ` set byId \<and> indexOf s n = None")
    case True
    from 4(2) [of] True 4(6,7) obtain t where
      t: "connect fuel byId n s = Some t" "consistent t" "extends s t" by auto
    have "card (unindexed byId t) \<le> fuel" using unindexed_extends [OF t(3), of byId] 4(7) by simp
    then obtain u where
      "visitAll fuel byId i ns (lowerTo i (lowLink t n) t) = Some u" "consistent u" "extends (lowerTo i (lowLink t n) t) u"
      using 4(3) [OF _ _ t(1)] True t(2) by auto
    moreover have "extends s u"
      by (rule extends_trans [OF t(3)]) (use calculation(3) in simp)
    moreover have "visitAll fuel byId i (n # ns) s
        = visitAll fuel byId i ns (lowerTo i (lowLink t n) t)" using True t(1) by simp
    ultimately show ?thesis by metis
  next
    case False
    then show ?thesis using 4 by auto
  qed
qed

lemma connectAll_returns:
  "consistent s \<Longrightarrow> set is \<subseteq> fst ` set byId \<Longrightarrow> card (unindexed byId s) \<le> fuel \<Longrightarrow>
     \<exists>u. connectAll fuel byId is s = Some u"
proof (induction fuel byId "is" s rule: connectAll.induct)
  case (2 fuel byId i rest s)
  show ?case
  proof (cases "indexOf s i = None")
    case True
    then obtain t where t: "connect fuel byId i s = Some t" "consistent t" "extends s t"
      using connect_returns(1) [OF "2.prems"(1) True _ "2.prems"(3)] "2.prems"(2) by auto
    have "card (unindexed byId t) \<le> fuel"
      using unindexed_extends [OF t(3), of byId] "2.prems"(3) by simp
    with "2.IH"(1) [OF True t(1) t(2)] "2.prems"(2) True t(1) show ?thesis by simp
  next
    case False
    from False have "connectAll fuel byId (i # rest) s = connectAll fuel byId rest s"
      by (simp del: not_None_eq)
    with "2.IH"(2) [OF False "2.prems"(1)] "2.prems"(2,3) show ?thesis by simp
  qed
qed simp

lemma findDependencyCycles_returns: "\<exists>m. findDependencyCycles byId = Some m"
proof -
  have "card (unindexed byId tarjanStart) \<le> card (fst ` set byId)"
    by (rule card_mono) (auto simp: unindexed_def)
  also have "\<dots> \<le> length byId"
    using card_image_le [of "set byId" fst] card_length [of byId] by simp
  finally have "card (unindexed byId tarjanStart) \<le> length byId" .
  moreover have "consistent tarjanStart" by (simp add: consistent_def tarjanStart_def)
  ultimately show ?thesis
    using connectAll_returns [of tarjanStart "map fst byId" byId "length byId"]
    by (auto simp: findDependencyCycles_def)
qed

subsection \<open>What a reported cycle names\<close>

definition reports :: "workspaces \<Rightarrow> tarjan \<Rightarrow> bool" where
  "reports byId s \<longleftrightarrow> set (stack s) \<subseteq> fst ` set byId
     \<and> (\<forall>k c. map_of (cyclesOf s) k = Some c \<longrightarrow> k \<in> set c \<and> set c \<subseteq> fst ` set byId)"

lemma popComponent_set:
  "popComponent i st acc = Some (component, rest) \<Longrightarrow>
     set component \<subseteq> set acc \<union> set st \<and> set rest \<subseteq> set st"
  by (induction i st acc rule: popComponent.induct) (fastforce split: if_splits)+

lemma map_of_foldl_update:
  "map_of (foldl (\<lambda>m x. AList.update x c m) m xs) k = (if k \<in> set xs then Some c else map_of m k)"
  by (induction xs arbitrary: m) auto

lemma reports_lowerTo [simp]: "reports byId (lowerTo i v s) = reports byId s"
  by (simp add: reports_def)

lemma reports_leave:
  assumes "leave byId i s = Some u" and "reports byId s"
  shows "reports byId u"
proof (cases "lowLink s i = indexOf s i")
  case False
  with assms show ?thesis by (simp add: leave_def)
next
  case True
  with assms(1) obtain component rest where pop: "popComponent i (stack s) [] = Some (component, rest)"
    and u: "u = s\<lparr>stack := rest, onStack := onStack s - set component\<rparr> \<or>
      u = s\<lparr>stack := rest, onStack := onStack s - set component,
        cyclesOf := foldl (\<lambda>m member. AList.update member (rev component) m) (cyclesOf s) (rev component)\<rparr>"
    by (auto simp: leave_def Let_def split: option.splits if_splits)
  have sets: "set component \<subseteq> fst ` set byId" "set rest \<subseteq> fst ` set byId"
    using popComponent_set [OF pop] assms(2) unfolding reports_def by auto
  have old: "k \<in> set c \<and> set c \<subseteq> fst ` set byId" if "map_of (cyclesOf s) k = Some c" for k c
    using assms(2) that unfolding reports_def by blast
  from u show ?thesis
  proof
    assume "u = s\<lparr>stack := rest, onStack := onStack s - set component\<rparr>"
    with sets(2) old show ?thesis by (simp add: reports_def)
  next
    assume "u = s\<lparr>stack := rest, onStack := onStack s - set component,
        cyclesOf := foldl (\<lambda>m member. AList.update member (rev component) m) (cyclesOf s) (rev component)\<rparr>"
    with sets old show ?thesis by (simp add: reports_def map_of_foldl_update)
  qed
qed

lemma reports_connect:
  "connect fuel byId i s = Some u \<Longrightarrow> i \<in> fst ` set byId \<Longrightarrow> reports byId s \<Longrightarrow> reports byId u"
  "visitAll fuel byId i ns s = Some u \<Longrightarrow> reports byId s \<Longrightarrow> reports byId u"
proof (induction fuel byId i s and fuel byId i ns s arbitrary: u and u rule: connect_visitAll.induct)
  case (1 byId i s)
  then show ?case by simp
next
  case (2 fuel byId i s)
  have "reports byId (enter i s)" using 2(3,4) by (simp add: reports_def enter_def)
  moreover obtain t where "visitAll fuel byId i (dependenciesOf byId i) (enter i s) = Some t"
    and "leave byId i t = Some u" using 2(2) by (auto split: option.splits)
  ultimately show ?case using 2(1) reports_leave by metis
next
  case (3 fuel byId i s)
  then show ?case by simp
next
  case (4 fuel byId i n ns s)
  show ?case
  proof (cases "n \<in> fst ` set byId \<and> indexOf s n = None")
    case True
    then obtain t where t: "connect fuel byId n s = Some t"
      and u: "visitAll fuel byId i ns (lowerTo i (lowLink t n) t) = Some u"
      using 4(6) by (auto split: option.splits)
    have "reports byId t" using 4(2) [OF _ _ t] True 4(7) by simp
    with 4(3) [OF _ _ t u] True show ?thesis by simp
  next
    case False
    then consider "n \<notin> fst ` set byId" | "n \<in> fst ` set byId" "indexOf s n \<noteq> None" "n \<in> onStack s"
      | "n \<in> fst ` set byId" "indexOf s n \<noteq> None" "n \<notin> onStack s"
      by (cases "n \<in> fst ` set byId"; cases "n \<in> onStack s") simp_all
    then show ?thesis
    proof cases
      case 1
      with 4(1,6,7) show ?thesis by simp
    next
      case 2
      with 4(6) have "visitAll fuel byId i ns (lowerTo i (indexOf s n) s) = Some u" by simp
      with 2 4(4) [of u] 4(7) show ?thesis by simp
    next
      case 3
      with 4(6) have "visitAll fuel byId i ns s = Some u" by simp
      with 3 4(5) [of u] 4(7) show ?thesis by simp
    qed
  qed
qed

lemma reports_connectAll:
  "connectAll fuel byId is s = Some u \<Longrightarrow> set is \<subseteq> fst ` set byId \<Longrightarrow> reports byId s
     \<Longrightarrow> reports byId u"
proof (induction fuel byId "is" s rule: connectAll.induct)
  case (2 fuel byId i rest s)
  show ?case
  proof (cases "indexOf s i = None")
    case True
    then obtain t where t: "connect fuel byId i s = Some t" and u: "connectAll fuel byId rest t = Some u"
      using "2.prems"(1) by (auto split: option.splits)
    have "reports byId t" using reports_connect(1) [OF t] "2.prems"(2,3) by simp
    with "2.IH"(1) [OF True t u] "2.prems"(2) show ?thesis by simp
  next
    case False
    then have "connectAll fuel byId rest s = Some u"
      using "2.prems"(1) by (simp del: not_None_eq)
    with "2.IH"(2) [OF False this] "2.prems"(2,3) show ?thesis by simp
  qed
qed simp

lemma findDependencyCycles_reports:
  assumes "findDependencyCycles byId = Some m" and "map_of m k = Some c"
  shows "k \<in> set c \<and> set c \<subseteq> fst ` set byId"
proof -
  from assms(1) obtain s where s: "connectAll (length byId) byId (map fst byId) tarjanStart = Some s"
    and m: "m = cyclesOf s" by (auto simp: findDependencyCycles_def)
  have "reports byId tarjanStart" by (simp add: reports_def tarjanStart_def)
  then have "reports byId s" using reports_connectAll [OF s] by simp
  with assms(2) m show ?thesis by (simp add: reports_def)
qed

end
