(* ===== verification/Stack_Checks.thy ===== *)
theory Stack_Checks
  imports Stack_Cycles "HOL-Library.Multiset"
begin

text \<open>
  \<open>packages/protocol-workspace/src/relations.ts\<close>, the checks of a stack: \<open>stackChecks\<close>,
  \<open>buildStackGraph\<close> and \<open>validateStack\<close>. A finding is a constructor for its code, with the
  values its message prints and the id it names. The lemmas show what \<open>blockedBy\<close> holds, that
  \<open>blocking\<close> is its converse, and that every check reads a component it finds itself in.
\<close>

subsection \<open>Data\<close>

datatype StackFinding =
    DependencyOpen string WorkspacePhase string
  | DependencyArchived string string
  | PhaseCeiling string WorkspacePhase string
  | CycleFound "string list"

record StackGraph =
  byId :: workspaces
  cycles :: "(string \<times> string list) list"

record WorkspaceStack =
  blockedBy :: "string list"
  blocking :: "string list"
  findings :: "StackFinding list"

type_synonym StackCheck = "StackWorkspace \<Rightarrow> StackGraph \<Rightarrow> StackFinding list"

definition label :: "StackWorkspace \<Rightarrow> string" where
  "label workspace = (case wsName workspace of Some n \<Rightarrow> n | None \<Rightarrow> wsId workspace)"

definition isOpen :: "StackWorkspace \<Rightarrow> bool" where
  "isOpen workspace \<longleftrightarrow> closedAt workspace = None"

subsection \<open>The checks\<close>

definition dependencyOpenCheck :: StackCheck where
  "dependencyOpenCheck workspace graph =
     (if \<not> isOpen workspace then []
      else concat (map (\<lambda>i. case map_of (byId graph) i of
          None \<Rightarrow> []
        | Some d \<Rightarrow> if \<not> isOpen d \<or> wsPhase d = Ship then []
            else [DependencyOpen (label d) (wsPhase d) (wsId d)])
        (dependsOn (relations workspace))))"

definition dependencyArchivedCheck :: StackCheck where
  "dependencyArchivedCheck workspace graph =
     (if \<not> isOpen workspace then []
      else concat (map (\<lambda>i. case map_of (byId graph) i of
          None \<Rightarrow> []
        | Some d \<Rightarrow> if isOpen d then [] else [DependencyArchived (label d) (wsId d)])
        (dependsOn (relations workspace))))"

definition phaseCeilingCheck :: StackCheck where
  "phaseCeilingCheck workspace graph =
     (if \<not> isOpen workspace then []
      else concat (map (\<lambda>i. case map_of (byId graph) i of
          None \<Rightarrow> []
        | Some d \<Rightarrow> if PHASE_ORDER (wsPhase workspace) \<le> PHASE_ORDER (wsPhase d) then []
            else [PhaseCeiling (label d) (wsPhase d) (wsId d)])
        (dependsOn (relations workspace))))"

text \<open>
  The cycle is printed from the workspace itself and back to it. \<open>indexOf\<close> answers -1 for an
  absent member, and \<open>slice(-1)\<close> is the last element alone.
\<close>

definition startingAt :: "string \<Rightarrow> string list \<Rightarrow> string list" where
  "startingAt i members =
     (if i \<in> set members
      then dropWhile (\<lambda>m. m \<noteq> i) members @ takeWhile (\<lambda>m. m \<noteq> i) members
      else lastN 1 members @ butlast members)"

text \<open>\<open>graph.byId.get(id)!\<close>: a member that is not in the graph raises, here \<^const>\<open>None\<close>.\<close>

definition labelOf :: "StackGraph \<Rightarrow> string \<Rightarrow> string option" where
  "labelOf graph i = map_option label (map_of (byId graph) i)"

fun everySome :: "'a option list \<Rightarrow> 'a list option" where
  "everySome [] = Some []"
| "everySome (x # xs) =
     (case x of None \<Rightarrow> None | Some y \<Rightarrow> map_option (Cons y) (everySome xs))"

definition cycleCheck :: "StackWorkspace \<Rightarrow> StackGraph \<Rightarrow> StackFinding list option" where
  "cycleCheck workspace graph =
     (case map_of (cycles graph) (wsId workspace) of
        None \<Rightarrow> Some []
      | Some members \<Rightarrow> map_option (\<lambda>labels. [CycleFound labels])
          (everySome (map (labelOf graph) (startingAt (wsId workspace) members @ [wsId workspace]))))"

definition stackChecks :: "(StackWorkspace \<Rightarrow> StackGraph \<Rightarrow> StackFinding list option) list" where
  "stackChecks =
     [\<lambda>w g. Some (dependencyOpenCheck w g), \<lambda>w g. Some (dependencyArchivedCheck w g),
      \<lambda>w g. Some (phaseCeilingCheck w g), cycleCheck]"

subsection \<open>The graph and its validation\<close>

definition mapById :: "StackWorkspace list \<Rightarrow> workspaces" where
  "mapById ws = keyedMap wsId ws"

definition buildStackGraph :: "StackWorkspace list \<Rightarrow> StackGraph option" where
  "buildStackGraph ws =
     map_option (\<lambda>c. \<lparr>byId = mapById ws, cycles = c\<rparr>) (findDependencyCycles (mapById ws))"

text \<open>A finding blocks when it is \<open>dependency-open\<close> and names a workspace by a non-empty id.\<close>

fun blocks :: "StackFinding \<Rightarrow> string list" where
  "blocks (DependencyOpen _ _ i) = (if i \<noteq> [] then [i] else [])"
| "blocks _ = []"

definition stackOf ::
    "(StackWorkspace \<Rightarrow> StackGraph \<Rightarrow> StackFinding list option) list \<Rightarrow> StackGraph \<Rightarrow> StackWorkspace
      \<Rightarrow> WorkspaceStack option" where
  "stackOf checks graph w =
     map_option (\<lambda>fs. \<lparr>blockedBy = unique (concat (map blocks (concat fs))), blocking = [],
         findings = concat fs\<rparr>)
       (everySome (map (\<lambda>check. check w graph) checks))"

definition pushBlocking :: "string \<Rightarrow> (string \<times> WorkspaceStack) list \<Rightarrow> string \<Rightarrow> (string \<times> WorkspaceStack) list" where
  "pushBlocking i stacks blocker =
     map (\<lambda>(k, st). (k, if k = blocker then st\<lparr>blocking := blocking st @ [i]\<rparr> else st)) stacks"

definition linkBlocking :: "(string \<times> WorkspaceStack) list \<Rightarrow> (string \<times> WorkspaceStack) list" where
  "linkBlocking stacks =
     foldl (\<lambda>acc (i, st). foldl (pushBlocking i) acc (blockedBy st)) stacks stacks"

definition validateStack ::
    "StackWorkspace list \<Rightarrow> (StackWorkspace \<Rightarrow> StackGraph \<Rightarrow> StackFinding list option) list
      \<Rightarrow> (string \<times> WorkspaceStack) list option" where
  "validateStack ws checks =
     (case buildStackGraph ws of
        None \<Rightarrow> None
      | Some graph \<Rightarrow>
          map_option (\<lambda>sts. linkBlocking
              (foldl (\<lambda>m (w, st). AList.update (wsId w) st m) [] (zip ws sts)))
            (everySome (map (stackOf checks graph) ws)))"

subsection \<open>The validation returns\<close>

lemma everySome_map_Some [simp]: "everySome (map (\<lambda>x. Some (f x)) xs) = Some (map f xs)"
  by (induction xs) auto

lemma everySome_exists: "(\<forall>x \<in> set xs. f x \<noteq> None) \<Longrightarrow> \<exists>ys. everySome (map f xs) = Some ys"
  by (induction xs) auto

lemma everySome_Some:
  "everySome (map f xs) = Some ys \<longleftrightarrow> list_all2 (\<lambda>x y. f x = Some y) xs ys"
proof (induction xs arbitrary: ys)
  case (Cons x xs)
  then show ?case by (cases ys) (auto split: option.splits)
qed auto

lemma mapById_member: "map_of (mapById ws) i = Some d \<Longrightarrow> d \<in> set ws \<and> wsId d = i"
  unfolding mapById_def by (rule keyedMap_member)

lemma mapById_distinct: "distinct (map wsId ws) \<Longrightarrow> w \<in> set ws \<Longrightarrow> map_of (mapById ws) (wsId w) = Some w"
  unfolding mapById_def by (rule keyedMap_distinct)

lemma mapById_keys: "i \<in> fst ` set (mapById ws) \<Longrightarrow> map_of (mapById ws) i \<noteq> None"
  by (simp add: map_of_eq_None_iff)

lemma startingAt_set: "set (startingAt i members) \<subseteq> set members"
proof (cases "i \<in> set members")
  case True
  then show ?thesis by (auto simp: startingAt_def dest: set_dropWhileD set_takeWhileD)
next
  case False
  then show ?thesis
    by (auto simp: startingAt_def lastN_def dest: in_set_dropD in_set_butlastD)
qed

lemma startingAt_permutes: "i \<in> set members \<Longrightarrow> mset (startingAt i members) = mset members"
  by (simp add: startingAt_def) (metis mset_append takeWhile_dropWhile_id union_commute)

lemma startingAt_head: "i \<in> set members \<Longrightarrow> hd (startingAt i members) = i"
  by (simp add: startingAt_def hd_append)
     (metis (mono_tags, lifting) dropWhile_eq_Nil_conv hd_dropWhile)

lemma buildStackGraph_returns: "\<exists>g. buildStackGraph ws = Some g"
  using findDependencyCycles_returns [of "mapById ws"] by (auto simp: buildStackGraph_def)

lemma cycleCheck_returns:
  assumes "buildStackGraph ws = Some g" and "w \<in> set ws"
  shows "\<exists>fs. cycleCheck w g = Some fs"
proof (cases "map_of (cycles g) (wsId w)")
  case None
  then show ?thesis by (simp add: cycleCheck_def)
next
  case (Some members)
  obtain c where c: "findDependencyCycles (mapById ws) = Some c" and g: "g = \<lparr>byId = mapById ws, cycles = c\<rparr>"
    using assms(1) by (auto simp: buildStackGraph_def)
  from findDependencyCycles_reports [OF c] Some g
  have "set members \<subseteq> fst ` set (mapById ws)" "wsId w \<in> fst ` set (mapById ws)" by fastforce+
  then have "\<forall>i \<in> set (startingAt (wsId w) members @ [wsId w]). labelOf g i \<noteq> None"
    using startingAt_set [of "wsId w" members] mapById_keys [of _ ws]
    by (simp add: labelOf_def g) blast
  from everySome_exists [OF this] Some show ?thesis by (auto simp: cycleCheck_def)
qed

lemma stackOf_returns:
  assumes "buildStackGraph ws = Some g" and "w \<in> set ws"
  shows "\<exists>st. stackOf stackChecks g w = Some st"
  using cycleCheck_returns [OF assms] by (auto simp: stackOf_def stackChecks_def)

lemma stackOf_blockedBy:
  assumes "stackOf stackChecks g w = Some st"
  shows "blockedBy st = unique (concat (map blocks (dependencyOpenCheck w g)))" and "blocking st = []"
proof -
  from assms obtain fs where fs: "cycleCheck w g = Some fs"
    and st: "st = \<lparr>blockedBy = unique (concat (map blocks
        (dependencyOpenCheck w g @ dependencyArchivedCheck w g @ phaseCeilingCheck w g @ fs))),
      blocking = [], findings = dependencyOpenCheck w g @ dependencyArchivedCheck w g @ phaseCeilingCheck w g @ fs\<rparr>"
    by (cases "cycleCheck w g") (auto simp: stackOf_def stackChecks_def)
  have "concat (map blocks fs) = []"
    using fs by (auto simp: cycleCheck_def split: option.splits)
  moreover have "concat (map blocks (dependencyArchivedCheck w g)) = []"
    by (auto simp: dependencyArchivedCheck_def split: option.splits if_splits)
  moreover have "concat (map blocks (phaseCeilingCheck w g)) = []"
    by (auto simp: phaseCeilingCheck_def split: option.splits if_splits)
  ultimately show "blockedBy st = unique (concat (map blocks (dependencyOpenCheck w g)))" "blocking st = []"
    by (simp_all add: st del: concat_eq_Nil_conv)
qed

subsection \<open>Blocking is the converse of blocked\<close>

lemma pushBlocking_get:
  "map_of (pushBlocking i stacks b) k
     = map_option (\<lambda>st. if k = b then st\<lparr>blocking := blocking st @ [i]\<rparr> else st) (map_of stacks k)"
  by (induction stacks) (auto simp: pushBlocking_def)

lemma pushAll_get:
  "map_of (foldl (pushBlocking i) acc bs) k
     = map_option (\<lambda>st. st\<lparr>blocking := blocking st @ replicate (count_list bs k) i\<rparr>) (map_of acc k)"
proof (induction bs arbitrary: acc)
  case Nil
  show ?case by (cases "map_of acc k") simp_all
next
  case (Cons b bs)
  show ?case by (cases "map_of acc k") (simp_all add: Cons pushBlocking_get)
qed

lemma linkFrom_get:
  "map_of (foldl (\<lambda>acc (i, st). foldl (pushBlocking i) acc (blockedBy st)) acc xs) k
     = map_option (\<lambda>st. st\<lparr>blocking := blocking st
         @ concat (map (\<lambda>(i, st). replicate (count_list (blockedBy st) k) i) xs)\<rparr>) (map_of acc k)"
proof (induction xs arbitrary: acc)
  case Nil
  show ?case by (cases "map_of acc k") simp_all
next
  case (Cons x xs)
  obtain i st where x: "x = (i, st)" by (cases x)
  show ?case by (cases "map_of acc k") (simp_all add: Cons x pushAll_get)
qed

lemma linkBlocking_get:
  "map_of (linkBlocking stacks) k
     = map_option (\<lambda>st. st\<lparr>blocking := blocking st
         @ concat (map (\<lambda>(i, st). replicate (count_list (blockedBy st) k) i) stacks)\<rparr>) (map_of stacks k)"
  by (simp add: linkBlocking_def linkFrom_get)

lemma linkBlocking_converse:
  assumes keys: "distinct (map fst stacks)" and fresh: "\<forall>st \<in> snd ` set stacks. blocking st = []"
    and a: "map_of (linkBlocking stacks) a = Some sa" and b: "map_of (linkBlocking stacks) b = Some sb"
  shows "a \<in> set (blocking sb) \<longleftrightarrow> b \<in> set (blockedBy sa)"
proof -
  obtain sa' where sa': "map_of stacks a = Some sa'" and sa: "blockedBy sa = blockedBy sa'"
    using a by (auto simp: linkBlocking_get)
  obtain sb' where sb': "map_of stacks b = Some sb'" and sb: "blocking sb = blocking sb'
      @ concat (map (\<lambda>(i, st). replicate (count_list (blockedBy st) b) i) stacks)"
    using b by (auto simp: linkBlocking_get)
  have "blocking sb' = []" using fresh map_of_SomeD [OF sb'] by force
  then have "a \<in> set (blocking sb) \<longleftrightarrow> (\<exists>st. (a, st) \<in> set stacks \<and> b \<in> set (blockedBy st))"
    by (force simp: sb count_list_0_iff split: if_splits)
  also have "\<dots> \<longleftrightarrow> b \<in> set (blockedBy sa')"
    using keys sa' by (metis map_of_SomeD map_of_is_SomeI option.inject)
  finally show ?thesis by (simp add: sa)
qed

definition stacksOf :: "StackWorkspace list \<Rightarrow> WorkspaceStack list \<Rightarrow> (string \<times> WorkspaceStack) list" where
  "stacksOf ws sts = foldl (\<lambda>m (w, st). AList.update (wsId w) st m) [] (zip ws sts)"

lemma stacksOf_distinct: "distinct (map fst (stacksOf ws sts))"
proof -
  have "distinct (map fst m) \<Longrightarrow>
      distinct (map fst (foldl (\<lambda>m (w, st). AList.update (wsId w) st m) m ps))" for m ps
    by (induction ps arbitrary: m) auto
  from this [of "[]"] show ?thesis by (simp add: stacksOf_def)
qed

lemma stacksOf_get:
  assumes "distinct (map wsId ws)" and "list_all2 (\<lambda>w st. f w = Some st) ws sts" and "w \<in> set ws"
  shows "map_of (stacksOf ws sts) (wsId w) = f w"
proof -
  have "distinct (map wsId ws) \<Longrightarrow> list_all2 (\<lambda>w st. f w = Some st) ws sts \<Longrightarrow>
      map_of (foldl (\<lambda>m (w, st). AList.update (wsId w) st m) m (zip ws sts)) i
        = (case List.find (\<lambda>w. wsId w = i) ws of None \<Rightarrow> map_of m i | Some w \<Rightarrow> f w)" for m i
  proof (induction ws arbitrary: sts m)
    case (Cons x xs)
    from Cons.prems obtain st rest where sts: "sts = st # rest" by (cases sts) auto
    have "wsId x = i \<Longrightarrow> List.find (\<lambda>w. wsId w = i) xs = None"
      using Cons.prems(1) by (auto simp: find_None_iff image_iff)
    with Cons.IH [of rest] Cons.prems sts show ?case by (auto split: option.splits)
  qed auto
  moreover have "List.find (\<lambda>v. wsId v = wsId w) ws = Some w"
    using assms(1,3)
    by (induction ws) (auto simp: distinct_map inj_on_def)
  ultimately show ?thesis using assms(1,2) by (simp add: stacksOf_def)
qed

lemma image_snd_update: "snd ` set (AList.update k v m) \<subseteq> insert v (snd ` set m)"
  by (induction m) auto

lemma stacksOf_snd:
  assumes "list_all2 (\<lambda>w st. f w = Some st) ws sts" and "st \<in> snd ` set (stacksOf ws sts)"
  shows "\<exists>w \<in> set ws. f w = Some st"
proof -
  have "list_all2 (\<lambda>w st. f w = Some st) ws sts \<Longrightarrow>
      snd ` set (foldl (\<lambda>m (w, st). AList.update (wsId w) st m) m (zip ws sts))
        \<subseteq> snd ` set m \<union> {st. \<exists>w \<in> set ws. f w = Some st}" for m
  proof (induction ws arbitrary: sts m)
    case (Cons x xs)
    from Cons.prems obtain s rest where sts: "sts = s # rest" "f x = Some s" by (cases sts) auto
    have "snd ` set (AList.update (wsId x) s m) \<subseteq> insert s (snd ` set m)"
      by (rule image_snd_update)
    with Cons.IH [of rest "AList.update (wsId x) s m"] Cons.prems sts show ?case by auto
  qed auto
  from this [OF assms(1), of "[]"] assms(2) show ?thesis by (auto simp: stacksOf_def)
qed

lemma validateStack_stacks:
  assumes "validateStack ws stackChecks = Some m"
  obtains g sts where "buildStackGraph ws = Some g"
    and "list_all2 (\<lambda>w st. stackOf stackChecks g w = Some st) ws sts" and "m = linkBlocking (stacksOf ws sts)"
  using assms by (auto simp: validateStack_def everySome_Some stacksOf_def split: option.splits)

lemma validateStack_get:
  assumes "validateStack ws stackChecks = Some m" and "distinct (map wsId ws)" and "w \<in> set ws"
  obtains g st st' where "buildStackGraph ws = Some g" and "stackOf stackChecks g w = Some st"
    and "map_of m (wsId w) = Some st'" and "blockedBy st' = blockedBy st" and "findings st' = findings st"
proof -
  from validateStack_stacks [OF assms(1)] obtain g sts where g: "buildStackGraph ws = Some g"
    and sts: "list_all2 (\<lambda>w st. stackOf stackChecks g w = Some st) ws sts"
    and m: "m = linkBlocking (stacksOf ws sts)" by blast
  obtain st where st: "stackOf stackChecks g w = Some st" using stackOf_returns [OF g assms(3)] by blast
  have "map_of (stacksOf ws sts) (wsId w) = Some st"
    using stacksOf_get [OF assms(2) sts assms(3)] st by simp
  with that [OF g st] show thesis by (simp add: m linkBlocking_get)
qed

lemma dependencyOpen_blocks:
  "set (concat (map blocks (dependencyOpenCheck w g)))
     = {wsId d | i d. isOpen w \<and> i \<in> set (dependsOn (relations w)) \<and> map_of (byId g) i = Some d
          \<and> isOpen d \<and> wsPhase d \<noteq> Ship \<and> wsId d \<noteq> []}"
  by (auto simp: dependencyOpenCheck_def split: option.splits if_splits) force+

subsection \<open>What the validation promises\<close>

text \<open>
  C38. Validating a stack always returns: for every list of workspaces, whatever their relations,
  the cycle search ends and no check raises on a member of a reported cycle.
\<close>

theorem validateStack_returns: "\<exists>m. validateStack ws stackChecks = Some m"
proof -
  obtain g where g: "buildStackGraph ws = Some g" using buildStackGraph_returns by blast
  have "\<forall>w \<in> set ws. stackOf stackChecks g w \<noteq> None" using stackOf_returns [OF g] by force
  from everySome_exists [OF this] g show ?thesis by (auto simp: validateStack_def)
qed

text \<open>
  A workspace is blocked by exactly its open dependencies that have not shipped (a closed
  workspace by none), and the dependencies it blocks list it in return.
\<close>

theorem validateStack_blockedBy:
  assumes "validateStack ws stackChecks = Some m" and "distinct (map wsId ws)" and "w \<in> set ws"
    and "map_of m (wsId w) = Some st"
  shows "set (blockedBy st) = {wsId d | d. isOpen w \<and> d \<in> set ws \<and> wsId d \<in> set (dependsOn (relations w))
      \<and> isOpen d \<and> wsPhase d \<noteq> Ship \<and> wsId d \<noteq> []}" (is "_ = ?R")
proof -
  from validateStack_get [OF assms(1-3)] obtain g st' where g: "buildStackGraph ws = Some g"
    and st': "stackOf stackChecks g w = Some st'" and same: "blockedBy st = blockedBy st'"
    using assms(4) by (metis option.inject)
  have byId: "byId g = mapById ws" using g by (auto simp: buildStackGraph_def)
  have get: "map_of (mapById ws) i = Some d \<longleftrightarrow> d \<in> set ws \<and> wsId d = i" for i d
    using mapById_member mapById_distinct [OF assms(2)] by metis
  have "set (blockedBy st) = set (concat (map blocks (dependencyOpenCheck w g)))"
    using stackOf_blockedBy(1) [OF st'] by (simp add: same)
  also have "\<dots> = ?R" unfolding dependencyOpen_blocks byId get by blast
  finally show ?thesis .
qed

text \<open>
  \<open>blocking\<close> is the converse of \<open>blockedBy\<close>: of two workspaces of a validated stack, the
  first is listed as blocked by the second exactly when it is among those the second blocks.
\<close>

theorem validateStack_converse:
  assumes "validateStack ws stackChecks = Some m"
    and "map_of m a = Some sa" and "map_of m b = Some sb"
  shows "a \<in> set (blocking sb) \<longleftrightarrow> b \<in> set (blockedBy sa)"
proof -
  from validateStack_stacks [OF assms(1)] obtain g sts where
    sts: "list_all2 (\<lambda>w st. stackOf stackChecks g w = Some st) ws sts"
    and m: "m = linkBlocking (stacksOf ws sts)" by blast
  have "\<forall>st \<in> snd ` set (stacksOf ws sts). blocking st = []"
    using stacksOf_snd [OF sts] stackOf_blockedBy(2) by metis
  from linkBlocking_converse [OF stacksOf_distinct this] assms(2,3) show ?thesis
    unfolding m by blast
qed

subsection \<open>A stack of three workspaces\<close>

definition exampleStack :: "StackWorkspace list" where
  "exampleStack =
     [\<lparr>wsId = ''a'', wsName = Some ''base'', wsPhase = Review, closedAt = None, relations = emptyRelations\<rparr>,
      \<lparr>wsId = ''b'', wsName = None, wsPhase = Code, closedAt = None,
        relations = \<lparr>dependsOn = [''a'', ''c''], relatedTo = [], stackedOn = Some ''a''\<rparr>\<rparr>,
      \<lparr>wsId = ''c'', wsName = None, wsPhase = Plan, closedAt = Some 7,
        relations = \<lparr>dependsOn = [''b''], relatedTo = [], stackedOn = None\<rparr>\<rparr>]"

definition exampleStacks :: "(string \<times> WorkspaceStack) list" where
  "exampleStacks = the (validateStack exampleStack stackChecks)"

lemma exampleStacks_value:
  "validateStack exampleStack stackChecks = Some
     [(''a'', \<lparr>blockedBy = [], blocking = [''b''], findings = []\<rparr>),
      (''b'', \<lparr>blockedBy = [''a''], blocking = [],
        findings = [DependencyOpen ''base'' Review ''a'', DependencyArchived ''c'' ''c'',
          PhaseCeiling ''c'' Plan ''c'', CycleFound [''b'', ''c'', ''b'']]\<rparr>),
      (''c'', \<lparr>blockedBy = [], blocking = [], findings = [CycleFound [''c'', ''b'', ''c'']]\<rparr>)]"
  by code_simp

theorem validateStack_blockedBy_witness:
  "set (blockedBy \<lparr>blockedBy = [''a''], blocking = [],
      findings = [DependencyOpen ''base'' Review ''a'', DependencyArchived ''c'' ''c'',
        PhaseCeiling ''c'' Plan ''c'', CycleFound [''b'', ''c'', ''b'']]\<rparr>)
    = {wsId d | d. isOpen (exampleStack ! 1) \<and> d \<in> set exampleStack
      \<and> wsId d \<in> set (dependsOn (relations (exampleStack ! 1)))
      \<and> isOpen d \<and> wsPhase d \<noteq> Ship \<and> wsId d \<noteq> []}"
  by (rule validateStack_blockedBy [OF exampleStacks_value]) (simp_all add: exampleStack_def)

theorem validateStack_converse_witness:
  "''b'' \<in> set (blocking \<lparr>blockedBy = [], blocking = [''b''], findings = []\<rparr>)
    \<longleftrightarrow> ''a'' \<in> set (blockedBy \<lparr>blockedBy = [''a''], blocking = [],
      findings = [DependencyOpen ''base'' Review ''a'', DependencyArchived ''c'' ''c'',
        PhaseCeiling ''c'' Plan ''c'', CycleFound [''b'', ''c'', ''b'']]\<rparr>)"
  by (rule validateStack_converse [OF exampleStacks_value]) simp_all

text \<open>
  A reported cycle lists the members of its component in the order of discovery, which need not be
  a chain of dependencies: of \<open>a \<rightarrow> b \<rightarrow> a\<close> and \<open>a \<rightarrow> c \<rightarrow> a\<close> it prints \<open>a \<rightarrow> b \<rightarrow> c \<rightarrow> a\<close>, though
  \<open>b\<close> does not depend on \<open>c\<close>.
\<close>

definition twoLoops :: "StackWorkspace list" where
  "twoLoops = map (\<lambda>(i, ds). \<lparr>wsId = i, wsName = None, wsPhase = Plan, closedAt = None,
      relations = \<lparr>dependsOn = ds, relatedTo = [], stackedOn = None\<rparr>\<rparr>)
     [(''a'', [''b'', ''c'']), (''b'', [''a'']), (''c'', [''a''])]"

lemma reported_cycle_no_chain:
  "findDependencyCycles (mapById twoLoops)
     = Some (map (\<lambda>i. (i, [''a'', ''b'', ''c''])) [''c'', ''b'', ''a''])
   \<or> findDependencyCycles (mapById twoLoops)
     = Some (map (\<lambda>i. (i, [''a'', ''b'', ''c''])) [''a'', ''b'', ''c''])"
  by code_simp

end
