(* ===== verification/Credits.thy ===== *)
theory Credits
  imports Prelude "HOL-Library.Signed_Division"
begin

text \<open>
  \<open>packages/platform/src/credits.ts\<close>: the price of metered usage and the bound on the credit a
  tenant can burn before the platform notices. A \<open>bigint\<close> is an \<^typ>\<open>int\<close> and its \<open>/\<close>
  truncates (\<^const>\<open>signed_divide\<close>); a \<open>number\<close> is an integer or something else
  (\<open>NotInteger\<close>: a fraction, NaN, an infinity), and the sum of durations is rounded to a double
  as the source's \<open>+\<close> does above \<open>2 ^ 53\<close>.
\<close>

subsection \<open>Numbers\<close>

datatype number = Integer int | NotInteger

fun micros :: "number \<Rightarrow> int" where
  "micros (Integer n) = n"
| "micros NotInteger = 0"

definition MAX_SAFE_INTEGER :: int where
  "MAX_SAFE_INTEGER = 2 ^ 53 - 1"

fun isSafeInteger :: "number \<Rightarrow> bool" where
  "isSafeInteger (Integer n) \<longleftrightarrow> \<bar>n\<bar> \<le> MAX_SAFE_INTEGER"
| "isSafeInteger NotInteger \<longleftrightarrow> False"

text \<open>The double nearest to a sum of at most three safe non-negative integers, ties to even.\<close>

definition roundTo :: "int \<Rightarrow> int \<Rightarrow> int" where
  "roundTo m x =
     (let q = x div m; r = x mod m in
      if 2 * r < m \<or> (2 * r = m \<and> even q) then q * m else (q + 1) * m)"

definition addNumbers :: "int \<Rightarrow> int \<Rightarrow> int" where
  "addNumbers x y =
     (let s = x + y in if s \<le> 2 ^ 53 then s else if s \<le> 2 ^ 54 then roundTo 2 s else roundTo 4 s)"

subsection \<open>The rate card\<close>

datatype MeteredResource =
    Worker_request | Worker_cpu_ms | Do_request | Do_gb_ms | Do_row_read | Do_row_write
  | Do_gb_month | R2_class_a | R2_class_b | R2_gb_month | R2_egress_byte

record ResourceRate =
  microsNumerator :: int
  unitsDenominator :: int

record RateCard =
  version :: string
  rates :: "MeteredResource \<Rightarrow> ResourceRate"

fun rate_2026_08_27 :: "MeteredResource \<Rightarrow> ResourceRate" where
  "rate_2026_08_27 Worker_request = \<lparr>microsNumerator = 300000, unitsDenominator = 1000000\<rparr>"
| "rate_2026_08_27 Worker_cpu_ms = \<lparr>microsNumerator = 20000, unitsDenominator = 1000000\<rparr>"
| "rate_2026_08_27 Do_request = \<lparr>microsNumerator = 150000, unitsDenominator = 1000000\<rparr>"
| "rate_2026_08_27 Do_gb_ms = \<lparr>microsNumerator = 12500000, unitsDenominator = 1000000000\<rparr>"
| "rate_2026_08_27 Do_row_read = \<lparr>microsNumerator = 1000, unitsDenominator = 1000000\<rparr>"
| "rate_2026_08_27 Do_row_write = \<lparr>microsNumerator = 1000000, unitsDenominator = 1000000\<rparr>"
| "rate_2026_08_27 Do_gb_month = \<lparr>microsNumerator = 200000, unitsDenominator = 1\<rparr>"
| "rate_2026_08_27 R2_class_a = \<lparr>microsNumerator = 4500000, unitsDenominator = 1000000\<rparr>"
| "rate_2026_08_27 R2_class_b = \<lparr>microsNumerator = 360000, unitsDenominator = 1000000\<rparr>"
| "rate_2026_08_27 R2_gb_month = \<lparr>microsNumerator = 15000, unitsDenominator = 1\<rparr>"
| "rate_2026_08_27 R2_egress_byte = \<lparr>microsNumerator = 0, unitsDenominator = 1\<rparr>"

definition RATE_CARD_2026_08_27 :: RateCard where
  "RATE_CARD_2026_08_27 = \<lparr>version = ''cloudflare-2026-08-27'', rates = rate_2026_08_27\<rparr>"

subsection \<open>Charges\<close>

record UsageQuantity =
  resource :: MeteredResource
  quantity :: int

record UsageCharge = UsageQuantity +
  rateVersion :: string
  debitMicros :: int

datatype PricingError =
    InvalidUsageQuantity MeteredResource int
  | UnboundedCreditExposure
  | DivisionByZero

definition ceilDiv :: "int \<Rightarrow> int \<Rightarrow> int option" where
  "ceilDiv numerator denominator =
     (if numerator = 0 then Some 0
      else if denominator = 0 then None
      else Some ((numerator + denominator - 1) sdiv denominator))"

definition chargeOf :: "RateCard \<Rightarrow> UsageQuantity \<Rightarrow> UsageCharge option" where
  "chargeOf rateCard item =
     map_option (\<lambda>debit. \<lparr>resource = resource item, quantity = quantity item,
         rateVersion = version rateCard, debitMicros = debit\<rparr>)
       (ceilDiv (quantity item * microsNumerator (rates rateCard (resource item)))
         (unitsDenominator (rates rateCard (resource item))))"

fun chargeAll :: "RateCard \<Rightarrow> UsageQuantity list \<Rightarrow> UsageCharge list \<Rightarrow> PricingError + UsageCharge list" where
  "chargeAll rateCard [] charges = Inr charges"
| "chargeAll rateCard (item # rest) charges =
     (if quantity item < 0 then Inl (InvalidUsageQuantity (resource item) (quantity item))
      else case chargeOf rateCard item of
          None \<Rightarrow> Inl DivisionByZero
        | Some charge \<Rightarrow> chargeAll rateCard rest (charges @ [charge]))"

definition calculateUsageCharges :: "UsageQuantity list \<Rightarrow> RateCard \<Rightarrow> PricingError + UsageCharge list" where
  "calculateUsageCharges usage rateCard = chargeAll rateCard usage []"

definition totalChargeMicros :: "UsageCharge list \<Rightarrow> int" where
  "totalChargeMicros charges = foldl (\<lambda>total charge. total + debitMicros charge) 0 charges"

subsection \<open>Exposure\<close>

record ExposureWindow =
  analyticsLagMs :: number
  pollIntervalMs :: number
  enforcementLatencyMs :: number
  prepaidRiskReserveMicros :: int
  maxBurnMicrosPerSecond :: "int option"

record CreditExposureBound =
  detectionWindowMs :: int
  unreportedBurnMicros :: int
  totalExposureMicros :: int

definition durationsOf :: "ExposureWindow \<Rightarrow> number list" where
  "durationsOf input = [analyticsLagMs input, pollIntervalMs input, enforcementLatencyMs input]"

definition calculateCreditExposureBound :: "ExposureWindow \<Rightarrow> PricingError + CreditExposureBound" where
  "calculateCreditExposureBound input =
     (if (\<exists>value \<in> set (durationsOf input). \<not> isSafeInteger value \<or> micros value < 0)
          \<or> prepaidRiskReserveMicros input < 0
      then Inl (InvalidUsageQuantity Worker_request (prepaidRiskReserveMicros input))
      else case maxBurnMicrosPerSecond input of
          None \<Rightarrow> Inl UnboundedCreditExposure
        | Some burn \<Rightarrow>
            if burn < 0 then Inl (InvalidUsageQuantity Worker_request burn)
            else let detection = foldl (\<lambda>total value. addNumbers total (micros value)) 0 (durationsOf input) in
              case ceilDiv (burn * detection) 1000 of
                None \<Rightarrow> Inl DivisionByZero
              | Some unreported \<Rightarrow>
                  Inr \<lparr>detectionWindowMs = detection, unreportedBurnMicros = unreported,
                    totalExposureMicros = prepaidRiskReserveMicros input + unreported\<rparr>)"

subsection \<open>Prices are ceilings\<close>

definition positiveRates :: "RateCard \<Rightarrow> bool" where
  "positiveRates rateCard \<longleftrightarrow>
     (\<forall>r. 0 \<le> microsNumerator (rates rateCard r) \<and> 0 < unitsDenominator (rates rateCard r))"

lemma positiveRates_card: "positiveRates RATE_CARD_2026_08_27"
proof -
  have "0 \<le> microsNumerator (rate_2026_08_27 r) \<and> 0 < unitsDenominator (rate_2026_08_27 r)" for r
    by (cases r) simp_all
  then show ?thesis by (simp add: positiveRates_def RATE_CARD_2026_08_27_def)
qed

definition isCeiling :: "int \<Rightarrow> int \<Rightarrow> int \<Rightarrow> bool" where
  "isCeiling n d c \<longleftrightarrow> n \<le> c * d \<and> (c - 1) * d < n"

lemma isCeiling_iff: "0 < d \<Longrightarrow> isCeiling n d c \<longleftrightarrow> c = (n + d - 1) div d"
proof -
  assume d: "0 < d"
  let ?q = "(n + d - 1) div d" and ?r = "(n + d - 1) mod d"
  have e: "n + d - 1 = ?q * d + ?r" and r: "0 \<le> ?r" "?r < d" using d by simp_all
  show ?thesis
  proof
    assume c: "isCeiling n d c"
    have "c * d \<le> n + d - 1" "n + d - 1 < (c + 1) * d"
      using c by (simp_all add: isCeiling_def algebra_simps)
    then show "c = ?q"
      by (intro int_div_pos_eq [where r = "n + d - 1 - d * c", symmetric]) (simp_all add: algebra_simps)
  next
    assume c: "c = ?q"
    have "c * d = n + d - 1 - ?r" using e unfolding c by linarith
    then show "isCeiling n d c" using r by (simp add: isCeiling_def left_diff_distrib)
  qed
qed

lemma ceilDiv_ceiling:
  assumes "0 \<le> n" and "0 < d"
  shows "\<exists>c. ceilDiv n d = Some c \<and> isCeiling n d c \<and> 0 \<le> c"
proof (cases "n = 0")
  case True
  with assms show ?thesis by (simp add: ceilDiv_def isCeiling_def)
next
  case False
  have "(n + d - 1) sdiv d = (n + d - 1) div d"
    using assms by (simp add: signed_divide_int_def sgn_if)
  moreover have "0 \<le> (n + d - 1) div d" using assms False by (simp add: pos_imp_zdiv_nonneg_iff)
  ultimately show ?thesis using assms False isCeiling_iff [OF assms(2), of n] by (simp add: ceilDiv_def)
qed

definition chargesFor :: "RateCard \<Rightarrow> UsageQuantity \<Rightarrow> UsageCharge \<Rightarrow> bool" where
  "chargesFor rateCard item charge \<longleftrightarrow>
     resource charge = resource item \<and> quantity charge = quantity item \<and> rateVersion charge = version rateCard
     \<and> 0 \<le> debitMicros charge
     \<and> isCeiling (quantity item * microsNumerator (rates rateCard (resource item)))
         (unitsDenominator (rates rateCard (resource item))) (debitMicros charge)"

lemma chargeOf_for:
  assumes "positiveRates rateCard" and "0 \<le> quantity item"
  shows "\<exists>charge. chargeOf rateCard item = Some charge \<and> chargesFor rateCard item charge"
proof -
  have rate: "0 \<le> microsNumerator (rates rateCard (resource item))"
    "0 < unitsDenominator (rates rateCard (resource item))"
    using assms(1) by (auto simp: positiveRates_def)
  then have "0 \<le> quantity item * microsNumerator (rates rateCard (resource item))" using assms(2) by simp
  from ceilDiv_ceiling [OF this rate(2)] show ?thesis
    by (auto simp: chargeOf_def chargesFor_def)
qed

lemma chargeAll_for:
  assumes "positiveRates rateCard" and "\<forall>item \<in> set usage. 0 \<le> quantity item"
  shows "\<exists>charges. chargeAll rateCard usage acc = Inr (acc @ charges)
    \<and> list_all2 (chargesFor rateCard) usage charges"
  using assms(2)
proof (induction usage arbitrary: acc)
  case (Cons item usage)
  then obtain charge where c: "chargeOf rateCard item = Some charge" "chargesFor rateCard item charge"
    using chargeOf_for [OF assms(1), of item] by auto
  from Cons.IH [of "acc @ [charge]"] Cons.prems obtain charges where "chargeAll rateCard usage (acc @ [charge]) = Inr ((acc @ [charge]) @ charges)"
    "list_all2 (chargesFor rateCard) usage charges" by auto
  with Cons.prems c show ?case by (intro exI [of _ "charge # charges"]) simp
qed simp

lemma totalChargeMicros_sum [simp]: "totalChargeMicros charges = sum_list (map debitMicros charges)"
proof -
  have "foldl (\<lambda>total charge. total + debitMicros charge) a charges = a + sum_list (map debitMicros charges)" for a
    by (induction charges arbitrary: a) simp_all
  then show ?thesis by (simp add: totalChargeMicros_def)
qed

lemma chargeAll_negative:
  assumes "positiveRates rateCard" and "\<forall>item \<in> set before. 0 \<le> quantity item" and "quantity item < 0"
  shows "chargeAll rateCard (before @ item # after) acc = Inl (InvalidUsageQuantity (resource item) (quantity item))"
  using assms(2)
proof (induction before arbitrary: acc)
  case (Cons x before)
  then obtain charge where "chargeOf rateCard x = Some charge" using chargeOf_for [OF assms(1), of x] by auto
  with Cons show ?case by auto
qed (use assms(3) in simp)

text \<open>
  C39. Usage of non-negative quantities is always priced, item by item at its own rate, and every
  debit is the exact price rounded up to the next micro: never below it, and less than one micro
  above. With a negative quantity no charge is made and the first such item is reported.
\<close>

theorem calculateUsageCharges_ceiling:
  assumes "positiveRates rateCard"
  shows "case calculateUsageCharges usage rateCard of
      Inr charges \<Rightarrow> (\<forall>item \<in> set usage. 0 \<le> quantity item)
        \<and> list_all2 (chargesFor rateCard) usage charges
        \<and> totalChargeMicros charges = sum_list (map debitMicros charges)
    | Inl e \<Rightarrow> \<exists>before item after. usage = before @ item # after \<and> quantity item < 0
        \<and> (\<forall>x \<in> set before. 0 \<le> quantity x) \<and> e = InvalidUsageQuantity (resource item) (quantity item)"
proof (cases "\<exists>item \<in> set usage. quantity item < 0")
  case True
  then obtain before item after where split: "usage = before @ item # after" "quantity item < 0"
    and first: "\<forall>x \<in> set before. \<not> quantity x < 0" by (elim split_list_first_propE)
  have rest: "\<forall>x \<in> set before. 0 \<le> quantity x" using first by (simp add: not_less)
  have "calculateUsageCharges usage rateCard = Inl (InvalidUsageQuantity (resource item) (quantity item))"
    unfolding calculateUsageCharges_def split(1) by (rule chargeAll_negative [OF assms rest split(2)])
  moreover have "\<exists>before' item' after'. usage = before' @ item' # after' \<and> quantity item' < 0
      \<and> (\<forall>x \<in> set before'. 0 \<le> quantity x)
      \<and> InvalidUsageQuantity (resource item) (quantity item) = InvalidUsageQuantity (resource item') (quantity item')"
    using split rest by blast
  ultimately show ?thesis by simp
next
  case False
  then have pos: "\<forall>item \<in> set usage. 0 \<le> quantity item" by (simp add: not_less)
  then obtain charges where "calculateUsageCharges usage rateCard = Inr charges"
    "list_all2 (chargesFor rateCard) usage charges"
    using chargeAll_for [OF assms, of usage "[]"] by (auto simp: calculateUsageCharges_def)
  with pos show ?thesis by simp
qed

theorem calculateUsageCharges_ceiling_witness:
  "\<exists>charges. calculateUsageCharges [\<lparr>resource = Do_gb_ms, quantity = 81\<rparr>] RATE_CARD_2026_08_27 = Inr charges
     \<and> list_all2 (chargesFor RATE_CARD_2026_08_27) [\<lparr>resource = Do_gb_ms, quantity = 81\<rparr>] charges
     \<and> totalChargeMicros charges = 2"
proof -
  have "calculateUsageCharges [\<lparr>resource = Do_gb_ms, quantity = 81\<rparr>] RATE_CARD_2026_08_27
      = Inr [\<lparr>resource = Do_gb_ms, quantity = 81, rateVersion = ''cloudflare-2026-08-27'', debitMicros = 2\<rparr>]"
    by code_simp
  with calculateUsageCharges_ceiling [OF positiveRates_card, of "[\<lparr>resource = Do_gb_ms, quantity = 81\<rparr>]"]
  show ?thesis by simp
qed

lemma isCeiling_split:
  assumes "0 < d" and "isCeiling m d a" and "isCeiling n d b" and "isCeiling (m + n) d c"
  shows "c \<le> a + b" and "a + b \<le> c + 1"
proof -
  have "(c - 1) * d < (a + b) * d" using assms by (simp add: isCeiling_def algebra_simps)
  then have "c - 1 < a + b" using assms(1) by (simp add: mult_less_cancel_right)
  then show "c \<le> a + b" by simp
  have "(a + b - 2) * d < c * d" using assms by (simp add: isCeiling_def algebra_simps)
  then have "a + b - 2 < c" using assms(1) by (simp add: mult_less_cancel_right)
  then show "a + b \<le> c + 1" by simp
qed

definition priceOf :: "RateCard \<Rightarrow> MeteredResource \<Rightarrow> int list \<Rightarrow> PricingError + int" where
  "priceOf rateCard r amounts =
     map_sum id totalChargeMicros (calculateUsageCharges (map (\<lambda>q. \<lparr>resource = r, quantity = q\<rparr>) amounts) rateCard)"

text \<open>
  Reporting usage of a resource in two parts instead of one never lowers its price and raises
  it by at most one micro.
\<close>

theorem usage_split_price:
  assumes "positiveRates rateCard" and "0 \<le> m" and "0 \<le> n"
  shows "\<exists>whole parts. priceOf rateCard r [m + n] = Inr whole \<and> priceOf rateCard r [m, n] = Inr parts
    \<and> whole \<le> parts \<and> parts \<le> whole + 1"
proof -
  let ?item = "\<lambda>q. \<lparr>resource = r, quantity = q\<rparr>" and ?r = "rates rateCard r"
  from assms obtain a b c where charged:
    "chargeOf rateCard (?item m) = Some a" "chargesFor rateCard (?item m) a"
    "chargeOf rateCard (?item n) = Some b" "chargesFor rateCard (?item n) b"
    "chargeOf rateCard (?item (m + n)) = Some c" "chargesFor rateCard (?item (m + n)) c"
    using chargeOf_for [OF assms(1), of "?item m"] chargeOf_for [OF assms(1), of "?item n"]
      chargeOf_for [OF assms(1), of "?item (m + n)"] by auto
  have "0 < unitsDenominator ?r" using assms(1) by (simp add: positiveRates_def)
  moreover have "isCeiling (m * microsNumerator ?r) (unitsDenominator ?r) (debitMicros a)"
    "isCeiling (n * microsNumerator ?r) (unitsDenominator ?r) (debitMicros b)"
    "isCeiling (m * microsNumerator ?r + n * microsNumerator ?r) (unitsDenominator ?r) (debitMicros c)"
    using charged by (simp_all add: chargesFor_def distrib_right)
  ultimately have "debitMicros c \<le> debitMicros a + debitMicros b"
    "debitMicros a + debitMicros b \<le> debitMicros c + 1"
    using isCeiling_split by blast+
  moreover have "priceOf rateCard r [m + n] = Inr (debitMicros c)"
    "priceOf rateCard r [m, n] = Inr (debitMicros a + debitMicros b)"
    using assms(2,3) charged by (simp_all add: priceOf_def calculateUsageCharges_def)
  ultimately show ?thesis by blast
qed

theorem usage_split_price_witness:
  "\<exists>whole parts. priceOf RATE_CARD_2026_08_27 Do_gb_ms [1 + 2] = Inr whole
    \<and> priceOf RATE_CARD_2026_08_27 Do_gb_ms [1, 2] = Inr parts \<and> whole \<le> parts \<and> parts \<le> whole + 1"
  by (rule usage_split_price [OF positiveRates_card]) simp_all

subsection \<open>The exposure bound\<close>

lemma addNumbers_exact: "x + y \<le> 2 ^ 53 \<Longrightarrow> addNumbers x y = x + y"
  by (simp add: addNumbers_def)

lemma detection_exact:
  assumes "\<forall>value \<in> set (durationsOf input). 0 \<le> micros value"
    and "sum_list (map micros (durationsOf input)) \<le> 2 ^ 53"
  shows "foldl (\<lambda>total value. addNumbers total (micros value)) 0 (durationsOf input)
    = sum_list (map micros (durationsOf input))"
  using assms by (simp add: durationsOf_def addNumbers_exact)

text \<open>
  The exposure bound covers everything a tenant can burn unnoticed: at the externally
  enforced rate, over any time no longer than the three delays together, the burn and the risk
  reserve stay within the total the bound states, and the total is less than one micro above
  that for the whole window. Without an enforced rate no bound is answered.
\<close>

theorem calculateCreditExposureBound_covers:
  assumes "calculateCreditExposureBound input = Inr bound"
    and "sum_list (map micros (durationsOf input)) \<le> 2 ^ 53"
  shows "\<exists>burn. maxBurnMicrosPerSecond input = Some burn
    \<and> detectionWindowMs bound = sum_list (map micros (durationsOf input))
    \<and> (\<forall>ms. ms \<le> detectionWindowMs bound
          \<longrightarrow> prepaidRiskReserveMicros input * 1000 + burn * ms \<le> totalExposureMicros bound * 1000)
    \<and> (totalExposureMicros bound - 1) * 1000
        < prepaidRiskReserveMicros input * 1000 + burn * detectionWindowMs bound"
proof -
  let ?window = "foldl (\<lambda>total value. addNumbers total (micros value)) 0 (durationsOf input)"
  from assms(1) obtain burn unreported where burn: "maxBurnMicrosPerSecond input = Some burn" "0 \<le> burn"
    and valid: "\<forall>value \<in> set (durationsOf input). isSafeInteger value \<and> 0 \<le> micros value"
    and unreported: "ceilDiv (burn * ?window) 1000 = Some unreported"
    and bound: "bound = \<lparr>detectionWindowMs = ?window, unreportedBurnMicros = unreported,
      totalExposureMicros = prepaidRiskReserveMicros input + unreported\<rparr>"
    by (auto simp: calculateCreditExposureBound_def Let_def not_less split: if_splits option.splits)
  have window: "?window = sum_list (map micros (durationsOf input))"
    using detection_exact assms(2) valid by blast
  then have "0 \<le> ?window" using valid by (simp add: durationsOf_def)
  with burn(2) ceilDiv_ceiling [of "burn * ?window" 1000] unreported
  have "isCeiling (burn * ?window) 1000 unreported" by simp
  moreover have "burn * ms \<le> burn * ?window" if "ms \<le> ?window" for ms
    using that burn(2) by (rule mult_left_mono)
  ultimately show ?thesis using burn(1) window by (force simp: bound isCeiling_def)
qed

theorem calculateCreditExposureBound_covers_witness:
  "(100 :: int) * 1000 + 7 * 3000 \<le> 122 * 1000 \<and> (122 - 1) * 1000 < (100 :: int) * 1000 + 7 * 3001
    \<and> totalExposureMicros \<lparr>detectionWindowMs = 3001, unreportedBurnMicros = 22, totalExposureMicros = 122\<rparr> = 122"
  using calculateCreditExposureBound_covers
    [of "\<lparr>analyticsLagMs = Integer 1000, pollIntervalMs = Integer 2000, enforcementLatencyMs = Integer 1,
        prepaidRiskReserveMicros = 100, maxBurnMicrosPerSecond = Some 7\<rparr>"
      "\<lparr>detectionWindowMs = 3001, unreportedBurnMicros = 22, totalExposureMicros = 122\<rparr>"]
  by (simp add: calculateCreditExposureBound_def durationsOf_def MAX_SAFE_INTEGER_def addNumbers_def
      ceilDiv_def signed_divide_int_def)

end
