(* ===== verification/Credit_Ledger.thy ===== *)
theory Credit_Ledger
  imports Credits "HOL-Library.List_Lexorder" "HOL-Library.Char_ord" "HOL-Library.Product_Lexorder"
begin

text \<open>
  \<open>packages/platform/src/credit-ledger.ts\<close>, \<open>CreditLedgerDO\<close>: a tenant's credit account, its
  dispatch reservations, the ledger of debits and the nonces of administrative calls. The four
  SQL tables are the fields of the state; each method is a function of the clock, its input and
  the state. An amount that is stored is an integer of any size: a sum past \<open>2 ^ 53\<close> is not rounded. Handlers run without an await, so a call reads one value of the clock.

  \<open>transactionSync\<close> keeps what its body wrote when the body returns, an error result included,
  and restores the tables when it throws (\<open>Threw\<close>).
\<close>

subsection \<open>Tables and results\<close>

datatype CreditErrorCode =
    ACCOUNT_UNCONFIGURED | ACCOUNT_QUARANTINED | INSUFFICIENT_CREDITS
  | RESERVATION_NOT_FOUND | INVALID_CREDIT_INPUT

datatype 'a CreditResult = Ok 'a | Err CreditErrorCode string | Threw

datatype AccountStatus = Active | Quarantined

record AccountRow =
  balance_micros :: int
  reserved_micros :: int
  risk_reserve_micros :: int
  status :: AccountStatus
  reason :: "string option"
  updated_at :: instant

datatype ReservationStatus = Pending | Settled | Expired

record ReservationRow =
  resId :: string
  amount_micros :: int
  resStatus :: ReservationStatus
  expires_at :: int
  created_at :: instant

record CreditLedgerRecord =
  recordId :: string
  recordResource :: string
  recordQuantity :: string
  recordRateVersion :: string
  recordDebit :: number
  windowStart :: string
  windowEnd :: string
  createdAt :: string

record ledger =
  credit_account :: "AccountRow option"
  credit_reservations :: "ReservationRow list"
  credit_ledger :: "CreditLedgerRecord list"
  admin_nonces :: "(string \<times> int) list"

record CreditAccount =
  balanceMicros :: int
  reservedMicros :: int
  riskReserveMicros :: int
  availableMicros :: int
  accountStatus :: AccountStatus
  accountReason :: "string option"

definition emptyLedger :: ledger where
  "emptyLedger = \<lparr>credit_account = None, credit_reservations = [], credit_ledger = [], admin_nonces = []\<rparr>"

definition validMicros :: "number \<Rightarrow> bool" where
  "validMicros value \<longleftrightarrow> isSafeInteger value \<and> 0 \<le> micros value"

subsection \<open>Private helpers\<close>

text \<open>An empty reason is falsy and is left out.\<close>

definition toAccount :: "AccountRow \<Rightarrow> CreditAccount" where
  "toAccount row =
     \<lparr>balanceMicros = balance_micros row, reservedMicros = reserved_micros row,
      riskReserveMicros = risk_reserve_micros row,
      availableMicros = balance_micros row - reserved_micros row - risk_reserve_micros row,
      accountStatus = status row,
      accountReason = (case reason row of Some r \<Rightarrow> if r \<noteq> [] then Some r else None | None \<Rightarrow> None)\<rparr>"

text \<open>\<open>requireAccount\<close> throws without an account; the caller's value is built around its answer.\<close>

definition requireAccount :: "ledger \<Rightarrow> (CreditAccount \<Rightarrow> 'a) \<Rightarrow> 'a CreditResult" where
  "requireAccount s value =
     (case credit_account s of None \<Rightarrow> Threw | Some row \<Rightarrow> Ok (value (toAccount row)))"

definition transactionSync :: "(ledger \<Rightarrow> 'a CreditResult \<times> ledger) \<Rightarrow> ledger \<Rightarrow> 'a CreditResult \<times> ledger" where
  "transactionSync body s = (case body s of (Threw, _) \<Rightarrow> (Threw, s) | (r, s') \<Rightarrow> (r, s'))"

definition due :: "int \<Rightarrow> ReservationRow \<Rightarrow> bool" where
  "due now r \<longleftrightarrow> resStatus r = Pending \<and> expires_at r \<le> now"

definition expireReservations :: "instant \<Rightarrow> ledger \<Rightarrow> ledger" where
  "expireReservations now s =
     (let released = sum_list (map amount_micros (filter (due now) (credit_reservations s))) in
      if released = 0 then s
      else s\<lparr>credit_reservations := map (\<lambda>r. if due now r then r\<lparr>resStatus := Expired\<rparr> else r)
               (credit_reservations s),
             credit_account := map_option
               (\<lambda>a. a\<lparr>reserved_micros := max 0 (reserved_micros a - released)\<rparr>) (credit_account s)\<rparr>)"

definition ledgerExists :: "string \<Rightarrow> ledger \<Rightarrow> bool" where
  "ledgerExists i s \<longleftrightarrow> (\<exists>r \<in> set (credit_ledger s). recordId r = i)"

definition insertLedger :: "CreditLedgerRecord \<Rightarrow> ledger \<Rightarrow> ledger" where
  "insertLedger r s = s\<lparr>credit_ledger := credit_ledger s @ [r]\<rparr>"

definition findReservation :: "string \<Rightarrow> ledger \<Rightarrow> ReservationRow option" where
  "findReservation i s = List.find (\<lambda>r. resId r = i) (credit_reservations s)"

subsection \<open>Methods\<close>

definition configure :: "instant \<Rightarrow> number \<Rightarrow> number \<Rightarrow> ledger \<Rightarrow> CreditAccount CreditResult \<times> ledger" where
  "configure now balance risk s =
     (if \<not> validMicros balance \<or> \<not> validMicros risk
      then (Err INVALID_CREDIT_INPUT ''Credit values must be non-negative safe integers'', s)
      else let s' = s\<lparr>credit_account := Some \<lparr>balance_micros = micros balance, reserved_micros = 0,
                    risk_reserve_micros = micros risk, status = Active, reason = None, updated_at = now\<rparr>,
                  credit_reservations := map (\<lambda>r. if resStatus r = Pending then r\<lparr>resStatus := Expired\<rparr> else r)
                    (credit_reservations s)\<rparr>
           in (requireAccount s' id, s'))"

definition getAccount :: "ledger \<Rightarrow> CreditAccount CreditResult" where
  "getAccount s =
     (case credit_account s of
        Some row \<Rightarrow> Ok (toAccount row)
      | None \<Rightarrow> Err ACCOUNT_UNCONFIGURED ''Tenant credit account is not configured'')"

definition reserveDispatch ::
    "instant \<Rightarrow> string \<Rightarrow> number \<Rightarrow> number \<Rightarrow> ledger \<Rightarrow> (string \<times> CreditAccount) CreditResult \<times> ledger" where
  "reserveDispatch now i amount expiresAt s =
     (if i = [] \<or> \<not> validMicros amount \<or> \<not> isSafeInteger expiresAt
      then (Err INVALID_CREDIT_INPUT ''Reservation input is invalid'', s)
      else transactionSync (\<lambda>s0.
        let s = expireReservations now s0 in
        case findReservation i s of
          Some existing \<Rightarrow> (requireAccount s (Pair (resId existing)), s)
        | None \<Rightarrow>
            (case credit_account s of
               None \<Rightarrow> (Err ACCOUNT_UNCONFIGURED ''Tenant credit account is not configured'', s)
             | Some account \<Rightarrow>
                 if status account \<noteq> Active
                 then (Err ACCOUNT_QUARANTINED
                   (case reason account of Some r \<Rightarrow> r | None \<Rightarrow> ''Tenant is quarantined''), s)
                 else if balance_micros account - reserved_micros account - risk_reserve_micros account < micros amount
                 then (Err INSUFFICIENT_CREDITS ''Insufficient credits after risk reserve'', s)
                 else let s' = s\<lparr>credit_reservations := credit_reservations s
                             @ [\<lparr>resId = i, amount_micros = micros amount, resStatus = Pending,
                                 expires_at = micros expiresAt, created_at = now\<rparr>],
                           credit_account := Some (account\<lparr>reserved_micros := reserved_micros account + micros amount,
                             updated_at := now\<rparr>)\<rparr>
                      in (requireAccount s' (Pair i), s'))) s)"

definition settleDispatch ::
    "instant \<Rightarrow> string \<Rightarrow> CreditLedgerRecord \<Rightarrow> ledger \<Rightarrow> (bool \<times> CreditAccount) CreditResult \<times> ledger" where
  "settleDispatch now reservationId r s =
     (if \<not> validMicros (recordDebit r)
      then (Err INVALID_CREDIT_INPUT ''Ledger debit must be a non-negative safe integer'', s)
      else transactionSync (\<lambda>s.
        if ledgerExists (recordId r) s then (requireAccount s (Pair False), s)
        else case findReservation reservationId s of
            None \<Rightarrow> (Err RESERVATION_NOT_FOUND ''Pending reservation not found'', s)
          | Some reservation \<Rightarrow>
              if resStatus reservation \<noteq> Pending
              then (Err RESERVATION_NOT_FOUND ''Pending reservation not found'', s)
              else let s1 = insertLedger r s;
                       s2 = s1\<lparr>credit_reservations := map (\<lambda>x. if resId x = reservationId
                           then x\<lparr>resStatus := Settled\<rparr> else x) (credit_reservations s1)\<rparr>;
                       s3 = s2\<lparr>credit_account := map_option (\<lambda>a. a\<lparr>
                           balance_micros := balance_micros a - micros (recordDebit r),
                           reserved_micros := max 0 (reserved_micros a - amount_micros reservation),
                           updated_at := now\<rparr>) (credit_account s2)\<rparr>
                   in (requireAccount s3 (Pair True), s3)) s)"

definition applyUsage ::
    "instant \<Rightarrow> CreditLedgerRecord \<Rightarrow> ledger \<Rightarrow> (bool \<times> CreditAccount) CreditResult \<times> ledger" where
  "applyUsage now r s =
     (if \<not> validMicros (recordDebit r)
      then (Err INVALID_CREDIT_INPUT ''Ledger debit must be a non-negative safe integer'', s)
      else transactionSync (\<lambda>s.
        if ledgerExists (recordId r) s then (requireAccount s (Pair False), s)
        else let s1 = insertLedger r s;
                 s2 = s1\<lparr>credit_account := map_option (\<lambda>a. a\<lparr>
                     balance_micros := balance_micros a - micros (recordDebit r), updated_at := now\<rparr>)
                   (credit_account s1)\<rparr>
             in (requireAccount s2 (Pair True), s2)) s)"

text \<open>\<open>ORDER BY created_at, id\<close>: the order of strings, then of ids.\<close>

definition listLedger :: "ledger \<Rightarrow> CreditLedgerRecord list" where
  "listLedger s = sort_key (\<lambda>r. (createdAt r, recordId r)) (credit_ledger s)"

definition usageSummary :: "ledger \<Rightarrow> nat \<times> int" where
  "usageSummary s =
     (length (credit_ledger s), sum_list (map (\<lambda>r. micros (recordDebit r)) (credit_ledger s)))"

definition quarantine :: "instant \<Rightarrow> string \<Rightarrow> ledger \<Rightarrow> CreditAccount CreditResult \<times> ledger" where
  "quarantine now why s =
     (case credit_account s of
        None \<Rightarrow> (Err ACCOUNT_UNCONFIGURED ''Tenant credit account is not configured'', s)
      | Some a \<Rightarrow>
          let s' = s\<lparr>credit_account := Some (a\<lparr>status := Quarantined, reason := Some (take 500 why),
              updated_at := now\<rparr>)\<rparr>
          in (requireAccount s' id, s'))"

definition resume :: "instant \<Rightarrow> ledger \<Rightarrow> CreditAccount CreditResult \<times> ledger" where
  "resume now s =
     (case credit_account s of
        None \<Rightarrow> (Err ACCOUNT_UNCONFIGURED ''Tenant credit account is not configured'', s)
      | Some a \<Rightarrow>
          let s' = s\<lparr>credit_account := Some (a\<lparr>status := Active, reason := None, updated_at := now\<rparr>)\<rparr>
          in (requireAccount s' id, s'))"

definition consumeAdminNonce :: "instant \<Rightarrow> string \<Rightarrow> number \<Rightarrow> int \<Rightarrow> ledger \<Rightarrow> bool \<times> ledger" where
  "consumeAdminNonce now nonce timestamp maxSkewMs s =
     (if nonce = [] \<or> \<not> isSafeInteger timestamp \<or> maxSkewMs < \<bar>now - micros timestamp\<bar> then (False, s)
      else let kept = filter (\<lambda>(_, used). \<not> used < micros timestamp - maxSkewMs * 2) (admin_nonces s) in
        if nonce \<in> fst ` set kept then (False, s\<lparr>admin_nonces := kept\<rparr>)
        else (True, s\<lparr>admin_nonces := kept @ [(nonce, micros timestamp)]\<rparr>))"

subsection \<open>A sequence of calls\<close>

datatype LedgerCall =
    Configure number number
  | Reserve string number number
  | Settle string CreditLedgerRecord
  | ApplyUsage CreditLedgerRecord
  | Quarantine string
  | Resume
  | ConsumeNonce string number int

fun callLedger :: "ledger \<Rightarrow> instant \<times> LedgerCall \<Rightarrow> ledger" where
  "callLedger s (now, Configure balance risk) = snd (configure now balance risk s)"
| "callLedger s (now, Reserve i amount expiresAt) = snd (reserveDispatch now i amount expiresAt s)"
| "callLedger s (now, Settle i r) = snd (settleDispatch now i r s)"
| "callLedger s (now, ApplyUsage r) = snd (applyUsage now r s)"
| "callLedger s (now, Quarantine why) = snd (quarantine now why s)"
| "callLedger s (now, Resume) = snd (resume now s)"
| "callLedger s (now, ConsumeNonce nonce timestamp skew) = snd (consumeAdminNonce now nonce timestamp skew s)"

subsection \<open>The invariant\<close>

definition pendingMicros :: "ReservationRow list \<Rightarrow> int" where
  "pendingMicros rs = sum_list (map amount_micros (filter (\<lambda>r. resStatus r = Pending) rs))"

definition validRecord :: "CreditLedgerRecord \<Rightarrow> bool" where
  "validRecord r \<longleftrightarrow> validMicros (recordDebit r)"

text \<open>
  Keys are unique, amounts are not negative, there is an account as soon as there is anything else,
  and the account's \<open>reserved_micros\<close> is the sum of the pending reservations.
\<close>

definition wfLedger :: "ledger \<Rightarrow> bool" where
  "wfLedger s \<longleftrightarrow>
     distinct (map resId (credit_reservations s)) \<and> distinct (map recordId (credit_ledger s))
     \<and> distinct (map fst (admin_nonces s))
     \<and> (\<forall>r \<in> set (credit_reservations s). 0 \<le> amount_micros r)
     \<and> (\<forall>r \<in> set (credit_ledger s). validRecord r)
     \<and> (case credit_account s of
          None \<Rightarrow> credit_reservations s = [] \<and> credit_ledger s = []
        | Some a \<Rightarrow> reserved_micros a = pendingMicros (credit_reservations s) \<and> 0 \<le> risk_reserve_micros a)"

lemma wfLedgerD:
  assumes "wfLedger s"
  shows "distinct (map resId (credit_reservations s))" and "distinct (map recordId (credit_ledger s))"
    and "distinct (map fst (admin_nonces s))"
    and "r \<in> set (credit_reservations s) \<Longrightarrow> 0 \<le> amount_micros r"
    and "x \<in> set (credit_ledger s) \<Longrightarrow> validRecord x"
    and "credit_account s = None \<Longrightarrow> credit_reservations s = [] \<and> credit_ledger s = []"
    and "credit_account s = Some a \<Longrightarrow> reserved_micros a = pendingMicros (credit_reservations s)"
    and "credit_account s = Some a \<Longrightarrow> 0 \<le> risk_reserve_micros a"
  using assms unfolding wfLedger_def by auto

lemma pendingMicros_simps [simp]:
  "pendingMicros [] = 0"
  "pendingMicros (r # rs) = (if resStatus r = Pending then amount_micros r else 0) + pendingMicros rs"
  "pendingMicros (rs @ rs') = pendingMicros rs + pendingMicros rs'"
  by (simp_all add: pendingMicros_def)

lemma pendingMicros_nonneg: "\<forall>r \<in> set rs. 0 \<le> amount_micros r \<Longrightarrow> 0 \<le> pendingMicros rs"
  by (induction rs) auto

lemma pendingMicros_expire:
  "pendingMicros (map (\<lambda>r. if due now r then r\<lparr>resStatus := Expired\<rparr> else r) rs)
     = pendingMicros rs - sum_list (map amount_micros (filter (due now) rs))"
  by (induction rs) (auto simp: due_def)

lemma pendingMicros_expireAll:
  "pendingMicros (map (\<lambda>r. if resStatus r = Pending then r\<lparr>resStatus := Expired\<rparr> else r) rs) = 0"
  by (induction rs) auto

lemma resId_update [simp]:
  "map resId (map (\<lambda>r. if P r then r\<lparr>resStatus := st\<rparr> else r) rs) = map resId rs"
  by (induction rs) auto

lemma amount_update:
  "(\<forall>r \<in> set (map (\<lambda>r. if P r then r\<lparr>resStatus := st\<rparr> else r) rs). 0 \<le> amount_micros r)
     \<longleftrightarrow> (\<forall>r \<in> set rs. 0 \<le> amount_micros r)"
  by (induction rs) auto

lemma pendingMicros_settle:
  "distinct (map resId rs) \<Longrightarrow> List.find (\<lambda>r. resId r = i) rs = Some r \<Longrightarrow> resStatus r = Pending \<Longrightarrow>
     pendingMicros (map (\<lambda>x. if resId x = i then x\<lparr>resStatus := Settled\<rparr> else x) rs)
       = pendingMicros rs - amount_micros r"
proof (induction rs)
  case (Cons x rs)
  show ?case
  proof (cases "resId x = i")
    case True
    with Cons.prems(1) have "\<forall>y \<in> set rs. resId y \<noteq> i" by (metis distinct.simps(2) image_eqI list.simps(9) set_map)
    then have "map (\<lambda>x. if resId x = i then x\<lparr>resStatus := Settled\<rparr> else x) rs = rs"
      by (intro map_idI) simp
    with True Cons.prems show ?thesis by simp
  next
    case False
    with Cons show ?thesis by simp
  qed
qed simp

lemma find_member: "List.find P xs = Some x \<Longrightarrow> x \<in> set xs \<and> P x"
  by (auto simp: find_Some_iff)

lemma pendingMicros_member:
  "\<forall>r \<in> set rs. 0 \<le> amount_micros r \<Longrightarrow> r \<in> set rs \<Longrightarrow> resStatus r = Pending
     \<Longrightarrow> amount_micros r \<le> pendingMicros rs"
  by (induction rs) (auto dest: pendingMicros_nonneg)

lemma due_pending:
  "\<forall>r \<in> set rs. 0 \<le> amount_micros r \<Longrightarrow>
     sum_list (map amount_micros (filter (due now) rs)) \<le> pendingMicros rs"
  by (induction rs) (auto simp: due_def)

lemma transactionSync_snd:
  "snd (transactionSync body s) = (case fst (body s) of Threw \<Rightarrow> s | _ \<Rightarrow> snd (body s))"
  by (auto simp: transactionSync_def split: prod.splits CreditResult.splits)

lemma wf_transactionSync: "wfLedger s \<Longrightarrow> wfLedger (snd (body s)) \<Longrightarrow> wfLedger (snd (transactionSync body s))"
  by (simp add: transactionSync_snd split: CreditResult.splits)

lemma wf_expireReservations:
  assumes "wfLedger s"
  shows "wfLedger (expireReservations now s)"
proof -
  note wf = wfLedgerD [OF assms]
  let ?released = "sum_list (map amount_micros (filter (due now) (credit_reservations s)))"
  have "?released \<le> pendingMicros (credit_reservations s)" using wf(4) by (intro due_pending) blast
  then show ?thesis
    using assms unfolding wfLedger_def expireReservations_def Let_def
    by (simp add: pendingMicros_expire comp_def if_distrib cong: if_cong split: option.splits)
       (auto simp: comp_def if_distrib cong: if_cong)
qed

lemma expire_fields [simp]:
  "credit_ledger (expireReservations now s) = credit_ledger s"
  "admin_nonces (expireReservations now s) = admin_nonces s"
  "credit_account (expireReservations now s) = None \<longleftrightarrow> credit_account s = None"
  by (simp_all add: expireReservations_def Let_def)

lemma wf_configure: "wfLedger s \<Longrightarrow> wfLedger (snd (configure now balance risk s))"
  unfolding wfLedger_def configure_def Let_def
  by (simp add: pendingMicros_expireAll validMicros_def requireAccount_def amount_update
      del: map_map split: option.splits) auto

lemma wf_reserveDispatch:
  assumes "wfLedger s"
  shows "wfLedger (snd (reserveDispatch now i amount expiresAt s))"
proof -
  let ?t = "expireReservations now s"
  have t: "wfLedger ?t" by (rule wf_expireReservations [OF assms])
  have "wfLedger (?t\<lparr>credit_reservations := credit_reservations ?t
        @ [\<lparr>resId = i, amount_micros = micros amount, resStatus = Pending, expires_at = x, created_at = now\<rparr>],
      credit_account := Some (a\<lparr>reserved_micros := reserved_micros a + micros amount, updated_at := now\<rparr>)\<rparr>)"
    if "findReservation i ?t = None" "credit_account ?t = Some a" "validMicros amount" for a x
    using that t unfolding wfLedger_def findReservation_def
    by (auto simp: find_None_iff validMicros_def)
  with t assms show ?thesis
    by (auto simp: reserveDispatch_def Let_def split: option.splits intro!: wf_transactionSync)
qed

lemma wf_insert:
  "wfLedger s \<Longrightarrow> credit_account s \<noteq> None \<Longrightarrow> \<not> ledgerExists (recordId r) s \<Longrightarrow> validMicros (recordDebit r) \<Longrightarrow>
     wfLedger (insertLedger r s)"
  unfolding wfLedger_def insertLedger_def ledgerExists_def validRecord_def by (auto split: option.splits)

lemma transactionSync_throws: "fst (body s) = Threw \<Longrightarrow> transactionSync body s = (Threw, s)"
  by (auto simp: transactionSync_def split: prod.splits)

lemma wf_applyUsage:
  assumes "wfLedger s"
  shows "wfLedger (snd (applyUsage now r s))"
proof (cases "credit_account s")
  case None
  then show ?thesis using assms
    by (simp add: applyUsage_def transactionSync_def Let_def insertLedger_def requireAccount_def)
next
  case (Some a)
  have "wfLedger (s'\<lparr>credit_account := map_option (\<lambda>a. a\<lparr>balance_micros := b a, updated_at := now\<rparr>)
      (credit_account s')\<rparr>)" if "wfLedger s'" for b s'
    using that unfolding wfLedger_def by (auto split: option.splits)
  with assms wf_insert [OF assms, of r] Some show ?thesis
    by (auto simp: applyUsage_def Let_def intro!: wf_transactionSync)
qed

lemma wf_settleDispatch:
  assumes "wfLedger s"
  shows "wfLedger (snd (settleDispatch now i r s))"
proof -
  have "wfLedger (s'\<lparr>credit_reservations := map (\<lambda>x. if resId x = i then x\<lparr>resStatus := Settled\<rparr> else x)
        (credit_reservations s'),
      credit_account := map_option (\<lambda>a. a\<lparr>balance_micros := b a,
        reserved_micros := max 0 (reserved_micros a - amount_micros x), updated_at := now\<rparr>) (credit_account s')\<rparr>)"
    if s': "wfLedger s'" and x: "List.find (\<lambda>r. resId r = i) (credit_reservations s') = Some x"
      "resStatus x = Pending" for b s' x
  proof -
    note wf = wfLedgerD [OF s']
    have "amount_micros x \<le> pendingMicros (credit_reservations s')"
      using find_member [OF x(1)] x(2) wf(4) by (intro pendingMicros_member) auto
    with pendingMicros_settle [OF wf(1) x] s' find_member [OF x(1)] show ?thesis
      unfolding wfLedger_def by (simp add: amount_update del: map_map split: option.splits) auto
  qed
  note step = this
  have account: "credit_account s \<noteq> None" if "findReservation i s = Some x" for x
  proof
    assume "credit_account s = None"
    with wfLedgerD(6) [OF assms] that show False by (simp add: findReservation_def)
  qed
  show ?thesis
    using assms account wf_insert [OF assms, of r]
      step [of "insertLedger r s" _ "\<lambda>a. balance_micros a - micros (recordDebit r)"]
    by (auto simp: settleDispatch_def Let_def findReservation_def insertLedger_def
        intro!: wf_transactionSync split: option.splits)
qed

lemma wf_quarantine: "wfLedger s \<Longrightarrow> wfLedger (snd (quarantine now why s))"
  unfolding wfLedger_def quarantine_def by (auto simp: Let_def split: option.splits)

lemma wf_resume: "wfLedger s \<Longrightarrow> wfLedger (snd (resume now s))"
  unfolding wfLedger_def resume_def by (auto simp: Let_def split: option.splits)

lemma wf_consumeAdminNonce:
  assumes "wfLedger s"
  shows "wfLedger (snd (consumeAdminNonce now nonce timestamp skew s))"
proof -
  have "distinct (map fst (filter P (admin_nonces s)))" for P
    using wfLedgerD(3) [OF assms] by (rule distinct_map_filter)
  moreover have "wfLedger (s\<lparr>admin_nonces := ns\<rparr>)" if "distinct (map fst ns)" for ns
    using assms that unfolding wfLedger_def by (simp split: option.splits)
  ultimately show ?thesis using assms by (simp add: consumeAdminNonce_def Let_def)
qed

lemmas wf_methods = wf_configure wf_reserveDispatch wf_settleDispatch wf_applyUsage wf_quarantine
  wf_resume wf_consumeAdminNonce

lemma wf_callLedger: "wfLedger s \<Longrightarrow> wfLedger (callLedger s c)"
  by (cases "(s, c)" rule: callLedger.cases) (simp_all add: wf_methods)

interpretation calls: kept_invariant callLedger wfLedger
  by unfold_locales (rule wf_callLedger)

lemma wf_emptyLedger: "wfLedger emptyLedger"
  by (simp add: wfLedger_def emptyLedger_def)

subsection \<open>What each method promises\<close>

lemma requireAccount_Ok: "requireAccount s value = Ok x \<longleftrightarrow> (\<exists>a. credit_account s = Some a \<and> x = value (toAccount a))"
  by (auto simp: requireAccount_def split: option.splits)

lemma requireAccount_not_Err [simp]: "requireAccount s value \<noteq> Err c m"
  by (simp add: requireAccount_def split: option.splits)

lemma transactionSync_Ok: "transactionSync body s = (Ok x, s') \<longleftrightarrow> body s = (Ok x, s')"
  by (auto simp: transactionSync_def split: prod.splits CreditResult.splits)

lemma transactionSync_Err: "transactionSync body s = (Err c m, s') \<longleftrightarrow> body s = (Err c m, s')"
  by (auto simp: transactionSync_def split: prod.splits CreditResult.splits)

lemma transactionSync_Threw: "transactionSync body s = (Threw, s') \<longleftrightarrow> fst (body s) = Threw \<and> s' = s"
  by (auto simp: transactionSync_def split: prod.splits CreditResult.splits)

text \<open>
  C1. In every state a sequence of calls can reach, the micros an account holds in reserve are
  exactly the amounts of its pending reservations, so the \<open>MAX(0, ...)\<close> of the updates never
  cuts anything off; no reservation id, ledger id or nonce is stored twice.
\<close>

theorem reserved_is_pending:
  "wfLedger (foldl callLedger emptyLedger cs)
   \<and> (case credit_account (foldl callLedger emptyLedger cs) of
        None \<Rightarrow> credit_reservations (foldl callLedger emptyLedger cs) = []
      | Some a \<Rightarrow> reserved_micros a = pendingMicros (credit_reservations (foldl callLedger emptyLedger cs)))"
  using calls.run_holds [OF wf_emptyLedger, of cs] wfLedgerD(6,7) by (auto split: option.splits)

text \<open>
  C30. A dispatch is funded when it is reserved: when a reservation under a new id is granted, the
  account is active, what is left after the risk reserve and every pending reservation, this one
  included, is not negative, and the reservation is stored as pending with its amount. A
  reservation that does not fit is refused and stores nothing.
\<close>

theorem reserveDispatch_funded:
  assumes "wfLedger s" and "findReservation i (expireReservations now s) = None"
    and "reserveDispatch now i amount expiresAt s = (Ok (j, account), s')"
  shows "j = i \<and> accountStatus account = Active \<and> 0 \<le> availableMicros account
    \<and> reservedMicros account = pendingMicros (credit_reservations s')
    \<and> findReservation i s' = Some \<lparr>resId = i, amount_micros = micros amount, resStatus = Pending,
        expires_at = micros expiresAt, created_at = now\<rparr>
    \<and> getAccount s' = Ok account"
proof -
  let ?t = "expireReservations now s"
  from assms(2,3) obtain a where a: "credit_account ?t = Some a" "status a = Active"
    "micros amount \<le> balance_micros a - reserved_micros a - risk_reserve_micros a"
    and s': "s' = ?t\<lparr>credit_reservations := credit_reservations ?t
        @ [\<lparr>resId = i, amount_micros = micros amount, resStatus = Pending, expires_at = micros expiresAt, created_at = now\<rparr>],
      credit_account := Some (a\<lparr>reserved_micros := reserved_micros a + micros amount, updated_at := now\<rparr>)\<rparr>"
    and j: "j = i" and account: "account = toAccount (a\<lparr>reserved_micros := reserved_micros a + micros amount, updated_at := now\<rparr>)"
    by (auto simp: reserveDispatch_def transactionSync_Ok Let_def requireAccount_Ok
        split: if_splits option.splits)
  have "reserved_micros a = pendingMicros (credit_reservations ?t)"
    using wfLedgerD(7) [OF wf_expireReservations [OF assms(1)] a(1)] .
  moreover have "List.find (\<lambda>r. resId r = i) (credit_reservations ?t
        @ [\<lparr>resId = i, amount_micros = x, resStatus = Pending, expires_at = y, created_at = now\<rparr>])
      = Some \<lparr>resId = i, amount_micros = x, resStatus = Pending, expires_at = y, created_at = now\<rparr>" for x y
    using assms(2) by (simp add: findReservation_def find_append)
  ultimately show ?thesis using a j account
    by (simp add: s' toAccount_def findReservation_def getAccount_def)
qed

definition debited :: "ledger \<Rightarrow> int" where
  "debited s = snd (usageSummary s)"

definition balance :: "ledger \<Rightarrow> int" where
  "balance s = (case credit_account s of None \<Rightarrow> 0 | Some a \<Rightarrow> balance_micros a)"

lemma expire_balance [simp]:
  "balance (expireReservations now s) = balance s" "debited (expireReservations now s) = debited s"
  by (auto simp: balance_def debited_def usageSummary_def expireReservations_def Let_def split: option.splits)

fun reconfigures :: "LedgerCall \<Rightarrow> bool" where
  "reconfigures (Configure _ _) = True"
| "reconfigures _ = False"

lemma debited_simps [simp]:
  "debited (s\<lparr>credit_account := a\<rparr>) = debited s" "debited (s\<lparr>credit_reservations := rs\<rparr>) = debited s"
  "debited (s\<lparr>admin_nonces := ns\<rparr>) = debited s"
  "debited (insertLedger r s) = debited s + micros (recordDebit r)"
  by (simp_all add: debited_def usageSummary_def insertLedger_def)

lemma balance_simps [simp]:
  "balance (s\<lparr>credit_reservations := rs\<rparr>) = balance s" "balance (s\<lparr>admin_nonces := ns\<rparr>) = balance s"
  "balance (insertLedger r s) = balance s"
  "balance (s\<lparr>credit_account := a\<rparr>) = (case a of None \<Rightarrow> 0 | Some a \<Rightarrow> balance_micros a)"
  by (simp_all add: balance_def insertLedger_def)

lemma balance_get: "credit_account s = Some a \<Longrightarrow> balance s = balance_micros a"
  by (simp add: balance_def)

lemma insertLedger_account [simp]: "credit_account (insertLedger r s) = credit_account s"
  "credit_reservations (insertLedger r s) = credit_reservations s"
  by (simp_all add: insertLedger_def)

definition worth :: "ledger \<Rightarrow> int" where
  "worth s = balance s + debited s"

lemma worth_transactionSync:
  "worth (snd (body s)) = worth s \<or> fst (body s) = Threw \<Longrightarrow> worth (snd (transactionSync body s)) = worth s"
  by (auto simp: transactionSync_snd split: CreditResult.splits)

lemma worth_reserveDispatch: "worth (snd (reserveDispatch now i amount expiresAt s)) = worth s"
proof -
  have [simp]: "balance s = balance_micros a" if "credit_account (expireReservations now s) = Some a" for a
    using balance_get [OF that] by simp
  show ?thesis
    by (auto simp: reserveDispatch_def Let_def worth_def transactionSync_snd split: option.splits CreditResult.splits)
qed

lemma worth_debit:
  "credit_account s = Some a \<Longrightarrow>
     worth (insertLedger r s\<lparr>credit_account := Some (b\<lparr>balance_micros := balance_micros a - micros (recordDebit r)\<rparr>)\<rparr>)
       = worth s"
  by (simp add: worth_def balance_get)

lemma applyUsage_cases:
  obtains (invalid) m where "applyUsage now r s = (Err INVALID_CREDIT_INPUT m, s)"
  | (none) "credit_account s = None" "applyUsage now r s = (Threw, s)"
  | (replay) a where "credit_account s = Some a" "ledgerExists (recordId r) s"
      "applyUsage now r s = (Ok (False, toAccount a), s)"
  | (debit) a where "credit_account s = Some a" "\<not> ledgerExists (recordId r) s"
      "applyUsage now r s =
        (Ok (True, toAccount (a\<lparr>balance_micros := balance_micros a - micros (recordDebit r), updated_at := now\<rparr>)),
         insertLedger r s\<lparr>credit_account := Some (a\<lparr>balance_micros := balance_micros a - micros (recordDebit r),
           updated_at := now\<rparr>)\<rparr>)"
  by (cases "validMicros (recordDebit r)"; cases "credit_account s"; cases "ledgerExists (recordId r) s")
     (auto simp: applyUsage_def transactionSync_def requireAccount_def Let_def)

lemma settleDispatch_cases:
  obtains (refused) c m where "settleDispatch now i r s = (Err c m, s)"
  | (none) "credit_account s = None" "settleDispatch now i r s = (Threw, s)"
  | (replay) a where "credit_account s = Some a" "ledgerExists (recordId r) s"
      "settleDispatch now i r s = (Ok (False, toAccount a), s)"
  | (debit) a rs account where "credit_account s = Some a" "\<not> ledgerExists (recordId r) s"
      "balance_micros account = balance_micros a - micros (recordDebit r)"
      "settleDispatch now i r s = (Ok (True, toAccount account),
         insertLedger r s\<lparr>credit_reservations := rs, credit_account := Some account\<rparr>)"
proof (cases "validMicros (recordDebit r)")
  case False
  then show thesis by (intro refused) (simp add: settleDispatch_def)
next
  case valid: True
  show thesis
  proof (cases "credit_account s")
    case None
    with valid show thesis
      by (cases "ledgerExists (recordId r) s"; cases "findReservation i s";
          cases "resStatus (the (findReservation i s)) = Pending")
         (auto intro: none refused simp: settleDispatch_def transactionSync_def requireAccount_def Let_def)
  next
    case (Some a)
    note account = this
    show thesis
    proof (cases "ledgerExists (recordId r) s")
      case True
      with valid account show thesis
        by (intro replay) (auto simp: settleDispatch_def transactionSync_def requireAccount_def)
    next
      case fresh: False
      show thesis
      proof (cases "findReservation i s")
        case None
        with valid fresh show thesis by (intro refused) (simp add: settleDispatch_def transactionSync_def)
      next
        case (Some x)
        show thesis
        proof (cases "resStatus x = Pending")
          case True
          with valid fresh account Some show thesis
            by (intro debit) (auto simp: settleDispatch_def transactionSync_def requireAccount_def Let_def)
        next
          case False
          with valid fresh Some show thesis by (intro refused) (simp add: settleDispatch_def transactionSync_def)
        qed
      qed
    qed
  qed
qed

lemma worth_settleDispatch: "worth (snd (settleDispatch now i r s)) = worth s"
  by (cases rule: settleDispatch_cases [of now i r s]) (simp_all add: worth_def balance_get)

lemma worth_applyUsage: "worth (snd (applyUsage now r s)) = worth s"
  by (cases rule: applyUsage_cases [of now r s]) (simp_all add: worth_def balance_get)

lemma worth_callLedger: "\<not> reconfigures (snd c) \<Longrightarrow> worth (callLedger s c) = worth s"
proof (cases "(s, c)" rule: callLedger.cases)
  case (5 s' now why)
  then show ?thesis by (auto simp: quarantine_def worth_def balance_def Let_def split: option.splits)
next
  case (6 s' now)
  then show ?thesis by (auto simp: resume_def worth_def balance_def Let_def split: option.splits)
next
  case (7 s' now nonce timestamp skew)
  then show ?thesis by (auto simp: consumeAdminNonce_def worth_def Let_def)
qed (simp_all add: worth_reserveDispatch worth_settleDispatch worth_applyUsage)

text \<open>
  C13. Credits are conserved: between two configurations of the account, the balance and the
  debits in the ledger always add up to the same amount. No call creates or loses credit, errors
  and thrown transactions included.
\<close>

theorem credits_conserved:
  assumes "\<forall>c \<in> set cs. \<not> reconfigures (snd c)"
  shows "balance (foldl callLedger s cs) + debited (foldl callLedger s cs) = balance s + debited s"
proof -
  have "worth (foldl callLedger s cs) = worth s"
    using assms by (induction cs arbitrary: s) (simp_all add: worth_callLedger)
  then show ?thesis by (simp add: worth_def)
qed

lemma ledgerExists_insert [simp]: "ledgerExists i (insertLedger r s) \<longleftrightarrow> recordId r = i \<or> ledgerExists i s"
  by (auto simp: ledgerExists_def insertLedger_def)

lemma ledgerExists_fields [simp]:
  "ledgerExists i (s\<lparr>credit_account := a\<rparr>) = ledgerExists i s"
  "ledgerExists i (s\<lparr>credit_reservations := rs\<rparr>) = ledgerExists i s"
  "ledgerExists i (s\<lparr>admin_nonces := ns\<rparr>) = ledgerExists i s"
  "ledgerExists i (expireReservations now s) = ledgerExists i s"
  by (simp_all add: ledgerExists_def)

lemma ledgerExists_callLedger: "ledgerExists i s \<Longrightarrow> ledgerExists i (callLedger s c)"
proof (cases "(s, c)" rule: callLedger.cases)
  case (2 s' now j amount expiresAt)
  then show "ledgerExists i s \<Longrightarrow> ?thesis"
    by (auto simp: reserveDispatch_def transactionSync_snd Let_def split: option.splits CreditResult.splits)
next
  case (3 s' now j r)
  then show "ledgerExists i s \<Longrightarrow> ?thesis"
    by (cases rule: settleDispatch_cases [of now j r s']) simp_all
next
  case (4 s' now r)
  then show "ledgerExists i s \<Longrightarrow> ?thesis"
    by (cases rule: applyUsage_cases [of now r s']) simp_all
qed (auto simp: configure_def quarantine_def resume_def consumeAdminNonce_def Let_def split: option.splits)

interpretation recorded: kept_invariant callLedger "ledgerExists i"
  for i
  by unfold_locales (rule ledgerExists_callLedger)

text \<open>
  C31. A ledger record is debited once: a settlement or usage report that answers \<open>applied\<close> lowers
  the balance by the record's debit, and after it, whatever calls follow, a second settlement or
  report under the same id changes nothing and never answers \<open>applied\<close>.
\<close>

theorem record_debited_once:
  assumes "settleDispatch now i r s = (Ok (True, account), s') \<or> applyUsage now r s = (Ok (True, account), s')"
    and "recordId r' = recordId r"
  shows "balance s' = balance s - micros (recordDebit r)
    \<and> snd (settleDispatch now' j r' (foldl callLedger s' cs)) = foldl callLedger s' cs
    \<and> snd (applyUsage now' r' (foldl callLedger s' cs)) = foldl callLedger s' cs
    \<and> fst (applyUsage now' r' (foldl callLedger s' cs)) \<noteq> Ok (True, account')
    \<and> fst (settleDispatch now' j r' (foldl callLedger s' cs)) \<noteq> Ok (True, account')"
proof -
  have "ledgerExists (recordId r) s' \<and> balance s' = balance s - micros (recordDebit r)"
    using assms(1)
    by (cases rule: settleDispatch_cases [of now i r s]; cases rule: applyUsage_cases [of now r s])
       (auto simp: balance_get)
  then have "balance s' = balance s - micros (recordDebit r)"
    and e: "ledgerExists (recordId r') (foldl callLedger s' cs)"
    using recorded.run_holds [of "recordId r'" s' cs] assms(2) by simp_all
  then show ?thesis
    by (cases rule: settleDispatch_cases [of now' j r' "foldl callLedger s' cs"];
        cases rule: applyUsage_cases [of now' r' "foldl callLedger s' cs"]) simp_all
qed

subsection \<open>Administrative nonces\<close>

text \<open>
  The accepted calls of a sequence. \<open>keptNonces\<close> says that an accepted pair is either still stored
  or too old to be accepted again.
\<close>

fun acceptedNonces :: "ledger \<Rightarrow> (instant \<times> LedgerCall) list \<Rightarrow> (string \<times> int) list" where
  "acceptedNonces s [] = []"
| "acceptedNonces s ((now, c) # cs) =
     (case c of
        ConsumeNonce nonce timestamp skew \<Rightarrow>
          (if fst (consumeAdminNonce now nonce timestamp skew s) then [(nonce, micros timestamp)] else [])
      | _ \<Rightarrow> []) @ acceptedNonces (callLedger s (now, c)) cs"

definition keptNonces :: "int \<Rightarrow> instant \<Rightarrow> (string \<times> int) set \<Rightarrow> ledger \<Rightarrow> bool" where
  "keptNonces skew now accepted s \<longleftrightarrow>
     (\<forall>(n, t) \<in> accepted. (n, t) \<in> set (admin_nonces s) \<or> t + skew < now)"

fun skewOf :: "int \<Rightarrow> LedgerCall \<Rightarrow> bool" where
  "skewOf skew (ConsumeNonce _ _ k) = (k = skew)"
| "skewOf skew _ = True"

lemma nonces_unchanged:
  "(\<forall>n t k. c \<noteq> ConsumeNonce n t k) \<Longrightarrow> admin_nonces (callLedger s (now, c)) = admin_nonces s"
proof (cases "(s, (now, c))" rule: callLedger.cases)
  case (3 s' now i r)
  then show ?thesis by (cases rule: settleDispatch_cases [of now i r s]) (auto simp: insertLedger_def)
next
  case (4 s' now r)
  then show ?thesis by (cases rule: applyUsage_cases [of now r s]) (auto simp: insertLedger_def)
qed (auto simp: configure_def quarantine_def resume_def reserveDispatch_def transactionSync_snd Let_def
    split: option.splits CreditResult.splits)

lemma consume_kept:
  assumes kept: "keptNonces skew t0 accepted s" and later: "t0 \<le> now"
  shows "keptNonces skew now
      ((if fst (consumeAdminNonce now n t skew s) then {(n, micros t)} else {}) \<union> accepted)
      (snd (consumeAdminNonce now n t skew s))"
    and "fst (consumeAdminNonce now n t skew s) \<Longrightarrow> (n, micros t) \<notin> accepted"
proof -
  let ?ok = "n \<noteq> [] \<and> isSafeInteger t \<and> \<bar>now - micros t\<bar> \<le> skew"
  let ?kept = "filter (\<lambda>(_, used). \<not> used < micros t - skew * 2) (admin_nonces s)"
  have old: "(m, u) \<in> set (admin_nonces s) \<or> u + skew < now" if "(m, u) \<in> accepted" for m u
    using that kept later unfolding keptNonces_def by fastforce
  have still: "(m, u) \<in> set ?kept \<or> u + skew < now" if "(m, u) \<in> accepted" and ?ok for m u
    using old [OF that(1)] that(2) by auto
  show "keptNonces skew now
      ((if fst (consumeAdminNonce now n t skew s) then {(n, micros t)} else {}) \<union> accepted)
      (snd (consumeAdminNonce now n t skew s))"
  proof (cases ?ok)
    case True
    with still show ?thesis unfolding keptNonces_def by (auto simp: consumeAdminNonce_def Let_def)
  next
    case False
    with old show ?thesis unfolding keptNonces_def by (auto simp: consumeAdminNonce_def)
  qed
  show "(n, micros t) \<notin> accepted" if acc: "fst (consumeAdminNonce now n t skew s)"
  proof
    assume "(n, micros t) \<in> accepted"
    moreover have ?ok and fresh: "n \<notin> fst ` set ?kept"
      using acc by (auto simp: consumeAdminNonce_def Let_def split: if_splits)
    ultimately have "(n, micros t) \<in> set ?kept" using still [of n "micros t"] by auto
    with fresh show False by force
  qed
qed

lemma accepted_distinct:
  assumes "keptNonces skew t0 accepted s" and "sorted (t0 # map fst cs)"
    and "\<forall>c \<in> set cs. skewOf skew (snd c)"
  shows "distinct (acceptedNonces s cs) \<and> set (acceptedNonces s cs) \<inter> accepted = {}"
  using assms
proof (induction cs arbitrary: s t0 accepted)
  case (Cons c cs)
  obtain now x where c: "c = (now, x)" by (cases c)
  have later: "t0 \<le> now" and rest: "sorted (now # map fst cs)" using Cons.prems(2) c by simp_all
  show ?case
  proof (cases "\<exists>n t k. x = ConsumeNonce n t k")
    case True
    then obtain n t where x: "x = ConsumeNonce n t skew" using Cons.prems(3) c by auto
    let ?new = "if fst (consumeAdminNonce now n t skew s) then {(n, micros t)} else {}"
    from consume_kept [OF Cons.prems(1) later, of n t]
    have kept: "keptNonces skew now (?new \<union> accepted) (callLedger s c)"
      and fresh: "?new \<inter> accepted = {}" by (auto simp: c x)
    from Cons.IH [OF kept rest] Cons.prems(3) fresh show ?thesis by (auto simp: c x split: if_splits)
  next
    case False
    then have same: "admin_nonces (callLedger s c) = admin_nonces s"
      using nonces_unchanged [of x s now] by (simp add: c)
    have "keptNonces skew now accepted (callLedger s c)"
      using Cons.prems(1) later unfolding keptNonces_def same by fastforce
    from Cons.IH [OF this rest] Cons.prems(3) False show ?thesis
      by (auto simp: c split: LedgerCall.splits)
  qed
qed simp

text \<open>
  C32. An administrative call cannot be replayed: as long as the clock does not go back and the
  allowed skew is the same, no nonce is accepted twice with one timestamp, whatever other calls
  come between, although old nonces are deleted.
\<close>

theorem admin_nonce_once:
  assumes "sorted (map fst cs)" and "\<forall>c \<in> set cs. skewOf skew (snd c)"
  shows "distinct (acceptedNonces emptyLedger cs)"
proof (cases cs)
  case (Cons c rest)
  have "keptNonces skew (fst c) {} emptyLedger" by (simp add: keptNonces_def)
  from accepted_distinct [OF this, of cs] assms Cons show ?thesis by simp
qed simp

theorem admin_nonce_once_witness:
  "distinct (acceptedNonces emptyLedger
     [(10, ConsumeNonce ''n'' (Integer 9) 5), (11, Configure (Integer 3) (Integer 1)),
      (14, ConsumeNonce ''n'' (Integer 9) 5), (40, ConsumeNonce ''m'' (Integer 41) 5)])
   \<and> acceptedNonces emptyLedger
     [(10, ConsumeNonce ''n'' (Integer 9) 5), (11, Configure (Integer 3) (Integer 1)),
      (14, ConsumeNonce ''n'' (Integer 9) 5), (40, ConsumeNonce ''m'' (Integer 41) 5)]
     = [(''n'', 9), (''m'', 41)]"
proof
  show "distinct (acceptedNonces emptyLedger
     [(10, ConsumeNonce ''n'' (Integer 9) 5), (11, Configure (Integer 3) (Integer 1)),
      (14, ConsumeNonce ''n'' (Integer 9) 5), (40, ConsumeNonce ''m'' (Integer 41) 5)])"
    by (rule admin_nonce_once [where skew = 5]) simp_all
qed code_simp

subsection \<open>One account at work\<close>

definition exampleRecord :: CreditLedgerRecord where
  "exampleRecord = \<lparr>recordId = ''l1'', recordResource = ''do-request'', recordQuantity = ''200'',
     recordRateVersion = ''v1'', recordDebit = Integer 30, windowStart = [], windowEnd = [], createdAt = ''t''\<rparr>"

definition exampleLedger :: ledger where
  "exampleLedger = \<lparr>credit_account = Some \<lparr>balance_micros = 100, reserved_micros = 40, risk_reserve_micros = 10,
       status = Active, reason = None, updated_at = 5\<rparr>,
     credit_reservations = [\<lparr>resId = ''r1'', amount_micros = 40, resStatus = Pending, expires_at = 20, created_at = 5\<rparr>],
     credit_ledger = [], admin_nonces = []\<rparr>"

theorem reserveDispatch_funded_witness:
  "''r2'' = ''r2'' \<and> accountStatus \<lparr>balanceMicros = 100, reservedMicros = 90, riskReserveMicros = 10,
      availableMicros = 0, accountStatus = Active, accountReason = None\<rparr> = Active
    \<and> 0 \<le> availableMicros (\<lparr>balanceMicros = 100, reservedMicros = 90, riskReserveMicros = 10,
      availableMicros = 0, accountStatus = Active, accountReason = None\<rparr>)
    \<and> reservedMicros \<lparr>balanceMicros = 100, reservedMicros = 90, riskReserveMicros = 10,
      availableMicros = 0, accountStatus = Active, accountReason = None\<rparr>
        = pendingMicros (credit_reservations (snd (reserveDispatch 7 ''r2'' (Integer 50) (Integer 9) exampleLedger)))
    \<and> findReservation ''r2'' (snd (reserveDispatch 7 ''r2'' (Integer 50) (Integer 9) exampleLedger))
        = Some \<lparr>resId = ''r2'', amount_micros = micros (Integer 50), resStatus = Pending,
            expires_at = micros (Integer 9), created_at = 7\<rparr>
    \<and> getAccount (snd (reserveDispatch 7 ''r2'' (Integer 50) (Integer 9) exampleLedger))
        = Ok \<lparr>balanceMicros = 100, reservedMicros = 90, riskReserveMicros = 10,
            availableMicros = 0, accountStatus = Active, accountReason = None\<rparr>"
proof (rule reserveDispatch_funded)
  show "wfLedger exampleLedger" by (simp add: wfLedger_def exampleLedger_def)
  show "findReservation ''r2'' (expireReservations 7 exampleLedger) = None" by code_simp
  show "reserveDispatch 7 ''r2'' (Integer 50) (Integer 9) exampleLedger
    = (Ok (''r2'', \<lparr>balanceMicros = 100, reservedMicros = 90, riskReserveMicros = 10,
        availableMicros = 0, accountStatus = Active, accountReason = None\<rparr>),
       snd (reserveDispatch 7 ''r2'' (Integer 50) (Integer 9) exampleLedger))"
    by code_simp
qed

theorem credits_conserved_witness:
  "balance (foldl callLedger exampleLedger [(7, Settle ''r1'' exampleRecord), (8, ApplyUsage exampleRecord)])
     + debited (foldl callLedger exampleLedger [(7, Settle ''r1'' exampleRecord), (8, ApplyUsage exampleRecord)])
   = balance exampleLedger + debited exampleLedger"
  by (rule credits_conserved) simp

theorem record_debited_once_witness:
  "balance (snd (applyUsage 7 exampleRecord exampleLedger)) = balance exampleLedger - micros (recordDebit exampleRecord)
    \<and> snd (settleDispatch 9 ''r1'' exampleRecord (foldl callLedger (snd (applyUsage 7 exampleRecord exampleLedger)) [(8, Resume)]))
       = foldl callLedger (snd (applyUsage 7 exampleRecord exampleLedger)) [(8, Resume)]
    \<and> snd (applyUsage 9 exampleRecord (foldl callLedger (snd (applyUsage 7 exampleRecord exampleLedger)) [(8, Resume)]))
       = foldl callLedger (snd (applyUsage 7 exampleRecord exampleLedger)) [(8, Resume)]
    \<and> fst (applyUsage 9 exampleRecord (foldl callLedger (snd (applyUsage 7 exampleRecord exampleLedger)) [(8, Resume)]))
       \<noteq> Ok (True, \<lparr>balanceMicros = 70, reservedMicros = 40, riskReserveMicros = 10,
            availableMicros = 20, accountStatus = Active, accountReason = None\<rparr>)
    \<and> fst (settleDispatch 9 ''r1'' exampleRecord (foldl callLedger (snd (applyUsage 7 exampleRecord exampleLedger)) [(8, Resume)]))
       \<noteq> Ok (True, \<lparr>balanceMicros = 70, reservedMicros = 40, riskReserveMicros = 10,
            availableMicros = 20, accountStatus = Active, accountReason = None\<rparr>)"
proof (rule record_debited_once)
  show "settleDispatch 7 ''r1'' exampleRecord exampleLedger
      = (Ok (True, \<lparr>balanceMicros = 70, reservedMicros = 40, riskReserveMicros = 10,
            availableMicros = 20, accountStatus = Active, accountReason = None\<rparr>), snd (applyUsage 7 exampleRecord exampleLedger))
    \<or> applyUsage 7 exampleRecord exampleLedger
      = (Ok (True, \<lparr>balanceMicros = 70, reservedMicros = 40, riskReserveMicros = 10,
            availableMicros = 20, accountStatus = Active, accountReason = None\<rparr>), snd (applyUsage 7 exampleRecord exampleLedger))"
    by (rule disjI2) code_simp
qed (rule refl)

end
