(* ===== verification/Deployment_Plan.thy ===== *)
theory Deployment_Plan
  imports Prelude
begin

text \<open>
  \<open>packages/deployment/src/contracts.ts\<close>: which entrypoints a deployment replaces and in which
  order (\<open>affectedArtifacts\<close>), and the plan that is created, hashed and verified. Hashing,
  signing and the date format are parameters; the other rules of the zod schemas are written out.
\<close>

subsection \<open>Data\<close>

datatype EntrypointId =
    Frontend | Machine_daemon | Offload_worker | Relay_worker | Relay_do | Platform_dispatch

text \<open>The order of the entrypoint names as strings, by which \<open>sort()\<close> orders them.\<close>

fun nameRank :: "EntrypointId \<Rightarrow> nat" where
  "nameRank Frontend = 0"
| "nameRank Machine_daemon = 1"
| "nameRank Offload_worker = 2"
| "nameRank Platform_dispatch = 3"
| "nameRank Relay_do = 4"
| "nameRank Relay_worker = 5"

lemma nameRank_inject [simp]: "nameRank x = nameRank y \<longleftrightarrow> x = y"
  by (cases x; cases y) simp_all

instantiation EntrypointId :: linorder
begin

definition less_eq_EntrypointId :: "EntrypointId \<Rightarrow> EntrypointId \<Rightarrow> bool" where
  "less_eq_EntrypointId x y \<longleftrightarrow> nameRank x \<le> nameRank y"

definition less_EntrypointId :: "EntrypointId \<Rightarrow> EntrypointId \<Rightarrow> bool" where
  "less_EntrypointId x y \<longleftrightarrow> nameRank x < nameRank y"

instance
  by standard (auto simp: less_eq_EntrypointId_def less_EntrypointId_def)

end

record DeploymentArtifact =
  entrypoint :: EntrypointId
  hash :: string
  path :: string
  dependsOn :: "EntrypointId list"

datatype TargetKind = SandboxTarget | CurrentTarget

record DeploymentTarget =
  environmentId :: string
  targetKind :: TargetKind
  expectedGeneration :: string

record DeploymentSource =
  projectId :: string
  revision :: string
  dirty :: bool

datatype UnsignedAuthority = SandboxBy string | PromotionBy string

datatype DeploymentAuthority = Sandbox string | Promotion string string

datatype InvalidDeploymentPlan =
    DuplicateEntrypoints
  | UnknownDependency EntrypointId EntrypointId
  | NoChange
  | DependencyCycle
  | InvalidInput
  | AuthorityTargetMismatch
  | PromotionRequired
  | SandboxRequired
  | HashMismatch
  | SignatureInvalid
  | SignatureMalformed

subsection \<open>Which entrypoints change\<close>

text \<open>A JavaScript \<open>Set\<close> that is read in order is a list without duplicates.\<close>

definition changedEntrypoints :: "(EntrypointId \<rightharpoonup> string) \<Rightarrow> DeploymentArtifact list \<Rightarrow> EntrypointId list" where
  "changedEntrypoints currentHashes candidates =
     unique (map entrypoint (filter (\<lambda>a. currentHashes (entrypoint a) \<noteq> Some (hash a)) candidates))"

definition joins :: "EntrypointId list \<Rightarrow> DeploymentArtifact \<Rightarrow> bool" where
  "joins affected artifact \<longleftrightarrow>
     entrypoint artifact \<notin> set affected \<and> (\<exists>d \<in> set (dependsOn artifact). d \<in> set affected)"

fun expandPass :: "DeploymentArtifact list \<Rightarrow> EntrypointId list \<Rightarrow> bool \<Rightarrow> EntrypointId list \<times> bool" where
  "expandPass [] affected expanded = (affected, expanded)"
| "expandPass (artifact # rest) affected expanded =
     (if joins affected artifact then expandPass rest (affected @ [entrypoint artifact]) True
      else expandPass rest affected expanded)"

lemma expandPass_set:
  assumes "expandPass candidates affected expanded = (affected', expanded')"
  shows "set affected \<subseteq> set affected' \<and> set affected' \<subseteq> set affected \<union> entrypoint ` set candidates
    \<and> (expanded' \<longrightarrow> expanded \<or> set affected \<subset> set affected')
    \<and> (\<not> expanded' \<longrightarrow> affected' = affected)"
  using assms
proof (induction candidates affected expanded rule: expandPass.induct)
  case (2 artifact rest affected expanded)
  show ?case
  proof (cases "joins affected artifact")
    case True
    then have "entrypoint artifact \<notin> set affected" by (simp add: joins_def)
    moreover from True 2 have "set (affected @ [entrypoint artifact]) \<subseteq> set affected'"
      "set affected' \<subseteq> set (affected @ [entrypoint artifact]) \<union> entrypoint ` set rest"
      "\<not> expanded' \<Longrightarrow> affected' = affected @ [entrypoint artifact]" by simp_all
    moreover have "expanded'"
    proof -
      have "snd (expandPass rest xs True)" for xs by (induction rest arbitrary: xs) simp_all
      with True 2(3) show ?thesis by (metis expandPass.simps(2) snd_conv)
    qed
    ultimately show ?thesis by auto
  next
    case False
    with 2 show ?thesis by auto
  qed
qed simp

function expandAffected :: "DeploymentArtifact list \<Rightarrow> EntrypointId list \<Rightarrow> EntrypointId list" where
  "expandAffected candidates affected =
     (case expandPass candidates affected False of
        (affected', expanded) \<Rightarrow> if expanded then expandAffected candidates affected' else affected')"
  by pat_completeness auto
termination
proof (relation "measure (\<lambda>(candidates, affected). card (entrypoint ` set candidates - set affected))")
  fix candidates affected affected' expanded
  assume "(affected', expanded) = expandPass candidates affected False" "expanded"
  then have "expandPass candidates affected False = (affected', True)" by simp
  from expandPass_set [OF this] have "set affected \<subset> set affected'"
    "set affected' \<subseteq> set affected \<union> entrypoint ` set candidates" by auto
  then have "entrypoint ` set candidates - set affected' \<subset> entrypoint ` set candidates - set affected" by blast
  then show "((candidates, affected'), candidates, affected)
      \<in> measure (\<lambda>(candidates, affected). card (entrypoint ` set candidates - set affected))"
    by (simp add: psubset_card_mono)
qed simp

declare expandAffected.simps [simp del]

subsection \<open>In which order\<close>

record visits =
  visiting :: "EntrypointId set"
  visited :: "EntrypointId set"
  ordered :: "DeploymentArtifact list"

text \<open>
  \<open>visit\<close> recurses along dependencies. Its fuel bounds the depth; \<^const>\<open>None\<close> stands for running
  out of it, or for \<open>byEntrypoint.get(entrypoint)!\<close> being undefined.
\<close>

fun visit :: "nat \<Rightarrow> (EntrypointId \<times> DeploymentArtifact) list \<Rightarrow> EntrypointId list \<Rightarrow> EntrypointId
      \<Rightarrow> visits \<Rightarrow> (bool \<times> visits) option"
  and visitDependencies :: "nat \<Rightarrow> (EntrypointId \<times> DeploymentArtifact) list \<Rightarrow> EntrypointId list
      \<Rightarrow> EntrypointId list \<Rightarrow> visits \<Rightarrow> (bool \<times> visits) option" where
  "visit 0 byEntrypoint affected e st = None"
| "visit (Suc fuel) byEntrypoint affected e st =
     (if e \<in> visited st \<or> e \<notin> set affected then Some (True, st)
      else if e \<in> visiting st then Some (False, st)
      else case map_of byEntrypoint e of
          None \<Rightarrow> None
        | Some artifact \<Rightarrow>
            (case visitDependencies fuel byEntrypoint affected (dependsOn artifact)
                (st\<lparr>visiting := insert e (visiting st)\<rparr>) of
               None \<Rightarrow> None
             | Some (False, st') \<Rightarrow> Some (False, st')
             | Some (True, st') \<Rightarrow> Some (True, st'\<lparr>visiting := visiting st' - {e}, visited := insert e (visited st'),
                 ordered := ordered st' @ [artifact]\<rparr>)))"
| "visitDependencies fuel byEntrypoint affected [] st = Some (True, st)"
| "visitDependencies fuel byEntrypoint affected (d # ds) st =
     (case visit fuel byEntrypoint affected d st of
        None \<Rightarrow> None
      | Some (False, st') \<Rightarrow> Some (False, st')
      | Some (True, st') \<Rightarrow> visitDependencies fuel byEntrypoint affected ds st')"

text \<open>The outer loop over \<open>[...affected].sort()\<close> visits in the same way.\<close>

definition unknownDependency ::
    "(EntrypointId \<times> DeploymentArtifact) list \<Rightarrow> (EntrypointId \<rightharpoonup> string) \<Rightarrow> DeploymentArtifact list
      \<Rightarrow> (EntrypointId \<times> EntrypointId) option" where
  "unknownDependency byEntrypoint currentHashes candidates =
     List.find (\<lambda>(_, d). map_of byEntrypoint d = None \<and> currentHashes d = None)
       (concat (map (\<lambda>a. map (Pair (entrypoint a)) (dependsOn a)) candidates))"

definition affectedArtifacts ::
    "DeploymentArtifact list \<Rightarrow> (EntrypointId \<rightharpoonup> string) \<Rightarrow> (InvalidDeploymentPlan + DeploymentArtifact list) option" where
  "affectedArtifacts candidates currentHashes =
     (let byEntrypoint = keyedMap entrypoint candidates in
      if length byEntrypoint \<noteq> length candidates then Some (Inl DuplicateEntrypoints)
      else case unknownDependency byEntrypoint currentHashes candidates of
          Some (e, d) \<Rightarrow> Some (Inl (UnknownDependency e d))
        | None \<Rightarrow>
            let affected = expandAffected candidates (changedEntrypoints currentHashes candidates) in
            if affected = [] then Some (Inl NoChange)
            else (case visitDependencies (Suc (length affected)) byEntrypoint affected (sort affected)
                \<lparr>visiting = {}, visited = {}, ordered = []\<rparr> of
                None \<Rightarrow> None
              | Some (False, _) \<Rightarrow> Some (Inl DependencyCycle)
              | Some (True, st) \<Rightarrow> Some (Inr (ordered st))))"

definition keyed :: "(EntrypointId \<times> DeploymentArtifact) list \<Rightarrow> bool" where
  "keyed m \<longleftrightarrow> (\<forall>e a. map_of m e = Some a \<longrightarrow> entrypoint a = e)"

subsection \<open>The closure of the change\<close>

definition needs :: "DeploymentArtifact list \<Rightarrow> (EntrypointId \<times> EntrypointId) set" where
  "needs candidates = {(entrypoint a, d) | a d. a \<in> set candidates \<and> d \<in> set (dependsOn a)}"

definition changed :: "(EntrypointId \<rightharpoonup> string) \<Rightarrow> DeploymentArtifact list \<Rightarrow> EntrypointId set" where
  "changed currentHashes candidates =
     {entrypoint a | a. a \<in> set candidates \<and> currentHashes (entrypoint a) \<noteq> Some (hash a)}"

lemma set_changedEntrypoints [simp]: "set (changedEntrypoints h cs) = changed h cs"
  by (auto simp: changedEntrypoints_def changed_def)

lemma expandPass_sound:
  assumes "expandPass cs affected b = (affected', b')"
    and "\<forall>e \<in> set affected. \<exists>c \<in> C. (e, c) \<in> R\<^sup>*"
    and "\<forall>a \<in> set cs. \<forall>d \<in> set (dependsOn a). (entrypoint a, d) \<in> R"
  shows "\<forall>e \<in> set affected'. \<exists>c \<in> C. (e, c) \<in> R\<^sup>*"
  using assms
proof (induction cs affected b rule: expandPass.induct)
  case (2 artifact rest affected b)
  show ?case
  proof (cases "joins affected artifact")
    case True
    then obtain d where d: "d \<in> set (dependsOn artifact)" "d \<in> set affected" by (auto simp: joins_def)
    with 2(4) obtain c where "c \<in> C" "(d, c) \<in> R\<^sup>*" by blast
    moreover have "(entrypoint artifact, d) \<in> R" using 2(5) d(1) by simp
    ultimately have "\<exists>c \<in> C. (entrypoint artifact, c) \<in> R\<^sup>*" by (meson converse_rtrancl_into_rtrancl)
    with 2(1) [OF True] 2(3-5) True show ?thesis by simp
  next
    case False
    then have "expandPass rest affected b = (affected', b')" using 2(3) by simp
    with 2(2) [OF False] 2(4,5) show ?thesis by simp
  qed
qed simp

lemma expandPass_distinct:
  "expandPass cs affected b = (affected', b') \<Longrightarrow> distinct affected \<Longrightarrow> distinct affected'"
  by (induction cs affected b rule: expandPass.induct) (auto simp: joins_def split: if_splits)

lemma expandPass_stable:
  "expandPass cs affected False = (affected, False) \<Longrightarrow>
     \<forall>a \<in> set cs. (\<exists>d \<in> set (dependsOn a). d \<in> set affected) \<longrightarrow> entrypoint a \<in> set affected"
proof (induction cs)
  case (Cons a cs)
  have "\<not> snd (expandPass cs xs True) \<Longrightarrow> False" for xs
    by (induction cs arbitrary: xs) (auto split: if_splits)
  then have "expandPass cs xs True \<noteq> (affected, False)" for xs by (metis snd_conv)
  with Cons.prems have "\<not> joins affected a"
    and "expandPass cs affected False = (affected, False)" by (auto split: if_splits)
  with Cons.IH show ?case by (auto simp: joins_def)
qed simp

lemma expandAffected_reach:
  "set affected \<subseteq> entrypoint ` set cs \<Longrightarrow> distinct affected \<Longrightarrow> changed h cs \<subseteq> set affected \<Longrightarrow>
    \<forall>e \<in> set affected. \<exists>c \<in> changed h cs. (e, c) \<in> (needs cs)\<^sup>* \<Longrightarrow>
    distinct (expandAffected cs affected)
    \<and> set (expandAffected cs affected) = {e. \<exists>c \<in> changed h cs. (e, c) \<in> (needs cs)\<^sup>*}"
proof (induction cs affected rule: expandAffected.induct)
  case (1 cs affected)
  obtain affected' b where p: "expandPass cs affected False = (affected', b)" by fastforce
  note grown = expandPass_set [OF p]
  have sound: "\<forall>e \<in> set affected'. \<exists>c \<in> changed h cs. (e, c) \<in> (needs cs)\<^sup>*"
    by (rule expandPass_sound [OF p "1.prems"(4)]) (auto simp: needs_def)
  have dist: "distinct affected'" using expandPass_distinct [OF p "1.prems"(2)] .
  show ?case
  proof (cases b)
    case True
    have "expandAffected cs affected = expandAffected cs affected'"
      using p True by (subst expandAffected.simps) simp
    moreover have "set affected' \<subseteq> entrypoint ` set cs" "changed h cs \<subseteq> set affected'"
      using grown "1.prems"(1,3) by auto
    ultimately show ?thesis using "1.IH" [OF p [symmetric] True _ dist _ sound] by simp
  next
    case False
    with grown p have stable: "expandPass cs affected False = (affected, False)" by simp
    have "e \<in> set affected" if "(e, c) \<in> (needs cs)\<^sup>*" "c \<in> changed h cs" for e c
      using that
    proof (induction rule: converse_rtrancl_induct)
      case base
      then show ?case using "1.prems"(3) by blast
    next
      case (step y z)
      then show ?case using expandPass_stable [OF stable] by (auto simp: needs_def)
    qed
    moreover have "expandAffected cs affected = affected"
      using stable by (subst expandAffected.simps) simp
    ultimately show ?thesis using "1.prems"(2,4) by auto
  qed
qed

lemma expandAffected_set:
  "distinct (expandAffected cs (changedEntrypoints h cs))"
  "set (expandAffected cs (changedEntrypoints h cs)) = {e. \<exists>c \<in> changed h cs. (e, c) \<in> (needs cs)\<^sup>*}"
proof -
  have "distinct (changedEntrypoints h cs)" by (simp add: changedEntrypoints_def)
  moreover have "changed h cs \<subseteq> entrypoint ` set cs" by (auto simp: changed_def)
  ultimately show "distinct (expandAffected cs (changedEntrypoints h cs))"
    "set (expandAffected cs (changedEntrypoints h cs)) = {e. \<exists>c \<in> changed h cs. (e, c) \<in> (needs cs)\<^sup>*}"
    using expandAffected_reach [of "changedEntrypoints h cs" cs h] by auto
qed

subsection \<open>The order of the plan\<close>

text \<open>Every artifact comes after those of its dependencies that are replaced too.\<close>

fun dependencyOrdered :: "EntrypointId set \<Rightarrow> EntrypointId set \<Rightarrow> DeploymentArtifact list \<Rightarrow> bool" where
  "dependencyOrdered affected before [] \<longleftrightarrow> True"
| "dependencyOrdered affected before (a # rest) \<longleftrightarrow>
     set (dependsOn a) \<inter> affected \<subseteq> before \<and> dependencyOrdered affected (insert (entrypoint a) before) rest"

lemma dependencyOrdered_snoc:
  "dependencyOrdered A before (xs @ [a]) \<longleftrightarrow>
     dependencyOrdered A before xs \<and> set (dependsOn a) \<inter> A \<subseteq> before \<union> entrypoint ` set xs"
  by (induction A before xs rule: dependencyOrdered.induct) auto

text \<open>The dependencies between affected artifacts.\<close>

definition within :: "(EntrypointId \<times> DeploymentArtifact) list \<Rightarrow> EntrypointId set \<Rightarrow> (EntrypointId \<times> EntrypointId) set" where
  "within m A = {(e, d). e \<in> A \<and> d \<in> A \<and> (\<exists>a. map_of m e = Some a \<and> d \<in> set (dependsOn a))}"

definition visitInv :: "(EntrypointId \<times> DeploymentArtifact) list \<Rightarrow> EntrypointId set \<Rightarrow> visits \<Rightarrow> bool" where
  "visitInv m A st \<longleftrightarrow>
     visited st \<subseteq> A \<and> visiting st \<subseteq> A \<and> entrypoint ` set (ordered st) = visited st
     \<and> distinct (map entrypoint (ordered st)) \<and> dependencyOrdered A {} (ordered st)
     \<and> (\<forall>a \<in> set (ordered st). map_of m (entrypoint a) = Some a)
     \<and> visited st \<inter> visiting st = {}"

lemma visitInv_enter:
  "visitInv m A st \<Longrightarrow> e \<in> A \<Longrightarrow> e \<notin> visited st \<Longrightarrow> visitInv m A (st\<lparr>visiting := insert e (visiting st)\<rparr>)"
  by (simp add: visitInv_def)

lemma visitInv_leave:
  assumes "visitInv m A st" and "e \<in> visiting st" and "map_of m e = Some a" and "entrypoint a = e"
    and "set (dependsOn a) \<inter> A \<subseteq> visited st"
  shows "visitInv m A (st\<lparr>visiting := visiting st - {e}, visited := insert e (visited st),
    ordered := ordered st @ [a]\<rparr>)"
proof -
  have "e \<notin> visited st" using assms(1,2) unfolding visitInv_def by blast
  moreover have "entrypoint ` set (ordered st) = visited st" using assms(1) unfolding visitInv_def by blast
  moreover have "e \<in> A" using assms(1,2) unfolding visitInv_def by blast
  ultimately show ?thesis using assms unfolding visitInv_def by (auto simp: dependencyOrdered_snoc)
qed

definition visitedOr :: "bool \<Rightarrow> (EntrypointId \<times> DeploymentArtifact) list \<Rightarrow> EntrypointId set \<Rightarrow> EntrypointId set
      \<Rightarrow> visits \<Rightarrow> visits \<Rightarrow> bool" where
  "visitedOr ok m A wanted st st' \<longleftrightarrow>
     (if ok then visitInv m A st' \<and> visiting st' = visiting st \<and> visited st \<subseteq> visited st' \<and> wanted \<inter> A \<subseteq> visited st'
      else \<not> acyclic (within m A))"

lemma visit_correct:
  "A = set affected \<Longrightarrow> keyed m \<Longrightarrow> A \<subseteq> dom (map_of m) \<Longrightarrow> visitInv m A st \<Longrightarrow>
    card (A - visiting st) < fuel \<Longrightarrow> (\<forall>v \<in> visiting st. e \<in> A \<longrightarrow> (v, e) \<in> (within m A)\<^sup>+) \<Longrightarrow>
    \<exists>ok st'. visit fuel m affected e st = Some (ok, st') \<and> visitedOr ok m A {e} st st'"
  "A = set affected \<Longrightarrow> keyed m \<Longrightarrow> A \<subseteq> dom (map_of m) \<Longrightarrow> visitInv m A st \<Longrightarrow>
    card (A - visiting st) < fuel \<Longrightarrow> (\<forall>v \<in> visiting st. \<forall>d \<in> set ds. d \<in> A \<longrightarrow> (v, d) \<in> (within m A)\<^sup>+) \<Longrightarrow>
    \<exists>ok st'. visitDependencies fuel m affected ds st = Some (ok, st') \<and> visitedOr ok m A (set ds) st st'"
proof (induction fuel m affected e st and fuel m affected ds st rule: visit_visitDependencies.induct)
  case (1 m affected e st)
  then show ?case by simp
next
  case (2 fuel m affected e st)
  note keyed = "2.prems"(2) and inv = "2.prems"(4) and path = "2.prems"(6)
  consider (skip) "e \<in> visited st \<or> e \<notin> A" | (cycle) "e \<notin> visited st" "e \<in> A" "e \<in> visiting st"
    | (fresh) "e \<notin> visited st" "e \<in> A" "e \<notin> visiting st" by blast
  then show ?case
  proof cases
    case skip
    then show ?thesis using inv "2.prems"(1)
      by (intro exI [of _ True] exI [of _ st]) (auto simp: visitedOr_def)
  next
    case cycle
    then have "(e, e) \<in> (within m A)\<^sup>+" using path by blast
    then have "\<not> acyclic (within m A)" by (auto simp: acyclic_def)
    then have "visitedOr False m A {e} st st" by (simp add: visitedOr_def)
    moreover have "visit (Suc fuel) m affected e st = Some (False, st)" using cycle "2.prems"(1) by simp
    ultimately show ?thesis by blast
  next
    case fresh
    then obtain a where a: "map_of m e = Some a" using "2.prems"(3) by blast
    let ?st = "st\<lparr>visiting := insert e (visiting st)\<rparr>"
    have inv': "visitInv m A ?st" using visitInv_enter [OF inv] fresh by blast
    have "A - visiting ?st = A - visiting st - {e}" by auto
    moreover have "finite A" using "2.prems"(1) by simp
    ultimately have "Suc (card (A - visiting ?st)) = card (A - visiting st)"
      using card_Suc_Diff1 [of "A - visiting st" e] fresh by simp
    with "2.prems"(5) have fuel: "card (A - visiting ?st) < fuel" by simp
    have path': "\<forall>v \<in> visiting ?st. \<forall>d \<in> set (dependsOn a). d \<in> A \<longrightarrow> (v, d) \<in> (within m A)\<^sup>+"
    proof (intro ballI impI)
      fix v d assume "v \<in> visiting ?st" "d \<in> set (dependsOn a)" "d \<in> A"
      then have "(e, d) \<in> within m A" "v = e \<or> (v, e) \<in> (within m A)\<^sup>+"
        using a fresh path by (auto simp: within_def)
      then show "(v, d) \<in> (within m A)\<^sup>+" by (auto intro: trancl_into_trancl)
    qed
    have new: "\<not> (e \<in> visited st \<or> e \<notin> set affected)" "e \<notin> visiting st" using fresh "2.prems"(1) by auto
    from "2.IH" [OF new a "2.prems"(1) keyed "2.prems"(3) inv' fuel path'] obtain ok st' where
      run: "visitDependencies fuel m affected (dependsOn a) ?st = Some (ok, st')"
      and post: "visitedOr ok m A (set (dependsOn a)) ?st st'" by blast
    show ?thesis
    proof (cases ok)
      case True
      have inv'': "visitInv m A st'" and visiting: "visiting st' = insert e (visiting st)"
        and old: "visited st \<subseteq> visited st'" and wanted: "set (dependsOn a) \<inter> A \<subseteq> visited st'"
        using post True by (simp_all add: visitedOr_def)
      let ?st' = "st'\<lparr>visiting := visiting st' - {e}, visited := insert e (visited st'), ordered := ordered st' @ [a]\<rparr>"
      have "visitInv m A ?st'"
        by (rule visitInv_leave [OF inv'' _ a _ wanted]) (use visiting a keyed in \<open>auto simp: keyed_def\<close>)
      then have "visitedOr True m A {e} st ?st'" using visiting old fresh(3) by (auto simp: visitedOr_def)
      moreover have "visit (Suc fuel) m affected e st = Some (True, ?st')" using new a run True by simp
      ultimately show ?thesis by blast
    next
      case False
      then have "visitedOr False m A {e} st st'" using post by (simp add: visitedOr_def)
      moreover have "visit (Suc fuel) m affected e st = Some (False, st')" using new a run False by simp
      ultimately show ?thesis by blast
    qed
  qed
next
  case (3 fuel m affected st)
  then show ?case by (auto simp: visitedOr_def)
next
  case (4 fuel m affected d ds st)
  have "\<forall>v \<in> visiting st. d \<in> A \<longrightarrow> (v, d) \<in> (within m A)\<^sup>+" using "4.prems"(6) by simp
  from "4.IH"(1) [OF "4.prems"(1-5) this] obtain ok st' where
    run: "visit fuel m affected d st = Some (ok, st')" and post: "visitedOr ok m A {d} st st'" by blast
  show ?case
  proof (cases ok)
    case True
    have inv': "visitInv m A st'" and visiting: "visiting st' = visiting st"
      and old: "visited st \<subseteq> visited st'" and one: "{d} \<inter> A \<subseteq> visited st'"
      using post True by (simp_all add: visitedOr_def)
    have ok: "ok = True" using True by simp
    have "card (A - visiting st') < fuel"
      and "\<forall>v \<in> visiting st'. \<forall>x \<in> set ds. x \<in> A \<longrightarrow> (v, x) \<in> (within m A)\<^sup>+"
      using "4.prems"(5,6) unfolding visiting by simp_all
    from "4.IH"(2) [OF run refl ok "4.prems"(1-3) inv' this] obtain ok' st'' where
      run': "visitDependencies fuel m affected ds st' = Some (ok', st'')"
      and post': "visitedOr ok' m A (set ds) st' st''" by blast
    have "visitedOr ok' m A (set (d # ds)) st st''"
      using post' visiting old one by (auto simp: visitedOr_def split: if_splits)
    with run run' True show ?thesis by simp
  next
    case False
    then have "visitedOr False m A (set (d # ds)) st st'" using post by (simp add: visitedOr_def)
    moreover have "visitDependencies fuel m affected (d # ds) st = Some (False, st')" using run False by simp
    ultimately show ?thesis by blast
  qed
qed

lemma ordered_acyclic:
  assumes "visitInv m A st" and "A \<subseteq> visited st"
  shows "acyclic (within m A)"
proof -
  have gen: "dependencyOrdered A before xs \<Longrightarrow> distinct (map entrypoint xs) \<Longrightarrow> before \<inter> entrypoint ` set xs = {} \<Longrightarrow>
      \<exists>f :: EntrypointId \<Rightarrow> nat. (\<forall>e \<in> before. f e = 0) \<and>
        (\<forall>a \<in> set xs. 0 < f (entrypoint a) \<and> (\<forall>d \<in> set (dependsOn a) \<inter> A. f d < f (entrypoint a)))" for before xs
  proof (induction xs rule: rev_induct)
    case (snoc a xs)
    then obtain f :: "EntrypointId \<Rightarrow> nat" where f: "\<forall>e \<in> before. f e = 0"
      "\<forall>a \<in> set xs. 0 < f (entrypoint a) \<and> (\<forall>d \<in> set (dependsOn a) \<inter> A. f d < f (entrypoint a))"
      by (auto simp: dependencyOrdered_snoc)
    let ?top = "Suc (Max (insert 0 (f ` entrypoint ` set xs)))"
    let ?g = "f(entrypoint a := ?top)"
    have below: "f e < ?top" if "e \<in> entrypoint ` set xs" for e
      using that by (simp add: less_Suc_eq_le)
    have new: "entrypoint a \<notin> entrypoint ` set xs" "entrypoint a \<notin> before" using snoc.prems by auto
    have deps: "set (dependsOn a) \<inter> A \<subseteq> before \<union> entrypoint ` set xs"
      using snoc.prems(1) by (simp add: dependencyOrdered_snoc)
    have inner: "set (dependsOn x) \<inter> A \<subseteq> before \<union> entrypoint ` set xs" if "x \<in> set xs" for x
    proof -
      have "dependencyOrdered A b ys \<Longrightarrow> x \<in> set ys \<Longrightarrow> set (dependsOn x) \<inter> A \<subseteq> b \<union> entrypoint ` set ys" for b ys
        by (induction A b ys rule: dependencyOrdered.induct) auto
      with snoc.prems(1) that show ?thesis by (simp add: dependencyOrdered_snoc)
    qed
    have "\<forall>e \<in> before. ?g e = 0" using f(1) new by auto
    moreover have "0 < ?g (entrypoint x) \<and> (\<forall>d \<in> set (dependsOn x) \<inter> A. ?g d < ?g (entrypoint x))"
      if "x \<in> set (xs @ [a])" for x
    proof (cases "x \<in> set xs")
      case True
      then have "entrypoint x \<noteq> entrypoint a" using new(1) by (metis image_eqI)
      moreover have "d \<noteq> entrypoint a" if "d \<in> set (dependsOn x) \<inter> A" for d
        using inner [OF True] new that by auto
      ultimately show ?thesis using f(2) True by auto
    next
      case False
      with that have x: "x = a" by simp
      have "?g d < ?top" if "d \<in> set (dependsOn a) \<inter> A" for d
      proof (cases "d \<in> before")
        case True
        with f(1) new(2) show ?thesis by auto
      next
        case False
        with deps that have d: "d \<in> entrypoint ` set xs" by auto
        with new(1) have "d \<noteq> entrypoint a" by metis
        with below [OF d] show ?thesis by simp
      qed
      then show ?thesis by (simp add: x)
    qed
    ultimately show ?case by blast
  qed auto
  obtain f :: "EntrypointId \<Rightarrow> nat" where
    f: "\<forall>a \<in> set (ordered st). \<forall>d \<in> set (dependsOn a) \<inter> A. f d < f (entrypoint a)"
    using gen [of "{}" "ordered st"] assms(1) unfolding visitInv_def by auto
  have stored: "e \<in> visited st \<Longrightarrow> map_of m e = Some a \<Longrightarrow> a \<in> set (ordered st) \<and> entrypoint a = e" for e a
    using assms(1) unfolding visitInv_def by (metis imageE option.inject)
  show ?thesis
  proof (rule acyclicI_order [where f = f])
    fix e d assume "(e, d) \<in> within m A"
    then obtain a where "e \<in> A" "d \<in> A" "map_of m e = Some a" "d \<in> set (dependsOn a)" by (auto simp: within_def)
    with stored [of e a] assms(2) f show "f d < f e" by auto
  qed
qed

definition replaced :: "(EntrypointId \<rightharpoonup> string) \<Rightarrow> DeploymentArtifact list \<Rightarrow> EntrypointId set" where
  "replaced currentHashes candidates =
     {e. \<exists>c \<in> changed currentHashes candidates. (e, c) \<in> (needs candidates)\<^sup>*}"

lemma replaced_candidates: "replaced h cs \<subseteq> entrypoint ` set cs"
proof
  fix e assume "e \<in> replaced h cs"
  then obtain c where c: "c \<in> changed h cs" "(e, c) \<in> (needs cs)\<^sup>*" by (auto simp: replaced_def)
  from c(2,1) show "e \<in> entrypoint ` set cs"
    by (induction rule: converse_rtrancl_induct) (auto simp: changed_def needs_def)
qed

lemma keyed_keyedMap: "keyed (keyedMap entrypoint cs)"
  by (auto simp: keyed_def dest: keyedMap_member)

lemma within_keyedMap:
  assumes "distinct (map entrypoint cs)"
  shows "within (keyedMap entrypoint cs) A = needs cs \<inter> A \<times> A"
  using keyedMap_distinct [OF assms] by (force simp: within_def needs_def dest: keyedMap_member)

lemma keyedMap_absent: "map_of (keyedMap entrypoint candidates) e = None \<longleftrightarrow> e \<notin> entrypoint ` set candidates"
  using arg_cong [OF keys_keyedMap [of entrypoint candidates], of set] by (simp add: map_of_eq_None_iff)

lemma unknownDependency_found:
  assumes "unknownDependency (keyedMap entrypoint candidates) currentHashes candidates = Some (e, d)"
  shows "(e, d) \<in> needs candidates \<and> d \<notin> entrypoint ` set candidates \<and> currentHashes d = None"
proof -
  from assms have "(e, d) \<in> set (concat (map (\<lambda>a. map (Pair (entrypoint a)) (dependsOn a)) candidates))"
    "map_of (keyedMap entrypoint candidates) d = None \<and> currentHashes d = None"
    unfolding unknownDependency_def by (metis (mono_tags, lifting) case_prod_conv find_Some_iff nth_mem)+
  then show ?thesis using keyedMap_absent [of candidates d] by (auto simp: needs_def)
qed

text \<open>The candidates stored under the names of an order are exactly the candidates of those names.\<close>

lemma ordered_candidates:
  assumes "distinct (map entrypoint candidates)" and "entrypoint ` set order = names"
    and "\<forall>a \<in> set order. map_of (keyedMap entrypoint candidates) (entrypoint a) = Some a"
  shows "set order = {a \<in> set candidates. entrypoint a \<in> names}"
proof
  show "set order \<subseteq> {a \<in> set candidates. entrypoint a \<in> names}" using assms(2,3) by (auto dest: keyedMap_member)
  show "{a \<in> set candidates. entrypoint a \<in> names} \<subseteq> set order"
  proof
    fix a assume a: "a \<in> {a \<in> set candidates. entrypoint a \<in> names}"
    then obtain b where b: "b \<in> set order" "entrypoint b = entrypoint a" using assms(2) by (metis (no_types, lifting) imageE mem_Collect_eq)
    then have "map_of (keyedMap entrypoint candidates) (entrypoint a) = Some b" using assms(3) by metis
    moreover have "map_of (keyedMap entrypoint candidates) (entrypoint a) = Some a" using keyedMap_distinct [OF assms(1)] a by blast
    ultimately show "a \<in> set order" using b(1) by simp
  qed
qed

text \<open>The search of the affected entrypoints ends, and its order or the cycle it finds is what it is said to be.\<close>

lemma search_affected:
  assumes "distinct (map entrypoint candidates)"
    and affected: "set affected = replaced currentHashes candidates" and some: "affected \<noteq> []"
  shows "\<exists>ok st. visitDependencies (Suc (length affected)) (keyedMap entrypoint candidates) affected (sort affected)
        \<lparr>visiting = {}, visited = {}, ordered = []\<rparr> = Some (ok, st)
    \<and> (if ok then ordered st \<noteq> [] \<and> distinct (map entrypoint (ordered st))
         \<and> set (ordered st) = {a \<in> set candidates. entrypoint a \<in> set affected}
         \<and> dependencyOrdered (set affected) {} (ordered st)
         \<and> acyclic (needs candidates \<inter> set affected \<times> set affected)
       else \<not> acyclic (needs candidates \<inter> set affected \<times> set affected))"
proof -
  let ?m = "keyedMap entrypoint candidates" and ?A = "set affected"
  let ?st = "\<lparr>visiting = {}, visited = {}, ordered = []\<rparr>"
  have known: "?A \<subseteq> dom (map_of ?m)"
    using replaced_candidates keyedMap_absent [of candidates] unfolding affected dom_def by blast
  have start: "visitInv ?m ?A ?st" by (simp add: visitInv_def)
  have fuel: "card (?A - visiting ?st) < Suc (length affected)" using card_length [of affected] by simp
  have "\<forall>v \<in> visiting ?st. \<forall>d \<in> set (sort affected). d \<in> ?A \<longrightarrow> (v, d) \<in> (within ?m ?A)\<^sup>+" by simp
  then obtain ok st where
    run: "visitDependencies (Suc (length affected)) ?m affected (sort affected) ?st = Some (ok, st)"
    and post: "visitedOr ok ?m ?A (set (sort affected)) ?st st"
    using visit_correct(2) [OF refl keyed_keyedMap known start fuel] by blast
  show ?thesis
  proof (cases ok)
    case True
    have inv: "visitInv ?m ?A st" and all: "?A \<subseteq> visited st" using post True by (simp_all add: visitedOr_def)
    then have names: "entrypoint ` set (ordered st) = ?A" and stored: "\<forall>a \<in> set (ordered st). map_of ?m (entrypoint a) = Some a"
      unfolding visitInv_def by auto
    have "acyclic (needs candidates \<inter> ?A \<times> ?A)" using ordered_acyclic [OF inv all] within_keyedMap [OF assms(1)] by simp
    moreover have "ordered st \<noteq> []" using names some by auto
    moreover have "distinct (map entrypoint (ordered st))" "dependencyOrdered ?A {} (ordered st)"
      using inv unfolding visitInv_def by blast+
    ultimately show ?thesis using run True ordered_candidates [OF assms(1) names stored]
      by (intro exI [of _ ok] exI [of _ st]) simp
  next
    case False
    then have "\<not> acyclic (needs candidates \<inter> ?A \<times> ?A)" using post within_keyedMap [OF assms(1)] by (simp add: visitedOr_def)
    with run False show ?thesis by (intro exI [of _ ok] exI [of _ st]) simp
  qed
qed

text \<open>
  C33. What a deployment replaces, and in which order: \<open>affectedArtifacts\<close> always answers. When it
  answers artifacts, they are those whose hash changed and those that depend on one of these,
  directly or not, each once and each after every replaced entrypoint it depends on. It reports a
  cycle only when the replaced entrypoints do depend on each other in a cycle, and every other
  refusal only for its reason.
\<close>

theorem affectedArtifacts_correct:
  "\<exists>r. affectedArtifacts candidates currentHashes = Some r
   \<and> (case r of
        Inr order \<Rightarrow> order \<noteq> [] \<and> distinct (map entrypoint order)
          \<and> set order = {a \<in> set candidates. entrypoint a \<in> replaced currentHashes candidates}
          \<and> dependencyOrdered (replaced currentHashes candidates) {} order
          \<and> acyclic (needs candidates \<inter> replaced currentHashes candidates \<times> replaced currentHashes candidates)
      | Inl DependencyCycle \<Rightarrow>
          \<not> acyclic (needs candidates \<inter> replaced currentHashes candidates \<times> replaced currentHashes candidates)
      | Inl NoChange \<Rightarrow> changed currentHashes candidates = {}
      | Inl DuplicateEntrypoints \<Rightarrow> \<not> distinct (map entrypoint candidates)
      | Inl (UnknownDependency e d) \<Rightarrow>
          (e, d) \<in> needs candidates \<and> d \<notin> entrypoint ` set candidates \<and> currentHashes d = None
      | Inl _ \<Rightarrow> False)"
proof (cases "distinct (map entrypoint candidates)")
  case False
  then show ?thesis by (simp add: affectedArtifacts_def Let_def length_keyedMap)
next
  case dist: True
  let ?m = "keyedMap entrypoint candidates"
  let ?affected = "expandAffected candidates (changedEntrypoints currentHashes candidates)"
  have A: "set ?affected = replaced currentHashes candidates" using expandAffected_set(2) by (simp add: replaced_def)
  show ?thesis
  proof (cases "unknownDependency ?m currentHashes candidates")
    case (Some p)
    then show ?thesis using unknownDependency_found [of candidates currentHashes "fst p" "snd p"] dist
      by (cases p) (simp add: affectedArtifacts_def Let_def length_keyedMap)
  next
    case None
    show ?thesis
    proof (cases "?affected = []")
      case True
      then have "changed currentHashes candidates = {}" using A by (auto simp: replaced_def)
      with True None dist show ?thesis by (simp add: affectedArtifacts_def Let_def length_keyedMap)
    next
      case False
      then show ?thesis using search_affected [OF dist A False] None dist
        by (auto simp: affectedArtifacts_def Let_def length_keyedMap A split: bool.split)
    qed
  qed
qed

subsection \<open>Plans\<close>

record UnsignedPlan =
  planSource :: DeploymentSource
  planTarget :: DeploymentTarget
  planArtifacts :: "DeploymentArtifact list"
  planUnsignedAuthority :: UnsignedAuthority
  planCreatedAt :: string

record DeploymentPlan =
  id' :: string
  planHash :: string
  source :: DeploymentSource
  target :: DeploymentTarget
  artifacts :: "DeploymentArtifact list"
  authority :: DeploymentAuthority
  createdAt :: string

datatype 'key AuthorityInput = SandboxInput string | PromotionInput string 'key

record 'key DeploymentPlanInput =
  inputSource :: DeploymentSource
  inputTarget :: DeploymentTarget
  candidateArtifacts :: "DeploymentArtifact list"
  currentHashes :: "EntrypointId \<rightharpoonup> string"
  inputAuthority :: "'key AuthorityInput"
  inputCreatedAt :: "string option"

text \<open>The schemas.\<close>

definition hexDigit :: "char \<Rightarrow> bool" where
  "hexDigit c \<longleftrightarrow> c \<in> set ''0123456789abcdef''"

definition prefixedHex :: "string \<Rightarrow> nat \<Rightarrow> string \<Rightarrow> bool" where
  "prefixedHex p n s \<longleftrightarrow> take (length p) s = p \<and> length s = length p + n \<and> list_all hexDigit (drop (length p) s)"

definition sourceValid :: "DeploymentSource \<Rightarrow> bool" where
  "sourceValid s \<longleftrightarrow> projectId s \<noteq> [] \<and> revision s \<noteq> []"

definition targetValid :: "DeploymentTarget \<Rightarrow> bool" where
  "targetValid t \<longleftrightarrow> environmentId t \<noteq> [] \<and> expectedGeneration t \<noteq> []"

definition artifactValid :: "DeploymentArtifact \<Rightarrow> bool" where
  "artifactValid a \<longleftrightarrow> prefixedHex ''sha256:'' 64 (hash a) \<and> path a \<noteq> []"

fun authorityValid :: "DeploymentAuthority \<Rightarrow> bool" where
  "authorityValid (Sandbox env) \<longleftrightarrow> env \<noteq> []"
| "authorityValid (Promotion key signature) \<longleftrightarrow> key \<noteq> [] \<and> signature \<noteq> []"

definition planValid :: "(string \<Rightarrow> bool) \<Rightarrow> DeploymentPlan \<Rightarrow> bool" where
  "planValid isDatetime p \<longleftrightarrow>
     prefixedHex ''dep_'' 24 (id' p) \<and> prefixedHex ''sha256:'' 64 (planHash p) \<and> sourceValid (source p)
     \<and> targetValid (target p) \<and> list_all artifactValid (artifacts p) \<and> artifacts p \<noteq> []
     \<and> authorityValid (authority p) \<and> isDatetime (createdAt p)"

definition planIdOf :: "string \<Rightarrow> string" where
  "planIdOf h = ''dep_'' @ take 24 (drop 7 h)"

fun unsignedAuthority :: "DeploymentAuthority \<Rightarrow> UnsignedAuthority" where
  "unsignedAuthority (Sandbox env) = SandboxBy env"
| "unsignedAuthority (Promotion key signature) = PromotionBy key"

definition unsignedPlanPayload :: "DeploymentPlan \<Rightarrow> UnsignedPlan" where
  "unsignedPlanPayload p = \<lparr>planSource = source p, planTarget = target p, planArtifacts = artifacts p,
     planUnsignedAuthority = unsignedAuthority (authority p), planCreatedAt = createdAt p\<rparr>"

text \<open>
  The parameters: \<open>digest\<close> is the digest of a payload's canonical JSON, \<open>sign\<close> the base64 Ed25519
  signature of a hash, \<open>verify\<close> its check (\<^const>\<open>None\<close> when it throws on malformed input),
  \<open>now\<close> the clock as an ISO string.
\<close>

definition createDeploymentPlan ::
    "(string \<Rightarrow> bool) \<Rightarrow> (UnsignedPlan \<Rightarrow> string) \<Rightarrow> (string \<Rightarrow> 'key \<Rightarrow> string) \<Rightarrow> string
      \<Rightarrow> 'key DeploymentPlanInput \<Rightarrow> (InvalidDeploymentPlan + DeploymentPlan) option" where
  "createDeploymentPlan isDatetime digest sign now input =
     (let env = environmentId (inputTarget input) in
      if \<not> sourceValid (inputSource input) \<or> \<not> targetValid (inputTarget input)
          \<or> \<not> list_all artifactValid (candidateArtifacts input) then Some (Inl InvalidInput)
      else if (case inputAuthority input of SandboxInput e \<Rightarrow> e \<noteq> env | PromotionInput _ _ \<Rightarrow> False)
        then Some (Inl AuthorityTargetMismatch)
      else if targetKind (inputTarget input) = CurrentTarget
          \<and> (case inputAuthority input of SandboxInput _ \<Rightarrow> True | PromotionInput _ _ \<Rightarrow> False)
        then Some (Inl PromotionRequired)
      else if targetKind (inputTarget input) = SandboxTarget
          \<and> (case inputAuthority input of SandboxInput _ \<Rightarrow> False | PromotionInput _ _ \<Rightarrow> True)
        then Some (Inl SandboxRequired)
      else case affectedArtifacts (candidateArtifacts input) (currentHashes input) of
          None \<Rightarrow> None
        | Some (Inl e) \<Rightarrow> Some (Inl e)
        | Some (Inr order) \<Rightarrow>
            let at = (case inputCreatedAt input of Some t \<Rightarrow> t | None \<Rightarrow> now);
                unsigned = \<lparr>planSource = inputSource input, planTarget = inputTarget input, planArtifacts = order,
                  planUnsignedAuthority = (case inputAuthority input of
                    SandboxInput e \<Rightarrow> SandboxBy e | PromotionInput key _ \<Rightarrow> PromotionBy key),
                  planCreatedAt = at\<rparr>;
                h = digest unsigned;
                plan = \<lparr>id' = planIdOf h, planHash = h, source = inputSource input, target = inputTarget input,
                  artifacts = order,
                  authority = (case inputAuthority input of
                    SandboxInput e \<Rightarrow> Sandbox e | PromotionInput key secret \<Rightarrow> Promotion key (sign h secret)),
                  createdAt = at\<rparr>
            in if planValid isDatetime plan then Some (Inr plan) else Some (Inl InvalidInput))"

definition verifyDeploymentPlan ::
    "(string \<Rightarrow> bool) \<Rightarrow> (UnsignedPlan \<Rightarrow> string) \<Rightarrow> (string \<Rightarrow> string \<Rightarrow> string \<Rightarrow> bool option)
      \<Rightarrow> DeploymentPlan \<Rightarrow> InvalidDeploymentPlan + DeploymentPlan" where
  "verifyDeploymentPlan isDatetime digest verify plan =
     (if \<not> planValid isDatetime plan then Inl InvalidInput
      else let expected = digest (unsignedPlanPayload plan) in
        if expected \<noteq> planHash plan \<or> id' plan \<noteq> planIdOf expected then Inl HashMismatch
        else case authority plan of
            Sandbox env \<Rightarrow>
              if targetKind (target plan) = SandboxTarget \<and> env = environmentId (target plan)
              then Inr plan else Inl AuthorityTargetMismatch
          | Promotion key signature \<Rightarrow>
              (case verify signature (planHash plan) key of
                 None \<Rightarrow> Inl SignatureMalformed
               | Some valid \<Rightarrow> if valid then Inr plan else Inl SignatureInvalid))"

lemma create_Inr:
  assumes "createDeploymentPlan isDatetime digest sign now input = Some (Inr plan)"
  shows "planValid isDatetime plan" and "planHash plan = digest (unsignedPlanPayload plan)"
    and "id' plan = planIdOf (planHash plan)" and "source plan = inputSource input"
    and "target plan = inputTarget input"
    and "affectedArtifacts (candidateArtifacts input) (currentHashes input) = Some (Inr (artifacts plan))"
    and "case inputAuthority input of
        SandboxInput e \<Rightarrow> authority plan = Sandbox e \<and> targetKind (target plan) = SandboxTarget
          \<and> e = environmentId (target plan)
      | PromotionInput key secret \<Rightarrow> authority plan = Promotion key (sign (planHash plan) secret)
          \<and> targetKind (target plan) = CurrentTarget"
  using assms
  by (auto simp: createDeploymentPlan_def Let_def unsignedPlanPayload_def
      split: if_splits option.splits sum.splits AuthorityInput.splits)
     (metis TargetKind.exhaust)+

text \<open>
  What \<open>createDeploymentPlan\<close> answers, \<open>verifyDeploymentPlan\<close> accepts unchanged, given that
  signatures made with a private key verify under its public key and that a promotion names the
  public key of the private key it signs with.
\<close>

theorem created_plan_verifies:
  assumes "\<And>m k. verify (sign m k) m (publicOf k) = Some True"
    and "createDeploymentPlan isDatetime digest sign now input = Some (Inr plan)"
    and "\<And>key secret. inputAuthority input = PromotionInput key secret \<Longrightarrow> key = publicOf secret"
  shows "verifyDeploymentPlan isDatetime digest verify plan = Inr plan"
proof (cases "inputAuthority input")
  case (SandboxInput e)
  then show ?thesis using create_Inr [OF assms(2)] by (simp add: verifyDeploymentPlan_def)
next
  case (PromotionInput key secret)
  then show ?thesis using create_Inr [OF assms(2)] assms(1,3) by (simp add: verifyDeploymentPlan_def)
qed

text \<open>
  A verified plan is bound to its hash and its authority: two plans that verify and carry the
  same hash have the same source, target, artifacts and creation time, when the digest does not
  collide on their payloads; a plan under a sandbox authority only replaces that sandbox, and a
  promotion carries a signature of the hash that verifies under the root key it names.
\<close>

theorem verified_plan_bound:
  assumes "verifyDeploymentPlan isDatetime digest verify p = Inr p'"
    and "verifyDeploymentPlan isDatetime digest verify q = Inr q'"
    and "planHash p = planHash q"
    and "digest (unsignedPlanPayload p) = digest (unsignedPlanPayload q) \<Longrightarrow>
      unsignedPlanPayload p = unsignedPlanPayload q"
  shows "p' = p \<and> unsignedPlanPayload p = unsignedPlanPayload q \<and> id' p = id' q
    \<and> (case authority p of
         Sandbox env \<Rightarrow> target p = target q \<and> targetKind (target p) = SandboxTarget \<and> environmentId (target p) = env
       | Promotion key signature \<Rightarrow> verify signature (planHash p) key = Some True)"
proof -
  have sound: "r' = r \<and> planHash r = digest (unsignedPlanPayload r) \<and> id' r = planIdOf (planHash r)
      \<and> (case authority r of
           Sandbox env \<Rightarrow> targetKind (target r) = SandboxTarget \<and> environmentId (target r) = env
         | Promotion key signature \<Rightarrow> verify signature (planHash r) key = Some True)"
    if "verifyDeploymentPlan isDatetime digest verify r = Inr r'" for r r'
    using that by (auto simp: verifyDeploymentPlan_def Let_def split: if_splits option.splits DeploymentAuthority.splits)
  have same: "unsignedPlanPayload p = unsignedPlanPayload q"
    using sound [OF assms(1)] sound [OF assms(2)] assms(3,4) by simp
  then have "target p = target q" by (simp add: unsignedPlanPayload_def)
  with same sound [OF assms(1)] sound [OF assms(2)] assms(3) show ?thesis
    by (auto split: DeploymentAuthority.splits)
qed

subsection \<open>A deployment of two entrypoints\<close>

definition exampleHash :: string where
  "exampleHash = ''sha256:'' @ replicate 64 (CHR ''a'')"

definition exampleCandidates :: "DeploymentArtifact list" where
  "exampleCandidates =
     [\<lparr>entrypoint = Frontend, hash = exampleHash, path = ''f'', dependsOn = [Relay_worker]\<rparr>,
      \<lparr>entrypoint = Relay_worker, hash = exampleHash, path = ''r'', dependsOn = [Relay_do]\<rparr>,
      \<lparr>entrypoint = Machine_daemon, hash = exampleHash, path = ''m'', dependsOn = []\<rparr>]"

definition exampleInput :: "string DeploymentPlanInput" where
  "exampleInput = \<lparr>inputSource = \<lparr>projectId = ''p'', revision = ''r'', dirty = False\<rparr>,
     inputTarget = \<lparr>environmentId = ''e'', targetKind = CurrentTarget, expectedGeneration = ''1''\<rparr>,
     candidateArtifacts = exampleCandidates,
     currentHashes = [Frontend \<mapsto> exampleHash, Relay_do \<mapsto> exampleHash, Machine_daemon \<mapsto> exampleHash],
     inputAuthority = PromotionInput ''key'' ''key'', inputCreatedAt = None\<rparr>"

definition examplePlan :: DeploymentPlan where
  "examplePlan = \<lparr>id' = ''dep_'' @ replicate 24 (CHR ''a''), planHash = exampleHash,
     source = inputSource exampleInput, target = inputTarget exampleInput,
     artifacts = [exampleCandidates ! 1, exampleCandidates ! 0],
     authority = Promotion ''key'' (exampleHash @ ''key''), createdAt = ''t''\<rparr>"

theorem created_plan_verifies_witness:
  "verifyDeploymentPlan (\<lambda>_. True) (\<lambda>_. exampleHash) (\<lambda>s m k. Some (s = m @ k)) examplePlan = Inr examplePlan"
proof (rule created_plan_verifies [where sign = "(@)" and publicOf = "\<lambda>k. k" and input = exampleInput and now = "''t''"])
  show "createDeploymentPlan (\<lambda>_. True) (\<lambda>_. exampleHash) (@) ''t'' exampleInput = Some (Inr examplePlan)"
    by code_simp
qed (auto simp: exampleInput_def)

theorem verified_plan_bound_witness:
  "examplePlan = examplePlan
   \<and> unsignedPlanPayload examplePlan = unsignedPlanPayload (examplePlan\<lparr>authority := Promotion ''key'' ''other''\<rparr>)
   \<and> id' examplePlan = id' (examplePlan\<lparr>authority := Promotion ''key'' ''other''\<rparr>)
   \<and> (case authority examplePlan of
         Sandbox env \<Rightarrow> target examplePlan = target (examplePlan\<lparr>authority := Promotion ''key'' ''other''\<rparr>)
           \<and> targetKind (target examplePlan) = SandboxTarget \<and> environmentId (target examplePlan) = env
       | Promotion key signature \<Rightarrow> Some (signature \<noteq> []) = Some True)"
proof (rule verified_plan_bound [where isDatetime = "\<lambda>_. True" and digest = "\<lambda>_. exampleHash"
      and verify = "\<lambda>s m k. Some (s \<noteq> [])" and q' = "examplePlan\<lparr>authority := Promotion ''key'' ''other''\<rparr>"])
  show "verifyDeploymentPlan (\<lambda>_. True) (\<lambda>_. exampleHash) (\<lambda>s m k. Some (s \<noteq> [])) examplePlan = Inr examplePlan"
    by code_simp
  show "verifyDeploymentPlan (\<lambda>_. True) (\<lambda>_. exampleHash) (\<lambda>s m k. Some (s \<noteq> []))
      (examplePlan\<lparr>authority := Promotion ''key'' ''other''\<rparr>) = Inr (examplePlan\<lparr>authority := Promotion ''key'' ''other''\<rparr>)"
    by code_simp
qed (simp_all add: unsignedPlanPayload_def examplePlan_def)

end
