(* ===== verification/Deployment_Journal.thy ===== *)
theory Deployment_Journal
  imports Deployment_Plan
begin

text \<open>
  \<open>packages/deployment/src/journal.ts\<close>: the runs and steps of deployments. Steps are keyed by run,
  attempt and entrypoint, the primary key of their table, so the upsert is \<^const>\<open>AList.update\<close>.
  The timestamps are not modelled (nothing reads them back), and SQLite errors are not either.
  A method that throws is \<^const>\<open>None\<close>.
\<close>

subsection \<open>Data\<close>

datatype DeploymentRunState =
    Planned | Draining | Staging | Activating | Health_checking | Finalizing | Committed
  | Rolling_back | Rolled_back | Failed

datatype DeploymentStepState =
    StepPending | StepDrained | StepStaged | StepActivated | StepHealthy | StepCommitted
  | StepFinalized | StepRolledBack

record RunRow =
  runPlanHash :: string
  runPlan :: DeploymentPlan
  runState :: DeploymentRunState
  attempt :: nat
  runError :: "string option"

record StepBody =
  ordinal :: nat
  stepState :: DeploymentStepState
  detail :: "string option"

record DeploymentStepRecord = StepBody +
  stepAttempt :: nat
  stepEntrypoint :: EntrypointId

type_synonym stepKey = "string \<times> nat \<times> EntrypointId"

record journal =
  deployment_runs :: "(string \<times> RunRow) list"
  deployment_steps :: "(stepKey \<times> StepBody) list"

subsection \<open>Methods\<close>

text \<open>\<open>row.error ? ... : {}\<close>: an empty error is left out.\<close>

definition nonEmpty :: "string option \<Rightarrow> string option" where
  "nonEmpty e = (case e of Some m \<Rightarrow> if m \<noteq> [] then Some m else None | None \<Rightarrow> None)"

definition load :: "string \<Rightarrow> journal \<Rightarrow> RunRow option" where
  "load i j = map_option (\<lambda>r. r\<lparr>runError := nonEmpty (runError r)\<rparr>) (map_of (deployment_runs j) i)"

definition begin_run :: "DeploymentPlan \<Rightarrow> journal \<Rightarrow> RunRow option \<times> journal" where
  "begin_run plan j =
     (case load (id' plan) j of
        Some existing \<Rightarrow> (if runPlanHash existing = planHash plan then Some existing else None, j)
      | None \<Rightarrow>
          let row = \<lparr>runPlanHash = planHash plan, runPlan = plan, runState = Planned, attempt = 1, runError = None\<rparr>
          in (Some row, j\<lparr>deployment_runs := deployment_runs j @ [(id' plan, row)]\<rparr>))"

definition transition :: "string \<Rightarrow> DeploymentRunState \<Rightarrow> string option \<Rightarrow> journal \<Rightarrow> journal option" where
  "transition i state error j =
     (case map_of (deployment_runs j) i of
        None \<Rightarrow> None
      | Some r \<Rightarrow> Some (j\<lparr>deployment_runs :=
          AList.update i (r\<lparr>runState := state, runError := error\<rparr>) (deployment_runs j)\<rparr>))"

definition recordStep ::
    "string \<Rightarrow> EntrypointId \<Rightarrow> nat \<Rightarrow> DeploymentStepState \<Rightarrow> string option \<Rightarrow> journal \<Rightarrow> journal option" where
  "recordStep i e ord state d j =
     (case load i j of
        None \<Rightarrow> None
      | Some run \<Rightarrow> Some (j\<lparr>deployment_steps := AList.update (i, attempt run, e)
          \<lparr>ordinal = ord, stepState = state, detail = d\<rparr> (deployment_steps j)\<rparr>))"

definition steps :: "string \<Rightarrow> journal \<Rightarrow> DeploymentStepRecord list" where
  "steps i j =
     (case load i j of
        None \<Rightarrow> []
      | Some run \<Rightarrow>
          map (\<lambda>((_, a, e), b). \<lparr>ordinal = ordinal b, stepState = stepState b, detail = nonEmpty (detail b),
              stepAttempt = a, stepEntrypoint = e\<rparr>)
            (sort_key (\<lambda>(_, b). ordinal b)
              (filter (\<lambda>((r, a, _), _). r = i \<and> a = attempt run) (deployment_steps j))))"

definition restart :: "string \<Rightarrow> journal \<Rightarrow> journal option" where
  "restart i j =
     (case map_of (deployment_runs j) i of
        None \<Rightarrow> None
      | Some r \<Rightarrow> Some (j\<lparr>deployment_runs :=
          AList.update i (r\<lparr>runState := Planned, attempt := attempt r + 1, runError := None\<rparr>)
            (deployment_runs j)\<rparr>))"

subsection \<open>The steps of a plan\<close>

definition entryAt :: "DeploymentPlan \<Rightarrow> nat \<Rightarrow> EntrypointId" where
  "entryAt plan i = entrypoint (artifacts plan ! i)"

text \<open>
  Every step recorded for the plan's run is one of its artifacts, at its own place, and no key is
  stored twice.
\<close>

definition stepsFit :: "DeploymentPlan \<Rightarrow> journal \<Rightarrow> bool" where
  "stepsFit plan j \<longleftrightarrow>
     distinct (map fst (deployment_steps j)) \<and> distinct (map fst (deployment_runs j))
     \<and> (\<forall>a e b. map_of (deployment_steps j) (id' plan, a, e) = Some b \<longrightarrow>
          ordinal b < length (artifacts plan) \<and> entryAt plan (ordinal b) = e)"

definition stateAt :: "DeploymentPlan \<Rightarrow> journal \<Rightarrow> nat \<Rightarrow> nat \<Rightarrow> DeploymentStepState option" where
  "stateAt plan j a i = map_option stepState (map_of (deployment_steps j) (id' plan, a, entryAt plan i))"

lemma sorted_key_unique:
  fixes k :: "'a \<Rightarrow> 'b :: linorder"
  assumes "sorted (map k xs)" and "sorted (map k ys)" and "distinct (map k xs)" and "distinct (map k ys)"
    and "set xs = set ys"
  shows "xs = ys"
proof -
  have "set (map k xs) = set (map k ys)" using assms(5) by simp
  then have "map k xs = map k ys" using assms(1-4) by (intro sorted_distinct_set_unique) auto
  moreover have "inj_on k (set xs \<union> set ys)" using assms(3,5) by (simp add: distinct_map)
  ultimately show ?thesis by (simp add: inj_on_map_eq_map)
qed

lemma distinct_entryAt:
  assumes "distinct (map entrypoint (artifacts plan))" and "i < length (artifacts plan)"
    and "k < length (artifacts plan)"
  shows "entryAt plan i = entryAt plan k \<longleftrightarrow> i = k"
  using assms by (auto simp: entryAt_def distinct_conv_nth)

lemma stateAt_ordinal:
  assumes "stepsFit plan j" and "distinct (map entrypoint (artifacts plan))" and "i < length (artifacts plan)"
    and "map_of (deployment_steps j) (id' plan, a, entryAt plan i) = Some b"
  shows "ordinal b = i"
proof -
  have "ordinal b < length (artifacts plan)" "entryAt plan (ordinal b) = entryAt plan i"
    using assms(1,4) unfolding stepsFit_def by blast+
  then show ?thesis using distinct_entryAt [OF assms(2) _ assms(3)] by blast
qed

lemma steps_by_ordinal:
  assumes fit: "stepsFit plan j" and dist: "distinct (map entrypoint (artifacts plan))"
    and run: "load (id' plan) j = Some run"
  shows "map (\<lambda>s. (ordinal s, stepState s, stepAttempt s, stepEntrypoint s)) (steps (id' plan) j)
    = map (\<lambda>i. (i, the (stateAt plan j (attempt run) i), attempt run, entryAt plan i))
        (filter (\<lambda>i. stateAt plan j (attempt run) i \<noteq> None) [0..<length (artifacts plan)])"
proof -
  let ?n = "length (artifacts plan)" and ?a = "attempt run"
  let ?rows = "filter (\<lambda>((r, a, _), _). r = id' plan \<and> a = ?a) (deployment_steps j)"
  let ?sorted = "sort_key (\<lambda>(_, b). ordinal b) ?rows"
  let ?body = "\<lambda>i. the (map_of (deployment_steps j) (id' plan, ?a, entryAt plan i))"
  let ?row = "\<lambda>i. ((id' plan, ?a, entryAt plan i), ?body i)"
  let ?is = "filter (\<lambda>i. stateAt plan j ?a i \<noteq> None) [0..<?n]"
  have keys: "distinct (map fst (deployment_steps j))" using fit unfolding stepsFit_def by blast
  have row: "((r, a, e), b) \<in> set ?rows \<longleftrightarrow>
      r = id' plan \<and> a = ?a \<and> map_of (deployment_steps j) (id' plan, ?a, e) = Some b" for r a e b
    using keys by auto
  have at: "ordinal (?body i) = i" if "i \<in> set ?is" for i
  proof -
    from that obtain b where b: "map_of (deployment_steps j) (id' plan, ?a, entryAt plan i) = Some b"
      by (auto simp: stateAt_def)
    with stateAt_ordinal [OF fit dist _ b] that show ?thesis by simp
  qed
  have "?sorted = map ?row ?is"
  proof (rule sorted_key_unique [where k = "\<lambda>(_, b). ordinal b"])
    show "sorted (map (\<lambda>(_, b). ordinal b) ?sorted)" by simp
    have "map (\<lambda>i. ordinal (?body i)) ?is = ?is" by (rule map_idI) (rule at)
    then have ords: "map (\<lambda>(_, b). ordinal b) (map ?row ?is) = ?is" by (simp add: comp_def)
    show "sorted (map (\<lambda>(_, b). ordinal b) (map ?row ?is))" unfolding ords by (simp add: sorted_wrt_filter)
    show "distinct (map (\<lambda>(_, b). ordinal b) (map ?row ?is))" unfolding ords by simp
    have inj: "x = y" if "x \<in> set ?rows" "y \<in> set ?rows" "ordinal (snd x) = ordinal (snd y)" for x y
    proof -
      obtain r a e b where x: "x = ((r, a, e), b)" by (metis prod.collapse)
      obtain r' a' e' b' where y: "y = ((r', a', e'), b')" by (metis prod.collapse)
      have mx: "map_of (deployment_steps j) (id' plan, ?a, e) = Some b" "r = id' plan" "a = ?a"
        using that(1) unfolding x row by blast+
      have my: "map_of (deployment_steps j) (id' plan, ?a, e') = Some b'" "r' = id' plan" "a' = ?a"
        using that(2) unfolding y row by blast+
      have "e = entryAt plan (ordinal b)" "e' = entryAt plan (ordinal b')"
        using fit mx(1) my(1) unfolding stepsFit_def by metis+
      with that(3) mx my show ?thesis by (simp add: x y)
    qed
    have "distinct ?rows" using keys by (simp add: distinct_map)
    moreover have "inj_on (\<lambda>(_, b). ordinal b) (set ?rows)"
    proof (rule inj_onI)
      fix x y assume "x \<in> set ?rows" "y \<in> set ?rows" "(case x of (_, b) \<Rightarrow> ordinal b) = (case y of (_, b) \<Rightarrow> ordinal b)"
      then show "x = y" using inj [of x y] by (simp add: case_prod_beta)
    qed
    ultimately show "distinct (map (\<lambda>(_, b). ordinal b) ?sorted)" by (simp add: distinct_map)
    show "set ?sorted = set (map ?row ?is)"
    proof (rule set_eqI)
      fix x :: "stepKey \<times> StepBody"
      obtain r a e b where x: "x = ((r, a, e), b)" by (metis prod.collapse)
      have "x \<in> set ?sorted \<longleftrightarrow> r = id' plan \<and> a = ?a \<and> map_of (deployment_steps j) (id' plan, ?a, e) = Some b"
        using row [of r a e b] unfolding x by (simp only: set_sort)
      also have "\<dots> \<longleftrightarrow> x \<in> set (map ?row ?is)"
      proof
        assume l: "r = id' plan \<and> a = ?a \<and> map_of (deployment_steps j) (id' plan, ?a, e) = Some b"
        then have "ordinal b < ?n" "entryAt plan (ordinal b) = e" using fit unfolding stepsFit_def by blast+
        with l show "x \<in> set (map ?row ?is)"
          by (auto simp: x stateAt_def intro!: image_eqI [of _ _ "ordinal b"])
      next
        assume "x \<in> set (map ?row ?is)"
        then show "r = id' plan \<and> a = ?a \<and> map_of (deployment_steps j) (id' plan, ?a, e) = Some b"
          by (auto simp: x stateAt_def)
      qed
      finally show "x \<in> set ?sorted \<longleftrightarrow> x \<in> set (map ?row ?is)" .
    qed
  qed
  moreover have "steps (id' plan) j = map (\<lambda>((_, a, e), b). \<lparr>ordinal = ordinal b, stepState = stepState b,
      detail = nonEmpty (detail b), stepAttempt = a, stepEntrypoint = e\<rparr>) ?sorted"
    using run by (simp add: steps_def)
  ultimately show ?thesis using at by (auto simp: stateAt_def)
qed

end
