(* ===== verification/Deployment_Engine.thy ===== *)
theory Deployment_Engine
  imports Deployment_Journal "HOL-Library.Monad_Syntax"
begin

text \<open>
  \<open>packages/deployment/src/engine.ts\<close>, \<open>DeploymentEngine\<close>: a plan's artifacts are drained, staged,
  activated, checked and committed by their drivers, phase by phase; a failure rolls back what was
  staged, and only after every commit are rollback resources discarded. Drivers are a parameter:
  each is a function of the phase, the context and an outside world of any type, and may succeed,
  answer an error or raise. The calls the engine makes are kept in order. A call that would raise
  out of the engine (a missing driver, a missing run) is \<^const>\<open>None\<close>.
\<close>

subsection \<open>Drivers\<close>

datatype ReplacementPhase = Drain | Stage | Activate | Health | Commit | Finalize | Rollback

record ReplacementActionError =
  errorEntrypoint :: EntrypointId
  errorPhase :: ReplacementPhase
  errorMessage :: string

record ReplacementContext =
  contextPlan :: DeploymentPlan
  contextArtifact :: "DeploymentArtifact option"
  contextOrdinal :: nat
  contextAttempt :: nat

datatype DriverOutcome = Done | Answered ReplacementActionError | Raised string

record 'w ReplacementDriver =
  driver :: EntrypointId
  act :: "ReplacementPhase \<Rightarrow> ReplacementContext \<Rightarrow> 'w \<Rightarrow> DriverOutcome \<times> 'w"
  finalizes :: bool

datatype DeploymentExecutionError =
    PlanRefused InvalidDeploymentPlan
  | NoDriver EntrypointId
  | JournalConflict
  | Failed_at EntrypointId ReplacementPhase string

record Call =
  callPhase :: ReplacementPhase
  callOrdinal :: nat
  callAttempt :: nat
  callError :: "ReplacementActionError option"

record 'w engine =
  journalOf :: journal
  world :: 'w
  calls :: "Call list"

type_synonym 'w drivers = "(EntrypointId \<times> 'w ReplacementDriver) list"

definition needsRollback :: "DeploymentStepState \<Rightarrow> bool" where
  "needsRollback state \<longleftrightarrow>
     state = StepStaged \<or> state = StepActivated \<or> state = StepHealthy \<or> state = StepCommitted"

text \<open>The constructor throws on duplicate entrypoints.\<close>

definition engineDrivers :: "'w ReplacementDriver list \<Rightarrow> 'w drivers option" where
  "engineDrivers ds = (let m = keyedMap driver ds in if length m \<noteq> length ds then None else Some m)"

definition contextFor :: "DeploymentPlan \<Rightarrow> nat \<Rightarrow> nat \<Rightarrow> ReplacementContext" where
  "contextFor plan ord a = \<lparr>contextPlan = plan,
     contextArtifact = (if ord < length (artifacts plan) then Some (artifacts plan ! ord) else None),
     contextOrdinal = ord, contextAttempt = a\<rparr>"

definition invoke ::
    "'w drivers \<Rightarrow> EntrypointId \<Rightarrow> ReplacementPhase \<Rightarrow> ReplacementContext \<Rightarrow> 'w engine
      \<Rightarrow> (ReplacementActionError option \<times> 'w engine) option" where
  "invoke drivers e phase context st =
     (case map_of drivers e of
        None \<Rightarrow> None
      | Some d \<Rightarrow>
          let (outcome, w) = (if phase = Finalize \<and> \<not> finalizes d then (Done, world st) else act d phase context (world st));
              failure = (case outcome of
                  Done \<Rightarrow> None
                | Answered error \<Rightarrow> Some error
                | Raised m \<Rightarrow> Some \<lparr>errorEntrypoint = driver d, errorPhase = phase, errorMessage = m\<rparr>)
          in Some (failure, st\<lparr>world := w, calls := calls st @ [\<lparr>callPhase = phase,
               callOrdinal = contextOrdinal context, callAttempt = contextAttempt context, callError = failure\<rparr>]\<rparr>))"

subsection \<open>Journal writes\<close>

definition setRun :: "string \<Rightarrow> DeploymentRunState \<Rightarrow> string option \<Rightarrow> 'w engine \<Rightarrow> 'w engine option" where
  "setRun i state error st = map_option (\<lambda>j. st\<lparr>journalOf := j\<rparr>) (transition i state error (journalOf st))"

definition setStep :: "string \<Rightarrow> EntrypointId \<Rightarrow> nat \<Rightarrow> DeploymentStepState \<Rightarrow> 'w engine \<Rightarrow> 'w engine option" where
  "setStep i e ord state st = map_option (\<lambda>j. st\<lparr>journalOf := j\<rparr>) (recordStep i e ord state None (journalOf st))"

definition restartRun :: "string \<Rightarrow> 'w engine \<Rightarrow> 'w engine option" where
  "restartRun i st = map_option (\<lambda>j. st\<lparr>journalOf := j\<rparr>) (restart i (journalOf st))"

subsection \<open>Rolling back\<close>

definition toRollBack :: "string \<Rightarrow> journal \<Rightarrow> DeploymentStepRecord list" where
  "toRollBack i j = rev (filter (\<lambda>s. needsRollback (stepState s)) (steps i j))"

fun entrypointText :: "EntrypointId \<Rightarrow> string" where
  "entrypointText Frontend = ''frontend''"
| "entrypointText Machine_daemon = ''machine-daemon''"
| "entrypointText Offload_worker = ''offload-worker''"
| "entrypointText Relay_worker = ''relay-worker''"
| "entrypointText Relay_do = ''relay-do''"
| "entrypointText Platform_dispatch = ''platform-dispatch''"

fun rollbackAll ::
    "'w drivers \<Rightarrow> DeploymentPlan \<Rightarrow> DeploymentStepRecord list \<Rightarrow> string list \<Rightarrow> 'w engine
      \<Rightarrow> (string list \<times> 'w engine) option" where
  "rollbackAll drivers plan [] errors st = Some (errors, st)"
| "rollbackAll drivers plan (step # rest) errors st = do {
     (failure, st) \<leftarrow> invoke drivers (stepEntrypoint step) Rollback
       (contextFor plan (ordinal step) (stepAttempt step)) st;
     (case failure of
        Some error \<Rightarrow> rollbackAll drivers plan rest
          (errors @ [entrypointText (stepEntrypoint step) @ '': '' @ errorMessage error]) st
      | None \<Rightarrow> do {
          st \<leftarrow> setStep (id' plan) (stepEntrypoint step) (ordinal step) StepRolledBack st;
          rollbackAll drivers plan rest errors st
        })
   }"

definition failAndRollback ::
    "'w drivers \<Rightarrow> DeploymentPlan \<Rightarrow> ReplacementActionError \<Rightarrow> 'w engine
      \<Rightarrow> ((DeploymentExecutionError + RunRow) \<times> 'w engine) option" where
  "failAndRollback drivers plan failure st = do {
     st \<leftarrow> setRun (id' plan) Rolling_back (Some (errorMessage failure)) st;
     (errors, st) \<leftarrow> rollbackAll drivers plan (toRollBack (id' plan) (journalOf st)) [] st;
     let message = (if errors = [] then errorMessage failure
       else errorMessage failure @ ''; rollback errors: '' @ joinWith ''; '' errors);
     st \<leftarrow> setRun (id' plan) (if errors = [] then Rolled_back else Failed) (Some message) st;
     Some (Inl (Failed_at (errorEntrypoint failure) (errorPhase failure) message), st)
   }"

text \<open>Recovery stops at the first rollback that fails.\<close>

fun recoverAll ::
    "'w drivers \<Rightarrow> DeploymentPlan \<Rightarrow> nat \<Rightarrow> DeploymentStepRecord list \<Rightarrow> 'w engine
      \<Rightarrow> ((DeploymentExecutionError + unit) \<times> 'w engine) option" where
  "recoverAll drivers plan a [] st = Some (Inr (), st)"
| "recoverAll drivers plan a (step # rest) st = do {
     (failure, st) \<leftarrow> invoke drivers (stepEntrypoint step) Rollback (contextFor plan (ordinal step) a) st;
     (case failure of
        Some error \<Rightarrow> do {
          st \<leftarrow> setRun (id' plan) Failed (Some (errorMessage error)) st;
          Some (Inl (Failed_at (stepEntrypoint step) Rollback (errorMessage error)), st)
        }
      | None \<Rightarrow> do {
          st \<leftarrow> setStep (id' plan) (stepEntrypoint step) (ordinal step) StepRolledBack st;
          recoverAll drivers plan a rest st
        })
   }"

definition rollbackRecordedAttempt ::
    "'w drivers \<Rightarrow> DeploymentPlan \<Rightarrow> RunRow \<Rightarrow> 'w engine
      \<Rightarrow> ((DeploymentExecutionError + unit) \<times> 'w engine) option" where
  "rollbackRecordedAttempt drivers plan run st = do {
     st \<leftarrow> setRun (id' plan) Rolling_back (Some ''Recovering interrupted deployment attempt'') st;
     (result, st) \<leftarrow> recoverAll drivers plan (attempt run) (toRollBack (id' plan) (journalOf st)) st;
     (case result of
        Inl error \<Rightarrow> Some (Inl error, st)
      | Inr _ \<Rightarrow> do {
          st \<leftarrow> setRun (id' plan) Rolled_back None st;
          Some (Inr (), st)
        })
   }"

subsection \<open>Finalizing\<close>

fun finalizeAll ::
    "'w drivers \<Rightarrow> DeploymentPlan \<Rightarrow> nat \<Rightarrow> DeploymentStepRecord list \<Rightarrow> 'w engine
      \<Rightarrow> ((DeploymentExecutionError + unit) \<times> 'w engine) option" where
  "finalizeAll drivers plan a [] st = Some (Inr (), st)"
| "finalizeAll drivers plan a (step # rest) st =
     (if stepState step = StepFinalized then finalizeAll drivers plan a rest st
      else do {
        (failure, st) \<leftarrow> invoke drivers (stepEntrypoint step) Finalize (contextFor plan (ordinal step) a) st;
        (case failure of
           Some error \<Rightarrow> do {
             st \<leftarrow> setRun (id' plan) Finalizing (Some (errorMessage error)) st;
             Some (Inl (Failed_at (stepEntrypoint step) Finalize (errorMessage error)), st)
           }
         | None \<Rightarrow> do {
             st \<leftarrow> setStep (id' plan) (stepEntrypoint step) (ordinal step) StepFinalized st;
             finalizeAll drivers plan a rest st
           })
      })"

definition finalize ::
    "'w drivers \<Rightarrow> DeploymentPlan \<Rightarrow> RunRow \<Rightarrow> 'w engine
      \<Rightarrow> ((DeploymentExecutionError + RunRow) \<times> 'w engine) option" where
  "finalize drivers plan run st = do {
     (result, st) \<leftarrow> finalizeAll drivers plan (attempt run) (steps (id' plan) (journalOf st)) st;
     (case result of
        Inl error \<Rightarrow> Some (Inl error, st)
      | Inr _ \<Rightarrow> do {
          st \<leftarrow> setRun (id' plan) Committed None st;
          row \<leftarrow> load (id' plan) (journalOf st);
          Some (Inr row, st)
        })
   }"

subsection \<open>Executing\<close>

fun recordPending :: "DeploymentPlan \<Rightarrow> nat list \<Rightarrow> 'w engine \<Rightarrow> 'w engine option" where
  "recordPending plan [] st = Some st"
| "recordPending plan (ord # rest) st = do {
     st \<leftarrow> setStep (id' plan) (entryAt plan ord) ord StepPending st;
     recordPending plan rest st
   }"

text \<open>One phase over the artifacts: the first failure ends it.\<close>

fun runPhase ::
    "'w drivers \<Rightarrow> DeploymentPlan \<Rightarrow> nat \<Rightarrow> ReplacementPhase \<Rightarrow> DeploymentStepState \<Rightarrow> nat list \<Rightarrow> 'w engine
      \<Rightarrow> (ReplacementActionError option \<times> 'w engine) option" where
  "runPhase drivers plan a phase state [] st = Some (None, st)"
| "runPhase drivers plan a phase state (ord # rest) st = do {
     (failure, st) \<leftarrow> invoke drivers (entryAt plan ord) phase (contextFor plan ord a) st;
     (case failure of
        Some error \<Rightarrow> Some (Some error, st)
      | None \<Rightarrow> do {
          st \<leftarrow> setStep (id' plan) (entryAt plan ord) ord state st;
          runPhase drivers plan a phase state rest st
        })
   }"

definition phases :: "(DeploymentRunState \<times> ReplacementPhase \<times> DeploymentStepState) list" where
  "phases = [(Draining, Drain, StepDrained), (Staging, Stage, StepStaged),
     (Activating, Activate, StepActivated), (Health_checking, Health, StepHealthy)]"

fun runPhases ::
    "'w drivers \<Rightarrow> DeploymentPlan \<Rightarrow> nat \<Rightarrow> (DeploymentRunState \<times> ReplacementPhase \<times> DeploymentStepState) list
      \<Rightarrow> 'w engine \<Rightarrow> (ReplacementActionError option \<times> 'w engine) option" where
  "runPhases drivers plan a [] st = Some (None, st)"
| "runPhases drivers plan a ((rs, phase, state) # rest) st = do {
     st \<leftarrow> setRun (id' plan) rs None st;
     (failure, st) \<leftarrow> runPhase drivers plan a phase state [0..<length (artifacts plan)] st;
     (case failure of
        Some error \<Rightarrow> Some (Some error, st)
      | None \<Rightarrow> runPhases drivers plan a rest st)
   }"

definition runAttempt ::
    "'w drivers \<Rightarrow> DeploymentPlan \<Rightarrow> nat \<Rightarrow> 'w engine
      \<Rightarrow> ((DeploymentExecutionError + RunRow) \<times> 'w engine) option" where
  "runAttempt drivers plan a st = do {
     st \<leftarrow> recordPending plan [0..<length (artifacts plan)] st;
     (failure, st) \<leftarrow> runPhases drivers plan a phases st;
     (case failure of
        Some error \<Rightarrow> failAndRollback drivers plan error st
      | None \<Rightarrow> do {
          (failure, st) \<leftarrow> runPhase drivers plan a Commit StepCommitted [0..<length (artifacts plan)] st;
          (case failure of
             Some error \<Rightarrow> failAndRollback drivers plan error st
           | None \<Rightarrow> do {
               st \<leftarrow> setRun (id' plan) Finalizing None st;
               run \<leftarrow> load (id' plan) (journalOf st);
               finalize drivers plan run st
             })
        })
   }"

definition startAttempt ::
    "'w drivers \<Rightarrow> DeploymentPlan \<Rightarrow> 'w engine \<Rightarrow> ((DeploymentExecutionError + RunRow) \<times> 'w engine) option" where
  "startAttempt drivers plan st = do {
     run \<leftarrow> load (id' plan) (journalOf st);
     runAttempt drivers plan (attempt run) st
   }"

definition resumeRun ::
    "'w drivers \<Rightarrow> DeploymentPlan \<Rightarrow> RunRow \<Rightarrow> 'w engine
      \<Rightarrow> ((DeploymentExecutionError + RunRow) \<times> 'w engine) option" where
  "resumeRun drivers plan run st =
     (if runState run = Committed then Some (Inr run, st)
      else if runState run = Finalizing then finalize drivers plan run st
      else if runState run \<notin> {Planned, Rolled_back} then do {
        (recovered, st) \<leftarrow> rollbackRecordedAttempt drivers plan run st;
        (case recovered of
           Inl error \<Rightarrow> Some (Inl error, st)
         | Inr _ \<Rightarrow> do {
             st \<leftarrow> restartRun (id' plan) st;
             startAttempt drivers plan st
           })
      }
      else if runState run \<noteq> Planned then do {
        st \<leftarrow> restartRun (id' plan) st;
        startAttempt drivers plan st
      }
      else startAttempt drivers plan st)"

definition execute ::
    "'w drivers \<Rightarrow> (DeploymentPlan \<Rightarrow> InvalidDeploymentPlan + DeploymentPlan) \<Rightarrow> DeploymentPlan \<Rightarrow> 'w engine
      \<Rightarrow> ((DeploymentExecutionError + RunRow) \<times> 'w engine) option" where
  "execute drivers verified plan st =
     (case verified plan of
        Inl error \<Rightarrow> Some (Inl (PlanRefused error), st)
      | Inr _ \<Rightarrow>
          (case List.find (\<lambda>a. map_of drivers (entrypoint a) = None) (artifacts plan) of
             Some a \<Rightarrow> Some (Inl (NoDriver (entrypoint a)), st)
           | None \<Rightarrow>
               (case begin_run plan (journalOf st) of
                  (None, j) \<Rightarrow> Some (Inl JournalConflict, st\<lparr>journalOf := j\<rparr>)
                | (Some run, j) \<Rightarrow> resumeRun drivers plan run (st\<lparr>journalOf := j\<rparr>))))"

subsection \<open>What one step does\<close>

text \<open>
  The view of the engine during an attempt: the state and number of the plan's run, the state of
  each artifact's step in that attempt, and the calls made.
\<close>

definition viewOf ::
    "DeploymentPlan \<Rightarrow> 'w engine \<Rightarrow> DeploymentRunState \<Rightarrow> nat \<Rightarrow> (nat \<Rightarrow> DeploymentStepState option) \<Rightarrow> Call list \<Rightarrow> bool" where
  "viewOf plan st rs a f cs \<longleftrightarrow>
     stepsFit plan (journalOf st)
     \<and> (\<exists>r. map_of (deployment_runs (journalOf st)) (id' plan) = Some r \<and> runState r = rs \<and> attempt r = a)
     \<and> (\<forall>i < length (artifacts plan). stateAt plan (journalOf st) a i = f i) \<and> calls st = cs"

definition usable :: "'w drivers \<Rightarrow> DeploymentPlan \<Rightarrow> bool" where
  "usable drivers plan \<longleftrightarrow>
     distinct (map entrypoint (artifacts plan))
     \<and> (\<forall>i < length (artifacts plan). map_of drivers (entryAt plan i) \<noteq> None)"

fun phaseState :: "ReplacementPhase \<Rightarrow> DeploymentStepState" where
  "phaseState Drain = StepDrained"
| "phaseState Stage = StepStaged"
| "phaseState Activate = StepActivated"
| "phaseState Health = StepHealthy"
| "phaseState Commit = StepCommitted"
| "phaseState Finalize = StepFinalized"
| "phaseState Rollback = StepRolledBack"

definition callFor :: "nat \<Rightarrow> ReplacementPhase \<times> nat \<Rightarrow> ReplacementActionError option \<Rightarrow> Call" where
  "callFor a p e = \<lparr>callPhase = fst p, callOrdinal = snd p, callAttempt = a, callError = e\<rparr>"

definition after ::
    "(nat \<Rightarrow> DeploymentStepState option) \<Rightarrow> (ReplacementPhase \<times> nat) list \<Rightarrow> nat \<Rightarrow> DeploymentStepState option" where
  "after f ps = foldl (\<lambda>f (ph, i). f(i := Some (phaseState ph))) f ps"

lemma after_simps [simp]:
  "after f [] = f" "after f (p # ps) = after (f(snd p := Some (phaseState (fst p)))) ps"
  "after f (ps @ qs) = after (after f ps) qs"
  by (simp_all add: after_def case_prod_beta)

lemma viewOf_run: "viewOf plan st rs a f cs \<Longrightarrow>
    \<exists>r. load (id' plan) (journalOf st) = Some r \<and> runState r = rs \<and> attempt r = a"
  by (auto simp: viewOf_def load_def)

lemma viewOf_invoke:
  assumes "viewOf plan st rs a f cs" and "usable drivers plan" and "i < length (artifacts plan)"
  obtains e st' where "invoke drivers (entryAt plan i) ph (contextFor plan i b) st = Some (e, st')"
    and "viewOf plan st' rs a f (cs @ [callFor b (ph, i) e])"
proof -
  from assms(2,3) obtain d where d: "map_of drivers (entryAt plan i) = Some d" by (auto simp: usable_def)
  obtain outcome w where run: "(if ph = Finalize \<and> \<not> finalizes d then (Done, world st)
      else act d ph (contextFor plan i b) (world st)) = (outcome, w)" by fastforce
  let ?e = "case outcome of Done \<Rightarrow> None | Answered error \<Rightarrow> Some error
    | Raised m \<Rightarrow> Some \<lparr>errorEntrypoint = driver d, errorPhase = ph, errorMessage = m\<rparr>"
  let ?st = "st\<lparr>world := w, calls := calls st @ [callFor b (ph, i) ?e]\<rparr>"
  have "contextOrdinal (contextFor plan i b) = i" "contextAttempt (contextFor plan i b) = b"
    by (simp_all add: contextFor_def)
  then have "invoke drivers (entryAt plan i) ph (contextFor plan i b) st = Some (?e, ?st)"
    using d run by (simp add: invoke_def callFor_def Let_def del: if_split)
  moreover have "viewOf plan ?st rs a f (cs @ [callFor b (ph, i) ?e])"
    using assms(1) by (simp add: viewOf_def)
  ultimately show thesis using that by blast
qed

lemma viewOf_setRun:
  assumes "viewOf plan st rs a f cs"
  obtains st' where "setRun (id' plan) rs' e st = Some st'" and "viewOf plan st' rs' a f cs"
    and "deployment_steps (journalOf st') = deployment_steps (journalOf st)" and "world st' = world st"
  using assms by (auto simp: setRun_def transition_def viewOf_def stepsFit_def stateAt_def)

lemma viewOf_setStep:
  assumes view: "viewOf plan st rs a f cs" and use: "usable drivers plan" and i: "i < length (artifacts plan)"
  obtains st' where "setStep (id' plan) (entryAt plan i) i s st = Some st'"
    and "viewOf plan st' rs a (f(i := Some s)) cs"
proof -
  from view obtain r where r: "map_of (deployment_runs (journalOf st)) (id' plan) = Some r" "attempt r = a" "runState r = rs"
    by (auto simp: viewOf_def)
  let ?j = "(journalOf st)\<lparr>deployment_steps := AList.update (id' plan, a, entryAt plan i)
    \<lparr>ordinal = i, stepState = s, detail = None\<rparr> (deployment_steps (journalOf st))\<rparr>"
  have "setStep (id' plan) (entryAt plan i) i s st = Some (st\<lparr>journalOf := ?j\<rparr>)"
    using r by (simp add: setStep_def recordStep_def load_def)
  moreover have "stepsFit plan ?j"
    using view i by (auto simp: viewOf_def stepsFit_def split: if_splits)
  moreover have "stateAt plan ?j a k = (f(i := Some s)) k" if "k < length (artifacts plan)" for k
    using view use i that distinct_entryAt [of plan k i] by (auto simp: viewOf_def stateAt_def usable_def)
  ultimately show thesis using that view r by (auto simp: viewOf_def)
qed

lemma viewOf_steps:
  assumes view: "viewOf plan st rs a f cs" and use: "usable drivers plan"
  shows "map (\<lambda>s. (ordinal s, stepState s, stepAttempt s, stepEntrypoint s)) (steps (id' plan) (journalOf st))
    = map (\<lambda>i. (i, the (f i), a, entryAt plan i)) (filter (\<lambda>i. f i \<noteq> None) [0..<length (artifacts plan)])"
proof -
  obtain r where r: "load (id' plan) (journalOf st) = Some r" "attempt r = a"
    using viewOf_run [OF view] by blast
  have f: "stateAt plan (journalOf st) a i = f i" if "i \<in> set [0..<length (artifacts plan)]" for i
    using that view by (simp add: viewOf_def)
  have "filter (\<lambda>i. stateAt plan (journalOf st) a i \<noteq> None) [0..<length (artifacts plan)]
      = filter (\<lambda>i. f i \<noteq> None) [0..<length (artifacts plan)]"
    using f by (intro filter_cong) auto
  moreover have "map (\<lambda>i. (i, the (stateAt plan (journalOf st) a i), a, entryAt plan i))
      (filter (\<lambda>i. f i \<noteq> None) [0..<length (artifacts plan)])
    = map (\<lambda>i. (i, the (f i), a, entryAt plan i)) (filter (\<lambda>i. f i \<noteq> None) [0..<length (artifacts plan)])"
    using f by (intro map_cong) auto
  ultimately show ?thesis
    using steps_by_ordinal [of plan "journalOf st" r] view use r by (simp add: viewOf_def usable_def)
qed

text \<open>A list of step records of the current attempt, as the loops over \<open>journal.steps\<close> read it.\<close>

definition fitting :: "DeploymentPlan \<Rightarrow> nat \<Rightarrow> DeploymentStepRecord list \<Rightarrow> bool" where
  "fitting plan a ss \<longleftrightarrow> (\<forall>s \<in> set ss. ordinal s < length (artifacts plan)
     \<and> stepEntrypoint s = entryAt plan (ordinal s) \<and> stepAttempt s = a)"

lemma steps_fitting:
  assumes "viewOf plan st rs a f cs" and "usable drivers plan"
  shows "fitting plan a (steps (id' plan) (journalOf st))"
proof -
  have "(ordinal s, stepState s, stepAttempt s, stepEntrypoint s)
      \<in> set (map (\<lambda>i. (i, the (f i), a, entryAt plan i)) (filter (\<lambda>i. f i \<noteq> None) [0..<length (artifacts plan)]))"
    if "s \<in> set (steps (id' plan) (journalOf st))" for s
    using viewOf_steps [OF assms] that by (metis (no_types, lifting) image_eqI set_map)
  then show ?thesis unfolding fitting_def by fastforce
qed

lemma fitting_mono: "fitting plan a ss \<Longrightarrow> set rs \<subseteq> set ss \<Longrightarrow> fitting plan a rs"
  unfolding fitting_def by blast

subsection \<open>What the loops do\<close>

text \<open>
  Running a script of calls up to its first failure: what was done, what was called, and what the
  steps became.
\<close>

definition ranScript ::
    "DeploymentPlan \<Rightarrow> nat \<Rightarrow> (ReplacementPhase \<times> nat) list \<Rightarrow> (nat \<Rightarrow> DeploymentStepState option) \<Rightarrow> Call list
      \<Rightarrow> ReplacementActionError option \<Rightarrow> 'w engine \<Rightarrow> bool" where
  "ranScript plan a ps f cs failure st \<longleftrightarrow>
     (case failure of
        None \<Rightarrow> (\<exists>rs. viewOf plan st rs a (after f ps) (cs @ map (\<lambda>p. callFor a p None) ps))
      | Some e \<Rightarrow> (\<exists>rs finished p rest. ps = finished @ p # rest
          \<and> viewOf plan st rs a (after f finished) (cs @ map (\<lambda>p. callFor a p None) finished @ [callFor a p (Some e)])))"

lemma ranScript_Nil: "viewOf plan st rs a f cs \<Longrightarrow> ranScript plan a [] f cs None st"
  by (auto simp: ranScript_def)

lemma ranScript_append:
  assumes "ranScript plan a qs (after f ps) (cs @ map (\<lambda>p. callFor a p None) ps) failure st"
  shows "ranScript plan a (ps @ qs) f cs failure st"
proof (cases failure)
  case None
  with assms show ?thesis by (simp add: ranScript_def)
next
  case (Some e)
  with assms obtain rs finished p rest where "qs = finished @ p # rest"
    "viewOf plan st rs a (after f (ps @ finished)) (cs @ map (\<lambda>p. callFor a p None) (ps @ finished) @ [callFor a p (Some e)])"
    by (auto simp: ranScript_def)
  then have "ps @ qs = (ps @ finished) @ p # rest
      \<and> viewOf plan st rs a (after f (ps @ finished)) (cs @ map (\<lambda>p. callFor a p None) (ps @ finished) @ [callFor a p (Some e)])"
    by simp
  then show ?thesis unfolding ranScript_def Some option.case by blast
qed

lemma ranScript_fail_append:
  "ranScript plan a ps f cs (Some e) st \<Longrightarrow> ranScript plan a (ps @ qs) f cs (Some e) st"
  unfolding ranScript_def by force

lemma ranScript_view: "ranScript plan a ps f cs None st \<Longrightarrow>
    \<exists>rs. viewOf plan st rs a (after f ps) (cs @ map (\<lambda>p. callFor a p None) ps)"
  by (simp add: ranScript_def)

lemma runPhase_ran:
  assumes "usable drivers plan" and "viewOf plan st rs a f cs" and "\<forall>i \<in> set is. i < length (artifacts plan)"
    and "state = phaseState ph"
  shows "\<exists>failure st'. runPhase drivers plan a ph state is st = Some (failure, st')
    \<and> ranScript plan a (map (Pair ph) is) f cs failure st'"
  using assms(2,3)
proof (induction "is" arbitrary: st f cs)
  case Nil
  then show ?case using ranScript_Nil by fastforce
next
  case (Cons i "is")
  obtain e st1 where inv: "invoke drivers (entryAt plan i) ph (contextFor plan i a) st = Some (e, st1)"
    and view1: "viewOf plan st1 rs a f (cs @ [callFor a (ph, i) e])"
    using viewOf_invoke [OF Cons.prems(1) assms(1)] Cons.prems(2) by (metis list.set_intros(1))
  show ?case
  proof (cases e)
    case (Some error)
    then have "runPhase drivers plan a ph state (i # is) st = Some (Some error, st1)" using inv by simp
    moreover have "ranScript plan a (map (Pair ph) (i # is)) f cs (Some error) st1"
      unfolding ranScript_def using view1 Some by (auto intro!: exI [of _ rs] exI [of _ "[]"])
    ultimately show ?thesis by blast
  next
    case None
    obtain st2 where set: "setStep (id' plan) (entryAt plan i) i state st1 = Some st2"
      and view2: "viewOf plan st2 rs a (f(i := Some state)) (cs @ [callFor a (ph, i) None])"
      using viewOf_setStep [OF view1 assms(1)] Cons.prems(2) None by (metis list.set_intros(1))
    have "\<forall>i \<in> set is. i < length (artifacts plan)" using Cons.prems(2) by simp
    from Cons.IH [OF view2 this] obtain failure st' where
      run: "runPhase drivers plan a ph state is st2 = Some (failure, st')"
      and ran: "ranScript plan a (map (Pair ph) is) (f(i := Some state)) (cs @ [callFor a (ph, i) None]) failure st'" by blast
    have "ranScript plan a ([(ph, i)] @ map (Pair ph) is) f cs failure st'"
      by (rule ranScript_append) (use ran assms(4) in simp)
    with run set inv None show ?thesis by simp
  qed
qed

lemma runPhases_ran:
  assumes "usable drivers plan" and "viewOf plan st rs a f cs"
    and "\<forall>(_, ph, state) \<in> set phs. state = phaseState ph"
  shows "\<exists>failure st'. runPhases drivers plan a phs st = Some (failure, st')
    \<and> ranScript plan a (concat (map (\<lambda>(_, ph, _). map (Pair ph) [0..<length (artifacts plan)]) phs)) f cs failure st'"
  using assms(2,3)
proof (induction phs arbitrary: st rs f cs)
  case Nil
  then show ?case using ranScript_Nil by fastforce
next
  case (Cons x phs)
  obtain rs' ph state where x: "x = (rs', ph, state)" by (metis prod.collapse)
  let ?row = "map (Pair ph) [0..<length (artifacts plan)]"
  obtain st1 where set: "setRun (id' plan) rs' None st = Some st1" and view1: "viewOf plan st1 rs' a f cs"
    using viewOf_setRun [OF Cons.prems(1)] by metis
  have st: "state = phaseState ph" using Cons.prems(2) x by simp
  obtain failure st2 where run: "runPhase drivers plan a ph state [0..<length (artifacts plan)] st1 = Some (failure, st2)"
    and ran: "ranScript plan a ?row f cs failure st2"
    using runPhase_ran [OF assms(1) view1 _ st, of "[0..<length (artifacts plan)]"] by auto
  show ?case
  proof (cases failure)
    case (Some e)
    with ran have "ranScript plan a (?row @ concat (map (\<lambda>(_, ph, _). map (Pair ph) [0..<length (artifacts plan)]) phs)) f cs (Some e) st2"
      using ranScript_fail_append by blast
    with set run Some x show ?thesis by simp
  next
    case None
    with ran obtain rs2 where view2: "viewOf plan st2 rs2 a (after f ?row) (cs @ map (\<lambda>p. callFor a p None) ?row)"
      using ranScript_view by blast
    from Cons.IH [OF view2] Cons.prems(2) obtain failure' st' where
      run': "runPhases drivers plan a phs st2 = Some (failure', st')"
      and ran': "ranScript plan a (concat (map (\<lambda>(_, ph, _). map (Pair ph) [0..<length (artifacts plan)]) phs))
        (after f ?row) (cs @ map (\<lambda>p. callFor a p None) ?row) failure' st'" by auto
    have "ranScript plan a (?row @ concat (map (\<lambda>(_, ph, _). map (Pair ph) [0..<length (artifacts plan)]) phs)) f cs failure' st'"
      by (rule ranScript_append [OF ran'])
    with set run run' None x show ?thesis by simp
  qed
qed

lemma finalizeAll_ran:
  assumes "usable drivers plan" and "viewOf plan st Finalizing a f cs" and "fitting plan a ss"
  shows "\<exists>res st' failure. finalizeAll drivers plan a ss st = Some (res, st')
    \<and> ranScript plan a (map (\<lambda>s. (Finalize, ordinal s)) (filter (\<lambda>s. stepState s \<noteq> StepFinalized) ss)) f cs failure st'
    \<and> (\<exists>f' cs'. viewOf plan st' Finalizing a f' cs') \<and> (res = Inr () \<longleftrightarrow> failure = None)"
  using assms(2,3)
proof (induction ss arbitrary: st f cs)
  case Nil
  then show ?case using ranScript_Nil by fastforce
next
  case (Cons s ss)
  have s: "ordinal s < length (artifacts plan)" "stepEntrypoint s = entryAt plan (ordinal s)"
    and ss: "fitting plan a ss" using Cons.prems(2) by (auto simp: fitting_def)
  show ?case
  proof (cases "stepState s = StepFinalized")
    case True
    with Cons.IH [OF Cons.prems(1) ss] show ?thesis by simp
  next
    case False
    obtain e st1 where inv: "invoke drivers (entryAt plan (ordinal s)) Finalize (contextFor plan (ordinal s) a) st = Some (e, st1)"
      and view1: "viewOf plan st1 Finalizing a f (cs @ [callFor a (Finalize, ordinal s) e])"
      using viewOf_invoke [OF Cons.prems(1) assms(1) s(1)] by metis
    show ?thesis
    proof (cases e)
      case (Some error)
      obtain st2 where set: "setRun (id' plan) Finalizing (Some (errorMessage error)) st1 = Some st2"
        and view2: "viewOf plan st2 Finalizing a f (cs @ [callFor a (Finalize, ordinal s) e])"
        using viewOf_setRun [OF view1] by metis
      let ?ps = "map (\<lambda>s. (Finalize, ordinal s)) (filter (\<lambda>s. stepState s \<noteq> StepFinalized) (s # ss))"
      have "finalizeAll drivers plan a (s # ss) st
          = Some (Inl (Failed_at (stepEntrypoint s) Finalize (errorMessage error)), st2)"
        using inv set Some False s by simp
      moreover have "ranScript plan a ?ps f cs (Some error) st2"
        unfolding ranScript_def using view2 Some False
        by (auto intro!: exI [of _ Finalizing] exI [of _ "[]"])
      ultimately show ?thesis using view2 by blast
    next
      case None
      obtain st2 where set: "setStep (id' plan) (entryAt plan (ordinal s)) (ordinal s) StepFinalized st1 = Some st2"
        and view2: "viewOf plan st2 Finalizing a (f(ordinal s := Some StepFinalized)) (cs @ [callFor a (Finalize, ordinal s) None])"
        using viewOf_setStep [OF view1 assms(1) s(1)] None by metis
      from Cons.IH [OF view2 ss] obtain res st' failure where
        run: "finalizeAll drivers plan a ss st2 = Some (res, st')"
        and ran: "ranScript plan a (map (\<lambda>s. (Finalize, ordinal s)) (filter (\<lambda>s. stepState s \<noteq> StepFinalized) ss))
          (f(ordinal s := Some StepFinalized)) (cs @ [callFor a (Finalize, ordinal s) None]) failure st'"
        and rest: "\<exists>f' cs'. viewOf plan st' Finalizing a f' cs'" "res = Inr () \<longleftrightarrow> failure = None" by blast
      have "ranScript plan a ([(Finalize, ordinal s)] @ map (\<lambda>s. (Finalize, ordinal s))
          (filter (\<lambda>s. stepState s \<noteq> StepFinalized) ss)) f cs failure st'"
        by (rule ranScript_append) (use ran in simp)
      moreover have "finalizeAll drivers plan a (s # ss) st = Some (res, st')"
        using run set inv None False s by simp
      ultimately show ?thesis using rest False by auto
    qed
  qed
qed

text \<open>Rolling back goes through every step, failures included; recovery stops at a failure.\<close>

lemma rollbackAll_calls:
  assumes "usable drivers plan" and "viewOf plan st rs a f cs" and "fitting plan a ss"
  shows "\<exists>msgs st' fails. rollbackAll drivers plan ss errors st = Some (msgs, st') \<and> length fails = length ss
    \<and> (\<exists>f'. viewOf plan st' rs a f'
        (cs @ map (\<lambda>(s, e). callFor a (Rollback, ordinal s) e) (zip ss fails)))
    \<and> (msgs = [] \<longleftrightarrow> errors = [] \<and> (\<forall>e \<in> set fails. e = None))"
  using assms(2,3)
proof (induction ss arbitrary: st f cs errors)
  case Nil
  then show ?case by auto
next
  case (Cons s ss)
  have s: "ordinal s < length (artifacts plan)" "stepEntrypoint s = entryAt plan (ordinal s)" "stepAttempt s = a"
    and ss: "fitting plan a ss" using Cons.prems(2) by (auto simp: fitting_def)
  obtain e st1 where inv: "invoke drivers (entryAt plan (ordinal s)) Rollback (contextFor plan (ordinal s) a) st = Some (e, st1)"
    and view1: "viewOf plan st1 rs a f (cs @ [callFor a (Rollback, ordinal s) e])"
    using viewOf_invoke [OF Cons.prems(1) assms(1) s(1)] by metis
  show ?case
  proof (cases e)
    case (Some error)
    let ?errors = "errors @ [entrypointText (stepEntrypoint s) @ '': '' @ errorMessage error]"
    from Cons.IH [OF view1 ss, of ?errors] obtain msgs st' fails f' where
      run: "rollbackAll drivers plan ss ?errors st1 = Some (msgs, st')" "length fails = length ss"
      "viewOf plan st' rs a f' ((cs @ [callFor a (Rollback, ordinal s) e])
         @ map (\<lambda>(s, e). callFor a (Rollback, ordinal s) e) (zip ss fails))" "msgs \<noteq> []" by auto
    then have "rollbackAll drivers plan (s # ss) errors st = Some (msgs, st')" using inv Some s by simp
    with run Some show ?thesis by (intro exI [of _ msgs] exI [of _ st'] exI [of _ "e # fails"]) auto
  next
    case None
    obtain st2 where set: "setStep (id' plan) (entryAt plan (ordinal s)) (ordinal s) StepRolledBack st1 = Some st2"
      and view2: "viewOf plan st2 rs a (f(ordinal s := Some StepRolledBack)) (cs @ [callFor a (Rollback, ordinal s) e])"
      using viewOf_setStep [OF view1 assms(1) s(1)] by metis
    from Cons.IH [OF view2 ss, of errors] obtain msgs st' fails f' where
      run: "rollbackAll drivers plan ss errors st2 = Some (msgs, st')" "length fails = length ss"
      "viewOf plan st' rs a f' ((cs @ [callFor a (Rollback, ordinal s) e])
         @ map (\<lambda>(s, e). callFor a (Rollback, ordinal s) e) (zip ss fails))"
      "msgs = [] \<longleftrightarrow> errors = [] \<and> (\<forall>e \<in> set fails. e = None)" by blast
    then have "rollbackAll drivers plan (s # ss) errors st = Some (msgs, st')" using inv None set s by simp
    with run None show ?thesis by (intro exI [of _ msgs] exI [of _ st'] exI [of _ "e # fails"]) auto
  qed
qed

lemma recoverAll_calls:
  assumes "usable drivers plan" and "viewOf plan st rs a f cs" and "fitting plan a ss"
  shows "\<exists>res st' failure. recoverAll drivers plan a ss st = Some (res, st')
    \<and> ranScript plan a (map (\<lambda>s. (Rollback, ordinal s)) ss) f cs failure st' \<and> (res = Inr () \<longleftrightarrow> failure = None)
    \<and> (failure \<noteq> None \<longrightarrow> (\<exists>f' cs'. viewOf plan st' Failed a f' cs'))"
  using assms(2,3)
proof (induction ss arbitrary: st f cs)
  case Nil
  then show ?case using ranScript_Nil by fastforce
next
  case (Cons s ss)
  have s: "ordinal s < length (artifacts plan)" "stepEntrypoint s = entryAt plan (ordinal s)"
    and ss: "fitting plan a ss" using Cons.prems(2) by (auto simp: fitting_def)
  obtain e st1 where inv: "invoke drivers (entryAt plan (ordinal s)) Rollback (contextFor plan (ordinal s) a) st = Some (e, st1)"
    and view1: "viewOf plan st1 rs a f (cs @ [callFor a (Rollback, ordinal s) e])"
    using viewOf_invoke [OF Cons.prems(1) assms(1) s(1)] by metis
  show ?case
  proof (cases e)
    case (Some error)
    obtain st2 where set: "setRun (id' plan) Failed (Some (errorMessage error)) st1 = Some st2"
      and view2: "viewOf plan st2 Failed a f (cs @ [callFor a (Rollback, ordinal s) e])"
      using viewOf_setRun [OF view1] by metis
    have "recoverAll drivers plan a (s # ss) st
        = Some (Inl (Failed_at (stepEntrypoint s) Rollback (errorMessage error)), st2)"
      using inv set Some s by simp
    moreover have "ranScript plan a (map (\<lambda>s. (Rollback, ordinal s)) (s # ss)) f cs (Some error) st2"
      unfolding ranScript_def using view2 Some by (auto intro!: exI [of _ Failed] exI [of _ "[]"])
    ultimately show ?thesis using view2 by blast
  next
    case None
    obtain st2 where set: "setStep (id' plan) (entryAt plan (ordinal s)) (ordinal s) StepRolledBack st1 = Some st2"
      and view2: "viewOf plan st2 rs a (f(ordinal s := Some StepRolledBack)) (cs @ [callFor a (Rollback, ordinal s) None])"
      using viewOf_setStep [OF view1 assms(1) s(1)] None by metis
    from Cons.IH [OF view2 ss] obtain res st' failure where
      run: "recoverAll drivers plan a ss st2 = Some (res, st')"
      and ran: "ranScript plan a (map (\<lambda>s. (Rollback, ordinal s)) ss)
        (f(ordinal s := Some StepRolledBack)) (cs @ [callFor a (Rollback, ordinal s) None]) failure st'"
      and rest: "res = Inr () \<longleftrightarrow> failure = None" "failure \<noteq> None \<longrightarrow> (\<exists>f' cs'. viewOf plan st' Failed a f' cs')" by blast
    have "ranScript plan a ([(Rollback, ordinal s)] @ map (\<lambda>s. (Rollback, ordinal s)) ss) f cs failure st'"
      by (rule ranScript_append) (use ran in simp)
    moreover have "recoverAll drivers plan a (s # ss) st = Some (res, st')"
      using run set inv None s by simp
    ultimately show ?thesis using rest by auto
  qed
qed

subsection \<open>What an execution is meant to do\<close>

text \<open>
  The abstract specification. An attempt runs its script (every artifact through one phase before
  the next phase starts) and ends in one of three ways: everything is committed and finalized; the
  script was completed and finalizing stopped, with nothing rolled back; or a call of the script
  failed, and exactly the artifacts whose staging had succeeded are rolled back, last one first.
\<close>

definition row :: "DeploymentPlan \<Rightarrow> ReplacementPhase \<Rightarrow> (ReplacementPhase \<times> nat) list" where
  "row plan ph = map (Pair ph) [0..<length (artifacts plan)]"

definition script :: "DeploymentPlan \<Rightarrow> (ReplacementPhase \<times> nat) list" where
  "script plan = row plan Drain @ row plan Stage @ row plan Activate @ row plan Health @ row plan Commit"

definition succeeded :: "nat \<Rightarrow> (ReplacementPhase \<times> nat) list \<Rightarrow> Call list" where
  "succeeded a ps = map (\<lambda>p. callFor a p None) ps"

definition rollbacks :: "nat \<Rightarrow> nat list \<Rightarrow> ReplacementActionError option list \<Rightarrow> Call list" where
  "rollbacks a is fails = map (\<lambda>(i, e). callFor a (Rollback, i) e) (zip is fails)"

inductive attemptTrace :: "DeploymentPlan \<Rightarrow> nat \<Rightarrow> DeploymentRunState \<Rightarrow> Call list \<Rightarrow> bool" for plan a where
  committed: "attemptTrace plan a Committed (succeeded a (script plan @ row plan Finalize))"
| unfinished: "row plan Finalize = finished @ p # rest \<Longrightarrow>
    attemptTrace plan a Finalizing (succeeded a (script plan @ finished) @ [callFor a p (Some e)])"
| undone: "script plan = finished @ p # rest \<Longrightarrow>
    is = rev (filter (\<lambda>i. (Stage, i) \<in> set finished) [0..<length (artifacts plan)]) \<Longrightarrow>
    length fails = length is \<Longrightarrow> rs = (if \<forall>x \<in> set fails. x = None then Rolled_back else Failed) \<Longrightarrow>
    attemptTrace plan a rs (succeeded a finished @ [callFor a p (Some e)] @ rollbacks a is fails)"

text \<open>
  A run that exists is resumed by its state: a committed run is left alone, a finalizing one only
  finalizes what is left, a rolled back one is attempted again, and any other first has the staged
  artifacts of its interrupted attempt rolled back, last one first, up to the first failure.
\<close>

definition unfinalized :: "DeploymentPlan \<Rightarrow> (nat \<Rightarrow> DeploymentStepState option) \<Rightarrow> nat list" where
  "unfinalized plan f = filter (\<lambda>i. f i \<noteq> None \<and> f i \<noteq> Some StepFinalized) [0..<length (artifacts plan)]"

definition stagedSteps :: "DeploymentPlan \<Rightarrow> (nat \<Rightarrow> DeploymentStepState option) \<Rightarrow> nat list" where
  "stagedSteps plan f =
     rev (filter (\<lambda>i. f i \<noteq> None \<and> needsRollback (the (f i))) [0..<length (artifacts plan)])"

inductive runTrace :: "DeploymentPlan \<Rightarrow> nat \<Rightarrow> (nat \<Rightarrow> DeploymentStepState option) \<Rightarrow> DeploymentRunState
    \<Rightarrow> DeploymentRunState \<Rightarrow> Call list \<Rightarrow> bool" for plan a f where
  settled: "runTrace plan a f Committed Committed []"
| finalized: "runTrace plan a f Finalizing Committed (succeeded a (map (Pair Finalize) (unfinalized plan f)))"
| stillFinalizing: "map (Pair Finalize) (unfinalized plan f) = finished @ p # rest \<Longrightarrow>
    runTrace plan a f Finalizing Finalizing (succeeded a finished @ [callFor a p (Some e)])"
| fresh: "attemptTrace plan a rs t \<Longrightarrow> runTrace plan a f Planned rs t"
| again: "attemptTrace plan (Suc a) rs t \<Longrightarrow> runTrace plan a f Rolled_back rs t"
| recovered: "rs0 \<notin> {Planned, Rolled_back, Committed, Finalizing} \<Longrightarrow> attemptTrace plan (Suc a) rs t \<Longrightarrow>
    runTrace plan a f rs0 rs (succeeded a (map (Pair Rollback) (stagedSteps plan f)) @ t)"
| stuck: "rs0 \<notin> {Planned, Rolled_back, Committed, Finalizing} \<Longrightarrow>
    map (Pair Rollback) (stagedSteps plan f) = finished @ p # rest \<Longrightarrow>
    runTrace plan a f rs0 Failed (succeeded a finished @ [callFor a p (Some e)])"

inductive_cases runTrace_CommittedE: "runTrace plan a f Committed rs t"
inductive_cases runTrace_FinalizingE: "runTrace plan a f Finalizing rs t"

subsection \<open>The engine implements it\<close>

lemma after_row: "after f (map (Pair ph) is) = (\<lambda>i. if i \<in> set is then Some (phaseState ph) else f i)"
  by (induction "is" arbitrary: f) auto

lemma after_needs:
  "\<forall>p \<in> set ps. needsRollback (phaseState (fst p)) \<Longrightarrow> needsRollback (the (f i)) \<Longrightarrow>
     needsRollback (the (after f ps i))"
  by (induction ps arbitrary: f) auto

lemma script_staged:
  assumes "script plan = finished @ p # rest" and "i < length (artifacts plan)" and "f i = Some StepPending"
  shows "needsRollback (the (after f finished i)) \<longleftrightarrow> (Stage, i) \<in> set finished"
proof -
  let ?n = "length (artifacts plan)"
  let ?D = "row plan Drain" and ?S = "row plan Stage"
  let ?R = "row plan Activate @ row plan Health @ row plan Commit"
  have split: "?D @ (?S @ ?R) = finished @ (p # rest)" using assms(1) by (simp add: script_def)
  from iffD1 [OF append_eq_append_conv2 split]
  consider (drain) us where "?D = finished @ us" | (later) N where "finished = ?D @ N" "?S @ ?R = N @ p # rest"
    by metis
  then show ?thesis
  proof cases
    case drain
    then have "finished = map (Pair Drain) (take (length finished) [0..<?n])"
      by (metis append_eq_conv_conj row_def take_map)
    then obtain js where "finished = map (Pair Drain) js" by blast
    then show ?thesis using assms(3) by (auto simp: after_row needsRollback_def)
  next
    case later
    have drained: "after f ?D i = Some StepDrained" using assms(2) by (simp add: row_def after_row)
    from iffD1 [OF append_eq_append_conv2 later(2)]
    consider (stage) us where "?S = N @ us" | (past) M where "N = ?S @ M" "?R = M @ p # rest"
      by metis
    then show ?thesis
    proof cases
      case stage
      then have "N = map (Pair Stage) (take (length N) [0..<?n])"
        by (metis append_eq_conv_conj row_def take_map)
      then obtain js where js: "N = map (Pair Stage) js" by blast
      have "(Stage, i) \<in> set finished \<longleftrightarrow> i \<in> set js" by (auto simp: later(1) js row_def)
      moreover have "needsRollback (the (after f finished i)) \<longleftrightarrow> i \<in> set js"
        using drained by (simp add: later(1) js after_row needsRollback_def)
      ultimately show ?thesis by simp
    next
      case past
      have "(Stage, i) \<in> set finished" using assms(2) by (simp add: later(1) past(1) row_def)
      moreover have "needsRollback (the (after f finished i))"
      proof -
        have "\<forall>q \<in> set M. needsRollback (phaseState (fst q))"
        proof
          fix q assume "q \<in> set M"
          then have "q \<in> set ?R" by (simp add: past(2))
          then show "needsRollback (phaseState (fst q))" by (auto simp: row_def needsRollback_def)
        qed
        moreover have "needsRollback (the (after (after f ?D) ?S i))"
          using assms(2) by (simp add: row_def after_row needsRollback_def)
        ultimately show ?thesis using after_needs [of M "after (after f ?D) ?S" i] by (simp add: later(1) past(1))
      qed
      ultimately show ?thesis by simp
    qed
  qed
qed

lemma recordPending_view:
  assumes "usable drivers plan" and "viewOf plan st rs a f cs" and "\<forall>i \<in> set is. i < length (artifacts plan)"
  shows "\<exists>st' f'. recordPending plan is st = Some st' \<and> viewOf plan st' rs a f' cs
    \<and> (\<forall>i. f' i = (if i \<in> set is then Some StepPending else f i))"
  using assms(2,3)
proof (induction "is" arbitrary: st f)
  case (Cons i "is")
  obtain st1 where set: "setStep (id' plan) (entryAt plan i) i StepPending st = Some st1"
    and view1: "viewOf plan st1 rs a (f(i := Some StepPending)) cs"
    using viewOf_setStep [OF Cons.prems(1) assms(1)] Cons.prems(2) by (metis list.set_intros(1))
  have "\<forall>k \<in> set is. k < length (artifacts plan)" using Cons.prems(2) by simp
  from Cons.IH [OF view1 this] obtain st' f' where "recordPending plan is st1 = Some st'"
    "viewOf plan st' rs a f' cs" "\<forall>k. f' k = (if k \<in> set is then Some StepPending else (f(i := Some StepPending)) k)"
    by blast
  moreover from this(1) set have "recordPending plan (i # is) st = Some st'" by simp
  moreover have "\<forall>k. f' k = (if k \<in> set (i # is) then Some StepPending else f k)"
    using calculation(3) by auto
  ultimately show ?case by blast
qed auto

lemma steps_ordinals:
  assumes "viewOf plan st rs a f cs" and "usable drivers plan"
  shows "map ordinal (filter (\<lambda>s. P (stepState s)) (steps (id' plan) (journalOf st)))
    = filter (\<lambda>i. f i \<noteq> None \<and> P (the (f i))) [0..<length (artifacts plan)]"
proof -
  let ?ss = "steps (id' plan) (journalOf st)"
  let ?q = "\<lambda>(i :: nat, s, a :: nat, e :: EntrypointId). P s"
  have "map ordinal (filter (\<lambda>s. P (stepState s)) ?ss)
      = map fst (filter ?q (map (\<lambda>s. (ordinal s, stepState s, stepAttempt s, stepEntrypoint s)) ?ss))"
    by (simp add: filter_map comp_def)
  also have "\<dots> = map fst (filter ?q (map (\<lambda>i. (i, the (f i), a, entryAt plan i))
      (filter (\<lambda>i. f i \<noteq> None) [0..<length (artifacts plan)])))"
    by (simp only: viewOf_steps [OF assms])
  also have "\<dots> = filter (\<lambda>i. f i \<noteq> None \<and> P (the (f i))) [0..<length (artifacts plan)]"
    by (simp add: filter_map comp_def conj_commute)
  finally show ?thesis .
qed

lemma toRollBack_ordinals:
  assumes "viewOf plan st rs a f cs" and "usable drivers plan"
  shows "map ordinal (toRollBack (id' plan) (journalOf st)) = stagedSteps plan f"
  using steps_ordinals [OF assms, of needsRollback] by (simp add: toRollBack_def stagedSteps_def rev_map [symmetric])

lemma toRollBack_fitting:
  assumes "viewOf plan st rs a f cs" and "usable drivers plan"
  shows "fitting plan a (toRollBack (id' plan) (journalOf st))"
  by (rule fitting_mono [OF steps_fitting [OF assms]]) (auto simp: toRollBack_def)

lemma finalize_ran:
  assumes use: "usable drivers plan" and view: "viewOf plan st Finalizing a f cs"
    and run: "attempt run = a"
  shows "\<exists>res st'. finalize drivers plan run st = Some (res, st') \<and>
    ((\<exists>r f'. res = Inr r \<and> viewOf plan st' Committed a f' (cs @ succeeded a (map (Pair Finalize) (unfinalized plan f))))
     \<or> (\<exists>e finished p rest err f'. res = Inl err \<and> map (Pair Finalize) (unfinalized plan f) = finished @ p # rest
          \<and> viewOf plan st' Finalizing a f' (cs @ succeeded a finished @ [callFor a p (Some e)])))"
proof -
  let ?ss = "steps (id' plan) (journalOf st)"
  let ?ps = "map (\<lambda>s. (Finalize, ordinal s)) (filter (\<lambda>s. stepState s \<noteq> StepFinalized) ?ss)"
  have "map ordinal (filter (\<lambda>s. stepState s \<noteq> StepFinalized) ?ss) = unfinalized plan f"
    using steps_ordinals [OF view use, of "\<lambda>s. s \<noteq> StepFinalized"]
    by (simp add: unfinalized_def) (intro filter_cong; auto)
  moreover have "?ps = map (Pair Finalize) (map ordinal (filter (\<lambda>s. stepState s \<noteq> StepFinalized) ?ss))" by simp
  ultimately have ps: "?ps = map (Pair Finalize) (unfinalized plan f)" by (simp only:)
  obtain res st1 failure where all: "finalizeAll drivers plan a ?ss st = Some (res, st1)"
    and ran: "ranScript plan a ?ps f cs failure st1" and view1: "\<exists>f' cs'. viewOf plan st1 Finalizing a f' cs'"
    and res: "res = Inr () \<longleftrightarrow> failure = None"
    using finalizeAll_ran [OF use view steps_fitting [OF view use]] by blast
  show ?thesis
  proof (cases failure)
    case None
    with ran view1 have view2: "viewOf plan st1 Finalizing a (after f ?ps) (cs @ succeeded a ?ps)"
      by (auto simp: ranScript_def succeeded_def viewOf_def)
    obtain st2 where set: "setRun (id' plan) Committed None st1 = Some st2"
      and view3: "viewOf plan st2 Committed a (after f ?ps) (cs @ succeeded a ?ps)"
      using viewOf_setRun [OF view2] by metis
    obtain r where "load (id' plan) (journalOf st2) = Some r" using viewOf_run [OF view3] by blast
    with all set None res run have "finalize drivers plan run st = Some (Inr r, st2)"
      by (simp add: finalize_def)
    with view3 ps show ?thesis by auto
  next
    case (Some e)
    with ran obtain rs finished p rest where split: "?ps = finished @ p # rest"
      and view2: "viewOf plan st1 rs a (after f finished) (cs @ succeeded a finished @ [callFor a p (Some e)])"
      by (auto simp: ranScript_def succeeded_def)
    have "rs = Finalizing" using view1 view2 by (auto simp: viewOf_def)
    obtain err where "res = Inl err" using res Some by (cases res) auto
    with all run have "finalize drivers plan run st = Some (Inl err, st1)" by (simp add: finalize_def)
    moreover have "map (Pair Finalize) (unfinalized plan f) = finished @ p # rest" using split ps by simp
    ultimately show ?thesis using view2 unfolding \<open>rs = Finalizing\<close> by blast
  qed
qed

definition answersRun :: "(DeploymentExecutionError + RunRow) \<Rightarrow> bool" where
  "answersRun res = (case res of Inr _ \<Rightarrow> True | Inl _ \<Rightarrow> False)"

text \<open>
  The result of a part of an execution: it returns, the run ends in a state, a trace of calls was
  added, and the answer is the run exactly when it is committed.
\<close>

definition endsIn ::
    "DeploymentPlan \<Rightarrow> ((DeploymentExecutionError + RunRow) \<times> 'w engine) option \<Rightarrow> Call list
      \<Rightarrow> DeploymentRunState \<Rightarrow> Call list \<Rightarrow> bool" where
  "endsIn plan outcome cs rs trace \<longleftrightarrow>
     (\<exists>res st' a f. outcome = Some (res, st') \<and> viewOf plan st' rs a f (cs @ trace)
        \<and> (answersRun res \<longleftrightarrow> rs = Committed))"

lemma endsIn_Inl:
  "viewOf plan st' rs a f (cs @ trace) \<Longrightarrow> rs \<noteq> Committed \<Longrightarrow> endsIn plan (Some (Inl e, st')) cs rs trace"
  by (auto simp: endsIn_def answersRun_def)

lemma endsIn_Inr:
  "viewOf plan st' Committed a f (cs @ trace) \<Longrightarrow> endsIn plan (Some (Inr r, st')) cs Committed trace"
  by (auto simp: endsIn_def answersRun_def)

lemma endsIn_more: "endsIn plan outcome (cs @ before) rs trace \<Longrightarrow> endsIn plan outcome cs rs (before @ trace)"
  by (simp add: endsIn_def)

lemma failAndRollback_ends:
  assumes use: "usable drivers plan" and view: "viewOf plan st rs a f cs"
  shows "\<exists>fails. length fails = length (stagedSteps plan f)
    \<and> endsIn plan (failAndRollback drivers plan error st) cs
        (if \<forall>x \<in> set fails. x = None then Rolled_back else Failed) (rollbacks a (stagedSteps plan f) fails)"
proof -
  obtain st1 where set: "setRun (id' plan) Rolling_back (Some (errorMessage error)) st = Some st1"
    and view1: "viewOf plan st1 Rolling_back a f cs" using viewOf_setRun [OF view] by metis
  let ?ss = "toRollBack (id' plan) (journalOf st1)"
  note ords = toRollBack_ordinals [OF view1 use]
  obtain msgs st2 fails f' where all: "rollbackAll drivers plan ?ss [] st1 = Some (msgs, st2)"
    and len: "length fails = length ?ss"
    and view2: "viewOf plan st2 Rolling_back a f' (cs @ map (\<lambda>(s, e). callFor a (Rollback, ordinal s) e) (zip ?ss fails))"
    and "msgs = [] \<longleftrightarrow> ([] :: string list) = [] \<and> (\<forall>e \<in> set fails. e = None)"
    using rollbackAll_calls [OF use view1 toRollBack_fitting [OF view1 use], of "[]"] by blast
  then have msgs: "msgs = [] \<longleftrightarrow> (\<forall>e \<in> set fails. e = None)" by simp
  have "map (\<lambda>(s, e). callFor a (Rollback, ordinal s) e) (zip ?ss fails) = rollbacks a (map ordinal ?ss) fails"
    by (simp add: rollbacks_def zip_map1 case_prod_beta comp_def)
  then have calls2: "map (\<lambda>(s, e). callFor a (Rollback, ordinal s) e) (zip ?ss fails)
      = rollbacks a (stagedSteps plan f) fails" by (simp only: ords)
  let ?m = "if msgs = [] then errorMessage error
    else errorMessage error @ ''; rollback errors: '' @ joinWith ''; '' msgs"
  let ?rs = "if msgs = [] then Rolled_back else Failed"
  obtain st3 where set3: "setRun (id' plan) ?rs (Some ?m) st2 = Some st3"
    and view3: "viewOf plan st3 ?rs a f' (cs @ rollbacks a (stagedSteps plan f) fails)"
    using viewOf_setRun [OF view2 [unfolded calls2]] by metis
  have fin: "failAndRollback drivers plan error st
      = Some (Inl (Failed_at (errorEntrypoint error) (errorPhase error) ?m), st3)"
    using set all set3 by (simp add: failAndRollback_def Let_def)
  have ends: "endsIn plan (failAndRollback drivers plan error st) cs ?rs (rollbacks a (stagedSteps plan f) fails)"
    unfolding fin by (rule endsIn_Inl [OF view3]) simp
  have rs: "?rs = (if \<forall>x \<in> set fails. x = None then Rolled_back else Failed)" by (simp only: msgs)
  have "length fails = length (stagedSteps plan f)" using len ords by (metis length_map)
  then show ?thesis using ends [unfolded rs] by (intro exI [of _ fails] conjI)
qed

lemma phases_row:
  "concat (map (\<lambda>(_, ph, _). map (Pair ph) [0..<length (artifacts plan)]) phases)
     = row plan Drain @ row plan Stage @ row plan Activate @ row plan Health"
  by (simp add: phases_def row_def)

lemma runAttempt_ends:
  assumes use: "usable drivers plan" and view: "viewOf plan st Planned a f cs"
  shows "\<exists>rs trace. attemptTrace plan a rs trace \<and> endsIn plan (runAttempt drivers plan a st) cs rs trace"
proof -
  let ?n = "length (artifacts plan)"
  let ?early = "row plan Drain @ row plan Stage @ row plan Activate @ row plan Health"
  obtain st0 f0 where pending: "recordPending plan [0..<?n] st = Some st0" and view0: "viewOf plan st0 Planned a f0 cs"
    and f0: "\<And>i. i < ?n \<Longrightarrow> f0 i = Some StepPending"
    using recordPending_view [OF use view, of "[0..<?n]"] by auto
  obtain failure st1 where early: "runPhases drivers plan a phases st0 = Some (failure, st1)"
    and ran: "ranScript plan a ?early f0 cs failure st1"
    using runPhases_ran [OF use view0, of phases] unfolding phases_row by (auto simp: phases_def)
  have undo: "\<exists>rs trace. attemptTrace plan a rs trace \<and> endsIn plan (failAndRollback drivers plan e st') cs rs trace"
    if ran': "ranScript plan a (script plan) f0 cs (Some e) st'" for e st'
  proof -
    obtain rs finished p rest where split: "script plan = finished @ p # rest"
      and view': "viewOf plan st' rs a (after f0 finished) (cs @ succeeded a finished @ [callFor a p (Some e)])"
      using ran' by (auto simp: ranScript_def succeeded_def)
    have "after f0 finished i \<noteq> None" if "i < ?n" for i
    proof -
      have "g i \<noteq> None \<Longrightarrow> after g ps i \<noteq> None" for g ps
        by (induction ps arbitrary: g) (auto simp: fun_upd_def)
      with f0 [OF that] show ?thesis by simp
    qed
    then have "after f0 finished i \<noteq> None \<and> needsRollback (the (after f0 finished i)) \<longleftrightarrow> (Stage, i) \<in> set finished"
      if "i < ?n" for i using script_staged [where f = f0, OF split that] f0 [OF that] that by simp
    then have staged: "stagedSteps plan (after f0 finished) = rev (filter (\<lambda>i. (Stage, i) \<in> set finished) [0..<?n])"
      unfolding stagedSteps_def by (intro arg_cong [of _ _ rev] filter_cong) simp_all
    obtain fails where len: "length fails = length (stagedSteps plan (after f0 finished))"
      and ends: "endsIn plan (failAndRollback drivers plan e st') (cs @ succeeded a finished @ [callFor a p (Some e)])
        (if \<forall>x \<in> set fails. x = None then Rolled_back else Failed) (rollbacks a (stagedSteps plan (after f0 finished)) fails)"
      using failAndRollback_ends [OF use view'] by blast
    let ?trace = "succeeded a finished @ [callFor a p (Some e)] @ rollbacks a (stagedSteps plan (after f0 finished)) fails"
    have "attemptTrace plan a (if \<forall>x \<in> set fails. x = None then Rolled_back else Failed) ?trace"
      by (rule attemptTrace.undone [OF split staged len refl])
    moreover have "endsIn plan (failAndRollback drivers plan e st') cs
        (if \<forall>x \<in> set fails. x = None then Rolled_back else Failed) ?trace"
      using ends by (simp add: endsIn_def)
    ultimately show ?thesis by blast
  qed
  have all: "?early @ row plan Commit = script plan" by (simp add: script_def)
  show ?thesis
  proof (cases failure)
    case (Some e)
    with ran have "ranScript plan a (?early @ row plan Commit) f0 cs (Some e) st1"
      using ranScript_fail_append by blast
    from undo [OF this [unfolded all]] pending early Some show ?thesis by (simp add: runAttempt_def)
  next
    case None
    with ran obtain rs where view1: "viewOf plan st1 rs a (after f0 ?early) (cs @ map (\<lambda>p. callFor a p None) ?early)"
      using ranScript_view by blast
    obtain failure' st2 where
      late: "runPhase drivers plan a Commit StepCommitted [0..<?n] st1 = Some (failure', st2)"
      and ran': "ranScript plan a (row plan Commit) (after f0 ?early) (cs @ map (\<lambda>p. callFor a p None) ?early) failure' st2"
      using runPhase_ran [OF use view1, of "[0..<?n]" StepCommitted Commit] by (auto simp: row_def)
    have ran2: "ranScript plan a (script plan) f0 cs failure' st2"
      using ranScript_append [OF ran'] unfolding all .
    show ?thesis
    proof (cases failure')
      case (Some e)
      from undo [OF ran2 [unfolded Some]] pending early late None Some show ?thesis by (simp add: runAttempt_def)
    next
      case committed: None
      from ranScript_view [OF ran2 [unfolded committed]] obtain rs2 where
        view2: "viewOf plan st2 rs2 a (after f0 (script plan)) (cs @ succeeded a (script plan))"
        by (auto simp: succeeded_def)
      obtain st3 where set: "setRun (id' plan) Finalizing None st2 = Some st3"
        and view3: "viewOf plan st3 Finalizing a (after f0 (script plan)) (cs @ succeeded a (script plan))"
        using viewOf_setRun [OF view2] by metis
      obtain r where r: "load (id' plan) (journalOf st3) = Some r" "attempt r = a" using viewOf_run [OF view3] by blast
      have "after f0 (script plan) i = Some StepCommitted" if "i < ?n" for i
        using that by (simp add: script_def row_def after_row)
      then have todo: "map (Pair Finalize) (unfinalized plan (after f0 (script plan))) = row plan Finalize"
        by (simp add: unfinalized_def row_def)
      have run: "runAttempt drivers plan a st = finalize drivers plan r st3"
        using pending early late None committed set r by (simp add: runAttempt_def)
      from finalize_ran [OF use view3 r(2)] obtain res st4 where
        fin: "finalize drivers plan r st3 = Some (res, st4)" and
        cases: "(\<exists>r f'. res = Inr r \<and> viewOf plan st4 Committed a f' ((cs @ succeeded a (script plan)) @ succeeded a (row plan Finalize)))
          \<or> (\<exists>e finished p rest err f'. res = Inl err \<and> row plan Finalize = finished @ p # rest
            \<and> viewOf plan st4 Finalizing a f' ((cs @ succeeded a (script plan)) @ succeeded a finished @ [callFor a p (Some e)]))"
        unfolding todo by blast
      from cases show ?thesis
      proof (elim disjE exE conjE)
        fix r' f' assume "res = Inr r'"
          and "viewOf plan st4 Committed a f' ((cs @ succeeded a (script plan)) @ succeeded a (row plan Finalize))"
        then have "endsIn plan (runAttempt drivers plan a st) cs Committed (succeeded a (script plan @ row plan Finalize))"
          using run fin by (auto simp: endsIn_def answersRun_def succeeded_def)
        then show ?thesis using attemptTrace.committed by blast
      next
        fix e finished p rest err f' assume res: "res = Inl err" and split: "row plan Finalize = finished @ p # rest"
          and v: "viewOf plan st4 Finalizing a f' ((cs @ succeeded a (script plan)) @ succeeded a finished @ [callFor a p (Some e)])"
        then have "endsIn plan (runAttempt drivers plan a st) cs Finalizing
            (succeeded a (script plan @ finished) @ [callFor a p (Some e)])"
          using run fin by (auto simp: endsIn_def answersRun_def succeeded_def)
        then show ?thesis using attemptTrace.unfinished [OF split] by blast
      qed
    qed
  qed
qed

lemma viewOf_restart:
  assumes "viewOf plan st rs a f cs"
  obtains st' f' where "restartRun (id' plan) st = Some st'" and "viewOf plan st' Planned (Suc a) f' cs"
  using assms that [of _ "stateAt plan (journalOf st) (Suc a)"]
  by (auto simp: restartRun_def restart_def viewOf_def stepsFit_def stateAt_def)

lemma startAttempt_ends:
  assumes use: "usable drivers plan" and view: "viewOf plan st Planned a f cs"
  shows "\<exists>rs trace. attemptTrace plan a rs trace \<and> endsIn plan (startAttempt drivers plan st) cs rs trace"
proof -
  obtain r where "load (id' plan) (journalOf st) = Some r" "attempt r = a" using viewOf_run [OF view] by blast
  then have "startAttempt drivers plan st = runAttempt drivers plan a st" by (simp add: startAttempt_def)
  with runAttempt_ends [OF use view] show ?thesis by simp
qed

lemma restart_ends:
  assumes use: "usable drivers plan" and view: "viewOf plan st rs0 a f cs"
  shows "\<exists>rs trace. attemptTrace plan (Suc a) rs trace
    \<and> endsIn plan (Option.bind (restartRun (id' plan) st) (startAttempt drivers plan)) cs rs trace"
proof -
  obtain st' f' where "restartRun (id' plan) st = Some st'" "viewOf plan st' Planned (Suc a) f' cs"
    using viewOf_restart [OF view] by blast
  with startAttempt_ends [OF use] show ?thesis by fastforce
qed

lemma recovery_ran:
  assumes use: "usable drivers plan" and view: "viewOf plan st rs0 a f cs" and run: "attempt run = a"
  shows "\<exists>res st'. rollbackRecordedAttempt drivers plan run st = Some (res, st') \<and>
    ((\<exists>f'. res = Inr () \<and> viewOf plan st' Rolled_back a f' (cs @ succeeded a (map (Pair Rollback) (stagedSteps plan f))))
     \<or> (\<exists>err e finished p rest f'. res = Inl err \<and> map (Pair Rollback) (stagedSteps plan f) = finished @ p # rest
          \<and> viewOf plan st' Failed a f' (cs @ succeeded a finished @ [callFor a p (Some e)])))"
proof -
  let ?m = "''Recovering interrupted deployment attempt''"
  obtain st1 where set: "setRun (id' plan) Rolling_back (Some ?m) st = Some st1"
    and view1: "viewOf plan st1 Rolling_back a f cs" using viewOf_setRun [OF view] by metis
  let ?ss = "toRollBack (id' plan) (journalOf st1)"
  let ?ps = "map (\<lambda>s. (Rollback, ordinal s)) ?ss"
  have "?ps = map (Pair Rollback) (map ordinal ?ss)" by simp
  then have ps: "?ps = map (Pair Rollback) (stagedSteps plan f)" by (simp only: toRollBack_ordinals [OF view1 use])
  obtain res st2 failure where all: "recoverAll drivers plan a ?ss st1 = Some (res, st2)"
    and ran: "ranScript plan a ?ps f cs failure st2" and res: "res = Inr () \<longleftrightarrow> failure = None"
    and failed: "failure \<noteq> None \<longrightarrow> (\<exists>f' cs'. viewOf plan st2 Failed a f' cs')"
    using recoverAll_calls [OF use view1 toRollBack_fitting [OF view1 use]] by blast
  show ?thesis
  proof (cases failure)
    case None
    with ran obtain rs where view2: "viewOf plan st2 rs a (after f ?ps) (cs @ succeeded a ?ps)"
      by (auto simp: ranScript_def succeeded_def)
    obtain st3 where set3: "setRun (id' plan) Rolled_back None st2 = Some st3"
      and view3: "viewOf plan st3 Rolled_back a (after f ?ps) (cs @ succeeded a ?ps)"
      using viewOf_setRun [OF view2] by metis
    have "rollbackRecordedAttempt drivers plan run st = Some (Inr (), st3)"
      using set all set3 None res run by (simp add: rollbackRecordedAttempt_def)
    then show ?thesis using view3 [unfolded ps] by blast
  next
    case (Some e)
    with ran obtain rs finished p rest where split: "?ps = finished @ p # rest"
      and view2: "viewOf plan st2 rs a (after f finished) (cs @ succeeded a finished @ [callFor a p (Some e)])"
      by (auto simp: ranScript_def succeeded_def)
    have rs: "rs = Failed" using failed Some view2 by (auto simp: viewOf_def)
    obtain err where "res = Inl err" using res Some by (cases res) auto
    with set all run have "rollbackRecordedAttempt drivers plan run st = Some (Inl err, st2)"
      by (simp add: rollbackRecordedAttempt_def)
    moreover have "map (Pair Rollback) (stagedSteps plan f) = finished @ p # rest" using split ps by simp
    ultimately show ?thesis using view2 unfolding rs by blast
  qed
qed

lemma resumeRun_ends:
  assumes use: "usable drivers plan" and view: "viewOf plan st rs0 a f cs"
    and run: "attempt run = a" "runState run = rs0"
  shows "\<exists>rs trace. runTrace plan a f rs0 rs trace \<and> endsIn plan (resumeRun drivers plan run st) cs rs trace"
proof -
  consider "rs0 = Committed" | "rs0 = Finalizing" | "rs0 = Planned" | "rs0 = Rolled_back"
    | (interrupted) "rs0 \<notin> {Planned, Rolled_back, Committed, Finalizing}" by blast
  then show ?thesis
  proof cases
    case 1
    then have "endsIn plan (resumeRun drivers plan run st) cs Committed []"
      using view run endsIn_Inr [of plan st a f cs "[]" run] by (simp add: resumeRun_def)
    with 1 runTrace.settled show ?thesis by blast
  next
    case 2
    then have step: "resumeRun drivers plan run st = finalize drivers plan run st" by (simp add: resumeRun_def run)
    from finalize_ran [OF use view [unfolded 2] run(1)] obtain res st' where
      fin: "finalize drivers plan run st = Some (res, st')" and
      cases: "(\<exists>r f'. res = Inr r \<and> viewOf plan st' Committed a f' (cs @ succeeded a (map (Pair Finalize) (unfinalized plan f))))
        \<or> (\<exists>e finished p rest err f'. res = Inl err \<and> map (Pair Finalize) (unfinalized plan f) = finished @ p # rest
          \<and> viewOf plan st' Finalizing a f' (cs @ succeeded a finished @ [callFor a p (Some e)]))" by blast
    from cases show ?thesis
    proof (elim disjE exE conjE)
      fix r f' assume "res = Inr r"
        and "viewOf plan st' Committed a f' (cs @ succeeded a (map (Pair Finalize) (unfinalized plan f)))"
      then have "endsIn plan (resumeRun drivers plan run st) cs Committed (succeeded a (map (Pair Finalize) (unfinalized plan f)))"
        unfolding step fin using endsIn_Inr by blast
      with 2 runTrace.finalized show ?thesis by blast
    next
      fix e finished p rest err f' assume "res = Inl err"
        and split: "map (Pair Finalize) (unfinalized plan f) = finished @ p # rest"
        and "viewOf plan st' Finalizing a f' (cs @ succeeded a finished @ [callFor a p (Some e)])"
      then have "endsIn plan (resumeRun drivers plan run st) cs Finalizing (succeeded a finished @ [callFor a p (Some e)])"
        unfolding step fin using endsIn_Inl by blast
      with 2 runTrace.stillFinalizing [OF split] show ?thesis by blast
    qed
  next
    case 3
    then have "resumeRun drivers plan run st = startAttempt drivers plan st" by (simp add: resumeRun_def run)
    with startAttempt_ends [OF use view [unfolded 3]] 3 runTrace.fresh show ?thesis by metis
  next
    case 4
    then have "resumeRun drivers plan run st = Option.bind (restartRun (id' plan) st) (startAttempt drivers plan)"
      by (simp add: resumeRun_def run)
    with restart_ends [OF use view] 4 runTrace.again show ?thesis by metis
  next
    case interrupted
    from recovery_ran [OF use view run(1)] obtain res st' where
      rec: "rollbackRecordedAttempt drivers plan run st = Some (res, st')" and
      cases: "(\<exists>f'. res = Inr () \<and> viewOf plan st' Rolled_back a f' (cs @ succeeded a (map (Pair Rollback) (stagedSteps plan f))))
       \<or> (\<exists>err e finished p rest f'. res = Inl err \<and> map (Pair Rollback) (stagedSteps plan f) = finished @ p # rest
          \<and> viewOf plan st' Failed a f' (cs @ succeeded a finished @ [callFor a p (Some e)]))" by blast
    from cases show ?thesis
    proof (elim disjE exE conjE)
      fix f' assume "res = Inr ()"
        and view': "viewOf plan st' Rolled_back a f' (cs @ succeeded a (map (Pair Rollback) (stagedSteps plan f)))"
      then have "resumeRun drivers plan run st = Option.bind (restartRun (id' plan) st') (startAttempt drivers plan)"
        using interrupted rec run(2) by (simp add: resumeRun_def)
      with restart_ends [OF use view'] obtain rs trace where "attemptTrace plan (Suc a) rs trace"
        "endsIn plan (resumeRun drivers plan run st) (cs @ succeeded a (map (Pair Rollback) (stagedSteps plan f))) rs trace"
        by metis
      with runTrace.recovered [OF interrupted] endsIn_more show ?thesis by blast
    next
      fix err e finished p rest f' assume res: "res = Inl err"
        and split: "map (Pair Rollback) (stagedSteps plan f) = finished @ p # rest"
        and view': "viewOf plan st' Failed a f' (cs @ succeeded a finished @ [callFor a p (Some e)])"
      have "resumeRun drivers plan run st = Some (Inl err, st')"
        using interrupted rec run(2) res by (simp add: resumeRun_def)
      then have "endsIn plan (resumeRun drivers plan run st) cs Failed (succeeded a finished @ [callFor a p (Some e)])"
        using endsIn_Inl [OF view'] by simp
      with runTrace.stuck [OF interrupted split] show ?thesis by blast
    qed
  qed
qed

subsection \<open>What an execution promises\<close>

text \<open>A plan the engine accepts: verified, with a driver for every artifact, no entrypoint twice.\<close>

definition accepted ::
    "'w drivers \<Rightarrow> (DeploymentPlan \<Rightarrow> InvalidDeploymentPlan + DeploymentPlan) \<Rightarrow> DeploymentPlan \<Rightarrow> bool" where
  "accepted drivers verified plan \<longleftrightarrow>
     verified plan = Inr plan \<and> usable drivers plan"

lemma execute_accepted:
  assumes "accepted drivers verified plan"
  shows "execute drivers verified plan st =
     (case begin_run plan (journalOf st) of
        (None, j) \<Rightarrow> Some (Inl JournalConflict, st\<lparr>journalOf := j\<rparr>)
      | (Some run, j) \<Rightarrow> resumeRun drivers plan run (st\<lparr>journalOf := j\<rparr>))"
proof -
  have "map_of drivers (entrypoint a) \<noteq> None" if "a \<in> set (artifacts plan)" for a
    using assms that by (metis accepted_def usable_def entryAt_def in_set_conv_nth)
  then have "List.find (\<lambda>a. map_of drivers (entrypoint a) = None) (artifacts plan) = None"
    by (auto simp: find_None_iff)
  with assms show ?thesis by (simp add: execute_def accepted_def)
qed

lemma execute_new:
  assumes "accepted drivers verified plan" and "stepsFit plan (journalOf st)"
    and "map_of (deployment_runs (journalOf st)) (id' plan) = None"
  shows "\<exists>rs trace. attemptTrace plan 1 rs trace
    \<and> endsIn plan (execute drivers verified plan st) (calls st) rs trace"
proof -
  let ?row = "\<lparr>runPlanHash = planHash plan, runPlan = plan, runState = Planned, attempt = 1, runError = None\<rparr>"
  let ?j = "(journalOf st)\<lparr>deployment_runs := deployment_runs (journalOf st) @ [(id' plan, ?row)]\<rparr>"
  have begun: "begin_run plan (journalOf st) = (Some ?row, ?j)"
    using assms(3) by (simp add: begin_run_def load_def Let_def)
  have "id' plan \<notin> fst ` set (deployment_runs (journalOf st))" using assms(3) by (simp add: map_of_eq_None_iff)
  then have "stepsFit plan ?j" using assms(2) by (auto simp: stepsFit_def)
  then have view: "viewOf plan (st\<lparr>journalOf := ?j\<rparr>) Planned 1 (stateAt plan ?j 1) (calls st)"
    using assms(3) by (simp add: viewOf_def map_add_def)
  have use: "usable drivers plan" using assms(1) by (simp add: accepted_def)
  from startAttempt_ends [OF use view] show ?thesis
    unfolding execute_accepted [OF assms(1)] begun by (simp add: resumeRun_def)
qed

text \<open>
  C25. The engine implements its specification on a new deployment: for an accepted plan whose run
  is not in the journal, execution returns, and the calls it made are an attempt in the sense of
  \<open>attemptTrace\<close>: in script order; finalized only after every commit; on a failed call, exactly
  the artifacts whose staging succeeded are rolled back, last one first, and the run ends rolled
  back, or failed when a rollback failed. It answers the run exactly when it is committed.
\<close>

theorem execute_new_run:
  assumes "accepted drivers verified plan" and "stepsFit plan (journalOf st)"
    and "map_of (deployment_runs (journalOf st)) (id' plan) = None"
  shows "\<exists>rs trace. attemptTrace plan 1 rs trace
    \<and> endsIn plan (execute drivers verified plan st) (calls st) rs trace"
  using assms by (rule execute_new)

text \<open>
  C36. A run that is in the journal is resumed by its recorded state, whatever the interruption was:
  committed, it is answered without a call; finalizing, the steps not yet finalized are finalized
  and nothing is rolled back; rolled back, it is attempted again; in between, every step recorded
  as staged or later is first rolled back, last one first, and only when that succeeded the next
  attempt starts.
\<close>

theorem execute_resumed_run:
  assumes "accepted drivers verified plan" and "stepsFit plan (journalOf st)"
    and "map_of (deployment_runs (journalOf st)) (id' plan) = Some run" and "runPlanHash run = planHash plan"
  shows "\<exists>rs trace. runTrace plan (attempt run) (stateAt plan (journalOf st) (attempt run)) (runState run) rs trace
    \<and> endsIn plan (execute drivers verified plan st) (calls st) rs trace"
proof -
  let ?run = "run\<lparr>runError := nonEmpty (runError run)\<rparr>"
  have begun: "begin_run plan (journalOf st) = (Some ?run, journalOf st)"
    using assms(3,4) by (simp add: begin_run_def load_def)
  have view: "viewOf plan st (runState run) (attempt run) (stateAt plan (journalOf st) (attempt run)) (calls st)"
    using assms(2,3) by (simp add: viewOf_def)
  have use: "usable drivers plan" using assms(1) by (simp add: accepted_def)
  from resumeRun_ends [OF use view, of ?run] show ?thesis
    unfolding execute_accepted [OF assms(1)] begun by simp
qed

lemma succeeded_set: "callFor a p e \<in> set (succeeded b ps) \<longleftrightarrow> a = b \<and> e = None \<and> p \<in> set ps"
  by (auto simp: succeeded_def callFor_def prod_eq_iff image_iff)

lemma attemptTrace_decided:
  assumes "attemptTrace plan a rs trace" and "c \<in> set trace" and "callPhase c = Finalize"
  shows "(\<forall>i < length (artifacts plan). callFor a (Commit, i) None \<in> set trace) \<and> Rollback \<notin> callPhase ` set trace"
  using assms
proof (cases rule: attemptTrace.cases)
  case committed
  then show ?thesis by (auto simp: succeeded_set) (auto simp: succeeded_def script_def row_def callFor_def)
next
  case (unfinished finished p rest e)
  have "p \<in> set (row plan Finalize)" "set finished \<subseteq> set (row plan Finalize)" using unfinished(3) by auto
  then show ?thesis using unfinished
    by (auto simp: succeeded_def script_def row_def callFor_def image_iff)
next
  case (undone finished p rest "is" fails e)
  have "set (finished @ [p]) \<subseteq> set (script plan)" using undone(2) by auto
  then have "Finalize \<notin> fst ` set (finished @ [p])" by (auto simp: script_def row_def)
  moreover have "callPhase ` set trace \<subseteq> insert Rollback (fst ` set (finished @ [p]))"
    using undone(1) by (force simp: succeeded_def callFor_def rollbacks_def)
  ultimately have "Finalize \<notin> callPhase ` set trace" by blast
  moreover have "Finalize \<in> callPhase ` set trace" using assms(2,3) by force
  ultimately show ?thesis by blast
qed

text \<open>
  Rollback resources are discarded only after every target has committed: in what an execution
  of a new run calls, a finalize call means that the commit of every artifact has succeeded in
  that attempt (the order of the calls is that of \<open>attemptTrace\<close>) and that nothing is rolled
  back.
\<close>

theorem finalize_after_commits:
  assumes "accepted drivers verified plan" and "stepsFit plan (journalOf st)"
    and "map_of (deployment_runs (journalOf st)) (id' plan) = None" and "calls st = []"
  shows "\<exists>res st'. execute drivers verified plan st = Some (res, st')
    \<and> (Finalize \<in> callPhase ` set (calls st') \<longrightarrow>
        (\<forall>i < length (artifacts plan). callFor 1 (Commit, i) None \<in> set (calls st'))
        \<and> Rollback \<notin> callPhase ` set (calls st'))"
proof -
  obtain rs trace where t: "attemptTrace plan 1 rs trace" "endsIn plan (execute drivers verified plan st) [] rs trace"
    using execute_new [OF assms(1-3)] assms(4) by auto
  then obtain res st' where "execute drivers verified plan st = Some (res, st')" "calls st' = trace"
    by (auto simp: endsIn_def viewOf_def)
  moreover from this(2) have "Finalize \<in> callPhase ` set (calls st') \<longrightarrow>
      (\<forall>i < length (artifacts plan). callFor 1 (Commit, i) None \<in> set (calls st'))
      \<and> Rollback \<notin> callPhase ` set (calls st')"
    using attemptTrace_decided [OF t(1)] by force
  ultimately show ?thesis by blast
qed

subsection \<open>A failing and a succeeding deployment\<close>

definition exampleDriver :: "bool \<Rightarrow> EntrypointId \<Rightarrow> nat ReplacementDriver" where
  "exampleDriver ok e = \<lparr>driver = e,
     act = (\<lambda>phase context n. if \<not> ok \<and> phase = Health \<and> contextOrdinal context = 1
       then (Raised ''unhealthy'', n + 1) else (Done, n + 1)),
     finalizes = (e = Frontend)\<rparr>"

definition exampleDrivers :: "bool \<Rightarrow> nat drivers" where
  "exampleDrivers ok = the (engineDrivers [exampleDriver ok Frontend, exampleDriver ok Relay_worker])"

definition exampleCheck :: "DeploymentPlan \<Rightarrow> InvalidDeploymentPlan + DeploymentPlan" where
  "exampleCheck = verifyDeploymentPlan (\<lambda>_. True) (\<lambda>_. exampleHash) (\<lambda>_ _ _. Some True)"

definition emptyEngine :: "nat engine" where
  "emptyEngine = \<lparr>journalOf = \<lparr>deployment_runs = [], deployment_steps = []\<rparr>, world = 0, calls = []\<rparr>"

lemma example_calls:
  "map_option (\<lambda>(_, st). map (\<lambda>c. (callPhase c, callOrdinal c)) (calls st))
      (execute (exampleDrivers False) exampleCheck examplePlan emptyEngine)
   = Some [(Drain, 0), (Drain, 1), (Stage, 0), (Stage, 1), (Activate, 0), (Activate, 1), (Health, 0), (Health, 1),
       (Rollback, 1), (Rollback, 0)]"
  by code_simp

lemma example_usable: "usable (exampleDrivers ok) examplePlan"
proof -
  have "map_of (exampleDrivers ok) Frontend \<noteq> None" "map_of (exampleDrivers ok) Relay_worker \<noteq> None"
    by (simp_all add: exampleDrivers_def engineDrivers_def keyedMap_def exampleDriver_def)
  then show ?thesis
    by (auto simp: usable_def examplePlan_def exampleCandidates_def entryAt_def less_Suc_eq numeral_2_eq_2)
qed

lemma example_accepted: "accepted (exampleDrivers ok) exampleCheck examplePlan"
proof -
  have "exampleCheck examplePlan = Inr examplePlan" by code_simp
  with example_usable show ?thesis by (simp add: accepted_def)
qed

lemma example_fits: "stepsFit examplePlan (journalOf emptyEngine)"
  by (simp add: stepsFit_def emptyEngine_def)

theorem execute_new_run_witness:
  "\<exists>rs trace. attemptTrace examplePlan 1 rs trace
    \<and> endsIn examplePlan (execute (exampleDrivers False) exampleCheck examplePlan emptyEngine) (calls emptyEngine) rs trace"
  by (rule execute_new_run [OF example_accepted example_fits]) (simp add: emptyEngine_def)

definition interruptedEngine :: "nat engine" where
  "interruptedEngine = emptyEngine\<lparr>journalOf := \<lparr>
     deployment_runs = [(id' examplePlan, \<lparr>runPlanHash = exampleHash, runPlan = examplePlan, runState = Activating,
       attempt = 2, runError = None\<rparr>)],
     deployment_steps = [((id' examplePlan, 2, Frontend), \<lparr>ordinal = 1, stepState = StepStaged, detail = None\<rparr>)]\<rparr>\<rparr>"

theorem execute_resumed_run_witness:
  "\<exists>rs trace. runTrace examplePlan 2 (stateAt examplePlan (journalOf interruptedEngine) 2) Activating rs trace
    \<and> endsIn examplePlan (execute (exampleDrivers True) exampleCheck examplePlan interruptedEngine)
        (calls interruptedEngine) rs trace"
proof -
  let ?run = "\<lparr>runPlanHash = exampleHash, runPlan = examplePlan, runState = Activating, attempt = 2, runError = None\<rparr>"
  have "stepsFit examplePlan (journalOf interruptedEngine)"
    by (auto simp: stepsFit_def interruptedEngine_def emptyEngine_def examplePlan_def entryAt_def
        exampleCandidates_def split: if_splits)
  moreover have "map_of (deployment_runs (journalOf interruptedEngine)) (id' examplePlan) = Some ?run"
    by (simp add: interruptedEngine_def)
  moreover have "runPlanHash ?run = planHash examplePlan" by (simp add: examplePlan_def)
  ultimately show ?thesis
    using execute_resumed_run [OF example_accepted, of interruptedEngine ?run True] by simp
qed

theorem finalize_after_commits_witness:
  "\<exists>res st'. execute (exampleDrivers True) exampleCheck examplePlan emptyEngine = Some (res, st')
    \<and> callFor 1 (Commit, 0) None \<in> set (calls st') \<and> Rollback \<notin> callPhase ` set (calls st')"
proof -
  obtain res st' where run: "execute (exampleDrivers True) exampleCheck examplePlan emptyEngine = Some (res, st')"
    and fin: "Finalize \<in> callPhase ` set (calls st') \<longrightarrow>
        (\<forall>i < length (artifacts examplePlan). callFor 1 (Commit, i) None \<in> set (calls st'))
        \<and> Rollback \<notin> callPhase ` set (calls st')"
    using finalize_after_commits [OF example_accepted example_fits, of True]
    by (auto simp: emptyEngine_def)
  have "map_option (\<lambda>(_, st). callPhase (last (calls st))) (execute (exampleDrivers True) exampleCheck examplePlan emptyEngine)
      = Some Finalize" by code_simp
  moreover have "map_option (\<lambda>(_, st). calls st \<noteq> []) (execute (exampleDrivers True) exampleCheck examplePlan emptyEngine)
      = Some True" by code_simp
  ultimately have "Finalize \<in> callPhase ` set (calls st')" using run by (metis (mono_tags, lifting) case_prod_conv image_eqI last_in_set option.inject option.map(2))
  with fin run show ?thesis by (auto simp: examplePlan_def)
qed

end
