(* ===== verification/Route_Registry.thy ===== *)
theory Route_Registry
  imports Prelude "HOL-Library.List_Lexorder" "HOL-Library.Char_ord"
begin

text \<open>
  \<open>packages/account-worker/src/hosted-route-registry.ts\<close>, \<open>HostedRouteRegistryDO\<close>: one hostname's
  route lease, workspace pointer and signed callers, with \<open>hostedServiceUrlKind\<close> of
  \<open>packages/protocol/src/project-authority.ts\<close> and \<open>serviceIngressMatches\<close> of
  \<open>packages/protocol-environment/src/service-ingress.ts\<close>. The three SQL tables hold at most one
  row each. Times are ISO strings compared as strings, as the code and its SQL do. A method answers
  \<open>Inl\<close> when it raises; what it wrote before raising stays written, since no transaction is open.
\<close>

subsection \<open>Data\<close>

type_synonym iso = string

definition EPOCH :: iso where
  "EPOCH = ''1970-01-01T00:00:00.000Z''"

datatype ServiceSource = Declared | Process

record HostedServiceRoute =
  hostname :: string
  workspaceId :: string
  serviceName :: string
  source :: ServiceSource
  machineId :: string
  ingressUrl :: string
  portName :: string
  port :: nat
  generation :: nat
  leaseExpiresAt :: iso
  health :: string
  updatedAt :: iso

datatype PointerSetBy = Start | Pin

record HostedServicePointer =
  pointerHostname :: string
  pointerWorkspaceId :: string
  pointerMachineId :: string
  machineLabel :: string
  pointerServiceName :: string
  pointerSource :: ServiceSource
  pointerPortName :: string
  setAt :: iso
  setBy :: PointerSetBy

record ServiceIngressRoute =
  ingressMethod :: string
  ingressPath :: string

datatype HostedIngressCredential =
    Oidc string "string list" bool
  | Jwt string string "string list" bool
  | Bearer string string

text \<open>A stored bearer keeps its current hash and, through one rotation, the previous one.\<close>

datatype StoredIngressCredential = Kept HostedIngressCredential | StoredBearer string "string list"

record RouteRow =
  rowTenant :: string
  rowRoute :: HostedServiceRoute
  rowExpires :: iso

record IngressRow =
  ingressTenant :: string
  ingressWorkspace :: string
  ingressRoutes :: "ServiceIngressRoute list"
  ingressCredentials :: "StoredIngressCredential list"
  registeredAt :: iso
  admitted :: nat
  rejected :: nat
  lastAdmittedAt :: "iso option"
  lastFailure :: "(iso \<times> string) option"

record PointerRow =
  pointerTenant :: string
  pointerProject :: string
  pointer :: HostedServicePointer

record registry =
  active_route :: "RouteRow option"
  pointer_row :: "PointerRow option"
  ingress_row :: "IngressRow option"

datatype RouteError =
    LeaseExpired
  | LeaseConflict
  | PinMismatch
  | IngressOwner

record HostedIngress =
  callerTenant :: string
  callerWorkspace :: string
  callerCredentials :: "StoredIngressCredential list"

record HostedRouteResolution =
  liveRoute :: "(string \<times> HostedServiceRoute) option"
  offlineAt :: "(string \<times> string) option"
  callers :: "HostedIngress option"

datatype HostedIngressAdmission = Admitted iso | NotAdmitted iso string

subsection \<open>Hostnames and paths\<close>

datatype UrlKind = WorkspaceUrl | MachineUrl

text \<open>The number of \<open>--\<close> that \<open>split('--')\<close> splits at.\<close>

fun doubleDashes :: "string \<Rightarrow> nat" where
  "doubleDashes (x # y # rest) =
     (if x = CHR ''-'' \<and> y = CHR ''-'' then Suc (doubleDashes rest) else doubleDashes (y # rest))"
| "doubleDashes _ = 0"

definition hostedServiceUrlKind :: "string \<Rightarrow> UrlKind" where
  "hostedServiceUrlKind h =
     (if doubleDashes (takeWhile (\<lambda>c. c \<noteq> CHR ''.'') h) + 1 = 3 then WorkspaceUrl else MachineUrl)"

definition startsWith :: "string \<Rightarrow> string \<Rightarrow> bool" where
  "startsWith s p \<longleftrightarrow> take (length p) s = p"

definition endsWith :: "string \<Rightarrow> string \<Rightarrow> bool" where
  "endsWith s p \<longleftrightarrow> length p \<le> length s \<and> drop (length s - length p) s = p"

definition routeMatches :: "string \<Rightarrow> string \<Rightarrow> ServiceIngressRoute \<Rightarrow> bool" where
  "routeMatches method pathname route \<longleftrightarrow>
     (ingressMethod route = ''*'' \<or> ingressMethod route = method)
     \<and> (if endsWith (ingressPath route) ''/*'' then startsWith pathname (butlast (ingressPath route))
        else pathname = ingressPath route)"

definition serviceIngressMatches :: "ServiceIngressRoute list \<Rightarrow> string \<Rightarrow> string \<Rightarrow> bool" where
  "serviceIngressMatches routes method pathname \<longleftrightarrow>
     \<not> startsWith pathname ''/__gitspace/'' \<and> list_ex (routeMatches method pathname) routes"

subsection \<open>Reading\<close>

definition targets :: "HostedServicePointer \<Rightarrow> HostedServiceRoute \<Rightarrow> bool" where
  "targets p route \<longleftrightarrow>
     pointerWorkspaceId p = workspaceId route \<and> pointerMachineId p = machineId route
     \<and> pointerServiceName p = serviceName route \<and> pointerSource p = source route
     \<and> pointerPortName p = portName route"

definition get :: "iso \<Rightarrow> registry \<Rightarrow> (string \<times> HostedServiceRoute) option" where
  "get now st =
     (case active_route st of
        None \<Rightarrow> None
      | Some row \<Rightarrow> if now < rowExpires row then Some (rowTenant row, rowRoute row) else None)"

definition offline :: "iso \<Rightarrow> registry \<Rightarrow> (string \<times> string) option" where
  "offline now st =
     (case pointer_row st of
        None \<Rightarrow> None
      | Some stored \<Rightarrow>
          (case get now st of
             Some (_, live) \<Rightarrow> if targets (pointer stored) live then None
               else Some (pointerTenant stored, machineLabel (pointer stored))
           | None \<Rightarrow> Some (pointerTenant stored, machineLabel (pointer stored))))"

definition resolve :: "string \<Rightarrow> string \<Rightarrow> iso \<Rightarrow> registry \<Rightarrow> HostedRouteResolution" where
  "resolve method pathname now st =
     \<lparr>liveRoute = get now st, offlineAt = offline now st,
      callers = (case ingress_row st of
          None \<Rightarrow> None
        | Some row \<Rightarrow>
            if \<not> serviceIngressMatches (ingressRoutes row) method pathname then None
            else if (case pointer_row st of
                None \<Rightarrow> False
              | Some stored \<Rightarrow> pointerTenant stored \<noteq> ingressTenant row
                  \<or> pointerWorkspaceId (pointer stored) \<noteq> ingressWorkspace row) then None
            else Some \<lparr>callerTenant = ingressTenant row, callerWorkspace = ingressWorkspace row,
              callerCredentials = ingressCredentials row\<rparr>)\<rparr>"

subsection \<open>Writing\<close>

definition sameOwner :: "string \<Rightarrow> HostedServiceRoute \<Rightarrow> RouteRow \<Rightarrow> bool" where
  "sameOwner tenant route row \<longleftrightarrow>
     rowTenant row = tenant \<and> machineId (rowRoute row) = machineId route
     \<and> workspaceId (rowRoute row) = workspaceId route \<and> serviceName (rowRoute row) = serviceName route
     \<and> source (rowRoute row) = source route"

definition writeRoute :: "iso \<Rightarrow> string \<Rightarrow> HostedServiceRoute \<Rightarrow> bool \<Rightarrow> registry \<Rightarrow> (RouteError + unit) \<times> registry" where
  "writeRoute now tenant route ownerFenced st =
     (if (case active_route st of
            None \<Rightarrow> False
          | Some row \<Rightarrow> (ownerFenced \<and> \<not> sameOwner tenant route row \<and> now < rowExpires row)
              \<or> (sameOwner tenant route row \<and> generation route < generation (rowRoute row)))
      then (Inl LeaseConflict, st)
      else (Inr (), st\<lparr>active_route := Some \<lparr>rowTenant = tenant, rowRoute = route,
        rowExpires = leaseExpiresAt route\<rparr>\<rparr>))"

definition writePointer :: "string \<Rightarrow> string \<Rightarrow> HostedServicePointer \<Rightarrow> registry \<Rightarrow> registry" where
  "writePointer tenant project p st =
     st\<lparr>pointer_row := Some \<lparr>pointerTenant = tenant, pointerProject = project, pointer = p\<rparr>\<rparr>"

type_synonym lease_answer = "HostedServiceRoute option \<times> HostedServicePointer option"

definition claimed :: "iso \<Rightarrow> HostedServiceRoute \<Rightarrow> string \<Rightarrow> HostedServicePointer" where
  "claimed now route label' =
     \<lparr>pointerHostname = hostname route, pointerWorkspaceId = workspaceId route, pointerMachineId = machineId route,
      machineLabel = label', pointerServiceName = serviceName route, pointerSource = source route,
      pointerPortName = portName route, setAt = now, setBy = Start\<rparr>"

definition lease ::
    "iso \<Rightarrow> string \<Rightarrow> string \<Rightarrow> HostedServiceRoute \<Rightarrow> string \<Rightarrow> registry \<Rightarrow> (RouteError + lease_answer) \<times> registry" where
  "lease now tenant project route label' st =
     (if leaseExpiresAt route \<le> now then (Inl LeaseExpired, st)
      else if hostedServiceUrlKind (hostname route) = MachineUrl then
        (case writeRoute now tenant route True st of
           (Inl e, st') \<Rightarrow> (Inl e, st')
         | (Inr _, st') \<Rightarrow> (Inr (Some route, None), st'))
      else case pointer_row st of
          Some stored \<Rightarrow>
            if pointerTenant stored \<noteq> tenant then (Inl LeaseConflict, st)
            else if \<not> targets (pointer stored) route then (Inr (None, Some (pointer stored)), st)
            else (case writeRoute now tenant route False st of
                (Inl e, st') \<Rightarrow> (Inl e, st')
              | (Inr _, st') \<Rightarrow> (Inr (Some route, Some (pointer stored)), st'))
        | None \<Rightarrow>
            if source route \<noteq> Declared then (Inr (None, None), st)
            else let p = claimed now route label' in
              (case writeRoute now tenant route False (writePointer tenant project p st) of
                (Inl e, st') \<Rightarrow> (Inl e, st')
              | (Inr _, st') \<Rightarrow> (Inr (Some route, Some p), st')))"

definition pin ::
    "iso \<Rightarrow> string \<Rightarrow> string \<Rightarrow> HostedServiceRoute \<Rightarrow> HostedServicePointer \<Rightarrow> registry
      \<Rightarrow> (RouteError + lease_answer) \<times> registry" where
  "pin now tenant project route p st =
     (if hostedServiceUrlKind (hostname route) \<noteq> WorkspaceUrl \<or> pointerHostname p \<noteq> hostname route
          \<or> \<not> targets p route then (Inl PinMismatch, st)
      else if leaseExpiresAt route \<le> now then (Inl LeaseExpired, st)
      else if (case pointer_row st of None \<Rightarrow> False | Some stored \<Rightarrow> pointerTenant stored \<noteq> tenant)
        then (Inl LeaseConflict, st)
      else (case writeRoute now tenant route False (writePointer tenant project p st) of
          (Inl e, st') \<Rightarrow> (Inl e, st')
        | (Inr _, st') \<Rightarrow> (Inr (Some route, Some p), st')))"

fun storedHashes :: "string \<Rightarrow> StoredIngressCredential list \<Rightarrow> string list option" where
  "storedHashes secret [] = None"
| "storedHashes secret (StoredBearer name hashes # rest) =
     (if name = secret then Some hashes else storedHashes secret rest)"
| "storedHashes secret (Kept _ # rest) = storedHashes secret rest"

fun keepCredential :: "StoredIngressCredential list \<Rightarrow> HostedIngressCredential \<Rightarrow> StoredIngressCredential" where
  "keepCredential previous (Bearer secret sha256) =
     StoredBearer secret
       (case storedHashes secret previous of
          None \<Rightarrow> [sha256]
        | Some hashes \<Rightarrow> if hashes \<noteq> [] \<and> hd hashes = sha256 then hashes else sha256 # take 1 hashes)"
| "keepCredential previous credential = Kept credential"

definition registerIngress ::
    "string \<Rightarrow> string \<Rightarrow> ServiceIngressRoute list \<Rightarrow> HostedIngressCredential list \<Rightarrow> iso \<Rightarrow> registry
      \<Rightarrow> (RouteError + unit) \<times> registry" where
  "registerIngress tenant workspace routes credentials at st =
     (if (case pointer_row st of None \<Rightarrow> False
          | Some stored \<Rightarrow> pointerTenant stored \<noteq> tenant \<or> pointerWorkspaceId (pointer stored) \<noteq> workspace)
        \<or> (case ingress_row st of None \<Rightarrow> False
          | Some row \<Rightarrow> ingressTenant row \<noteq> tenant \<or> ingressWorkspace row \<noteq> workspace)
      then (Inl IngressOwner, st)
      else let previous = (case ingress_row st of None \<Rightarrow> [] | Some row \<Rightarrow> ingressCredentials row);
               kept = map (keepCredential previous) credentials
           in (Inr (), st\<lparr>ingress_row := Some (case ingress_row st of
               None \<Rightarrow> \<lparr>ingressTenant = tenant, ingressWorkspace = workspace, ingressRoutes = routes,
                 ingressCredentials = kept, registeredAt = at, admitted = 0, rejected = 0,
                 lastAdmittedAt = None, lastFailure = None\<rparr>
             | Some row \<Rightarrow> row\<lparr>ingressRoutes := routes, ingressCredentials := kept, registeredAt := at\<rparr>)\<rparr>))"

definition clearIngress :: "string \<Rightarrow> string \<Rightarrow> registry \<Rightarrow> registry" where
  "clearIngress tenant workspace st =
     (case ingress_row st of
        Some row \<Rightarrow> if ingressTenant row = tenant \<and> ingressWorkspace row = workspace
          then st\<lparr>ingress_row := None\<rparr> else st
      | None \<Rightarrow> st)"

fun recordIngressAdmission :: "HostedIngressAdmission \<Rightarrow> registry \<Rightarrow> registry" where
  "recordIngressAdmission (Admitted at) st =
     st\<lparr>ingress_row := map_option (\<lambda>r. r\<lparr>admitted := admitted r + 1, lastAdmittedAt := Some at\<rparr>) (ingress_row st)\<rparr>"
| "recordIngressAdmission (NotAdmitted at why) st =
     st\<lparr>ingress_row := map_option (\<lambda>r. r\<lparr>rejected := rejected r + 1, lastFailure := Some (at, why)\<rparr>) (ingress_row st)\<rparr>"

definition release :: "iso \<Rightarrow> string \<Rightarrow> string \<Rightarrow> nat \<Rightarrow> registry \<Rightarrow> bool \<times> registry" where
  "release now tenant machine gen st =
     (case active_route st of
        Some row \<Rightarrow>
          if rowTenant row = tenant \<and> machineId (rowRoute row) = machine \<and> generation (rowRoute row) = gen
             \<and> now < rowExpires row
          then (True, st\<lparr>active_route := Some (row\<lparr>rowExpires := EPOCH\<rparr>)\<rparr>) else (False, st)
      | None \<Rightarrow> (False, st))"

definition clear :: "string \<Rightarrow> string \<Rightarrow> registry \<Rightarrow> registry" where
  "clear tenant workspace st =
     (let st1 = (case pointer_row st of
            Some stored \<Rightarrow> if pointerTenant stored = tenant \<and> pointerWorkspaceId (pointer stored) = workspace
              then st\<lparr>pointer_row := None\<rparr> else st
          | None \<Rightarrow> st);
          st2 = (case active_route st1 of
            Some row \<Rightarrow> if rowTenant row = tenant \<and> workspaceId (rowRoute row) = workspace
              then st1\<lparr>active_route := Some (row\<lparr>rowExpires := EPOCH\<rparr>)\<rparr> else st1
          | None \<Rightarrow> st1)
      in clearIngress tenant workspace st2)"

subsection \<open>Calls on one hostname\<close>

datatype RegistryCall =
    Lease iso string string HostedServiceRoute string
  | PinRoute iso string string HostedServiceRoute HostedServicePointer
  | RegisterIngress string string "ServiceIngressRoute list" "HostedIngressCredential list" iso
  | ClearIngress string string
  | RecordAdmission HostedIngressAdmission
  | Release iso string string nat
  | Clear string string

fun callRegistry :: "registry \<Rightarrow> RegistryCall \<Rightarrow> registry" where
  "callRegistry st (Lease now t project route l) = snd (lease now t project route l st)"
| "callRegistry st (PinRoute now t project route p) = snd (pin now t project route p st)"
| "callRegistry st (RegisterIngress t w routes credentials at) = snd (registerIngress t w routes credentials at st)"
| "callRegistry st (ClearIngress t w) = clearIngress t w st"
| "callRegistry st (RecordAdmission admission) = recordIngressAdmission admission st"
| "callRegistry st (Release now t machine gen) = snd (release now t machine gen st)"
| "callRegistry st (Clear t w) = clear t w st"

definition emptyRegistry :: registry where
  "emptyRegistry = \<lparr>active_route = None, pointer_row = None, ingress_row = None\<rparr>"

subsection \<open>Invariants of one hostname\<close>

text \<open>The object of a hostname is only called with routes of that hostname.\<close>

fun atHost :: "string \<Rightarrow> RegistryCall \<Rightarrow> RegistryCall" where
  "atHost h (Lease now t project route l) = Lease now t project (route\<lparr>hostname := h\<rparr>) l"
| "atHost h (PinRoute now t project route p) = PinRoute now t project (route\<lparr>hostname := h\<rparr>) p"
| "atHost h c = c"

definition callAt :: "string \<Rightarrow> registry \<Rightarrow> RegistryCall \<Rightarrow> registry" where
  "callAt h st c = callRegistry st (atHost h c)"

definition ownedRoute :: "registry \<Rightarrow> bool" where
  "ownedRoute st \<longleftrightarrow>
     (\<forall>stored. pointer_row st = Some stored \<longrightarrow>
        (\<exists>row. active_route st = Some row \<and> rowTenant row = pointerTenant stored))"

definition storedCredentials :: "registry \<Rightarrow> StoredIngressCredential list" where
  "storedCredentials st = (case ingress_row st of None \<Rightarrow> [] | Some row \<Rightarrow> ingressCredentials row)"

definition rotating :: "StoredIngressCredential \<Rightarrow> bool" where
  "rotating credential \<longleftrightarrow>
     (case credential of StoredBearer _ hashes \<Rightarrow> 1 \<le> length hashes \<and> length hashes \<le> 2 | Kept _ \<Rightarrow> True)"

definition registryInv :: "string \<Rightarrow> registry \<Rightarrow> bool" where
  "registryInv h st \<longleftrightarrow>
     (hostedServiceUrlKind h = WorkspaceUrl \<longrightarrow> ownedRoute st)
     \<and> (hostedServiceUrlKind h = MachineUrl \<longrightarrow> pointer_row st = None)
     \<and> (\<forall>credential \<in> set (storedCredentials st). rotating credential)"

lemma writeRoute_Inr:
  "writeRoute now t route fenced st = (Inr u, st') \<Longrightarrow>
     st' = st\<lparr>active_route := Some \<lparr>rowTenant = t, rowRoute = route, rowExpires = leaseExpiresAt route\<rparr>\<rparr>"
  by (auto simp: writeRoute_def split: if_splits)

lemma writeRoute_Inl:
  "writeRoute now t route fenced st = (Inl e, st') \<Longrightarrow>
     st' = st \<and> (\<exists>row. active_route st = Some row
       \<and> (fenced \<and> \<not> sameOwner t route row \<and> now < rowExpires row
          \<or> sameOwner t route row \<and> generation route < generation (rowRoute row)))"
  by (auto simp: writeRoute_def split: if_splits option.splits)

lemma writeRoute_unfenced:
  assumes "writeRoute now t route False st = (r, st')"
  shows "\<exists>row. active_route st' = Some row \<and> rowTenant row = t"
  using assms by (cases r) (auto dest: writeRoute_Inr writeRoute_Inl simp: sameOwner_def)

lemma writeRoute_fields:
  assumes "writeRoute now t route fenced st = (r, st')"
  shows "pointer_row st' = pointer_row st" and "ingress_row st' = ingress_row st"
  using assms by (cases r; auto dest: writeRoute_Inr writeRoute_Inl)+

lemma keepCredential_rotating:
  "\<forall>c \<in> set previous. rotating c \<Longrightarrow> rotating (keepCredential previous credential)"
proof -
  assume p: "\<forall>c \<in> set previous. rotating c"
  have "storedHashes s previous = Some hs \<Longrightarrow> 1 \<le> length hs \<and> length hs \<le> 2" for s hs
    using p by (induction s previous rule: storedHashes.induct) (auto simp: rotating_def split: if_splits)
  then show ?thesis
    by (cases "(previous, credential)" rule: keepCredential.cases) (auto simp: rotating_def split: option.splits)
qed

lemma storedCredentials_simps [simp]:
  "storedCredentials (st\<lparr>active_route := a\<rparr>) = storedCredentials st"
  "storedCredentials (st\<lparr>pointer_row := p\<rparr>) = storedCredentials st"
  by (simp_all add: storedCredentials_def)

lemma storedCredentials_cong: "ingress_row st = ingress_row st' \<Longrightarrow> storedCredentials st = storedCredentials st'"
  by (simp add: storedCredentials_def)

lemma lease_ingress: "ingress_row (snd (lease now t project route l st)) = ingress_row st"
  by (auto simp: lease_def Let_def writePointer_def writeRoute_fields dest: writeRoute_fields
      split: prod.splits sum.splits option.splits)

lemma pin_ingress: "ingress_row (snd (pin now t project route p st)) = ingress_row st"
  by (auto simp: pin_def writePointer_def dest: writeRoute_fields split: prod.splits sum.splits)

lemma snd_answer [simp]:
  "snd (case w of (Inl e, st') \<Rightarrow> (Inl e, st') | (Inr u, st') \<Rightarrow> (Inr x, st')) = snd w"
  by (simp split: prod.splits sum.splits)

lemma lease_workspace_cases:
  assumes "hostedServiceUrlKind (hostname route) = WorkspaceUrl"
  obtains (same) "snd (lease now t project route l st) = st"
  | (held) stored where "pointer_row st = Some stored" "pointerTenant stored = t"
      "snd (lease now t project route l st) = snd (writeRoute now t route False st)"
  | (claims) "pointer_row st = None" "snd (lease now t project route l st)
      = snd (writeRoute now t route False (writePointer t project (claimed now route l) st))"
proof (cases "leaseExpiresAt route \<le> now")
  case True
  then show thesis by (intro same) (simp add: lease_def)
next
  case live: False
  show thesis
  proof (cases "pointer_row st")
    case None
    show thesis
    proof (cases "source route")
      case Declared
      then have "snd (lease now t project route l st)
          = snd (writeRoute now t route False (writePointer t project (claimed now route l) st))"
        using live assms None by (simp add: lease_def Let_def)
      with None show thesis by (rule claims)
    next
      case Process
      with live assms None show thesis by (intro same) (simp add: lease_def)
    qed
  next
    case (Some stored)
    show thesis
    proof (cases "pointerTenant stored = t \<and> targets (pointer stored) route")
      case True
      then have "snd (lease now t project route l st) = snd (writeRoute now t route False st)"
        using live assms Some by (simp add: lease_def)
      then show thesis using Some True held by blast
    next
      case False
      with live assms Some show thesis by (intro same) (auto simp: lease_def)
    qed
  qed
qed

lemma lease_machine_cases:
  assumes "hostedServiceUrlKind (hostname route) = MachineUrl"
  obtains (same) "snd (lease now t project route l st) = st"
  | (writes) "snd (lease now t project route l st) = snd (writeRoute now t route True st)"
proof (cases "leaseExpiresAt route \<le> now")
  case True
  then show thesis by (intro same) (simp add: lease_def)
next
  case False
  with assms show thesis by (intro writes) (simp add: lease_def)
qed

lemma pin_cases:
  obtains (same) "snd (pin now t project route p st) = st"
  | (writes) "hostedServiceUrlKind (hostname route) = WorkspaceUrl"
      "\<forall>stored. pointer_row st = Some stored \<longrightarrow> pointerTenant stored = t"
      "snd (pin now t project route p st) = snd (writeRoute now t route False (writePointer t project p st))"
proof (cases "hostedServiceUrlKind (hostname route) \<noteq> WorkspaceUrl \<or> pointerHostname p \<noteq> hostname route
    \<or> \<not> targets p route \<or> leaseExpiresAt route \<le> now
    \<or> (case pointer_row st of None \<Rightarrow> False | Some stored \<Rightarrow> pointerTenant stored \<noteq> t)")
  case True
  then show thesis by (intro same) (auto simp: pin_def)
next
  case False
  then have "snd (pin now t project route p st) = snd (writeRoute now t route False (writePointer t project p st))"
    by (simp add: pin_def)
  with False show thesis by (intro writes) auto
qed

lemma ownedRoute_write:
  assumes "pointer_row st = Some stored" and "pointerTenant stored = t"
  shows "ownedRoute (snd (writeRoute now t route False st))"
proof -
  obtain r st' where w: "writeRoute now t route False st = (r, st')" by fastforce
  from writeRoute_unfenced [OF w] writeRoute_fields(1) [OF w] assms w show ?thesis by (auto simp: ownedRoute_def)
qed

lemma ownedRoute_writePointer: "ownedRoute (snd (writeRoute now t route False (writePointer t project p st)))"
  by (rule ownedRoute_write [where stored = "\<lparr>pointerTenant = t, pointerProject = project, pointer = p\<rparr>"])
     (simp_all add: writePointer_def)

lemma writeRoute_pointer [simp]: "pointer_row (snd (writeRoute now t route fenced st)) = pointer_row st"
  by (simp add: writeRoute_def split: if_splits)

lemma ownedRoute_clear: "ownedRoute st \<Longrightarrow> ownedRoute (clear t w st)"
  by (auto simp: ownedRoute_def clear_def clearIngress_def Let_def split: option.splits if_splits)

lemma rotating_register:
  assumes "\<forall>c \<in> set (storedCredentials st). rotating c"
  shows "\<forall>c \<in> set (storedCredentials (snd (registerIngress t w routes credentials at st))). rotating c"
proof -
  have "\<forall>c \<in> set (map (keepCredential (storedCredentials st)) credentials). rotating c"
    using keepCredential_rotating [OF assms] by simp
  then show ?thesis using assms
    by (auto simp: registerIngress_def storedCredentials_def Let_def split: option.splits)
qed

lemma registryInv_callAt:
  assumes "registryInv h st"
  shows "registryInv h (callAt h st c)"
proof -
  have cred: "\<forall>x \<in> set (storedCredentials st). rotating x"
    and owned: "hostedServiceUrlKind h = WorkspaceUrl \<Longrightarrow> ownedRoute st"
    and none: "hostedServiceUrlKind h = MachineUrl \<Longrightarrow> pointer_row st = None"
    using assms by (auto simp: registryInv_def)
  show ?thesis
  proof (cases c)
    case (Lease now t project route l)
    let ?route = "route\<lparr>hostname := h\<rparr>"
    have "storedCredentials (snd (lease now t project ?route l st)) = storedCredentials st"
      by (rule storedCredentials_cong [OF lease_ingress])
    moreover have "ownedRoute (snd (lease now t project ?route l st))" if "hostedServiceUrlKind h = WorkspaceUrl"
      by (rule lease_workspace_cases [of ?route now t project l st])
         (use that owned ownedRoute_write ownedRoute_writePointer in auto)
    moreover have "pointer_row (snd (lease now t project ?route l st)) = None" if "hostedServiceUrlKind h = MachineUrl"
      by (rule lease_machine_cases [of ?route now t project l st]) (use that none in auto)
    ultimately show ?thesis using cred by (simp add: registryInv_def callAt_def Lease)
  next
    case (PinRoute now t project route p)
    let ?route = "route\<lparr>hostname := h\<rparr>"
    have "storedCredentials (snd (pin now t project ?route p st)) = storedCredentials st"
      by (rule storedCredentials_cong [OF pin_ingress])
    moreover have "ownedRoute (snd (pin now t project ?route p st))" if "hostedServiceUrlKind h = WorkspaceUrl"
      by (rule pin_cases [of now t project ?route p st]) (use that owned ownedRoute_writePointer in auto)
    moreover have "pointer_row (snd (pin now t project ?route p st)) = None" if "hostedServiceUrlKind h = MachineUrl"
      by (rule pin_cases [of now t project ?route p st]) (use that none in auto)
    ultimately show ?thesis using cred by (simp add: registryInv_def callAt_def PinRoute)
  next
    case (RegisterIngress t w routes credentials at)
    have "pointer_row (snd (registerIngress t w routes credentials at st)) = pointer_row st"
      "active_route (snd (registerIngress t w routes credentials at st)) = active_route st"
      by (simp_all add: registerIngress_def Let_def)
    with rotating_register [OF cred] owned none show ?thesis
      by (simp add: registryInv_def callAt_def RegisterIngress ownedRoute_def)
  next
    case (ClearIngress t w)
    then show ?thesis using cred owned none
      by (auto simp: registryInv_def callAt_def clearIngress_def ownedRoute_def storedCredentials_def split: option.splits)
  next
    case (RecordAdmission a)
    then show ?thesis using cred owned none
      by (cases a) (auto simp: registryInv_def callAt_def ownedRoute_def storedCredentials_def split: option.splits)
  next
    case (Release now t m g)
    then show ?thesis using cred owned none
      by (auto simp: registryInv_def callAt_def release_def ownedRoute_def split: option.splits)
  next
    case (Clear t w)
    have "pointer_row st = None \<Longrightarrow> pointer_row (clear t w st) = None"
      by (auto simp: clear_def clearIngress_def Let_def split: option.splits)
    moreover have "set (storedCredentials (clear t w st)) \<subseteq> set (storedCredentials st)"
      by (auto simp: clear_def clearIngress_def Let_def storedCredentials_def split: option.splits if_splits)
    ultimately show ?thesis using cred owned none ownedRoute_clear [of st t w]
      by (auto simp: registryInv_def callAt_def Clear)
  qed
qed

interpretation hostname_calls: kept_invariant "callAt h" "registryInv h"
  for h
  by unfold_locales (rule registryInv_callAt)

lemma registryInv_empty: "registryInv h emptyRegistry"
  by (simp add: registryInv_def emptyRegistry_def ownedRoute_def storedCredentials_def)

subsection \<open>What the registry promises\<close>

fun callTenant :: "RegistryCall \<Rightarrow> string option" where
  "callTenant (Lease now t project route l) = Some t"
| "callTenant (PinRoute now t project route p) = Some t"
| "callTenant (RegisterIngress t w routes credentials at) = Some t"
| "callTenant (ClearIngress t w) = Some t"
| "callTenant (RecordAdmission a) = None"
| "callTenant (Release now t m g) = Some t"
| "callTenant (Clear t w) = Some t"

fun callTime :: "RegistryCall \<Rightarrow> iso option" where
  "callTime (Lease now t project route l) = Some now"
| "callTime _ = None"

text \<open>What a tenant's URL answers, apart from the counts of admissions.\<close>

definition guarded :: "string \<Rightarrow> registry \<Rightarrow> registry \<Rightarrow> bool" where
  "guarded t st st' \<longleftrightarrow>
     pointer_row st' = pointer_row st \<and> active_route st' = active_route st
     \<and> (\<forall>row. ingress_row st = Some row \<longrightarrow> ingressTenant row = t \<longrightarrow>
          (\<exists>row'. ingress_row st' = Some row' \<and> ingressTenant row' = t
            \<and> ingressWorkspace row' = ingressWorkspace row \<and> ingressRoutes row' = ingressRoutes row
            \<and> ingressCredentials row' = ingressCredentials row))
     \<and> (\<forall>row'. ingress_row st' = Some row' \<longrightarrow> ingressTenant row' = t \<longrightarrow>
          (\<exists>row. ingress_row st = Some row \<and> ingressTenant row = t))"

lemma guarded_refl: "guarded t st st"
  by (auto simp: guarded_def)

lemma guarded_trans: "guarded t st st' \<Longrightarrow> guarded t st' st'' \<Longrightarrow> guarded t st st''"
  unfolding guarded_def by metis

lemma guarded_call:
  assumes kind: "hostedServiceUrlKind h = WorkspaceUrl" and inv: "registryInv h st"
    and stored: "pointer_row st = Some stored" "pointerTenant stored = t" and other: "callTenant c \<noteq> Some t"
  shows "guarded t st (callAt h st c)"
proof -
  obtain row where row: "active_route st = Some row" "rowTenant row = t"
    using inv kind stored by (auto simp: registryInv_def ownedRoute_def)
  show ?thesis
  proof (cases c)
    case (Lease now t' project route l)
    with other kind stored have "snd (lease now t' project (route\<lparr>hostname := h\<rparr>) l st) = st"
      by (auto simp: lease_def)
    then show ?thesis by (simp add: callAt_def Lease guarded_refl)
  next
    case (PinRoute now t' project route p)
    with other kind stored have "snd (pin now t' project (route\<lparr>hostname := h\<rparr>) p st) = st"
      by (auto simp: pin_def)
    then show ?thesis by (simp add: callAt_def PinRoute guarded_refl)
  next
    case (RegisterIngress t' w routes credentials at)
    with other stored have "snd (registerIngress t' w routes credentials at st) = st"
      by (auto simp: registerIngress_def)
    then show ?thesis by (simp add: callAt_def RegisterIngress guarded_refl)
  next
    case (ClearIngress t' w)
    with other show ?thesis by (auto simp: callAt_def guarded_def clearIngress_def split: option.splits)
  next
    case (RecordAdmission a)
    then show ?thesis by (cases a) (auto simp: callAt_def guarded_def)
  next
    case (Release now t' m g)
    with other row show ?thesis by (auto simp: callAt_def guarded_def release_def)
  next
    case (Clear t' w)
    with other row stored show ?thesis
      by (auto simp: callAt_def guarded_def clear_def clearIngress_def Let_def split: option.splits)
  qed
qed

lemma guarded_resolve:
  assumes "guarded t st st'" and "pointer_row st = Some stored" and "pointerTenant stored = t"
  shows "resolve method pathname now st' = resolve method pathname now st"
proof -
  have same: "pointer_row st' = pointer_row st" "active_route st' = active_route st"
    using assms(1) by (auto simp: guarded_def)
  show ?thesis
  proof (cases "\<exists>row. ingress_row st = Some row \<and> ingressTenant row = t")
    case True
    then obtain row row' where "ingress_row st = Some row" "ingressTenant row = t"
      "ingress_row st' = Some row'" "ingressTenant row' = t" "ingressWorkspace row' = ingressWorkspace row"
      "ingressRoutes row' = ingressRoutes row" "ingressCredentials row' = ingressCredentials row"
      using assms(1) unfolding guarded_def by blast
    then show ?thesis using same assms(2,3) by (simp add: resolve_def offline_def get_def)
  next
    case False
    then have "\<not> (\<exists>row'. ingress_row st' = Some row' \<and> ingressTenant row' = t)"
      using assms(1) unfolding guarded_def by blast
    with False show ?thesis using same assms(2,3)
      by (auto simp: resolve_def offline_def get_def split: option.splits)
  qed
qed

text \<open>
  C37. A workspace URL belongs to the tenant its pointer names: from any state the registry can be
  in, whatever the other tenants call on that hostname, in any order and number, every request is
  resolved as before, route, offline machine and admitted callers alike.
\<close>

theorem workspace_url_isolated:
  assumes "hostedServiceUrlKind h = WorkspaceUrl" and "st = foldl (callAt h) emptyRegistry before"
    and "pointer_row st = Some stored" and "\<forall>c \<in> set cs. callTenant c \<noteq> Some (pointerTenant stored)"
  shows "resolve method pathname now (foldl (callAt h) st cs) = resolve method pathname now st"
proof -
  let ?t = "pointerTenant stored"
  have inv: "registryInv h st" using hostname_calls.run_holds [OF registryInv_empty] assms(2) by simp
  have "guarded ?t st (foldl (callAt h) st cs)" using assms(3,4) inv
  proof (induction cs arbitrary: st)
    case Nil
    then show ?case by (simp add: guarded_refl)
  next
    case (Cons c cs)
    have g: "guarded ?t st (callAt h st c)"
      by (rule guarded_call [OF assms(1) Cons.prems(3,1)]) (use Cons.prems(2) in simp_all)
    then have "pointer_row (callAt h st c) = Some stored" using Cons.prems(1) by (simp add: guarded_def)
    from Cons.IH [OF this] Cons.prems(2) registryInv_callAt [OF Cons.prems(3)]
    have "guarded ?t (callAt h st c) (foldl (callAt h) (callAt h st c) cs)" by simp
    with g show ?case using guarded_trans by fastforce
  qed
  then show ?thesis using guarded_resolve assms(3) by blast
qed

definition contender :: "RouteRow \<Rightarrow> RegistryCall \<Rightarrow> bool" where
  "contender row c \<longleftrightarrow>
     (case c of
        Lease now t project route l \<Rightarrow> \<not> sameOwner t route row \<and> now < rowExpires row
      | Release now t m g \<Rightarrow> t \<noteq> rowTenant row
      | Clear t w \<Rightarrow> t \<noteq> rowTenant row
      | _ \<Rightarrow> True)"

lemma contender_call:
  assumes "hostedServiceUrlKind h = MachineUrl" and "active_route st = Some row" and "contender row c"
  shows "active_route (callAt h st c) = Some row"
proof (cases c)
  case (Lease now t project route l)
  let ?route = "route\<lparr>hostname := h\<rparr>"
  have "\<not> sameOwner t ?route row \<and> now < rowExpires row"
    using assms(3) Lease by (simp add: contender_def sameOwner_def)
  then have idle: "snd (writeRoute now t ?route True st) = st" using assms(2) by (simp add: writeRoute_def)
  show ?thesis
    by (rule lease_machine_cases [of ?route now t project l st])
       (use assms(1,2) idle in \<open>auto simp: callAt_def Lease\<close>)
next
  case (PinRoute now t project route p)
  then show ?thesis using assms(1,2) by (simp add: callAt_def pin_def)
next
  case (RegisterIngress t w routes credentials at)
  then show ?thesis using assms(2) by (simp add: callAt_def registerIngress_def Let_def)
next
  case (ClearIngress t w)
  then show ?thesis using assms(2) by (auto simp: callAt_def clearIngress_def split: option.splits)
next
  case (RecordAdmission a)
  then show ?thesis using assms(2) by (cases a) (auto simp: callAt_def)
next
  case (Release now t m g)
  then show ?thesis using assms(2,3) by (auto simp: callAt_def release_def contender_def)
next
  case (Clear t w)
  then show ?thesis using assms(2,3)
    by (auto simp: callAt_def clear_def clearIngress_def Let_def contender_def split: option.splits)
qed

text \<open>
  A machine URL keeps its live owner: as long as a lease has not expired, no calls of other
  tenants, and no leases of the same tenant for another machine, workspace or service, change the
  route it answers.
\<close>

theorem machine_url_fenced:
  assumes "hostedServiceUrlKind h = MachineUrl" and "active_route st = Some row"
    and "\<forall>c \<in> set cs. contender row c"
  shows "get now (foldl (callAt h) st cs) = get now st"
proof -
  have "active_route (foldl (callAt h) st cs) = Some row"
    using assms(2,3)
  proof (induction cs arbitrary: st)
    case (Cons c cs)
    then show ?case using contender_call [OF assms(1), of st row c] by simp
  qed simp
  then show ?thesis using assms(2) by (simp add: get_def)
qed

fun bearerHash :: "string \<Rightarrow> HostedIngressCredential list \<Rightarrow> string option" where
  "bearerHash secret [] = None"
| "bearerHash secret (Bearer name sha256 # rest) = (if name = secret then Some sha256 else bearerHash secret rest)"
| "bearerHash secret (_ # rest) = bearerHash secret rest"

fun registerAll ::
    "string \<Rightarrow> string \<Rightarrow> (ServiceIngressRoute list \<times> HostedIngressCredential list \<times> iso) list \<Rightarrow> registry \<Rightarrow> registry option" where
  "registerAll t w [] st = Some st"
| "registerAll t w ((routes, credentials, at) # rest) st =
     (case registerIngress t w routes credentials at st of
        (Inr _, st') \<Rightarrow> registerAll t w rest st'
      | (Inl _, _) \<Rightarrow> None)"

lemma storedHashes_kept:
  "bearerHash secret credentials = Some h \<Longrightarrow>
     storedHashes secret (map (keepCredential previous) credentials)
       = Some (case storedHashes secret previous of
           None \<Rightarrow> [h] | Some hashes \<Rightarrow> if hashes \<noteq> [] \<and> hd hashes = h then hashes else h # take 1 hashes)"
  by (induction secret credentials rule: bearerHash.induct) (auto split: if_splits option.splits)

lemma registerIngress_stored:
  "registerIngress t w routes credentials at st = (Inr u, st') \<Longrightarrow>
     storedCredentials st' = map (keepCredential (storedCredentials st)) credentials"
  by (auto simp: registerIngress_def storedCredentials_def Let_def split: if_splits option.splits)

lemma take2_rotate:
  "(if take 2 (remdups_adj xs) \<noteq> [] \<and> hd (take 2 (remdups_adj xs)) = h then take 2 (remdups_adj xs)
    else h # take 1 (take 2 (remdups_adj xs))) = take 2 (remdups_adj (h # xs))"
proof (cases xs)
  case (Cons x ys)
  obtain zs where "remdups_adj (x # ys) = x # zs" by (metis hd_remdups_adj list.collapse list.sel(1) list.simps(3) remdups_adj_Nil_iff)
  with Cons show ?thesis by (auto simp: remdups_adj_Cons numeral_2_eq_2)
qed simp

text \<open>
  A bearer credential works through exactly one rotation: after any series of accepted
  registrations of a secret, the hashes that are stored are the two most recent ones that differ
  from the one before, the current one first.
\<close>

theorem bearer_rotation:
  assumes "registerAll t w rs st = Some st'" and "rs \<noteq> []"
    and "map (\<lambda>(_, credentials, _). bearerHash secret credentials) rs = map Some hs"
    and "storedHashes secret (storedCredentials st) = None"
  shows "storedHashes secret (storedCredentials st') = Some (take 2 (remdups_adj (rev hs)))"
proof -
  have "registerAll t w rs st = Some st' \<Longrightarrow>
      map (\<lambda>(_, credentials, _). bearerHash secret credentials) rs = map Some hs \<Longrightarrow>
      storedHashes secret (storedCredentials st) = (if xs = [] then None else Some (take 2 (remdups_adj xs))) \<Longrightarrow>
      rev hs @ xs \<noteq> [] \<Longrightarrow>
      storedHashes secret (storedCredentials st') = Some (take 2 (remdups_adj (rev hs @ xs)))" for xs
  proof (induction rs arbitrary: st hs xs)
    case Nil
    then show ?case by (simp split: if_splits)
  next
    case (Cons r rs)
    obtain routes credentials at where r: "r = (routes, credentials, at)" by (metis prod.collapse)
    from Cons.prems(2) obtain h hs' where hs: "hs = h # hs'" and h: "bearerHash secret credentials = Some h"
      and rest: "map (\<lambda>(_, credentials, _). bearerHash secret credentials) rs = map Some hs'"
      by (cases hs) (auto simp: r)
    from Cons.prems(1) obtain u st1 where reg: "registerIngress t w routes credentials at st = (Inr u, st1)"
      and run: "registerAll t w rs st1 = Some st'" by (auto simp: r split: prod.splits sum.splits)
    have "storedHashes secret (storedCredentials st1) = Some (take 2 (remdups_adj (h # xs)))"
      unfolding registerIngress_stored [OF reg] storedHashes_kept [OF h] Cons.prems(3)
      using take2_rotate [of xs h] by (auto simp: numeral_2_eq_2)
    then have "storedHashes secret (storedCredentials st1)
        = (if h # xs = [] then None else Some (take 2 (remdups_adj (h # xs))))" by simp
    from Cons.IH [OF run rest this] show ?case by (simp add: hs)
  qed
  from this [of "[]"] assms show ?thesis by (cases hs) auto
qed

definition byOwner :: "RouteRow \<Rightarrow> RegistryCall \<Rightarrow> bool" where
  "byOwner row c \<longleftrightarrow>
     (case c of
        Lease now t project route l \<Rightarrow> sameOwner t route row
      | PinRoute now t project route p \<Rightarrow> sameOwner t route row
      | _ \<Rightarrow> True)"

definition succeeds :: "RouteRow \<Rightarrow> RouteRow \<Rightarrow> bool" where
  "succeeds row row' \<longleftrightarrow>
     sameOwner (rowTenant row') (rowRoute row') row \<and> generation (rowRoute row) \<le> generation (rowRoute row')"

lemma succeeds_write:
  assumes "active_route st = Some row'" and "succeeds row row'" and "sameOwner t route row"
  shows "\<exists>row''. active_route (snd (writeRoute now t route fenced st)) = Some row'' \<and> succeeds row row''"
proof (cases "writeRoute now t route fenced st")
  case (Pair r st')
  show ?thesis
  proof (cases r)
    case (Inl e)
    with Pair assms(1,2) show ?thesis by (auto dest: writeRoute_Inl)
  next
    case (Inr u)
    have "sameOwner t route row'" using assms(2,3) by (simp add: succeeds_def sameOwner_def)
    then have "\<not> generation route < generation (rowRoute row')"
      using Pair Inr assms(1) by (auto simp: writeRoute_def split: if_splits)
    with Pair Inr assms(2,3) show ?thesis
      by (auto dest!: writeRoute_Inr simp: succeeds_def)
  qed
qed

lemma succeeds_call:
  assumes "active_route st = Some row'" and "succeeds row row'" and "byOwner row c"
  shows "\<exists>row''. active_route (callAt h st c) = Some row'' \<and> succeeds row row''"
proof (cases c)
  case (Lease now t project route l)
  let ?route = "route\<lparr>hostname := h\<rparr>"
  have own: "sameOwner t ?route row" using assms(3) Lease by (simp add: byOwner_def sameOwner_def)
  note written = succeeds_write [OF _ assms(2) own]
  show ?thesis
  proof (cases "hostedServiceUrlKind (hostname ?route)")
    case WorkspaceUrl
    then show ?thesis
      by (rule lease_workspace_cases [of ?route now t project l st])
         (use assms(1,2) written [of st] written [of "writePointer t project (claimed now ?route l) st"] in
           \<open>auto simp: callAt_def Lease writePointer_def\<close>)
  next
    case MachineUrl
    then show ?thesis
      by (rule lease_machine_cases [of ?route now t project l st])
         (use assms(1,2) written [of st] in \<open>auto simp: callAt_def Lease\<close>)
  qed
next
  case (PinRoute now t project route p)
  let ?route = "route\<lparr>hostname := h\<rparr>"
  have own: "sameOwner t ?route row" using assms(3) PinRoute by (simp add: byOwner_def sameOwner_def)
  show ?thesis
    by (rule pin_cases [of now t project ?route p st])
       (use assms(1,2) succeeds_write [OF _ assms(2) own, of "writePointer t project p st"] in
         \<open>auto simp: callAt_def PinRoute writePointer_def\<close>)
next
  case (RegisterIngress t w routes credentials at)
  then show ?thesis using assms by (simp add: callAt_def registerIngress_def Let_def)
next
  case (ClearIngress t w)
  then show ?thesis using assms by (auto simp: callAt_def clearIngress_def split: option.splits)
next
  case (RecordAdmission a)
  then show ?thesis using assms by (cases a) (auto simp: callAt_def)
next
  case (Release now t m g)
  then show ?thesis using assms by (auto simp: callAt_def release_def succeeds_def sameOwner_def)
next
  case (Clear t w)
  then show ?thesis using assms
    by (auto simp: callAt_def clear_def clearIngress_def Let_def succeeds_def sameOwner_def split: option.splits)
qed

text \<open>
  A lease never goes back a generation: through any calls among which every lease and pin is by
  the same owner, the generation of the stored route does not decrease.
\<close>

theorem lease_generation_monotone:
  assumes "active_route st = Some row" and "\<forall>c \<in> set cs. byOwner row c"
  shows "\<exists>row'. active_route (foldl (callAt h) st cs) = Some row'
    \<and> generation (rowRoute row) \<le> generation (rowRoute row')"
proof -
  have "active_route st = Some row' \<Longrightarrow> succeeds row row' \<Longrightarrow> \<forall>c \<in> set cs. byOwner row c \<Longrightarrow>
      \<exists>row''. active_route (foldl (callAt h) st cs) = Some row'' \<and> succeeds row row''" for row'
  proof (induction cs arbitrary: st row')
    case (Cons c cs)
    from succeeds_call [OF Cons.prems(1,2)] Cons.prems(3) obtain row'' where
      "active_route (callAt h st c) = Some row''" "succeeds row row''" by (meson list.set_intros(1))
    with Cons.IH [of "callAt h st c" row''] Cons.prems(3) show ?case by simp
  qed auto
  from this [OF assms(1) _ assms(2)] show ?thesis by (auto simp: succeeds_def sameOwner_def)
qed

subsection \<open>Two hostnames\<close>

definition webUrl :: string where
  "webUrl = ''web--w1--acme-srv.gssh.dev''"

definition machineUrl :: string where
  "machineUrl = ''web--m1--w1--acme-srv.gssh.dev''"

definition exampleRoute :: "string \<Rightarrow> nat \<Rightarrow> HostedServiceRoute" where
  "exampleRoute m g = \<lparr>hostname = webUrl, workspaceId = ''w1'', serviceName = ''web'', source = Declared,
     machineId = m, ingressUrl = ''https://i'', portName = ''http'', port = 80, generation = g,
     leaseExpiresAt = ''2026-02-01T00:00:00.000Z'', health = ''healthy'', updatedAt = ''2026-01-01T00:00:00.000Z''\<rparr>"

definition leasedCalls :: "RegistryCall list" where
  "leasedCalls = [RegisterIngress ''mallory'' ''w9'' [] [] ''2026-01-01T00:00:00.000Z'',
     Lease ''2026-01-01T00:00:00.000Z'' ''acme'' ''p'' (exampleRoute ''m1'' 3) ''laptop'']"

definition malloryCalls :: "RegistryCall list" where
  "malloryCalls = [Lease ''2026-01-02T00:00:00.000Z'' ''mallory'' ''p'' (exampleRoute ''m2'' 9) ''other'',
     Release ''2026-01-02T00:00:00.000Z'' ''mallory'' ''m1'' 3, Clear ''mallory'' ''w1'']"

definition leasedState :: "string \<Rightarrow> registry" where
  "leasedState h = foldl (callAt h) emptyRegistry leasedCalls"

lemma leasedState_values:
  "map_option pointerTenant (pointer_row (leasedState webUrl)) = Some ''acme''"
  "map_option (\<lambda>r. (rowTenant r, generation (rowRoute r))) (active_route (leasedState webUrl)) = Some (''acme'', 3)"
  "map_option rowTenant (active_route (leasedState machineUrl)) = Some ''acme''"
  "hostedServiceUrlKind webUrl = WorkspaceUrl" "hostedServiceUrlKind machineUrl = MachineUrl"
  by code_simp+

theorem workspace_url_isolated_witness:
  "resolve ''GET'' ''/'' ''2026-01-03T00:00:00.000Z'' (foldl (callAt webUrl) (leasedState webUrl) malloryCalls)
     = resolve ''GET'' ''/'' ''2026-01-03T00:00:00.000Z'' (leasedState webUrl)"
proof -
  obtain stored where stored: "pointer_row (leasedState webUrl) = Some stored" "pointerTenant stored = ''acme''"
    using leasedState_values(1) by auto
  show ?thesis
    by (rule workspace_url_isolated [OF leasedState_values(4) leasedState_def stored(1)])
       (simp add: stored(2) malloryCalls_def)
qed

theorem machine_url_fenced_witness:
  "get ''2026-01-03T00:00:00.000Z'' (foldl (callAt machineUrl) (leasedState machineUrl) malloryCalls)
     = get ''2026-01-03T00:00:00.000Z'' (leasedState machineUrl)"
proof -
  obtain row where row: "active_route (leasedState machineUrl) = Some row" using leasedState_values(3) by auto
  have "map_option (\<lambda>row. list_all (contender row) malloryCalls) (active_route (leasedState machineUrl)) = Some True"
    by code_simp
  with row have "\<forall>c \<in> set malloryCalls. contender row c" by (simp add: list_all_iff)
  then show ?thesis by (rule machine_url_fenced [OF leasedState_values(5) row])
qed

theorem lease_generation_monotone_witness:
  "\<exists>row'. active_route (foldl (callAt webUrl) (leasedState webUrl)
      [Lease ''2026-01-02T00:00:00.000Z'' ''acme'' ''p'' (exampleRoute ''m1'' 2) ''laptop'',
       Lease ''2026-01-02T00:00:00.000Z'' ''acme'' ''p'' (exampleRoute ''m1'' 4) ''laptop'']) = Some row'
    \<and> 3 \<le> generation (rowRoute row')"
proof -
  obtain row where row: "active_route (leasedState webUrl) = Some row" "generation (rowRoute row) = 3"
    using leasedState_values(2) by auto
  let ?cs = "[Lease ''2026-01-02T00:00:00.000Z'' ''acme'' ''p'' (exampleRoute ''m1'' 2) ''laptop'',
    Lease ''2026-01-02T00:00:00.000Z'' ''acme'' ''p'' (exampleRoute ''m1'' 4) ''laptop'']"
  have "map_option (\<lambda>row. list_all (byOwner row) ?cs) (active_route (leasedState webUrl)) = Some True" by code_simp
  with row(1) have "\<forall>c \<in> set ?cs. byOwner row c" by (simp add: list_all_iff)
  from lease_generation_monotone [OF row(1) this] row(2) show ?thesis by simp
qed

theorem bearer_rotation_witness:
  "storedHashes ''TOKEN'' (storedCredentials (the (registerAll ''acme'' ''w1''
      [([], [Bearer ''TOKEN'' ''h1''], ''t1''), ([], [Bearer ''TOKEN'' ''h2''], ''t2''),
       ([], [Bearer ''TOKEN'' ''h2''], ''t3''), ([], [Bearer ''TOKEN'' ''h3''], ''t4'')] emptyRegistry)))
   = Some (take 2 (remdups_adj (rev [''h1'', ''h2'', ''h2'', ''h3''])))"
proof (rule bearer_rotation)
  show "registerAll ''acme'' ''w1''
      [([], [Bearer ''TOKEN'' ''h1''], ''t1''), ([], [Bearer ''TOKEN'' ''h2''], ''t2''),
       ([], [Bearer ''TOKEN'' ''h2''], ''t3''), ([], [Bearer ''TOKEN'' ''h3''], ''t4'')] emptyRegistry
    = Some (the (registerAll ''acme'' ''w1''
      [([], [Bearer ''TOKEN'' ''h1''], ''t1''), ([], [Bearer ''TOKEN'' ''h2''], ''t2''),
       ([], [Bearer ''TOKEN'' ''h2''], ''t3''), ([], [Bearer ''TOKEN'' ''h3''], ''t4'')] emptyRegistry))"
    by code_simp
qed (simp_all add: storedCredentials_def emptyRegistry_def)

text \<open>
  \<open>pin\<close> writes its pointer before it checks the generation and runs no transaction: a pin whose
  route is a generation behind raises, yet the URL already points at its target.
\<close>

lemma pin_moves_pointer_and_raises:
  "(case pin ''2026-01-02T00:00:00.000Z'' ''acme'' ''p'' ((exampleRoute ''m1'' 2)\<lparr>portName := ''admin''\<rparr>)
      ((claimed ''2026-01-02T00:00:00.000Z'' ((exampleRoute ''m1'' 2)\<lparr>portName := ''admin''\<rparr>) ''laptop'')\<lparr>setBy := Pin\<rparr>)
      (leasedState webUrl) of
      (Inl e, st) \<Rightarrow> e = LeaseConflict \<and> map_option (pointerPortName \<circ> pointer) (pointer_row st) = Some ''admin''
        \<and> map_option (portName \<circ> rowRoute) (active_route st) = Some ''http''
    | (Inr _, _) \<Rightarrow> False)"
  by code_simp

end
