(* ===== verification/Sha256_State.thy ===== *)
theory Sha256_State
  imports Prelude "HOL-Library.Word" "HOL-Library.Log_Nat" "HOL-Library.Sublist"
begin

text \<open>
  \<open>protocol/src/sha256-state.ts\<close>: the incremental SHA-256 whose running state is a short string, for
  a file that is hashed in pieces across requests. The model has the class's fields, its
  constructor from a saved state, \<open>update\<close>, \<open>save\<close>, \<open>digest\<close> and \<open>compress\<close>. The theorems: the
  constants are the ones of FIPS 180-4, \<open>compress\<close> is its compression function, and however the
  bytes are cut into updates, and wherever the state is saved and restored in between, the digest
  is the SHA-256 of all of them.

  JavaScript's bit operators take their operands modulo \<open>2^32\<close>, and a sum of at most five such
  values is exact, so its value modulo \<open>2^32\<close> is the sum of words. Lengths are JavaScript numbers:
  an addition is rounded to 53 significant bits, as \<open>roundDouble\<close> says.
\<close>

unbundle bit_operations_syntax

section \<open>Numbers and their digits\<close>

definition roundDouble :: "nat \<Rightarrow> nat" where
  "roundDouble n =
     (let u = 2 ^ (floorlog 2 n - 53); q = n div u; r = n mod u in
      if 2 * r < u then q * u
      else if 2 * r = u then (if even q then q * u else Suc q * u)
      else Suc q * u)"

lemma roundDouble_exact [simp]:
  assumes "n < 2 ^ 53"
  shows "roundDouble n = n"
proof -
  have "floorlog 2 n \<le> 53" using assms by (simp add: floorlog_leD floorlog_le_iff)
  then show ?thesis by (simp add: roundDouble_def)
qed

section \<open>The class\<close>

type_synonym byte = "8 word"

definition K :: "32 word list" where
  "K = concat [
    [0x428a2f98, 0x71374491, 0xb5c0fbcf, 0xe9b5dba5, 0x3956c25b, 0x59f111f1, 0x923f82a4, 0xab1c5ed5],
    [0xd807aa98, 0x12835b01, 0x243185be, 0x550c7dc3, 0x72be5d74, 0x80deb1fe, 0x9bdc06a7, 0xc19bf174],
    [0xe49b69c1, 0xefbe4786, 0x0fc19dc6, 0x240ca1cc, 0x2de92c6f, 0x4a7484aa, 0x5cb0a9dc, 0x76f988da],
    [0x983e5152, 0xa831c66d, 0xb00327c8, 0xbf597fc7, 0xc6e00bf3, 0xd5a79147, 0x06ca6351, 0x14292967],
    [0x27b70a85, 0x2e1b2138, 0x4d2c6dfc, 0x53380d13, 0x650a7354, 0x766a0abb, 0x81c2c92e, 0x92722c85],
    [0xa2bfe8a1, 0xa81a664b, 0xc24b8b70, 0xc76c51a3, 0xd192e819, 0xd6990624, 0xf40e3585, 0x106aa070],
    [0x19a4c116, 0x1e376c08, 0x2748774c, 0x34b0bcb5, 0x391c0cb3, 0x4ed8aa4a, 0x5b9cca4f, 0x682e6ff3],
    [0x748f82ee, 0x78a5636f, 0x84c87814, 0x8cc70208, 0x90befffa, 0xa4506ceb, 0xbef9a3f7, 0xc67178f2]]"

definition initialWords :: "32 word list" where
  "initialWords = [0x6a09e667, 0xbb67ae85, 0x3c6ef372, 0xa54ff53a, 0x510e527f, 0x9b05688c, 0x1f83d9ab, 0x5be0cd19]"

text \<open>The scratch array \<open>w\<close> is written before it is read in every call, so it is local to \<open>compress\<close>.\<close>

record Sha256State =
  hWords :: "32 word list"
  blockBytes :: "byte list"
  buffered :: nat
  hashed :: nat

definition freshState :: Sha256State where
  "freshState = \<lparr>hWords = initialWords, blockBytes = replicate 64 0, buffered = 0, hashed = 0\<rparr>"

subsection \<open>\<open>compress\<close>\<close>

text \<open>A read outside the array is \<open>undefined\<close>, which the bit operators take as 0.\<close>

definition byteAt :: "byte list \<Rightarrow> nat \<Rightarrow> 32 word" where
  "byteAt bytes i = (if i < length bytes then ucast (bytes ! i) else 0)"

definition wordAt :: "byte list \<Rightarrow> nat \<Rightarrow> 32 word" where
  "wordAt bytes i = push_bit 24 (byteAt bytes i) OR push_bit 16 (byteAt bytes (i + 1))
     OR push_bit 8 (byteAt bytes (i + 2)) OR byteAt bytes (i + 3)"

definition nextWord :: "32 word list \<Rightarrow> nat \<Rightarrow> 32 word" where
  "nextWord w i =
     (let x = w ! (i - 15); y = w ! (i - 2);
          s0 = (drop_bit 7 x OR push_bit 25 x) XOR (drop_bit 18 x OR push_bit 14 x) XOR drop_bit 3 x;
          s1 = (drop_bit 17 y OR push_bit 15 y) XOR (drop_bit 19 y OR push_bit 13 y) XOR drop_bit 10 y
      in w ! (i - 16) + s0 + w ! (i - 7) + s1)"

definition messageWords :: "byte list \<Rightarrow> nat \<Rightarrow> 32 word list" where
  "messageWords bytes offset =
     foldl (\<lambda>w i. w @ [nextWord w i])
       (foldl (\<lambda>w i. w @ [wordAt bytes (offset + i * 4)]) [] [0..<16]) [16..<64]"

type_synonym registers = "32 word \<times> 32 word \<times> 32 word \<times> 32 word \<times> 32 word \<times> 32 word \<times> 32 word \<times> 32 word"

fun round256 :: "32 word list \<Rightarrow> registers \<Rightarrow> nat \<Rightarrow> registers" where
  "round256 w (a, b, c, d, e, f, g, hh) i =
     (let s1 = (drop_bit 6 e OR push_bit 26 e) XOR (drop_bit 11 e OR push_bit 21 e) XOR (drop_bit 25 e OR push_bit 7 e);
          t1 = hh + s1 + ((e AND f) XOR (NOT e AND g)) + K ! i + w ! i;
          s0 = (drop_bit 2 a OR push_bit 30 a) XOR (drop_bit 13 a OR push_bit 19 a) XOR (drop_bit 22 a OR push_bit 10 a);
          t2 = s0 + ((a AND b) XOR (a AND c) XOR (b AND c))
      in (t1 + t2, a, b, c, d + t1, e, f, g))"

definition compress :: "32 word list \<Rightarrow> byte list \<Rightarrow> nat \<Rightarrow> 32 word list" where
  "compress h bytes offset =
     (case foldl (round256 (messageWords bytes offset))
        (h ! 0, h ! 1, h ! 2, h ! 3, h ! 4, h ! 5, h ! 6, h ! 7) [0..<64] of
        (a, b, c, d, e, f, g, hh) \<Rightarrow>
          [h ! 0 + a, h ! 1 + b, h ! 2 + c, h ! 3 + d, h ! 4 + e, h ! 5 + f, h ! 6 + g, h ! 7 + hh])"

subsection \<open>\<open>update\<close>, \<open>save\<close>, the constructor and \<open>digest\<close>\<close>

definition setAt :: "byte list \<Rightarrow> nat \<Rightarrow> byte list \<Rightarrow> byte list" where
  "setAt block start xs = take start block @ xs @ drop (start + length xs) block"

function compressWhole :: "byte list \<Rightarrow> nat \<Rightarrow> 32 word list \<Rightarrow> 32 word list \<times> nat" where
  "compressWhole bytes offset h =
     (if offset + 64 \<le> length bytes then compressWhole bytes (offset + 64) (compress h bytes offset)
      else (h, offset))"
  by auto
termination by (relation "measure (\<lambda>(bytes, offset, h). length bytes - offset)") auto

declare compressWhole.simps [simp del]

definition updateFrom :: "byte list \<Rightarrow> nat \<Rightarrow> Sha256State \<Rightarrow> Sha256State" where
  "updateFrom bytes start st =
     (let (h, offset) = compressWhole bytes start (hWords st) in
      st\<lparr>hWords := h, blockBytes := setAt (blockBytes st) 0 (drop offset bytes),
         buffered := length bytes - offset\<rparr>)"

definition update :: "byte list \<Rightarrow> Sha256State \<Rightarrow> Sha256State" where
  "update bytes st0 =
     (let st = st0\<lparr>hashed := roundDouble (hashed st0 + length bytes)\<rparr> in
      if buffered st = 0 then updateFrom bytes 0 st
      else let count = min (64 - buffered st) (length bytes);
               st = st\<lparr>blockBytes := setAt (blockBytes st) (buffered st) (take count bytes),
                       buffered := buffered st + count\<rparr> in
           if buffered st < 64 then st
           else updateFrom bytes count
             (st\<lparr>hWords := compress (hWords st) (blockBytes st) 0, buffered := 0\<rparr>))"

definition hexWord :: "32 word \<Rightarrow> string" where
  "hexWord x = padStart 8 CHR ''0'' (toRadix 16 (unat x))"

definition hexByte :: "byte \<Rightarrow> string" where
  "hexByte x = padStart 2 CHR ''0'' (toRadix 16 (unat x))"

definition save :: "Sha256State \<Rightarrow> string" where
  "save st = concat (map hexWord (hWords st)) @ '':'' @ toRadix 10 (hashed st) @ '':''
     @ concat (map hexByte (take (buffered st) (blockBytes st)))"

definition lowerHex :: "string \<Rightarrow> bool" where
  "lowerHex s \<longleftrightarrow> list_all (\<lambda>c. c \<in> set ''0123456789abcdef'') s"

definition decimalLength :: "string \<Rightarrow> bool" where
  "decimalLength s \<longleftrightarrow>
     (case s of
        [] \<Rightarrow> False
      | c # rest \<Rightarrow> s = ''0'' \<or> (c \<in> set ''123456789'' \<and> length rest \<le> 15
          \<and> list_all (\<lambda>c. c \<in> set ''0123456789'') rest))"

definition sha256StatePattern :: "string \<Rightarrow> bool" where
  "sha256StatePattern state \<longleftrightarrow>
     (case splitOn CHR '':'' state of
        [w, l, t] \<Rightarrow> length w = 64 \<and> lowerHex w \<and> decimalLength l \<and> even (length t) \<and> length t \<le> 126 \<and> lowerHex t
      | _ \<Rightarrow> False)"

text \<open>\<open>None\<close> where the constructor throws \<open>SHA-256 state is malformed\<close>.\<close>

definition restore :: "string \<Rightarrow> Sha256State option" where
  "restore state =
     (if \<not> sha256StatePattern state then None
      else case splitOn CHR '':'' state of
        [w, l, t] \<Rightarrow>
          let hashed' = roundDouble (parseRadix 10 l); buffered' = length t div 2 in
          if buffered' \<noteq> hashed' mod 64 then None
          else Some \<lparr>hWords = map (\<lambda>i. word_of_nat (parseRadix 16 (take 8 (drop (i * 8) w)))) [0..<8],
            blockBytes = setAt (replicate 64 0) 0
              (map (\<lambda>i. word_of_nat (parseRadix 16 (take 2 (drop (i * 2) t)))) [0..<buffered']),
            buffered = buffered', hashed = hashed'\<rparr>
      | _ \<Rightarrow> None)"

definition setUint32 :: "nat \<Rightarrow> nat \<Rightarrow> byte list \<Rightarrow> byte list" where
  "setUint32 start v bytes = setAt bytes start
     [word_of_nat (v div 2 ^ 24), word_of_nat (v div 2 ^ 16), word_of_nat (v div 2 ^ 8), word_of_nat v]"

definition paddingOf :: "Sha256State \<Rightarrow> byte list" where
  "paddingOf st =
     (let bits = hashed st * 8;
          padding = (replicate ((if buffered st < 56 then 56 else 120) - buffered st + 8) 0)[0 := 0x80];
          padding = setUint32 (length padding - 8) (bits div 2 ^ 32) padding
      in setUint32 (length padding - 4) (bits mod 2 ^ 32) padding)"

definition digest :: "Sha256State \<Rightarrow> string option" where
  "digest st = map_option
     (\<lambda>final. ''sha256:'' @ concat (map hexWord (hWords (update (paddingOf st) final)))) (restore (save st))"

section \<open>The function of FIPS 180-4\<close>

definition bigSigma0 :: "32 word \<Rightarrow> 32 word" where
  "bigSigma0 x = word_rotr 2 x XOR word_rotr 13 x XOR word_rotr 22 x"

definition bigSigma1 :: "32 word \<Rightarrow> 32 word" where
  "bigSigma1 x = word_rotr 6 x XOR word_rotr 11 x XOR word_rotr 25 x"

definition smallSigma0 :: "32 word \<Rightarrow> 32 word" where
  "smallSigma0 x = word_rotr 7 x XOR word_rotr 18 x XOR drop_bit 3 x"

definition smallSigma1 :: "32 word \<Rightarrow> 32 word" where
  "smallSigma1 x = word_rotr 17 x XOR word_rotr 19 x XOR drop_bit 10 x"

definition Choice :: "32 word \<Rightarrow> 32 word \<Rightarrow> 32 word \<Rightarrow> 32 word" where
  "Choice x y z = (x AND y) XOR (NOT x AND z)"

definition Majority :: "32 word \<Rightarrow> 32 word \<Rightarrow> 32 word \<Rightarrow> 32 word" where
  "Majority x y z = (x AND y) XOR (x AND z) XOR (y AND z)"

fun schedule :: "byte list \<Rightarrow> nat \<Rightarrow> 32 word" where
  "schedule M t =
     (if t < 16 then wordAt M (4 * t)
      else smallSigma1 (schedule M (t - 2)) + schedule M (t - 7) + smallSigma0 (schedule M (t - 15))
        + schedule M (t - 16))"

declare schedule.simps [simp del]

fun fipsRound :: "byte list \<Rightarrow> registers \<Rightarrow> nat \<Rightarrow> registers" where
  "fipsRound M (a, b, c, d, e, f, g, h) t =
     (let T1 = h + bigSigma1 e + Choice e f g + K ! t + schedule M t;
          T2 = bigSigma0 a + Majority a b c
      in (T1 + T2, a, b, c, d + T1, e, f, g))"

fun registersOf :: "32 word list \<Rightarrow> registers" where
  "registersOf H = (H ! 0, H ! 1, H ! 2, H ! 3, H ! 4, H ! 5, H ! 6, H ! 7)"

definition fipsBlock :: "32 word list \<Rightarrow> byte list \<Rightarrow> 32 word list" where
  "fipsBlock H M =
     (case foldl (fipsRound M) (registersOf H) [0..<64] of
        (a, b, c, d, e, f, g, h) \<Rightarrow> map2 (+) (take 8 H) [a, b, c, d, e, f, g, h])"

text \<open>The message cut into blocks of \<open>n\<close>, with what is left over.\<close>

function absorbBlocks :: "('s \<Rightarrow> 'b list \<Rightarrow> 's) \<Rightarrow> nat \<Rightarrow> 's \<Rightarrow> 'b list \<Rightarrow> 's \<times> 'b list" where
  "absorbBlocks f n s xs =
     (if 0 < n \<and> n \<le> length xs then absorbBlocks f n (f s (take n xs)) (drop n xs) else (s, xs))"
  by auto
termination by (relation "measure (\<lambda>(f, n, s, xs). length xs)") auto

declare absorbBlocks.simps [simp del]

definition padMessage :: "byte list \<Rightarrow> byte list" where
  "padMessage m = m @ 0x80 # replicate ((119 - length m mod 64) mod 64) 0
     @ map (\<lambda>i. word_of_nat (length m * 8 div 256 ^ (7 - i))) [0..<8]"

definition sha256 :: "byte list \<Rightarrow> 32 word list" where
  "sha256 m = fst (absorbBlocks fipsBlock 64 initialWords (padMessage m))"

definition isPrime :: "nat \<Rightarrow> bool" where
  "isPrime p \<longleftrightarrow> 2 \<le> p \<and> (\<forall>d \<in> set [2..<p]. \<not> d dvd p)"

text \<open>\<open>k\<close> is the first 32 bits of the fractional part of the \<open>e\<close>-th root of \<open>p\<close>.\<close>

definition rootFraction :: "nat \<Rightarrow> 32 word \<Rightarrow> nat \<Rightarrow> bool" where
  "rootFraction e k p \<longleftrightarrow>
     (\<exists>q \<in> set [0..<8]. (q * 2 ^ 32 + unat k) ^ e \<le> p * 2 ^ (32 * e) \<and> p * 2 ^ (32 * e) < (q * 2 ^ 32 + unat k + 1) ^ e)"

section \<open>The compression function is the standard's\<close>

lemma rotate_right:
  assumes "n < 32"
  shows "drop_bit n x OR push_bit (32 - n) x = word_rotr n (x :: 32 word)"
proof (rule bit_word_eqI)
  fix i assume "i < LENGTH(32)"
  then have i: "i < 32" by simp
  show "bit (drop_bit n x OR push_bit (32 - n) x) i = bit (word_rotr n x) i"
  proof (cases "i + n < 32")
    case True
    then have "\<not> 32 - n \<le> i" by linarith
    with True show ?thesis using i assms
      by (simp add: bit_or_iff bit_drop_bit_eq bit_push_bit_iff bit_word_rotr_iff add.commute)
  next
    case False
    then have "(i + n) mod 32 = i + n - 32" using i assms by (simp add: mod_if)
    moreover have "\<not> bit x (n + i)" using False by (auto dest: bit_imp_le_length)
    ultimately show ?thesis using i assms False
      by (simp add: bit_or_iff bit_drop_bit_eq bit_push_bit_iff bit_word_rotr_iff) (auto simp: algebra_simps)
  qed
qed

lemmas rotations = rotate_right [of 2, simplified] rotate_right [of 6, simplified] rotate_right [of 7, simplified]
  rotate_right [of 11, simplified] rotate_right [of 13, simplified] rotate_right [of 17, simplified]
  rotate_right [of 18, simplified] rotate_right [of 19, simplified] rotate_right [of 22, simplified]
  rotate_right [of 25, simplified]

lemma nextWord_schedule:
  assumes "16 \<le> n" and "w = map (schedule M) [0..<n]"
  shows "nextWord w n = schedule M n"
  using assms(1) unfolding nextWord_def Let_def rotations assms(2)
  by (subst schedule.simps) (simp add: smallSigma0_def smallSigma1_def algebra_simps)

lemma messageWords_first:
  "n \<le> 16 \<Longrightarrow> foldl (\<lambda>w i. w @ [wordAt bytes (offset + i * 4)]) [] [0..<n] = map (\<lambda>t. wordAt bytes (offset + 4 * t)) [0..<n]"
  by (induction n) (simp_all add: algebra_simps)

lemma messageWords_rest:
  "16 \<le> n \<Longrightarrow> foldl (\<lambda>w i. w @ [nextWord w i]) (map (schedule M) [0..<16]) [16..<n] = map (schedule M) [0..<n]"
  by (induction n rule: dec_induct) (simp_all only: upt_Suc le_Suc_eq, simp_all add: nextWord_schedule upt_conv_Nil)

lemma wordAt_block:
  "i + 3 < 64 \<Longrightarrow> offset + 64 \<le> length bytes \<Longrightarrow> wordAt bytes (offset + i) = wordAt (take 64 (drop offset bytes)) i"
  by (simp add: wordAt_def byteAt_def add.assoc)

lemma messageWords_schedule:
  assumes "offset + 64 \<le> length bytes"
  shows "messageWords bytes offset = map (schedule (take 64 (drop offset bytes))) [0..<64]"
proof -
  have "map (\<lambda>t. wordAt bytes (offset + 4 * t)) [0..<16] = map (schedule (take 64 (drop offset bytes))) [0..<16]"
  proof (rule map_cong [OF refl])
    fix t :: nat assume "t \<in> set [0..<16]"
    then have "t < 16" by simp
    then show "wordAt bytes (offset + 4 * t) = schedule (take 64 (drop offset bytes)) t"
      using assms by (subst schedule.simps) (simp add: wordAt_block)
  qed
  moreover have "foldl (\<lambda>w i. w @ [wordAt bytes (offset + i * 4)]) [] [0..<16] = map (\<lambda>t. wordAt bytes (offset + 4 * t)) [0..<16]"
    by (rule messageWords_first) (rule order_refl)
  ultimately show ?thesis unfolding messageWords_def
    by (simp only: messageWords_rest [of 64, simplified le_numeral_extra arith_simps rel_simps, OF TrueI])
qed

lemma round256_fips:
  assumes "t < 64"
  shows "round256 (map (schedule M) [0..<64]) regs t = fipsRound M regs t"
  using assms by (cases "(M, regs, t)" rule: fipsRound.cases) (simp only: prod.inject round256.simps fipsRound.simps rotations Let_def bigSigma0_def bigSigma1_def
    Choice_def Majority_def nth_map length_upt nth_upt, simp)

lemma foldl_cong_set: "(\<And>x s. x \<in> set xs \<Longrightarrow> f s x = g s x) \<Longrightarrow> foldl f s xs = foldl g s xs"
  by (induction xs arbitrary: s) auto

lemma compress_fips:
  assumes "offset + 64 \<le> length bytes" and "length h = 8"
  shows "compress h bytes offset = fipsBlock h (take 64 (drop offset bytes))"
proof -
  have h: "h = [h ! 0, h ! 1, h ! 2, h ! 3, h ! 4, h ! 5, h ! 6, h ! 7]"
    using assms(2) by (auto simp: numeral_eq_Suc length_Suc_conv)
  let ?M = "take 64 (drop offset bytes)"
  have "foldl (round256 (messageWords bytes offset)) (registersOf h) [0..<64]
      = foldl (fipsRound ?M) (registersOf h) [0..<64]"
    unfolding messageWords_schedule [OF assms(1)] by (rule foldl_cong_set) (simp add: round256_fips)
  then show ?thesis
    unfolding compress_def fipsBlock_def by (subst (17) h) (simp split: prod.split)
qed

section \<open>Blocks and what is left over\<close>

lemma absorb_short: "length xs < n \<Longrightarrow> absorbBlocks f n s xs = (s, xs)"
  by (subst absorbBlocks.simps) simp

lemma absorb_block:
  "0 < n \<Longrightarrow> length b = n \<Longrightarrow> absorbBlocks f n s (b @ xs) = absorbBlocks f n (f s b) xs"
  by (subst absorbBlocks.simps) simp

lemma absorb_append:
  assumes "0 < n"
  shows "absorbBlocks f n s (xs @ ys) = (case absorbBlocks f n s xs of (s', rest) \<Rightarrow> absorbBlocks f n s' (rest @ ys))"
proof (induction f n s xs rule: absorbBlocks.induct)
  case (1 f n s xs)
  show ?case
  proof (cases "0 < n \<and> n \<le> length xs")
    case True
    then show ?thesis using 1 by (subst (1 2) absorbBlocks.simps) simp
  next
    case False
    then have "absorbBlocks f n s xs = (s, xs)" by (subst absorbBlocks.simps) auto
    then show ?thesis by simp
  qed
qed

lemma absorb_left: "0 < n \<Longrightarrow> length (snd (absorbBlocks f n s xs)) = length xs mod n"
proof (induction f n s xs rule: absorbBlocks.induct)
  case (1 f n s xs)
  then show ?case by (subst absorbBlocks.simps) (auto simp: le_mod_geq)
qed

lemma absorb_cong:
  assumes "\<And>s b. good s \<Longrightarrow> length b = n \<Longrightarrow> f s b = g s b \<and> good (g s b)" and "good s"
  shows "absorbBlocks f n s xs = absorbBlocks g n s xs"
  using assms
proof (induction f n s xs rule: absorbBlocks.induct)
  case (1 f n s xs)
  show ?case
  proof (cases "0 < n \<and> n \<le> length xs")
    case True
    then show ?thesis using 1 by (subst (1 2) absorbBlocks.simps) simp
  qed (subst (1 2) absorbBlocks.simps, auto)
qed

lemma absorb_keeps:
  assumes "\<And>s b. good s \<Longrightarrow> good (f s b)" and "good s"
  shows "good (fst (absorbBlocks f n s xs))"
  using assms
proof (induction f n s xs rule: absorbBlocks.induct)
  case (1 f n s xs)
  then show ?case by (subst absorbBlocks.simps) simp
qed

lemma length_fipsBlock [simp]: "length H = 8 \<Longrightarrow> length (fipsBlock H M) = 8"
  by (simp add: fipsBlock_def split: prod.split)

text \<open>The loop over the whole blocks of an update is \<open>absorbBlocks\<close>.\<close>

lemma compressWhole_absorb:
  assumes "offset \<le> length bytes" and "length h = 8"
  shows "absorbBlocks fipsBlock 64 h (drop offset bytes)
      = (fst (compressWhole bytes offset h), drop (snd (compressWhole bytes offset h)) bytes)
    \<and> snd (compressWhole bytes offset h) \<le> length bytes"
  using assms
proof (induction bytes offset h rule: compressWhole.induct)
  case (1 bytes offset h)
  show ?case
  proof (cases "offset + 64 \<le> length bytes")
    case True
    have c: "compress h bytes offset = fipsBlock h (take 64 (drop offset bytes))"
      by (rule compress_fips [OF True "1.prems"(2)])
    have "absorbBlocks fipsBlock 64 h (drop offset bytes)
        = absorbBlocks fipsBlock 64 (compress h bytes offset) (drop (offset + 64) bytes)"
      using True c by (subst absorbBlocks.simps) (auto simp: add.commute le_diff_conv2)
    then show ?thesis using 1 True by (subst (1 2 3) compressWhole.simps) (simp add: c)
  next
    case False
    then show ?thesis using 1 by (subst (1 2 3) compressWhole.simps) (simp add: absorb_short)
  qed
qed

section \<open>What a state stands for\<close>

definition represents :: "Sha256State \<Rightarrow> byte list \<Rightarrow> bool" where
  "represents st m \<longleftrightarrow>
     absorbBlocks fipsBlock 64 initialWords m = (hWords st, take (buffered st) (blockBytes st))
     \<and> buffered st = length m mod 64 \<and> hashed st = length m
     \<and> length (blockBytes st) = 64 \<and> length (hWords st) = 8"

lemma represents_fresh: "represents freshState []"
  by (simp add: represents_def freshState_def absorb_short initialWords_def)

lemma length_setAt [simp]: "start + length xs \<le> length block \<Longrightarrow> length (setAt block start xs) = length block"
  by (simp add: setAt_def)

lemma take_setAt: "start + length xs \<le> length block \<Longrightarrow> take (start + length xs) (setAt block start xs) = take start block @ xs"
  by (simp add: setAt_def)

lemma updateFrom_fields:
  assumes "start \<le> length bytes" and "length (hWords st) = 8" and "length (blockBytes st) = 64"
    and "absorbBlocks fipsBlock 64 (hWords st) (drop start bytes) = (h, rest)"
  shows "hWords (updateFrom bytes start st) = h"
    and "take (buffered (updateFrom bytes start st)) (blockBytes (updateFrom bytes start st)) = rest"
    and "buffered (updateFrom bytes start st) = length rest"
    and "length (blockBytes (updateFrom bytes start st)) = 64"
    and "hashed (updateFrom bytes start st) = hashed st"
proof -
  obtain h' offset where c: "compressWhole bytes start (hWords st) = (h', offset)" by fastforce
  from compressWhole_absorb [OF assms(1,2)] assms(4) c
  have *: "h' = h" "rest = drop offset bytes" "offset \<le> length bytes" by auto
  have "length rest = length (drop start bytes) mod 64"
    using absorb_left [of 64 fipsBlock "hWords st" "drop start bytes"] assms(4) by simp
  then have short: "length rest < 64" by simp
  show "hWords (updateFrom bytes start st) = h" using c * by (simp add: updateFrom_def)
  show "take (buffered (updateFrom bytes start st)) (blockBytes (updateFrom bytes start st)) = rest"
    using c * short assms(3) take_setAt [of 0 rest "blockBytes st"] by (simp add: updateFrom_def)
  show "buffered (updateFrom bytes start st) = length rest" using c * by (simp add: updateFrom_def)
  show "length (blockBytes (updateFrom bytes start st)) = 64"
    using c * short assms(3) by (simp add: updateFrom_def)
  show "hashed (updateFrom bytes start st) = hashed st" using c by (simp add: updateFrom_def)
qed

lemma updateFrom_represents:
  assumes "start \<le> length bytes" and "length (hWords st) = 8" and "length (blockBytes st) = 64"
    and "absorbBlocks fipsBlock 64 (hWords st) (drop start bytes) = absorbBlocks fipsBlock 64 initialWords m"
    and "hashed st = length m"
  shows "represents (updateFrom bytes start st) m"
proof -
  obtain h rest where a: "absorbBlocks fipsBlock 64 initialWords m = (h, rest)" by fastforce
  have "length h = 8"
    using absorb_keeps [of "\<lambda>h. length h = 8" fipsBlock initialWords 64 m] a by (simp add: initialWords_def)
  moreover have "length rest = length m mod 64" using absorb_left [of 64 fipsBlock initialWords m] a by simp
  ultimately show ?thesis
    using updateFrom_fields [OF assms(1-3), of h rest] assms(4,5) a by (simp add: represents_def)
qed

lemma represents_update:
  assumes "represents st m" and "length m + length bytes < 2 ^ 53"
  shows "represents (update bytes st) (m @ bytes)"
proof -
  from assms(1) have r: "absorbBlocks fipsBlock 64 initialWords m = (hWords st, take (buffered st) (blockBytes st))"
    and b: "buffered st = length m mod 64" and l: "hashed st = length m"
    and s: "length (blockBytes st) = 64" "length (hWords st) = 8" by (simp_all add: represents_def)
  have b64: "buffered st < 64" using b by simp
  have n: "roundDouble (hashed st + length bytes) = length (m @ bytes)" using assms(2) l by simp
  let ?held = "take (buffered st) (blockBytes st)"
  have app: "absorbBlocks fipsBlock 64 initialWords (m @ bytes) = absorbBlocks fipsBlock 64 (hWords st) (?held @ bytes)"
    using absorb_append [of 64 fipsBlock initialWords m bytes] r by simp
  let ?st = "st\<lparr>hashed := length (m @ bytes)\<rparr>"
  consider "buffered st = 0" | "0 < buffered st" "buffered st + length bytes < 64"
    | "0 < buffered st" "64 \<le> buffered st + length bytes" by linarith
  then show ?thesis
  proof cases
    case 1
    have "represents (updateFrom bytes 0 ?st) (m @ bytes)"
      by (rule updateFrom_represents) (use 1 s app in auto)
    then show ?thesis using 1 n by (simp add: update_def Let_def)
  next
    case 2
    let ?count = "length bytes"
    have "min (64 - buffered st) (length bytes) = ?count" using 2 by simp
    then have u: "update bytes st = ?st\<lparr>blockBytes := setAt (blockBytes st) (buffered st) bytes,
        buffered := buffered st + ?count\<rparr>"
      using 2 n by (simp add: update_def Let_def)
    have "absorbBlocks fipsBlock 64 (hWords st) (?held @ bytes) = (hWords st, ?held @ bytes)"
      using 2 s by (intro absorb_short) simp
    moreover have "(length m + length bytes) mod 64 = buffered st + length bytes"
      using 2 b by (metis mod_add_left_eq mod_less)
    ultimately show ?thesis using 2 s app take_setAt [of "buffered st" bytes "blockBytes st"]
      by (simp add: represents_def u)
  next
    case 3
    let ?count = "64 - buffered st"
    have cnt: "min (64 - buffered st) (length bytes) = ?count" using 3 by simp
    let ?full = "?held @ take ?count bytes"
    have full: "setAt (blockBytes st) (buffered st) (take ?count bytes) = ?full"
      using 3 b64 s by (simp add: setAt_def)
    have len: "length ?full = 64" using 3 b64 s by simp
    have "compress (hWords st) ?full 0 = fipsBlock (hWords st) (take 64 (drop 0 ?full))"
      by (rule compress_fips) (use len s in linarith)+
    then have c: "compress (hWords st) ?full 0 = fipsBlock (hWords st) ?full"
      by (simp only: drop_0 take_all [OF eq_imp_le [OF len]])
    let ?st' = "?st\<lparr>blockBytes := ?full, hWords := fipsBlock (hWords st) ?full, buffered := 0\<rparr>"
    have u: "update bytes st = updateFrom bytes ?count ?st'"
      using 3 n b64 by (simp add: update_def Let_def cnt full c)
    have "absorbBlocks fipsBlock 64 (hWords st) (?held @ bytes)
        = absorbBlocks fipsBlock 64 (fipsBlock (hWords st) ?full) (drop ?count bytes)"
      using absorb_block [of 64 ?full fipsBlock "hWords st" "drop ?count bytes"] len by simp
    then show ?thesis unfolding u
      by (intro updateFrom_represents) (use 3 b64 len s app in simp_all)
  qed
qed

section \<open>Saving and restoring\<close>

lemma nth_piece:
  assumes "\<forall>x \<in> set xss. length x = k" and "i < length xss"
  shows "take k (drop (i * k) (concat xss)) = xss ! i"
  using assms
proof (induction xss arbitrary: i)
  case (Cons x xss)
  then show ?case by (cases i) auto
qed simp

lemma length_pieces: "\<forall>x \<in> set xss. length x = k \<Longrightarrow> length (concat xss) = k * length xss"
  by (induction xss) auto

lemma hexDigits: "\<forall>d < 16. digitOf d \<in> set ''0123456789abcdef''"
  by code_simp

lemma decimalDigits: "\<forall>d < 10. digitOf d \<in> set ''0123456789''"
  by code_simp

lemma firstDigits: "\<forall>d < 10. 0 < d \<longrightarrow> digitOf d \<in> set ''123456789''"
  by code_simp

lemma lowerHex_padded: "lowerHex (padStart k CHR ''0'' (toRadix 16 n))"
proof -
  have "set (toRadix 16 n) \<subseteq> set ''0123456789abcdef''"
  proof
    fix c assume "c \<in> set (toRadix 16 n)"
    then obtain d where "d < 16" and "c = digitOf d" using set_toRadix [of 16 n] by auto
    then show "c \<in> set ''0123456789abcdef''" using hexDigits by blast
  qed
  moreover have "CHR ''0'' \<in> set ''0123456789abcdef''" by simp
  ultimately have "set (padStart k CHR ''0'' (toRadix 16 n)) \<subseteq> set ''0123456789abcdef''"
    using set_padStart [of k "CHR ''0''" "toRadix 16 n"] by blast
  then show ?thesis unfolding lowerHex_def list_all_iff by blast
qed

lemma unat_bound: "unat (x :: 'a::len word) < 2 ^ LENGTH('a)"
  by (rule unsigned_less)

lemma length_hexWord [simp]: "length (hexWord x) = 8"
  using length_toRadix [of 16 "unat x" 8] unat_bound [of x]
  by (simp add: hexWord_def length_padStart)

lemma length_hexByte [simp]: "length (hexByte x) = 2"
  using length_toRadix [of 16 "unat x" 2] unat_bound [of x]
  by (simp add: hexByte_def length_padStart)

lemma read_hexWord [simp]: "word_of_nat (parseRadix 16 (hexWord x)) = x"
  by (simp add: hexWord_def)

lemma read_hexByte [simp]: "word_of_nat (parseRadix 16 (hexByte x)) = x"
  by (simp add: hexByte_def)

lemma lowerHex_concat: "lowerHex (concat xss) \<longleftrightarrow> list_all lowerHex xss"
  by (induction xss) (simp_all add: lowerHex_def)

lemma lowerHex_words: "lowerHex (concat (map hexWord ws))" and lowerHex_bytes: "lowerHex (concat (map hexByte bs))"
  by (auto simp: lowerHex_concat list_all_iff hexWord_def hexByte_def lowerHex_padded)

lemma lowerHex_colon: "lowerHex s \<Longrightarrow> CHR '':'' \<notin> set s"
proof
  assume "lowerHex s" and "CHR '':'' \<in> set s"
  then have "CHR '':'' \<in> set ''0123456789abcdef''" unfolding lowerHex_def list_all_iff by blast
  then show False by simp
qed

lemma toRadix_first:
  assumes "0 < n" and "2 \<le> r"
  shows "\<exists>d rest. 0 < d \<and> d < r \<and> toRadix r n = digitOf d # rest"
  using assms
proof (induction r n rule: toRadix.induct)
  case (1 r n)
  show ?case
  proof (cases "n < r")
    case True
    then show ?thesis using "1.prems" by (subst toRadix.simps) auto
  next
    case False
    then have "0 < n div r" using "1.prems" by (simp add: div_greater_zero_iff)
    with False 1 obtain d rest where "0 < d" "d < r" "toRadix r (n div r) = digitOf d # rest" by force
    then show ?thesis using False "1.prems" by (subst toRadix.simps) auto
  qed
qed

lemma decimal_digits: "list_all (\<lambda>c. c \<in> set ''0123456789'') (toRadix 10 n)"
  unfolding list_all_iff using set_toRadix [of 10 n] decimalDigits by fastforce

lemma decimalLength_printed:
  assumes "n < 2 ^ 53"
  shows "decimalLength (toRadix 10 n)"
proof (cases "n = 0")
  case True
  then show ?thesis by (simp add: toRadix.simps decimalLength_def digitOf_def)
next
  case False
  then obtain d rest where d: "0 < d" "d < 10" "toRadix 10 n = digitOf d # rest"
    using toRadix_first [of n 10] by auto
  have "length (toRadix 10 n) \<le> 16" using assms by (intro length_toRadix) simp_all
  moreover have "digitOf d \<in> set ''123456789''" using firstDigits d by blast
  ultimately show ?thesis
    using decimal_digits [of n] by (simp add: d decimalLength_def)
qed

lemma colon_decimal: "CHR '':'' \<notin> set (toRadix 10 n)"
proof
  assume "CHR '':'' \<in> set (toRadix 10 n)"
  then have "CHR '':'' \<in> set ''0123456789''" using decimal_digits [of n] unfolding list_all_iff by blast
  then show False by simp
qed

lemma restore_save:
  assumes "represents st m" and "length m < 2 ^ 53"
  shows "restore (save st)
    = Some (st\<lparr>blockBytes := setAt (replicate 64 0) 0 (take (buffered st) (blockBytes st))\<rparr>)"
proof -
  from assms have b: "buffered st = length m mod 64" "buffered st < 64" and l: "hashed st = length m" "hashed st < 2 ^ 53"
    and s: "length (blockBytes st) = 64" "length (hWords st) = 8" by (simp_all add: represents_def)
  let ?w = "concat (map hexWord (hWords st))" and ?l = "toRadix 10 (hashed st)"
  let ?held = "take (buffered st) (blockBytes st)"
  let ?t = "concat (map hexByte ?held)"
  have split: "splitOn CHR '':'' (save st) = [?w, ?l, ?t]"
    unfolding save_def append_Cons append_Nil
    by (simp only: splitOn_part [OF lowerHex_colon [OF lowerHex_words]] splitOn_part [OF colon_decimal]
      splitOn_last [OF lowerHex_colon [OF lowerHex_bytes]])
  have len: "length ?w = 64" "length ?t = 2 * buffered st"
    using s b(2) length_pieces [of "map hexWord (hWords st)" 8] length_pieces [of "map hexByte ?held" 2] by auto
  have pattern: "sha256StatePattern (save st)"
    unfolding sha256StatePattern_def split list.case
    using len b(2) lowerHex_words lowerHex_bytes decimalLength_printed [OF l(2)] by simp
  have words: "map (\<lambda>i. word_of_nat (parseRadix 16 (take 8 (drop (i * 8) ?w)))) [0..<8] = hWords st"
    by (rule nth_equalityI) (use s nth_piece [of "map hexWord (hWords st)" 8] in auto)
  have bytes: "map (\<lambda>i. word_of_nat (parseRadix 16 (take 2 (drop (i * 2) ?t)))) [0..<buffered st] = ?held"
    by (rule nth_equalityI) (use s b nth_piece [of "map hexByte ?held" 2] in auto)
  have "2 * buffered st div 2 = buffered st" and "hashed st mod 64 = buffered st"
    and "roundDouble (parseRadix 10 ?l) = hashed st" using b l by simp_all
  then have "restore (save st) = Some \<lparr>hWords = hWords st, blockBytes = setAt (replicate 64 0) 0 ?held,
      buffered = buffered st, hashed = hashed st\<rparr>"
    using pattern by (simp only: restore_def split list.case Let_def words len bytes if_True if_False simp_thms not_True_eq_False)
  then show ?thesis by simp
qed

lemma represents_restored:
  assumes "represents st m" and "restore (save st) = Some st'" and "length m < 2 ^ 53"
  shows "represents st' m"
  using assms restore_save [OF assms(1,3)]
  by (auto simp: represents_def setAt_def)

section \<open>Padding\<close>

lemma setAt_parts:
  "length ys' = length ys \<Longrightarrow> k = length xs \<Longrightarrow> setAt (xs @ ys @ zs) k ys' = xs @ ys' @ zs"
  by (simp add: setAt_def)

lemma byte_of_nat_eq: "(word_of_nat a :: byte) = word_of_nat b \<longleftrightarrow> a mod 256 = b mod 256"
  by (simp add: word_of_nat_eq_iff take_bit_eq_mod)

lemma low_byte:
  assumes "k + 8 \<le> 32"
  shows "n mod 2 ^ 32 div 2 ^ k mod 256 = n div 2 ^ k mod (256 :: nat)"
proof -
  have "n mod 2 ^ 32 div 2 ^ k = n div 2 ^ k mod 2 ^ (32 - k)"
    using div_exp_mod_exp_eq [of n k "32 - k"] assms by simp
  moreover have "(2 :: nat) ^ 8 dvd 2 ^ (32 - k)" by (rule le_imp_power_dvd) (use assms in simp)
  then have "(256 :: nat) dvd 2 ^ (32 - k)" by simp
  ultimately show ?thesis by (simp only: mod_mod_cancel)
qed

lemma lengthBytes:
  "[word_of_nat (n div 2 ^ 32 div 2 ^ 24), word_of_nat (n div 2 ^ 32 div 2 ^ 16), word_of_nat (n div 2 ^ 32 div 2 ^ 8), word_of_nat (n div 2 ^ 32)]
   @ [word_of_nat (n mod 2 ^ 32 div 2 ^ 24), word_of_nat (n mod 2 ^ 32 div 2 ^ 16), word_of_nat (n mod 2 ^ 32 div 2 ^ 8), word_of_nat (n mod 2 ^ 32)]
   = map (\<lambda>i. word_of_nat (n div 256 ^ (7 - i)) :: byte) [0..<8]"
proof -
  have "[0..<8] = [0, 1, 2, 3, 4, 5, 6, 7 :: nat]" by (simp add: upt_rec)
  moreover have "n mod 2 ^ 32 mod 256 = n mod 256" using low_byte [of 0 n] by simp
  ultimately show ?thesis using low_byte [of 24 n] low_byte [of 16 n] low_byte [of 8 n]
    by (simp add: byte_of_nat_eq div_mult2_eq [symmetric])
qed

lemma paddingOf_message:
  assumes "represents st m"
  shows "m @ paddingOf st = padMessage m"
proof -
  from assms have b: "buffered st = length m mod 64" "buffered st < 64" and l: "hashed st = length m"
    by (simp_all add: represents_def)
  let ?p = "(if buffered st < 56 then 56 else 120) - buffered st + 8"
  let ?z = "(119 - buffered st) mod 64"
  let ?n = "length m * 8"
  let ?hi = "[word_of_nat (?n div 2 ^ 32 div 2 ^ 24), word_of_nat (?n div 2 ^ 32 div 2 ^ 16),
      word_of_nat (?n div 2 ^ 32 div 2 ^ 8), word_of_nat (?n div 2 ^ 32)] :: byte list"
  let ?lo = "[word_of_nat (?n mod 2 ^ 32 div 2 ^ 24), word_of_nat (?n mod 2 ^ 32 div 2 ^ 16),
      word_of_nat (?n mod 2 ^ 32 div 2 ^ 8), word_of_nat (?n mod 2 ^ 32)] :: byte list"
  have p: "?p = Suc (?z + (4 + 4))" using b(2) by (simp add: mod_if)
  let ?head = "0x80 # replicate ?z 0 :: byte list"
  have start: "(replicate ?p 0)[0 := 0x80] = ?head @ replicate 4 0 @ replicate 4 0"
    unfolding p by (simp only: replicate_Suc replicate_add list_update_code append_Cons)
  have one: "setAt (?head @ replicate 4 0 @ replicate 4 0) (?p - 8) ?hi = ?head @ ?hi @ replicate 4 0"
    by (rule setAt_parts) (simp_all only: p, simp_all)
  have two: "setAt ((?head @ ?hi) @ replicate 4 0 @ []) (?p - 4) ?lo = (?head @ ?hi) @ ?lo @ []"
    by (rule setAt_parts) (simp_all only: p, simp_all)
  have "paddingOf st = ?head @ ?hi @ ?lo"
    using one two unfolding paddingOf_def setUint32_def Let_def start l
    by (simp only: length_append length_replicate append_assoc append_Nil2) (simp add: p)
  then have "paddingOf st = ?head @ map (\<lambda>i. word_of_nat (?n div 256 ^ (7 - i))) [0..<8]"
    by (simp only: lengthBytes)
  then show ?thesis using b by (simp add: padMessage_def)
qed

lemma digest_represents:
  assumes "represents st m" and "length m + 128 \<le> 2 ^ 53"
  shows "digest st = Some (''sha256:'' @ concat (map hexWord (sha256 m)))"
proof -
  obtain final where f: "restore (save st) = Some final" using restore_save [OF assms(1)] assms(2) by auto
  have r: "represents final m" by (rule represents_restored [OF assms(1) f]) (use assms(2) in simp)
  have "length (paddingOf st) < 128"
    by (auto simp: paddingOf_def setUint32_def Let_def)
  then have "represents (update (paddingOf st) final) (m @ paddingOf st)"
    by (intro represents_update [OF r]) (use assms(2) in simp)
  then show ?thesis using f by (simp add: digest_def represents_def sha256_def paddingOf_message [OF assms(1)])
qed

section \<open>A file hashed across requests\<close>

text \<open>Each request resumes from the saved state, hashes its own pieces and saves again.\<close>

fun resumeAcross ::
    "('s \<Rightarrow> string) \<Rightarrow> (string \<Rightarrow> 's option) \<Rightarrow> (byte list \<Rightarrow> 's \<Rightarrow> 's) \<Rightarrow> byte list list list \<Rightarrow> string \<Rightarrow> string option" where
  "resumeAcross sav res upd [] state = Some state"
| "resumeAcross sav res upd (request # requests) state =
     Option.bind (res state) (\<lambda>st. resumeAcross sav res upd requests (sav (foldl (\<lambda>st bytes. upd bytes st) st request)))"

text \<open>What a service that hashes in pieces relies on.\<close>

locale resumable_hash =
  fixes upd :: "byte list \<Rightarrow> 's \<Rightarrow> 's" and sav :: "'s \<Rightarrow> string" and res :: "string \<Rightarrow> 's option"
    and stands :: "'s \<Rightarrow> byte list \<Rightarrow> bool" and limit :: nat
  assumes update_stands: "stands st m \<Longrightarrow> length m + length bytes < limit \<Longrightarrow> stands (upd bytes st) (m @ bytes)"
    and resume_stands: "stands st m \<Longrightarrow> length m < limit \<Longrightarrow> \<exists>st'. res (sav st) = Some st' \<and> stands st' m"
begin

lemma updates_stand:
  "stands st m \<Longrightarrow> length m + length (concat pieces) < limit
    \<Longrightarrow> stands (foldl (\<lambda>st bytes. upd bytes st) st pieces) (m @ concat pieces)"
proof (induction pieces arbitrary: st m)
  case (Cons bytes pieces)
  have "stands (upd bytes st) (m @ bytes)" using Cons.prems by (intro update_stands) simp_all
  from Cons.IH [OF this] Cons.prems show ?case by simp
qed simp

lemma across_stands:
  "stands st m \<Longrightarrow> length m + length (concat (concat requests)) < limit
    \<Longrightarrow> \<exists>st'. resumeAcross sav res upd requests (sav st) = Some (sav st') \<and> stands st' (m @ concat (concat requests))"
proof (induction requests arbitrary: st m)
  case (Cons request requests)
  obtain st' where st': "res (sav st) = Some st'" "stands st' m" using resume_stands Cons.prems by fastforce
  have "stands (foldl (\<lambda>st bytes. upd bytes st) st' request) (m @ concat request)"
    using st'(2) Cons.prems(2) by (intro updates_stand) simp_all
  from Cons.IH [OF this] Cons.prems(2) st'(1) show ?case by simp
qed auto

end

lemma resume_represents:
  "represents st m \<Longrightarrow> length m < 2 ^ 53 \<Longrightarrow> \<exists>st'. restore (save st) = Some st' \<and> represents st' m"
  using restore_save represents_restored by blast

interpretation pieces: resumable_hash update save restore represents "2 ^ 53"
  by unfold_locales (simp_all only: represents_update resume_represents)

text \<open>
  C18. Hash a file in pieces, over any number of requests that each restore the saved state, update
  it with their pieces and save it: no restore is refused, and the digest of the final state is the
  FIPS 180-4 SHA-256 of the whole file (shorter than 2^53 - 128 bytes), whatever the pieces.
\<close>

theorem digest_across_requests:
  assumes "length (concat (concat requests)) + 128 \<le> 2 ^ 53"
  shows "\<exists>state st. resumeAcross save restore update requests (save freshState) = Some state
    \<and> restore state = Some st
    \<and> digest st = Some (''sha256:'' @ concat (map hexWord (sha256 (concat (concat requests)))))"
proof -
  obtain st where st: "resumeAcross save restore update requests (save freshState) = Some (save st)"
    "represents st (concat (concat requests))"
    using pieces.across_stands [OF represents_fresh, of requests] assms by auto
  obtain st' where "restore (save st) = Some st'" "represents st' (concat (concat requests))"
    using resume_represents [OF st(2)] assms by auto
  with st(1) digest_represents [OF _ assms] show ?thesis by blast
qed

theorem digest_across_requests_witness:
  "\<exists>state st. resumeAcross save restore update [[[0x61], [0x62]], [], [[0x63]]] (save freshState) = Some state
    \<and> restore state = Some st \<and> digest st = Some (''sha256:'' @ concat (map hexWord (sha256 [0x61, 0x62, 0x63])))"
  using digest_across_requests [of "[[[0x61], [0x62]], [], [[0x63]]]"] by simp

section \<open>The tables\<close>

lemma smallFactor: "\<forall>k \<in> set [2..<18]. list_ex (\<lambda>q. q \<le> k \<and> k mod q = 0) [2, 3, 5, 7, 11, 13, 17]"
  by (simp add: upt_rec)

lemma isPrime_small:
  assumes "p < 324"
  shows "isPrime p \<longleftrightarrow> 2 \<le> p \<and> list_all (\<lambda>q. p \<le> q \<or> p mod q \<noteq> 0) [2, 3, 5, 7, 11, 13, 17]"
    (is "_ \<longleftrightarrow> _ \<and> list_all ?free ?qs")
proof
  assume "isPrime p"
  then have "2 \<le> p" and nd: "\<forall>d \<in> set [2..<p]. \<not> d dvd p" by (simp_all add: isPrime_def)
  have free: "?free q" if "2 \<le> q" for q
    using bspec [OF nd, of q] that
    by (cases "p \<le> q") (simp_all only: set_upt atLeastLessThan_iff dvd_eq_mod_eq_0 not_le, blast+)
  then show "2 \<le> p \<and> list_all ?free ?qs" using \<open>2 \<le> p\<close> unfolding list.pred_inject
    by (intro conjI TrueI free) simp_all
next
  assume p: "2 \<le> p \<and> list_all ?free ?qs"
  have "\<not> d dvd p" if d: "2 \<le> d" "d < p" for d
  proof
    assume "d dvd p"
    then obtain e where e: "p = d * e" by (auto simp: dvd_def)
    have "2 \<le> e" using e d by (cases e; cases "e - 1") auto
    have "d < 18 \<or> e < 18"
    proof (rule ccontr)
      assume "\<not> (d < 18 \<or> e < 18)"
      then have "18 * 18 \<le> d * e" by (intro mult_mono) auto
      then show False using e assms by simp
    qed
    moreover have "e < p" using e d \<open>2 \<le> e\<close> by simp
    moreover have "d dvd p" "e dvd p" using e by simp_all
    ultimately have "\<exists>k. 2 \<le> k \<and> k < 18 \<and> k < p \<and> k dvd p" using d \<open>2 \<le> e\<close>
      by (cases "d < 18") (rule exI [of _ d], simp, rule exI [of _ e], simp)
    then obtain k where k: "2 \<le> k" "k < 18" "k < p" "k dvd p" by (elim exE conjE)
    then have "list_ex (\<lambda>q. q \<le> k \<and> k mod q = 0) ?qs"
      by (intro bspec [OF smallFactor]) (simp only: set_upt atLeastLessThan_iff)
    then obtain q where q: "q \<in> set ?qs" "q \<le> k" "k mod q = 0" unfolding list_ex_iff by (elim bexE conjE)
    then have "q dvd p" using k(4) by (meson dvd_trans mod_eq_0_iff_dvd)
    moreover have "?free q" using p q(1) unfolding list_all_iff by (elim conjE bspec)
    ultimately show False using k q(2) by (simp add: dvd_eq_mod_eq_0)
  qed
  then show "isPrime p" using p by (simp add: isPrime_def)
qed

lemma filter_cong_upt: "(\<And>p. p < n \<Longrightarrow> P p = Q p) \<Longrightarrow> filter P [m..<n] = filter Q [m..<n]"
  by (rule filter_cong) auto

lemma primes: "filter isPrime [2..<312] = [2, 3, 5, 7, 11, 13, 17, 19, 23, 29, 31, 37, 41, 43, 47, 53, 59, 61, 67, 71, 73, 79, 83, 89, 97, 101,
  103, 107, 109, 113, 127, 131, 137, 139, 149, 151, 157, 163, 167, 173, 179, 181, 191, 193, 197, 199, 211, 223, 227, 229, 233, 239, 241, 251, 257,
  263, 269, 271, 277, 281, 283, 293, 307, 311]"
proof -
  have "filter isPrime [2..<312] = filter (\<lambda>p. 2 \<le> p \<and> list_all (\<lambda>q. p \<le> q \<or> p mod q \<noteq> 0) [2, 3, 5, 7, 11, 13, 17]) [2..<312]"
    by (rule filter_cong_upt) (simp only: isPrime_small)
  then show ?thesis by (simp add: upt_rec)
qed

text \<open>The whole part of the root, so that each fraction is checked at one place.\<close>

fun wholeRoot :: "nat \<Rightarrow> nat \<Rightarrow> nat" where
  "wholeRoot e p = length (filter (\<lambda>q. q ^ e \<le> p) [1, 2, 3, 4, 5, 6])"

lemma rootFraction_at:
  "(let r = wholeRoot e p * 2 ^ 32 + unat k; n = p * 2 ^ (32 * e) in r ^ e \<le> n \<and> n < (r + 1) ^ e) \<Longrightarrow> rootFraction e k p"
  unfolding rootFraction_def Let_def
  by (rule bexI [of _ "wholeRoot e p"], assumption)
    (simp add: le_less_trans [OF length_filter_le])

lemma primes_small: "filter isPrime [2..<20] = [2, 3, 5, 7, 11, 13, 17, 19]"
proof -
  have "filter isPrime [2..<20] = filter (\<lambda>p. 2 \<le> p \<and> list_all (\<lambda>q. p \<le> q \<or> p mod q \<noteq> 0) [2, 3, 5, 7, 11, 13, 17]) [2..<20]"
    by (rule filter_cong_upt) (simp only: isPrime_small)
  then show ?thesis by (simp add: upt_rec)
qed

text \<open>
  The tables are the standard's: \<open>K\<close> holds the first 32 bits of the fractional parts of the
  cube roots of the first 64 primes, and the initial words those of the square roots of the first 8.
\<close>

theorem constants_standard:
  "list_all2 (rootFraction 3) K (filter isPrime [2..<312])
   \<and> list_all2 (rootFraction 2) initialWords (filter isPrime [2..<20])"
  unfolding primes primes_small K_def initialWords_def by (simp add: rootFraction_at)

end
