(* ===== verification/Storage_Breaker.thy ===== *)
theory Storage_Breaker
  imports Prelude
begin

text \<open>
  \<open>protocol/src/storage-breaker.ts\<close>: a Durable Object counts the rows it writes and, past a budget,
  refuses every storage call until someone resumes it. The state is the closure's variables, the
  object's storage as the breaker sees it, and the deferred writes that \<open>enter\<close> leaves to a timer.

  Row contents are a parameter: \<open>run\<close> is the platform's storage, which answers a call with the rows
  the statement wrote, or throws. The calls that a transaction's closure makes are calls of their
  own, and its end is an event: a rollback puts back the rows and the alarm of its start, the counts
  stay. The flag row is written by a timer, so never within a synchronous transaction; that an asynchronous
  one which is open across the timer would take the flag row back too is not modelled.
  A synchronous handler reads the clock once. Two quarantines entered at different times are
  different objects, so each carries the number of the \<open>enter\<close> that made it.
\<close>

section \<open>State\<close>

definition STORAGE_BREAKER_ROWS :: int where "STORAGE_BREAKER_ROWS = 2000000"

definition STORAGE_BREAKER_WINDOW_MS :: int where "STORAGE_BREAKER_WINDOW_MS = 10 * 60000"

definition MINUTE_MS :: int where "MINUTE_MS = 60000"

record FlagRow =
  flagReason :: "string option"
  flagSince :: "instant option"
  flagResumedAt :: "instant option"
  flagAlarmAt :: "instant option"

text \<open>\<open>flagTable\<close> is \<open>None\<close> where the table does not exist, \<open>Some None\<close> where it is empty.\<close>

record 'd storage =
  rows :: 'd
  hasSql :: bool
  alarmAt :: "instant option"
  flagTable :: "FlagRow option option"
  legacyTable :: bool

record Held =
  heldReason :: string
  heldSince :: instant
  entry :: nat

record StorageBreakerStatus =
  quarantined :: bool
  statusReason :: "string option"
  statusSince :: "instant option"
  statusResumedAt :: "instant option"
  rowsWritten :: int
  statusLimit :: int
  windowMs :: int

datatype deferred = Waiting nat | HasAlarm nat "instant option"

record 'd breaker =
  storage :: "'d storage"
  limit :: int
  held :: "Held option"
  resumedAt :: "instant option"
  cancelledAlarm :: "instant option"
  minutes :: "(int \<times> int) list"
  timers :: "deferred list"
  entries :: nat
  trips :: "StorageBreakerStatus list"

datatype keys = KeyList "string list" | KeyedValues "string list" | SingleKey

datatype 'q storage_call =
  Exec 'q | Put keys | Delete keys | DeleteAll | SetAlarm instant | DeleteAlarm
| Get | ListKeys | GetAlarm | Transaction | TransactionSync

datatype 'a outcome = Refused string instant | Threw | Answer 'a

section \<open>Counting\<close>

fun keyRows :: "keys \<Rightarrow> int" where
  "keyRows (KeyList ks) = int (length ks)"
| "keyRows (KeyedValues ks) = int (length ks)"
| "keyRows SingleKey = 1"

definition floorMinute :: "instant \<Rightarrow> int" where
  "floorMinute now = (now - STORAGE_BREAKER_WINDOW_MS) div MINUTE_MS"

definition inWindow :: "instant \<Rightarrow> (int \<times> int) list \<Rightarrow> (int \<times> int) list" where
  "inWindow now ms = filter (\<lambda>(minute, _). floorMinute now < minute) ms"

definition windowRows :: "instant \<Rightarrow> 'd breaker \<Rightarrow> int \<times> 'd breaker" where
  "windowRows now b =
     (let kept = inWindow now (minutes b) in (sum_list (map snd kept), b\<lparr>minutes := kept\<rparr>))"

definition status :: "instant \<Rightarrow> 'd breaker \<Rightarrow> StorageBreakerStatus \<times> 'd breaker" where
  "status now b =
     (case windowRows now b of (written, b) \<Rightarrow>
       (\<lparr>quarantined = held b \<noteq> None, statusReason = map_option heldReason (held b),
         statusSince = map_option heldSince (held b), statusResumedAt = resumedAt b,
         rowsWritten = written, statusLimit = limit b, windowMs = STORAGE_BREAKER_WINDOW_MS\<rparr>, b))"

text \<open>\<open>toLocaleString('en-US')\<close> of an integer: digits in groups of three.\<close>

fun grouped :: "nat \<Rightarrow> string" where
  "grouped n =
     (if n < 1000 then toRadix 10 n
      else grouped (n div 1000) @ '','' @ padStart 3 CHR ''0'' (toRadix 10 (n mod 1000)))"

declare grouped.simps [simp del]

definition locale_string :: "int \<Rightarrow> string" where
  "locale_string i = (if i < 0 then ''-'' @ grouped (nat (- i)) else grouped (nat i))"

definition writeFlag :: "'d breaker \<Rightarrow> 'd breaker" where
  "writeFlag b =
     (if hasSql (storage b)
      then b\<lparr>storage := (storage b)\<lparr>flagTable := Some (Some
             \<lparr>flagReason = map_option heldReason (held b), flagSince = map_option heldSince (held b),
              flagResumedAt = resumedAt b, flagAlarmAt = cancelledAlarm b\<rparr>)\<rparr>\<rparr>
      else b)"

definition enter :: "instant \<Rightarrow> string \<Rightarrow> 'd breaker \<Rightarrow> 'd breaker" where
  "enter now why b =
     b\<lparr>held := Some \<lparr>heldReason = why, heldSince = now, entry = entries b\<rparr>,
       timers := timers b @ [Waiting (entries b)], entries := Suc (entries b)\<rparr>"

definition tripReason :: "int \<Rightarrow> int \<Rightarrow> string" where
  "tripReason written lim = ''wrote '' @ locale_string written @ '' rows within '' @ locale_string (STORAGE_BREAKER_WINDOW_MS div MINUTE_MS)
     @ '' minutes (limit '' @ locale_string lim @ '')''"

definition addRows :: "int \<Rightarrow> int \<Rightarrow> (int \<times> int) list \<Rightarrow> (int \<times> int) list" where
  "addRows minute n ms =
     (if ms \<noteq> [] \<and> fst (last ms) = minute then butlast ms @ [(minute, snd (last ms) + n)]
      else ms @ [(minute, n)])"

definition count :: "instant \<Rightarrow> int \<Rightarrow> 'd breaker \<Rightarrow> 'd breaker" where
  "count now n b =
     (if n \<le> 0 then b
      else let b = b\<lparr>minutes := addRows (now div MINUTE_MS) n (minutes b)\<rparr> in
        case windowRows now b of (written, b) \<Rightarrow>
          if held b \<noteq> None \<or> written \<le> limit b then b
          else let b = enter now (tripReason written (limit b)) b in
            case status now b of (st, b) \<Rightarrow> b\<lparr>trips := trips b @ [st]\<rparr>)"

section \<open>The deferred write\<close>

text \<open>The timer's callback reads the alarm (\<open>None\<close> where that fails); its continuation writes the flag.\<close>

definition fireTimer :: "nat \<Rightarrow> bool \<Rightarrow> 'd breaker \<Rightarrow> 'd breaker" where
  "fireTimer i read b =
     (case if i < length (timers b) then Some (timers b ! i) else None of
        Some (Waiting entered) \<Rightarrow>
          b\<lparr>timers := (timers b)[i := HasAlarm entered (if read then alarmAt (storage b) else None)]\<rparr>
      | _ \<Rightarrow> b)"

definition continueTimer :: "nat \<Rightarrow> bool \<Rightarrow> 'd breaker \<Rightarrow> 'd breaker" where
  "continueTimer i deletes b =
     (case if i < length (timers b) then Some (timers b ! i) else None of
        Some (HasAlarm entered alarm) \<Rightarrow>
          let b = b\<lparr>timers := take i (timers b) @ drop (Suc i) (timers b)\<rparr> in
          if map_option entry (held b) \<noteq> Some entered then b
          else let b = writeFlag (b\<lparr>cancelledAlarm := (case alarm of Some a \<Rightarrow> Some a | None \<Rightarrow> cancelledAlarm b)\<rparr>) in
            if deletes then b\<lparr>storage := (storage b)\<lparr>alarmAt := None\<rparr>\<rparr> else b
      | _ \<Rightarrow> b)"

section \<open>The patched storage\<close>

fun rowsOf :: "'q storage_call \<Rightarrow> int \<Rightarrow> int" where
  "rowsOf (Exec q) written = written"
| "rowsOf (Put ks) written = keyRows ks"
| "rowsOf (Delete ks) written = keyRows ks"
| "rowsOf DeleteAll written = 1"
| "rowsOf (SetAlarm t) written = 1"
| "rowsOf DeleteAlarm written = 1"
| "rowsOf _ written = 0"

fun alarmAfter :: "'q storage_call \<Rightarrow> instant option \<Rightarrow> instant option" where
  "alarmAfter (SetAlarm t) alarm = Some t"
| "alarmAfter DeleteAlarm alarm = None"
| "alarmAfter _ alarm = alarm"

type_synonym ('q, 'd, 'a) platform = "'q storage_call \<Rightarrow> 'd \<Rightarrow> ('a \<times> int) option \<times> 'd"

definition guard :: "bool \<Rightarrow> 'd breaker \<Rightarrow> (string \<times> instant) option" where
  "guard exempt b =
     (case held b of Some h \<Rightarrow> if exempt then None else Some (heldReason h, heldSince h) | None \<Rightarrow> None)"

definition patched :: "('q, 'd, 'a) platform \<Rightarrow> bool \<Rightarrow> instant \<Rightarrow> 'q storage_call \<Rightarrow> 'd breaker \<Rightarrow> 'a outcome \<times> 'd breaker" where
  "patched run exempt now c b =
     (case guard exempt b of
        Some (why, since) \<Rightarrow> (Refused why since, b)
      | None \<Rightarrow>
          (case run c (rows (storage b)) of
             (None, d) \<Rightarrow> (Threw, b\<lparr>storage := (storage b)\<lparr>rows := d\<rparr>\<rparr>)
           | (Some (answer, written), d) \<Rightarrow>
               (Answer answer, count now (rowsOf c written)
                 (b\<lparr>storage := (storage b)\<lparr>rows := d, alarmAt := alarmAfter c (alarmAt (storage b))\<rparr>\<rparr>))))"

section \<open>The breaker's own methods\<close>

definition quarantine :: "instant \<Rightarrow> string \<Rightarrow> 'd breaker \<Rightarrow> StorageBreakerStatus \<times> 'd breaker" where
  "quarantine now why b = status now (if held b = None then enter now why b else b)"

text \<open>\<open>sets\<close>: whether the alarm could be set again (a failure is ignored).\<close>

definition resume :: "instant \<Rightarrow> bool \<Rightarrow> 'd breaker \<Rightarrow> StorageBreakerStatus \<times> 'd breaker" where
  "resume now sets b =
     (let alarm = cancelledAlarm b;
          b = writeFlag (b\<lparr>held := None, minutes := [], cancelledAlarm := None, resumedAt := Some now\<rparr>);
          b = (case alarm of
                 Some a \<Rightarrow> if sets then b\<lparr>storage := (storage b)\<lparr>alarmAt := Some (max a now)\<rparr>\<rparr> else b
               | None \<Rightarrow> b)
      in status now b)"

definition installStorageBreaker :: "int option \<Rightarrow> 'd storage \<Rightarrow> 'd breaker" where
  "installStorageBreaker lim s =
     (let s = (if hasSql s then s\<lparr>legacyTable := False\<rparr> else s);
          stored = (if hasSql s then (case flagTable s of Some row \<Rightarrow> row | None \<Rightarrow> None) else None)
      in \<lparr>storage = s, limit = (case lim of Some l \<Rightarrow> l | None \<Rightarrow> STORAGE_BREAKER_ROWS),
          held = (case stored of
                    Some row \<Rightarrow> (case (flagReason row, flagSince row) of
                        (Some why, Some since) \<Rightarrow> Some \<lparr>heldReason = why, heldSince = since, entry = 0\<rparr>
                      | _ \<Rightarrow> None)
                  | None \<Rightarrow> None),
          resumedAt = Option.bind stored flagResumedAt,
          cancelledAlarm = Option.bind stored flagAlarmAt,
          minutes = [], timers = [], entries = 1, trips = []\<rparr>)"

section \<open>A Durable Object under the breaker\<close>

text \<open>\<open>opened\<close> has what each transaction that is open would be rolled back to, the innermost first.\<close>

record 'd object =
  breaker :: "'d breaker"
  constructing :: bool
  starting :: nat
  opened :: "('d \<times> instant option) list"

definition installDurableObjectBreaker :: "int option \<Rightarrow> 'd storage \<Rightarrow> 'd object" where
  "installDurableObjectBreaker lim s =
     \<lparr>breaker = installStorageBreaker lim s, constructing = True, starting = 0, opened = []\<rparr>"

definition exempt :: "'d object \<Rightarrow> bool" where
  "exempt x \<longleftrightarrow> constructing x \<or> 0 < starting x"

datatype 'q event =
  Call "'q storage_call" | Quarantine string | Resume bool | Timer nat bool | Continue nat bool
| BlockConcurrencyWhile | BlockSettled | Microtask | Closes bool

text \<open>A call that opens a transaction, and its end: \<open>Closes True\<close> commits, \<open>Closes False\<close> rolls back.\<close>

definition opensTransaction :: "'q storage_call \<Rightarrow> bool" where
  "opensTransaction c \<longleftrightarrow> (case c of Transaction \<Rightarrow> True | TransactionSync \<Rightarrow> True | _ \<Rightarrow> False)"

definition callObject :: "('q, 'd, 'a) platform \<Rightarrow> instant \<Rightarrow> 'q storage_call \<Rightarrow> 'd object \<Rightarrow> 'd object" where
  "callObject run now c x =
     (case patched run (exempt x) now c (breaker x) of
        (Answer a, b) \<Rightarrow>
          x\<lparr>breaker := b, opened := (if opensTransaction c then [(rows (storage (breaker x)), alarmAt (storage (breaker x)))] else []) @ opened x\<rparr>
      | (_, b) \<Rightarrow> x\<lparr>breaker := b\<rparr>)"

definition closeTransaction :: "bool \<Rightarrow> 'd object \<Rightarrow> 'd object" where
  "closeTransaction commits x =
     (case opened x of
        [] \<Rightarrow> x
      | (d, alarm) # outer \<Rightarrow>
          if commits then x\<lparr>opened := outer\<rparr>
          else x\<lparr>opened := outer,
            breaker := (breaker x)\<lparr>storage := (storage (breaker x))\<lparr>rows := d, alarmAt := alarm\<rparr>\<rparr>\<rparr>)"

text \<open>Only the blocks started during construction are counted, and only those settle the count.\<close>

fun happen :: "('q, 'd, 'a) platform \<Rightarrow> 'd object \<Rightarrow> instant \<times> 'q event \<Rightarrow> 'd object" where
  "happen run x (now, Call c) = callObject run now c x"
| "happen run x (now, Quarantine why) = x\<lparr>breaker := snd (quarantine now why (breaker x))\<rparr>"
| "happen run x (now, Resume sets) = x\<lparr>breaker := snd (resume now sets (breaker x))\<rparr>"
| "happen run x (now, Timer i read) = x\<lparr>breaker := fireTimer i read (breaker x)\<rparr>"
| "happen run x (now, Continue i deletes) = x\<lparr>breaker := continueTimer i deletes (breaker x)\<rparr>"
| "happen run x (now, BlockConcurrencyWhile) = (if constructing x then x\<lparr>starting := Suc (starting x)\<rparr> else x)"
| "happen run x (now, BlockSettled) = x\<lparr>starting := starting x - 1\<rparr>"
| "happen run x (now, Microtask) = x\<lparr>constructing := False\<rparr>"
| "happen run x (now, Closes commits) = closeTransaction commits x"

section \<open>What the operations keep\<close>

lemma windowRows_fields [simp]:
  "held (snd (windowRows now b)) = held b" "storage (snd (windowRows now b)) = storage b"
  "timers (snd (windowRows now b)) = timers b" "limit (snd (windowRows now b)) = limit b"
  "resumedAt (snd (windowRows now b)) = resumedAt b" "cancelledAlarm (snd (windowRows now b)) = cancelledAlarm b"
  "minutes (snd (windowRows now b)) = inWindow now (minutes b)" "fst (windowRows now b) = sum_list (map snd (inWindow now (minutes b)))"
  "trips (snd (windowRows now b)) = trips b"
  by (simp_all add: windowRows_def Let_def)

lemma status_snd [simp]: "snd (status now b) = snd (windowRows now b)"
  by (simp add: status_def split: prod.split)

lemma enter_fields [simp]:
  "storage (enter now why b) = storage b" "limit (enter now why b) = limit b" "minutes (enter now why b) = minutes b"
  "held (enter now why b) = Some \<lparr>heldReason = why, heldSince = now, entry = entries b\<rparr>"
  "timers (enter now why b) = timers b @ [Waiting (entries b)]" "trips (enter now why b) = trips b"
  by (simp_all add: enter_def)

lemma inWindow_idem [simp]: "inWindow now (inWindow now ms) = inWindow now ms"
  by (simp add: inWindow_def)

lemma count_cases:
  obtains (nothing) "n \<le> 0" "count now n b = b"
  | (quiet) "0 < n" "held b \<noteq> None \<or> sum_list (map snd (inWindow now (addRows (now div MINUTE_MS) n (minutes b)))) \<le> limit b"
      "count now n b = b\<lparr>minutes := inWindow now (addRows (now div MINUTE_MS) n (minutes b))\<rparr>"
  | (trip) st why where "0 < n" "held b = None" "limit b < sum_list (map snd (inWindow now (addRows (now div MINUTE_MS) n (minutes b))))"
      "count now n b = (enter now why (b\<lparr>minutes := inWindow now (addRows (now div MINUTE_MS) n (minutes b))\<rparr>))\<lparr>trips := trips b @ [st]\<rparr>"
proof -
  let ?ms = "inWindow now (addRows (now div MINUTE_MS) n (minutes b))"
  let ?b = "b\<lparr>minutes := ?ms\<rparr>"
  have w: "windowRows now (b\<lparr>minutes := addRows (now div MINUTE_MS) n (minutes b)\<rparr>) = (sum_list (map snd ?ms), ?b)"
    by (simp add: windowRows_def Let_def)
  consider "n \<le> 0" | "0 < n" "held b \<noteq> None \<or> sum_list (map snd ?ms) \<le> limit b"
    | "0 < n" "held b = None" "limit b < sum_list (map snd ?ms)" by force
  then show thesis
  proof cases
    case 1
    show ?thesis by (rule nothing) (use 1 in \<open>simp_all add: count_def\<close>)
  next
    case 2
    show ?thesis by (rule quiet) (use 2 w in \<open>auto simp: count_def\<close>)
  next
    case 3
    let ?why = "tripReason (sum_list (map snd ?ms)) (limit b)"
    have e: "snd (windowRows now (enter now ?why ?b)) = enter now ?why ?b"
      by (simp add: windowRows_def Let_def enter_def)
    obtain st where st: "status now (enter now ?why ?b) = (st, enter now ?why ?b)"
      using e status_snd by (metis prod.collapse)
    have "count now n b = (enter now ?why ?b)\<lparr>trips := trips b @ [st]\<rparr>"
      using 3 w st by (simp add: count_def Let_def)
    then show ?thesis by (rule trip [OF 3])
  qed
qed

lemma count_held: "held b = Some h \<Longrightarrow> held (count now n b) = Some h"
  by (cases rule: count_cases [where n = n and now = now and b = b]) simp_all

lemma count_storage [simp]: "storage (count now n b) = storage b"
  by (cases rule: count_cases [where n = n and now = now and b = b]) simp_all

lemma writeFlag_fields [simp]:
  "held (writeFlag b) = held b" "timers (writeFlag b) = timers b" "rows (storage (writeFlag b)) = rows (storage b)"
  "hasSql (storage (writeFlag b)) = hasSql (storage b)" "alarmAt (storage (writeFlag b)) = alarmAt (storage b)"
  "limit (writeFlag b) = limit b" "minutes (writeFlag b) = minutes b" "cancelledAlarm (writeFlag b) = cancelledAlarm b"
  by (simp_all add: writeFlag_def)

lemma fireTimer_fields [simp]:
  "held (fireTimer i read b) = held b" "storage (fireTimer i read b) = storage b" "minutes (fireTimer i read b) = minutes b"
  "limit (fireTimer i read b) = limit b"
  by (simp_all add: fireTimer_def split: option.split deferred.split)

lemma continueTimer_fields [simp]:
  "held (continueTimer i deletes b) = held b" "rows (storage (continueTimer i deletes b)) = rows (storage b)"
  "minutes (continueTimer i deletes b) = minutes b" "limit (continueTimer i deletes b) = limit b"
  by (simp_all add: continueTimer_def Let_def split: option.split deferred.split)

lemma patched_refused: "guard exempt' b = Some (why, since) \<Longrightarrow> patched run exempt' now c b = (Refused why since, b)"
  by (simp add: patched_def)

lemma callObject_fields [simp]:
  "breaker (callObject run now c x) = snd (patched run (exempt x) now c (breaker x))"
  "constructing (callObject run now c x) = constructing x" "starting (callObject run now c x) = starting x"
  by (auto simp: callObject_def split: prod.split outcome.split)

lemma closeTransaction_fields [simp]:
  "held (breaker (closeTransaction cm x)) = held (breaker x)" "minutes (breaker (closeTransaction cm x)) = minutes (breaker x)"
  "limit (breaker (closeTransaction cm x)) = limit (breaker x)" "constructing (closeTransaction cm x) = constructing x"
  "starting (closeTransaction cm x) = starting x"
  by (simp_all add: closeTransaction_def split: list.split)

section \<open>A quarantined object does nothing\<close>

text \<open>\<open>ds\<close> are the rows it had and those its open transactions may be rolled back to.\<close>

definition stopped :: "'d set \<Rightarrow> Held \<Rightarrow> 'd object \<Rightarrow> bool" where
  "stopped ds h x \<longleftrightarrow> held (breaker x) = Some h \<and> rows (storage (breaker x)) \<in> ds \<and> fst ` set (opened x) \<subseteq> ds \<and> \<not> exempt x"

fun resumes :: "'q event \<Rightarrow> bool" where
  "resumes (Resume sets) \<longleftrightarrow> True"
| "resumes _ \<longleftrightarrow> False"

fun rollsBack :: "'q event \<Rightarrow> bool" where
  "rollsBack (Closes commits) \<longleftrightarrow> \<not> commits"
| "rollsBack _ \<longleftrightarrow> False"

lemma call_refused:
  assumes "held (breaker x) = Some h" and "\<not> exempt x"
  shows "patched run (exempt x) now c (breaker x) = (Refused (heldReason h) (heldSince h), breaker x)"
    and "callObject run now c x = x"
  using assms by (simp_all add: patched_refused guard_def callObject_def)

lemma closeTransaction_rows:
  "fst ` set (opened (closeTransaction cm x)) \<subseteq> fst ` set (opened x)"
  "rows (storage (breaker (closeTransaction cm x))) \<in> insert (rows (storage (breaker x))) (fst ` set (opened x))"
  by (auto simp: closeTransaction_def split: list.splits intro: rev_image_eqI)

lemma stopped_close: "stopped ds h x \<Longrightarrow> stopped ds h (closeTransaction cm x)"
  unfolding stopped_def exempt_def using closeTransaction_rows [of cm x] by auto

lemma stopped_happen: "stopped ds h x \<Longrightarrow> \<not> resumes (snd e) \<Longrightarrow> stopped ds h (happen run x e)"
  by (cases "(run, x, e)" rule: happen.cases)
    (simp_all add: stopped_close, auto simp: stopped_def call_refused exempt_def quarantine_def)

text \<open>Without a rollback the rows stay.\<close>

lemma rows_stay:
  assumes "held (breaker x) = Some h" and "\<not> exempt x" and "\<not> resumes (snd e)" and "\<not> rollsBack (snd e)"
  shows "rows (storage (breaker (happen run x e))) = rows (storage (breaker x))"
  using assms
  by (cases "(run, x, e)" rule: happen.cases) (auto simp: call_refused quarantine_def closeTransaction_def split: list.split)

interpretation quarantine: kept_invariant "\<lambda>x e. if resumes (snd e) then x else happen run x e" "stopped ds h"
  by unfold_locales (simp add: stopped_happen)

lemma stopped_run:
  assumes "stopped ds h x" and "\<forall>e \<in> set es. \<not> resumes (snd e)"
  shows "stopped ds h (foldl (happen run) x es)"
proof -
  have "foldl (happen run) x es = foldl (\<lambda>x e. if resumes (snd e) then x else happen run x e) x es"
    using assms(2) by (induction es arbitrary: x) auto
  then show ?thesis using quarantine.run_holds [OF assms(1)] by simp
qed

lemma rows_stay_run:
  assumes "stopped ds h x" and "\<forall>e \<in> set es. \<not> resumes (snd e) \<and> \<not> rollsBack (snd e)"
  shows "rows (storage (breaker (foldl (happen run) x es))) = rows (storage (breaker x))"
  using assms
proof (induction es arbitrary: x)
  case (Cons e es)
  then have "rows (storage (breaker (happen run x e))) = rows (storage (breaker x))" by (intro rows_stay [of x h]) (auto simp: stopped_def)
  moreover have "stopped ds h (happen run x e)" by (rule stopped_happen) (use Cons.prems in auto)
  then have "rows (storage (breaker (foldl (happen run) (happen run x e) es))) = rows (storage (breaker (happen run x e)))"
    by (rule Cons.IH) (use Cons.prems(2) in auto)
  ultimately show ?case by simp
qed simp

text \<open>
  C34. Once an object is quarantined and constructed, then whatever happens short of a resume (calls
  of any kind, timers, further quarantines, blocks, ends of transactions), every storage call is refused with
  the reason and time of that quarantine. The stored rows stay the ones it had, but for transactions that were
  open when it was quarantined: if one is rolled back, as when a refused call makes its closure throw, the rows are
  those it started from.
\<close>

theorem quarantine_stops_storage:
  assumes "held (breaker x) = Some h" and "\<not> exempt x" and "\<forall>e \<in> set es. \<not> resumes (snd e)"
    and "y = foldl (happen run) x es"
  shows "patched run (exempt y) now c (breaker y) = (Refused (heldReason h) (heldSince h), breaker y)
    \<and> rows (storage (breaker y)) \<in> insert (rows (storage (breaker x))) (fst ` set (opened x))
    \<and> ((\<exists>e \<in> set es. rollsBack (snd e)) \<or> rows (storage (breaker y)) = rows (storage (breaker x)))"
proof -
  let ?ds = "insert (rows (storage (breaker x))) (fst ` set (opened x))"
  have x: "stopped ?ds h x" using assms(1,2) by (auto simp: stopped_def)
  have y: "stopped ?ds h y" unfolding assms(4) by (rule stopped_run [OF x assms(3)])
  then have "patched run (exempt y) now c (breaker y) = (Refused (heldReason h) (heldSince h), breaker y)"
    by (intro call_refused(1)) (simp_all add: stopped_def)
  moreover have "(\<exists>e \<in> set es. rollsBack (snd e)) \<or> rows (storage (breaker y)) = rows (storage (breaker x))"
    unfolding assms(4) using rows_stay_run [OF x, of es] assms(3) by blast
  ultimately show ?thesis using y unfolding stopped_def by blast
qed

section \<open>The flag that survives a restart\<close>

definition flagHeld :: "'d storage \<Rightarrow> (string \<times> instant) option" where
  "flagHeld s =
     (if hasSql s then
        (case flagTable s of
           Some (Some row) \<Rightarrow>
             (case (flagReason row, flagSince row) of (Some why, Some since) \<Rightarrow> Some (why, since) | _ \<Rightarrow> None)
         | _ \<Rightarrow> None)
      else None)"

definition heldPair :: "'d breaker \<Rightarrow> (string \<times> instant) option" where
  "heldPair b = map_option (\<lambda>h. (heldReason h, heldSince h)) (held b)"

fun timerEntry :: "deferred \<Rightarrow> nat" where
  "timerEntry (Waiting n) = n"
| "timerEntry (HasAlarm n a) = n"

text \<open>The flag never says more than the object holds, and says as much once no write is pending.\<close>

definition flagFaithful :: "'d breaker \<Rightarrow> bool" where
  "flagFaithful b \<longleftrightarrow>
     (flagHeld (storage b) \<noteq> None \<longrightarrow> flagHeld (storage b) = heldPair b)
     \<and> (\<forall>h. held b = Some h \<and> hasSql (storage b) \<and> entry h \<notin> timerEntry ` set (timers b)
          \<longrightarrow> flagHeld (storage b) = heldPair b)"

lemma restart_held: "heldPair (installStorageBreaker lim s) = flagHeld s"
  by (auto simp: heldPair_def flagHeld_def installStorageBreaker_def Let_def split: option.split)

lemma flagFaithful_install: "flagFaithful (installStorageBreaker lim s)"
proof -
  have "flagHeld (storage (installStorageBreaker lim s)) = flagHeld s"
    by (simp add: installStorageBreaker_def Let_def flagHeld_def)
  then show ?thesis by (simp add: flagFaithful_def restart_held)
qed

lemma flagFaithful_cong:
  "held b' = held b \<Longrightarrow> flagTable (storage b') = flagTable (storage b) \<Longrightarrow> hasSql (storage b') = hasSql (storage b)
    \<Longrightarrow> timerEntry ` set (timers b') = timerEntry ` set (timers b) \<Longrightarrow> flagFaithful b' = flagFaithful b"
  by (simp add: flagFaithful_def flagHeld_def heldPair_def)

lemma flagHeld_writeFlag: "hasSql (storage b) \<Longrightarrow> flagHeld (storage (writeFlag b)) = heldPair b"
  by (simp add: flagHeld_def writeFlag_def heldPair_def split: option.split)

lemma flagHeld_noSql: "\<not> hasSql s \<Longrightarrow> flagHeld s = None"
  by (simp add: flagHeld_def)

lemma flagFaithful_enter: "flagFaithful b \<Longrightarrow> held b = None \<Longrightarrow> flagFaithful (enter now why b)"
  by (auto simp: flagFaithful_def heldPair_def)

lemma flagFaithful_written:
  assumes "held b' = held b" and "flagTable (storage b') = flagTable (storage (writeFlag b))"
    and "hasSql (storage b') = hasSql (storage b)"
  shows "flagFaithful b'"
proof -
  have "flagHeld (storage b') = flagHeld (storage (writeFlag b))" using assms(2,3) by (simp add: flagHeld_def)
  moreover have "heldPair b' = heldPair b" using assms(1) by (simp add: heldPair_def)
  moreover have "hasSql (storage b') = hasSql (storage b)" using assms(3) by simp
  ultimately show ?thesis
    using flagHeld_writeFlag [of b] flagHeld_noSql [of "storage (writeFlag b)"]
    by (cases "hasSql (storage b)") (simp_all add: flagFaithful_def)
qed

lemma flagFaithful_count: "flagFaithful b \<Longrightarrow> flagFaithful (count now n b)"
proof (cases rule: count_cases [where n = n and now = now and b = b])
  case (trip st why)
  assume "flagFaithful b"
  then have "flagFaithful (b\<lparr>minutes := inWindow now (addRows (now div MINUTE_MS) n (minutes b))\<rparr>)"
    by (rule flagFaithful_cong [THEN iffD2, rotated 4]) simp_all
  from flagFaithful_enter [OF this] trip show ?thesis
    by (simp add: flagFaithful_def heldPair_def)
next
  case quiet
  assume "flagFaithful b"
  then show ?thesis by (rule flagFaithful_cong [THEN iffD2, rotated 4]) (simp_all add: quiet)
qed simp

lemma flagFaithful_rows: "flagFaithful b \<Longrightarrow> flagFaithful (b\<lparr>storage := (storage b)\<lparr>rows := d, alarmAt := a\<rparr>\<rparr>)"
  by (rule flagFaithful_cong [THEN iffD2, rotated 4]) simp_all

lemma flagFaithful_thrown: "flagFaithful b \<Longrightarrow> flagFaithful (b\<lparr>storage := (storage b)\<lparr>rows := d\<rparr>\<rparr>)"
  by (rule flagFaithful_cong [THEN iffD2, rotated 4]) simp_all

lemma flagFaithful_patched: "flagFaithful b \<Longrightarrow> flagFaithful (snd (patched run ex now c b))"
  by (simp add: patched_def flagFaithful_count flagFaithful_rows flagFaithful_thrown split: option.split prod.split)

lemma flagFaithful_fire:
  assumes "flagFaithful b"
  shows "flagFaithful (fireTimer i read b)"
proof -
  have "timerEntry ` set (timers (fireTimer i read b)) = timerEntry ` set (timers b)"
  proof (cases "i < length (timers b)")
    case True
    have "map timerEntry (timers (fireTimer i read b)) = map timerEntry (timers b)"
      using True by (auto simp: fireTimer_def map_update list_update_same_conv split: deferred.split)
    then show ?thesis by (metis image_set)
  qed (simp add: fireTimer_def)
  then show ?thesis using flagFaithful_cong [of "fireTimer i read b" b] assms by simp
qed

lemma timers_without:
  assumes "i < length ts" and "e \<noteq> timerEntry (ts ! i)" and "e \<in> timerEntry ` set ts"
  shows "e \<in> timerEntry ` set (take i ts @ drop (Suc i) ts)"
proof -
  have s: "set ts = insert (ts ! i) (set (take i ts @ drop (Suc i) ts))"
    by (subst id_take_nth_drop [OF assms(1)]) simp
  obtain t where t: "t \<in> set ts" "e = timerEntry t" using assms(3) by blast
  then have "t \<in> set (take i ts @ drop (Suc i) ts)" using assms(2) unfolding s by auto
  then show ?thesis using t(2) by blast
qed

lemma flagFaithful_continue:
  assumes "flagFaithful b"
  shows "flagFaithful (continueTimer i deletes b)"
proof (cases "if i < length (timers b) then Some (timers b ! i) else None")
  case (Some t)
  then have i: "i < length (timers b)" "t = timers b ! i" by (auto split: if_splits)
  show ?thesis
  proof (cases t)
    case (HasAlarm n alarm)
    then have j: "timers b ! i = HasAlarm n alarm" using i by simp
    let ?b = "b\<lparr>timers := take i (timers b) @ drop (Suc i) (timers b)\<rparr>"
    show ?thesis
    proof (cases "map_option entry (held b) = Some n")
      case True
      then obtain z where z: "held b = Some z" "entry z = n" by auto
      let ?c = "?b\<lparr>cancelledAlarm := (case alarm of Some a \<Rightarrow> Some a | None \<Rightarrow> cancelledAlarm b)\<rparr>"
      have e: "continueTimer i deletes b
          = (if deletes then (writeFlag ?c)\<lparr>storage := (storage (writeFlag ?c))\<lparr>alarmAt := None\<rparr>\<rparr> else writeFlag ?c)"
        unfolding continueTimer_def using i(1) j True
        by (cases alarm) (simp_all only: Let_def if_True option.case deferred.case, simp_all)
      show ?thesis unfolding e by (rule flagFaithful_written [where b = ?c]) simp_all
    next
      case False
      have p: "heldPair ?b = heldPair b" "flagHeld (storage ?b) = flagHeld (storage b)" by (simp_all add: heldPair_def)
      have "flagFaithful ?b" unfolding flagFaithful_def p
      proof (intro conjI allI impI)
        show "flagHeld (storage b) = heldPair b" if "flagHeld (storage b) \<noteq> None"
          using that assms unfolding flagFaithful_def by blast
      next
        fix h assume h: "held ?b = Some h \<and> hasSql (storage ?b) \<and> entry h \<notin> timerEntry ` set (timers ?b)"
        have "entry h \<noteq> timerEntry (timers b ! i)" using False h j by simp
        moreover have "entry h \<notin> timerEntry ` set (take i (timers b) @ drop (Suc i) (timers b))" using h by simp
        ultimately have "entry h \<notin> timerEntry ` set (timers b)" using timers_without [OF i(1)] by blast
        moreover have "held b = Some h" "hasSql (storage b)" using h by simp_all
        ultimately show "flagHeld (storage b) = heldPair b" using assms unfolding flagFaithful_def by blast
      qed
      then show ?thesis using i(1) j False by (simp add: continueTimer_def)
    qed
  qed (use i assms in \<open>simp add: continueTimer_def\<close>)
qed (use assms in \<open>simp add: continueTimer_def\<close>)

lemma flagFaithful_windowRows: "flagFaithful b \<Longrightarrow> flagFaithful (snd (windowRows now b))"
  using flagFaithful_cong [of "snd (windowRows now b)" b] by simp

lemma flagFaithful_quarantine: "flagFaithful b \<Longrightarrow> flagFaithful (snd (quarantine now why b))"
  by (simp add: quarantine_def flagFaithful_windowRows flagFaithful_enter)

lemma flagFaithful_resume: "flagFaithful (snd (resume now sets b))"
proof -
  let ?b = "b\<lparr>held := None, minutes := [], cancelledAlarm := None, resumedAt := Some now\<rparr>"
  have "flagFaithful (snd (resume now sets b))"
    unfolding resume_def Let_def status_snd
    by (intro flagFaithful_windowRows flagFaithful_written [where b = ?b]) (auto split: option.split)
  then show ?thesis .
qed

lemma flagFaithful_close: "flagFaithful (breaker x) \<Longrightarrow> flagFaithful (breaker (closeTransaction cm x))"
  by (auto simp: closeTransaction_def flagFaithful_rows split: list.split)

lemma flagFaithful_happen: "flagFaithful (breaker x) \<Longrightarrow> flagFaithful (breaker (happen run x e))"
  by (cases "(run, x, e)" rule: happen.cases)
    (simp_all add: flagFaithful_patched flagFaithful_quarantine flagFaithful_resume flagFaithful_fire flagFaithful_continue flagFaithful_close)

interpretation flag: kept_invariant "happen run" "\<lambda>x. flagFaithful (breaker x)"
  by unfold_locales (rule flagFaithful_happen)

text \<open>
  After any run of a Durable Object, a restart from its storage never brings back a quarantine
  that was lifted (a deferred write of an earlier quarantine included), and brings back the one
  held as soon as no deferred write of it is pending.
\<close>

theorem restart_keeps_quarantine:
  assumes "b = breaker (foldl (happen run) (installDurableObjectBreaker lim s) es)"
  shows "heldPair (installStorageBreaker lim (storage b)) \<in> {None, heldPair b}
    \<and> (held b = Some h \<and> hasSql (storage b) \<and> entry h \<notin> timerEntry ` set (timers b)
      \<longrightarrow> heldPair (installStorageBreaker lim (storage b)) = Some (heldReason h, heldSince h))"
proof -
  have "flagFaithful b" unfolding assms
    by (rule flag.run_holds) (simp add: installDurableObjectBreaker_def flagFaithful_install)
  then show ?thesis unfolding restart_held by (auto simp: flagFaithful_def heldPair_def)
qed

section \<open>The alarm survives a quarantine\<close>

text \<open>
  The alarm a quarantine cancels comes back: quarantine an object whose alarm is set, let the
  deferred write run, restart the object from its storage and resume it. The alarm is gone while
  the quarantine lasts (also across the restart, which is quarantined for the same reason), and the
  resume sets it again, not before the present; the object and its storage are then free.
\<close>

theorem quarantine_resume_alarm:
  assumes "hasSql (storage b)" and "alarmAt (storage b) = Some a" and "held b = None" and "timers b = []"
    and "stopped' = continueTimer 0 True (fireTimer 0 True (snd (quarantine t why b)))"
    and "restarted = installStorageBreaker lim (storage stopped')"
    and "resumed = snd (resume t' True restarted)"
  shows "alarmAt (storage stopped') = None \<and> heldPair restarted = Some (why, t)
    \<and> alarmAt (storage resumed) = Some (max a t') \<and> held resumed = None
    \<and> heldPair (installStorageBreaker lim (storage resumed)) = None"
proof -
  have f: "fireTimer 0 True (snd (quarantine t why b))
      = (snd (quarantine t why b))\<lparr>timers := [HasAlarm (entries b) (Some a)]\<rparr>"
    using assms(2-4) by (simp add: fireTimer_def quarantine_def enter_def windowRows_def Let_def)
  have s: "storage stopped' = (storage b)\<lparr>alarmAt := None, flagTable := Some (Some
      \<lparr>flagReason = Some why, flagSince = Some t, flagResumedAt = resumedAt b, flagAlarmAt = Some a\<rparr>)\<rparr>"
    unfolding assms(5) f using assms(1-4)
    by (simp add: continueTimer_def quarantine_def enter_def windowRows_def Let_def writeFlag_def)
  have r: "hasSql (storage restarted)" "cancelledAlarm restarted = Some a" "heldPair restarted = Some (why, t)"
    unfolding assms(6) s using assms(1) by (simp_all add: installStorageBreaker_def Let_def heldPair_def)
  have "alarmAt (storage resumed) = Some (max a t')" "held resumed = None" "flagHeld (storage resumed) = None"
    unfolding assms(7) using r by (simp_all add: resume_def Let_def writeFlag_def flagHeld_def)
  then show ?thesis using s r(3) by (simp add: restart_held)
qed

section \<open>The budget\<close>

text \<open>The rows counted since the last resume, each with the time of its call.\<close>

fun logAfter :: "('q, 'd, 'a) platform \<Rightarrow> 'd object \<Rightarrow> instant \<times> 'q event \<Rightarrow> (instant \<times> int) list \<Rightarrow> (instant \<times> int) list" where
  "logAfter run x (now, Call c) log =
     (if guard (exempt x) (breaker x) \<noteq> None then log
      else case fst (run c (rows (storage (breaker x)))) of
          Some (answer, written) \<Rightarrow> if 0 < rowsOf c written then log @ [(now, rowsOf c written)] else log
        | None \<Rightarrow> log)"
| "logAfter run x (now, Resume sets) log = []"
| "logAfter run x e log = log"

fun rowLog :: "('q, 'd, 'a) platform \<Rightarrow> 'd object \<Rightarrow> (instant \<times> 'q event) list \<Rightarrow> (instant \<times> int) list \<Rightarrow> (instant \<times> int) list" where
  "rowLog run x [] log = log"
| "rowLog run x (e # es) log = rowLog run (happen run x e) es (logAfter run x e log)"

definition recent :: "instant \<Rightarrow> (instant \<times> int) list \<Rightarrow> int" where
  "recent now log = sum_list (map snd (filter (\<lambda>(t, _). floorMinute now < t div MINUTE_MS) log))"

definition counted :: "instant \<Rightarrow> 'd breaker \<Rightarrow> (instant \<times> int) list \<Rightarrow> bool" where
  "counted earlier b log \<longleftrightarrow> (\<forall>now \<ge> earlier. sum_list (map snd (inWindow now (minutes b))) = recent now log)"

lemma floorMinute_mono: "s \<le> t \<Longrightarrow> floorMinute s \<le> floorMinute t"
  by (simp add: floorMinute_def MINUTE_MS_def zdiv_mono1)

lemma inWindow_later: "s \<le> t \<Longrightarrow> inWindow t (inWindow s ms) = inWindow t ms"
  unfolding inWindow_def filter_filter
  by (rule filter_cong) (use floorMinute_mono [of s t] in auto)

lemma inWindow_append: "inWindow now (ms @ ns) = inWindow now ms @ inWindow now ns"
  by (simp add: inWindow_def)

lemma sum_addRows:
  "sum_list (map snd (inWindow now (addRows m n ms)))
    = sum_list (map snd (inWindow now ms)) + (if floorMinute now < m then n else 0)"
proof (cases "ms \<noteq> [] \<and> fst (last ms) = m")
  case True
  then obtain ns k where ms: "ms = ns @ [(m, k)]" by (cases ms rule: rev_cases) auto
  then have "addRows m n ms = ns @ [(m, k + n)]" by (simp add: addRows_def)
  then show ?thesis by (simp add: ms inWindow_append) (simp add: inWindow_def)
next
  case False
  then have "addRows m n ms = ms @ [(m, n)]" by (auto simp: addRows_def)
  then show ?thesis by (simp add: inWindow_append) (simp add: inWindow_def)
qed

lemma recent_append: "recent now (log @ [(t, n)]) = recent now log + (if floorMinute now < t div MINUTE_MS then n else 0)"
  by (simp add: recent_def)

lemma counted_window: "counted earlier b log \<Longrightarrow> earlier \<le> now \<Longrightarrow> minutes b' = inWindow now (minutes b) \<Longrightarrow> counted now b' log"
  by (simp add: counted_def inWindow_later)

lemma counted_same: "counted earlier b log \<Longrightarrow> earlier \<le> now \<Longrightarrow> minutes b' = minutes b \<Longrightarrow> counted now b' log"
  by (simp add: counted_def)

lemma counted_count:
  assumes "counted earlier b log" and "earlier \<le> now" and "minutes b' = minutes b"
  shows "counted now (count now n b') (if 0 < n then log @ [(now, n)] else log)"
proof (cases rule: count_cases [where n = n and now = now and b = b'])
  case nothing
  then show ?thesis using counted_same [OF assms] by simp
next
  case quiet
  then show ?thesis using assms
    by (simp add: counted_def inWindow_later sum_addRows recent_append)
next
  case (trip st why)
  then show ?thesis using assms
    by (simp add: counted_def inWindow_later sum_addRows recent_append)
qed

lemma counted_happen:
  assumes "counted earlier (breaker x) log" and "earlier \<le> now"
  shows "counted now (breaker (happen run x (now, e))) (logAfter run x (now, e) log)"
proof (cases e)
  case (Call c)
  show ?thesis
  proof (cases "guard (exempt x) (breaker x)")
    case None
    obtain r d where r: "run c (rows (storage (breaker x))) = (r, d)" by fastforce
    show ?thesis
    proof (cases r)
      case None
      then show ?thesis using Call r \<open>guard _ _ = None\<close> by (simp add: patched_def counted_same [OF assms])
    next
      case (Some answer)
      obtain a w where "answer = (a, w)" by fastforce
      have "counted now (count now (rowsOf c w) ((breaker x)\<lparr>storage := (storage (breaker x))\<lparr>rows := d,
            alarmAt := alarmAfter c (alarmAt (storage (breaker x)))\<rparr>\<rparr>))
          (if 0 < rowsOf c w then log @ [(now, rowsOf c w)] else log)"
        by (rule counted_count [OF assms]) simp
      then show ?thesis using Call r Some \<open>answer = (a, w)\<close> \<open>guard _ _ = None\<close> by (simp add: patched_def)
    qed
  next
    case (Some p)
    then show ?thesis using Call counted_same [OF assms, of "breaker x"] by (cases p) (simp add: patched_def)
  qed
next
  case (Quarantine why)
  have "minutes (snd (quarantine now why (breaker x))) = inWindow now (minutes (breaker x))" by (simp add: quarantine_def)
  then have "counted now (snd (quarantine now why (breaker x))) log" by (rule counted_window [OF assms])
  then show ?thesis using Quarantine by simp
next
  case (Resume sets)
  have "counted now (snd (resume now sets (breaker x))) []"
    by (simp add: counted_def recent_def resume_def Let_def inWindow_def split: option.split)
  then show ?thesis using Resume by simp
qed (simp_all add: counted_same [OF assms])

lemma counted_run:
  assumes "counted earlier (breaker x) log" and "sorted (earlier # map fst es)"
  shows "counted (fst (last ((earlier, Microtask) # es))) (breaker (foldl (happen run) x es)) (rowLog run x es log)"
  using assms
proof (induction es arbitrary: x log earlier)
  case (Cons e es)
  obtain now ev where e: "e = (now, ev)" by fastforce
  have "counted now (breaker (happen run x e)) (logAfter run x e log)"
    using Cons.prems counted_happen e by fastforce
  from Cons.IH [OF this] Cons.prems(2) e show ?case by (cases es) auto
qed simp

lemma limit_count [simp]: "limit (count now n b) = limit b"
  by (cases rule: count_cases [where n = n and now = now and b = b]) simp_all

lemma limit_happen: "limit (breaker (happen run x e)) = limit (breaker x)"
proof (cases "(run, x, e)" rule: happen.cases)
  case (1 run x now c)
  then show ?thesis by (auto simp: patched_def split: option.split prod.split)
qed (simp_all add: quarantine_def resume_def Let_def split: option.split)

lemma limit_run: "limit (breaker (foldl (happen run) x es)) = limit (breaker x)"
  by (induction es arbitrary: x) (simp_all add: limit_happen)

text \<open>
  C35. A budget is exact: over any run whose clock does not go back, a call on a free object that
  counts rows quarantines it if and only if the rows counted since the last resume, within the
  minutes of the window that ends now, exceed the limit; a call that counts none never does.
\<close>

theorem budget_exact:
  assumes "x = foldl (happen run) (installDurableObjectBreaker (Some lim) s) es"
    and "sorted (map fst es @ [now])" and "held (breaker x) = None"
    and "log = rowLog run (installDurableObjectBreaker (Some lim) s) es []"
    and "log' = logAfter run x (now, Call c) log"
  shows "held (breaker (happen run x (now, Call c))) \<noteq> None \<longleftrightarrow> log' \<noteq> log \<and> lim < recent now log'"
proof -
  let ?x = "installDurableObjectBreaker (Some lim) s"
  define start where "start = (case es of [] \<Rightarrow> now | e # _ \<Rightarrow> fst e)"
  have l: "limit (breaker x) = lim"
    by (simp add: assms(1) limit_run installDurableObjectBreaker_def installStorageBreaker_def Let_def)
  have "counted start (breaker ?x) []"
    by (simp add: counted_def recent_def inWindow_def installDurableObjectBreaker_def installStorageBreaker_def Let_def)
  moreover have "sorted (start # map fst es)"
    using assms(2) by (cases es) (auto simp: start_def sorted_append)
  ultimately have "counted (fst (last ((start, Microtask) # es))) (breaker x) log"
    unfolding assms(1,4) by (rule counted_run)
  moreover have "fst (last ((start, Microtask) # es)) \<le> now"
    using assms(2) by (cases es rule: rev_cases) (auto simp: start_def sorted_append)
  ultimately have k: "counted now (breaker x) log" using counted_same by blast
  have g: "guard (exempt x) (breaker x) = None" using assms(3) by (simp add: guard_def)
  obtain r d where r: "run c (rows (storage (breaker x))) = (r, d)" by fastforce
  show ?thesis
  proof (cases r)
    case None
    then show ?thesis using assms(3,5) g r by (simp add: patched_def)
  next
    case (Some answer)
    obtain a w where w: "answer = (a, w)" by fastforce
    let ?b = "(breaker x)\<lparr>storage := (storage (breaker x))\<lparr>rows := d, alarmAt := alarmAfter c (alarmAt (storage (breaker x)))\<rparr>\<rparr>"
    have h: "breaker (happen run x (now, Call c)) = count now (rowsOf c w) ?b"
      using g r Some w by (simp add: patched_def)
    have n: "held ?b = None" "limit ?b = lim" "minutes ?b = minutes (breaker x)" using assms(3) l by simp_all
    have g': "log' = (if 0 < rowsOf c w then log @ [(now, rowsOf c w)] else log)"
      using assms(5) g r Some w by simp
    have "sum_list (map snd (inWindow now (addRows (now div MINUTE_MS) (rowsOf c w) (minutes ?b)))) = recent now log'"
      if "0 < rowsOf c w" using that k n(3) g' by (simp add: counted_def sum_addRows recent_append)
    then show ?thesis unfolding h using n(1,2) g'
      by (cases rule: count_cases [where n = "rowsOf c w" and now = now and b = ?b]) auto
  qed
qed

section \<open>Examples\<close>

definition exampleStore :: "nat storage" where
  "exampleStore = \<lparr>rows = 0, hasSql = True, alarmAt = Some 100, flagTable = None, legacyTable = True\<rparr>"

text \<open>Each statement writes three rows and counts up what is stored.\<close>

fun exampleRun :: "(string, nat, unit) platform" where
  "exampleRun (Exec q) d = (Some ((), 3), Suc d)"
| "exampleRun c d = (Some ((), 0), d)"

definition exampleEvents :: "(instant \<times> string event) list" where
  "exampleEvents = [(0, Microtask), (10, Call (Exec ''insert'')), (20, Call (Exec ''insert''))]"

definition exampleHeld :: Held where
  "exampleHeld = \<lparr>heldReason = ''wrote 6 rows within 10 minutes (limit 5)'', heldSince = 20, entry = 1\<rparr>"

lemma example_held:
  "held (breaker (foldl (happen exampleRun) (installDurableObjectBreaker (Some 5) exampleStore) exampleEvents)) = Some exampleHeld"
  by code_simp

lemma example_free:
  "held (breaker (foldl (happen exampleRun) (installDurableObjectBreaker (Some 5) exampleStore) (butlast exampleEvents))) = None"
  by code_simp

lemma example_exempt:
  "\<not> exempt (foldl (happen exampleRun) (installDurableObjectBreaker (Some 5) exampleStore) exampleEvents)"
  by code_simp

text \<open>The same writes inside a transaction, which the next refused call makes throw: it is rolled back.\<close>

definition insideTransaction :: "(instant \<times> string event) list" where
  "insideTransaction =
     [(0, Microtask), (5, Call (Exec ''insert'')), (10, Call TransactionSync), (20, Call (Exec ''insert'')), (20, Call (Exec ''insert''))]"

lemma example_rolled_back:
  "(let x = foldl (happen exampleRun) (installDurableObjectBreaker (Some 5) exampleStore) insideTransaction in
    rows (storage (breaker x)) = 2 \<and> held (breaker x) \<noteq> None
    \<and> rows (storage (breaker (happen exampleRun x (20, Closes False)))) = 1)"
  by code_simp

theorem quarantine_stops_storage_witness:
  "(let x = foldl (happen exampleRun) (installDurableObjectBreaker (Some 5) exampleStore) exampleEvents;
        y = foldl (happen exampleRun) x [(30, Call (Exec ''insert'')), (40, Quarantine ''again'')]
    in rows (storage (breaker y)) = rows (storage (breaker x))
     \<and> patched exampleRun (exempt y) 50 Get (breaker y)
         = (Refused (heldReason exampleHeld) (heldSince exampleHeld), breaker y))"
  using quarantine_stops_storage [OF example_held example_exempt _ refl,
      of "[(30, Call (Exec ''insert'')), (40, Quarantine ''again'')]" exampleRun 50 Get]
  by (simp add: Let_def)

theorem restart_keeps_quarantine_witness:
  "(let b = breaker (foldl (happen exampleRun) (installDurableObjectBreaker (Some 5) exampleStore)
         (exampleEvents @ [(21, Timer 0 True), (22, Continue 0 True)]))
    in heldPair (installStorageBreaker (Some 5) (storage b)) = Some (heldReason exampleHeld, heldSince exampleHeld))"
proof -
  let ?b = "breaker (foldl (happen exampleRun) (installDurableObjectBreaker (Some 5) exampleStore)
         (exampleEvents @ [(21, Timer 0 True), (22, Continue 0 True)]))"
  have "held ?b = Some exampleHeld" by code_simp
  moreover have "hasSql (storage ?b)" by code_simp
  moreover have "entry exampleHeld \<notin> timerEntry ` set (timers ?b)" by code_simp
  ultimately show ?thesis
    using restart_keeps_quarantine [OF refl, where run = exampleRun and lim = "Some 5" and s = exampleStore
      and es = "exampleEvents @ [(21, Timer 0 True), (22, Continue 0 True)]" and h = exampleHeld]
    unfolding Let_def by blast
qed

theorem quarantine_resume_alarm_witness:
  "alarmAt (storage (snd (resume 500 True (installStorageBreaker None (storage
     (continueTimer 0 True (fireTimer 0 True (snd (quarantine 50 ''stop'' (installStorageBreaker None exampleStore)))))))))) = Some 500"
proof -
  let ?b = "installStorageBreaker None exampleStore"
  have "hasSql (storage ?b)" and "alarmAt (storage ?b) = Some 100" and "held ?b = None" and "timers ?b = []"
    by (simp_all add: exampleStore_def installStorageBreaker_def Let_def)
  from quarantine_resume_alarm [OF this refl refl refl, where t' = 500 and lim = None and t = 50 and why = "''stop''"] show ?thesis by simp
qed

theorem budget_exact_witness:
  "held (breaker (happen exampleRun
      (foldl (happen exampleRun) (installDurableObjectBreaker (Some 5) exampleStore) (butlast exampleEvents))
      (20, Call (Exec ''insert'')))) \<noteq> None"
proof -
  let ?x = "installDurableObjectBreaker (Some 5) exampleStore"
  let ?y = "foldl (happen exampleRun) ?x (butlast exampleEvents)"
  have l: "rowLog exampleRun ?x (butlast exampleEvents) [] = [(10, 3)]" by code_simp
  have l': "logAfter exampleRun ?y (20, Call (Exec ''insert'')) [(10, 3)] = [(10, 3), (20, 3)]" by code_simp
  have s: "sorted (map fst (butlast exampleEvents) @ [20])" by (simp add: exampleEvents_def)
  have r: "recent 20 [(10, 3), (20, 3)] = 6" by code_simp
  have "[(10, 3), (20, 3)] \<noteq> [(10 :: int, 3 :: int)] \<and> (5 :: int) < 6" by simp
  then show ?thesis
    using budget_exact [OF refl s example_free refl refl, of "Exec ''insert''"] unfolding l l' r by blast
qed

end
