(* ===== verification/Json.thy ===== *)
theory Json
  imports Prelude
begin

text \<open>
  JSON values and their text, as \<open>JSON.stringify\<close> prints them and \<open>JSON.parse\<close> reads them, and the
  order-independent form that signatures are made over (\<open>canonical\<close> in
  \<open>protocol/src/device-grant.ts\<close>). A string is a list of characters below 256; a number that is
  printed is an integer. \<open>parseJson\<close> reads text without blanks: components that receive JSON from
  elsewhere take the reader as a parameter, with \<open>parse (stringify v) = Some v\<close> for plain values as its law
  (\<open>plainJson\<close>), and \<open>parseJson\<close> shows that the law can hold.
\<close>

datatype json =
  JNull | JBool bool | JNumber int | JString string | JArray "json list" | JObject "(string \<times> json) list"

section \<open>Printing\<close>

definition hexCode :: "nat \<Rightarrow> string" where
  "hexCode n = padStart 4 CHR ''0'' (toRadix 16 n)"

definition escapeChar :: "char \<Rightarrow> string" where
  "escapeChar c =
     (let n = of_char c :: nat in
      if n = 34 then [CHR 0x5C, c]
      else if n = 92 then [c, c]
      else if n = 8 then [CHR 0x5C, CHR ''b'']
      else if n = 12 then [CHR 0x5C, CHR ''f'']
      else if n = 10 then [CHR 0x5C, CHR ''n'']
      else if n = 13 then [CHR 0x5C, CHR ''r'']
      else if n = 9 then [CHR 0x5C, CHR ''t'']
      else if n < 32 then [CHR 0x5C, CHR ''u''] @ hexCode n
      else [c])"

definition quoteString :: "string \<Rightarrow> string" where
  "quoteString s = CHR 0x22 # concat (map escapeChar s) @ [CHR 0x22]"

definition printInt :: "int \<Rightarrow> string" where
  "printInt i = (if i < 0 then CHR ''-'' # toRadix 10 (nat (- i)) else toRadix 10 (nat i))"

fun commaJoin :: "string list \<Rightarrow> string" where
  "commaJoin [] = []"
| "commaJoin [s] = s"
| "commaJoin (s # ss) = s @ CHR '','' # commaJoin ss"

fun stringify :: "json \<Rightarrow> string" where
  "stringify JNull = ''null''"
| "stringify (JBool b) = (if b then ''true'' else ''false'')"
| "stringify (JNumber i) = printInt i"
| "stringify (JString s) = quoteString s"
| "stringify (JArray xs) = CHR ''['' # commaJoin (map stringify xs) @ '']''"
| "stringify (JObject fs) = CHR ''{'' # commaJoin (map (\<lambda>(k, v). quoteString k @ CHR '':'' # stringify v) fs) @ ''}''"

section \<open>Reading\<close>

definition isDigit :: "char \<Rightarrow> bool" where
  "isDigit c \<longleftrightarrow> c \<in> set ''0123456789''"

fun parseChars :: "string \<Rightarrow> (string \<times> string) option" where
  "parseChars [] = None"
| "parseChars (c # s) =
     (if c = CHR 0x22 then Some ([], s)
      else if c = CHR 0x5C then
        (case s of
           e # t \<Rightarrow>
             if e = CHR ''u'' then
               (case t of
                  h # i # j # k # u \<Rightarrow> map_option (\<lambda>(cs, r). (char_of (parseRadix 16 [h, i, j, k]) # cs, r)) (parseChars u)
                | _ \<Rightarrow> None)
             else (case map_of [(CHR 0x22, CHR 0x22), (CHR 0x5C, CHR 0x5C), (CHR ''/'', CHR ''/''), (CHR ''b'', CHR 0x08),
                      (CHR ''f'', CHR 0x0C), (CHR ''n'', CHR 0x0A), (CHR ''r'', CHR 0x0D), (CHR ''t'', CHR 0x09)] e of
                     Some d \<Rightarrow> map_option (\<lambda>(cs, r). (d # cs, r)) (parseChars t)
                   | None \<Rightarrow> None)
         | [] \<Rightarrow> None)
      else map_option (\<lambda>(cs, r). (c # cs, r)) (parseChars s))"

definition parseDigits :: "string \<Rightarrow> (nat \<times> string) option" where
  "parseDigits s =
     (case takeWhile isDigit s of [] \<Rightarrow> None | ds \<Rightarrow> Some (parseRadix 10 ds, dropWhile isDigit s))"

fun parseValue :: "nat \<Rightarrow> string \<Rightarrow> (json \<times> string) option"
  and parseItems :: "nat \<Rightarrow> string \<Rightarrow> (json list \<times> string) option"
  and parseFields :: "nat \<Rightarrow> string \<Rightarrow> ((string \<times> json) list \<times> string) option" where
  "parseValue 0 s = None"
| "parseValue (Suc f) [] = None"
| "parseValue (Suc f) (c # s) =
     (if c = CHR ''n'' then (if take 3 s = ''ull'' then Some (JNull, drop 3 s) else None)
      else if c = CHR ''t'' then (if take 3 s = ''rue'' then Some (JBool True, drop 3 s) else None)
      else if c = CHR ''f'' then (if take 4 s = ''alse'' then Some (JBool False, drop 4 s) else None)
      else if c = CHR 0x22 then map_option (\<lambda>(t, r). (JString t, r)) (parseChars s)
      else if c = CHR ''['' then
        (case s of
           d # r \<Rightarrow> if d = CHR '']'' then Some (JArray [], r) else map_option (\<lambda>(xs, r). (JArray xs, r)) (parseItems f s)
         | [] \<Rightarrow> None)
      else if c = CHR ''{'' then
        (case s of
           d # r \<Rightarrow> if d = CHR ''}'' then Some (JObject [], r) else map_option (\<lambda>(fs, r). (JObject fs, r)) (parseFields f s)
         | [] \<Rightarrow> None)
      else if c = CHR ''-'' then map_option (\<lambda>(n, r). (JNumber (- int n), r)) (parseDigits s)
      else map_option (\<lambda>(n, r). (JNumber (int n), r)) (parseDigits (c # s)))"
| "parseItems 0 s = None"
| "parseItems (Suc f) s =
     (case parseValue f s of
        Some (x, c # r) \<Rightarrow>
          if c = CHR '','' then map_option (\<lambda>(xs, r). (x # xs, r)) (parseItems f r)
          else if c = CHR '']'' then Some ([x], r) else None
      | _ \<Rightarrow> None)"
| "parseFields 0 s = None"
| "parseFields (Suc f) s =
     (case s of
        q # s' \<Rightarrow>
          if q \<noteq> CHR 0x22 then None
          else (case parseChars s' of
             Some (k, c # r) \<Rightarrow>
               if c \<noteq> CHR '':'' then None
               else (case parseValue f r of
                  Some (x, c # r) \<Rightarrow>
                    if c = CHR '','' then map_option (\<lambda>(fs, r). ((k, x) # fs, r)) (parseFields f r)
                    else if c = CHR ''}'' then Some ([(k, x)], r) else None
                | _ \<Rightarrow> None)
           | _ \<Rightarrow> None)
      | [] \<Rightarrow> None)"

definition parseJson :: "string \<Rightarrow> json option" where
  "parseJson s = (case parseValue (Suc (length s)) s of Some (v, []) \<Rightarrow> Some v | _ \<Rightarrow> None)"

section \<open>Reading what was printed\<close>

lemma parseChars_escape:
  "parseChars (escapeChar c @ t) = map_option (\<lambda>(cs, r). (c # cs, r)) (parseChars t)"
proof -
  let ?n = "of_char c :: nat"
  show ?thesis
  proof (cases "?n = 34 \<or> ?n = 92 \<or> ?n = 8 \<or> ?n = 12 \<or> ?n = 10 \<or> ?n = 13 \<or> ?n = 9")
    case True
    then have "?n \<in> of_char ` set [CHR 0x22, CHR 0x5C, CHR 0x08, CHR 0x0C, CHR 0x0A, CHR 0x0D, CHR 0x09]" by simp
    then have "c \<in> set [CHR 0x22, CHR 0x5C, CHR 0x08, CHR 0x0C, CHR 0x0A, CHR 0x0D, CHR 0x09]"
      by (simp only: image_iff of_char_eq_iff) blast
    then show ?thesis unfolding list.set insert_iff empty_iff
      by (elim disjE FalseE) (simp_all add: escapeChar_def Let_def)
  next
    case False
    then have n: "?n \<noteq> 34" "?n \<noteq> 92" "?n \<noteq> 8" "?n \<noteq> 12" "?n \<noteq> 10" "?n \<noteq> 13" "?n \<noteq> 9" by blast+
    show ?thesis
    proof (cases "?n < 32")
      case True
      have l: "length (hexCode ?n) = 4"
        unfolding hexCode_def by (rule length_padStart) (rule length_toRadix, use True in simp_all)
      then obtain h i j k where h: "hexCode ?n = [h, i, j, k]" by (auto simp: numeral_eq_Suc length_Suc_conv)
      have "parseRadix 16 (hexCode ?n) = ?n" by (simp add: hexCode_def)
      then have p: "char_of (parseRadix 16 [h, i, j, k]) = c" by (simp add: h)
      have e: "escapeChar c = [CHR 0x5C, CHR ''u'', h, i, j, k]"
        using n True by (simp add: escapeChar_def Let_def h)
      show ?thesis unfolding e by (simp add: p)
    next
      case False
      have "c \<noteq> CHR 0x22" "c \<noteq> CHR 0x5C" using n by auto
      moreover have "escapeChar c = [c]" using n False by (simp add: escapeChar_def Let_def)
      ultimately show ?thesis by simp
    qed
  qed
qed

lemma parseChars_string: "parseChars (concat (map escapeChar s) @ CHR 0x22 # r) = Some (s, r)"
  by (induction s) (simp_all add: parseChars_escape)

lemma digits_of_radix: "list_all isDigit (toRadix 10 n)"
proof -
  have "\<forall>d < 10. isDigit (digitOf d)" by code_simp
  then show ?thesis using set_toRadix [of 10 n] unfolding list_all_iff by fastforce
qed

lemma toRadix_nonempty [simp]: "toRadix r n \<noteq> []"
  by (subst toRadix.simps) simp

definition noDigit :: "string \<Rightarrow> bool" where
  "noDigit r \<longleftrightarrow> (case r of [] \<Rightarrow> True | c # _ \<Rightarrow> \<not> isDigit c)"

lemma parseDigits_radix:
  assumes "noDigit r"
  shows "parseDigits (toRadix 10 n @ r) = Some (n, r)"
proof -
  have d: "\<forall>c \<in> set (toRadix 10 n). isDigit c" using digits_of_radix [of n] by (simp add: list_all_iff)
  have "takeWhile isDigit r = []" "dropWhile isDigit r = r" using assms by (cases r; simp add: noDigit_def)+
  then have "takeWhile isDigit (toRadix 10 n @ r) = toRadix 10 n" "dropWhile isDigit (toRadix 10 n @ r) = r"
    using d by (simp_all add: takeWhile_append2 dropWhile_append2)
  moreover have "parseRadix 10 (toRadix 10 n) = n" by simp
  ultimately show ?thesis unfolding parseDigits_def by (cases "toRadix 10 n") (use toRadix_nonempty [of 10 n] in auto)
qed

fun weight :: "json \<Rightarrow> nat" where
  "weight (JArray xs) = Suc (sum_list (map (\<lambda>x. Suc (weight x)) xs))"
| "weight (JObject fs) = Suc (sum_list (map (\<lambda>(k, x). Suc (weight x)) fs))"
| "weight _ = 1"

lemma digit_first:
  assumes "isDigit c"
  shows "c \<notin> {CHR ''n'', CHR ''t'', CHR ''f'', CHR 0x22, CHR ''['', CHR ''{'', CHR ''-'', CHR '']'', CHR ''}'', CHR '',''}"
  using assms by (auto simp: isDigit_def)

lemma printInt_first: "\<exists>c t. printInt i = c # t \<and> (c = CHR ''-'' \<or> isDigit c)"
proof -
  have "\<exists>c t. toRadix 10 (nat i) = c # t \<and> isDigit c"
    using digits_of_radix [of "nat i"] toRadix_nonempty [of 10 "nat i"] by (cases "toRadix 10 (nat i)") auto
  then show ?thesis by (auto simp: printInt_def)
qed

lemma stringify_first: "\<exists>c t. stringify j = c # t \<and> c \<noteq> CHR '']''"
proof (cases j)
  case (JNumber i)
  obtain c t where "printInt i = c # t" "c = CHR ''-'' \<or> isDigit c" using printInt_first by blast
  then show ?thesis using JNumber digit_first [of c] by auto
qed (auto simp: quoteString_def)

lemma parseValue_number:
  assumes "noDigit r"
  shows "parseValue (Suc f) (printInt i @ r) = Some (JNumber i, r)"
proof (cases "i < 0")
  case True
  then show ?thesis using parseDigits_radix [OF assms, of "nat (- i)"] by (simp add: printInt_def)
next
  case False
  obtain c t where c: "toRadix 10 (nat i) = c # t" by (cases "toRadix 10 (nat i)") auto
  then have "isDigit c" using digits_of_radix [of "nat i"] by simp
  then show ?thesis using False parseDigits_radix [OF assms, of "nat i"] digit_first [of c] c
    by (simp add: printInt_def)
qed

lemma parseItems_print:
  assumes "\<And>x f r. x \<in> set xs \<Longrightarrow> weight x \<le> f \<Longrightarrow> noDigit r \<Longrightarrow> parseValue f (stringify x @ r) = Some (x, r)"
    and "xs \<noteq> []" and "sum_list (map (\<lambda>x. Suc (weight x)) xs) \<le> f"
  shows "parseItems f (commaJoin (map stringify xs) @ CHR '']'' # r) = Some (xs, r)"
  using assms
proof (induction xs arbitrary: f)
  case (Cons x xs)
  obtain g where f: "f = Suc g" using Cons.prems(3) by (cases f) auto
  have n: "noDigit (CHR '','' # s)" "noDigit (CHR '']'' # s)" for s by (simp_all add: noDigit_def isDigit_def)
  have w: "weight x \<le> g" "sum_list (map (\<lambda>x. Suc (weight x)) xs) \<le> g" using Cons.prems(3) f by auto
  have p: "parseValue g (stringify x @ r) = Some (x, r)" if "noDigit r" for r
    using Cons.prems(1) w(1) that by simp
  show ?case
  proof (cases xs)
    case Nil
    then show ?thesis using p [OF n(2)] f by simp
  next
    case (Cons y ys)
    have "parseItems g (commaJoin (map stringify xs) @ CHR '']'' # r) = Some (xs, r)"
      by (rule Cons.IH) (use Cons.prems(1) Cons w(2) in auto)
    then show ?thesis using p [OF n(1)] f Cons by simp
  qed
qed simp

lemma parseFields_print:
  assumes "\<And>k x f r. (k, x) \<in> set fs \<Longrightarrow> weight x \<le> f \<Longrightarrow> noDigit r \<Longrightarrow> parseValue f (stringify x @ r) = Some (x, r)"
    and "fs \<noteq> []" and "sum_list (map (\<lambda>(k, x). Suc (weight x)) fs) \<le> f"
  shows "parseFields f (commaJoin (map (\<lambda>(k, v). quoteString k @ CHR '':'' # stringify v) fs) @ CHR ''}'' # r) = Some (fs, r)"
  using assms
proof (induction fs arbitrary: f)
  case (Cons kx fs)
  obtain k x where kx: "kx = (k, x)" by fastforce
  obtain g where f: "f = Suc g" using Cons.prems(3) kx by (cases f) auto
  have n: "noDigit (CHR '','' # s)" "noDigit (CHR ''}'' # s)" for s by (simp_all add: noDigit_def isDigit_def)
  have w: "weight x \<le> g" "sum_list (map (\<lambda>(k, x). Suc (weight x)) fs) \<le> g" using Cons.prems(3) f kx by auto
  have p: "parseValue g (stringify x @ r) = Some (x, r)" if "noDigit r" for r
    by (rule Cons.prems(1) [of k x]) (use w(1) that kx in auto)
  show ?case
  proof (cases fs)
    case Nil
    then show ?thesis using p [OF n(2)] f kx by (simp add: quoteString_def parseChars_string)
  next
    case (Cons y ys)
    have i: "parseFields g (commaJoin (map (\<lambda>(k, v). quoteString k @ CHR '':'' # stringify v) fs) @ CHR ''}'' # r) = Some (fs, r)"
      by (rule Cons.IH) (use Cons.prems(1) Cons w(2) in auto)
    have "commaJoin (map (\<lambda>(k, v). quoteString k @ CHR '':'' # stringify v) (kx # fs))
        = quoteString k @ CHR '':'' # stringify x @ CHR '','' # commaJoin (map (\<lambda>(k, v). quoteString k @ CHR '':'' # stringify v) fs)"
      using kx Cons by simp
    then show ?thesis using p [OF n(1)] f kx i
      by (simp add: quoteString_def parseChars_string)
  qed
qed simp

lemma parseValue_print: "weight j \<le> f \<Longrightarrow> noDigit r \<Longrightarrow> parseValue f (stringify j @ r) = Some (j, r)"
proof (induction j arbitrary: f r)
  case (JArray xs)
  obtain g where f: "f = Suc g" using JArray.prems by (cases f) auto
  show ?case
  proof (cases xs)
    case Nil
    then show ?thesis by (simp add: f)
  next
    case (Cons y ys)
    have "parseItems g (commaJoin (map stringify xs) @ CHR '']'' # r) = Some (xs, r)"
      by (rule parseItems_print) (use JArray f Cons in auto)
    moreover obtain c t where "commaJoin (map stringify xs) = c # t" "c \<noteq> CHR '']''"
      using stringify_first [of y] Cons by (cases ys) auto
    ultimately show ?thesis by (simp add: f)
  qed
next
  case (JObject fs)
  obtain g where f: "f = Suc g" using JObject.prems by (cases f) auto
  show ?case
  proof (cases fs)
    case Nil
    then show ?thesis by (simp add: f)
  next
    case (Cons y ys)
    have "parseFields g (commaJoin (map (\<lambda>(k, v). quoteString k @ CHR '':'' # stringify v) fs) @ CHR ''}'' # r) = Some (fs, r)"
      by (rule parseFields_print) (use JObject f Cons in \<open>auto\<close>)
    moreover obtain c t where "commaJoin (map (\<lambda>(k, v). quoteString k @ CHR '':'' # stringify v) fs) = c # t" "c = CHR 0x22"
      using Cons by (cases y; cases ys) (auto simp: quoteString_def)
    ultimately show ?thesis by (simp add: f)
  qed
next
  case (JNumber i)
  then show ?case using parseValue_number by (cases f) auto
next
  case (JBool b)
  then show ?case by (cases f; cases b) auto
next
  case (JString s)
  then show ?case by (cases f) (simp_all add: quoteString_def parseChars_string)
next
  case JNull
  then show ?case by (cases f) auto
qed

lemma length_commaJoin: "ss \<noteq> [] \<Longrightarrow> Suc (length (commaJoin ss)) = sum_list (map (\<lambda>s. Suc (length s)) ss)"
  by (induction ss rule: commaJoin.induct) auto

lemma length_printed_positive: "0 < length (stringify j)"
  using stringify_first [of j] by auto

lemma weight_length: "weight j \<le> length (stringify j)"
proof (induction j)
  case (JArray xs)
  have "sum_list (map (\<lambda>x. Suc (weight x)) xs) \<le> sum_list (map (\<lambda>x. Suc (length (stringify x))) xs)"
    by (rule sum_list_mono) (use JArray in auto)
  then show ?case using length_commaJoin [of "map stringify xs"]
    by (cases "xs = []") (simp_all add: comp_def)
next
  case (JObject fs)
  have "sum_list (map (\<lambda>(k, x). Suc (weight x)) fs)
      \<le> sum_list (map (\<lambda>(k, x). Suc (length (quoteString k @ CHR '':'' # stringify x))) fs)"
    by (rule sum_list_mono) (use JObject in \<open>force\<close>)
  also have "\<dots> = sum_list (map (\<lambda>s. Suc (length s)) (map (\<lambda>(k, v). quoteString k @ CHR '':'' # stringify v) fs))"
    by (simp add: comp_def case_prod_unfold)
  finally show ?case using length_commaJoin [of "map (\<lambda>(k, v). quoteString k @ CHR '':'' # stringify v) fs"]
    by (cases "fs = []") simp_all
next
  case (JNumber i)
  then show ?case using length_printed_positive [of "JNumber i"] by (simp add: Suc_le_eq)
qed (simp_all add: quoteString_def)

lemma parseJson_stringify [simp]: "parseJson (stringify j) = Some j"
proof -
  have "parseValue (Suc (length (stringify j))) (stringify j @ []) = Some (j, [])"
    by (rule parseValue_print) (use weight_length [of j] in \<open>simp_all add: noDigit_def\<close>)
  then show ?thesis by (simp add: parseJson_def)
qed

lemma stringify_inject [simp]: "stringify i = stringify j \<longleftrightarrow> i = j"
  by (metis option.inject parseJson_stringify)

section \<open>The canonical form\<close>

text \<open>\<open>le\<close> is the order of keys: \<open>le k l\<close> where \<open>k.localeCompare(l)\<close> is not positive. The sort is stable.
  Entries are sorted by key alone, so their values may be brought into form before or after.\<close>

fun insertBy :: "(string \<Rightarrow> string \<Rightarrow> bool) \<Rightarrow> string \<times> json \<Rightarrow> (string \<times> json) list \<Rightarrow> (string \<times> json) list" where
  "insertBy le x [] = [x]"
| "insertBy le x (y # ys) = (if le (fst x) (fst y) then x # y # ys else y # insertBy le x ys)"

definition sortBy :: "(string \<Rightarrow> string \<Rightarrow> bool) \<Rightarrow> (string \<times> json) list \<Rightarrow> (string \<times> json) list" where
  "sortBy le xs = foldr (insertBy le) xs []"

fun canonical :: "(string \<Rightarrow> string \<Rightarrow> bool) \<Rightarrow> json \<Rightarrow> json" where
  "canonical le (JArray xs) = JArray (map (canonical le) xs)"
| "canonical le (JObject fs) = JObject (sortBy le (map (\<lambda>(k, v). (k, canonical le v)) fs))"
| "canonical le v = v"

lemma set_insertBy [simp]: "set (insertBy le x ys) = insert x (set ys)"
  by (induction ys) auto

lemma set_sortBy [simp]: "set (sortBy le xs) = set xs"
  by (induction xs) (simp_all add: sortBy_def)

lemma distinct_insertBy: "fst x \<notin> fst ` set ys \<Longrightarrow> distinct (map fst ys) \<Longrightarrow> distinct (map fst (insertBy le x ys))"
  by (induction ys) auto

lemma distinct_sortBy: "distinct (map fst xs) \<Longrightarrow> distinct (map fst (sortBy le xs))"
proof (induction xs)
  case (Cons x xs)
  have "fst x \<notin> fst ` set (sortBy le xs)" using Cons.prems by simp
  then show ?case using Cons distinct_insertBy [of x "sortBy le xs" le] by (simp add: sortBy_def)
qed (simp add: sortBy_def)

lemma map_of_sortBy: "distinct (map fst xs) \<Longrightarrow> map_of (sortBy le xs) = map_of xs"
proof
  fix k assume d: "distinct (map fst xs)"
  show "map_of (sortBy le xs) k = map_of xs k"
    using map_of_eq_Some_iff [OF d] map_of_eq_Some_iff [OF distinct_sortBy [OF d, of le]]
    by (metis not_None_eq set_sortBy)
qed

text \<open>Objects with the same canonical form have the same value under every key.\<close>

lemma canonical_fields:
  assumes "canonical le (JObject fs) = canonical le (JObject gs)"
    and "distinct (map fst fs)" and "distinct (map fst gs)"
  shows "map_option (canonical le) (map_of fs k) = map_option (canonical le) (map_of gs k)"
proof -
  have m: "map_of (map (\<lambda>(k, v). (k, canonical le v)) xs) k = map_option (canonical le) (map_of xs k)" for xs
    by (induction xs) auto
  have d: "distinct (map fst (map (\<lambda>(k, v). (k, canonical le v)) xs))" if "distinct (map fst xs)" for xs
    using that by (simp add: comp_def case_prod_unfold)
  have "sortBy le (map (\<lambda>(k, v). (k, canonical le v)) fs) = sortBy le (map (\<lambda>(k, v). (k, canonical le v)) gs)"
    using assms(1) by simp
  then have "map_of (map (\<lambda>(k, v). (k, canonical le v)) fs) k = map_of (map (\<lambda>(k, v). (k, canonical le v)) gs) k"
    using map_of_sortBy [OF d [OF assms(2)]] map_of_sortBy [OF d [OF assms(3)]] by metis
  then show ?thesis by (simp only: m)
qed

section \<open>Values that a reader of JSON gives back as they are\<close>

definition plainKey :: "string \<Rightarrow> bool" where
  "plainKey k \<longleftrightarrow> (case k of [] \<Rightarrow> True | c # _ \<Rightarrow> \<not> isDigit c)"

fun plainJson :: "json \<Rightarrow> bool" where
  "plainJson (JNumber n) \<longleftrightarrow> \<bar>n\<bar> < 2 ^ 53"
| "plainJson (JArray vs) \<longleftrightarrow> (\<forall>v \<in> set vs. plainJson v)"
| "plainJson (JObject fs) \<longleftrightarrow> distinct (map fst fs) \<and> (\<forall>(k, v) \<in> set fs. plainKey k \<and> plainJson v)"
| "plainJson v \<longleftrightarrow> True"

end
