(* ===== verification/Base64.thy ===== *)
theory Base64
  imports Prelude "HOL-Library.Word"
begin

text \<open>
  The binary texts of \<open>protocol/src/device-grant.ts\<close>: \<open>btoa\<close> and \<open>atob\<close> of the platform (blanks and a
  missing padding are accepted by \<open>atob\<close>), \<open>TextEncoder\<close> and \<open>TextDecoder\<close> on characters below 128,
  and the file's own \<open>toBase64\<close>, \<open>fromBase64\<close> and their URL-safe forms. What is encoded decodes.
\<close>

type_synonym bytes = "8 word list"

definition base64Alphabet :: string where
  "base64Alphabet = ''ABCDEFGHIJKLMNOPQRSTUVWXYZabcdefghijklmnopqrstuvwxyz0123456789+/''"

definition digit64 :: "nat \<Rightarrow> char" where
  "digit64 d = base64Alphabet ! d"

definition value64 :: "char \<Rightarrow> nat" where
  "value64 c = length (takeWhile (\<lambda>d. d \<noteq> c) base64Alphabet)"

fun toBase64 :: "bytes \<Rightarrow> string" where
  "toBase64 [] = []"
| "toBase64 [a] = (let n = unat a * 65536 in [digit64 (n div 262144), digit64 (n div 4096 mod 64), CHR ''='', CHR ''=''])"
| "toBase64 [a, b] =
     (let n = unat a * 65536 + unat b * 256 in
      [digit64 (n div 262144), digit64 (n div 4096 mod 64), digit64 (n div 64 mod 64), CHR ''=''])"
| "toBase64 (a # b # c # rest) =
     (let n = unat a * 65536 + unat b * 256 + unat c in
      digit64 (n div 262144) # digit64 (n div 4096 mod 64) # digit64 (n div 64 mod 64) # digit64 (n mod 64) # toBase64 rest)"

text \<open>The groups of four digits, and the two or three digits that may be left.\<close>

fun decodeGroups :: "nat list \<Rightarrow> bytes" where
  "decodeGroups (p # q # r # s # rest) =
     (let n = p * 262144 + q * 4096 + r * 64 + s in
      word_of_nat (n div 65536) # word_of_nat (n div 256 mod 256) # word_of_nat (n mod 256) # decodeGroups rest)"
| "decodeGroups [p, q, r] =
     (let n = p * 262144 + q * 4096 + r * 64 in [word_of_nat (n div 65536), word_of_nat (n div 256 mod 256)])"
| "decodeGroups [p, q] = (let n = p * 262144 + q * 4096 in [word_of_nat (n div 65536)])"
| "decodeGroups _ = []"

definition dropPadding :: "string \<Rightarrow> string" where
  "dropPadding s =
     (if length s mod 4 \<noteq> 0 then s
      else if drop (length s - 2) s = ''=='' then take (length s - 2) s
      else if drop (length s - 1) s = ''='' then take (length s - 1) s else s)"

definition fromBase64 :: "string \<Rightarrow> bytes option" where
  "fromBase64 encoded =
     (let s = dropPadding (filter (\<lambda>c. c \<notin> set [CHR 0x09, CHR 0x0A, CHR 0x0C, CHR 0x0D, CHR '' '']) encoded) in
      if length s mod 4 = 1 \<or> \<not> set s \<subseteq> set base64Alphabet then None
      else Some (decodeGroups (map value64 s)))"

definition toBase64Url :: "bytes \<Rightarrow> string" where
  "toBase64Url bytes =
     rev (dropWhile (\<lambda>c. c = CHR ''='')
       (rev (map (\<lambda>c. if c = CHR ''+'' then CHR ''-'' else if c = CHR ''/'' then CHR ''_'' else c) (toBase64 bytes))))"

definition fromBase64Url :: "string \<Rightarrow> bytes option" where
  "fromBase64Url encoded =
     fromBase64 (map (\<lambda>c. if c = CHR ''-'' then CHR ''+'' else if c = CHR ''_'' then CHR ''/'' else c) encoded
       @ replicate ((length encoded + 3) div 4 * 4 - length encoded) CHR ''='')"

definition encodeText :: "string \<Rightarrow> bytes" where
  "encodeText s = map (\<lambda>c. word_of_nat (of_char c)) s"

definition decodeText :: "bytes \<Rightarrow> string" where
  "decodeText bs = map (\<lambda>b. char_of (unat b)) bs"

section \<open>What is encoded decodes\<close>

lemma value64_digit64: "d < 64 \<Longrightarrow> value64 (digit64 d) = d"
proof -
  have "\<forall>d < 64. value64 (digit64 d) = d" by code_simp
  then show "d < 64 \<Longrightarrow> value64 (digit64 d) = d" by blast
qed

lemma digit64_member: "d < 64 \<Longrightarrow> digit64 d \<in> set base64Alphabet"
  unfolding digit64_def by (rule nth_mem) (simp add: base64Alphabet_def)

lemma alphabet_special:
  "CHR ''='' \<notin> set base64Alphabet" "CHR ''-'' \<notin> set base64Alphabet" "CHR ''_'' \<notin> set base64Alphabet"
  "set [CHR 0x09, CHR 0x0A, CHR 0x0C, CHR 0x0D, CHR '' ''] \<inter> set base64Alphabet = {}"
  by (simp_all add: base64Alphabet_def)

text \<open>The digits without the padding.\<close>

fun digitsOf :: "bytes \<Rightarrow> nat list" where
  "digitsOf [] = []"
| "digitsOf [a] = (let n = unat a * 65536 in [n div 262144, n div 4096 mod 64])"
| "digitsOf [a, b] = (let n = unat a * 65536 + unat b * 256 in [n div 262144, n div 4096 mod 64, n div 64 mod 64])"
| "digitsOf (a # b # c # rest) =
     (let n = unat a * 65536 + unat b * 256 + unat c in
      n div 262144 # n div 4096 mod 64 # n div 64 mod 64 # n mod 64 # digitsOf rest)"

lemma byte_bound: "unat (a :: 8 word) < 256"
  using unsigned_less [of a] by simp

lemma top_digit: "n < 16777216 \<Longrightarrow> n div 262144 < (64 :: nat)"
  by (rule less_mult_imp_div_less) simp

lemma digits_bound: "list_all (\<lambda>d. d < 64) (digitsOf bs)"
proof (induction bs rule: digitsOf.induct)
  case (2 a)
  have "unat a * 65536 < 16777216" using byte_bound [of a] by linarith
  then show ?case by (simp add: Let_def top_digit)
next
  case (3 a b)
  have "unat a * 65536 + unat b * 256 < 16777216" using byte_bound [of a] byte_bound [of b] by linarith
  then show ?case by (simp add: Let_def top_digit)
next
  case (4 a b c rest)
  have "unat a * 65536 + unat b * 256 + unat c < 16777216"
    using byte_bound [of a] byte_bound [of b] byte_bound [of c] by linarith
  then show ?case using 4 by (simp add: Let_def top_digit)
qed simp

text \<open>A number below \<open>2^24\<close> is its four digits, and its three bytes.\<close>

lemma split4: "n div 262144 * 262144 + n div 4096 mod 64 * 4096 + n div 64 mod 64 * 64 + n mod 64 = (n :: nat)"
proof -
  have "n div 4096 = n div 64 div 64" "n div 262144 = n div 64 div 64 div 64" by (simp_all add: div_mult2_eq [symmetric])
  moreover have "n = n div 64 * 64 + n mod 64" "n div 64 = n div 64 div 64 * 64 + n div 64 mod 64"
    "n div 64 div 64 = n div 64 div 64 div 64 * 64 + n div 64 div 64 mod 64" by simp_all
  ultimately show ?thesis by (simp only:)
qed

lemma byte_split: "c < 256 \<Longrightarrow> (x * 256 + c) div 256 = (x :: nat)" "c < 256 \<Longrightarrow> (x * 256 + c) mod 256 = c"
  by simp_all

lemma bytes_split:
  assumes "b < 256" and "c < 256" and "n = a * 65536 + b * 256 + c"
  shows "n div 65536 = a" and "n div 256 mod 256 = b" and "n mod 256 = (c :: nat)"
proof -
  have n: "n = (a * 256 + b) * 256 + c" using assms(3) by simp
  have "n div 65536 = n div 256 div 256" by (simp add: div_mult2_eq [symmetric])
  then show "n div 65536 = a" and "n div 256 mod 256 = b" and "n mod 256 = c"
    unfolding n using byte_split [OF assms(2), of "a * 256 + b"] byte_split [OF assms(1), of a] by simp_all
qed

lemma decode_digits: "decodeGroups (digitsOf bs) = bs"
proof (induction bs rule: digitsOf.induct)
  case (2 a)
  let ?n = "unat a * 65536"
  have "64 dvd ?n" by (rule dvd_mult) simp
  moreover have "?n div 64 = unat a * 1024" by simp
  moreover have "64 dvd unat a * 1024" by (rule dvd_mult) simp
  ultimately have "?n div 64 mod 64 = 0" "?n mod 64 = 0" by (simp_all only: dvd_imp_mod_0)
  then have "?n div 262144 * 262144 + ?n div 4096 mod 64 * 4096 = ?n" using split4 [of ?n] by linarith
  then show ?case by (simp add: Let_def)
next
  case (3 a b)
  let ?n = "unat a * 65536 + unat b * 256"
  have "64 dvd ?n" by (rule dvd_add; rule dvd_mult; simp)
  then have "?n mod 64 = 0" by (rule dvd_imp_mod_0)
  then have "?n div 262144 * 262144 + ?n div 4096 mod 64 * 4096 + ?n div 64 mod 64 * 64 = ?n"
    using split4 [of ?n] by linarith
  moreover have "?n div 65536 = unat a" "?n div 256 mod 256 = unat b"
    by (rule bytes_split [of "unat b" 0]; simp add: byte_bound)+
  ultimately show ?case by (simp add: Let_def)
next
  case (4 a b c rest)
  let ?n = "unat a * 65536 + unat b * 256 + unat c"
  have "?n div 65536 = unat a" "?n div 256 mod 256 = unat b" "?n mod 256 = unat c"
    by (rule bytes_split [OF byte_bound byte_bound refl])+
  then show ?case using 4 split4 [of ?n] by (simp add: Let_def)
qed simp

lemma replicate2: "replicate 2 x = [x, x]"
  by (simp add: numeral_2_eq_2)

lemma toBase64_digits:
  "\<exists>k. k \<le> 2 \<and> toBase64 bs = map digit64 (digitsOf bs) @ replicate k CHR ''=''
    \<and> (length (digitsOf bs) + k) mod 4 = 0 \<and> length (digitsOf bs) mod 4 \<noteq> 1"
proof (induction bs rule: toBase64.induct)
  case (4 a b c rest)
  from 4 [OF refl] obtain k where k: "k \<le> 2 \<and> toBase64 rest = map digit64 (digitsOf rest) @ replicate k CHR ''=''
    \<and> (length (digitsOf rest) + k) mod 4 = 0 \<and> length (digitsOf rest) mod 4 \<noteq> 1" by (rule exE)
  have "(length (digitsOf (a # b # c # rest)) + k) mod 4 = (length (digitsOf rest) + k) mod 4"
    by (simp add: Let_def)
  moreover have "length (digitsOf (a # b # c # rest)) mod 4 = length (digitsOf rest) mod 4" by (simp add: Let_def)
  moreover have "toBase64 (a # b # c # rest) = map digit64 (digitsOf (a # b # c # rest)) @ replicate k CHR ''=''"
    using k by (simp add: Let_def)
  ultimately show ?case using k by (intro exI [of _ k]) (simp only: simp_thms)
next
  case (2 a)
  show ?case by (rule exI [of _ 2]) (simp add: Let_def replicate2)
next
  case (3 a b)
  show ?case by (rule exI [of _ 1]) (simp add: Let_def)
qed simp

lemma decode_unpadded:
  assumes "set ds \<subseteq> {..<64}" and "length ds mod 4 \<noteq> 1" and "dropPadding s = map digit64 ds"
    and "filter (\<lambda>c. c \<notin> set [CHR 0x09, CHR 0x0A, CHR 0x0C, CHR 0x0D, CHR '' '']) encoded = s"
  shows "fromBase64 encoded = Some (decodeGroups ds)"
proof -
  have "map value64 (map digit64 ds) = ds"
    unfolding map_map comp_def by (rule map_idI) (use assms(1) value64_digit64 in auto)
  moreover have "set (map digit64 ds) \<subseteq> set base64Alphabet" using assms(1) digit64_member by auto
  ultimately show ?thesis using assms(2) unfolding fromBase64_def assms(4) Let_def assms(3) by simp
qed

lemma digits_set: "set (digitsOf bs) \<subseteq> {..<64}"
  using digits_bound [of bs] by (auto simp: list_all_iff)

lemma no_blanks:
  "filter (\<lambda>c. c \<notin> set [CHR 0x09, CHR 0x0A, CHR 0x0C, CHR 0x0D, CHR '' '']) (map digit64 (digitsOf bs) @ replicate k CHR ''='')
    = map digit64 (digitsOf bs) @ replicate k CHR ''=''"
proof (rule filter_True, rule ballI)
  fix c assume "c \<in> set (map digit64 (digitsOf bs) @ replicate k CHR ''='')"
  then have "c \<in> set base64Alphabet \<or> c = CHR ''=''"
    using digits_set [of bs] digit64_member by auto
  then show "c \<notin> set [CHR 0x09, CHR 0x0A, CHR 0x0C, CHR 0x0D, CHR '' '']" using alphabet_special(4) by auto
qed

lemma dropPadding_digits:
  assumes "k \<le> 2" and "(length ds + k) mod 4 = 0" and "set ds \<subseteq> {..<64}"
  shows "dropPadding (map digit64 ds @ replicate k CHR ''='') = map digit64 ds"
proof -
  have e: "digit64 d \<noteq> CHR ''=''" if "d \<in> set ds" for d
    using that assms(3) digit64_member [of d] alphabet_special(1) by auto
  consider "k = 0" | "k = 1" | "k = 2" using assms(1) by linarith
  then show ?thesis
  proof cases
    case 1
    have "CHR ''='' \<notin> set (map digit64 ds)" using e by fastforce
    then have "drop (length ds - m) (map digit64 ds) \<noteq> t @ [CHR ''='']" for m t
      by (metis in_set_conv_decomp in_set_dropD)
    from this [of 2 "''=''"] this [of 1 "[]"] show ?thesis unfolding dropPadding_def using 1 by simp
  next
    case 2
    then obtain es d where ds: "ds = es @ [d]" using assms(2) by (cases ds rule: rev_cases) auto
    have "drop (length (map digit64 ds @ ''='') - 2) (map digit64 ds @ ''='') = [digit64 d, CHR ''='']" by (simp add: ds)
    moreover have "digit64 d \<noteq> CHR ''=''" using e ds by simp
    moreover have "replicate 1 CHR ''='' = ''=''" by simp
    ultimately show ?thesis using assms(2) unfolding 2 dropPadding_def by simp
  next
    case 3
    show ?thesis using assms(2) unfolding 3 replicate2 dropPadding_def by simp
  qed
qed

lemma fromBase64_toBase64 [simp]: "fromBase64 (toBase64 bs) = Some bs"
proof -
  from toBase64_digits [of bs] obtain k where k: "k \<le> 2" "toBase64 bs = map digit64 (digitsOf bs) @ replicate k CHR ''=''"
    "(length (digitsOf bs) + k) mod 4 = 0" "length (digitsOf bs) mod 4 \<noteq> 1" by (elim exE conjE)
  have "fromBase64 (toBase64 bs) = Some (decodeGroups (digitsOf bs))" unfolding k(2)
    by (rule decode_unpadded [OF digits_set k(4) dropPadding_digits [OF k(1,3) digits_set] no_blanks])
  then show ?thesis by (simp add: decode_digits)
qed

lemma encodeText_inject [simp]: "encodeText s = encodeText t \<longleftrightarrow> s = t"
proof
  assume "encodeText s = encodeText t"
  then have "decodeText (encodeText s) = decodeText (encodeText t)" by simp
  moreover have "decodeText (encodeText u) = u" for u
    by (simp add: decodeText_def encodeText_def comp_def unat_of_nat take_bit_eq_mod)
  ultimately show "s = t" by simp
qed simp

lemma decodeText_encodeText [simp]: "decodeText (encodeText s) = s"
  by (simp add: decodeText_def encodeText_def comp_def unat_of_nat take_bit_eq_mod)

lemma url_swap:
  assumes "c \<in> set base64Alphabet"
  shows "(if (if c = CHR ''+'' then CHR ''-'' else if c = CHR ''/'' then CHR ''_'' else c) = CHR ''-'' then CHR ''+''
      else if (if c = CHR ''+'' then CHR ''-'' else if c = CHR ''/'' then CHR ''_'' else c) = CHR ''_'' then CHR ''/''
      else (if c = CHR ''+'' then CHR ''-'' else if c = CHR ''/'' then CHR ''_'' else c)) = c"
  using assms alphabet_special(2,3) by auto

lemma dropWhile_absent: "x \<notin> set xs \<Longrightarrow> dropWhile (\<lambda>c. c = x) (rev xs) = rev xs"
  by (cases xs rule: rev_cases) auto

lemma fromBase64Url_toBase64Url [simp]: "fromBase64Url (toBase64Url bs) = Some bs"
proof -
  let ?f = "\<lambda>c. if c = CHR ''+'' then CHR ''-'' else if c = CHR ''/'' then CHR ''_'' else c"
  let ?g = "\<lambda>c. if c = CHR ''-'' then CHR ''+'' else if c = CHR ''_'' then CHR ''/'' else c"
  from toBase64_digits [of bs] obtain k where k: "k \<le> 2" "toBase64 bs = map digit64 (digitsOf bs) @ replicate k CHR ''=''"
    "(length (digitsOf bs) + k) mod 4 = 0" "length (digitsOf bs) mod 4 \<noteq> 1" by (elim exE conjE)
  let ?ds = "map digit64 (digitsOf bs)"
  have member: "c \<in> set base64Alphabet" if "c \<in> set ?ds" for c
    using that digits_set [of bs] digit64_member by auto
  have none: "CHR ''='' \<notin> set (map ?f ?ds)"
  proof
    assume "CHR ''='' \<in> set (map ?f ?ds)"
    then have "CHR ''='' \<in> ?f ` set ?ds" by (simp only: set_map)
    then obtain c where "CHR ''='' = ?f c" and "c \<in> set ?ds" by (rule imageE)
    then have "c = CHR ''=''" by (cases "c = CHR ''+''"; cases "c = CHR ''/''") simp_all
    then show False using member [OF \<open>c \<in> set ?ds\<close>] alphabet_special(1) by simp
  qed
  have fe: "?f CHR ''='' = CHR ''=''" by simp
  have "rev (map ?f (toBase64 bs)) = replicate k CHR ''='' @ rev (map ?f ?ds)"
    unfolding k(2) map_append map_replicate fe rev_append rev_replicate ..
  moreover have "dropWhile (\<lambda>c. c = CHR ''='') (replicate k CHR ''='' @ rev (map ?f ?ds)) = rev (map ?f ?ds)"
  proof -
    have "dropWhile (\<lambda>c. c = CHR ''='') (rev (map ?f ?ds)) = rev (map ?f ?ds)"
      by (rule dropWhile_absent [OF none])
    moreover have "dropWhile (\<lambda>c. c = CHR ''='') (replicate k CHR ''='' @ s) = dropWhile (\<lambda>c. c = CHR ''='') s" for s
      by (induction k) simp_all
    ultimately show ?thesis by (simp only:)
  qed
  ultimately have u: "toBase64Url bs = map ?f ?ds" unfolding toBase64Url_def by (simp only: rev_rev_ident)
  have "map ?g (map ?f ?ds) = ?ds"
    unfolding map_map [of ?g ?f] comp_def by (rule map_idI) (rule url_swap, rule member)
  moreover have "(l + 3) div 4 * 4 - l = k" if "(l + k) mod 4 = 0" for l :: nat
    using k(1) that by presburger
  then have "(length (map ?f ?ds) + 3) div 4 * 4 - length (map ?f ?ds) = k" using k(3) by (simp only: length_map)
  ultimately have "map ?g (toBase64Url bs) @ replicate ((length (toBase64Url bs) + 3) div 4 * 4 - length (toBase64Url bs)) CHR ''=''
      = toBase64 bs" unfolding u k(2) by (simp only:)
  then show ?thesis unfolding fromBase64Url_def by (simp only: fromBase64_toBase64)
qed

lemma length_digitsOf: "length (digitsOf bs) = (4 * length bs + 2) div 3"
  by (induction bs rule: digitsOf.induct) (simp_all add: Let_def)

lemma length_toBase64: "length (toBase64 bs) = 4 * ((length bs + 2) div 3)"
proof (induction bs rule: toBase64.induct)
  case (4 a b c rest)
  have "(length (a # b # c # rest) + 2) div 3 = Suc ((length rest + 2) div 3)" by simp
  then show ?case using 4 by (simp add: Let_def)
qed (simp_all add: Let_def)

lemma length_toBase64Url: "length (toBase64Url bs) \<le> 4 * ((length bs + 2) div 3)"
proof -
  have "length (toBase64Url bs) \<le> length (toBase64 bs)"
    unfolding toBase64Url_def length_rev by (rule order.trans [OF length_dropWhile_le]) simp
  then show ?thesis by (simp only: length_toBase64)
qed

lemma length_encodeText [simp]: "length (encodeText s) = length s"
  by (simp add: encodeText_def)

end
