(* ===== verification/Device_Grants.thy ===== *)
theory Device_Grants
  imports Json Base64 "HOL-Library.Monad_Syntax" "HOL-Library.List_Lexorder" "HOL-Library.Char_ord"
begin

text \<open>
  \<open>protocol/src/device-grant.ts\<close>: who may call a machine. A root key signs invites, a device key
  signs its binding to an invite, a device whose grant allows it signs invites of its own, and the
  device key signs every request. The model has the data, the signed payloads, the verification of
  a grant through its chain of issuers, the request signatures, the capability rules and the check
  of the targets an input names.

  What the file takes from elsewhere is the record \<open>platform\<close>: the formats of the schema library
  (\<open>uuid\<close>, \<open>url\<close>), \<open>ed25519\<close> and \<open>sha256\<close>, the reader of JSON and the order \<open>localeCompare\<close> puts keys
  in. A verification that throws is \<open>None\<close>, which every caller of it treats as false.
\<close>

section \<open>Data\<close>

datatype DeviceCapability =
  Rpc_read | Rpc_write | Session_prompt | Fleet_control | Devices_manage | Deployment_control
| Account_admin | Lifecycle_control

datatype DeviceScope = User_scope | Project_scope string | Workspace_scope string

datatype DeviceKind = Browser | Client

record DeviceInvite =
  userId :: string
  inviteId :: string
  inviteKind :: DeviceKind
  inviteLabel :: "string option"
  scope :: DeviceScope
  capabilities :: "DeviceCapability list"
  canDelegate :: bool
  issuedAt :: int
  expiresAt :: int
  grantTtlMs :: "int option"
  enrollUrl :: string

datatype DeviceInviteIssuer = Root | Device string

record SignedDeviceInvite =
  invite :: DeviceInvite
  inviteSignature :: string
  issuer :: DeviceInviteIssuer

definition MAX_DELEGATION_DEPTH :: nat where "MAX_DELEGATION_DEPTH = 4"

record DeviceBinding =
  bindingInviteId :: string
  deviceId :: string
  signingPublicKey :: string
  bindingLabel :: string
  boundAt :: int
  bindingSignature :: string

record DeviceGrantRecord =
  signedInvite :: SignedDeviceInvite
  binding :: DeviceBinding
  generation :: int
  revokedAt :: "int option"

record VerifiedDevice =
  verifiedId :: string
  kind :: DeviceKind
  label :: string
  deviceScope :: DeviceScope
  deviceCapabilities :: "DeviceCapability list"
  mayDelegate :: bool
  publicKey :: bytes
  verifiedGeneration :: int
  verifiedBoundAt :: int
  verifiedExpiresAt :: "int option"

record SignedRpcHeader =
  headerDeviceId :: string
  timestamp :: int
  nonce :: string
  bodySha256 :: string
  headerSignature :: string

record ApiKey =
  keyUserId :: string
  keyDeviceId :: string
  signingPrivateKey :: string
  rpcUrl :: string
  keyEnrollUrl :: string

record platform =
  isUuid :: "string \<Rightarrow> bool"
  isUrl :: "string \<Rightarrow> bool"
  ed25519Verify :: "bytes \<Rightarrow> bytes \<Rightarrow> bytes \<Rightarrow> bool option"
  ed25519Sign :: "bytes \<Rightarrow> bytes \<Rightarrow> bytes"
  sha256Of :: "bytes \<Rightarrow> bytes"
  parseText :: "string \<Rightarrow> json option"
  localeOrder :: "string \<Rightarrow> string \<Rightarrow> bool"

section \<open>Schemas\<close>

definition safeInt :: "int \<Rightarrow> bool" where
  "safeInt n \<longleftrightarrow> \<bar>n\<bar> < 2 ^ 53"

definition idSchema :: "string \<Rightarrow> bool" where "idSchema s \<longleftrightarrow> lengthIn 1 160 s"
definition keySchema :: "string \<Rightarrow> bool" where "keySchema s \<longleftrightarrow> lengthIn 40 64 s"
definition signatureSchema :: "string \<Rightarrow> bool" where "signatureSchema s \<longleftrightarrow> lengthIn 64 128 s"

fun deviceScopeSchema :: "DeviceScope \<Rightarrow> bool" where
  "deviceScopeSchema User_scope \<longleftrightarrow> True"
| "deviceScopeSchema (Project_scope i) \<longleftrightarrow> idSchema i"
| "deviceScopeSchema (Workspace_scope i) \<longleftrightarrow> idSchema i"

definition deviceInviteSchema :: "platform \<Rightarrow> DeviceInvite \<Rightarrow> bool" where
  "deviceInviteSchema pf i \<longleftrightarrow>
     idSchema (userId i) \<and> isUuid pf (inviteId i)
     \<and> (case inviteLabel i of Some l \<Rightarrow> length l \<le> 160 | None \<Rightarrow> True)
     \<and> deviceScopeSchema (scope i) \<and> capabilities i \<noteq> []
     \<and> safeInt (issuedAt i) \<and> 0 \<le> issuedAt i \<and> safeInt (expiresAt i) \<and> 0 < expiresAt i
     \<and> (case grantTtlMs i of Some t \<Rightarrow> safeInt t \<and> 0 < t | None \<Rightarrow> True)
     \<and> isUrl pf (enrollUrl i) \<and> length (enrollUrl i) \<le> 2048"

fun deviceInviteIssuerSchema :: "platform \<Rightarrow> DeviceInviteIssuer \<Rightarrow> bool" where
  "deviceInviteIssuerSchema pf Root \<longleftrightarrow> True"
| "deviceInviteIssuerSchema pf (Device i) \<longleftrightarrow> isUuid pf i"

definition signedDeviceInviteSchema :: "platform \<Rightarrow> SignedDeviceInvite \<Rightarrow> bool" where
  "signedDeviceInviteSchema pf s \<longleftrightarrow>
     deviceInviteSchema pf (invite s) \<and> signatureSchema (inviteSignature s) \<and> deviceInviteIssuerSchema pf (issuer s)"

definition deviceBindingSchema :: "platform \<Rightarrow> DeviceBinding \<Rightarrow> bool" where
  "deviceBindingSchema pf b \<longleftrightarrow>
     isUuid pf (bindingInviteId b) \<and> isUuid pf (deviceId b) \<and> keySchema (signingPublicKey b)
     \<and> length (bindingLabel b) \<le> 160 \<and> safeInt (boundAt b) \<and> 0 \<le> boundAt b \<and> signatureSchema (bindingSignature b)"

definition deviceGrantRecordSchema :: "platform \<Rightarrow> DeviceGrantRecord \<Rightarrow> bool" where
  "deviceGrantRecordSchema pf r \<longleftrightarrow>
     signedDeviceInviteSchema pf (signedInvite r) \<and> deviceBindingSchema pf (binding r)
     \<and> safeInt (generation r) \<and> 0 < generation r
     \<and> (case revokedAt r of Some t \<Rightarrow> safeInt t \<and> 0 < t | None \<Rightarrow> True)"

definition base64Sha256 :: "string \<Rightarrow> bool" where
  "base64Sha256 s \<longleftrightarrow> length s = 44 \<and> last s = CHR ''='' \<and> set (butlast s) \<subseteq> set base64Alphabet"

definition signedRpcHeaderSchema :: "platform \<Rightarrow> SignedRpcHeader \<Rightarrow> bool" where
  "signedRpcHeaderSchema pf h \<longleftrightarrow>
     isUuid pf (headerDeviceId h) \<and> safeInt (timestamp h) \<and> 0 \<le> timestamp h \<and> isUuid pf (nonce h)
     \<and> base64Sha256 (bodySha256 h) \<and> signatureSchema (headerSignature h)"

definition apiKeySchema :: "platform \<Rightarrow> ApiKey \<Rightarrow> bool" where
  "apiKeySchema pf k \<longleftrightarrow>
     idSchema (keyUserId k) \<and> isUuid pf (keyDeviceId k) \<and> keySchema (signingPrivateKey k)
     \<and> isUrl pf (rpcUrl k) \<and> length (rpcUrl k) \<le> 2048 \<and> isUrl pf (keyEnrollUrl k) \<and> length (keyEnrollUrl k) \<le> 2048"

section \<open>Signed payloads\<close>

definition payload :: "platform \<Rightarrow> json \<Rightarrow> bytes" where
  "payload pf v = encodeText (stringify (canonical (localeOrder pf) v))"

fun capabilityText :: "DeviceCapability \<Rightarrow> string" where
  "capabilityText Rpc_read = ''rpc.read''"
| "capabilityText Rpc_write = ''rpc.write''"
| "capabilityText Session_prompt = ''session.prompt''"
| "capabilityText Fleet_control = ''fleet.control''"
| "capabilityText Devices_manage = ''devices.manage''"
| "capabilityText Deployment_control = ''deployment.control''"
| "capabilityText Account_admin = ''account.admin''"
| "capabilityText Lifecycle_control = ''lifecycle.control''"

fun kindText :: "DeviceKind \<Rightarrow> string" where
  "kindText Browser = ''browser''"
| "kindText Client = ''client''"

fun scopeJson :: "DeviceScope \<Rightarrow> json" where
  "scopeJson User_scope = JObject [(''kind'', JString ''user'')]"
| "scopeJson (Project_scope i) = JObject [(''kind'', JString ''project''), (''projectId'', JString i)]"
| "scopeJson (Workspace_scope i) = JObject [(''kind'', JString ''workspace''), (''workspaceId'', JString i)]"

definition nullable :: "('a \<Rightarrow> json) \<Rightarrow> 'a option \<Rightarrow> json" where
  "nullable f v = (case v of Some x \<Rightarrow> f x | None \<Rightarrow> JNull)"

definition inviteJson :: "DeviceInvite \<Rightarrow> json" where
  "inviteJson i = JObject [
     (''version'', JNumber 1), (''userId'', JString (userId i)), (''inviteId'', JString (inviteId i)),
     (''kind'', JString (kindText (inviteKind i))), (''label'', nullable JString (inviteLabel i)),
     (''scope'', scopeJson (scope i)),
     (''capabilities'', JArray (map (\<lambda>c. JString (capabilityText c)) (capabilities i))),
     (''canDelegate'', JBool (canDelegate i)), (''issuedAt'', JNumber (issuedAt i)), (''expiresAt'', JNumber (expiresAt i)),
     (''grantTtlMs'', nullable JNumber (grantTtlMs i)), (''enrollUrl'', JString (enrollUrl i))]"

definition deviceInvitePayload :: "platform \<Rightarrow> DeviceInvite \<Rightarrow> bytes option" where
  "deviceInvitePayload pf i = (if deviceInviteSchema pf i then Some (payload pf (inviteJson i)) else None)"

definition signDeviceInvite :: "platform \<Rightarrow> DeviceInvite \<Rightarrow> bytes \<Rightarrow> DeviceInviteIssuer \<Rightarrow> SignedDeviceInvite option" where
  "signDeviceInvite pf i key by' =
     (if deviceInviteSchema pf i
      then Some \<lparr>invite = i, inviteSignature = toBase64 (ed25519Sign pf (payload pf (inviteJson i)) key), issuer = by'\<rparr>
      else None)"

definition verifies :: "platform \<Rightarrow> string \<Rightarrow> bytes \<Rightarrow> bytes \<Rightarrow> bool" where
  "verifies pf signature message key =
     (case fromBase64 signature of Some s \<Rightarrow> ed25519Verify pf s message key = Some True | None \<Rightarrow> False)"

definition verifyDeviceInvite :: "platform \<Rightarrow> SignedDeviceInvite \<Rightarrow> bytes \<Rightarrow> DeviceInvite option" where
  "verifyDeviceInvite pf s key =
     (if \<not> signedDeviceInviteSchema pf s then None
      else if verifies pf (inviteSignature s) (payload pf (inviteJson (invite s))) key then Some (invite s) else None)"

definition bindingJson :: "DeviceBinding \<Rightarrow> json" where
  "bindingJson b = JObject [
     (''version'', JNumber 1), (''inviteId'', JString (bindingInviteId b)), (''deviceId'', JString (deviceId b)),
     (''signingPublicKey'', JString (signingPublicKey b)), (''label'', JString (bindingLabel b)), (''boundAt'', JNumber (boundAt b))]"

definition deviceBindingPayload :: "platform \<Rightarrow> DeviceBinding \<Rightarrow> bytes" where
  "deviceBindingPayload pf b = payload pf (bindingJson b)"

definition createDeviceBinding :: "platform \<Rightarrow> DeviceBinding \<Rightarrow> bytes \<Rightarrow> DeviceBinding option" where
  "createDeviceBinding pf draft key =
     (let b = draft\<lparr>bindingSignature := toBase64 (ed25519Sign pf (deviceBindingPayload pf draft) key)\<rparr>
      in if deviceBindingSchema pf b then Some b else None)"

definition verifyDeviceBinding :: "platform \<Rightarrow> DeviceBinding \<Rightarrow> bool" where
  "verifyDeviceBinding pf b \<longleftrightarrow>
     deviceBindingSchema pf b
     \<and> (case fromBase64 (signingPublicKey b) of
          Some key \<Rightarrow> verifies pf (bindingSignature b) (deviceBindingPayload pf b) key
        | None \<Rightarrow> False)"

section \<open>Grants\<close>

fun scopeContains :: "DeviceScope \<Rightarrow> DeviceScope \<Rightarrow> bool" where
  "scopeContains User_scope child \<longleftrightarrow> True"
| "scopeContains (Project_scope i) child \<longleftrightarrow> child = Project_scope i"
| "scopeContains (Workspace_scope i) child \<longleftrightarrow> child = Workspace_scope i"

definition hasCapability :: "DeviceKind \<Rightarrow> DeviceScope \<Rightarrow> DeviceCapability list \<Rightarrow> DeviceCapability \<Rightarrow> bool" where
  "hasCapability k s cs c \<longleftrightarrow>
     c \<in> set cs
     \<or> (c = Account_admin \<or> c = Lifecycle_control) \<and> k = Browser \<and> s = User_scope \<and> Rpc_write \<in> set cs"

definition deviceHasCapability :: "VerifiedDevice \<Rightarrow> DeviceCapability \<Rightarrow> bool" where
  "deviceHasCapability d c \<longleftrightarrow> hasCapability (kind d) (deviceScope d) (deviceCapabilities d) c"

definition deviceGrantExpiresAt :: "DeviceGrantRecord \<Rightarrow> int option" where
  "deviceGrantExpiresAt r = map_option (\<lambda>ttl. boundAt (binding r) + ttl) (grantTtlMs (invite (signedInvite r)))"

definition grantCurrent :: "int \<Rightarrow> DeviceGrantRecord \<Rightarrow> bool" where
  "grantCurrent now r \<longleftrightarrow>
     (case revokedAt r of Some t \<Rightarrow> now < t | None \<Rightarrow> True)
     \<and> (case deviceGrantExpiresAt r of Some t \<Rightarrow> now < t | None \<Rightarrow> True)"

text \<open>What follows once the issuer's key is known.\<close>

definition verifyGrant :: "platform \<Rightarrow> DeviceGrantRecord \<Rightarrow> int \<Rightarrow> bytes \<Rightarrow> VerifiedDevice option" where
  "verifyGrant pf r now issuerKey =
     (case verifyDeviceInvite pf (signedInvite r) issuerKey of
        None \<Rightarrow> None
      | Some i \<Rightarrow>
          if \<not> verifyDeviceBinding pf (binding r) then None
          else if bindingInviteId (binding r) \<noteq> inviteId i \<or> expiresAt i < boundAt (binding r) then None
          else if \<not> grantCurrent now r then None
          else case fromBase64 (signingPublicKey (binding r)) of
              None \<Rightarrow> None
            | Some key \<Rightarrow> Some \<lparr>verifiedId = deviceId (binding r), kind = inviteKind i, label = bindingLabel (binding r),
                deviceScope = scope i, deviceCapabilities = capabilities i, mayDelegate = canDelegate i,
                publicKey = key, verifiedGeneration = generation r, verifiedBoundAt = boundAt (binding r),
                verifiedExpiresAt = deviceGrantExpiresAt r\<rparr>)"

type_synonym resolver = "string \<Rightarrow> DeviceGrantRecord option"

definition recordUser :: "DeviceGrantRecord \<Rightarrow> string" where
  "recordUser r = userId (invite (signedInvite r))"

text \<open>Whether a verified issuer may have signed the invite of \<open>r\<close>.\<close>

definition issuerAllows :: "DeviceGrantRecord \<Rightarrow> DeviceGrantRecord \<Rightarrow> VerifiedDevice \<Rightarrow> bool" where
  "issuerAllows r parent d \<longleftrightarrow>
     recordUser parent = recordUser r
     \<and> mayDelegate d \<and> issuer (signedInvite r) = Device (verifiedId d)
     \<and> scopeContains (deviceScope d) (scope (invite (signedInvite r)))
     \<and> (\<forall>c \<in> set (capabilities (invite (signedInvite r))). deviceHasCapability d c)"

function verifyDeviceGrantRecord ::
    "platform \<Rightarrow> DeviceGrantRecord \<Rightarrow> bytes \<Rightarrow> int \<Rightarrow> resolver \<Rightarrow> nat \<Rightarrow> VerifiedDevice option" where
  "verifyDeviceGrantRecord pf r root now resolve depth =
     (if \<not> deviceGrantRecordSchema pf r \<or> MAX_DELEGATION_DEPTH \<le> depth then None
      else case issuer (signedInvite r) of
          Root \<Rightarrow> verifyGrant pf r now root
        | Device i \<Rightarrow>
            (case resolve i of
               None \<Rightarrow> None
             | Some parent \<Rightarrow>
                 (case verifyDeviceGrantRecord pf parent root now resolve (Suc depth) of
                    None \<Rightarrow> None
                  | Some d \<Rightarrow> if issuerAllows r parent d then verifyGrant pf r now (publicKey d) else None)))"
  by auto
termination by (relation "measure (\<lambda>(pf, r, root, now, resolve, depth). MAX_DELEGATION_DEPTH - depth)") auto

declare verifyDeviceGrantRecord.simps [simp del]

section \<open>Signed requests\<close>

definition upperChar :: "char \<Rightarrow> char" where
  "upperChar c = (let n = of_char c :: nat in if 97 \<le> n \<and> n \<le> 122 then char_of (n - 32) else c)"

definition rpcBodySha256 :: "platform \<Rightarrow> bytes \<Rightarrow> string" where
  "rpcBodySha256 pf body = toBase64 (sha256Of pf body)"

definition rpcJson :: "SignedRpcHeader \<Rightarrow> string \<Rightarrow> string \<Rightarrow> json" where
  "rpcJson h verb path = JObject [
     (''version'', JNumber 1), (''deviceId'', JString (headerDeviceId h)), (''timestamp'', JNumber (timestamp h)),
     (''nonce'', JString (nonce h)), (''method'', JString (map upperChar verb)), (''path'', JString path),
     (''bodySha256'', JString (bodySha256 h))]"

definition rpcSignaturePayload :: "platform \<Rightarrow> SignedRpcHeader \<Rightarrow> string \<Rightarrow> string \<Rightarrow> bytes" where
  "rpcSignaturePayload pf h verb path = payload pf (rpcJson h verb path)"

definition headerJson :: "SignedRpcHeader \<Rightarrow> json" where
  "headerJson h = JObject [
     (''version'', JNumber 1), (''deviceId'', JString (headerDeviceId h)), (''timestamp'', JNumber (timestamp h)),
     (''nonce'', JString (nonce h)), (''bodySha256'', JString (bodySha256 h)), (''signature'', JString (headerSignature h))]"

fun fieldOf :: "string \<Rightarrow> json \<Rightarrow> json option" where
  "fieldOf k (JObject fs) = map_of fs k"
| "fieldOf k v = None"

fun textOf :: "json \<Rightarrow> string option" where
  "textOf (JString s) = Some s"
| "textOf v = None"

fun intOf :: "json \<Rightarrow> int option" where
  "intOf (JNumber n) = Some n"
| "intOf v = None"

definition textField :: "string \<Rightarrow> json \<Rightarrow> string option" where
  "textField k v = Option.bind (fieldOf k v) textOf"

definition intField :: "string \<Rightarrow> json \<Rightarrow> int option" where
  "intField k v = Option.bind (fieldOf k v) intOf"

definition readHeader :: "platform \<Rightarrow> json \<Rightarrow> SignedRpcHeader option" where
  "readHeader pf v = do {
     version \<leftarrow> intField ''version'' v;
     d \<leftarrow> textField ''deviceId'' v; t \<leftarrow> intField ''timestamp'' v; n \<leftarrow> textField ''nonce'' v;
     b \<leftarrow> textField ''bodySha256'' v; s \<leftarrow> textField ''signature'' v;
     let h = \<lparr>headerDeviceId = d, timestamp = t, nonce = n, bodySha256 = b, headerSignature = s\<rparr>;
     if version = 1 \<and> signedRpcHeaderSchema pf h then Some h else None
   }"

definition encodeSignedRpcHeader :: "platform \<Rightarrow> SignedRpcHeader \<Rightarrow> string option" where
  "encodeSignedRpcHeader pf h =
     (if signedRpcHeaderSchema pf h then Some (toBase64Url (encodeText (stringify (headerJson h)))) else None)"

definition decodeSignedRpcHeader :: "platform \<Rightarrow> string \<Rightarrow> SignedRpcHeader option" where
  "decodeSignedRpcHeader pf value =
     (if 2048 < length value then None
      else do {
        bs \<leftarrow> fromBase64Url value;
        v \<leftarrow> parseText pf (decodeText bs);
        readHeader pf v
      })"

text \<open>The header with its signature still to come is \<open>draft\<close>.\<close>

definition signRpcDigestRequest :: "platform \<Rightarrow> SignedRpcHeader \<Rightarrow> string \<Rightarrow> string \<Rightarrow> bytes \<Rightarrow> string option" where
  "signRpcDigestRequest pf draft verb path key =
     encodeSignedRpcHeader pf
       (draft\<lparr>headerSignature := toBase64 (ed25519Sign pf (rpcSignaturePayload pf draft verb path) key)\<rparr>)"

definition signRpcRequest :: "platform \<Rightarrow> SignedRpcHeader \<Rightarrow> string \<Rightarrow> string \<Rightarrow> bytes \<Rightarrow> bytes \<Rightarrow> string option" where
  "signRpcRequest pf draft verb path body key =
     signRpcDigestRequest pf (draft\<lparr>bodySha256 := rpcBodySha256 pf body\<rparr>) verb path key"

definition verifyRpcDigestSignature :: "platform \<Rightarrow> SignedRpcHeader \<Rightarrow> string \<Rightarrow> string \<Rightarrow> bytes \<Rightarrow> bool" where
  "verifyRpcDigestSignature pf h verb path key \<longleftrightarrow>
     verifies pf (headerSignature h) (rpcSignaturePayload pf h verb path) key"

definition verifyRpcSignature :: "platform \<Rightarrow> SignedRpcHeader \<Rightarrow> string \<Rightarrow> string \<Rightarrow> bytes \<Rightarrow> bytes \<Rightarrow> bool" where
  "verifyRpcSignature pf h verb path body key \<longleftrightarrow>
     rpcBodySha256 pf body = bodySha256 h \<and> verifyRpcDigestSignature pf h verb path key"

section \<open>API keys\<close>

definition API_KEY_PREFIX :: string where "API_KEY_PREFIX = ''gsk_''"

definition apiKeyJson :: "ApiKey \<Rightarrow> json" where
  "apiKeyJson k = JObject [
     (''version'', JNumber 2), (''userId'', JString (keyUserId k)), (''deviceId'', JString (keyDeviceId k)),
     (''signingPrivateKey'', JString (signingPrivateKey k)), (''rpcUrl'', JString (rpcUrl k)),
     (''enrollUrl'', JString (keyEnrollUrl k))]"

definition readApiKey :: "platform \<Rightarrow> json \<Rightarrow> ApiKey option" where
  "readApiKey pf v = do {
     version \<leftarrow> intField ''version'' v;
     u \<leftarrow> textField ''userId'' v; d \<leftarrow> textField ''deviceId'' v; s \<leftarrow> textField ''signingPrivateKey'' v;
     r \<leftarrow> textField ''rpcUrl'' v; e \<leftarrow> textField ''enrollUrl'' v;
     let k = \<lparr>keyUserId = u, keyDeviceId = d, signingPrivateKey = s, rpcUrl = r, keyEnrollUrl = e\<rparr>;
     if version = 2 \<and> apiKeySchema pf k then Some k else None
   }"

definition encodeApiKey :: "platform \<Rightarrow> ApiKey \<Rightarrow> string option" where
  "encodeApiKey pf k =
     (if apiKeySchema pf k then Some (API_KEY_PREFIX @ toBase64Url (encodeText (stringify (apiKeyJson k)))) else None)"

definition startsWith :: "string \<Rightarrow> string \<Rightarrow> bool" where
  "startsWith p s \<longleftrightarrow> take (length p) s = p"

definition decodeApiKey :: "platform \<Rightarrow> string \<Rightarrow> ApiKey option" where
  "decodeApiKey pf value =
     (if \<not> startsWith API_KEY_PREFIX value then None
      else do {
        bs \<leftarrow> fromBase64Url (drop (length API_KEY_PREFIX) value);
        v \<leftarrow> parseText pf (decodeText bs);
        readApiKey pf v
      })"

section \<open>What a caller may do\<close>

datatype procedureKind = Query | Mutation | Subscription

definition requiredCapability :: "string \<Rightarrow> procedureKind \<Rightarrow> DeviceCapability" where
  "requiredCapability path k =
     (if path \<in> set [''runtime.submit'', ''runtime.cancel'', ''runtime.answer''] then Session_prompt
      else if path \<in> set [''runtime.session'', ''runtime.services''] then Rpc_read
      else if startsWith ''machine.image.'' path \<and> k = Mutation then Deployment_control
      else if startsWith ''machine.'' path \<and> k = Mutation then Fleet_control
      else if startsWith ''devices.'' path \<and> k = Mutation then Devices_manage
      else if startsWith ''deployment.'' path \<and> k = Mutation then Deployment_control
      else if k = Mutation then Rpc_write else Rpc_read)"

definition deviceCanAdminister :: "VerifiedDevice option \<Rightarrow> DeviceCapability \<Rightarrow> bool" where
  "deviceCanAdminister device c \<longleftrightarrow>
     (case device of
        None \<Rightarrow> False
      | Some d \<Rightarrow> deviceScope d = User_scope \<and> Rpc_write \<in> set (deviceCapabilities d) \<and> deviceHasCapability d c)"

definition requireDeviceAdministration :: "VerifiedDevice option \<Rightarrow> string + VerifiedDevice" where
  "requireDeviceAdministration device =
     (case device of
        Some d \<Rightarrow> if deviceCanAdminister device Account_admin then Inr d
          else Inl ''Account administration requires account scope, rpc.write and account.admin authorization''
      | None \<Rightarrow> Inl ''Account administration requires account scope, rpc.write and account.admin authorization'')"

definition requiredAdministrativeCapability :: "string \<Rightarrow> json option \<Rightarrow> DeviceCapability option" where
  "requiredAdministrativeCapability path input =
     (if path \<in> set [''providers.apiKey.set'', ''providers.logout'', ''providers.account.disable'', ''providers.account.enable'',
          ''providers.account.remove'', ''providers.login.start'', ''providers.login.respond'', ''providers.login.cancel'',
          ''inference.create'', ''inference.update'', ''inference.delete'', ''inference.assign'',
          ''inspector.workflow.waiveGate'', ''inspector.guide.setApproval'', ''inspector.rubric.appendJudgment'']
      then Some Account_admin
      else if path \<in> set [''environment.approve'', ''environment.revokeApproval'', ''environment.cancelRun'']
      then Some Lifecycle_control
      else if path = ''environment.runPhase'' \<and> Option.bind input (fieldOf ''phase'') = Some (JString ''cloud/destroy'')
      then Some Lifecycle_control
      else None)"

definition requiresImageSelectionControl :: "string \<Rightarrow> json option \<Rightarrow> bool" where
  "requiresImageSelectionControl path input \<longleftrightarrow>
     path = ''machine.createSandbox'' \<and> Option.bind input (fieldOf ''image'') \<noteq> None"

subsection \<open>The targets an input names\<close>

type_synonym project_of = "string \<Rightarrow> string option"
type_synonym session_of = "string \<Rightarrow> (string \<times> string) option"

definition projectAllowed :: "DeviceScope \<Rightarrow> project_of \<Rightarrow> string \<Rightarrow> bool" where
  "projectAllowed s workspaceProject p \<longleftrightarrow>
     (case s of
        Project_scope i \<Rightarrow> p = i
      | Workspace_scope w \<Rightarrow> workspaceProject w = Some p
      | User_scope \<Rightarrow> False)"

definition workspaceAllowed :: "DeviceScope \<Rightarrow> project_of \<Rightarrow> string \<Rightarrow> bool" where
  "workspaceAllowed s workspaceProject w \<longleftrightarrow>
     (case workspaceProject w of
        None \<Rightarrow> False
      | Some p \<Rightarrow> p \<noteq> [] \<and> projectAllowed s workspaceProject p
          \<and> (case s of Workspace_scope v \<Rightarrow> w = v | _ \<Rightarrow> True))"

text \<open>Whether a named target is allowed, and whether it counts as a target found.\<close>

definition visitTarget :: "DeviceScope \<Rightarrow> project_of \<Rightarrow> session_of \<Rightarrow> string \<Rightarrow> string \<Rightarrow> bool \<times> bool" where
  "visitTarget s workspaceProject sessionTarget name target =
     (if name = ''projectId'' then
        (projectAllowed s workspaceProject target, (case s of Project_scope _ \<Rightarrow> True | _ \<Rightarrow> False))
      else if name = ''sessionId'' then
        (case sessionTarget target of
           None \<Rightarrow> (False, False)
         | Some (p, w) \<Rightarrow> (projectAllowed s workspaceProject p \<and> workspaceAllowed s workspaceProject w, True))
      else (workspaceAllowed s workspaceProject target, True))"

definition targetNames :: "string list" where
  "targetNames = [''projectId'', ''workspaceId'', ''spaceId'', ''sessionId'']"

fun visit :: "(string \<Rightarrow> string \<Rightarrow> bool \<times> bool) \<Rightarrow> json \<Rightarrow> bool \<Rightarrow> bool \<times> bool"
  and visitItems :: "(string \<Rightarrow> string \<Rightarrow> bool \<times> bool) \<Rightarrow> json list \<Rightarrow> bool \<Rightarrow> bool \<times> bool"
  and visitFields :: "(string \<Rightarrow> string \<Rightarrow> bool \<times> bool) \<Rightarrow> (string \<times> json) list \<Rightarrow> bool \<Rightarrow> bool \<times> bool" where
  "visit check (JArray xs) found = visitItems check xs found"
| "visit check (JObject fs) found = visitFields check fs found"
| "visit check v found = (True, found)"
| "visitItems check [] found = (True, found)"
| "visitItems check (x # xs) found =
     (case visit check x found of (ok, found) \<Rightarrow> if ok then visitItems check xs found else (False, found))"
| "visitFields check [] found = (True, found)"
| "visitFields check ((name, v) # fs) found =
     (case (if name \<in> set targetNames then textOf v else None) of
        Some target \<Rightarrow>
          (case check name target of (ok, counts) \<Rightarrow>
            if ok then visitFields check fs (found \<or> counts) else (False, found))
      | None \<Rightarrow>
          (case visit check v found of (ok, found) \<Rightarrow> if ok then visitFields check fs found else (False, found)))"

definition inputWithinScope :: "DeviceScope \<Rightarrow> json \<Rightarrow> project_of \<Rightarrow> session_of \<Rightarrow> bool" where
  "inputWithinScope s input workspaceProject sessionTarget \<longleftrightarrow>
     (if s = User_scope then True
      else case visit (visitTarget s workspaceProject sessionTarget) input False of (ok, found) \<Rightarrow> ok \<and> found)"

section \<open>A grant rests on a chain from the root\<close>

text \<open>A record with its issuers, the record first and the one the root signed last.\<close>

inductive grantChain :: "platform \<Rightarrow> bytes \<Rightarrow> int \<Rightarrow> resolver \<Rightarrow> DeviceGrantRecord list \<Rightarrow> VerifiedDevice \<Rightarrow> bool"
  for pf root now resolve where
  rooted: "deviceGrantRecordSchema pf r \<Longrightarrow> issuer (signedInvite r) = Root \<Longrightarrow> verifyGrant pf r now root = Some d
    \<Longrightarrow> grantChain pf root now resolve [r] d"
| delegated: "grantChain pf root now resolve (parent # rs) p \<Longrightarrow> deviceGrantRecordSchema pf r
    \<Longrightarrow> issuer (signedInvite r) = Device i \<Longrightarrow> resolve i = Some parent \<Longrightarrow> issuerAllows r parent p
    \<Longrightarrow> verifyGrant pf r now (publicKey p) = Some d \<Longrightarrow> grantChain pf root now resolve (r # parent # rs) d"

inductive_cases grantChain_oneE: "grantChain pf root now resolve [r] d"
inductive_cases grantChain_moreE: "grantChain pf root now resolve (r # s # rs) d"
inductive_cases grantChain_consE: "grantChain pf root now resolve (r # rs) d"

lemma verify_chain:
  "verifyDeviceGrantRecord pf r root now resolve depth = Some d
    \<Longrightarrow> \<exists>rs. grantChain pf root now resolve (r # rs) d \<and> Suc (length rs) + depth \<le> MAX_DELEGATION_DEPTH"
proof (induction pf r root now resolve depth arbitrary: d rule: verifyDeviceGrantRecord.induct)
  case (1 pf r root now resolve depth)
  from "1.prems" have s: "deviceGrantRecordSchema pf r" "depth < MAX_DELEGATION_DEPTH"
    by (subst (asm) verifyDeviceGrantRecord.simps, simp split: if_splits)+
  show ?case
  proof (cases "issuer (signedInvite r)")
    case Root
    then have "verifyGrant pf r now root = Some d"
      using "1.prems" s by (subst (asm) verifyDeviceGrantRecord.simps) simp
    from grantChain.rooted [OF s(1) Root this] show ?thesis using s(2) by (intro exI [of _ "[]"]) simp
  next
    case (Device i)
    from "1.prems" s Device obtain parent p where p: "resolve i = Some parent"
      "verifyDeviceGrantRecord pf parent root now resolve (Suc depth) = Some p" "issuerAllows r parent p"
      "verifyGrant pf r now (publicKey p) = Some d"
      by (subst (asm) verifyDeviceGrantRecord.simps) (auto split: option.splits if_splits)
    from "1.IH" [OF _ Device p(1,2)] s obtain rs where
      "grantChain pf root now resolve (parent # rs) p" "Suc (length rs) + Suc depth \<le> MAX_DELEGATION_DEPTH" by auto
    with grantChain.delegated [OF this(1) s(1) Device p(1,3,4)] show ?thesis by (intro exI [of _ "parent # rs"]) simp
  qed
qed

lemma chain_verify:
  "grantChain pf root now resolve rs d \<Longrightarrow> rs = r # rs' \<Longrightarrow> length rs + depth \<le> MAX_DELEGATION_DEPTH
    \<Longrightarrow> verifyDeviceGrantRecord pf r root now resolve depth = Some d"
proof (induction arbitrary: r rs' depth rule: grantChain.induct)
  case (rooted r d)
  then show ?case by (subst verifyDeviceGrantRecord.simps) simp
next
  case (delegated parent rs p r i d)
  have "verifyDeviceGrantRecord pf parent root now resolve (Suc depth) = Some p"
    by (rule delegated.IH [OF refl]) (use delegated.prems in simp)
  then show ?case using delegated.hyps delegated.prems by (subst verifyDeviceGrantRecord.simps) simp
qed

text \<open>
  What a chain is meant to be, said of the records alone: the raw fields, the two signatures of each record and the
  instant, without the steps and the helpers of the verification.
\<close>

definition signedBy :: "platform \<Rightarrow> string \<Rightarrow> json \<Rightarrow> bytes \<Rightarrow> bool" where
  "signedBy pf signature v key \<longleftrightarrow>
     (\<exists>s. fromBase64 signature = Some s
        \<and> ed25519Verify pf s (encodeText (stringify (canonical (localeOrder pf) v))) key = Some True)"

definition soundRecord :: "platform \<Rightarrow> int \<Rightarrow> DeviceGrantRecord \<Rightarrow> bytes \<Rightarrow> bytes \<Rightarrow> bool" where
  "soundRecord pf now r signer own \<longleftrightarrow>
     (let i = invite (signedInvite r); b = binding r in
      deviceGrantRecordSchema pf r
      \<and> signedBy pf (inviteSignature (signedInvite r)) (inviteJson i) signer
      \<and> fromBase64 (signingPublicKey b) = Some own \<and> signedBy pf (bindingSignature b) (bindingJson b) own
      \<and> bindingInviteId b = inviteId i \<and> boundAt b \<le> expiresAt i
      \<and> (\<forall>t. revokedAt r = Some t \<longrightarrow> now < t)
      \<and> (\<forall>ttl. grantTtlMs i = Some ttl \<longrightarrow> now < boundAt b + ttl))"

text \<open>
  What a device may hand out: its own scope or, at account scope, any; of the capabilities those it holds and, for a
  browser that writes at account scope, the two administrative ones; and only to its own user.
\<close>

definition mayIssue :: "DeviceInvite \<Rightarrow> DeviceInvite \<Rightarrow> bool" where
  "mayIssue p i \<longleftrightarrow>
     canDelegate p \<and> userId p = userId i \<and> (scope p = User_scope \<or> scope i = scope p)
     \<and> (\<forall>c \<in> set (capabilities i).
           c \<in> set (capabilities p)
           \<or> c \<in> {Account_admin, Lifecycle_control} \<and> inviteKind p = Browser \<and> scope p = User_scope
             \<and> Rpc_write \<in> set (capabilities p))"

inductive soundChain :: "platform \<Rightarrow> bytes \<Rightarrow> int \<Rightarrow> resolver \<Rightarrow> DeviceGrantRecord list \<Rightarrow> bytes \<Rightarrow> bool"
  for pf root now resolve where
  from_root: "issuer (signedInvite r) = Root \<Longrightarrow> soundRecord pf now r root own \<Longrightarrow> soundChain pf root now resolve [r] own"
| from_device: "soundChain pf root now resolve (parent # rs) key \<Longrightarrow> issuer (signedInvite r) = Device (deviceId (binding parent)) \<Longrightarrow>
    resolve (deviceId (binding parent)) = Some parent \<Longrightarrow> mayIssue (invite (signedInvite parent)) (invite (signedInvite r)) \<Longrightarrow>
    soundRecord pf now r key own \<Longrightarrow> soundChain pf root now resolve (r # parent # rs) own"

text \<open>The device that a record with this key stands for.\<close>

definition grantedDevice :: "DeviceGrantRecord \<Rightarrow> bytes \<Rightarrow> VerifiedDevice" where
  "grantedDevice r key =
     (let i = invite (signedInvite r); b = binding r in
      \<lparr>verifiedId = deviceId b, kind = inviteKind i, label = bindingLabel b, deviceScope = scope i, deviceCapabilities = capabilities i,
       mayDelegate = canDelegate i, publicKey = key, verifiedGeneration = generation r, verifiedBoundAt = boundAt b,
       verifiedExpiresAt = map_option (\<lambda>ttl. boundAt b + ttl) (grantTtlMs i)\<rparr>)"

lemma signedBy_verifies: "signedBy pf signature v key \<longleftrightarrow> verifies pf signature (payload pf v) key"
  by (simp add: signedBy_def verifies_def payload_def split: option.split)

lemma verifyGrant_sound:
  "deviceGrantRecordSchema pf r \<and> verifyGrant pf r now key = Some d
   \<longleftrightarrow> (\<exists>own. soundRecord pf now r key own \<and> d = grantedDevice r own)"
  by (auto simp: verifyGrant_def verifyDeviceInvite_def verifyDeviceBinding_def soundRecord_def grantedDevice_def signedBy_verifies
      deviceBindingPayload_def grantCurrent_def deviceGrantExpiresAt_def deviceGrantRecordSchema_def Let_def not_less
      split: option.splits if_splits)

lemma issuerAllows_may:
  "issuerAllows r parent (grantedDevice parent key)
   \<longleftrightarrow> issuer (signedInvite r) = Device (deviceId (binding parent)) \<and> mayIssue (invite (signedInvite parent)) (invite (signedInvite r))"
  by (cases "scope (invite (signedInvite parent))")
    (auto simp: issuerAllows_def grantedDevice_def mayIssue_def recordUser_def deviceHasCapability_def hasCapability_def Let_def)

lemma chain_sound:
  "grantChain pf root now resolve rs d \<longleftrightarrow> (\<exists>own. soundChain pf root now resolve rs own \<and> d = grantedDevice (hd rs) own)"
proof
  assume "grantChain pf root now resolve rs d"
  then show "\<exists>own. soundChain pf root now resolve rs own \<and> d = grantedDevice (hd rs) own"
  proof induction
    case (rooted r d)
    then obtain own where own: "soundRecord pf now r root own" "d = grantedDevice r own" using verifyGrant_sound by blast
    then show ?case using from_root [OF rooted(2) own(1)] by auto
  next
    case (delegated parent rs p r i d)
    then obtain key where key: "soundChain pf root now resolve (parent # rs) key" "p = grantedDevice parent key" by auto
    then have may: "i = deviceId (binding parent)" "mayIssue (invite (signedInvite parent)) (invite (signedInvite r))"
      using delegated.hyps(3,5) issuerAllows_may by auto
    have "publicKey p = key" using key(2) by (simp add: grantedDevice_def Let_def)
    then obtain own where "soundRecord pf now r key own" "d = grantedDevice r own"
      using delegated.hyps(2,6) verifyGrant_sound [of pf r now key d] by blast
    then show ?case using from_device [OF key(1)] delegated.hyps(3,4) may by auto
  qed
next
  have "grantChain pf root now resolve rs (grantedDevice (hd rs) own)" if "soundChain pf root now resolve rs own" for own
    using that
  proof induction
    case (from_root r own)
    then have "deviceGrantRecordSchema pf r \<and> verifyGrant pf r now root = Some (grantedDevice r own)" using verifyGrant_sound by blast
    then show ?case using rooted from_root(1) by auto
  next
    case (from_device parent rs key r own)
    then have "deviceGrantRecordSchema pf r \<and> verifyGrant pf r now key = Some (grantedDevice r own)" using verifyGrant_sound by blast
    moreover have "publicKey (grantedDevice parent key) = key" by (simp add: grantedDevice_def Let_def)
    ultimately show ?case
      using delegated [of pf root now resolve parent rs "grantedDevice parent key" r] from_device issuerAllows_may by simp
  qed
  then show "\<exists>own. soundChain pf root now resolve rs own \<and> d = grantedDevice (hd rs) own \<Longrightarrow> grantChain pf root now resolve rs d" by blast
qed

text \<open>
  C2. A grant record verifies exactly when it ends a sound chain of at most four records. The last is signed by the root
  key, each other one by the device of the record after it, which the directory has under the name that the invite gives
  its issuer, and which may hand out what the invite lists: it delegates, is of the same user, has account scope or just
  that scope, and holds each capability (a browser that writes at account scope also holds the administrative ones).
  Every record of the chain is well formed, has a binding to this invite that its own key signed in time, and is neither
  revoked nor expired at that instant. What is verified is the device of the record: its id, kind, label, rights and key.
\<close>

theorem verify_iff_chain:
  "verifyDeviceGrantRecord pf r root now resolve 0 = Some d
    \<longleftrightarrow> (\<exists>rs key. length (r # rs) \<le> 4 \<and> soundChain pf root now resolve (r # rs) key \<and> d = grantedDevice r key)"
proof
  assume "verifyDeviceGrantRecord pf r root now resolve 0 = Some d"
  from verify_chain [OF this] obtain rs where "grantChain pf root now resolve (r # rs) d" "length (r # rs) \<le> 4"
    by (auto simp: MAX_DELEGATION_DEPTH_def)
  then show "\<exists>rs key. length (r # rs) \<le> 4 \<and> soundChain pf root now resolve (r # rs) key \<and> d = grantedDevice r key"
    by (auto simp: chain_sound)
next
  assume "\<exists>rs key. length (r # rs) \<le> 4 \<and> soundChain pf root now resolve (r # rs) key \<and> d = grantedDevice r key"
  then obtain rs where rs: "length (r # rs) \<le> 4" "grantChain pf root now resolve (r # rs) d" by (auto simp: chain_sound)
  show "verifyDeviceGrantRecord pf r root now resolve 0 = Some d"
    by (rule chain_verify [OF rs(2) refl]) (use rs(1) in \<open>simp add: MAX_DELEGATION_DEPTH_def\<close>)
qed

lemma verifyGrant_fields:
  assumes "verifyGrant pf r now key = Some d"
  shows "deviceScope d = scope (invite (signedInvite r))" and "kind d = inviteKind (invite (signedInvite r))"
    and "deviceCapabilities d = capabilities (invite (signedInvite r))" and "verifiedId d = deviceId (binding r)"
    and "mayDelegate d = canDelegate (invite (signedInvite r))" and "grantCurrent now r"
    and "verifyDeviceInvite pf (signedInvite r) key = Some (invite (signedInvite r))"
    and "Some (publicKey d) = fromBase64 (signingPublicKey (binding r))"
  using assms by (auto simp: verifyGrant_def verifyDeviceInvite_def split: option.splits if_splits)

lemma scopeContains_trans: "scopeContains a b \<Longrightarrow> scopeContains b c \<Longrightarrow> scopeContains a c"
  by (cases a) auto

lemma scopeContains_refl [simp]: "scopeContains a a"
  by (cases a) auto

definition ordinary :: "DeviceCapability \<Rightarrow> bool" where
  "ordinary c \<longleftrightarrow> c \<noteq> Account_admin \<and> c \<noteq> Lifecycle_control"

lemma ordinary_held: "ordinary c \<Longrightarrow> hasCapability k s cs c \<longleftrightarrow> c \<in> set cs"
  by (auto simp: ordinary_def hasCapability_def)

lemma chain_contained:
  "grantChain pf root now resolve rs d \<Longrightarrow>
     rs \<noteq> [] \<and> issuer (signedInvite (last rs)) = Root
     \<and> verifyDeviceInvite pf (signedInvite (last rs)) root = Some (invite (signedInvite (last rs)))
     \<and> (\<forall>m \<in> set rs. grantCurrent now m \<and> recordUser m = recordUser (hd rs))
     \<and> deviceScope d = scope (invite (signedInvite (hd rs)))
     \<and> deviceCapabilities d = capabilities (invite (signedInvite (hd rs)))
     \<and> scopeContains (scope (invite (signedInvite (last rs)))) (deviceScope d)
     \<and> (\<forall>c \<in> set (deviceCapabilities d). ordinary c \<longrightarrow> c \<in> set (capabilities (invite (signedInvite (last rs)))))"
proof (induction rule: grantChain.induct)
  case (rooted r d)
  then show ?case using verifyGrant_fields [OF rooted(3)] by simp
next
  case (delegated parent rs p r i d)
  note f = verifyGrant_fields [OF delegated(6)]
  have a: "recordUser parent = recordUser r" "scopeContains (deviceScope p) (deviceScope d)"
    "\<And>c. c \<in> set (deviceCapabilities d) \<Longrightarrow> deviceHasCapability p c"
    using delegated(5) by (auto simp: issuerAllows_def f)
  have "c \<in> set (capabilities (invite (signedInvite (last (parent # rs)))))"
    if "c \<in> set (deviceCapabilities d)" "ordinary c" for c
    using a(3) [OF that(1)] that(2) delegated(7) by (simp add: deviceHasCapability_def ordinary_held)
  moreover have "scopeContains (scope (invite (signedInvite (last (parent # rs))))) (deviceScope d)"
    using delegated(7) a(2) scopeContains_trans by blast
  moreover have "grantCurrent now m \<and> recordUser m = recordUser r" if "m \<in> set (r # parent # rs)" for m
  proof (cases "m = r")
    case True
    then show ?thesis using f(6) by simp
  next
    case False
    then have "m \<in> set (parent # rs)" using that by simp
    then show ?thesis using delegated(7) a(1) unfolding list.sel by metis
  qed
  moreover have "last (r # parent # rs) = last (parent # rs)" by simp
  ultimately show ?case using delegated(7) f(1,3) by (simp only: list.sel) blast
qed

text \<open>
  C3. A verified device has no more than the root gave: some record signed by the root key, of the
  same user and valid now, has a scope that contains the device's, and holds every capability of
  the device but the two administrative ones.
\<close>

theorem grant_within_root:
  assumes "verifyDeviceGrantRecord pf r root now resolve 0 = Some d"
  shows "\<exists>top. issuer (signedInvite top) = Root
    \<and> verifyDeviceInvite pf (signedInvite top) root = Some (invite (signedInvite top))
    \<and> grantCurrent now top \<and> grantCurrent now r \<and> recordUser top = recordUser r
    \<and> scopeContains (scope (invite (signedInvite top))) (deviceScope d)
    \<and> {c \<in> set (deviceCapabilities d). ordinary c} \<subseteq> set (capabilities (invite (signedInvite top)))"
proof -
  obtain rs where "grantChain pf root now resolve (r # rs) d" using verify_chain [OF assms] by blast
  from chain_contained [OF this] have c: "\<forall>m \<in> set (r # rs). grantCurrent now m \<and> recordUser m = recordUser r"
    and "issuer (signedInvite (last (r # rs))) = Root
      \<and> verifyDeviceInvite pf (signedInvite (last (r # rs))) root = Some (invite (signedInvite (last (r # rs))))
      \<and> scopeContains (scope (invite (signedInvite (last (r # rs))))) (deviceScope d)
      \<and> {c \<in> set (deviceCapabilities d). ordinary c} \<subseteq> set (capabilities (invite (signedInvite (last (r # rs)))))"
    unfolding list.sel by blast+
  moreover have "last (r # rs) \<in> set (r # rs)" by (rule last_in_set) simp
  moreover have "r \<in> set (r # rs)" by simp
  ultimately show ?thesis by blast
qed

text \<open>
  The administrative capabilities are not contained: a client that may delegate \<open>rpc.write\<close> at account
  scope, without \<open>account.admin\<close>, may sign an invite for a browser, and a browser with those has
  \<open>account.admin\<close>. (The check of an issuer looks at the capabilities an invite lists, not at its kind.)
\<close>

lemma client_delegates_administration:
  assumes "kind p = Client" and "deviceScope p = User_scope" and "deviceCapabilities p = [Rpc_write]" and "mayDelegate p"
    and "issuer (signedInvite r) = Device (verifiedId p)" and "recordUser parent = recordUser r"
    and "inviteKind (invite (signedInvite r)) = Browser" and "scope (invite (signedInvite r)) = User_scope"
    and "capabilities (invite (signedInvite r)) = [Rpc_write]" and "verifyGrant pf r now (publicKey p) = Some d"
  shows "issuerAllows r parent p \<and> \<not> deviceCanAdminister (Some p) Account_admin \<and> deviceCanAdminister (Some d) Account_admin"
  using assms(1-9) verifyGrant_fields [OF assms(10)]
  by (simp add: issuerAllows_def deviceCanAdminister_def deviceHasCapability_def hasCapability_def)

section \<open>The targets of an input\<close>

fun namedTargets :: "json \<Rightarrow> (string \<times> string) list" where
  "namedTargets (JArray xs) = concat (map namedTargets xs)"
| "namedTargets (JObject fs) = concat (map (\<lambda>(name, v).
     case (if name \<in> set targetNames then textOf v else None) of
       Some target \<Rightarrow> [(name, target)] | None \<Rightarrow> namedTargets v) fs)"
| "namedTargets v = []"

definition verdict :: "(string \<Rightarrow> string \<Rightarrow> bool \<times> bool) \<Rightarrow> (string \<times> string) list \<Rightarrow> bool \<Rightarrow> bool \<times> bool \<Rightarrow> bool" where
  "verdict check ts found result \<longleftrightarrow>
     (fst result \<longleftrightarrow> (\<forall>(n, t) \<in> set ts. fst (check n t)))
     \<and> (fst result \<longrightarrow> (snd result \<longleftrightarrow> found \<or> (\<exists>(n, t) \<in> set ts. snd (check n t))))"

lemma verdict_append:
  "verdict check ts found (ok, f) \<Longrightarrow> ok \<Longrightarrow> verdict check us f r \<Longrightarrow> verdict check (ts @ us) found r"
  by (auto simp: verdict_def)

lemma verdict_stop: "verdict check ts found (ok, f) \<Longrightarrow> \<not> ok \<Longrightarrow> verdict check (ts @ us) found (False, f')"
  by (auto simp: verdict_def)

lemma visit_verdict:
  "verdict check (namedTargets v) found (visit check v found)"
  "verdict check (concat (map namedTargets xs)) found (visitItems check xs found)"
  "verdict check (concat (map (\<lambda>(name, v). case (if name \<in> set targetNames then textOf v else None) of
       Some target \<Rightarrow> [(name, target)] | None \<Rightarrow> namedTargets v) fs)) found (visitFields check fs found)"
proof (induction check v found and check xs found and check fs found rule: visit_visitItems_visitFields.induct)
  case (5 check x xs found)
  obtain ok f where r: "visit check x found = (ok, f)" by fastforce
  show ?case
  proof (cases ok)
    case True
    have "verdict check (namedTargets x @ concat (map namedTargets xs)) found (visitItems check xs f)"
      by (rule verdict_append [of _ _ _ ok f]) (use 5 r True in auto)
    then show ?thesis using r True by simp
  next
    case False
    have "verdict check (namedTargets x @ concat (map namedTargets xs)) found (False, f)"
      by (rule verdict_stop [of _ _ _ ok f]) (use 5 r False in auto)
    then show ?thesis using r False by simp
  qed
next
  case (7 check name v fs found)
  let ?us = "concat (map (\<lambda>(name, v). case (if name \<in> set targetNames then textOf v else None) of
       Some target \<Rightarrow> [(name, target)] | None \<Rightarrow> namedTargets v) fs)"
  show ?case
  proof (cases "if name \<in> set targetNames then textOf v else None")
    case (Some target)
    obtain ok c where r: "check name target = (ok, c)" by fastforce
    have "verdict check [(name, target)] found (ok, found \<or> c)" using r by (auto simp: verdict_def)
    then show ?thesis using 7(3) [OF Some r [symmetric]] r Some
        verdict_append [of check "[(name, target)]" found ok "found \<or> c" ?us]
        verdict_stop [of check "[(name, target)]" found ok "found \<or> c" ?us]
      by (cases ok) simp_all
  next
    case None
    obtain ok f where r: "visit check v found = (ok, f)" by fastforce
    have "verdict check (namedTargets v) found (ok, f)" using 7(1) [OF None] r by simp
    then show ?thesis using 7(2) [OF None r [symmetric]] r None
        verdict_append [of check "namedTargets v" found ok f ?us]
        verdict_stop [of check "namedTargets v" found ok f ?us]
      by (cases ok) simp_all
  qed
qed (simp_all add: verdict_def)

text \<open>
  A device of a project or workspace scope may use an input exactly when every target the input
  names, at any depth, is one its scope allows, and at least one of them ties the input to the scope.
\<close>

theorem inputWithinScope_targets:
  assumes "s \<noteq> User_scope"
  shows "inputWithinScope s input workspaceProject sessionTarget \<longleftrightarrow>
     (\<forall>(name, target) \<in> set (namedTargets input). fst (visitTarget s workspaceProject sessionTarget name target))
     \<and> (\<exists>(name, target) \<in> set (namedTargets input). snd (visitTarget s workspaceProject sessionTarget name target))"
proof -
  have "verdict (visitTarget s workspaceProject sessionTarget) (namedTargets input) False
      (visit (visitTarget s workspaceProject sessionTarget) input False)"
    by (rule visit_verdict)
  then show ?thesis using assms by (auto simp: inputWithinScope_def verdict_def split: prod.splits)
qed

section \<open>Requests that were signed\<close>

lemma payload_inject: "payload pf v = payload pf w \<longleftrightarrow> canonical (localeOrder pf) v = canonical (localeOrder pf) w"
  by (simp add: payload_def)

text \<open>
  C26. The bytes a device signs name the request: two requests have the same bytes exactly when they
  agree on the device, the time, the nonce, the method (in capitals), the path and the body's digest.
\<close>

theorem signature_names_request:
  "rpcSignaturePayload pf h verb path = rpcSignaturePayload pf h' verb' path' \<longleftrightarrow>
     headerDeviceId h = headerDeviceId h' \<and> timestamp h = timestamp h' \<and> nonce h = nonce h'
     \<and> map upperChar verb = map upperChar verb' \<and> path = path' \<and> bodySha256 h = bodySha256 h'"
proof
  assume "rpcSignaturePayload pf h verb path = rpcSignaturePayload pf h' verb' path'"
  then have c: "canonical (localeOrder pf) (rpcJson h verb path) = canonical (localeOrder pf) (rpcJson h' verb' path')"
    by (simp add: rpcSignaturePayload_def payload_inject)
  have f: "map_option (canonical (localeOrder pf)) (fieldOf k (rpcJson h verb path))
      = map_option (canonical (localeOrder pf)) (fieldOf k (rpcJson h' verb' path'))" for k
    using canonical_fields [OF c [unfolded rpcJson_def]] by (simp add: rpcJson_def)
  from f [of "''deviceId''"] f [of "''timestamp''"] f [of "''nonce''"] f [of "''method''"] f [of "''path''"] f [of "''bodySha256''"]
  show "headerDeviceId h = headerDeviceId h' \<and> timestamp h = timestamp h' \<and> nonce h = nonce h'
     \<and> map upperChar verb = map upperChar verb' \<and> path = path' \<and> bodySha256 h = bodySha256 h'"
    by (simp add: rpcJson_def)
qed (simp add: rpcSignaturePayload_def rpcJson_def)

text \<open>
  \<open>JSON.parse\<close> gives back what \<open>JSON.stringify\<close> wrote where it is documented to: for values whose objects have no key
  twice and none that is a number (numbers are put first), and whose integers a double holds.
\<close>

definition readsBack :: "platform \<Rightarrow> bool" where
  "readsBack pf \<longleftrightarrow> (\<forall>v. plainJson v \<longrightarrow> parseText pf (stringify v) = Some v)"

lemma plain_header: "signedRpcHeaderSchema pf h \<Longrightarrow> plainJson (headerJson h)"
  by (auto simp: headerJson_def plainKey_def isDigit_def signedRpcHeaderSchema_def safeInt_def)

lemma plain_key: "plainJson (apiKeyJson k)"
  by (simp add: apiKeyJson_def plainKey_def isDigit_def)

definition signsFor :: "platform \<Rightarrow> (bytes \<Rightarrow> bytes) \<Rightarrow> bool" where
  "signsFor pf pub \<longleftrightarrow> (\<forall>m key. ed25519Verify pf (ed25519Sign pf m key) m (pub key) = Some True)"

lemma readHeader_json: "signedRpcHeaderSchema pf h \<Longrightarrow> readHeader pf (headerJson h) = Some h"
  by (cases h) (simp add: readHeader_def headerJson_def intField_def textField_def Let_def)

lemma readApiKey_json: "apiKeySchema pf k \<Longrightarrow> readApiKey pf (apiKeyJson k) = Some k"
  by (cases k) (simp add: readApiKey_def apiKeyJson_def intField_def textField_def Let_def)

lemma decode_encode_header:
  assumes "readsBack pf" and "encodeSignedRpcHeader pf h = Some text" and "length text \<le> 2048"
  shows "decodeSignedRpcHeader pf text = Some h"
proof -
  from assms(2) have "signedRpcHeaderSchema pf h" "text = toBase64Url (encodeText (stringify (headerJson h)))"
    by (auto simp: encodeSignedRpcHeader_def split: if_splits)
  then show ?thesis using assms(1,3) readHeader_json [of pf h] plain_header [of pf h]
    by (simp add: decodeSignedRpcHeader_def readsBack_def)
qed

lemma decode_encode_key:
  assumes "readsBack pf" and "encodeApiKey pf k = Some text"
  shows "decodeApiKey pf text = Some k"
proof -
  from assms(2) have "apiKeySchema pf k" "text = API_KEY_PREFIX @ toBase64Url (encodeText (stringify (apiKeyJson k)))"
    by (auto simp: encodeApiKey_def split: if_splits)
  then show ?thesis using assms(1) readApiKey_json [of pf k] plain_key [of k]
    by (simp add: decodeApiKey_def readsBack_def startsWith_def)
qed

lemma verifies_signed: "signsFor pf pub \<Longrightarrow> verifies pf (toBase64 (ed25519Sign pf m key)) m (pub key)"
  by (simp add: verifies_def signsFor_def)

text \<open>
  C27. A request signed with a device's key is accepted, where its header is no longer than the 2048 characters that
  the decoder takes: the header decodes to what was signed, and the signature verifies under the public key for that
  method, path and body. Of \<open>JSON.parse\<close> it uses that a plain value is read back, of ed25519 that a signature verifies.
\<close>

theorem signed_request_verifies:
  assumes "readsBack pf" and "signsFor pf pub" and "signRpcRequest pf draft verb path body key = Some text"
    and "length text \<le> 2048"
  shows "\<exists>h. decodeSignedRpcHeader pf text = Some h \<and> verifyRpcSignature pf h verb path body (pub key)
    \<and> headerDeviceId h = headerDeviceId draft \<and> timestamp h = timestamp draft \<and> nonce h = nonce draft"
proof -
  let ?d = "draft\<lparr>bodySha256 := rpcBodySha256 pf body\<rparr>"
  let ?h = "?d\<lparr>headerSignature := toBase64 (ed25519Sign pf (rpcSignaturePayload pf ?d verb path) key)\<rparr>"
  have "decodeSignedRpcHeader pf text = Some ?h"
    using assms(3) by (intro decode_encode_header [OF assms(1) _ assms(4)]) (simp add: signRpcRequest_def signRpcDigestRequest_def)
  moreover have "rpcSignaturePayload pf ?h verb path = rpcSignaturePayload pf ?d verb path"
    by (simp add: rpcSignaturePayload_def rpcJson_def)
  then have "verifyRpcSignature pf ?h verb path body (pub key)"
    using verifies_signed [OF assms(2)] by (simp add: verifyRpcSignature_def verifyRpcDigestSignature_def)
  ultimately show ?thesis by (intro exI [of _ ?h]) simp
qed

section \<open>Examples\<close>

definition examplePlatform :: platform where
  "examplePlatform = \<lparr>isUuid = (\<lambda>s. length s = 4 \<and> CHR '':'' \<notin> set s \<and> CHR ''/'' \<notin> set s), isUrl = (\<lambda>s. True),
     ed25519Verify = (\<lambda>s m key. Some (s = replicate 48 (hd key))), ed25519Sign = (\<lambda>m key. replicate 48 (hd key)),
     sha256Of = (\<lambda>m. replicate 32 (of_nat (length m))), parseText = parseJson, localeOrder = (\<le>)\<rparr>"

lemma example_laws: "readsBack examplePlatform" "signsFor examplePlatform (\<lambda>key. key)"
  by (simp_all add: readsBack_def signsFor_def examplePlatform_def)

definition exampleDraft :: SignedRpcHeader where
  "exampleDraft = \<lparr>headerDeviceId = ''dev1'', timestamp = 5, nonce = ''non1'', bodySha256 = '''', headerSignature = ''''\<rparr>"

lemma verifies_example [simp]: "verifies examplePlatform (toBase64 s) m key \<longleftrightarrow> s = replicate 48 (hd key)"
  by (simp add: verifies_def examplePlatform_def)

lemma sign_example [simp]: "ed25519Sign examplePlatform m key = replicate 48 (hd key)"
  by (simp add: examplePlatform_def)

lemma length_escapeChar: "length (escapeChar c) \<le> 6"
proof -
  have "length (hexCode n) = 4" if "n < 32" for n
    unfolding hexCode_def by (rule length_padStart) (rule length_toRadix, use that in simp_all)
  then show ?thesis by (simp add: escapeChar_def Let_def)
qed

lemma length_quoteString: "length (quoteString s) \<le> 6 * length s + 2"
proof (induction s)
  case (Cons c s)
  then show ?case using length_escapeChar [of c] by (simp add: quoteString_def)
qed (simp add: quoteString_def)

lemma schema_digest: "length bs = 32 \<Longrightarrow> base64Sha256 (toBase64 bs)"
proof -
  assume l: "length bs = 32"
  from toBase64_digits [of bs] obtain k where k: "k \<le> 2" "toBase64 bs = map digit64 (digitsOf bs) @ replicate k CHR ''=''"
    "(length (digitsOf bs) + k) mod 4 = 0" by (elim exE conjE)
  have "length (digitsOf bs) = 43" using length_digitsOf [of bs] l by simp
  with k(1,3) have "k = 1" by (cases "k = 0"; cases "k = 2") (simp_all)
  then have "toBase64 bs = map digit64 (digitsOf bs) @ [CHR ''='']" using k(2) by simp
  moreover have "set (map digit64 (digitsOf bs)) \<subseteq> set base64Alphabet" using digits_set [of bs] digit64_member by auto
  ultimately show "base64Sha256 (toBase64 bs)" using \<open>length (digitsOf bs) = 43\<close> by (simp add: base64Sha256_def)
qed

lemma length_headerJson:
  "length (stringify (headerJson h)) \<le> 6 * (length (headerDeviceId h) + length (nonce h) + length (bodySha256 h) + length (headerSignature h))
     + length (printInt (timestamp h)) + 100"
  using length_quoteString [of "headerDeviceId h"] length_quoteString [of "nonce h"] length_quoteString [of "bodySha256 h"]
    length_quoteString [of "headerSignature h"]
  by (simp add: headerJson_def) (simp add: quoteString_def escapeChar_def Let_def printInt_def toRadix.simps)

theorem signed_request_verifies_witness:
  "\<exists>text h. signRpcRequest examplePlatform exampleDraft ''get'' ''/rpc'' [1, 2, 3] (replicate 32 7) = Some text
    \<and> decodeSignedRpcHeader examplePlatform text = Some h
    \<and> verifyRpcSignature examplePlatform h ''get'' ''/rpc'' [1, 2, 3] (replicate 32 7)"
proof -
  let ?h = "exampleDraft\<lparr>bodySha256 := rpcBodySha256 examplePlatform [1, 2, 3], headerSignature := toBase64 (replicate 48 7)\<rparr>"
  have b: "length (rpcBodySha256 examplePlatform [1, 2, 3]) = 44" "base64Sha256 (rpcBodySha256 examplePlatform [1, 2, 3])"
    using schema_digest [of "replicate 32 (3 :: 8 word)"]
    by (simp_all add: rpcBodySha256_def examplePlatform_def length_toBase64)
  then have "signedRpcHeaderSchema examplePlatform ?h"
    by (simp add: signedRpcHeaderSchema_def exampleDraft_def examplePlatform_def safeInt_def signatureSchema_def
      lengthIn_def length_toBase64 del: of_nat_numeral)
  then have t: "signRpcRequest examplePlatform exampleDraft ''get'' ''/rpc'' [1, 2, 3] (replicate 32 7)
      = Some (toBase64Url (encodeText (stringify (headerJson ?h))))"
    by (simp add: signRpcRequest_def signRpcDigestRequest_def encodeSignedRpcHeader_def)
  have "length (stringify (headerJson ?h)) \<le> 800"
    using length_headerJson [of ?h] b(1)
    by (simp add: exampleDraft_def length_toBase64 printInt_def toRadix.simps)
  then have "length (toBase64Url (encodeText (stringify (headerJson ?h)))) \<le> 2048"
    using length_toBase64Url [of "encodeText (stringify (headerJson ?h))"] by (simp del: length_quoteString)
  from signed_request_verifies [OF example_laws t this] t show ?thesis by blast
qed

definition exampleInvite :: "string \<Rightarrow> DeviceKind \<Rightarrow> DeviceScope \<Rightarrow> DeviceInvite" where
  "exampleInvite i k s = \<lparr>userId = ''user'', inviteId = i, inviteKind = k, inviteLabel = None, scope = s,
     capabilities = [Rpc_read, Rpc_write], canDelegate = True, issuedAt = 0, expiresAt = 100, grantTtlMs = None, enrollUrl = ''u''\<rparr>"

definition exampleKey :: "8 word \<Rightarrow> bytes" where "exampleKey n = replicate 32 n"

definition exampleGrant :: "string \<Rightarrow> string \<Rightarrow> DeviceKind \<Rightarrow> DeviceScope \<Rightarrow> 8 word \<Rightarrow> 8 word \<Rightarrow> DeviceInviteIssuer \<Rightarrow> DeviceGrantRecord" where
  "exampleGrant i d k s key signer by' = \<lparr>
     signedInvite = \<lparr>invite = exampleInvite i k s, inviteSignature = toBase64 (replicate 48 signer), issuer = by'\<rparr>,
     binding = \<lparr>bindingInviteId = i, deviceId = d, signingPublicKey = toBase64 (exampleKey key), bindingLabel = ''x'',
       boundAt = 10, bindingSignature = toBase64 (replicate 48 key)\<rparr>,
     generation = 1, revokedAt = None\<rparr>"

text \<open>A browser the root enrolled, and a client of one project that the browser enrolled.\<close>

definition exampleBrowser :: DeviceGrantRecord where
  "exampleBrowser = exampleGrant ''inv1'' ''dev1'' Browser User_scope 2 1 Root"

definition exampleClient :: DeviceGrantRecord where
  "exampleClient = exampleGrant ''inv2'' ''dev2'' Client (Project_scope ''p'') 3 2 (Device ''dev1'')"

definition exampleResolver :: resolver where
  "exampleResolver i = (if i = ''dev1'' then Some exampleBrowser else None)"

lemma example_schema:
  assumes "isUuid examplePlatform i" and "isUuid examplePlatform d" and "deviceScopeSchema s" and "deviceInviteIssuerSchema examplePlatform by'"
  shows "deviceGrantRecordSchema examplePlatform (exampleGrant i d k s key signer by')"
proof -
  have "isUrl examplePlatform u" for u by (simp add: examplePlatform_def)
  then show ?thesis using assms
    by (simp add: exampleGrant_def exampleInvite_def exampleKey_def deviceGrantRecordSchema_def signedDeviceInviteSchema_def
      deviceInviteSchema_def deviceBindingSchema_def idSchema_def keySchema_def signatureSchema_def lengthIn_def safeInt_def
      length_toBase64)
qed

lemma example_verifyGrant:
  assumes "isUuid examplePlatform i" and "isUuid examplePlatform d" and "deviceScopeSchema s" and "deviceInviteIssuerSchema examplePlatform by'"
  shows "verifyGrant examplePlatform (exampleGrant i d k s key signer by') 50 (exampleKey signer)
    = Some \<lparr>verifiedId = d, kind = k, label = ''x'', deviceScope = s, deviceCapabilities = [Rpc_read, Rpc_write], mayDelegate = True,
        publicKey = exampleKey key, verifiedGeneration = 1, verifiedBoundAt = 10, verifiedExpiresAt = None\<rparr>"
proof -
  have "deviceGrantRecordSchema examplePlatform (exampleGrant i d k s key signer by')" by (rule example_schema [OF assms])
  then have "signedDeviceInviteSchema examplePlatform (signedInvite (exampleGrant i d k s key signer by'))"
    "deviceBindingSchema examplePlatform (binding (exampleGrant i d k s key signer by'))"
    by (simp_all add: deviceGrantRecordSchema_def)
  then show ?thesis
    by (simp add: verifyGrant_def verifyDeviceInvite_def verifyDeviceBinding_def)
      (simp add: exampleGrant_def exampleInvite_def exampleKey_def grantCurrent_def deviceGrantExpiresAt_def)
qed

lemma example_uuids [simp]: "isUuid examplePlatform ''inv1''" "isUuid examplePlatform ''dev1''"
    "isUuid examplePlatform ''inv2''" "isUuid examplePlatform ''dev2''"
  by (simp_all add: examplePlatform_def)

lemma example_verifies:
  "map_option deviceScope (verifyDeviceGrantRecord examplePlatform exampleClient (exampleKey 1) 50 exampleResolver 0)
    = Some (Project_scope ''p'')"
proof -
  have s: "deviceScopeSchema (Project_scope ''p'')" "deviceInviteIssuerSchema examplePlatform (Device ''dev1'')"
    by (simp_all add: idSchema_def lengthIn_def examplePlatform_def)
  have schema: "deviceGrantRecordSchema examplePlatform exampleBrowser" "deviceGrantRecordSchema examplePlatform exampleClient"
    unfolding exampleBrowser_def exampleClient_def by (rule example_schema; use s in simp)+
  have issuers: "issuer (signedInvite exampleBrowser) = Root" "issuer (signedInvite exampleClient) = Device ''dev1''"
    by (simp_all add: exampleBrowser_def exampleClient_def exampleGrant_def)
  have grants: "map_option publicKey (verifyGrant examplePlatform exampleBrowser 50 (exampleKey 1)) = Some (exampleKey 2)"
    "map_option deviceScope (verifyGrant examplePlatform exampleClient 50 (exampleKey 2)) = Some (Project_scope ''p'')"
    unfolding exampleBrowser_def exampleClient_def by (subst example_verifyGrant; use s in simp)+
  obtain b where b: "verifyGrant examplePlatform exampleBrowser 50 (exampleKey 1) = Some b" "publicKey b = exampleKey 2"
    using grants(1) by auto
  have v: "verifyDeviceGrantRecord examplePlatform exampleBrowser (exampleKey 1) 50 exampleResolver (Suc 0) = Some b"
    using schema(1) issuers(1) b(1) by (subst verifyDeviceGrantRecord.simps) (simp add: MAX_DELEGATION_DEPTH_def)
  have allows: "issuerAllows exampleClient exampleBrowser b"
    using verifyGrant_fields [OF b(1)]
    by (simp add: issuerAllows_def recordUser_def deviceHasCapability_def hasCapability_def
      exampleBrowser_def exampleClient_def exampleGrant_def exampleInvite_def)
  have "exampleResolver ''dev1'' = Some exampleBrowser" by (simp add: exampleResolver_def)
  then show ?thesis using schema(2) issuers(2) v allows b(2) grants(2)
    by (subst verifyDeviceGrantRecord.simps) (simp add: MAX_DELEGATION_DEPTH_def)
qed

theorem grant_within_root_witness:
  "\<exists>d (top :: DeviceGrantRecord). verifyDeviceGrantRecord examplePlatform exampleClient (exampleKey 1) 50 exampleResolver 0 = Some d
    \<and> deviceScope d = Project_scope ''p'' \<and> issuer (signedInvite top) = Root
    \<and> scopeContains (scope (invite (signedInvite top))) (deviceScope d)"
proof -
  obtain d where d: "verifyDeviceGrantRecord examplePlatform exampleClient (exampleKey 1) 50 exampleResolver 0 = Some d"
    "deviceScope d = Project_scope ''p''" using example_verifies by auto
  from grant_within_root [OF d(1)] obtain top :: DeviceGrantRecord where "issuer (signedInvite top) = Root"
    "scopeContains (scope (invite (signedInvite top))) (deviceScope d)" by (elim exE conjE) (rule that)
  with d show ?thesis by (intro exI [of _ d] exI [of _ top] conjI)
qed

theorem inputWithinScope_targets_witness:
  "\<not> inputWithinScope (Project_scope ''p'')
     (JObject [(''projectId'', JString ''p''), (''nested'', JArray [JObject [(''workspaceId'', JString ''w'')]])])
     (\<lambda>w. Some ''q'') (\<lambda>s. None)"
  using inputWithinScope_targets [of "Project_scope ''p''"
      "JObject [(''projectId'', JString ''p''), (''nested'', JArray [JObject [(''workspaceId'', JString ''w'')]])]"
      "\<lambda>w. Some ''q''" "\<lambda>s. None"]
  by (simp add: targetNames_def visitTarget_def workspaceAllowed_def projectAllowed_def)

end
