(* ===== verification/Patterns.thy ===== *)
theory Patterns
  imports Prelude
begin

text \<open>
  The regular expressions the source tests and replaces with, executable. JavaScript matches by
  backtracking: alternatives are tried in order, a greedy repetition tries to go on before it
  stops. \<open>ends p s i\<close> lists the positions where a match of \<open>p\<close> from \<open>i\<close> may end, in the order
  backtracking tries them, so its head is where the match of \<open>p\<close> alone ends. A capture is only
  ever the leading part of a pattern, so a capturing pattern is a pair of patterns.
\<close>

datatype pattern =
    Chars "char \<Rightarrow> bool"
  | Then pattern pattern
  | Either pattern pattern
  | Many pattern
  | Lazy pattern
  | Nothing
  | Boundary

subsection \<open>Classes of characters\<close>

definition between :: "nat \<Rightarrow> nat \<Rightarrow> char \<Rightarrow> bool" where
  "between a b c \<longleftrightarrow> a \<le> of_char c \<and> of_char c \<le> b"

abbreviation isNumeral :: "char \<Rightarrow> bool" where "isNumeral \<equiv> between 48 57"
abbreviation isUpper :: "char \<Rightarrow> bool" where "isUpper \<equiv> between 65 90"
abbreviation isLower :: "char \<Rightarrow> bool" where "isLower \<equiv> between 97 122"

definition isWord :: "char \<Rightarrow> bool" where
  "isWord c \<longleftrightarrow> isNumeral c \<or> isUpper c \<or> isLower c \<or> c = CHR ''_''"

definition isSpace :: "char \<Rightarrow> bool" where
  "isSpace c \<longleftrightarrow> between 9 13 c \<or> between 32 32 c \<or> between 160 160 c"

definition oneOf :: "string \<Rightarrow> char \<Rightarrow> bool" where
  "oneOf cs c \<longleftrightarrow> c \<in> set cs"

definition noneOf :: "string \<Rightarrow> char \<Rightarrow> bool" where
  "noneOf cs c \<longleftrightarrow> c \<notin> set cs"

definition lowerChar :: "char \<Rightarrow> char" where
  "lowerChar c = (if isUpper c then char_of (of_char c + (32 :: nat)) else c)"

definition sameLetter :: "char \<Rightarrow> char \<Rightarrow> bool" where
  "sameLetter c d \<longleftrightarrow> lowerChar c = lowerChar d"

subsection \<open>Derived patterns\<close>

definition literally :: "string \<Rightarrow> pattern" where
  "literally s = foldr (\<lambda>c p. Then (Chars ((=) c)) p) s Nothing"

text \<open>The flag \<open>i\<close>.\<close>

definition ignoringCase :: "string \<Rightarrow> pattern" where
  "ignoringCase s = foldr (\<lambda>c p. Then (Chars (sameLetter c)) p) s Nothing"

definition optional :: "pattern \<Rightarrow> pattern" where
  "optional p = Either p Nothing"

definition exactly :: "nat \<Rightarrow> pattern \<Rightarrow> pattern" where
  "exactly n p = foldr Then (replicate n p) Nothing"

definition atLeast :: "nat \<Rightarrow> pattern \<Rightarrow> pattern" where
  "atLeast n p = Then (exactly n p) (Many p)"

abbreviation some :: "pattern \<Rightarrow> pattern" where "some \<equiv> atLeast 1"

definition anyOf :: "pattern list \<Rightarrow> pattern" where
  "anyOf ps = foldr Either ps (Chars (\<lambda>_. False))"

definition sequence :: "pattern list \<Rightarrow> pattern" where
  "sequence ps = foldr Then ps Nothing"

subsection \<open>Matching\<close>

definition wordAt :: "string \<Rightarrow> nat \<Rightarrow> bool" where
  "wordAt s i \<longleftrightarrow> i < length s \<and> isWord (s ! i)"

function ends :: "pattern \<Rightarrow> string \<Rightarrow> nat \<Rightarrow> nat list" where
  "ends (Chars P) s i = (if i < length s \<and> P (s ! i) then [Suc i] else [])"
| "ends (Then p q) s i = concat (map (ends q s) (ends p s i))"
| "ends (Either p q) s i = ends p s i @ ends q s i"
| "ends (Many p) s i =
     concat (map (\<lambda>j. if i < j \<and> j \<le> length s then ends (Many p) s j else []) (ends p s i)) @ [i]"
| "ends (Lazy p) s i =
     i # concat (map (\<lambda>j. if i < j \<and> j \<le> length s then ends (Lazy p) s j else []) (ends p s i))"
| "ends Nothing s i = [i]"
| "ends Boundary s i = (if wordAt s i \<noteq> (0 < i \<and> wordAt s (i - 1)) then [i] else [])"
  by pat_completeness auto
termination
  by (relation "measures [\<lambda>(p, s, i). size p, \<lambda>(p, s, i). length s - i]") auto

text \<open>\<open>/p/.test(s)\<close>, \<open>/^p$/.test(s)\<close> and the match at one position.\<close>

definition matchAt :: "pattern \<Rightarrow> string \<Rightarrow> nat \<Rightarrow> nat option" where
  "matchAt p s i = (case ends p s i of [] \<Rightarrow> None | j # _ \<Rightarrow> Some j)"

definition contains :: "pattern \<Rightarrow> string \<Rightarrow> bool" where
  "contains p s \<longleftrightarrow> list_ex (\<lambda>i. ends p s i \<noteq> []) [0..<Suc (length s)]"

definition fullMatch :: "pattern \<Rightarrow> string \<Rightarrow> bool" where
  "fullMatch p s \<longleftrightarrow> length s \<in> set (ends p s 0)"

text \<open>
  \<open>s.replace(/(head)tail/g, (match, head) => ...)\<close>: the end of the first match of \<open>head\<close> that
  \<open>tail\<close> can follow, and of the match.
\<close>

definition captured :: "pattern \<Rightarrow> pattern \<Rightarrow> string \<Rightarrow> nat \<Rightarrow> (nat \<times> nat) option" where
  "captured head tail s i =
     (case filter (\<lambda>j. ends tail s j \<noteq> []) (ends head s i) of [] \<Rightarrow> None | j # _ \<Rightarrow> Some (j, hd (ends tail s j)))"

definition slice :: "string \<Rightarrow> nat \<Rightarrow> nat \<Rightarrow> string" where
  "slice s i j = take (j - i) (drop i s)"

function replaceFrom :: "pattern \<Rightarrow> pattern \<Rightarrow> (string \<Rightarrow> string) \<Rightarrow> string \<Rightarrow> nat \<Rightarrow> string" where
  "replaceFrom head tail f s i =
     (if length s \<le> i then []
      else case captured head tail s i of
        Some (j, k) \<Rightarrow> if i < k then f (slice s i j) @ replaceFrom head tail f s k else s ! i # replaceFrom head tail f s (Suc i)
      | None \<Rightarrow> s ! i # replaceFrom head tail f s (Suc i))"
  by auto
termination
  by (relation "measure (\<lambda>(_, _, _, s, i). length s - i)") auto

declare replaceFrom.simps [simp del]

definition replaceMatches :: "pattern \<Rightarrow> pattern \<Rightarrow> (string \<Rightarrow> string) \<Rightarrow> string \<Rightarrow> string" where
  "replaceMatches head tail f s = replaceFrom head tail f s 0"

text \<open>\<open>s.replaceAll(old, new)\<close> for a nonempty \<open>old\<close>.\<close>

definition replaceText :: "string \<Rightarrow> string \<Rightarrow> string \<Rightarrow> string" where
  "replaceText old new s = replaceMatches (literally old) Nothing (\<lambda>_. new) s"

subsection \<open>Laws\<close>

lemmas ends_repeat = ends.simps(4,5)
declare ends_repeat [simp del]

lemma ends_bounds: "j \<in> set (ends p s i) \<Longrightarrow> i \<le> length s \<Longrightarrow> i \<le> j \<and> j \<le> length s"
proof (induction p s i arbitrary: j rule: ends.induct)
  case (2 p q s i)
  from "2.prems" obtain k where "k \<in> set (ends p s i)" "j \<in> set (ends q s k)" by auto
  then show ?case using "2.IH"(1) [of k] "2.IH"(2) [of k j] "2.prems"(2) by auto
next
  case (4 p s i)
  show ?case
  proof (cases "j = i")
    case False
    then obtain k where "k \<in> set (ends p s i)" "i < k" "k \<le> length s" "j \<in> set (ends (Many p) s k)"
      using "4.prems"(1) by (auto simp: ends_repeat [of p s i] split: if_splits)
    then show ?thesis using "4.IH"(2) [of k j] by auto
  qed (use "4.prems" in simp)
next
  case (5 p s i)
  show ?case
  proof (cases "j = i")
    case False
    then obtain k where "k \<in> set (ends p s i)" "i < k" "k \<le> length s" "j \<in> set (ends (Lazy p) s k)"
      using "5.prems"(1) by (auto simp: ends_repeat [of p s i] split: if_splits)
    then show ?thesis using "5.IH"(2) [of k j] by auto
  qed (use "5.prems" in simp)
qed (auto split: if_splits)

lemma ends_Many_Chars:
  "j \<in> set (ends (Many (Chars P)) s i) \<longleftrightarrow>
     j = i \<or> i < j \<and> j \<le> length s \<and> list_all P (slice s i j)"
proof (induction "length s - i" arbitrary: i)
  case 0
  then show ?case by (auto simp: ends_repeat [of _ s i])
next
  case (Suc n)
  then have d: "drop i s = s ! i # drop (Suc i) s" and "i < length s"
    by (simp_all add: Cons_nth_drop_Suc)
  have sl: "slice s i j = s ! i # slice s (Suc i) j" if "i < j" for j
    using that by (simp add: slice_def d take_Cons')
  show ?case
  proof (cases "P (s ! i)")
    case True
    then have "j \<in> set (ends (Many (Chars P)) s i) \<longleftrightarrow> j \<in> set (ends (Many (Chars P)) s (Suc i)) \<or> j = i"
      using \<open>i < length s\<close> by (auto simp: ends_repeat [of _ s i])
    also have "\<dots> \<longleftrightarrow> j = i \<or> i < j \<and> j \<le> length s \<and> list_all P (slice s i j)"
      using Suc(1) [of "Suc i"] Suc(2) True sl [of j] \<open>i < length s\<close>
      by (cases "j = Suc i") (auto simp: slice_def)
    finally show ?thesis .
  next
    case False
    then show ?thesis using sl [of j] by (auto simp: ends_repeat [of _ s i])
  qed
qed

lemma ends_literally:
  "j \<in> set (ends (literally t) s i) \<longleftrightarrow> j = i + length t \<and> slice s i j = t"
proof (induction t arbitrary: i)
  case Nil
  then show ?case by (auto simp: literally_def slice_def)
next
  case (Cons c t)
  show ?case
  proof (cases "i < length s")
    case True
    then have "drop i s = s ! i # drop (Suc i) s" by (simp add: Cons_nth_drop_Suc)
    then show ?thesis using Cons [of "Suc i"] True by (auto simp: literally_def slice_def)
  next
    case False
    then show ?thesis by (auto simp: literally_def slice_def)
  qed
qed

end
