(* ===== verification/Environment_Bundle.thy ===== *)
theory Environment_Bundle
  imports Patterns Json
begin

text \<open>
  \<open>protocol-environment/src/schema.ts\<close> up to the run requests, with \<open>errors.ts\<close>,
  \<open>browser-origin.ts\<close> and \<open>browser-site-level.ts\<close>: the environment bundle a repository declares,
  its schema, the effective profile, the scripts a profile selects, the terminal environment and
  the bindings a script may publish. A schema is a predicate on decoded data whose defaults are
  filled in: what the schema library itself does (\<open>JSON.parse\<close>, shapes, defaults) is the parameter
  \<open>decode\<close>. A thrown \<open>EnvironmentError\<close> is its code; the texts for people are not modelled.
  A name is looked up among the keys a bundle declares.
\<close>

section \<open>Failures\<close>

datatype EnvironmentFailureCode =
    InvalidBundle | InvalidConfiguration | NotFound | PermissionDenied | PreconditionFailed
  | ApprovalRequired | RunConflict | MissingValue | MissingSecret | ContentChanged
  | InteractionRequired | RunnerUnavailable | ExecutionFailed | Cancelled | DeadlineExceeded | Interrupted

record EnvironmentFailure =
  failureCode :: EnvironmentFailureCode
  failureMessage :: string
  failureContext :: "(string \<times> string) list"

type_synonym 'a fallible = "EnvironmentFailureCode + 'a"

abbreviation throw :: "EnvironmentFailureCode \<Rightarrow> 'a fallible" where "throw \<equiv> Inl"

section \<open>Names and values\<close>

definition alnumDash :: "char \<Rightarrow> bool" where
  "alnumDash c \<longleftrightarrow> isLower c \<or> isNumeral c \<or> c = CHR ''-''"

definition upperName :: "char \<Rightarrow> bool" where
  "upperName c \<longleftrightarrow> isUpper c \<or> isNumeral c \<or> c = CHR ''_''"

definition identifierSchema :: "string \<Rightarrow> bool" where
  "identifierSchema s \<longleftrightarrow> lengthIn 1 64 s \<and> fullMatch (Then (Chars isLower) (Many (Chars alnumDash))) s"

definition environmentNameSchema :: "string \<Rightarrow> bool" where
  "environmentNameSchema s \<longleftrightarrow> lengthIn 1 128 s \<and> fullMatch (Then (Chars isUpper) (Many (Chars upperName))) s"

text \<open>\<open>/secret|password|token|credential|private.?key|api.?key/iu\<close>\<close>

definition secretLikeName :: "string \<Rightarrow> bool" where
  "secretLikeName = contains (anyOf
     ([ignoringCase ''secret'', ignoringCase ''password'', ignoringCase ''token'', ignoringCase ''credential'']
      @ map (\<lambda>w. sequence [ignoringCase w, optional (Chars (noneOf [CHR 0x0A, CHR 0x0D])), ignoringCase ''key''])
          [''private'', ''api'']))"

text \<open>The prefixes of known credentials, which the redaction of output shares.\<close>

definition alnum :: "char \<Rightarrow> bool" where
  "alnum c \<longleftrightarrow> isLower c \<or> isUpper c \<or> isNumeral c"

definition credentialMaterial :: "string \<Rightarrow> bool" where
  "credentialMaterial = contains (anyOf [
     sequence [ignoringCase ''-----BEGIN '', Many (Chars (noneOf [CHR 0x0A, CHR 0x0D])), ignoringCase ''PRIVATE KEY-----''],
     sequence [literally ''://'', some (Chars (\<lambda>c. \<not> isSpace c \<and> noneOf ''/:@'' c)), literally '':'',
       some (Chars (\<lambda>c. \<not> isSpace c \<and> noneOf ''/@'' c)), literally ''@''],
     sequence [Chars (oneOf ''?&''),
       anyOf [ignoringCase ''token'', ignoringCase ''password'', ignoringCase ''secret'',
         sequence [ignoringCase ''api'', optional (Chars (oneOf ''_-'')), ignoringCase ''key'']], literally ''=''],
     Then Boundary (anyOf [
       sequence [ignoringCase ''Bearer'', some (Chars isSpace), some (Chars (\<lambda>c. \<not> isSpace c))],
       sequence [ignoringCase ''gh'', Chars (\<lambda>c. oneOf ''pousr'' (lowerChar c)), literally ''_'', atLeast 20 (Chars alnum)],
       sequence [ignoringCase ''github_pat_'', some (Chars isWord)],
       sequence [ignoringCase ''sk-'', atLeast 20 (Chars (\<lambda>c. isWord c \<or> c = CHR ''-''))],
       sequence [ignoringCase ''AKIA'', exactly 16 (Chars alnum)]])])"

definition includesText :: "string \<Rightarrow> string \<Rightarrow> bool" where
  "includesText s t \<longleftrightarrow> list_ex (\<lambda>i. slice s i (i + length t) = t) [0..<Suc (length s)]"

section \<open>Browser origins\<close>

datatype BrowserSiteLevel = Read | Interact | Full

fun upTo :: "nat \<Rightarrow> pattern \<Rightarrow> pattern" where
  "upTo 0 p = Nothing"
| "upTo (Suc n) p = optional (Then p (upTo n p))"

definition hostLabel :: pattern where
  "hostLabel =
     (let end = Chars (\<lambda>c. isLower c \<or> isNumeral c) in
      Then end (optional (Then (upTo 61 (Chars alnumDash)) end)))"

definition validHost :: "string \<Rightarrow> bool" where
  "validHost s \<longleftrightarrow> lengthIn 1 253 s \<and> fullMatch (Then hostLabel (Many (Then (literally ''.'') hostLabel))) s"

definition patternHost :: "string \<Rightarrow> string" where
  "patternHost p = (if startsWithText p ''*.'' then drop 2 p else p)"

definition browserOriginMatches :: "string \<Rightarrow> string \<Rightarrow> bool" where
  "browserOriginMatches p hostname =
     (if p \<noteq> ''*'' \<and> \<not> validHost (patternHost p) then False
      else let host = map lowerChar hostname in
        if \<not> validHost host then False
        else if p = ''*'' then True
        else if startsWithText p ''*.'' then
          (let suffix = CHR ''.'' # drop 2 p in length suffix \<le> length host \<and> drop (length host - length suffix) host = suffix)
        else host = p)"

definition BrowserOriginPatternSchema :: "string \<Rightarrow> bool" where
  "BrowserOriginPatternSchema p \<longleftrightarrow> p = ''*'' \<or> browserOriginMatches (patternHost p) (patternHost p)"

datatype BrowserAction =
  Open | Tabs | Navigate | Observe | Act | Evaluate | Screenshot | Close | Run | Debug | Storage

fun READ_SITE_ACTIONS :: "BrowserAction \<Rightarrow> bool" where
  "READ_SITE_ACTIONS Act = False"
| "READ_SITE_ACTIONS Evaluate = False"
| "READ_SITE_ACTIONS Run = False"
| "READ_SITE_ACTIONS Storage = False"
| "READ_SITE_ACTIONS _ = True"

section \<open>The bundle\<close>

datatype EnvironmentCheckDefinition =
    Built_in (check: string) (checkLabel: "string option") "string option"
  | Command (checkCommand: string) (commandLabel: string) "string option" "string option" "string option"

record EnvironmentValueDefinition =
  valueDefault :: "string option"
  valueDescription :: "string option"
  valueRequired :: "bool option"

record EnvironmentProfile =
  profileChecks :: "string list"
  profileSecrets :: "string list"
  profileValues :: "string list"
  profileNotes :: "string option"

record BundleTerminalSection =
  terminalPath :: "string list option"
  terminalEnv :: "(string \<times> string) list option"

record EnvironmentBundle =
  defaultProfile :: string
  profiles :: "(string \<times> EnvironmentProfile) list"
  checks :: "(string \<times> EnvironmentCheckDefinition) list"
  bundleValues :: "(string \<times> EnvironmentValueDefinition) list"
  bundleOrigins :: "string list"
  terminalSection :: "BundleTerminalSection option"

definition optionally :: "('a \<Rightarrow> bool) \<Rightarrow> 'a option \<Rightarrow> bool" where
  "optionally P x \<longleftrightarrow> (case x of None \<Rightarrow> True | Some v \<Rightarrow> P v)"

fun EnvironmentCheckDefinitionSchema :: "EnvironmentCheckDefinition \<Rightarrow> bool" where
  "EnvironmentCheckDefinitionSchema (Built_in c label requirement) \<longleftrightarrow>
     identifierSchema c \<and> optionally (lengthIn 1 120) label \<and> optionally (lengthIn 1 120) requirement"
| "EnvironmentCheckDefinitionSchema (Command c label description url prompt) \<longleftrightarrow>
     lengthIn 1 4096 c \<and> lengthIn 1 120 label \<and> optionally (lengthIn 0 2000) description
     \<and> optionally (lengthIn 0 2048) url \<and> optionally (lengthIn 0 500) prompt"

definition EnvironmentValueDefinitionSchema :: "EnvironmentValueDefinition \<Rightarrow> bool" where
  "EnvironmentValueDefinitionSchema v \<longleftrightarrow>
     optionally (lengthIn 0 16384) (valueDefault v) \<and> optionally (lengthIn 0 500) (valueDescription v)"

definition EnvironmentProfileSchema :: "EnvironmentProfile \<Rightarrow> bool" where
  "EnvironmentProfileSchema p \<longleftrightarrow>
     length (profileChecks p) \<le> 128 \<and> list_all identifierSchema (profileChecks p)
     \<and> length (profileSecrets p) \<le> 128 \<and> list_all environmentNameSchema (profileSecrets p)
     \<and> length (profileValues p) \<le> 128 \<and> list_all environmentNameSchema (profileValues p)
     \<and> optionally (lengthIn 0 2000) (profileNotes p)"

definition BundleTerminalPathSchema :: "string \<Rightarrow> bool" where
  "BundleTerminalPathSchema entry \<longleftrightarrow>
     lengthIn 1 1024 entry
     \<and> list_all (noneOf [CHR '':'', CHR 0x00, CHR 0x5C]) entry
     \<and> list_all (\<lambda>segment. segment \<noteq> [] \<and> segment \<noteq> ''.'' \<and> segment \<noteq> ''..'' \<and> \<not> startsWithText segment ''~'')
         (splitOn CHR ''/'' (if startsWithText entry ''~/'' then drop 2 entry else entry))"

definition terminalVariable :: "string \<times> string \<Rightarrow> bool" where
  "terminalVariable = (\<lambda>(name, value).
     lengthIn 1 128 name \<and> fullMatch (Then (Chars (\<lambda>c. isWord c \<and> \<not> isNumeral c)) (Many (Chars isWord))) name
     \<and> lengthIn 0 16384 value
     \<and> name \<noteq> ''PATH'' \<and> \<not> startsWithText name ''GITSPACE_''
     \<and> \<not> secretLikeName name \<and> \<not> credentialMaterial value)"

definition BundleTerminalSectionSchema :: "BundleTerminalSection \<Rightarrow> bool" where
  "BundleTerminalSectionSchema t \<longleftrightarrow>
     optionally (\<lambda>p. length p \<le> 64 \<and> list_all BundleTerminalPathSchema p) (terminalPath t)
     \<and> optionally (list_all terminalVariable) (terminalEnv t)"

definition declares :: "(string \<times> 'a) list \<Rightarrow> string \<Rightarrow> bool" where
  "declares m k \<longleftrightarrow> map_of m k \<noteq> None"

definition EnvironmentBundleSchema :: "EnvironmentBundle \<Rightarrow> bool" where
  "EnvironmentBundleSchema b \<longleftrightarrow>
     identifierSchema (defaultProfile b)
     \<and> list_all (\<lambda>(n, p). identifierSchema n \<and> EnvironmentProfileSchema p) (profiles b)
     \<and> list_all (\<lambda>(n, c). identifierSchema n \<and> EnvironmentCheckDefinitionSchema c) (checks b)
     \<and> list_all (\<lambda>(n, v). environmentNameSchema n \<and> EnvironmentValueDefinitionSchema v) (bundleValues b)
     \<and> length (bundleOrigins b) \<le> 256 \<and> list_all BrowserOriginPatternSchema (bundleOrigins b)
     \<and> optionally BundleTerminalSectionSchema (terminalSection b)
     \<and> declares (profiles b) ''base'' \<and> declares (profiles b) (defaultProfile b)
     \<and> list_all (\<lambda>(n, p). list_all (declares (checks b)) (profileChecks p) \<and> list_all (declares (bundleValues b)) (profileValues p))
         (profiles b)
     \<and> optionally (\<lambda>t. optionally (list_all (\<lambda>(name, value).
           \<not> declares (bundleValues b) name \<and> \<not> list_ex (\<lambda>(n, p). name \<in> set (profileSecrets p)) (profiles b)))
         (terminalEnv t)) (terminalSection b)"

definition parseEnvironmentBundleJson :: "(string \<Rightarrow> EnvironmentBundle option) \<Rightarrow> string \<Rightarrow> EnvironmentBundle fallible" where
  "parseEnvironmentBundleJson decode text =
     (case decode text of
        None \<Rightarrow> throw InvalidBundle
      | Some b \<Rightarrow> if EnvironmentBundleSchema b then Inr b else throw InvalidBundle)"

definition bundleTerminalSection :: "(string \<Rightarrow> EnvironmentBundle option) \<Rightarrow> string option \<Rightarrow> BundleTerminalSection option" where
  "bundleTerminalSection decode text =
     (case text of
        None \<Rightarrow> None
      | Some t \<Rightarrow> (case decode t of
            None \<Rightarrow> None
          | Some b \<Rightarrow> if EnvironmentBundleSchema b then terminalSection b else None))"

definition trimSlashes :: "string \<Rightarrow> string" where
  "trimSlashes s = rev (dropWhile ((=) CHR ''/'') (rev s))"

definition terminalEntry :: "string \<Rightarrow> string \<Rightarrow> string \<Rightarrow> string" where
  "terminalEntry checkoutRoot home entry =
     (if startsWithText entry ''~/'' then trimSlashes home @ ''/'' @ drop 2 entry
      else trimSlashes checkoutRoot @ ''/'' @ entry)"

definition orElse :: "'a option \<Rightarrow> 'a \<Rightarrow> 'a" where
  "orElse x d = (case x of None \<Rightarrow> d | Some v \<Rightarrow> v)"

definition terminalEnvironment ::
    "string \<Rightarrow> string \<Rightarrow> (string \<times> string) list \<Rightarrow> BundleTerminalSection option \<Rightarrow> (string \<times> string) list" where
  "terminalEnvironment checkoutRoot home inherited bundle =
     (let environment = spread inherited (case bundle of None \<Rightarrow> [] | Some t \<Rightarrow> orElse (terminalEnv t) []);
          entries = map (terminalEntry checkoutRoot home) (case bundle of None \<Rightarrow> [] | Some t \<Rightarrow> orElse (terminalPath t) [])
      in if entries = [] then environment
         else AList.update ''PATH'' (joinWith '':'' (unique (entries
           @ filter (\<lambda>e. e \<noteq> []) (splitOn CHR '':'' (orElse (map_of inherited ''PATH'') []))))) environment)"

section \<open>Profiles and scripts\<close>

record EffectiveEnvironmentProfile =
  profileName :: string
  effectiveChecks :: "string list"
  effectiveSecrets :: "string list"
  effectiveValues :: "string list"
  effectiveNotes :: "string list"

definition notesOf :: "EnvironmentProfile \<Rightarrow> string list" where
  "notesOf p = (case profileNotes p of None \<Rightarrow> [] | Some n \<Rightarrow> if n = [] then [] else [n])"

definition resolveEnvironmentProfile :: "EnvironmentBundle \<Rightarrow> string \<Rightarrow> EffectiveEnvironmentProfile fallible" where
  "resolveEnvironmentProfile b selectedProfile =
     (case (map_of (profiles b) ''base'', map_of (profiles b) selectedProfile) of
        (Some base, Some selected) \<Rightarrow>
          if selectedProfile = ''base'' then
            Inr \<lparr>profileName = ''base'', effectiveChecks = profileChecks base, effectiveSecrets = profileSecrets base,
              effectiveValues = profileValues base, effectiveNotes = notesOf base\<rparr>
          else
            Inr \<lparr>profileName = selectedProfile,
              effectiveChecks = unique (profileChecks base @ profileChecks selected),
              effectiveSecrets = unique (profileSecrets base @ profileSecrets selected),
              effectiveValues = unique (profileValues base @ profileValues selected),
              effectiveNotes = notesOf base @ notesOf selected\<rparr>
      | _ \<Rightarrow> throw InvalidConfiguration)"

definition scriptHead :: pattern where
  "scriptHead = sequence [some (Chars isNumeral), literally ''-'',
     Chars (\<lambda>c. isLower c \<or> isNumeral c), Many (Chars alnumDash)]"

definition scriptProfile :: pattern where
  "scriptProfile = sequence [literally ''.'', Chars isLower, Many (Chars alnumDash)]"

text \<open>The match of \<open>lifecycleScriptSchema\<close>: its group \<open>profile\<close>.\<close>

definition matchLifecycleScript :: "string \<Rightarrow> string option option" where
  "matchLifecycleScript s =
     (case [(j, k). j \<leftarrow> ends scriptHead s 0, k \<leftarrow> ends (optional scriptProfile) s j,
              length s \<in> set (ends (literally ''.sh'') s k)] of
        [] \<Rightarrow> None
      | (j, k) # _ \<Rightarrow> Some (if j < k then Some (slice s (Suc j) k) else None))"

definition classifyLifecycleScript :: "string \<Rightarrow> string list \<Rightarrow> (string \<times> string) fallible" where
  "classifyLifecycleScript fileName profileNames =
     (case matchLifecycleScript fileName of
        None \<Rightarrow> throw InvalidConfiguration
      | Some None \<Rightarrow> Inr (fileName, ''base'')
      | Some (Some profile) \<Rightarrow>
          if profile \<notin> set profileNames then throw InvalidConfiguration else Inr (fileName, profile))"

fun allOrThrow :: "('a \<Rightarrow> 'b fallible) \<Rightarrow> 'a list \<Rightarrow> 'b list fallible" where
  "allOrThrow f [] = Inr []"
| "allOrThrow f (x # xs) =
     (case f x of Inl e \<Rightarrow> Inl e
      | Inr y \<Rightarrow> (case allOrThrow f xs of Inl e \<Rightarrow> Inl e | Inr ys \<Rightarrow> Inr (y # ys)))"

text \<open>\<open>sort\<close> is stable; \<open>le\<close> is \<open>left.localeCompare(right) <= 0\<close>.\<close>

fun insertWith :: "('a \<Rightarrow> 'a \<Rightarrow> bool) \<Rightarrow> 'a \<Rightarrow> 'a list \<Rightarrow> 'a list" where
  "insertWith le x [] = [x]"
| "insertWith le x (y # ys) = (if le x y then x # y # ys else y # insertWith le x ys)"

definition sortWith :: "('a \<Rightarrow> 'a \<Rightarrow> bool) \<Rightarrow> 'a list \<Rightarrow> 'a list" where
  "sortWith le xs = foldr (insertWith le) xs []"

definition selectLifecycleScripts ::
    "(string \<Rightarrow> string \<Rightarrow> bool) \<Rightarrow> string list \<Rightarrow> string \<Rightarrow> string list \<Rightarrow> (string \<times> string) list fallible" where
  "selectLifecycleScripts le fileNames selectedProfile profileNames =
     (if selectedProfile \<notin> set profileNames then throw InvalidConfiguration
      else case allOrThrow (\<lambda>f. classifyLifecycleScript f profileNames) fileNames of
        Inl e \<Rightarrow> Inl e
      | Inr scripts \<Rightarrow> Inr (sortWith (\<lambda>l r. le (fst l) (fst r))
          (filter (\<lambda>script. snd script = ''base'' \<or> snd script = selectedProfile) scripts)))"

datatype ApprovalScope = Project | Workspace

definition resolveExecutionApproval :: "string \<Rightarrow> string list \<Rightarrow> string list \<Rightarrow> ApprovalScope option" where
  "resolveExecutionApproval h projectApprovals workspaceApprovals =
     (if h \<in> set projectApprovals then Some Project
      else if h \<in> set workspaceApprovals then Some Workspace else None)"

type_synonym settings = "(string \<times> string) list"

definition resolveEnvironmentValues :: "settings \<Rightarrow> settings \<Rightarrow> settings \<Rightarrow> settings" where
  "resolveEnvironmentValues global project workspace = spread (spread global project) workspace"

section \<open>Bindings\<close>

definition secretReference :: "string \<Rightarrow> bool" where
  "secretReference = fullMatch (sequence [literally ''secret:'', Chars isUpper, Many (Chars upperName)])"

definition bindingSchema :: "string \<times> string \<Rightarrow> bool" where
  "bindingSchema = (\<lambda>(name, value).
     lengthIn 1 128 name
     \<and> fullMatch (Then (Chars (\<lambda>c. isLower c \<or> isUpper c)) (Many (Chars (\<lambda>c. alnum c \<or> oneOf ''_.-'' c)))) name
     \<and> lengthIn 0 4096 value
     \<and> name \<notin> set [''__proto__'', ''constructor'', ''prototype'']
     \<and> (secretLikeName name \<longrightarrow> secretReference value)
     \<and> \<not> credentialMaterial value)"

definition LifecycleBindingsSchema :: "settings \<Rightarrow> bool" where
  "LifecycleBindingsSchema bs \<longleftrightarrow> list_all bindingSchema bs"

fun textFields :: "(string \<times> json) list \<Rightarrow> settings option" where
  "textFields [] = Some []"
| "textFields ((k, JString s) # fs) = map_option ((#) (k, s)) (textFields fs)"
| "textFields (_ # fs) = None"

definition parseLifecycleBindingsJson :: "(string \<Rightarrow> json option) \<Rightarrow> string \<Rightarrow> string list \<Rightarrow> settings fallible" where
  "parseLifecycleBindingsJson parse text secrets =
     (if 65536 < length text then throw InvalidConfiguration
      else case parse text of
        Some (JObject fs) \<Rightarrow> (case map_of fs ''bindings'' of
            Some (JObject bs) \<Rightarrow> (case textFields bs of
                Some bindings \<Rightarrow>
                  if \<not> LifecycleBindingsSchema bindings then throw InvalidConfiguration
                  else if list_ex (\<lambda>(name, binding). \<not> secretReference binding
                      \<and> list_ex (\<lambda>secret. secret \<noteq> [] \<and> includesText binding secret) secrets) bindings
                    then throw InvalidConfiguration
                  else Inr bindings
              | None \<Rightarrow> throw InvalidConfiguration)
          | _ \<Rightarrow> throw InvalidConfiguration)
      | _ \<Rightarrow> throw InvalidConfiguration)"

end
