(* ===== verification/Lifecycle_Data.thy ===== *)
theory Lifecycle_Data
  imports Environment_Bundle
begin

text \<open>
  The data of \<open>protocol-environment/src/lifecycle.ts\<close> and the run and state schemas of
  \<open>schema.ts\<close>. An instant is a number of milliseconds (see \<open>Prelude\<close>). The record \<open>codec\<close> is what
  the runtime and the schema library do: decoding a bundle, printing one (\<open>JSON.stringify\<close>) and
  printing an instant (\<open>toISOString\<close>).
\<close>

section \<open>Data\<close>

record codec =
  decodeBundle :: "string \<Rightarrow> EnvironmentBundle option"
  encodeBundle :: "EnvironmentBundle \<Rightarrow> string"
  isoText :: "instant \<Rightarrow> string"

datatype LifecycleRunPhase =
    Checks | Cloud_provision | Machine_prepare | Workspace_materialize | Workspace_dematerialize | Cloud_destroy

definition LIFECYCLE_PHASES :: "LifecycleRunPhase list" where
  "LIFECYCLE_PHASES = [Cloud_provision, Machine_prepare, Workspace_materialize, Workspace_dematerialize, Cloud_destroy]"

fun phaseText :: "LifecycleRunPhase \<Rightarrow> string" where
  "phaseText Checks = ''checks''"
| "phaseText Cloud_provision = ''cloud/provision''"
| "phaseText Machine_prepare = ''machine/prepare''"
| "phaseText Workspace_materialize = ''workspace/materialize''"
| "phaseText Workspace_dematerialize = ''workspace/dematerialize''"
| "phaseText Cloud_destroy = ''cloud/destroy''"

definition phaseOf :: "string \<Rightarrow> LifecycleRunPhase \<Rightarrow> bool" where
  "phaseOf prefix phase \<longleftrightarrow> startsWithText (phaseText phase) prefix"

datatype LifecycleStatus =
    Accepted | Running | Cancelling | Succeeded | Failed | Was_cancelled | Timed_out | Was_interrupted

fun statusText :: "LifecycleStatus \<Rightarrow> string" where
  "statusText Accepted = ''accepted''"
| "statusText Running = ''running''"
| "statusText Cancelling = ''cancelling''"
| "statusText Succeeded = ''succeeded''"
| "statusText Failed = ''failed''"
| "statusText Was_cancelled = ''cancelled''"
| "statusText Timed_out = ''timed-out''"
| "statusText Was_interrupted = ''interrupted''"

datatype ExecutionKind = Check_execution | Script_execution | Ingress_execution

record LifecycleExecution =
  execId :: string
  execKind :: ExecutionKind
  execLabel :: string
  execCommand :: string
  execHash :: string
  execPhase :: "LifecycleRunPhase option"
  execFile :: "string option"
  execContent :: string

datatype StoredLevel = Level BrowserSiteLevel | Scripts | Steps

record LifecycleApproval =
  approvalScope :: ApprovalScope
  approvedHash :: string
  approvedBy :: string
  approvedAt :: instant
  approvalLevel :: "StoredLevel option"

datatype IncidentKind = Domain | Transport

record LifecycleIncident =
  incidentId :: string
  incidentKind :: IncidentKind
  incidentMessage :: string
  occurredAt :: instant
  incidentFailure :: "EnvironmentFailure option"

record LifecycleAttachment =
  attachmentId :: string
  attachmentGeneration :: nat

record LifecycleResult =
  resultId :: string
  resultExit :: "int option"
  resultOutput :: string
  resultStarted :: "instant option"
  resultFinished :: "instant option option"

record LifecycleRun =
  runId :: string
  runProject :: string
  runSpace :: string
  runPhase :: LifecycleRunPhase
  runStatus :: LifecycleStatus
  runInteractive :: "bool option"
  runProfile :: string
  runMachine :: string
  runGeneration :: "nat option"
  runAttachment :: "LifecycleAttachment option"
  runBindings :: "settings option"
  runHashes :: "string list"
  terminalName :: "string option"
  runResults :: "LifecycleResult list"
  runOutput :: string
  exitCode :: "int option"
  startedAt :: instant
  finishedAt :: "instant option"
  deadlineAt :: instant
  cancelRequestedAt :: "instant option"
  runFailure :: "EnvironmentFailure option"
  incidents :: "LifecycleIncident list"

datatype ClaimStatus = Claimed | Existing | Skipped | Blocked

record LifecycleClaim =
  claimRun :: string
  claimStatus :: ClaimStatus
  claimReason :: "string option"

record LifecycleProvision =
  provisionedRun :: string
  provisionedProfile :: string
  provisionedHashes :: "string list"
  provisionedMachine :: string
  completedAt :: instant

record EnvironmentValues =
  globalValues :: settings
  projectValues :: settings
  workspaceValues :: settings

record LifecycleState =
  revision :: nat
  projectId :: string
  spaceId :: string
  bundleJson :: "string option"
  selectedProfile :: "string option"
  executions :: "LifecycleExecution list"
  browserOrigins :: "(string \<times> string) list"
  stateValues :: EnvironmentValues
  approvals :: "LifecycleApproval list"
  automatic :: bool
  stateBindings :: settings
  provisioned :: "LifecycleProvision option"
  destroyedAt :: "instant option"
  runs :: "LifecycleRun list"
  claim :: "LifecycleClaim option"

datatype ActorKind = Browser_actor | Client_actor | Machine_actor

record LifecycleActor =
  actorMachine :: string
  actorId :: string
  actorKind :: ActorKind
  lifecycleControl :: bool
  actorAttachment :: "LifecycleAttachment option"

record LifecycleRunRecord =
  recordRun :: LifecycleRun
  recordScope :: string

section \<open>Mutations\<close>

datatype ValueScope = Global_value | Project_value | Workspace_value

record ClaimRequest =
  requestRun :: string
  requestPhase :: LifecycleRunPhase
  requestProfile :: string
  requestHashes :: "string list"
  requestGeneration :: "nat option"
  requestAttachment :: "LifecycleAttachment option"
  requestRerun :: bool
  requestDeadline :: "instant option"
  requestTerminal :: "string option"
  requestInteractive :: "bool option"

record AppendReport =
  appendRun :: string
  appendOutput :: string
  appendResults :: "LifecycleResult list option"
  appendBindings :: "settings option"
  appendIncidents :: "LifecycleIncident list option"

record FinishReport =
  finishRun :: string
  finishStatus :: LifecycleStatus
  finishIncidents :: "LifecycleIncident list option"
  finishFailure :: "EnvironmentFailure option"
  finishExit :: int
  finishResults :: "LifecycleResult list"
  finishOutput :: string
  finishBindings :: settings

datatype LifecycleMutation =
    Configure string "LifecycleExecution list option"
  | Profile string
  | Value ValueScope string "string option"
  | Approval ApprovalScope string bool "BrowserSiteLevel option"
  | Policy bool
  | Claim ClaimRequest
  | Append AppendReport
  | Finish FinishReport
  | Start string
  | Cancel string
  | Interrupt string string

section \<open>Schemas\<close>

definition lifecycleIdSchema :: "string \<Rightarrow> bool" where "lifecycleIdSchema s \<longleftrightarrow> lengthIn 1 160 s"

definition lowerHexDigit :: "char \<Rightarrow> bool" where
  "lowerHexDigit c \<longleftrightarrow> between 97 102 c \<or> isNumeral c"

definition executionHashSchema :: "string \<Rightarrow> bool" where
  "executionHashSchema s \<longleftrightarrow>
     startsWithText s ''sha256:'' \<and> length s = 71 \<and> list_all lowerHexDigit (drop 7 s)"

definition lifecycleValuesSchema :: "settings \<Rightarrow> bool" where
  "lifecycleValuesSchema vs \<longleftrightarrow> list_all (\<lambda>(n, v). environmentNameSchema n \<and> lengthIn 0 16384 v) vs"

definition lifecycleResultsSchema :: "LifecycleResult list \<Rightarrow> bool" where
  "lifecycleResultsSchema rs \<longleftrightarrow>
     length rs \<le> 128 \<and> list_all (\<lambda>r. lifecycleIdSchema (resultId r) \<and> lengthIn 0 524288 (resultOutput r)) rs"

definition LifecycleExecutionSchema :: "LifecycleExecution \<Rightarrow> bool" where
  "LifecycleExecutionSchema x \<longleftrightarrow>
     lifecycleIdSchema (execId x) \<and> lengthIn 0 256 (execLabel x) \<and> lengthIn 0 65536 (execCommand x)
     \<and> executionHashSchema (execHash x) \<and> optionally (\<lambda>p. p \<in> set LIFECYCLE_PHASES) (execPhase x)
     \<and> optionally (lengthIn 0 512) (execFile x) \<and> lengthIn 0 131072 (execContent x)"

definition LifecycleApprovalSchema :: "LifecycleApproval \<Rightarrow> bool" where
  "LifecycleApprovalSchema a \<longleftrightarrow> executionHashSchema (approvedHash a) \<and> lifecycleIdSchema (approvedBy a)"

definition LifecycleIncidentSchema :: "LifecycleIncident \<Rightarrow> bool" where
  "LifecycleIncidentSchema i \<longleftrightarrow> lifecycleIdSchema (incidentId i)"

definition LifecycleAttachmentSchema :: "LifecycleAttachment \<Rightarrow> bool" where
  "LifecycleAttachmentSchema a \<longleftrightarrow> lifecycleIdSchema (attachmentId a)"

definition LifecycleRunSchema :: "LifecycleRun \<Rightarrow> bool" where
  "LifecycleRunSchema r \<longleftrightarrow>
     lifecycleIdSchema (runId r) \<and> lifecycleIdSchema (runProject r) \<and> lifecycleIdSchema (runSpace r)
     \<and> identifierSchema (runProfile r) \<and> lifecycleIdSchema (runMachine r)
     \<and> optionally LifecycleAttachmentSchema (runAttachment r) \<and> optionally LifecycleBindingsSchema (runBindings r)
     \<and> length (runHashes r) \<le> 128 \<and> list_all executionHashSchema (runHashes r)
     \<and> lifecycleResultsSchema (runResults r) \<and> list_all LifecycleIncidentSchema (incidents r)"

definition LifecycleStateSchema :: "LifecycleState \<Rightarrow> bool" where
  "LifecycleStateSchema s \<longleftrightarrow>
     lifecycleIdSchema (projectId s) \<and> lifecycleIdSchema (spaceId s)
     \<and> optionally identifierSchema (selectedProfile s)
     \<and> length (executions s) \<le> 256 \<and> list_all LifecycleExecutionSchema (executions s)
     \<and> length (browserOrigins s) \<le> 256
     \<and> list_all (\<lambda>(p, h). BrowserOriginPatternSchema p \<and> executionHashSchema h) (browserOrigins s)
     \<and> lifecycleValuesSchema (globalValues (stateValues s)) \<and> lifecycleValuesSchema (projectValues (stateValues s))
     \<and> lifecycleValuesSchema (workspaceValues (stateValues s))
     \<and> list_all LifecycleApprovalSchema (approvals s)
     \<and> LifecycleBindingsSchema (stateBindings s)
     \<and> optionally (\<lambda>p. lifecycleIdSchema (provisionedRun p) \<and> identifierSchema (provisionedProfile p)
         \<and> list_all executionHashSchema (provisionedHashes p) \<and> lifecycleIdSchema (provisionedMachine p)) (provisioned s)
     \<and> list_all LifecycleRunSchema (runs s)
     \<and> optionally (\<lambda>c. lifecycleIdSchema (claimRun c)) (claim s)"

fun LifecycleMutationSchema :: "LifecycleMutation \<Rightarrow> bool" where
  "LifecycleMutationSchema (Configure json xs) \<longleftrightarrow>
     lengthIn 0 262144 json \<and> optionally (\<lambda>xs. length xs \<le> 256 \<and> list_all LifecycleExecutionSchema xs) xs"
| "LifecycleMutationSchema (Profile p) \<longleftrightarrow> identifierSchema p"
| "LifecycleMutationSchema (Value _ name value) \<longleftrightarrow> environmentNameSchema name \<and> optionally (lengthIn 0 16384) value"
| "LifecycleMutationSchema (Approval _ h _ _) \<longleftrightarrow> executionHashSchema h"
| "LifecycleMutationSchema (Policy _) \<longleftrightarrow> True"
| "LifecycleMutationSchema (Claim q) \<longleftrightarrow>
     lifecycleIdSchema (requestRun q) \<and> identifierSchema (requestProfile q)
     \<and> length (requestHashes q) \<le> 128 \<and> list_all executionHashSchema (requestHashes q)
     \<and> optionally LifecycleAttachmentSchema (requestAttachment q) \<and> optionally (lengthIn 0 256) (requestTerminal q)"
| "LifecycleMutationSchema (Append r) \<longleftrightarrow>
     lifecycleIdSchema (appendRun r) \<and> lengthIn 0 524288 (appendOutput r)
     \<and> optionally lifecycleResultsSchema (appendResults r) \<and> optionally LifecycleBindingsSchema (appendBindings r)
     \<and> optionally (list_all LifecycleIncidentSchema) (appendIncidents r)"
| "LifecycleMutationSchema (Finish r) \<longleftrightarrow>
     lifecycleIdSchema (finishRun r)
     \<and> finishStatus r \<in> set [Succeeded, Failed, Was_cancelled, Timed_out, Was_interrupted]
     \<and> optionally (list_all LifecycleIncidentSchema) (finishIncidents r)
     \<and> lifecycleResultsSchema (finishResults r) \<and> lengthIn 0 524288 (finishOutput r)
     \<and> LifecycleBindingsSchema (finishBindings r)"
| "LifecycleMutationSchema (Start i) \<longleftrightarrow> lifecycleIdSchema i"
| "LifecycleMutationSchema (Cancel i) \<longleftrightarrow> lifecycleIdSchema i"
| "LifecycleMutationSchema (Interrupt i reason) \<longleftrightarrow> lifecycleIdSchema i \<and> lengthIn 1 500 reason"

record LifecycleRunRequest =
  wantedRun :: string
  wantedPhase :: LifecycleRunPhase
  wantedRerun :: "bool option"
  wantedDeadline :: "instant option"
  wantedInteractive :: "bool option"

definition parseLifecycleRunRequest :: "LifecycleRunRequest \<Rightarrow> LifecycleRunRequest fallible" where
  "parseLifecycleRunRequest q =
     (if \<not> lengthIn 1 128 (wantedRun q) then throw InvalidConfiguration
      else if wantedPhase q = Checks \<and> wantedInteractive q = Some True then throw InvalidConfiguration
      else Inr q)"

end
