(* ===== verification/Lifecycle.thy ===== *)
theory Lifecycle
  imports Lifecycle_Data
begin

text \<open>
  \<open>protocol-environment/src/lifecycle.ts\<close>: the readers of a workspace's environment and
  \<open>transitionLifecycle\<close>, which decides every change of it. One definition per \<open>op\<close>; a thrown error
  is \<open>Inl\<close>. \<open>deriveLifecycleExecutions\<close> (reading the checkout's files) is not modelled.
\<close>

section \<open>Readers\<close>

definition DEFAULT_LIFECYCLE_TIMEOUT_MS :: instant where
  "DEFAULT_LIFECYCLE_TIMEOUT_MS = 1800000"

definition LIFECYCLE_PREVIEW_LIMIT :: nat where
  "LIFECYCLE_PREVIEW_LIMIT = 16384"

definition emptyLifecycleState :: "string \<Rightarrow> string \<Rightarrow> LifecycleState" where
  "emptyLifecycleState project space =
     \<lparr>revision = 0, projectId = project, spaceId = space, bundleJson = None, selectedProfile = None, executions = [],
      browserOrigins = [], stateValues = \<lparr>globalValues = [], projectValues = [], workspaceValues = []\<rparr>, approvals = [],
      automatic = False, stateBindings = [], provisioned = None, destroyedAt = None, runs = [], claim = None\<rparr>"

definition assertLifecycleCommandAuthorized :: "LifecycleRunPhase \<Rightarrow> bool \<Rightarrow> unit fallible" where
  "assertLifecycleCommandAuthorized phase control =
     (if phase = Cloud_destroy \<and> \<not> control then throw PermissionDenied else Inr ())"

definition truthy :: "bool option \<Rightarrow> bool" where
  "truthy x \<longleftrightarrow> x = Some True"

definition assertLifecycleRequestIdentity :: "LifecycleRunRequest \<Rightarrow> LifecycleRun \<Rightarrow> unit fallible" where
  "assertLifecycleRequestIdentity request accepted =
     (if wantedPhase request \<noteq> runPhase accepted \<or> truthy (wantedInteractive request) \<noteq> truthy (runInteractive accepted)
      then throw RunConflict else Inr ())"

text \<open>\<open>content.split(/\r?\n/u)\<close>\<close>

definition dropReturn :: "string \<Rightarrow> string" where
  "dropReturn s = (if s \<noteq> [] \<and> List.last s = CHR 0x0D then butlast s else s)"

definition linesOf :: "string \<Rightarrow> string list" where
  "linesOf content = (let parts = splitOn CHR 0x0A content in map dropReturn (butlast parts) @ [List.last parts])"

definition trim :: "string \<Rightarrow> string" where
  "trim s = rev (dropWhile isSpace (rev (dropWhile isSpace s)))"

fun interactiveHeader :: "string list \<Rightarrow> bool" where
  "interactiveHeader [] = False"
| "interactiveHeader (line # rest) =
     (if line = ''# gitspace: interactive'' then True
      else if trim line \<noteq> [] \<and> \<not> startsWithText (trim line) ''#'' then False
      else interactiveHeader rest)"

definition isInteractiveLifecycleScript :: "string \<Rightarrow> bool" where
  "isInteractiveLifecycleScript content = interactiveHeader (linesOf content)"

definition skippedInteractiveScriptLine :: "string \<Rightarrow> string" where
  "skippedInteractiveScriptLine script =
     ''skipped: '' @ script @ '' needs a terminal; run setup from a terminal to execute it''"

text \<open>What the caller knows of an attachment; its states as the attachment service names them.\<close>

record AttachmentFacts =
  factsAttachment :: LifecycleAttachment
  factsMachine :: string
  factsProject :: string
  factsState :: string

definition authorizeLifecycleMachineMutation ::
    "LifecycleMutation \<Rightarrow> string \<Rightarrow> string \<Rightarrow> bool \<Rightarrow> AttachmentFacts option \<Rightarrow> unit fallible" where
  "authorizeLifecycleMachineMutation input machineId' projectId' machineOnline attachment =
     (case input of
        Approval _ _ _ _ \<Rightarrow> throw PermissionDenied
      | Interrupt _ _ \<Rightarrow> throw PermissionDenied
      | Claim q \<Rightarrow>
          if \<not> machineOnline then throw RunnerUnavailable
          else (case requestAttachment q of
              Some wanted \<Rightarrow>
                (case attachment of
                   None \<Rightarrow> throw PermissionDenied
                 | Some a \<Rightarrow>
                     if attachmentId (factsAttachment a) \<noteq> attachmentId wanted
                        \<or> attachmentGeneration (factsAttachment a) \<noteq> attachmentGeneration wanted
                        \<or> factsMachine a \<noteq> machineId' \<or> factsProject a \<noteq> projectId'
                        \<or> factsState a \<notin> set [''attaching'', ''ready'']
                        \<or> requestGeneration q \<noteq> None
                        \<or> requestPhase q \<notin> set [Machine_prepare, Checks, Workspace_materialize, Workspace_dematerialize]
                     then throw PermissionDenied else Inr ())
            | None \<Rightarrow>
                if phaseOf ''cloud/'' (requestPhase q)
                   \<or> requestGeneration q = None \<and> (requestPhase q = Machine_prepare \<or> requestPhase q = Checks)
                then Inr () else throw PermissionDenied)
      | _ \<Rightarrow> Inr ())"

fun STORED_SITE_LEVEL :: "StoredLevel \<Rightarrow> BrowserSiteLevel" where
  "STORED_SITE_LEVEL (Level l) = l"
| "STORED_SITE_LEVEL Steps = Interact"
| "STORED_SITE_LEVEL Scripts = Full"

fun SITE_LEVEL_RANK :: "BrowserSiteLevel \<Rightarrow> nat" where
  "SITE_LEVEL_RANK Full = 0"
| "SITE_LEVEL_RANK Interact = 1"
| "SITE_LEVEL_RANK Read = 2"

definition stricterLevel :: "string \<Rightarrow> BrowserSiteLevel option \<Rightarrow> LifecycleApproval \<Rightarrow> BrowserSiteLevel option" where
  "stricterLevel h level entry =
     (if approvedHash entry \<noteq> h then level
      else let stored = STORED_SITE_LEVEL (orElse (approvalLevel entry) (Level Full)) in
        (case level of
           None \<Rightarrow> Some stored
         | Some l \<Rightarrow> if SITE_LEVEL_RANK l < SITE_LEVEL_RANK stored then Some stored else Some l))"

definition browserOriginLevel :: "LifecycleApproval list \<Rightarrow> string \<Rightarrow> BrowserSiteLevel option" where
  "browserOriginLevel entries h = foldl (stricterLevel h) None entries"

definition approvedBrowserSites :: "LifecycleState \<Rightarrow> (string \<times> BrowserSiteLevel) list" where
  "approvedBrowserSites st =
     concat (map (\<lambda>(p, h). case browserOriginLevel (approvals st) h of None \<Rightarrow> [] | Some l \<Rightarrow> [(p, l)]) (browserOrigins st))"

definition approvedBrowserOrigins :: "LifecycleState \<Rightarrow> string list" where
  "approvedBrowserOrigins st = map fst (approvedBrowserSites st)"

definition isLifecycleRunActive :: "LifecycleRun \<Rightarrow> bool" where
  "isLifecycleRunActive r \<longleftrightarrow> runStatus r = Accepted \<or> runStatus r = Running \<or> runStatus r = Cancelling"

datatype RunOutcome = Still_running | Has_failed | Has_succeeded

definition lifecycleRunOutcome :: "LifecycleRun \<Rightarrow> RunOutcome" where
  "lifecycleRunOutcome r =
     (if isLifecycleRunActive r then Still_running else if runStatus r = Succeeded then Has_succeeded else Has_failed)"

record LifecycleProjectionScope =
  scopeProfile :: string
  scopeMachine :: "string option"
  scopeGeneration :: "nat option"

definition lifecycleRunMatchesScope :: "LifecycleRun \<Rightarrow> LifecycleProjectionScope \<Rightarrow> bool" where
  "lifecycleRunMatchesScope r scope =
     (if (runPhase r = Machine_prepare \<or> runPhase r = Checks)
        \<and> (runProfile r \<noteq> scopeProfile scope \<or> scopeMachine scope \<noteq> None \<and> Some (runMachine r) \<noteq> scopeMachine scope)
      then False
      else \<not> ((phaseOf ''workspace/'' (runPhase r) \<or> runPhase r = Checks)
        \<and> scopeGeneration scope \<noteq> None \<and> runGeneration r \<noteq> scopeGeneration scope))"

definition laterRun :: "LifecycleRun option \<Rightarrow> LifecycleRun \<Rightarrow> LifecycleRun option" where
  "laterRun latest r =
     (case latest of None \<Rightarrow> Some r | Some l \<Rightarrow> if startedAt l < startedAt r then Some r else Some l)"

definition inScope :: "LifecycleProjectionScope option \<Rightarrow> LifecycleRun \<Rightarrow> bool" where
  "inScope scope r \<longleftrightarrow> optionally (lifecycleRunMatchesScope r) scope"

definition latestLifecycleRun ::
    "LifecycleRun list \<Rightarrow> LifecycleRunPhase \<Rightarrow> LifecycleProjectionScope option \<Rightarrow> LifecycleRun option" where
  "latestLifecycleRun rs phase scope =
     foldl laterRun None (filter (\<lambda>r. runPhase r = phase \<and> inScope scope r) rs)"

definition latestExecutionRun ::
    "LifecycleRun list \<Rightarrow> string \<Rightarrow> LifecycleProjectionScope option \<Rightarrow> LifecycleRun option" where
  "latestExecutionRun rs h scope =
     foldl laterRun None (filter (\<lambda>r. h \<in> set (runHashes r) \<and> inScope scope r) rs)"

definition shouldPrepareEnvironment :: "LifecycleState \<Rightarrow> bool" where
  "shouldPrepareEnvironment st \<longleftrightarrow> automatic st \<and> provisioned st \<noteq> None \<and> destroyedAt st = None"

definition environmentPreparationPhases :: "LifecycleRunPhase \<Rightarrow> bool \<Rightarrow> LifecycleRunPhase list" where
  "environmentPreparationPhases phase detached =
     (if phase = Cloud_provision \<or> detached
      then [Machine_prepare, Checks, phase] @ (if phase = Cloud_provision then [Workspace_materialize] else [])
      else [phase])"

fun firstSome :: "'a option list \<Rightarrow> 'a option" where
  "firstSome [] = None"
| "firstSome (Some x # xs) = Some x"
| "firstSome (None # xs) = firstSome xs"

definition effectiveEnvironmentValues ::
    "EnvironmentBundle \<Rightarrow> EffectiveEnvironmentProfile \<Rightarrow> EnvironmentValues \<Rightarrow> settings" where
  "effectiveEnvironmentValues b profile vs =
     foldl (\<lambda>result name.
       case firstSome [map_of (workspaceValues vs) name, map_of (projectValues vs) name, map_of (globalValues vs) name,
           Option.bind (map_of (bundleValues b) name) valueDefault] of
         None \<Rightarrow> result | Some v \<Rightarrow> AList.update name v result) [] (effectiveValues profile)"

record EnvironmentProjection =
  shownBundle :: string
  shownProfile :: string
  shownEffective :: EffectiveEnvironmentProfile
  shownValues :: settings
  shownExecutions :: "(LifecycleExecution \<times> bool option \<times> ApprovalScope option) list"
  shownState :: LifecycleState

definition emptyBundle :: EnvironmentBundle where
  "emptyBundle =
     \<lparr>defaultProfile = ''base'',
      profiles = [(''base'', \<lparr>profileChecks = [], profileSecrets = [], profileValues = [], profileNotes = None\<rparr>)],
      checks = [], bundleValues = [], bundleOrigins = [], terminalSection = None\<rparr>"

definition executionApproval :: "LifecycleApproval list \<Rightarrow> string \<Rightarrow> ApprovalScope option" where
  "executionApproval entries h =
     firstSome (map (\<lambda>scope. map_option approvalScope
       (List.find (\<lambda>e. approvedHash e = h \<and> approvalScope e = scope) entries)) [Project, Workspace])"

definition projectEnvironmentState :: "codec \<Rightarrow> LifecycleState \<Rightarrow> EnvironmentProjection fallible" where
  "projectEnvironmentState cd st =
     (case (case bundleJson st of None \<Rightarrow> Inr emptyBundle | Some text \<Rightarrow> parseEnvironmentBundleJson (decodeBundle cd) text) of
        Inl e \<Rightarrow> Inl e
      | Inr b \<Rightarrow>
          let profile = orElse (selectedProfile st) (defaultProfile b) in
          (case resolveEnvironmentProfile b profile of
             Inl e \<Rightarrow> Inl e
           | Inr effective \<Rightarrow> Inr
               \<lparr>shownBundle = orElse (bundleJson st) (encodeBundle cd b), shownProfile = profile, shownEffective = effective,
                shownValues = effectiveEnvironmentValues b effective (stateValues st),
                shownExecutions = map (\<lambda>x. (x,
                  if execKind x = Script_execution then Some (isInteractiveLifecycleScript (execContent x)) else None,
                  executionApproval (approvals st) (execHash x))) (executions st),
                shownState = st\<rparr>))"

definition reservedName :: "string \<Rightarrow> bool" where
  "reservedName name \<longleftrightarrow>
     name \<in> set [''PATH'', ''HOME'', ''ENV'', ''BASH_ENV'', ''SHELLOPTS'', ''NODE_OPTIONS'', ''BUN_OPTIONS'', ''RUBYOPT'', ''PYTHONPATH'']
     \<or> list_ex (\<lambda>p. startsWithText name p \<and> length p < length name \<and> list_all (noneOf [CHR 0x0A, CHR 0x0D]) (drop (length p) name))
         [''LD_'', ''DYLD_'', ''GITSPACE_'']
     \<or> startsWithText name ''GIT_CONFIG'' \<and> list_all (noneOf [CHR 0x0A, CHR 0x0D]) (drop 10 name)"

record ReadyFacts =
  readyPhase :: LifecycleRunPhase
  readyBundle :: EnvironmentBundle
  readyEffective :: EffectiveEnvironmentProfile
  readyValues :: settings
  configuredSecrets :: "string list"
  executionCount :: nat
  holder :: bool
  detached :: bool
  runnerAvailable :: bool
  attached :: bool

definition valueMissing :: "ReadyFacts \<Rightarrow> string \<Rightarrow> bool" where
  "valueMissing f name \<longleftrightarrow>
     (case map_of (bundleValues (readyBundle f)) name of None \<Rightarrow> False | Some d \<Rightarrow> truthy (valueRequired d))
     \<and> orElse (map_of (readyValues f) name) [] = []"

definition assertEnvironmentExecutionReady :: "ReadyFacts \<Rightarrow> unit fallible" where
  "assertEnvironmentExecutionReady f =
     (if \<not> holder f \<and> \<not> detached f then throw PermissionDenied
      else if detached f \<and> \<not> attached f \<and> (phaseOf ''workspace/'' (readyPhase f) \<or> readyPhase f = Cloud_provision)
        then throw PreconditionFailed
      else if \<not> runnerAvailable f then throw RunnerUnavailable
      else if executionCount f = 0 then Inr ()
      else if list_ex reservedName (effectiveValues (readyEffective f) @ effectiveSecrets (readyEffective f))
        then throw InvalidConfiguration
      else if list_ex (valueMissing f) (effectiveValues (readyEffective f)) then throw MissingValue
      else if list_ex (\<lambda>name. name \<notin> set (configuredSecrets f)) (effectiveSecrets (readyEffective f)) then throw MissingSecret
      else Inr ())"

end
