(* ===== verification/Lifecycle_Transition.thy ===== *)
theory Lifecycle_Transition
  imports Lifecycle
begin

text \<open>
  \<open>transitionLifecycle\<close> of \<open>protocol-environment/src/lifecycle.ts\<close>: one definition per \<open>op\<close>, their
  composition, and what every transition does to a run: it ends once, its identity never changes,
  and only approved content is claimed.
\<close>

section \<open>Redaction\<close>

definition notIn :: "string \<Rightarrow> char \<Rightarrow> bool" where
  "notIn cs c \<longleftrightarrow> \<not> isSpace c \<and> noneOf cs c"

definition redactKeys :: "string \<Rightarrow> string" where
  "redactKeys = replaceMatches
     (sequence [literally ''-----BEGIN '', Many (Chars (noneOf ''-'')), literally ''PRIVATE KEY-----'', Lazy (Chars (\<lambda>_. True)),
       literally ''-----END '', Many (Chars (noneOf ''-'')), literally ''PRIVATE KEY-----'']) Nothing
     (\<lambda>_. ''[REDACTED PRIVATE KEY]'')"

definition redactAuthorization :: "string \<Rightarrow> string" where
  "redactAuthorization = replaceMatches
     (Then Boundary (anyOf [ignoringCase ''Bearer'', ignoringCase ''Basic'']))
     (Then (some (Chars isSpace)) (some (Chars (\<lambda>c. alnum c \<or> oneOf ''+/_=.-'' c))))
     (\<lambda>head. head @ '' [REDACTED]'')"

definition redactAssignments :: "string \<Rightarrow> string" where
  "redactAssignments = replaceMatches
     (sequence [anyOf [ignoringCase ''password'', ignoringCase ''secret'', ignoringCase ''token'',
         sequence [ignoringCase ''api'', optional (Chars (oneOf ''_-'')), ignoringCase ''key''], ignoringCase ''credential''],
       Many (Chars isSpace), Chars (oneOf ''=:''), Many (Chars isSpace)])
     (anyOf [
       sequence [literally [CHR 0x22], Many (Chars (noneOf [CHR 0x22, CHR 0x0A])), literally [CHR 0x22]],
       sequence [literally [CHR 0x27], Many (Chars (noneOf [CHR 0x27, CHR 0x0A])), literally [CHR 0x27]],
       some (Chars (notIn ''&,;''))])
     (\<lambda>head. head @ ''[REDACTED]'')"

definition redactUrls :: "string \<Rightarrow> string" where
  "redactUrls = replaceMatches
     (sequence [literally ''://'', some (Chars (notIn ''/:@'')), literally '':''])
     (Then (some (Chars (notIn ''/@''))) (literally ''@''))
     (\<lambda>head. head @ ''[REDACTED]@'')"

definition redactTokens :: "string \<Rightarrow> string" where
  "redactTokens = replaceMatches
     (sequence [Boundary, anyOf [
         sequence [literally ''gh'', Chars (oneOf ''pousr''), literally ''_'', atLeast 20 (Chars alnum)],
         sequence [literally ''github_pat_'', some (Chars isWord)],
         sequence [literally ''sk-'', atLeast 20 (Chars (\<lambda>c. isWord c \<or> c = CHR ''-''))],
         sequence [literally ''AKIA'', exactly 16 (Chars (\<lambda>c. isUpper c \<or> isNumeral c))]], Boundary]) Nothing
     (\<lambda>_. ''[REDACTED]'')"

definition sanitizeLifecycleOutput :: "string list \<Rightarrow> string \<Rightarrow> string" where
  "sanitizeLifecycleOutput secrets output =
     redactTokens (redactUrls (redactAssignments (redactAuthorization (redactKeys
       (foldl (\<lambda>text secret. if secret = [] then text else replaceText secret ''[REDACTED]'' text) output secrets)))))"

section \<open>Scopes and reasons to stop\<close>

definition sameHashes :: "string list \<Rightarrow> string list \<Rightarrow> bool" where
  "sameHashes a b \<longleftrightarrow> length (unique a) = length (unique b) \<and> list_all (\<lambda>h. h \<in> set a) b"

text \<open>\<open>sort()\<close> compares by UTF-16 code units.\<close>

fun textLe :: "string \<Rightarrow> string \<Rightarrow> bool" where
  "textLe [] _ = True"
| "textLe (_ # _) [] = False"
| "textLe (x # xs) (y # ys) = ((of_char x :: nat) < of_char y \<or> x = y \<and> textLe xs ys)"

definition hashesJson :: "string list \<Rightarrow> json" where
  "hashesJson hs = JArray (map JString (sortWith textLe (unique hs)))"

definition lifecycleRunScope :: "ClaimRequest \<Rightarrow> string list \<Rightarrow> string \<Rightarrow> string \<Rightarrow> string" where
  "lifecycleRunScope q hashes machine space =
     stringify (JArray (case requestAttachment q of
         Some a \<Rightarrow> [JString ''attachment'', JString (attachmentId a), JNumber (int (attachmentGeneration a)),
           JString (phaseText (requestPhase q)), JString (requestProfile q), hashesJson hashes]
       | None \<Rightarrow>
           if requestPhase q = Machine_prepare then
             [JString (phaseText (requestPhase q)), JString machine, JString (requestProfile q), hashesJson hashes]
           else if phaseOf ''cloud/'' (requestPhase q) then [JString ''cloud'', JString space]
           else [JString (phaseText (requestPhase q)), JString space,
             (case requestGeneration q of None \<Rightarrow> JNull | Some g \<Rightarrow> JNumber (int g))]))"

definition lifecycleStopReason :: "codec \<Rightarrow> LifecycleRun \<Rightarrow> instant \<Rightarrow> EnvironmentFailure option" where
  "lifecycleStopReason cd r now =
     (if cancelRequestedAt r \<noteq> None then
        Some \<lparr>failureCode = Cancelled, failureMessage = ''Lifecycle cancellation was explicitly requested'',
          failureContext = [(''runId'', runId r)]\<rparr>
      else if deadlineAt r \<le> now then
        Some \<lparr>failureCode = DeadlineExceeded, failureMessage = ''Lifecycle deadline elapsed'',
          failureContext = [(''runId'', runId r), (''deadlineAt'', isoText cd (deadlineAt r))]\<rparr>
      else None)"

section \<open>One definition per operation\<close>

text \<open>What an operation decides before the runs and the revision are brought up to date.\<close>

record decision =
  decided :: LifecycleState
  decidedRecord :: "LifecycleRunRecord option"
  decidedReplaced :: "LifecycleRunRecord list"
  decidedLog :: "(string \<times> string) option"
  decidedShared :: bool

datatype verdict = Unchanged LifecycleState | Decide decision

abbreviation only :: "LifecycleState \<Rightarrow> decision" where
  "only st \<equiv> \<lparr>decided = st, decidedRecord = None, decidedReplaced = [], decidedLog = None, decidedShared = False\<rparr>"

definition configureOp :: "codec \<Rightarrow> LifecycleState \<Rightarrow> string \<Rightarrow> LifecycleExecution list option \<Rightarrow> verdict fallible" where
  "configureOp cd st json xs =
     (case parseEnvironmentBundleJson (decodeBundle cd) json of
        Inl e \<Rightarrow> Inl e
      | Inr b \<Rightarrow>
          (case (case selectedProfile st of None \<Rightarrow> Inr () | Some p \<Rightarrow>
                  (case resolveEnvironmentProfile b p of Inl e \<Rightarrow> Inl e | Inr _ \<Rightarrow> Inr ())) of
             Inl e \<Rightarrow> Inl e
           | Inr _ \<Rightarrow> Inr (Decide (only (st\<lparr>bundleJson := Some (encodeBundle cd b),
               selectedProfile := Some (orElse (selectedProfile st) (defaultProfile b)),
               executions := orElse xs (executions st)\<rparr>)))))"

definition profileOp :: "codec \<Rightarrow> LifecycleState \<Rightarrow> string \<Rightarrow> verdict fallible" where
  "profileOp cd st p =
     (if orElse (bundleJson st) [] = [] then throw PreconditionFailed
      else case parseEnvironmentBundleJson (decodeBundle cd) (orElse (bundleJson st) []) of
        Inl e \<Rightarrow> Inl e
      | Inr b \<Rightarrow> (case resolveEnvironmentProfile b p of
            Inl e \<Rightarrow> Inl e
          | Inr _ \<Rightarrow> Inr (Decide (only (st\<lparr>selectedProfile := Some p\<rparr>)))))"

definition setValue :: "string \<Rightarrow> string option \<Rightarrow> settings \<Rightarrow> settings" where
  "setValue name v vs = (case v of None \<Rightarrow> AList.delete name vs | Some x \<Rightarrow> AList.update name x vs)"

fun valueOp :: "LifecycleState \<Rightarrow> ValueScope \<Rightarrow> string \<Rightarrow> string option \<Rightarrow> verdict fallible" where
  "valueOp st Global_value name v = throw PermissionDenied"
| "valueOp st Project_value name v = Inr (Decide ((only (st\<lparr>stateValues := (stateValues st)
     \<lparr>projectValues := setValue name v (projectValues (stateValues st))\<rparr>\<rparr>))\<lparr>decidedShared := True\<rparr>))"
| "valueOp st Workspace_value name v = Inr (Decide (only (st\<lparr>stateValues := (stateValues st)
     \<lparr>workspaceValues := setValue name v (workspaceValues (stateValues st))\<rparr>\<rparr>)))"

definition approvalOp ::
    "LifecycleState \<Rightarrow> LifecycleActor \<Rightarrow> instant \<Rightarrow> ApprovalScope \<Rightarrow> string \<Rightarrow> bool \<Rightarrow> BrowserSiteLevel option \<Rightarrow> verdict fallible" where
  "approvalOp st actor now scope h approved level =
     (if \<not> lifecycleControl actor then throw PermissionDenied
      else let origin = list_ex (\<lambda>(_, hash). hash = h) (browserOrigins st) in
        if approved \<and> \<not> origin \<and> \<not> list_ex (\<lambda>x. execHash x = h) (executions st) then throw ContentChanged
        else if level \<noteq> None \<and> (\<not> approved \<or> \<not> origin) then throw InvalidConfiguration
        else let kept = filter (\<lambda>e. approvalScope e \<noteq> scope \<or> approvedHash e \<noteq> h) (approvals st);
                 given = \<lparr>approvalScope = scope, approvedHash = h, approvedBy = actorId actor, approvedAt = now,
                   approvalLevel = (if origin then Some (Level (orElse level Full)) else None)\<rparr>
             in Inr (Decide ((only (st\<lparr>approvals := kept @ (if approved then [given] else [])\<rparr>))
                  \<lparr>decidedShared := (scope = Project)\<rparr>)))"

definition interactiveHash :: "LifecycleState \<Rightarrow> string \<Rightarrow> bool" where
  "interactiveHash st h \<longleftrightarrow>
     list_ex (\<lambda>x. execKind x = Script_execution \<and> execHash x = h \<and> isInteractiveLifecycleScript (execContent x)) (executions st)"

definition claimedHashes :: "LifecycleState \<Rightarrow> ClaimRequest \<Rightarrow> string list" where
  "claimedHashes st q =
     (if truthy (requestInteractive q) then requestHashes q
      else filter (\<lambda>h. \<not> interactiveHash st h) (requestHashes q))"

definition approvedHashes :: "LifecycleState \<Rightarrow> string list" where
  "approvedHashes st = map approvedHash (approvals st)"

definition sameOperation :: "LifecycleState \<Rightarrow> ClaimRequest \<Rightarrow> LifecycleRun \<Rightarrow> bool" where
  "sameOperation st q r \<longleftrightarrow>
     runSpace r = spaceId st \<and> runPhase r = requestPhase q \<and> truthy (runInteractive r) = truthy (requestInteractive q)
     \<and> runProfile r = requestProfile q \<and> runGeneration r = requestGeneration q \<and> sameHashes (runHashes r) (claimedHashes st q)"

definition alreadyDone :: "LifecycleState \<Rightarrow> LifecycleRunRecord list \<Rightarrow> ClaimRequest \<Rightarrow> string \<Rightarrow> bool" where
  "alreadyDone st rs q scope \<longleftrightarrow>
     \<not> requestRerun q
     \<and> (requestPhase q = Cloud_provision \<and> provisioned st \<noteq> None
        \<or> requestPhase q = Cloud_destroy \<and> destroyedAt st \<noteq> None
        \<or> \<not> phaseOf ''cloud/'' (requestPhase q) \<and> requestPhase q \<noteq> Checks
          \<and> list_ex (\<lambda>e. recordScope e = scope \<and> runStatus (recordRun e) = Succeeded) rs)"

definition newRun :: "LifecycleState \<Rightarrow> LifecycleActor \<Rightarrow> instant \<Rightarrow> instant \<Rightarrow> bool \<Rightarrow> ClaimRequest \<Rightarrow> LifecycleRun" where
  "newRun st actor now deadline skipped q =
     \<lparr>runId = requestRun q, runProject = projectId st, runSpace = spaceId st, runPhase = requestPhase q,
      runStatus = (if skipped then Succeeded else Accepted), runInteractive = Some (truthy (requestInteractive q)),
      runProfile = requestProfile q, runMachine = actorMachine actor, runGeneration = requestGeneration q,
      runAttachment = requestAttachment q, runBindings = None, runHashes = claimedHashes st q,
      terminalName = requestTerminal q, runResults = [], runOutput = [],
      exitCode = (if skipped then Some 0 else None), startedAt = now,
      finishedAt = (if skipped then Some now else None), deadlineAt = deadline, cancelRequestedAt = None,
      runFailure = None, incidents = []\<rparr>"

definition replaces :: "LifecycleState \<Rightarrow> ClaimRequest \<Rightarrow> LifecycleRunRecord \<Rightarrow> bool" where
  "replaces st q e \<longleftrightarrow>
     runSpace (recordRun e) = spaceId st \<and> runPhase (recordRun e) = requestPhase q
     \<and> isLifecycleRunActive (recordRun e) \<and> cancelRequestedAt (recordRun e) = None"

definition cancelRun :: "instant \<Rightarrow> LifecycleRun \<Rightarrow> LifecycleRun" where
  "cancelRun now r = r\<lparr>runStatus := Cancelling, cancelRequestedAt := Some now\<rparr>"

definition claimScope :: "LifecycleState \<Rightarrow> LifecycleActor \<Rightarrow> ClaimRequest \<Rightarrow> string" where
  "claimScope st actor q = lifecycleRunScope q (claimedHashes st q) (actorMachine actor) (spaceId st)"

definition claimDeadline :: "instant \<Rightarrow> ClaimRequest \<Rightarrow> instant" where
  "claimDeadline now q = orElse (requestDeadline q) (now + DEFAULT_LIFECYCLE_TIMEOUT_MS)"

definition claimDecision ::
    "LifecycleState \<Rightarrow> LifecycleRunRecord list \<Rightarrow> LifecycleActor \<Rightarrow> instant \<Rightarrow> ClaimRequest \<Rightarrow> decision" where
  "claimDecision st rs actor now q =
     (let skipped = alreadyDone st rs q (claimScope st actor q) in
      \<lparr>decided = st\<lparr>claim := Some \<lparr>claimRun = requestRun q, claimStatus = (if skipped then Skipped else Claimed),
         claimReason = (if skipped then Some ''This lifecycle scope already succeeded'' else None)\<rparr>\<rparr>,
       decidedRecord = Some \<lparr>recordRun = newRun st actor now (claimDeadline now q) skipped q, recordScope = claimScope st actor q\<rparr>,
       decidedReplaced = (if skipped then []
         else map (\<lambda>e. e\<lparr>recordRun := cancelRun now (recordRun e)\<rparr>) (filter (replaces st q) rs)),
       decidedLog = None, decidedShared = False\<rparr>)"

definition claimOp ::
    "LifecycleState \<Rightarrow> LifecycleRunRecord list \<Rightarrow> LifecycleActor \<Rightarrow> instant \<Rightarrow> ClaimRequest \<Rightarrow> verdict fallible" where
  "claimOp st rs actor now q =
     (if requestAttachment q \<noteq> None \<and> actorAttachment actor \<noteq> requestAttachment q then throw PermissionDenied
      else case List.find (\<lambda>e. runId (recordRun e) = requestRun q) rs of
        Some existing \<Rightarrow>
          if runAttachment (recordRun existing) \<noteq> requestAttachment q then throw RunConflict
          else if \<not> sameOperation st q (recordRun existing) then throw RunConflict
          else Inr (Unchanged (st\<lparr>claim := Some \<lparr>claimRun = runId (recordRun existing), claimStatus = Existing, claimReason = None\<rparr>\<rparr>))
      | None \<Rightarrow>
          if list_ex (\<lambda>h. h \<notin> set (approvedHashes st)) (claimedHashes st q) then throw ApprovalRequired
          else if requestPhase q = Checks \<and> truthy (requestInteractive q) then throw InvalidConfiguration
          else if claimDeadline now q \<le> now then throw DeadlineExceeded
          else Inr (Decide (claimDecision st rs actor now q)))"

subsection \<open>Reports on a run\<close>

definition owned :: "LifecycleState \<Rightarrow> LifecycleRunRecord list \<Rightarrow> string \<Rightarrow> LifecycleRunRecord fallible" where
  "owned st rs i =
     (case List.find (\<lambda>e. runId (recordRun e) = i \<and> runSpace (recordRun e) = spaceId st) rs of
        None \<Rightarrow> throw NotFound | Some e \<Rightarrow> Inr e)"

definition reported ::
    "LifecycleState \<Rightarrow> LifecycleRunRecord list \<Rightarrow> LifecycleActor \<Rightarrow> string \<Rightarrow> LifecycleRunRecord option fallible" where
  "reported st rs actor i =
     (case owned st rs i of
        Inl e \<Rightarrow> Inl e
      | Inr found \<Rightarrow>
          if runMachine (recordRun found) \<noteq> actorMachine actor then throw PermissionDenied
          else Inr (if isLifecycleRunActive (recordRun found) then Some found else None))"

abbreviation decideRun :: "LifecycleState \<Rightarrow> LifecycleRunRecord \<Rightarrow> LifecycleRun \<Rightarrow> (string \<times> string) option \<Rightarrow> verdict" where
  "decideRun st e r lg \<equiv> Decide
     \<lparr>decided = st, decidedRecord = Some (e\<lparr>recordRun := r\<rparr>), decidedReplaced = [], decidedLog = lg, decidedShared = False\<rparr>"

definition startOp ::
    "codec \<Rightarrow> LifecycleState \<Rightarrow> LifecycleRunRecord list \<Rightarrow> LifecycleActor \<Rightarrow> instant \<Rightarrow> string \<Rightarrow> verdict fallible" where
  "startOp cd st rs actor now i =
     (case reported st rs actor i of
        Inl e \<Rightarrow> Inl e
      | Inr None \<Rightarrow> throw RunConflict
      | Inr (Some found) \<Rightarrow>
          if runStatus (recordRun found) \<noteq> Accepted then throw RunConflict
          else (case lifecycleStopReason cd (recordRun found) now of
              Some stop \<Rightarrow> throw (failureCode stop)
            | None \<Rightarrow> Inr (decideRun st found ((recordRun found)\<lparr>runStatus := Running\<rparr>) None)))"

definition cancelOp :: "LifecycleState \<Rightarrow> LifecycleRunRecord list \<Rightarrow> instant \<Rightarrow> string \<Rightarrow> verdict fallible" where
  "cancelOp st rs now i =
     (case owned st rs i of
        Inl e \<Rightarrow> Inl e
      | Inr found \<Rightarrow>
          if \<not> isLifecycleRunActive (recordRun found) \<or> cancelRequestedAt (recordRun found) \<noteq> None then Inr (Unchanged st)
          else Inr (decideRun st found (cancelRun now (recordRun found)) None))"

definition addIncidents :: "LifecycleIncident list option \<Rightarrow> LifecycleRun \<Rightarrow> LifecycleRun" where
  "addIncidents added r =
     (case added of None \<Rightarrow> r
      | Some xs \<Rightarrow> r\<lparr>incidents := incidents r @
          filter (\<lambda>x. \<not> list_ex (\<lambda>entry. incidentId entry = incidentId x) (incidents r)) xs\<rparr>)"

abbreviation preview :: "string \<Rightarrow> string" where "preview \<equiv> lastN LIFECYCLE_PREVIEW_LIMIT"

definition sanitizeResult :: "LifecycleResult \<Rightarrow> LifecycleResult" where
  "sanitizeResult x = x\<lparr>resultOutput := preview (sanitizeLifecycleOutput [] (resultOutput x))\<rparr>"

text \<open>A run with an attachment keeps its bindings; another run's go to the workspace.\<close>

definition bindRun :: "settings \<Rightarrow> LifecycleRun \<Rightarrow> LifecycleRun" where
  "bindRun bs r = (if runAttachment r = None then r else r\<lparr>runBindings := Some (spread (orElse (runBindings r) []) bs)\<rparr>)"

definition bindState :: "settings \<Rightarrow> LifecycleRun \<Rightarrow> LifecycleState \<Rightarrow> LifecycleState" where
  "bindState bs r st = (if runAttachment r = None then st\<lparr>stateBindings := spread (stateBindings st) bs\<rparr> else st)"

definition appendOp ::
    "LifecycleState \<Rightarrow> LifecycleRunRecord list \<Rightarrow> LifecycleActor \<Rightarrow> AppendReport \<Rightarrow> verdict fallible" where
  "appendOp st rs actor a =
     (case reported st rs actor (appendRun a) of
        Inl e \<Rightarrow> Inl e
      | Inr None \<Rightarrow> Inr (Unchanged st)
      | Inr (Some found) \<Rightarrow>
          let r0 = addIncidents (appendIncidents a) (recordRun found);
              output = sanitizeLifecycleOutput [] (appendOutput a);
              r1 = r0\<lparr>runOutput := preview (runOutput r0 @ output)\<rparr>;
              r2 = (case appendResults a of None \<Rightarrow> r1 | Some xs \<Rightarrow> r1\<lparr>runResults := map sanitizeResult xs\<rparr>)
          in Inr (case appendBindings a of
              None \<Rightarrow> decideRun st found r2 (Some (appendRun a, output))
            | Some bs \<Rightarrow> decideRun (bindState bs r2 st) found (bindRun bs r2) (Some (appendRun a, output))))"

definition endsWithText :: "string \<Rightarrow> string \<Rightarrow> bool" where
  "endsWithText s t \<longleftrightarrow> length t \<le> length s \<and> drop (length s - length t) s = t"

definition finishFailureOf :: "codec \<Rightarrow> FinishReport \<Rightarrow> LifecycleRun \<Rightarrow> instant \<Rightarrow> EnvironmentFailure option" where
  "finishFailureOf cd f r now =
     (case lifecycleStopReason cd r now of
        Some stop \<Rightarrow> Some stop
      | None \<Rightarrow> (case finishFailure f of
          Some given \<Rightarrow> Some given
        | None \<Rightarrow>
            if finishStatus f = Succeeded then None
            else Some \<lparr>failureCode =
                (if finishStatus f = Was_interrupted then Interrupted else if finishStatus f = Was_cancelled then Cancelled
                 else if finishStatus f = Timed_out then DeadlineExceeded else ExecutionFailed),
              failureMessage = ''Lifecycle '' @ phaseText (runPhase r) @ '' '' @ statusText (finishStatus f),
              failureContext = [(''runId'', finishRun f), (''exitCode'', printInt (finishExit f))]\<rparr>))"

definition finishStatusOf :: "EnvironmentFailure option \<Rightarrow> LifecycleStatus \<Rightarrow> LifecycleStatus" where
  "finishStatusOf failure status =
     (case failure of
        None \<Rightarrow> status
      | Some f \<Rightarrow>
          if failureCode f = Cancelled then Was_cancelled
          else if failureCode f = DeadlineExceeded then Timed_out
          else if status = Succeeded then Failed else status)"

text \<open>The log line of the output unless it was reported already, the run as it ends, and the workspace then.\<close>

definition finishText :: "FinishReport \<Rightarrow> string" where
  "finishText f = sanitizeLifecycleOutput []
     (if finishOutput f \<noteq> [] then finishOutput f else joinWith [CHR 0x0A] (map resultOutput (finishResults f)))"

definition finishLog :: "FinishReport \<Rightarrow> LifecycleRun \<Rightarrow> (string \<times> string) option" where
  "finishLog f r =
     (let output = finishText f in
      if output \<noteq> [] \<and> \<not> endsWithText (runOutput r) output \<and> \<not> endsWithText output (runOutput r)
      then Some (finishRun f, output)
      else if runOutput r = [] \<and> output \<noteq> [] then Some (finishRun f, output) else None)"

definition endedRun :: "codec \<Rightarrow> FinishReport \<Rightarrow> instant \<Rightarrow> LifecycleRun \<Rightarrow> LifecycleRun" where
  "endedRun cd f now r =
     (let failure = finishFailureOf cd f r now; output = finishText f in
      r\<lparr>runStatus := finishStatusOf failure (finishStatus f), runFailure := failure, finishedAt := Some now,
        exitCode := Some (if failure \<noteq> None then (if finishExit f = 0 then 1 else finishExit f) else 0),
        runResults := map sanitizeResult (if finishResults f \<noteq> [] then finishResults f else runResults r),
        runOutput := (if output \<noteq> [] then preview output else runOutput r),
        incidents := incidents r @ (case failure of None \<Rightarrow> []
          | Some e \<Rightarrow> [\<lparr>incidentId = runId r @ '':failure'', incidentKind = Domain,
              incidentMessage = failureMessage e, occurredAt = now, incidentFailure = Some e\<rparr>])\<rparr>)"

definition endedState :: "FinishReport \<Rightarrow> instant \<Rightarrow> LifecycleRun \<Rightarrow> LifecycleState \<Rightarrow> LifecycleState" where
  "endedState f now r st =
     (let st1 = bindState (finishBindings f) r st;
          st2 = (if runStatus r = Succeeded \<and> runPhase r = Cloud_provision
            then st1\<lparr>provisioned := Some \<lparr>provisionedRun = runId r, provisionedProfile = runProfile r,
              provisionedHashes = runHashes r, provisionedMachine = runMachine r, completedAt = now\<rparr>, destroyedAt := None\<rparr>
            else st1)
      in if runStatus r = Succeeded \<and> runPhase r = Cloud_destroy
         then st2\<lparr>destroyedAt := Some now, automatic := False\<rparr> else st2)"

definition finishOp ::
    "codec \<Rightarrow> LifecycleState \<Rightarrow> LifecycleRunRecord list \<Rightarrow> LifecycleActor \<Rightarrow> instant \<Rightarrow> FinishReport \<Rightarrow> verdict fallible" where
  "finishOp cd st rs actor now f =
     (case reported st rs actor (finishRun f) of
        Inl e \<Rightarrow> Inl e
      | Inr None \<Rightarrow> Inr (Unchanged st)
      | Inr (Some found) \<Rightarrow>
          if (finishStatus f = Succeeded) \<noteq> (finishExit f = 0) then throw InvalidConfiguration
          else let r0 = addIncidents (finishIncidents f) (recordRun found); r = endedRun cd f now r0
               in Inr (decideRun (endedState f now r st) found (bindRun (finishBindings f) r) (finishLog f r0)))"

definition interruptedRun :: "string \<Rightarrow> instant \<Rightarrow> LifecycleRun \<Rightarrow> LifecycleRun" where
  "interruptedRun reason now r =
     (let message = reason @ ''; the outcome of its scripts is unknown'';
          failure = \<lparr>failureCode = Interrupted, failureMessage = message, failureContext = [(''runId'', runId r)]\<rparr>
      in r\<lparr>runStatus := Was_interrupted, finishedAt := Some now, exitCode := Some 1, runFailure := Some failure,
           incidents := incidents r @ [\<lparr>incidentId = runId r @ '':interrupted'', incidentKind = Domain,
             incidentMessage = message, occurredAt = now, incidentFailure = Some failure\<rparr>]\<rparr>)"

definition interruptOp ::
    "LifecycleState \<Rightarrow> LifecycleRunRecord list \<Rightarrow> LifecycleActor \<Rightarrow> instant \<Rightarrow> string \<Rightarrow> string \<Rightarrow> verdict fallible" where
  "interruptOp st rs actor now i reason =
     (case owned st rs i of
        Inl e \<Rightarrow> Inl e
      | Inr found \<Rightarrow>
          if \<not> lifecycleControl actor then throw PermissionDenied
          else if \<not> isLifecycleRunActive (recordRun found) then Inr (Unchanged st)
          else Inr (decideRun st found (interruptedRun reason now (recordRun found)) None))"

section \<open>The transition\<close>

fun operate ::
    "codec \<Rightarrow> LifecycleState \<Rightarrow> LifecycleRunRecord list \<Rightarrow> LifecycleActor \<Rightarrow> instant \<Rightarrow> LifecycleMutation \<Rightarrow> verdict fallible" where
  "operate cd st rs actor now (Configure json xs) = configureOp cd st json xs"
| "operate cd st rs actor now (Profile p) = profileOp cd st p"
| "operate cd st rs actor now (Value scope name v) = valueOp st scope name v"
| "operate cd st rs actor now (Approval scope h approved level) = approvalOp st actor now scope h approved level"
| "operate cd st rs actor now (Policy a) = Inr (Decide (only (st\<lparr>automatic := a\<rparr>)))"
| "operate cd st rs actor now (Claim q) = claimOp st rs actor now q"
| "operate cd st rs actor now (Start i) = startOp cd st rs actor now i"
| "operate cd st rs actor now (Cancel i) = cancelOp st rs now i"
| "operate cd st rs actor now (Append a) = appendOp st rs actor a"
| "operate cd st rs actor now (Finish f) = finishOp cd st rs actor now f"
| "operate cd st rs actor now (Interrupt i reason) = interruptOp st rs actor now i reason"

record LifecycleTransition =
  nextState :: LifecycleState
  changed :: bool
  changedRecord :: "LifecycleRunRecord option"
  replacedRecords :: "LifecycleRunRecord list"
  transitionLog :: "(string \<times> string) option"
  sharedChanged :: bool

definition applyReplaced :: "LifecycleRunRecord list \<Rightarrow> LifecycleRun list \<Rightarrow> LifecycleRun list" where
  "applyReplaced es rs = foldl (\<lambda>rs e. map (\<lambda>r. if runId r = runId (recordRun e) then recordRun e else r) rs) rs es"

fun settle :: "verdict \<Rightarrow> LifecycleTransition" where
  "settle (Unchanged st) = \<lparr>nextState = st, changed = False, changedRecord = None, replacedRecords = [],
     transitionLog = None, sharedChanged = False\<rparr>"
| "settle (Decide d) =
     (let st = decided d;
          shown = (case decidedRecord d of None \<Rightarrow> runs st
            | Some e \<Rightarrow> recordRun e # filter (\<lambda>r. runId r \<noteq> runId (recordRun e)) (runs st))
      in \<lparr>nextState = st\<lparr>runs := applyReplaced (decidedReplaced d) shown, revision := revision st + 1\<rparr>, changed = True,
          changedRecord = decidedRecord d, replacedRecords = decidedReplaced d, transitionLog = decidedLog d,
          sharedChanged = decidedShared d\<rparr>)"

definition transitionLifecycle ::
    "codec \<Rightarrow> LifecycleState \<Rightarrow> LifecycleRunRecord list \<Rightarrow> LifecycleActor \<Rightarrow> instant \<Rightarrow> LifecycleMutation
      \<Rightarrow> LifecycleTransition fallible" where
  "transitionLifecycle cd st rs actor now input =
     (if \<not> LifecycleMutationSchema input then throw InvalidConfiguration
      else if actorId actor = [] \<or> actorMachine actor = [] then throw PermissionDenied
      else (case operate cd (st\<lparr>claim := None\<rparr>) rs actor now input of Inl e \<Rightarrow> Inl e | Inr v \<Rightarrow> Inr (settle v)))"

end
