(* ===== verification/Space_Environment.thy ===== *)
theory Space_Environment
  imports Lifecycle_Transition
begin

text \<open>
  \<open>account-worker/src/space-environment.ts\<close>: \<open>SpaceEnvironmentStore\<close>, one workspace's environment
  in its object's database. The three tables are lists in rowid order; the row of
  \<open>environment_state\<close> is the stored state (its runs and claim are not stored) with the flag
  \<open>browserOriginsAvailable\<close>. What JSON prints reads back, so a row is its data; reading a row checks
  its schema, which raises \<open>Malformed\<close>. A transaction that raises leaves the store as it was. The
  promises of \<open>ended\<close> and the notifications of watching tabs are not modelled; \<open>mutate\<close> returns the
  runs whose waiters it resolves.
\<close>

section \<open>The store\<close>

record LogRow =
  logRun :: string
  logOffset :: nat
  logOutput :: string

record space_store =
  environmentState :: "(LifecycleState \<times> bool) option"
  derivedSource :: "string option"
  lifecycleRuns :: "LifecycleRunRecord list"
  lifecycleLogs :: "LogRow list"

definition emptyStore :: space_store where
  "emptyStore = \<lparr>environmentState = None, derivedSource = None, lifecycleRuns = [], lifecycleLogs = []\<rparr>"

record SharedEnvironment =
  sharedValues :: settings
  sharedApprovals :: "LifecycleApproval list"

record SharedEnvironmentChange =
  changedValues :: "(string \<times> string option) list"
  grantedApprovals :: "LifecycleApproval list"
  revokedHashes :: "string list"

record LostLifecycleHolder =
  lostMachine :: string
  lostAttachment :: "LifecycleAttachment option"

datatype storeError = Refused EnvironmentFailureCode | Malformed

type_synonym 'a answer = "storeError + 'a"

definition availableState :: "LifecycleState \<times> bool \<Rightarrow> LifecycleState" where
  "availableState s = (if snd s then fst s else (fst s)\<lparr>browserOrigins := []\<rparr>)"

definition sameApproval :: "LifecycleApproval \<Rightarrow> LifecycleApproval \<Rightarrow> bool" where
  "sameApproval a b \<longleftrightarrow>
     approvedHash a = approvedHash b \<and> approvedAt a = approvedAt b \<and> approvedBy a = approvedBy b
     \<and> approvalLevel a = approvalLevel b"

definition sharedChange :: "SharedEnvironment \<Rightarrow> SharedEnvironment \<Rightarrow> SharedEnvironmentChange option" where
  "sharedChange before after =
     (let set' = map (\<lambda>(n, v). (n, Some v)) (filter (\<lambda>(n, v). map_of (sharedValues before) n \<noteq> Some v) (sharedValues after));
          gone = map (\<lambda>(n, _). (n, None)) (filter (\<lambda>(n, _). map_of (sharedValues after) n = None) (sharedValues before));
          granted = filter (\<lambda>a. \<not> list_ex (\<lambda>e. sameApproval e a) (sharedApprovals before)) (sharedApprovals after);
          revoked = map approvedHash (filter (\<lambda>a. approvedHash a \<notin> set (map approvedHash (sharedApprovals after))) (sharedApprovals before))
      in if set' @ gone \<noteq> [] \<or> granted \<noteq> [] \<or> revoked \<noteq> []
         then Some \<lparr>changedValues = set' @ gone, grantedApprovals = granted, revokedHashes = revoked\<rparr> else None)"

section \<open>Reading\<close>

definition derivedFrom :: "space_store \<Rightarrow> string option" where
  "derivedFrom s = derivedSource s"

definition present :: "space_store \<Rightarrow> bool" where
  "present s \<longleftrightarrow> environmentState s \<noteq> None"

definition readRuns :: "space_store \<Rightarrow> LifecycleRunRecord list answer" where
  "readRuns s = (if list_all (\<lambda>e. LifecycleRunSchema (recordRun e)) (lifecycleRuns s) then Inr (lifecycleRuns s) else Inl Malformed)"

definition withShared :: "SharedEnvironment \<Rightarrow> LifecycleState \<Rightarrow> LifecycleState" where
  "withShared shared st =
     st\<lparr>stateValues := (stateValues st)\<lparr>projectValues := sharedValues shared\<rparr>,
        approvals := sharedApprovals shared @ filter (\<lambda>a. approvalScope a = Workspace) (approvals st),
        claim := None\<rparr>"

definition stored :: "space_store \<Rightarrow> string \<Rightarrow> string \<Rightarrow> SharedEnvironment \<Rightarrow> (LifecycleState \<times> bool) answer" where
  "stored s project space shared =
     (let (st, available) = orElse (environmentState s) (emptyLifecycleState project space, True) in
      if \<not> LifecycleStateSchema st then Inl Malformed
      else case readRuns s of
        Inl e \<Rightarrow> Inl e
      | Inr rs \<Rightarrow> Inr ((withShared shared st)\<lparr>runs := rev (map recordRun rs)\<rparr>, available))"

definition getEnvironment :: "space_store \<Rightarrow> string \<Rightarrow> string \<Rightarrow> SharedEnvironment \<Rightarrow> LifecycleState answer" where
  "getEnvironment s project space shared =
     (case stored s project space shared of Inl e \<Rightarrow> Inl e | Inr st \<Rightarrow> Inr (availableState st))"

definition lostRuns :: "space_store \<Rightarrow> LostLifecycleHolder \<Rightarrow> string list answer" where
  "lostRuns s holder' =
     (case readRuns s of
        Inl e \<Rightarrow> Inl e
      | Inr rs \<Rightarrow> Inr (map runId (filter (\<lambda>r. runMachine r = lostMachine holder' \<and> isLifecycleRunActive r
            \<and> (lostAttachment holder' = None \<or> runAttachment r = lostAttachment holder')) (map recordRun rs))))"

definition LOG_PAGE_SIZE :: nat where "LOG_PAGE_SIZE = 4"

record LifecycleRunLog =
  pageOutput :: string
  nextOffset :: "nat option"
  cursor :: nat

definition runLog :: "space_store \<Rightarrow> string \<Rightarrow> int \<Rightarrow> LifecycleRunLog answer" where
  "runLog s i offset =
     (if offset < 0 \<or> 9007199254740991 < offset then Inl (Refused InvalidConfiguration)
      else if \<not> list_ex (\<lambda>e. runId (recordRun e) = i) (lifecycleRuns s) then Inl (Refused NotFound)
      else let rows = take (LOG_PAGE_SIZE + 1) (sortWith (\<lambda>a b. logOffset a \<le> logOffset b)
                 (filter (\<lambda>l. logRun l = i \<and> nat offset \<le> logOffset l) (lifecycleLogs s)));
               page = take LOG_PAGE_SIZE rows
           in Inr \<lparr>pageOutput = concat (map logOutput page),
                nextOffset = (if length rows = LOG_PAGE_SIZE + 1 then Some (logOffset (rows ! LOG_PAGE_SIZE)) else None),
                cursor = (if page = [] then nat offset else logOffset (List.last page) + 1)\<rparr>)"

section \<open>Writing\<close>

definition persist :: "LifecycleState \<times> bool \<Rightarrow> space_store \<Rightarrow> space_store" where
  "persist st s = s\<lparr>environmentState := Some ((fst st)\<lparr>runs := [], claim := None\<rparr>, snd st)\<rparr>"

definition markDerived :: "string \<Rightarrow> space_store \<Rightarrow> space_store" where
  "markDerived source s = (if present s then s\<lparr>derivedSource := Some source\<rparr> else s)"

fun upsertRun :: "LifecycleRunRecord \<Rightarrow> LifecycleRunRecord list \<Rightarrow> LifecycleRunRecord list" where
  "upsertRun e [] = [e]"
| "upsertRun e (x # xs) =
     (if runId (recordRun x) = runId (recordRun e) then x\<lparr>recordRun := recordRun e\<rparr> # xs else x # upsertRun e xs)"

definition nextLogOffset :: "string \<Rightarrow> LogRow list \<Rightarrow> nat" where
  "nextLogOffset i ls = fold max (map (\<lambda>l. logOffset l + 1) (filter (\<lambda>l. logRun l = i) ls)) 0"

function logPieces :: "string \<Rightarrow> nat \<Rightarrow> string \<Rightarrow> LogRow list" where
  "logPieces i offset text =
     (if text = [] then []
      else \<lparr>logRun = i, logOffset = offset, logOutput = take LIFECYCLE_PREVIEW_LIMIT text\<rparr>
        # logPieces i (offset + 1) (drop LIFECYCLE_PREVIEW_LIMIT text))"
  by auto
termination
  by (relation "measure (\<lambda>(_, _, text). length text)") (auto simp: LIFECYCLE_PREVIEW_LIMIT_def)

declare logPieces.simps [simp del]

definition writeLog :: "(string \<times> string) option \<Rightarrow> space_store \<Rightarrow> space_store" where
  "writeLog lg s =
     (case lg of None \<Rightarrow> s
      | Some (i, output) \<Rightarrow>
          s\<lparr>lifecycleLogs := lifecycleLogs s @ logPieces i (nextLogOffset i (lifecycleLogs s)) output\<rparr>)"

text \<open>\<open>INSERT OR IGNORE\<close> of exported rows; a workspace that is present imports nothing.\<close>

definition insertRun :: "LifecycleRunRecord \<Rightarrow> LifecycleRunRecord list \<Rightarrow> LifecycleRunRecord list" where
  "insertRun e rs = (if list_ex (\<lambda>x. runId (recordRun x) = runId (recordRun e)) rs then rs else rs @ [e])"

definition insertLog :: "LogRow \<Rightarrow> LogRow list \<Rightarrow> LogRow list" where
  "insertLog l ls = (if list_ex (\<lambda>x. logRun x = logRun l \<and> logOffset x = logOffset l) ls then ls else ls @ [l])"

definition importEnvironment ::
    "string \<Rightarrow> string \<Rightarrow> LifecycleState option \<Rightarrow> LifecycleRunRecord list \<Rightarrow> LogRow list list \<Rightarrow> space_store \<Rightarrow> space_store" where
  "importEnvironment project space st rs pages s =
     (if present s then s
      else let st' = orElse st (emptyLifecycleState project space) in
        if \<not> LifecycleStateSchema st' then s
        else persist (st', True)
          (s\<lparr>lifecycleRuns := fold insertRun rs (lifecycleRuns s), lifecycleLogs := fold insertLog (concat pages) (lifecycleLogs s)\<rparr>))"

definition projectApprovals :: "LifecycleState \<Rightarrow> LifecycleApproval list" where
  "projectApprovals st = filter (\<lambda>a. approvalScope a = Project) (approvals st)"

type_synonym change = "LifecycleState \<times> SharedEnvironmentChange option"

definition setBrowserOrigins ::
    "string \<Rightarrow> string \<Rightarrow> (string \<times> string) list \<Rightarrow> SharedEnvironment \<Rightarrow> space_store \<Rightarrow> change answer \<times> space_store" where
  "setBrowserOrigins project space origins shared s =
     (if \<not> (length origins \<le> 256 \<and> list_all (\<lambda>(p, h). BrowserOriginPatternSchema p \<and> executionHashSchema h) origins)
      then (Inl Malformed, s)
      else case stored s project space shared of
        Inl e \<Rightarrow> (Inl e, s)
      | Inr (st, available) \<Rightarrow>
          if available \<and> browserOrigins st = origins then (Inr (st, None), s)
          else let retained = map snd origins;
                   removed = filter (\<lambda>h. h \<notin> set retained) (map snd (browserOrigins st));
                   st' = st\<lparr>approvals := filter (\<lambda>a. approvedHash a \<notin> set removed
                              \<or> approvalScope a = Project \<and> space \<noteq> project) (approvals st),
                            browserOrigins := origins, revision := revision st + 1\<rparr>
               in (Inr (st', sharedChange shared \<lparr>sharedValues = sharedValues shared, sharedApprovals = projectApprovals st'\<rparr>),
                   persist (st', True) s))"

definition markBrowserOriginsUnavailable ::
    "string \<Rightarrow> string \<Rightarrow> SharedEnvironment \<Rightarrow> space_store \<Rightarrow> unit answer \<times> space_store" where
  "markBrowserOriginsUnavailable project space shared s =
     (case stored s project space shared of
        Inl e \<Rightarrow> (Inl e, s)
      | Inr (st, available) \<Rightarrow>
          if \<not> available then (Inr (), s)
          else (Inr (), persist (st\<lparr>revision := revision st + 1\<rparr>, False) s))"

definition approvesElsewhere :: "string \<Rightarrow> string \<Rightarrow> LifecycleState \<Rightarrow> LifecycleMutation \<Rightarrow> bool" where
  "approvesElsewhere project space current input \<longleftrightarrow>
     (case input of
        Approval scope h approved level \<Rightarrow>
          approved \<and> scope = Project \<and> space \<noteq> project \<and> list_ex (\<lambda>(_, hash). hash = h) (browserOrigins current)
      | _ \<Rightarrow> False)"

definition changedRuns :: "LifecycleTransition \<Rightarrow> LifecycleRunRecord list" where
  "changedRuns t = (case changedRecord t of None \<Rightarrow> [] | Some e \<Rightarrow> [e]) @ replacedRecords t"

definition applyTransition :: "LifecycleTransition \<Rightarrow> LifecycleState \<times> bool \<Rightarrow> space_store \<Rightarrow> space_store" where
  "applyTransition t st s =
     persist ((nextState t)\<lparr>browserOrigins := (if snd st then browserOrigins (nextState t) else browserOrigins (fst st))\<rparr>, snd st)
       (writeLog (transitionLog t) (s\<lparr>lifecycleRuns := fold upsertRun (changedRuns t) (lifecycleRuns s)\<rparr>))"

definition mutate ::
    "codec \<Rightarrow> string \<Rightarrow> string \<Rightarrow> LifecycleMutation \<Rightarrow> LifecycleActor \<Rightarrow> SharedEnvironment \<Rightarrow> instant \<Rightarrow> space_store
      \<Rightarrow> (change \<times> LifecycleRun list) answer \<times> space_store" where
  "mutate cd project space input actor shared now s =
     (case (readRuns s, stored s project space shared) of
        (Inr rs, Inr st) \<Rightarrow>
          let current = availableState st in
          if approvesElsewhere project space current input then (Inl (Refused PermissionDenied), s)
          else (case transitionLifecycle cd current rs actor now input of
              Inl e \<Rightarrow> (Inl (Refused e), s)
            | Inr t \<Rightarrow>
                if \<not> changed t then (Inr ((nextState t, None), []), s)
                else (Inr ((nextState t,
                    if sharedChanged t then sharedChange shared \<lparr>sharedValues = projectValues (stateValues (nextState t)),
                      sharedApprovals = projectApprovals (nextState t)\<rparr> else None),
                    filter (\<lambda>r. \<not> isLifecycleRunActive r) (map recordRun (changedRuns t))),
                  applyTransition t st s))
      | _ \<Rightarrow> (Inl Malformed, s))"

end
