(* ===== verification/Lifecycle_Runs.thy ===== *)
theory Lifecycle_Runs
  imports Space_Environment
begin

text \<open>
  What the environment of a workspace promises of its runs, over \<open>Lifecycle_Transition\<close> and
  \<open>Space_Environment\<close>: every stored run moves along one small state machine, at most one run of a
  phase is current, nothing unapproved is claimed, a run that ended stays as it ended, and a run
  that succeeded did so in time and uncancelled.
\<close>

section \<open>The state machine of a run\<close>

definition sameIdentity :: "LifecycleRun \<Rightarrow> LifecycleRun \<Rightarrow> bool" where
  "sameIdentity r r' \<longleftrightarrow>
     runId r' = runId r \<and> runProject r' = runProject r \<and> runSpace r' = runSpace r \<and> runPhase r' = runPhase r
     \<and> runInteractive r' = runInteractive r \<and> runProfile r' = runProfile r \<and> runMachine r' = runMachine r
     \<and> runGeneration r' = runGeneration r \<and> runAttachment r' = runAttachment r \<and> runHashes r' = runHashes r
     \<and> terminalName r' = terminalName r \<and> startedAt r' = startedAt r \<and> deadlineAt r' = deadlineAt r"

definition current :: "LifecycleRun \<Rightarrow> bool" where
  "current r \<longleftrightarrow> isLifecycleRunActive r \<and> cancelRequestedAt r = None"

inductive runStep :: "instant \<Rightarrow> LifecycleRun \<Rightarrow> LifecycleRun \<Rightarrow> bool" for now where
  starts: "\<lbrakk>runStatus r = Accepted; current r; now < deadlineAt r; sameIdentity r r'; runStatus r' = Running;
     cancelRequestedAt r' = None; finishedAt r' = finishedAt r\<rbrakk> \<Longrightarrow> runStep now r r'"
| cancels: "\<lbrakk>current r; sameIdentity r r'; runStatus r' = Cancelling; cancelRequestedAt r' = Some now;
     finishedAt r' = finishedAt r\<rbrakk> \<Longrightarrow> runStep now r r'"
| reports: "\<lbrakk>isLifecycleRunActive r; sameIdentity r r'; runStatus r' = runStatus r;
     cancelRequestedAt r' = cancelRequestedAt r; finishedAt r' = finishedAt r\<rbrakk> \<Longrightarrow> runStep now r r'"
| ends: "\<lbrakk>isLifecycleRunActive r; sameIdentity r r'; \<not> isLifecycleRunActive r';
     cancelRequestedAt r' = cancelRequestedAt r; finishedAt r' = Some now;
     runStatus r' = Succeeded \<Longrightarrow> cancelRequestedAt r = None \<and> now < deadlineAt r\<rbrakk> \<Longrightarrow> runStep now r r'"

lemma runStep_active: "runStep now r r' \<Longrightarrow> isLifecycleRunActive r"
  by (cases rule: runStep.cases) (auto simp: current_def)

lemma runStep_identity: "runStep now r r' \<Longrightarrow> sameIdentity r r'"
  by (cases rule: runStep.cases) auto

lemma sameIdentity_refl [simp]: "sameIdentity r r"
  by (simp add: sameIdentity_def)

lemma sameIdentity_trans: "sameIdentity r r' \<Longrightarrow> sameIdentity r' r'' \<Longrightarrow> sameIdentity r r''"
  by (simp add: sameIdentity_def)

section \<open>What an operation decides about runs\<close>

lemma owned_found:
  assumes "owned st rs i = Inr e"
  shows "e \<in> set rs" and "runId (recordRun e) = i" and "runSpace (recordRun e) = spaceId st"
  using assms by (auto simp: owned_def split: option.splits dest!: iffD1 [OF find_Some_iff])

lemma reported_found:
  assumes "reported st rs actor i = Inr (Some e)"
  shows "e \<in> set rs" and "runId (recordRun e) = i" and "runSpace (recordRun e) = spaceId st"
    and "isLifecycleRunActive (recordRun e)" and "runMachine (recordRun e) = actorMachine actor"
  using assms owned_found [of st rs i]
  by (auto simp: reported_def split: sum.splits if_splits)

lemma addIncidents_run [simp]:
  "runId (addIncidents a r) = runId r" "runPhase (addIncidents a r) = runPhase r" "runStatus (addIncidents a r) = runStatus r"
  "cancelRequestedAt (addIncidents a r) = cancelRequestedAt r" "finishedAt (addIncidents a r) = finishedAt r"
  "deadlineAt (addIncidents a r) = deadlineAt r" "runAttachment (addIncidents a r) = runAttachment r"
  "sameIdentity s (addIncidents a r) = sameIdentity s r"
  by (auto simp: addIncidents_def sameIdentity_def split: option.splits)

lemma bindRun_run [simp]:
  "runStatus (bindRun bs r) = runStatus r" "cancelRequestedAt (bindRun bs r) = cancelRequestedAt r"
  "finishedAt (bindRun bs r) = finishedAt r" "sameIdentity s (bindRun bs r) = sameIdentity s r"
  "runId (bindRun bs r) = runId r"
  by (auto simp: bindRun_def sameIdentity_def)

lemma cancelRun_run [simp]:
  "runStatus (cancelRun now r) = Cancelling" "cancelRequestedAt (cancelRun now r) = Some now"
  "finishedAt (cancelRun now r) = finishedAt r" "sameIdentity r (cancelRun now r)" "runId (cancelRun now r) = runId r"
  by (auto simp: cancelRun_def sameIdentity_def)

definition movesRun :: "LifecycleState \<Rightarrow> LifecycleRunRecord list \<Rightarrow> instant \<Rightarrow> LifecycleRunRecord \<Rightarrow> bool" where
  "movesRun st rs now e' \<longleftrightarrow>
     (\<exists>e \<in> set rs. runSpace (recordRun e) = spaceId st \<and> recordScope e' = recordScope e \<and> runStep now (recordRun e) (recordRun e'))"

lemma startOp_moves:
  assumes "startOp cd st rs actor now i = Inr (Decide d)"
  shows "\<exists>e'. decidedRecord d = Some e' \<and> movesRun st rs now e' \<and> decidedReplaced d = []"
proof -
  from assms obtain e where e: "reported st rs actor i = Inr (Some e)" "runStatus (recordRun e) = Accepted"
      "lifecycleStopReason cd (recordRun e) now = None"
      and d: "Decide d = decideRun st e ((recordRun e)\<lparr>runStatus := Running\<rparr>) None"
    by (auto simp: startOp_def split: sum.splits option.splits if_splits)
  have "runStep now (recordRun e) ((recordRun e)\<lparr>runStatus := Running\<rparr>)"
    by (rule runStep.starts)
      (use e reported_found [OF e(1)] in \<open>auto simp: current_def sameIdentity_def lifecycleStopReason_def split: if_splits\<close>)
  then show ?thesis using reported_found [OF e(1)] d unfolding movesRun_def by auto
qed

lemma cancelOp_moves:
  assumes "cancelOp st rs now i = Inr (Decide d)"
  shows "\<exists>e'. decidedRecord d = Some e' \<and> movesRun st rs now e' \<and> decidedReplaced d = []"
proof -
  from assms obtain e where e: "owned st rs i = Inr e" "current (recordRun e)"
      and d: "Decide d = decideRun st e (cancelRun now (recordRun e)) None"
    by (auto simp: cancelOp_def current_def split: sum.splits if_splits)
  have "runStep now (recordRun e) (cancelRun now (recordRun e))"
    by (rule runStep.cancels) (use e in auto)
  then show ?thesis using owned_found [OF e(1)] d unfolding movesRun_def by auto
qed

lemma appendOp_moves:
  assumes "appendOp st rs actor a = Inr (Decide d)"
  shows "\<exists>e'. decidedRecord d = Some e' \<and> movesRun st rs now e' \<and> decidedReplaced d = []"
proof -
  from assms obtain e r lg st' where e: "reported st rs actor (appendRun a) = Inr (Some e)"
      and d: "Decide d = decideRun st' e r lg"
      and r: "sameIdentity (recordRun e) r" "runStatus r = runStatus (recordRun e)"
        "cancelRequestedAt r = cancelRequestedAt (recordRun e)" "finishedAt r = finishedAt (recordRun e)"
    by (fastforce simp: appendOp_def Let_def sameIdentity_def bindRun_def addIncidents_def split: sum.splits option.splits if_splits)
  have "runStep now (recordRun e) r"
    by (rule runStep.reports) (use e reported_found [OF e] r in auto)
  then show ?thesis using reported_found [OF e] d unfolding movesRun_def by auto
qed

lemma finishStatusOf_ends:
  assumes "s \<in> set [Succeeded, Failed, Was_cancelled, Timed_out, Was_interrupted]"
  shows "finishStatusOf failure s \<in> set [Succeeded, Failed, Was_cancelled, Timed_out, Was_interrupted]"
  using assms by (auto simp: finishStatusOf_def split: option.splits)

lemma finishStatusOf_succeeded: "finishStatusOf failure s = Succeeded \<longleftrightarrow> failure = None \<and> s = Succeeded"
  by (auto simp: finishStatusOf_def split: option.splits)

lemma finishFailureOf_None:
  "finishFailureOf cd f r now = None \<longleftrightarrow>
     cancelRequestedAt r = None \<and> now < deadlineAt r \<and> finishFailure f = None \<and> finishStatus f = Succeeded"
  by (auto simp: finishFailureOf_def lifecycleStopReason_def split: option.splits)

lemma endedRun_run [simp]:
  "sameIdentity s (endedRun cd f now r) = sameIdentity s r" "runId (endedRun cd f now r) = runId r"
  "cancelRequestedAt (endedRun cd f now r) = cancelRequestedAt r" "finishedAt (endedRun cd f now r) = Some now"
  "runStatus (endedRun cd f now r) = finishStatusOf (finishFailureOf cd f r now) (finishStatus f)"
  by (simp_all add: endedRun_def Let_def sameIdentity_def)

lemma finishOp_run:
  assumes "finishOp cd st rs actor now f = Inr (Decide d)"
  obtains e where "reported st rs actor (finishRun f) = Inr (Some e)"
    "decidedRecord d = Some (e\<lparr>recordRun := bindRun (finishBindings f) (endedRun cd f now (addIncidents (finishIncidents f) (recordRun e)))\<rparr>)"
    "decidedReplaced d = []"
  using assms by (auto simp: finishOp_def Let_def split: sum.splits option.splits if_splits)

text \<open>A schema-valid report ends the run, and as a success only in time and uncancelled.\<close>

lemma endedRun_step:
  assumes "isLifecycleRunActive r" and "finishStatus f \<in> set [Succeeded, Failed, Was_cancelled, Timed_out, Was_interrupted]"
  shows "runStep now r (bindRun bs (endedRun cd f now (addIncidents a r)))" (is "runStep now r ?r'")
proof (rule runStep.ends)
  show "isLifecycleRunActive r" by fact
  show "\<not> isLifecycleRunActive ?r'"
    using finishStatusOf_ends [OF assms(2), of "finishFailureOf cd f (addIncidents a r) now"]
    by (auto simp: isLifecycleRunActive_def)
  show "runStatus ?r' = Succeeded \<Longrightarrow> cancelRequestedAt r = None \<and> now < deadlineAt r"
    by (simp add: finishStatusOf_succeeded finishFailureOf_None)
qed simp_all

lemma finishOp_moves:
  assumes "finishOp cd st rs actor now f = Inr (Decide d)" and "LifecycleMutationSchema (Finish f)"
  shows "\<exists>e'. decidedRecord d = Some e' \<and> movesRun st rs now e' \<and> decidedReplaced d = []"
  using assms(1)
proof (rule finishOp_run)
  fix e assume e: "reported st rs actor (finishRun f) = Inr (Some e)"
    and d: "decidedRecord d = Some (e\<lparr>recordRun := bindRun (finishBindings f) (endedRun cd f now (addIncidents (finishIncidents f) (recordRun e)))\<rparr>)"
      "decidedReplaced d = []"
  have "runStep now (recordRun e) (bindRun (finishBindings f) (endedRun cd f now (addIncidents (finishIncidents f) (recordRun e))))"
    by (rule endedRun_step) (use reported_found [OF e] assms(2) in auto)
  then show ?thesis using reported_found [OF e] d unfolding movesRun_def by auto
qed

lemma interruptedRun_run [simp]:
  "sameIdentity r (interruptedRun reason now r)" "runId (interruptedRun reason now r) = runId r"
  "cancelRequestedAt (interruptedRun reason now r) = cancelRequestedAt r" "finishedAt (interruptedRun reason now r) = Some now"
  "runStatus (interruptedRun reason now r) = Was_interrupted"
  by (simp_all add: interruptedRun_def Let_def sameIdentity_def)

lemma interruptOp_moves:
  assumes "interruptOp st rs actor now i reason = Inr (Decide d)"
  shows "\<exists>e'. decidedRecord d = Some e' \<and> movesRun st rs now e' \<and> decidedReplaced d = []"
proof -
  from assms obtain e where e: "owned st rs i = Inr e" "isLifecycleRunActive (recordRun e)"
      and d: "Decide d = decideRun st e (interruptedRun reason now (recordRun e)) None"
    by (auto simp: interruptOp_def split: sum.splits if_splits)
  have "runStep now (recordRun e) (interruptedRun reason now (recordRun e))"
    by (rule runStep.ends) (use e in \<open>auto simp: isLifecycleRunActive_def\<close>)
  then show ?thesis using owned_found [OF e(1)] d unfolding movesRun_def by auto
qed

text \<open>A claim decides a run no stored run has the identity of, and cancels the current runs of its phase.\<close>

definition admits :: "LifecycleState \<Rightarrow> LifecycleRunRecord list \<Rightarrow> instant \<Rightarrow> ClaimRequest \<Rightarrow> bool" where
  "admits st rs now q \<longleftrightarrow>
     List.find (\<lambda>e. runId (recordRun e) = requestRun q) rs = None
     \<and> set (claimedHashes st q) \<subseteq> set (approvedHashes st)
     \<and> \<not> (requestPhase q = Checks \<and> truthy (requestInteractive q)) \<and> now < claimDeadline now q"

lemma claimOp_claims:
  assumes "claimOp st rs actor now q = Inr (Decide d)"
  shows "d = claimDecision st rs actor now q" and "admits st rs now q"
  using assms by (auto simp: claimOp_def admits_def list_ex_iff split: option.splits if_splits)

lemma operate_effect:
  assumes "operate cd st rs actor now input = Inr (Decide d)" and "LifecycleMutationSchema input"
  obtains (configures) "decidedRecord d = None" "decidedReplaced d = []"
    | (moves) e where "decidedRecord d = Some e" "decidedReplaced d = []" "movesRun st rs now e"
    | (claims) q where "input = Claim q" "d = claimDecision st rs actor now q" "admits st rs now q"
proof (cases input)
  case (Configure x1 x2)
  then show ?thesis using assms configures by (auto simp: configureOp_def split: sum.splits option.splits)
next
  case (Profile x)
  then show ?thesis using assms configures by (auto simp: profileOp_def split: sum.splits if_splits)
next
  case (Value scope n v)
  then show ?thesis using assms configures by (cases scope) auto
next
  case (Approval a b c e)
  then show ?thesis using assms configures by (auto simp: approvalOp_def Let_def split: if_splits)
next
  case (Policy x)
  then show ?thesis using assms configures by auto
next
  case (Claim q)
  then show ?thesis using assms claims claimOp_claims [of st rs actor now q d] by auto
next
  case (Append a)
  then show ?thesis using assms moves appendOp_moves [of st rs actor a d now] by auto
next
  case (Finish f)
  then show ?thesis using assms moves finishOp_moves [of cd st rs actor now f d] by auto
next
  case (Start i)
  then show ?thesis using assms moves startOp_moves [of cd st rs actor now i d] by auto
next
  case (Cancel i)
  then show ?thesis using assms moves cancelOp_moves [of st rs now i d] by auto
next
  case (Interrupt i reason)
  then show ?thesis using assms moves interruptOp_moves [of st rs actor now i reason d] by auto
qed

section \<open>The stored runs\<close>

definition runOf :: "LifecycleRunRecord list \<Rightarrow> string \<Rightarrow> LifecycleRun option" where
  "runOf rs i = map_option recordRun (List.find (\<lambda>e. runId (recordRun e) = i) rs)"

abbreviation runIds :: "LifecycleRunRecord list \<Rightarrow> string list" where
  "runIds rs \<equiv> map (\<lambda>e. runId (recordRun e)) rs"

lemma runOf_simps [simp]:
  "runOf [] i = None"
  "runOf (e # rs) i = (if runId (recordRun e) = i then Some (recordRun e) else runOf rs i)"
  "runOf (xs @ ys) i = (case runOf xs i of None \<Rightarrow> runOf ys i | Some r \<Rightarrow> Some r)"
  by (auto simp: runOf_def find_append split: option.splits)

lemma runOf_id: "runOf rs i = Some r \<Longrightarrow> runId r = i"
  by (induction rs) (auto split: if_splits)

lemma runOf_None: "runOf rs i = None \<longleftrightarrow> i \<notin> set (runIds rs)"
  by (induction rs) auto

lemma runOf_iff: "distinct (runIds rs) \<Longrightarrow> runOf rs i = Some r \<longleftrightarrow> (\<exists>e \<in> set rs. recordRun e = r \<and> runId r = i)"
  by (induction rs) (auto simp: image_iff)

lemma runOf_upsert [simp]:
  "runOf (upsertRun e rs) i = (if runId (recordRun e) = i then Some (recordRun e) else runOf rs i)"
  by (induction rs) auto

lemma runIds_upsert:
  "runIds (upsertRun e rs) = (if runId (recordRun e) \<in> set (runIds rs) then runIds rs else runIds rs @ [runId (recordRun e)])"
  by (induction rs) auto

lemma distinct_upsert: "distinct (runIds rs) \<Longrightarrow> distinct (runIds (upsertRun e rs))"
  by (simp only: runIds_upsert) auto

lemma distinct_upserts: "distinct (runIds rs) \<Longrightarrow> distinct (runIds (fold upsertRun es rs))"
  by (induction es arbitrary: rs) (simp_all add: distinct_upsert del: map_map)

lemma runOf_upserts:
  "runOf (fold upsertRun es rs) i = (case runOf (rev es) i of None \<Rightarrow> runOf rs i | Some r \<Rightarrow> Some r)"
  by (induction es arbitrary: rs) (auto split: option.splits)

abbreviation cancelRecord :: "instant \<Rightarrow> LifecycleRunRecord \<Rightarrow> LifecycleRunRecord" where
  "cancelRecord now e \<equiv> e\<lparr>recordRun := cancelRun now (recordRun e)\<rparr>"

definition replacesRun :: "LifecycleState \<Rightarrow> ClaimRequest \<Rightarrow> LifecycleRun \<Rightarrow> bool" where
  "replacesRun st q r \<longleftrightarrow> runSpace r = spaceId st \<and> runPhase r = requestPhase q \<and> current r"

lemma replaces_run: "replaces st q e \<longleftrightarrow> replacesRun st q (recordRun e)"
  by (auto simp: replaces_def replacesRun_def current_def)

lemma runOf_cancelled:
  assumes "distinct (runIds rs)"
  shows "runOf (rev (map (cancelRecord now) (filter (replaces st q) rs))) i =
    (case runOf rs i of None \<Rightarrow> None | Some r \<Rightarrow> if replacesRun st q r then Some (cancelRun now r) else None)"
    (is "runOf ?cs i = _")
proof (cases "runOf ?cs i")
  case None
  show ?thesis
  proof (cases "runOf rs i")
    case (Some r)
    then have "\<not> replacesRun st q r" using None runOf_iff [OF assms]
      by (auto simp: runOf_None replaces_run image_iff)
    then show ?thesis using None Some by simp
  qed (simp add: None)
next
  case (Some r')
  have d: "distinct (runIds ?cs)"
    using assms by (simp add: rev_map [symmetric] comp_def distinct_map_filter)
  obtain c where c: "c \<in> set ?cs" "recordRun c = r'" "runId r' = i"
    using iffD1 [OF runOf_iff [OF d] Some] by blast
  obtain e where "e \<in> set rs" "replaces st q e" "c = cancelRecord now e"
    using c(1) by (simp only: set_rev set_map set_filter) blast
  moreover from this c(2) have "r' = cancelRun now (recordRun e)" by simp
  moreover from this c(3) have "runId (recordRun e) = i" by simp
  ultimately have "runOf rs i = Some (recordRun e)" "replacesRun st q (recordRun e)"
    using runOf_iff [OF assms] by (auto simp: replaces_run)
  then show ?thesis using Some \<open>r' = _\<close> by simp
qed

subsection \<open>What a mutation does to the store\<close>

definition recordsOf :: "decision \<Rightarrow> LifecycleRunRecord list" where
  "recordsOf d = (case decidedRecord d of None \<Rightarrow> [] | Some e \<Rightarrow> [e]) @ decidedReplaced d"

lemma lifecycleRuns_applyTransition [simp]:
  "lifecycleRuns (applyTransition (settle (Decide d)) st s) = fold upsertRun (recordsOf d) (lifecycleRuns s)"
  by (simp add: applyTransition_def persist_def writeLog_def changedRuns_def recordsOf_def Let_def split: option.splits)

lemma mutate_store:
  assumes "mutate cd project space input actor shared now s = (ans, s')"
  obtains (same) "s' = s"
    | (changes) st d where "stored s project space shared = Inr st" "LifecycleMutationSchema input"
        "operate cd ((availableState st)\<lparr>claim := None\<rparr>) (lifecycleRuns s) actor now input = Inr (Decide d)"
        "s' = applyTransition (settle (Decide d)) st s"
proof (cases "s' = s")
  case False
  from assms False obtain rs st t where r: "readRuns s = Inr rs" and st: "stored s project space shared = Inr st"
      and t: "transitionLifecycle cd (availableState st) rs actor now input = Inr t" "changed t"
      and s': "s' = applyTransition t st s"
    by (auto simp: mutate_def Let_def split: sum.splits if_splits)
  from t obtain v where v: "operate cd ((availableState st)\<lparr>claim := None\<rparr>) rs actor now input = Inr v" "t = settle v"
      "LifecycleMutationSchema input"
    by (auto simp: transitionLifecycle_def split: if_splits sum.splits)
  obtain d where "v = Decide d" using t(2) v(2) by (cases v) auto
  moreover have "rs = lifecycleRuns s" using r by (auto simp: readRuns_def split: if_splits)
  ultimately show ?thesis using changes st v s' by simp
qed (rule same)

section \<open>Every run moves along the state machine\<close>

definition belongs :: "string \<Rightarrow> string \<Rightarrow> space_store \<Rightarrow> bool" where
  "belongs project space s \<longleftrightarrow>
     (case environmentState s of None \<Rightarrow> True | Some (st, _) \<Rightarrow> projectId st = project \<and> spaceId st = space)
     \<and> list_all (\<lambda>e. runSpace (recordRun e) = space) (lifecycleRuns s)
     \<and> distinct (runIds (lifecycleRuns s))"

lemma stored_identity:
  assumes "stored s project space shared = Inr st" and "belongs project space s"
  shows "spaceId (fst st) = space" and "projectId (fst st) = project"
  using assms by (auto simp: stored_def withShared_def belongs_def orElse_def emptyLifecycleState_def Let_def
      split: option.splits if_splits sum.splits)

lemma availableState_identity [simp]:
  "spaceId (availableState st) = spaceId (fst st)" "projectId (availableState st) = projectId (fst st)"
  "approvals (availableState st) = approvals (fst st)" "executions (availableState st) = executions (fst st)"
  by (simp_all add: availableState_def)

lemma bindState_identity [simp]:
  "spaceId (bindState bs r st) = spaceId st" "projectId (bindState bs r st) = projectId st"
  by (simp_all add: bindState_def)

lemma endedState_identity [simp]:
  "spaceId (endedState f now r st) = spaceId st" "projectId (endedState f now r st) = projectId st"
  by (simp_all add: endedState_def Let_def)

lemma operate_identity:
  assumes "operate cd st rs actor now input = Inr (Decide d)"
  shows "spaceId (decided d) = spaceId st \<and> projectId (decided d) = projectId st"
proof (cases input)
  case (Value scope n v)
  then show ?thesis using assms by (cases scope) auto
next
  case (Append a)
  then show ?thesis using assms by (auto simp: appendOp_def Let_def split: sum.splits option.splits)
qed (use assms in \<open>auto simp: configureOp_def profileOp_def approvalOp_def claimOp_def claimDecision_def startOp_def cancelOp_def
    finishOp_def interruptOp_def Let_def split: sum.splits option.splits if_splits\<close>)

lemma mutate_runs:
  assumes "mutate cd project space input actor shared now s = (ans, s')" and "belongs project space s"
  obtains (same) "\<And>i. runOf (lifecycleRuns s') i = runOf (lifecycleRuns s) i"
    | (moves) r r' where "runOf (lifecycleRuns s) (runId r) = Some r" "runStep now r r'"
        "\<And>i. runOf (lifecycleRuns s') i = (if i = runId r then Some r' else runOf (lifecycleRuns s) i)"
    | (claims) q st skipped where "spaceId st = space" "input = Claim q"
        "\<exists>env. getEnvironment s project space shared = Inr env \<and> st = env\<lparr>claim := None\<rparr>"
        "set (claimedHashes st q) \<subseteq> set (approvedHashes st)" "now < claimDeadline now q"
        "runOf (lifecycleRuns s) (requestRun q) = None"
        "\<And>i. runOf (lifecycleRuns s') i =
           (if i = requestRun q then Some (newRun st actor now (claimDeadline now q) skipped q)
            else map_option (\<lambda>r. if \<not> skipped \<and> replacesRun st q r then cancelRun now r else r) (runOf (lifecycleRuns s) i))"
  using assms(1)
proof (rule mutate_store)
  assume "s' = s"
  then show thesis by (intro same) simp
next
  fix st d
  assume st: "stored s project space shared = Inr st" and "LifecycleMutationSchema input"
    and op: "operate cd ((availableState st)\<lparr>claim := None\<rparr>) (lifecycleRuns s) actor now input = Inr (Decide d)"
    and s': "s' = applyTransition (settle (Decide d)) st s"
  let ?st = "(availableState st)\<lparr>claim := None\<rparr>"
  have distinct: "distinct (runIds (lifecycleRuns s))" using assms(2) by (simp add: belongs_def)
  have space: "spaceId ?st = space" using stored_identity [OF st assms(2)] by simp
  have after: "runOf (lifecycleRuns s') i = (case runOf (rev (recordsOf d)) i of None \<Rightarrow> runOf (lifecycleRuns s) i | Some r \<Rightarrow> Some r)" for i
    by (simp add: s' runOf_upserts del: settle.simps)
  show thesis using op \<open>LifecycleMutationSchema input\<close>
  proof (rule operate_effect)
    assume "decidedRecord d = None" "decidedReplaced d = []"
    then show thesis using after by (intro same) (simp add: recordsOf_def)
  next
    fix e' assume e': "decidedRecord d = Some e'" "decidedReplaced d = []" "movesRun ?st (lifecycleRuns s) now e'"
    then obtain e where e: "e \<in> set (lifecycleRuns s)" "runStep now (recordRun e) (recordRun e')"
      by (auto simp: movesRun_def)
    have "runId (recordRun e') = runId (recordRun e)"
      using runStep_identity [OF e(2)] by (simp add: sameIdentity_def)
    then show thesis using e e' after runOf_iff [OF distinct]
      by (intro moves [of "recordRun e" "recordRun e'"]) (auto simp: recordsOf_def)
  next
    fix q assume "input = Claim q" and d: "d = claimDecision ?st (lifecycleRuns s) actor now q"
      and admits: "admits ?st (lifecycleRuns s) now q"
    let ?skipped = "alreadyDone ?st (lifecycleRuns s) q (claimScope ?st actor q)"
    have none: "runOf (lifecycleRuns s) (requestRun q) = None" using admits by (simp add: admits_def runOf_def)
    have cancelled: "runOf (rev (decidedReplaced d)) i = (case runOf (lifecycleRuns s) i of None \<Rightarrow> None
        | Some r \<Rightarrow> if \<not> ?skipped \<and> replacesRun ?st q r then Some (cancelRun now r) else None)" for i
      using runOf_cancelled [OF distinct, of now ?st q i]
      by (auto simp: d claimDecision_def Let_def split: option.splits)
    show thesis
    proof (rule claims [of ?st q ?skipped])
      show "runOf (lifecycleRuns s') i =
        (if i = requestRun q then Some (newRun ?st actor now (claimDeadline now q) ?skipped q)
         else map_option (\<lambda>r. if \<not> ?skipped \<and> replacesRun ?st q r then cancelRun now r else r) (runOf (lifecycleRuns s) i))" for i
        using after [of i] cancelled [of i] none
        by (auto simp: recordsOf_def d claimDecision_def Let_def newRun_def split: option.splits)
      show "\<exists>env. getEnvironment s project space shared = Inr env \<and> ?st = env\<lparr>claim := None\<rparr>"
        by (simp add: getEnvironment_def st)
    qed (use admits space none \<open>input = Claim q\<close> in \<open>auto simp: admits_def\<close>)
  qed
qed

section \<open>What every sequence of operations keeps\<close>

datatype storeOp =
    Mutate LifecycleMutation LifecycleActor SharedEnvironment instant
  | SetOrigins "(string \<times> string) list" SharedEnvironment
  | LoseOrigins SharedEnvironment
  | MarkDerived string

fun performOp :: "codec \<Rightarrow> string \<Rightarrow> string \<Rightarrow> space_store \<Rightarrow> storeOp \<Rightarrow> space_store" where
  "performOp cd project space s (Mutate input actor shared now) = snd (mutate cd project space input actor shared now s)"
| "performOp cd project space s (SetOrigins origins shared) = snd (setBrowserOrigins project space origins shared s)"
| "performOp cd project space s (LoseOrigins shared) = snd (markBrowserOriginsUnavailable project space shared s)"
| "performOp cd project space s (MarkDerived source) = markDerived source s"

definition consistentRun :: "LifecycleRun \<Rightarrow> bool" where
  "consistentRun r \<longleftrightarrow>
     (runStatus r = Succeeded \<longrightarrow>
        cancelRequestedAt r = None \<and> (case finishedAt r of None \<Rightarrow> False | Some t \<Rightarrow> t < deadlineAt r))"

definition currentRuns :: "LifecycleRunPhase \<Rightarrow> LifecycleRunRecord list \<Rightarrow> LifecycleRun list" where
  "currentRuns phase rs = filter (\<lambda>r. current r \<and> runPhase r = phase) (map recordRun rs)"

definition oneCurrent :: "LifecycleRunRecord list \<Rightarrow> bool" where
  "oneCurrent rs \<longleftrightarrow> list_all (\<lambda>phase. length (currentRuns phase rs) \<le> 1) (Checks # LIFECYCLE_PHASES)"

definition soundRuns :: "string \<Rightarrow> string \<Rightarrow> space_store \<Rightarrow> bool" where
  "soundRuns project space s \<longleftrightarrow>
     belongs project space s \<and> list_all (\<lambda>e. consistentRun (recordRun e)) (lifecycleRuns s) \<and> oneCurrent (lifecycleRuns s)"

lemma oneCurrent_iff:
  assumes "distinct (runIds rs)"
  shows "oneCurrent rs \<longleftrightarrow>
    (\<forall>i j r r'. runOf rs i = Some r \<and> runOf rs j = Some r' \<and> current r \<and> current r' \<and> runPhase r = runPhase r' \<longrightarrow> i = j)"
    (is "_ \<longleftrightarrow> ?unique")
proof
  assume one: "oneCurrent rs"
  have all: "length (currentRuns phase rs) \<le> 1" for phase
    using one by (cases phase) (auto simp: oneCurrent_def LIFECYCLE_PHASES_def)
  have two: "xs = [x]" if "x \<in> set xs" "length xs \<le> 1" for x :: LifecycleRun and xs
    using that by (cases xs) auto
  show ?unique
  proof (intro allI impI, elim conjE)
    fix i j r r'
    assume i: "runOf rs i = Some r" and j: "runOf rs j = Some r'" and c: "current r" "current r'" "runPhase r = runPhase r'"
    have "r \<in> set (currentRuns (runPhase r) rs)" "r' \<in> set (currentRuns (runPhase r) rs)"
      using i j c iffD1 [OF runOf_iff [OF assms] i] iffD1 [OF runOf_iff [OF assms] j] by (auto simp: currentRuns_def)
    then have "r = r'" using two [OF _ all [of "runPhase r"]] by (metis list.inject)
    then show "i = j" using runOf_id [OF i] runOf_id [OF j] by simp
  qed
next
  assume u: ?unique
  have "length (currentRuns phase rs) \<le> 1" for phase
  proof (rule ccontr)
    assume "\<not> length (currentRuns phase rs) \<le> 1"
    then obtain a b more where ab: "currentRuns phase rs = a # b # more"
      by (cases "currentRuns phase rs"; cases "tl (currentRuns phase rs)") auto
    have "distinct (map runId (currentRuns phase rs))"
      using assms by (simp add: currentRuns_def distinct_map_filter comp_def)
    moreover have "runId a = runId b"
    proof -
      have in_rs: "runOf rs (runId r) = Some r" if "r \<in> set (currentRuns phase rs)" for r
        using that runOf_iff [OF assms] by (auto simp: currentRuns_def)
      have "a \<in> set (currentRuns phase rs)" "b \<in> set (currentRuns phase rs)" by (simp_all add: ab)
      then have "current a" "current b" "runPhase a = runPhase b" by (auto simp: currentRuns_def)
      with u show ?thesis using in_rs \<open>a \<in> _\<close> \<open>b \<in> _\<close> by blast
    qed
    ultimately show False by (simp add: ab)
  qed
  then show "oneCurrent rs" by (simp add: oneCurrent_def list_all_iff)
qed

lemma runsOf_all: "distinct (runIds rs) \<Longrightarrow> list_all (\<lambda>e. P (recordRun e)) rs \<longleftrightarrow> (\<forall>i r. runOf rs i = Some r \<longrightarrow> P r)"
  using runOf_iff [of rs] by (auto simp: list_all_iff)

lemma persist_simps [simp]:
  "lifecycleRuns (persist st s) = lifecycleRuns s"
  "environmentState (persist st s) = Some ((fst st)\<lparr>runs := [], claim := None\<rparr>, snd st)"
  by (simp_all add: persist_def)

lemma belongs_mutate:
  assumes "belongs project space s" and m: "mutate cd project space input actor shared now s = (ans, s')"
  shows "belongs project space s'"
proof -
  have "belongs project space s' \<or> s' = s" if d: "distinct (runIds (lifecycleRuns s'))"
      "list_all (\<lambda>e. runSpace (recordRun e) = space) (lifecycleRuns s')"
    using m
  proof (rule mutate_store)
    fix st d'
    assume st: "stored s project space shared = Inr st"
      and op: "operate cd ((availableState st)\<lparr>claim := None\<rparr>) (lifecycleRuns s) actor now input = Inr (Decide d')"
      and s': "s' = applyTransition (settle (Decide d')) st s"
    then have "environmentState s' = Some (((nextState (settle (Decide d')))\<lparr>browserOrigins :=
        (if snd st then browserOrigins (nextState (settle (Decide d'))) else browserOrigins (fst st))\<rparr>)\<lparr>runs := [], claim := None\<rparr>, snd st)"
      by (simp add: applyTransition_def)
    then have "case environmentState s' of None \<Rightarrow> True | Some (st, _) \<Rightarrow> projectId st = project \<and> spaceId st = space"
      using stored_identity [OF st assms(1)] operate_identity [OF op] by (simp add: Let_def)
    with d show ?thesis by (simp add: belongs_def)
  qed simp
  moreover have "distinct (runIds (lifecycleRuns s'))" using m
  proof (rule mutate_store)
    fix st d assume "s' = applyTransition (settle (Decide d)) st s"
    then show ?thesis using assms(1) distinct_upserts by (simp add: belongs_def del: map_map settle.simps)
  qed (use assms(1) in \<open>simp add: belongs_def\<close>)
  moreover have "\<forall>i r. runOf (lifecycleRuns s') i = Some r \<longrightarrow> runSpace r = space"
  proof -
    have d: "distinct (runIds (lifecycleRuns s))" using assms(1) by (simp add: belongs_def)
    have sp: "\<forall>i r. runOf (lifecycleRuns s) i = Some r \<longrightarrow> runSpace r = space"
      using assms(1) runsOf_all [OF d, of "\<lambda>r. runSpace r = space"] by (simp add: belongs_def)
    show "\<forall>i r. runOf (lifecycleRuns s') i = Some r \<longrightarrow> runSpace r = space"
      using m assms(1)
    proof (rule mutate_runs)
      assume "\<And>i. runOf (lifecycleRuns s') i = runOf (lifecycleRuns s) i"
      then show ?thesis using sp by simp
    next
      fix r r' assume "runOf (lifecycleRuns s) (runId r) = Some r" "runStep now r r'"
        "\<And>i. runOf (lifecycleRuns s') i = (if i = runId r then Some r' else runOf (lifecycleRuns s) i)"
      then show ?thesis using sp runStep_identity [of now r r'] by (auto simp: sameIdentity_def)
    next
      fix q st skipped assume "spaceId st = space" "\<And>i. runOf (lifecycleRuns s') i =
           (if i = requestRun q then Some (newRun st actor now (claimDeadline now q) skipped q)
            else map_option (\<lambda>r. if \<not> skipped \<and> replacesRun st q r then cancelRun now r else r) (runOf (lifecycleRuns s) i))"
      then show ?thesis using sp by (auto simp: newRun_def cancelRun_def)
    qed
  qed
  ultimately show ?thesis
    using assms(1) runsOf_all [of "lifecycleRuns s'" "\<lambda>r. runSpace r = space"] by auto
qed

lemma runStep_current: "runStep now r r' \<Longrightarrow> current r' \<Longrightarrow> current r \<and> runPhase r' = runPhase r"
  using runStep_identity [of now r r'] by (auto simp: current_def sameIdentity_def elim: runStep.cases)

lemma runStep_consistent: "runStep now r r' \<Longrightarrow> consistentRun r'"
  by (cases rule: runStep.cases) (auto simp: consistentRun_def current_def isLifecycleRunActive_def sameIdentity_def)

lemma newRun_consistent: "now < deadline \<Longrightarrow> consistentRun (newRun st actor now deadline skipped q)"
  by (simp add: consistentRun_def newRun_def)

lemma cancelRun_consistent: "consistentRun (cancelRun now r)"
  by (simp add: consistentRun_def)

lemma sound_mutate:
  assumes s: "soundRuns project space s" and m: "mutate cd project space input actor shared now s = (ans, s')"
  shows "soundRuns project space s'"
proof -
  have b: "belongs project space s" and b': "belongs project space s'"
    using s belongs_mutate [OF _ m] by (simp_all add: soundRuns_def)
  then have d: "distinct (runIds (lifecycleRuns s))" and d': "distinct (runIds (lifecycleRuns s'))"
    by (simp_all add: belongs_def)
  have one: "current r \<and> current r' \<and> runPhase r = runPhase r' \<Longrightarrow> i = j"
    if "runOf (lifecycleRuns s) i = Some r" "runOf (lifecycleRuns s) j = Some r'" for i j r r'
    using s oneCurrent_iff [OF d] that unfolding soundRuns_def by blast
  have cons: "runOf (lifecycleRuns s) i = Some r \<Longrightarrow> consistentRun r" for i r
    using s runsOf_all [OF d, of consistentRun] unfolding soundRuns_def by blast
  have "(\<forall>i r. runOf (lifecycleRuns s') i = Some r \<longrightarrow> consistentRun r)
     \<and> (\<forall>i j r r'. runOf (lifecycleRuns s') i = Some r \<and> runOf (lifecycleRuns s') j = Some r'
          \<and> current r \<and> current r' \<and> runPhase r = runPhase r' \<longrightarrow> i = j)" (is "?cons \<and> ?one")
    using m b
  proof (rule mutate_runs)
    assume "\<And>i. runOf (lifecycleRuns s') i = runOf (lifecycleRuns s) i"
    then show ?thesis using one cons by metis
  next
    fix r r' assume r: "runOf (lifecycleRuns s) (runId r) = Some r" "runStep now r r'"
      and at: "\<And>i. runOf (lifecycleRuns s') i = (if i = runId r then Some r' else runOf (lifecycleRuns s) i)"
    have ?cons using at cons runStep_consistent [OF r(2)] by (auto split: if_splits)
    moreover have ?one
    proof (intro allI impI, elim conjE)
      fix i j a b assume ab: "runOf (lifecycleRuns s') i = Some a" "runOf (lifecycleRuns s') j = Some b"
        "current a" "current b" "runPhase a = runPhase b"
      have before: "\<exists>c. runOf (lifecycleRuns s) k = Some c \<and> current c \<and> runPhase c = runPhase x"
        if "runOf (lifecycleRuns s') k = Some x" "current x" for k x
        using that at [of k] r(1) runStep_current [OF r(2)] by (cases "k = runId r") auto
      show "i = j" using before [OF ab(1,3)] before [OF ab(2,4)] ab(5) one by metis
    qed
    ultimately show ?thesis by simp
  next
    fix q st skipped assume space: "spaceId st = space" and dl: "now < claimDeadline now q"
      and at: "\<And>i. runOf (lifecycleRuns s') i =
         (if i = requestRun q then Some (newRun st actor now (claimDeadline now q) skipped q)
          else map_option (\<lambda>r. if \<not> skipped \<and> replacesRun st q r then cancelRun now r else r) (runOf (lifecycleRuns s) i))"
    have inactive: "\<not> current (cancelRun now r)" for r by (simp add: current_def)
    have in_space: "runOf (lifecycleRuns s) i = Some r \<Longrightarrow> runSpace r = space" for i r
      using b runsOf_all [OF d, of "\<lambda>r. runSpace r = space"] by (simp add: belongs_def)
    have ?cons
      using at cons newRun_consistent [OF dl] cancelRun_consistent by (auto split: if_splits)
    moreover have ?one
    proof (intro allI impI, elim conjE)
      fix i j a b assume a: "runOf (lifecycleRuns s') i = Some a" "runOf (lifecycleRuns s') j = Some b"
        "current a" "current b" "runPhase a = runPhase b"
      have old: "runOf (lifecycleRuns s) k = Some c \<and> (skipped \<or> \<not> replacesRun st q c)"
        if k: "runOf (lifecycleRuns s') k = Some c" "current c" "k \<noteq> requestRun q" for k c
      proof -
        obtain z where z: "runOf (lifecycleRuns s) k = Some z" "c = (if \<not> skipped \<and> replacesRun st q z then cancelRun now z else z)"
          using k at [of k] by auto
        show ?thesis using z inactive [of z] k(2) by (cases "\<not> skipped \<and> replacesRun st q z") auto
      qed
      have new: "\<not> skipped \<and> runPhase c = requestPhase q"
        if "runOf (lifecycleRuns s') (requestRun q) = Some c" "current c" for c
        using that at [of "requestRun q"] by (auto simp: newRun_def current_def isLifecycleRunActive_def split: if_splits)
      have clash: False
        if "runOf (lifecycleRuns s') (requestRun q) = Some c" "current c" "runOf (lifecycleRuns s') k = Some c'" "current c'"
          "runPhase c = runPhase c'" "k \<noteq> requestRun q" for c c' k
        using new [OF that(1,2)] old [OF that(3,4,6)] in_space [of k c'] that(4,5) space by (simp add: replacesRun_def)
      show "i = j"
      proof (rule ccontr)
        assume "i \<noteq> j"
        then consider "i = requestRun q" "j \<noteq> requestRun q" | "j = requestRun q" "i \<noteq> requestRun q"
          | "i \<noteq> requestRun q" "j \<noteq> requestRun q" by blast
        then show False
        proof cases
          case 1 then show ?thesis using clash a by blast
        next
          case 2 then show ?thesis using clash a by metis
        next
          case 3 then show ?thesis using old one [of i a j b] a \<open>i \<noteq> j\<close> by blast
        qed
      qed
    qed
    ultimately show ?thesis by simp
  qed
  then show ?thesis
    using b' runsOf_all [OF d', of consistentRun] oneCurrent_iff [OF d'] by (simp add: soundRuns_def)
qed

lemma setBrowserOrigins_runs: "lifecycleRuns (snd (setBrowserOrigins project space origins shared s)) = lifecycleRuns s"
  by (simp add: setBrowserOrigins_def Let_def split: sum.splits prod.splits)

lemma markBrowserOriginsUnavailable_runs:
  "lifecycleRuns (snd (markBrowserOriginsUnavailable project space shared s)) = lifecycleRuns s"
  by (simp add: markBrowserOriginsUnavailable_def split: sum.splits prod.splits)

lemma belongs_performOp: "belongs project space s \<Longrightarrow> belongs project space (performOp cd project space s op)"
proof (cases op)
  case (Mutate input actor shared now)
  then show "belongs project space s \<Longrightarrow> ?thesis"
    using belongs_mutate [of project space s cd input actor shared now] by (simp add: prod_eq_iff)
next
  case (SetOrigins origins shared)
  then show "belongs project space s \<Longrightarrow> ?thesis"
    using setBrowserOrigins_runs [of project space origins shared s] stored_identity [of s project space shared]
    by (auto simp: belongs_def setBrowserOrigins_def Let_def split: sum.splits prod.splits)
next
  case (LoseOrigins shared)
  then show "belongs project space s \<Longrightarrow> ?thesis"
    using stored_identity [of s project space shared]
    by (auto simp: belongs_def markBrowserOriginsUnavailable_def split: sum.splits prod.splits)
next
  case (MarkDerived source)
  then show "belongs project space s \<Longrightarrow> ?thesis" by (simp add: belongs_def markDerived_def)
qed

lemma runs_performOp:
  obtains input actor shared now where "op = Mutate input actor shared now"
  | "lifecycleRuns (performOp cd project space s op) = lifecycleRuns s"
  by (cases op) (auto simp: setBrowserOrigins_runs markBrowserOriginsUnavailable_runs markDerived_def)

interpretation environment: kept_invariant "performOp cd project space" "soundRuns project space" for cd project space
proof unfold_locales
  fix s op assume s: "soundRuns project space s"
  show "soundRuns project space (performOp cd project space s op)"
  proof (rule runs_performOp [where op = op and cd = cd and project = project and space = space and s = s])
    fix input actor shared now assume "op = Mutate input actor shared now"
    then show ?thesis using sound_mutate [OF s, of cd input actor shared now] by (simp add: prod_eq_iff)
  next
    assume "lifecycleRuns (performOp cd project space s op) = lifecycleRuns s"
    then show ?thesis using s belongs_performOp by (simp add: soundRuns_def)
  qed
qed

interpretation owner: kept_invariant "performOp cd project space" "belongs project space" for cd project space
  by unfold_locales (rule belongs_performOp)

lemma soundRuns_empty: "soundRuns project space emptyStore"
  by (simp add: soundRuns_def belongs_def emptyStore_def oneCurrent_def LIFECYCLE_PHASES_def currentRuns_def)

section \<open>Claims\<close>

definition movesTo :: "LifecycleRun \<Rightarrow> LifecycleRun \<Rightarrow> bool" where
  "movesTo r r' \<longleftrightarrow> (\<exists>now. runStep now r r')"

lemma movesTo_cancel: "current r \<Longrightarrow> movesTo r (cancelRun now r)"
  unfolding movesTo_def by (rule exI [of _ now], rule runStep.cancels) simp_all

lemma mutate_moves:
  assumes "mutate cd project space input actor shared now s = (ans, s')" and "belongs project space s"
    and r: "runOf (lifecycleRuns s) i = Some r"
  shows "\<exists>r'. runOf (lifecycleRuns s') i = Some r' \<and> movesTo\<^sup>*\<^sup>* r r'"
  using assms(1,2)
proof (rule mutate_runs)
  assume "\<And>i. runOf (lifecycleRuns s') i = runOf (lifecycleRuns s) i"
  then show ?thesis using r by auto
next
  fix a b assume "runOf (lifecycleRuns s) (runId a) = Some a" "runStep now a b"
    "\<And>i. runOf (lifecycleRuns s') i = (if i = runId a then Some b else runOf (lifecycleRuns s) i)"
  then show ?thesis using r by (cases "i = runId a") (auto simp: movesTo_def intro!: r_into_rtranclp [of movesTo])
next
  fix q st skipped
  assume "runOf (lifecycleRuns s) (requestRun q) = None"
    and at: "\<And>i. runOf (lifecycleRuns s') i =
         (if i = requestRun q then Some (newRun st actor now (claimDeadline now q) skipped q)
          else map_option (\<lambda>r. if \<not> skipped \<and> replacesRun st q r then cancelRun now r else r) (runOf (lifecycleRuns s) i))"
  then have "i \<noteq> requestRun q" using r by auto
  then show ?thesis using at [of i] r movesTo_cancel [of r now]
    by (cases "\<not> skipped \<and> replacesRun st q r") (auto simp: replacesRun_def)
qed

lemma performOp_moves:
  assumes "belongs project space s" and "runOf (lifecycleRuns s) i = Some r"
  shows "\<exists>r'. runOf (lifecycleRuns (performOp cd project space s op)) i = Some r' \<and> movesTo\<^sup>*\<^sup>* r r'"
proof (rule runs_performOp [where op = op and cd = cd and project = project and space = space and s = s])
  fix input actor shared now assume "op = Mutate input actor shared now"
  then show ?thesis using mutate_moves [OF _ assms, of cd input actor shared now] by (simp add: prod_eq_iff)
next
  assume "lifecycleRuns (performOp cd project space s op) = lifecycleRuns s"
  then show ?thesis using assms by auto
qed

lemma movesTo_ended: "movesTo\<^sup>*\<^sup>* r r' \<Longrightarrow> \<not> isLifecycleRunActive r \<Longrightarrow> r' = r"
  by (induction rule: converse_rtranclp_induct) (auto simp: movesTo_def dest: runStep_active)

text \<open>
  C4. Whatever is done to a workspace's environment (mutations by any actors, changes of the
  browser origins), a run once stored stays stored, and it only ever moves along the state machine
  of a run: accepted, running, cancelling, ended, its identity and content kept. A run that ended is
  stored unchanged from then on: no late report, cancellation or new claim changes anything of it.
\<close>

theorem runs_refine_machine:
  assumes "belongs project space s" and "runOf (lifecycleRuns s) i = Some r"
  shows "\<exists>r'. runOf (lifecycleRuns (foldl (performOp cd project space) s ops)) i = Some r' \<and> movesTo\<^sup>*\<^sup>* r r'
    \<and> (isLifecycleRunActive r \<or> r' = r)"
proof -
  have "\<exists>r'. runOf (lifecycleRuns (foldl (performOp cd project space) s ops)) i = Some r' \<and> movesTo\<^sup>*\<^sup>* r r'"
    using assms
  proof (induction ops arbitrary: s r)
    case (Cons op ops)
    obtain r1 where r1: "runOf (lifecycleRuns (performOp cd project space s op)) i = Some r1" "movesTo\<^sup>*\<^sup>* r r1"
      using performOp_moves [OF Cons.prems] by blast
    from Cons.IH [OF belongs_performOp [OF Cons.prems(1)] r1(1)] r1(2) show ?case
      by (auto intro: rtranclp_trans)
  qed auto
  then show ?thesis using movesTo_ended by blast
qed

subsection \<open>A workspace with one run\<close>

definition exampleCodec :: codec where
  "exampleCodec = \<lparr>decodeBundle = (\<lambda>_. None), encodeBundle = (\<lambda>_. []), isoText = (\<lambda>_. [])\<rparr>"

definition exampleMachine :: LifecycleActor where
  "exampleMachine = \<lparr>actorMachine = ''m'', actorId = ''m'', actorKind = Machine_actor, lifecycleControl = False, actorAttachment = None\<rparr>"

definition exampleShared :: SharedEnvironment where
  "exampleShared = \<lparr>sharedValues = [], sharedApprovals = []\<rparr>"

definition exampleClaim :: "string \<Rightarrow> LifecycleMutation" where
  "exampleClaim i = Claim \<lparr>requestRun = i, requestPhase = Machine_prepare, requestProfile = ''base'', requestHashes = [],
     requestGeneration = None, requestAttachment = None, requestRerun = False, requestDeadline = None,
     requestTerminal = None, requestInteractive = None\<rparr>"

definition exampleFinish :: FinishReport where
  "exampleFinish = \<lparr>finishRun = ''a'', finishStatus = Succeeded, finishIncidents = None, finishFailure = None, finishExit = 0,
     finishResults = [], finishOutput = [], finishBindings = []\<rparr>"

abbreviation examplePerform :: "space_store \<Rightarrow> storeOp \<Rightarrow> space_store" where
  "examplePerform \<equiv> performOp exampleCodec ''p'' ''w''"

definition exampleStore :: space_store where
  "exampleStore = examplePerform emptyStore (Mutate (exampleClaim ''a'') exampleMachine exampleShared 0)"

definition exampleRun :: LifecycleRun where
  "exampleRun = newRun (emptyLifecycleState ''p'' ''w'') exampleMachine 0 1800000 False
     (case exampleClaim ''a'' of Claim q \<Rightarrow> q)"

lemma exampleStore_run: "runOf (lifecycleRuns exampleStore) ''a'' = Some exampleRun"
  by code_simp

lemma example_belongs: "belongs ''p'' ''w'' exampleStore"
  unfolding exampleStore_def by (rule belongs_performOp) (simp add: belongs_def emptyStore_def)

theorem runs_refine_machine_witness:
  "\<exists>r'. runOf (lifecycleRuns (foldl examplePerform exampleStore [Mutate (Finish exampleFinish) exampleMachine exampleShared 7])) ''a''
      = Some r' \<and> movesTo\<^sup>*\<^sup>* exampleRun r' \<and> (isLifecycleRunActive exampleRun \<or> r' = exampleRun)"
  by (rule runs_refine_machine [OF example_belongs exampleStore_run])

definition exampleEnded :: space_store where
  "exampleEnded = emptyStore\<lparr>lifecycleRuns :=
     [\<lparr>recordRun = exampleRun\<lparr>runStatus := Succeeded, exitCode := Some 0, finishedAt := Some 7\<rparr>, recordScope = ''scope''\<rparr>]\<rparr>"

lemma exampleEnded_run:
  "runOf (lifecycleRuns exampleEnded) ''a'' = Some (exampleRun\<lparr>runStatus := Succeeded, exitCode := Some 0, finishedAt := Some 7\<rparr>)"
  by code_simp

lemma exampleEnded_sound: "soundRuns ''p'' ''w'' exampleEnded"
  by (simp add: soundRuns_def belongs_def exampleEnded_def emptyStore_def oneCurrent_def LIFECYCLE_PHASES_def currentRuns_def
      consistentRun_def exampleRun_def newRun_def emptyLifecycleState_def exampleClaim_def current_def isLifecycleRunActive_def)

text \<open>
  C14. At most one run of a phase is current in a workspace, that is active and not asked to stop,
  after any operations by any actors: a claim that is accepted cancels the run before it.
\<close>

theorem one_current_run:
  assumes "soundRuns project space s"
  shows "length (currentRuns phase (lifecycleRuns (foldl (performOp cd project space) s ops))) \<le> 1"
proof -
  have "oneCurrent (lifecycleRuns (foldl (performOp cd project space) s ops))"
    using environment.run_holds [OF assms] by (simp add: soundRuns_def)
  then show ?thesis by (cases phase) (auto simp: oneCurrent_def LIFECYCLE_PHASES_def)
qed

theorem one_current_run_witness:
  "length (currentRuns Machine_prepare (lifecycleRuns (foldl examplePerform emptyStore
      [Mutate (exampleClaim ''a'') exampleMachine exampleShared 0, Mutate (exampleClaim ''b'') exampleMachine exampleShared 5]))) \<le> 1"
  by (rule one_current_run [OF soundRuns_empty])

text \<open>
  C15. A stored success is in time and was not cancelled: whatever was reported and whenever, a run
  counts as succeeded only if it ended before its deadline with no cancellation requested.
\<close>

theorem success_in_time:
  assumes "soundRuns project space s"
    and "runOf (lifecycleRuns (foldl (performOp cd project space) s ops)) i = Some r" and "runStatus r = Succeeded"
  shows "cancelRequestedAt r = None \<and> (\<exists>t < deadlineAt r. finishedAt r = Some t)"
proof -
  have s: "soundRuns project space (foldl (performOp cd project space) s ops)"
    by (rule environment.run_holds [OF assms(1)])
  then have "consistentRun r"
    using assms(2) runsOf_all [of "lifecycleRuns (foldl (performOp cd project space) s ops)" consistentRun]
    by (auto simp: soundRuns_def belongs_def)
  then show ?thesis using assms(3) by (auto simp: consistentRun_def split: option.splits)
qed

theorem success_in_time_witness:
  "cancelRequestedAt (exampleRun\<lparr>runStatus := Succeeded, exitCode := Some 0, finishedAt := Some 7\<rparr>) = None
   \<and> (\<exists>t < deadlineAt (exampleRun\<lparr>runStatus := Succeeded, exitCode := Some 0, finishedAt := Some 7\<rparr>).
        finishedAt (exampleRun\<lparr>runStatus := Succeeded, exitCode := Some 0, finishedAt := Some 7\<rparr>) = Some t)"
  by (rule success_in_time [where i = "''a''" and cd = exampleCodec
      and ops = "[Mutate (exampleClaim ''b'') exampleMachine exampleShared 9]", OF exampleEnded_sound]) (code_simp, simp)

text \<open>
  C8. Only approved content is claimed: when a mutation adds a run to the store, every execution hash
  of the run is approved in the environment the mutation read, a run without a terminal contains no
  interactive script, and the run belongs to the machine of the authenticated actor.
\<close>

theorem only_approved_claimed:
  assumes "belongs project space s" and "mutate cd project space input actor shared now s = (ans, s')"
    and "runOf (lifecycleRuns s) i = None" and "runOf (lifecycleRuns s') i = Some r"
    and "getEnvironment s project space shared = Inr env"
  shows "set (runHashes r) \<subseteq> set (approvedHashes env) \<and> runMachine r = actorMachine actor
    \<and> (truthy (runInteractive r) \<or> list_all (\<lambda>h. \<not> interactiveHash env h) (runHashes r))"
  using assms(2,1)
proof (rule mutate_runs)
  fix q st skipped
  assume st: "\<exists>env. getEnvironment s project space shared = Inr env \<and> st = env\<lparr>claim := None\<rparr>"
    and h: "set (claimedHashes st q) \<subseteq> set (approvedHashes st)"
    and at: "\<And>i. runOf (lifecycleRuns s') i =
       (if i = requestRun q then Some (newRun st actor now (claimDeadline now q) skipped q)
        else map_option (\<lambda>r. if \<not> skipped \<and> replacesRun st q r then cancelRun now r else r) (runOf (lifecycleRuns s) i))"
  have "r = newRun st actor now (claimDeadline now q) skipped q"
    using at [of i] assms(3,4) by (auto split: if_splits)
  then show ?thesis using st h assms(5)
    by (auto simp: newRun_def claimedHashes_def approvedHashes_def interactiveHash_def truthy_def list_all_iff split: if_splits)
qed (use assms(3,4) in \<open>auto split: if_splits\<close>)

definition exampleHash :: string where
  "exampleHash = ''sha256:'' @ replicate 64 CHR ''a''"

definition exampleApproving :: SharedEnvironment where
  "exampleApproving = \<lparr>sharedValues = [], sharedApprovals = [\<lparr>approvalScope = Project, approvedHash = exampleHash,
     approvedBy = ''b'', approvedAt = 0, approvalLevel = None\<rparr>]\<rparr>"

definition exampleRequest :: ClaimRequest where
  "exampleRequest = \<lparr>requestRun = ''c'', requestPhase = Machine_prepare, requestProfile = ''base'', requestHashes = [exampleHash],
     requestGeneration = None, requestAttachment = None, requestRerun = False, requestDeadline = None,
     requestTerminal = None, requestInteractive = None\<rparr>"

definition exampleEnv :: LifecycleState where
  "exampleEnv = withShared exampleApproving (emptyLifecycleState ''p'' ''w'')"

lemma exampleRequest_run:
  "runOf (lifecycleRuns (snd (mutate exampleCodec ''p'' ''w'' (Claim exampleRequest) exampleMachine exampleApproving 0 emptyStore))) ''c''
    = Some (newRun exampleEnv exampleMachine 0 1800000 False exampleRequest)"
  by code_simp

theorem only_approved_claimed_witness:
  "set (runHashes (newRun exampleEnv exampleMachine 0 1800000 False exampleRequest)) \<subseteq> set (approvedHashes exampleEnv)
   \<and> runMachine (newRun exampleEnv exampleMachine 0 1800000 False exampleRequest) = actorMachine exampleMachine
   \<and> (truthy (runInteractive (newRun exampleEnv exampleMachine 0 1800000 False exampleRequest))
      \<or> list_all (\<lambda>h. \<not> interactiveHash exampleEnv h) (runHashes (newRun exampleEnv exampleMachine 0 1800000 False exampleRequest)))"
proof (rule only_approved_claimed [OF _ prod.collapse [symmetric] _ exampleRequest_run])
  show "belongs ''p'' ''w'' emptyStore" by (simp add: belongs_def emptyStore_def)
  show "runOf (lifecycleRuns emptyStore) ''c'' = None" by (simp add: emptyStore_def)
  show "getEnvironment emptyStore ''p'' ''w'' exampleApproving = Inr exampleEnv" by code_simp
qed

subsection \<open>Every run can end\<close>

lemma owned_runOf:
  assumes "list_all (\<lambda>e. runSpace (recordRun e) = spaceId st) rs" and "runOf rs i = Some r"
  obtains e where "owned st rs i = Inr e" and "recordRun e = r"
proof -
  have "List.find (\<lambda>e. runId (recordRun e) = i \<and> runSpace (recordRun e) = spaceId st) rs = List.find (\<lambda>e. runId (recordRun e) = i) rs"
    using assms(1) by (intro find_cong) (auto simp: list_all_iff)
  then show thesis using assms(2) that by (auto simp: owned_def runOf_def)
qed

lemma mutate_decided:
  assumes st: "stored s project space shared = Inr st" and "LifecycleMutationSchema input"
    and "actorId actor \<noteq> []" and "actorMachine actor \<noteq> []" and "\<not> approvesElsewhere project space (availableState st) input"
    and "operate cd ((availableState st)\<lparr>claim := None\<rparr>) (lifecycleRuns s) actor now input = Inr (Decide d)"
  shows "lifecycleRuns (snd (mutate cd project space input actor shared now s)) = fold upsertRun (recordsOf d) (lifecycleRuns s)"
proof -
  have "readRuns s = Inr (lifecycleRuns s)"
    using st by (auto simp: stored_def readRuns_def Let_def split: prod.splits if_splits sum.splits)
  then show ?thesis using assms by (simp add: mutate_def transitionLifecycle_def del: settle.simps) (simp add: Let_def)
qed

lemma stored_readable: "getEnvironment s project space shared = Inr env \<Longrightarrow> \<exists>st. stored s project space shared = Inr st"
  by (auto simp: getEnvironment_def split: sum.splits)

lemma runs_here:
  assumes "belongs project space s" and "stored s project space shared = Inr st"
  shows "list_all (\<lambda>e. runSpace (recordRun e) = spaceId ((availableState st)\<lparr>claim := None\<rparr>)) (lifecycleRuns s)"
  using assms stored_identity [OF assms(2,1)] by (simp add: belongs_def)

lemma finish_run:
  assumes b: "belongs project space s" and "getEnvironment s project space shared = Inr env"
    and r: "runOf (lifecycleRuns s) (finishRun f) = Some r" "isLifecycleRunActive r" "runMachine r = actorMachine actor"
    and f: "LifecycleMutationSchema (Finish f)" "(finishStatus f = Succeeded) = (finishExit f = 0)"
    and actor: "actorId actor \<noteq> []" "actorMachine actor \<noteq> []"
  shows "runOf (lifecycleRuns (snd (mutate cd project space (Finish f) actor shared now s))) (finishRun f)
    = Some (bindRun (finishBindings f) (endedRun cd f now (addIncidents (finishIncidents f) r)))"
proof -
  obtain st where st: "stored s project space shared = Inr st" using stored_readable [OF assms(2)] by blast
  let ?st = "(availableState st)\<lparr>claim := None\<rparr>"
  obtain e where e: "owned ?st (lifecycleRuns s) (finishRun f) = Inr e" "recordRun e = r"
    using owned_runOf [OF runs_here [OF b st] r(1)] .
  then have rep: "reported ?st (lifecycleRuns s) actor (finishRun f) = Inr (Some e)"
    using r by (simp add: reported_def)
  obtain d where d: "finishOp cd ?st (lifecycleRuns s) actor now f = Inr (Decide d)"
    using rep f(2) by (auto simp: finishOp_def Let_def)
  then obtain e' where e': "reported ?st (lifecycleRuns s) actor (finishRun f) = Inr (Some e')" "decidedReplaced d = []"
    "decidedRecord d = Some (e'\<lparr>recordRun := bindRun (finishBindings f) (endedRun cd f now (addIncidents (finishIncidents f) (recordRun e')))\<rparr>)"
    by (rule finishOp_run)
  with rep e(2) have "recordsOf d = [e\<lparr>recordRun := bindRun (finishBindings f) (endedRun cd f now (addIncidents (finishIncidents f) r))\<rparr>]"
    by (simp add: recordsOf_def)
  then show ?thesis
    using mutate_decided [OF st f(1) actor _ , of cd now d] d runOf_id [OF r(1)] by (simp add: approvesElsewhere_def)
qed

lemma finish_ends:
  assumes "belongs project space s" and "getEnvironment s project space shared = Inr env"
    and r: "runOf (lifecycleRuns s) (finishRun f) = Some r" "isLifecycleRunActive r" "runMachine r = actorMachine actor"
    and f: "LifecycleMutationSchema (Finish f)" "(finishStatus f = Succeeded) = (finishExit f = 0)"
    and actor: "actorId actor \<noteq> []" "actorMachine actor \<noteq> []"
  shows "\<exists>r'. runOf (lifecycleRuns (snd (mutate cd project space (Finish f) actor shared now s))) (finishRun f) = Some r'
    \<and> \<not> isLifecycleRunActive r' \<and> finishedAt r' = Some now"
  using finish_run [OF assms, of cd now] f(1)
    finishStatusOf_ends [of "finishStatus f" "finishFailureOf cd f (addIncidents (finishIncidents f) r) now"]
  by (auto simp: isLifecycleRunActive_def)

lemma interrupt_ends:
  assumes b: "belongs project space s" and "getEnvironment s project space shared = Inr env"
    and r: "runOf (lifecycleRuns s) i = Some r" "isLifecycleRunActive r"
    and "LifecycleMutationSchema (Interrupt i reason)" and "lifecycleControl actor"
    and actor: "actorId actor \<noteq> []" "actorMachine actor \<noteq> []"
  shows "\<exists>r'. runOf (lifecycleRuns (snd (mutate cd project space (Interrupt i reason) actor shared now s))) i = Some r'
    \<and> runStatus r' = Was_interrupted \<and> finishedAt r' = Some now"
proof -
  obtain st where st: "stored s project space shared = Inr st" using stored_readable [OF assms(2)] by blast
  let ?st = "(availableState st)\<lparr>claim := None\<rparr>"
  obtain e where e: "owned ?st (lifecycleRuns s) i = Inr e" "recordRun e = r"
    using owned_runOf [OF runs_here [OF b st] r(1)] .
  obtain d where d: "interruptOp ?st (lifecycleRuns s) actor now i reason = Inr (Decide d)"
    "\<exists>x. recordsOf d = [x] \<and> runId (recordRun x) = runId r \<and> runStatus (recordRun x) = Was_interrupted \<and> finishedAt (recordRun x) = Some now"
    using e r(2) assms(6) by (auto simp: interruptOp_def recordsOf_def)
  then show ?thesis
    using mutate_decided [OF st assms(5) actor _ , of cd now d] runOf_id [OF r(1)]
    by (auto simp: approvesElsewhere_def)
qed


definition exampleController :: LifecycleActor where
  "exampleController = \<lparr>actorMachine = ''b'', actorId = ''b'', actorKind = Browser_actor, lifecycleControl = True, actorAttachment = None\<rparr>"

lemma exampleStore_readable:
  "getEnvironment exampleStore ''p'' ''w'' exampleShared = Inr ((emptyLifecycleState ''p'' ''w'')\<lparr>revision := 1, runs := [exampleRun]\<rparr>)"
  by code_simp


end
