(* ===== verification/Lifecycle_Types.thy ===== *)
theory Lifecycle_Types
  imports Lifecycle_Runs
begin

text \<open>
  The rows the environment of a workspace stores keep the shape their schemas demand, so what is
  written can be read, as long as the identity of a run leaves room for the suffix its incidents
  add to it; and what refuses a claim.
\<close>

section \<open>Lists of fields\<close>

lemma bindings_spread: "LifecycleBindingsSchema a \<Longrightarrow> LifecycleBindingsSchema b \<Longrightarrow> LifecycleBindingsSchema (spread a b)"
  using spread_member by (fastforce simp: LifecycleBindingsSchema_def list_all_iff)

lemma update_member: "(a, b) \<in> set (AList.update c d xs) \<Longrightarrow> (a, b) \<in> set xs \<or> a = c \<and> b = d"
  by (induction xs) (auto split: if_splits)

lemma values_setValue:
  "lifecycleValuesSchema vs \<Longrightarrow> environmentNameSchema n \<Longrightarrow> optionally (lengthIn 0 16384) v \<Longrightarrow> lifecycleValuesSchema (setValue n v vs)"
  using update_member [of _ _ n _ vs] AList.delete_conv'
  by (cases v) (fastforce simp: lifecycleValuesSchema_def setValue_def list_all_iff optionally_def AList.delete_eq)+

section \<open>The stored configuration\<close>

definition configurationSchema :: "LifecycleState \<Rightarrow> bool" where
  "configurationSchema st \<longleftrightarrow> LifecycleStateSchema (st\<lparr>runs := [], claim := None\<rparr>)"

definition roomForSuffix :: "string \<Rightarrow> bool" where
  "roomForSuffix i \<longleftrightarrow> length i \<le> 148"

definition storableRun :: "LifecycleRun \<Rightarrow> bool" where
  "storableRun r \<longleftrightarrow> LifecycleRunSchema r \<and> roomForSuffix (runId r)"

lemma storable_incident:
  assumes "storableRun r" and "length suffix \<le> 12"
  shows "LifecycleIncidentSchema \<lparr>incidentId = runId r @ suffix, incidentKind = k, incidentMessage = m, occurredAt = t, incidentFailure = x\<rparr>"
  using assms by (auto simp: storableRun_def LifecycleRunSchema_def LifecycleIncidentSchema_def lifecycleIdSchema_def
      lengthIn_def roomForSuffix_def)

lemma sanitizeResult_schema: "lifecycleResultsSchema xs \<Longrightarrow> lifecycleResultsSchema (map sanitizeResult xs)"
  by (auto simp: lifecycleResultsSchema_def list_all_iff sanitizeResult_def lengthIn_def LIFECYCLE_PREVIEW_LIMIT_def)

lemma storable_addIncidents:
  "storableRun r \<Longrightarrow> optionally (list_all LifecycleIncidentSchema) xs \<Longrightarrow> storableRun (addIncidents xs r)"
  by (auto simp: storableRun_def LifecycleRunSchema_def addIncidents_def optionally_def list_all_iff split: option.splits)

lemma storable_bindRun: "storableRun r \<Longrightarrow> LifecycleBindingsSchema bs \<Longrightarrow> storableRun (bindRun bs r)"
  using bindings_spread [of "orElse (runBindings r) []" bs]
  by (auto simp: storableRun_def LifecycleRunSchema_def bindRun_def optionally_def orElse_def LifecycleBindingsSchema_def split: option.splits)

lemma storable_endedRun:
  assumes "storableRun r" and "lifecycleResultsSchema (finishResults f)"
  shows "storableRun (endedRun cd f now r)"
proof -
  let ?failure = "finishFailureOf cd f r now"
  have "lifecycleResultsSchema (map sanitizeResult (if finishResults f \<noteq> [] then finishResults f else runResults r))"
    using assms by (intro sanitizeResult_schema) (simp add: storableRun_def LifecycleRunSchema_def)
  moreover have "list_all LifecycleIncidentSchema (incidents r @ (case ?failure of None \<Rightarrow> []
     | Some e \<Rightarrow> [\<lparr>incidentId = runId r @ '':failure'', incidentKind = Domain,
              incidentMessage = failureMessage e, occurredAt = now, incidentFailure = Some e\<rparr>]))"
    using assms(1) storable_incident [OF assms(1), of "'':failure''"]
    by (auto simp: storableRun_def LifecycleRunSchema_def split: option.splits)
  ultimately show ?thesis
    using assms(1) by (simp add: storableRun_def LifecycleRunSchema_def endedRun_def Let_def del: map_map list.map)
qed

lemma configuration_bindState:
  "configurationSchema st \<Longrightarrow> LifecycleBindingsSchema bs \<Longrightarrow> configurationSchema (bindState bs r st)"
  using bindings_spread [of "stateBindings st" bs]
  by (auto simp: configurationSchema_def LifecycleStateSchema_def bindState_def)

lemma configuration_endedState:
  assumes "configurationSchema st" and "LifecycleBindingsSchema (finishBindings f)" and "storableRun r"
  shows "configurationSchema (endedState f now r st)"
  using configuration_bindState [OF assms(1,2), of r] assms(3)
  by (auto simp: endedState_def Let_def configurationSchema_def LifecycleStateSchema_def optionally_def storableRun_def LifecycleRunSchema_def)

section \<open>Every operation keeps the shape\<close>

definition storableDecision :: "decision \<Rightarrow> bool" where
  "storableDecision d \<longleftrightarrow> configurationSchema (decided d) \<and> list_all (\<lambda>e. storableRun (recordRun e)) (recordsOf d)"

fun leavesRoom :: "LifecycleMutation \<Rightarrow> bool" where
  "leavesRoom (Claim q) \<longleftrightarrow> roomForSuffix (requestRun q)"
| "leavesRoom _ \<longleftrightarrow> True"

definition actorSchema :: "LifecycleActor \<Rightarrow> bool" where
  "actorSchema actor \<longleftrightarrow> lifecycleIdSchema (actorId actor) \<and> lifecycleIdSchema (actorMachine actor)"

lemma reported_storable:
  assumes "list_all (\<lambda>e. storableRun (recordRun e)) rs" and "reported st rs actor i = Inr (Some e)"
  shows "storableRun (recordRun e)"
  using assms reported_found(1) [OF assms(2)] by (auto simp: list_all_iff)

lemma owned_storable:
  assumes "list_all (\<lambda>e. storableRun (recordRun e)) rs" and "owned st rs i = Inr e"
  shows "storableRun (recordRun e)"
  using assms owned_found(1) [OF assms(2)] by (auto simp: list_all_iff)

lemma parse_default: "parseEnvironmentBundleJson decode json = Inr b \<Longrightarrow> identifierSchema (defaultProfile b)"
  by (auto simp: parseEnvironmentBundleJson_def EnvironmentBundleSchema_def split: option.splits if_splits)

lemma configuration_update:
  assumes "configurationSchema st" and "identifierSchema p"
  shows "configurationSchema (st\<lparr>bundleJson := j, selectedProfile := Some p\<rparr>)"
    and "configurationSchema (st\<lparr>selectedProfile := Some p\<rparr>)"
  using assms by (simp_all add: configurationSchema_def LifecycleStateSchema_def optionally_def)

lemma configuration_executions:
  assumes "configurationSchema st" and "length xs \<le> 256" and "list_all LifecycleExecutionSchema xs"
  shows "configurationSchema (st\<lparr>executions := xs\<rparr>)"
  using assms by (simp add: configurationSchema_def LifecycleStateSchema_def)

lemma configuration_profile: "configurationSchema st \<Longrightarrow> selectedProfile st = Some p \<Longrightarrow> identifierSchema p"
  by (simp add: configurationSchema_def LifecycleStateSchema_def optionally_def)

lemma configure_storable:
  assumes "configurationSchema st" and "LifecycleMutationSchema (Configure json xs)" and "configureOp cd st json xs = Inr (Decide d)"
  shows "storableDecision d"
proof -
  from assms(3) obtain b where b: "parseEnvironmentBundleJson (decodeBundle cd) json = Inr b"
    and d: "d = only (st\<lparr>bundleJson := Some (encodeBundle cd b), selectedProfile := Some (orElse (selectedProfile st) (defaultProfile b)),
      executions := orElse xs (executions st)\<rparr>)"
    by (auto simp: configureOp_def split: sum.splits option.splits)
  have p: "identifierSchema (orElse (selectedProfile st) (defaultProfile b))"
    using parse_default [OF b] configuration_profile [OF assms(1)] by (simp add: orElse_def split: option.splits)
  let ?st = "st\<lparr>bundleJson := Some (encodeBundle cd b), selectedProfile := Some (orElse (selectedProfile st) (defaultProfile b))\<rparr>"
  have st: "configurationSchema ?st" by (rule configuration_update [OF assms(1) p])
  have "configurationSchema (?st\<lparr>executions := orElse xs (executions st)\<rparr>)"
  proof (cases xs)
    case None
    then show ?thesis using st by (simp add: orElse_def)
  next
    case (Some ys)
    then show ?thesis using configuration_executions [OF st, of ys] assms(2) by (simp add: orElse_def optionally_def)
  qed
  then show ?thesis by (simp add: d storableDecision_def recordsOf_def)
qed

lemma profile_storable:
  assumes "configurationSchema st" and "LifecycleMutationSchema (Profile p)" and "profileOp cd st p = Inr (Decide d)"
  shows "storableDecision d"
  using assms
  by (auto simp: profileOp_def storableDecision_def recordsOf_def configurationSchema_def LifecycleStateSchema_def optionally_def
      split: sum.splits if_splits)

lemma value_storable:
  assumes "configurationSchema st" and "LifecycleMutationSchema (Value scope n v)" and "valueOp st scope n v = Inr (Decide d)"
  shows "storableDecision d"
  using assms values_setValue [of "projectValues (stateValues st)" n v] values_setValue [of "workspaceValues (stateValues st)" n v]
  by (cases scope) (auto simp: storableDecision_def recordsOf_def configurationSchema_def LifecycleStateSchema_def)

lemma approval_storable:
  assumes "configurationSchema st" and "LifecycleMutationSchema (Approval scope h approved level)" and "actorSchema actor"
    and "approvalOp st actor now scope h approved level = Inr (Decide d)"
  shows "storableDecision d"
  using assms
  by (auto simp: approvalOp_def Let_def storableDecision_def recordsOf_def configurationSchema_def LifecycleStateSchema_def
      LifecycleApprovalSchema_def actorSchema_def list_all_iff split: if_splits)

lemma newRun_storable:
  assumes "configurationSchema st" and "LifecycleMutationSchema (Claim q)" and "actorSchema actor" and "roomForSuffix (requestRun q)"
  shows "storableRun (newRun st actor now deadline skipped q)"
  using assms
  by (auto simp: storableRun_def LifecycleRunSchema_def newRun_def configurationSchema_def LifecycleStateSchema_def actorSchema_def
      claimedHashes_def lifecycleResultsSchema_def list_all_iff optionally_def intro: order_trans [OF length_filter_le])

lemma claim_storable:
  assumes "configurationSchema st" and "LifecycleMutationSchema (Claim q)" and "actorSchema actor" and "roomForSuffix (requestRun q)"
    and "list_all (\<lambda>e. storableRun (recordRun e)) rs"
  shows "storableDecision (claimDecision st rs actor now q)"
  using assms newRun_storable [OF assms(1-4)]
  by (auto simp: claimDecision_def Let_def storableDecision_def recordsOf_def list_all_iff cancelRun_def storableRun_def
      LifecycleRunSchema_def configurationSchema_def LifecycleStateSchema_def optionally_def)

lemma start_storable:
  assumes "configurationSchema st" and "list_all (\<lambda>e. storableRun (recordRun e)) rs" and "startOp cd st rs actor now i = Inr (Decide d)"
  shows "storableDecision d"
  using assms(1,3) reported_storable [OF assms(2), of st actor i]
  by (auto simp: startOp_def storableDecision_def recordsOf_def storableRun_def LifecycleRunSchema_def split: sum.splits option.splits if_splits)

lemma cancel_storable:
  assumes "configurationSchema st" and "list_all (\<lambda>e. storableRun (recordRun e)) rs" and "cancelOp st rs now i = Inr (Decide d)"
  shows "storableDecision d"
  using assms(1,3) owned_storable [OF assms(2), of st i]
  by (auto simp: cancelOp_def storableDecision_def recordsOf_def cancelRun_def storableRun_def LifecycleRunSchema_def
      split: sum.splits if_splits)

lemma append_storable:
  assumes "configurationSchema st" and "list_all (\<lambda>e. storableRun (recordRun e)) rs" and "LifecycleMutationSchema (Append a)"
    and "appendOp st rs actor a = Inr (Decide d)"
  shows "storableDecision d"
proof -
  from assms(4) obtain e where e: "reported st rs actor (appendRun a) = Inr (Some e)"
    by (auto simp: appendOp_def split: sum.splits option.splits)
  define r where "r = addIncidents (appendIncidents a) (recordRun e)"
  have r: "storableRun r"
    using storable_addIncidents [OF reported_storable [OF assms(2) e]] assms(3) by (simp add: r_def)
  define r2 where "r2 = (case appendResults a of None \<Rightarrow> r\<lparr>runOutput := preview (runOutput r @ sanitizeLifecycleOutput [] (appendOutput a))\<rparr>
    | Some xs \<Rightarrow> r\<lparr>runOutput := preview (runOutput r @ sanitizeLifecycleOutput [] (appendOutput a)), runResults := map sanitizeResult xs\<rparr>)"
  have r2: "storableRun r2"
    using r sanitizeResult_schema assms(3)
    by (auto simp: r2_def storableRun_def LifecycleRunSchema_def optionally_def simp del: list.map split: option.splits)
  have "d = \<lparr>decided = (case appendBindings a of None \<Rightarrow> st | Some bs \<Rightarrow> bindState bs r2 st),
      decidedRecord = Some (e\<lparr>recordRun := (case appendBindings a of None \<Rightarrow> r2 | Some bs \<Rightarrow> bindRun bs r2)\<rparr>),
      decidedReplaced = [], decidedLog = Some (appendRun a, sanitizeLifecycleOutput [] (appendOutput a)), decidedShared = False\<rparr>"
    using assms(4) e by (auto simp: appendOp_def r2_def r_def Let_def split: option.splits)
  then show ?thesis
    using assms(1,3) r2 storable_bindRun [OF r2] configuration_bindState [OF assms(1)]
    by (auto simp: storableDecision_def recordsOf_def optionally_def split: option.splits)
qed

lemma finish_storable:
  assumes "configurationSchema st" and "list_all (\<lambda>e. storableRun (recordRun e)) rs" and f: "LifecycleMutationSchema (Finish f)"
    and "finishOp cd st rs actor now f = Inr (Decide d)"
  shows "storableDecision d"
proof -
  from assms(4) obtain e where e: "reported st rs actor (finishRun f) = Inr (Some e)"
    by (auto simp: finishOp_def split: sum.splits option.splits)
  let ?r = "endedRun cd f now (addIncidents (finishIncidents f) (recordRun e))"
  have r: "storableRun ?r"
    using storable_endedRun storable_addIncidents reported_storable [OF assms(2) e] f by simp
  have "decided d = endedState f now ?r st"
    and "recordsOf d = [e\<lparr>recordRun := bindRun (finishBindings f) ?r\<rparr>]"
    using assms(4) e by (auto simp: finishOp_def Let_def recordsOf_def split: if_splits)
  then show ?thesis
    using configuration_endedState [OF assms(1) _ r] storable_bindRun [OF r] f by (simp add: storableDecision_def)
qed

lemma storable_interruptedRun: "storableRun r \<Longrightarrow> storableRun (interruptedRun reason now r)"
  using storable_incident [of r "'':interrupted''"]
  by (auto simp: storableRun_def LifecycleRunSchema_def interruptedRun_def Let_def)

lemma interrupt_storable:
  assumes "configurationSchema st" and "list_all (\<lambda>e. storableRun (recordRun e)) rs"
    and "interruptOp st rs actor now i reason = Inr (Decide d)"
  shows "storableDecision d"
  using assms(1,3) storable_interruptedRun [OF owned_storable [OF assms(2)], of st i]
  by (auto simp: interruptOp_def storableDecision_def recordsOf_def split: sum.splits if_splits)

lemma operate_storable:
  assumes st: "configurationSchema st" and rs: "list_all (\<lambda>e. storableRun (recordRun e)) rs" and m: "LifecycleMutationSchema input"
    and actor: "actorSchema actor" and room: "leavesRoom input" and op: "operate cd st rs actor now input = Inr (Decide d)"
  shows "storableDecision d"
proof (cases input)
  case (Configure json xs)
  then show ?thesis using configure_storable [OF st] m op by simp
next
  case (Profile p)
  then show ?thesis using profile_storable [OF st] m op by simp
next
  case (Value scope n v)
  then show ?thesis using value_storable [OF st] m op by simp
next
  case (Approval scope h approved level)
  then show ?thesis using approval_storable [OF st _ actor] m op by simp
next
  case (Policy p)
  then show ?thesis using st op by (auto simp: storableDecision_def recordsOf_def configurationSchema_def LifecycleStateSchema_def)
next
  case (Claim q)
  then have "d = claimDecision st rs actor now q" using op claimOp_claims(1) by simp
  then show ?thesis using claim_storable [OF st _ actor _ rs] m room Claim by simp
next
  case (Append a)
  then show ?thesis using append_storable [OF st rs] m op by simp
next
  case (Finish f)
  then show ?thesis using finish_storable [OF st rs] m op by simp
next
  case (Start i)
  then show ?thesis using start_storable [OF st rs] op by simp
next
  case (Cancel i)
  then show ?thesis using cancel_storable [OF st rs] op by simp
next
  case (Interrupt i reason)
  then show ?thesis using interrupt_storable [OF st rs] op by simp
qed

section \<open>What is stored can be read\<close>

definition sharedSchema :: "SharedEnvironment \<Rightarrow> bool" where
  "sharedSchema shared \<longleftrightarrow> lifecycleValuesSchema (sharedValues shared) \<and> list_all LifecycleApprovalSchema (sharedApprovals shared)"

definition storable :: "space_store \<Rightarrow> bool" where
  "storable s \<longleftrightarrow>
     (case environmentState s of None \<Rightarrow> True | Some (st, _) \<Rightarrow> LifecycleStateSchema st)
     \<and> list_all (\<lambda>e. storableRun (recordRun e)) (lifecycleRuns s)"

fun wellFormedOp :: "storeOp \<Rightarrow> bool" where
  "wellFormedOp (Mutate input actor shared now) \<longleftrightarrow> leavesRoom input \<and> actorSchema actor \<and> sharedSchema shared"
| "wellFormedOp (SetOrigins origins shared) \<longleftrightarrow> sharedSchema shared"
| "wellFormedOp (LoseOrigins shared) \<longleftrightarrow> sharedSchema shared"
| "wellFormedOp (MarkDerived source) \<longleftrightarrow> True"

lemma configuration_ignores [simp]:
  "configurationSchema (st\<lparr>claim := c\<rparr>) = configurationSchema st" "configurationSchema (st\<lparr>runs := rs\<rparr>) = configurationSchema st"
  "configurationSchema (st\<lparr>revision := n\<rparr>) = configurationSchema st"
  by (simp_all add: configurationSchema_def LifecycleStateSchema_def)

lemma configuration_row: "LifecycleStateSchema st \<Longrightarrow> configurationSchema st"
  by (simp add: configurationSchema_def LifecycleStateSchema_def optionally_def)

lemma configuration_stored [simp]: "LifecycleStateSchema (st\<lparr>runs := [], claim := None\<rparr>) = configurationSchema st"
  by (simp add: configurationSchema_def)

lemma emptyLifecycleState_schema:
  "lifecycleIdSchema project \<Longrightarrow> lifecycleIdSchema space \<Longrightarrow> LifecycleStateSchema (emptyLifecycleState project space)"
  by (simp add: LifecycleStateSchema_def emptyLifecycleState_def optionally_def lifecycleValuesSchema_def LifecycleBindingsSchema_def)

lemma configuration_shared: "configurationSchema st \<Longrightarrow> sharedSchema shared \<Longrightarrow> configurationSchema (withShared shared st)"
  by (auto simp: configurationSchema_def LifecycleStateSchema_def withShared_def sharedSchema_def list_all_iff)

lemma configuration_origins:
  "configurationSchema st \<Longrightarrow> configurationSchema st' \<Longrightarrow> configurationSchema (st\<lparr>browserOrigins := browserOrigins st'\<rparr>)"
  "configurationSchema st \<Longrightarrow> configurationSchema (st\<lparr>browserOrigins := []\<rparr>)"
  by (simp_all add: configurationSchema_def LifecycleStateSchema_def)

lemma stored_schema:
  assumes "lifecycleIdSchema project" and "lifecycleIdSchema space" and "storable s" and "sharedSchema shared"
    and "stored s project space shared = Inr st"
  shows "configurationSchema (fst st)"
  using assms(5,3,4) configuration_row emptyLifecycleState_schema [OF assms(1,2)]
  by (auto simp: stored_def orElse_def Let_def storable_def configuration_shared split: prod.splits option.splits if_splits sum.splits)

lemma availableState_schema: "configurationSchema (fst st) \<Longrightarrow> configurationSchema (availableState st)"
  by (simp add: availableState_def configuration_origins)

lemma storable_upserts:
  "list_all (\<lambda>e. P (recordRun e)) es \<Longrightarrow> list_all (\<lambda>e. P (recordRun e)) rs \<Longrightarrow> list_all (\<lambda>e. P (recordRun e)) (fold upsertRun es rs)"
proof (induction es arbitrary: rs)
  case (Cons e es)
  have "list_all (\<lambda>e. P (recordRun e)) xs \<Longrightarrow> P (recordRun e) \<Longrightarrow> list_all (\<lambda>e. P (recordRun e)) (upsertRun e xs)" for xs
    by (induction xs) auto
  then show ?case using Cons by simp
qed simp

lemma nextState_settle [simp]:
  "configurationSchema (nextState (settle (Decide d))) = configurationSchema (decided d)"
  "browserOrigins (nextState (settle (Decide d))) = browserOrigins (decided d)"
  by (simp_all add: Let_def)

lemma environment_applyTransition:
  "environmentState (applyTransition (settle (Decide d)) st s) =
     Some (((nextState (settle (Decide d)))\<lparr>browserOrigins := (if snd st then browserOrigins (decided d) else browserOrigins (fst st))\<rparr>)
       \<lparr>runs := [], claim := None\<rparr>, snd st)"
  by (simp add: applyTransition_def del: settle.simps)

lemma storable_mutate:
  assumes ids: "lifecycleIdSchema project" "lifecycleIdSchema space" and s: "storable s"
    and op: "leavesRoom input" "actorSchema actor" "sharedSchema shared"
    and m: "mutate cd project space input actor shared now s = (ans, s')"
  shows "storable s'"
  using m
proof (rule mutate_store)
  fix st d
  assume st: "stored s project space shared = Inr st" and "LifecycleMutationSchema input"
    and o: "operate cd ((availableState st)\<lparr>claim := None\<rparr>) (lifecycleRuns s) actor now input = Inr (Decide d)"
    and s': "s' = applyTransition (settle (Decide d)) st s"
  have c: "configurationSchema (fst st)" by (rule stored_schema [OF ids s op(3) st])
  have runs: "list_all (\<lambda>e. storableRun (recordRun e)) (lifecycleRuns s)" using s by (simp add: storable_def)
  have d: "storableDecision d"
    by (rule operate_storable [OF _ runs \<open>LifecycleMutationSchema input\<close> op(2,1) o]) (simp add: availableState_schema [OF c])
  then have "configurationSchema ((nextState (settle (Decide d)))
      \<lparr>browserOrigins := (if snd st then browserOrigins (decided d) else browserOrigins (fst st))\<rparr>)"
    using configuration_origins(1) [of "nextState (settle (Decide d))" "fst st"] configuration_origins(1) [of "nextState (settle (Decide d))" "decided d"] c
    by (simp add: storableDecision_def del: settle.simps)
  then show ?thesis
    using d runs storable_upserts [of storableRun "recordsOf d" "lifecycleRuns s"]
    by (simp add: storable_def s' environment_applyTransition storableDecision_def del: settle.simps)
qed (use s in simp)

lemma storable_performOp:
  assumes ids: "lifecycleIdSchema project" "lifecycleIdSchema space" and s: "storable s" and op: "wellFormedOp op"
  shows "storable (performOp cd project space s op)"
proof (cases op)
  case (Mutate input actor shared now)
  then show ?thesis
    using storable_mutate [OF ids s, of input actor shared cd now] op by (simp add: prod_eq_iff)
next
  case (SetOrigins origins shared)
  have "storable (snd (setBrowserOrigins project space origins shared s))"
  proof (cases "stored s project space shared")
    case (Inr st)
    have c: "configurationSchema (fst st)" using stored_schema [OF ids s _ Inr] op SetOrigins by simp
    then have "configurationSchema ((fst st)\<lparr>approvals := filter P (approvals (fst st)), browserOrigins := origins, revision := n\<rparr>)"
      if "length origins \<le> 256" "list_all (\<lambda>(p, h). BrowserOriginPatternSchema p \<and> executionHashSchema h) origins" for P n
      using that by (auto simp: configurationSchema_def LifecycleStateSchema_def list_all_iff)
    then show ?thesis using s Inr by (auto simp: setBrowserOrigins_def Let_def storable_def split: prod.splits)
  qed (use s in \<open>auto simp: setBrowserOrigins_def storable_def\<close>)
  then show ?thesis by (simp add: SetOrigins)
next
  case (LoseOrigins shared)
  then show ?thesis
    using s op stored_schema [OF ids s, of shared]
    by (auto simp: markBrowserOriginsUnavailable_def storable_def split: sum.splits)
next
  case (MarkDerived source)
  then show ?thesis using s by (simp add: markDerived_def storable_def)
qed

text \<open>
  C28. What is written can be read, as long as the runs that are claimed have identities of at most 148 characters,
  which leave room for the suffix of an incident within the 160 that the schema allows: whatever is done to an
  empty workspace by authenticated actors, every stored row satisfies its schema, so the environment can always be
  read. (\<open>long_identity_unreadable\<close> shows what a longer identity does.)
\<close>

theorem stored_rows_parse:
  assumes "lifecycleIdSchema project" and "lifecycleIdSchema space" and "list_all wellFormedOp ops"
  shows "\<exists>env. getEnvironment (foldl (performOp cd project space) emptyStore ops) project space shared = Inr env"
proof -
  have "storable (foldl (performOp cd project space) s ops)" if "storable s" for s
    using that assms(3) by (induction ops arbitrary: s) (auto intro: storable_performOp [OF assms(1,2)])
  moreover have "storable emptyStore" by (simp add: storable_def emptyStore_def)
  ultimately have s: "storable (foldl (performOp cd project space) emptyStore ops)" (is "storable ?s") by blast
  then have "readRuns ?s = Inr (lifecycleRuns ?s)"
    by (auto simp: readRuns_def storable_def storableRun_def list_all_iff)
  moreover have "LifecycleStateSchema (fst (orElse (environmentState ?s) (emptyLifecycleState project space, True)))"
    using s emptyLifecycleState_schema [OF assms(1,2)] by (auto simp: storable_def orElse_def split: option.splits)
  ultimately show ?thesis by (auto simp: getEnvironment_def stored_def split: prod.splits)
qed

theorem stored_rows_parse_witness:
  "\<exists>env. getEnvironment (foldl (performOp exampleCodec ''p'' ''w'') emptyStore
      [Mutate (Claim exampleRequest) exampleMachine exampleApproving 0, Mutate (Cancel ''c'') exampleMachine exampleApproving 9])
      ''p'' ''w'' exampleApproving = Inr env"
proof (rule stored_rows_parse)
  show "list_all wellFormedOp [Mutate (Claim exampleRequest) exampleMachine exampleApproving 0, Mutate (Cancel ''c'') exampleMachine exampleApproving 9]"
    by code_simp
qed (simp_all add: lifecycleIdSchema_def lengthIn_def)

text \<open>
  The bound is needed: the identity of a run may have 160 characters, and the incident of a failed
  run appends \<open>:failure\<close> to it. A longer run that fails leaves a row no reader accepts.
\<close>

lemma runOf_member: "runOf rs i = Some r \<Longrightarrow> \<exists>e \<in> set rs. recordRun e = r"
  by (induction rs) (auto split: if_splits)

lemma long_identity_unreadable:
  assumes "belongs project space s" and "getEnvironment s project space shared = Inr env"
    and "runOf (lifecycleRuns s) (finishRun f) = Some r" "isLifecycleRunActive r" "runMachine r = actorMachine actor"
    and "LifecycleMutationSchema (Finish f)" "(finishStatus f = Succeeded) = (finishExit f = 0)"
    and "actorId actor \<noteq> []" "actorMachine actor \<noteq> []"
    and long: "152 < length (finishRun f)" and "finishStatus f \<noteq> Succeeded"
  shows "getEnvironment (snd (mutate cd project space (Finish f) actor shared now s)) project space shared' = Inl Malformed"
proof -
  let ?r = "bindRun (finishBindings f) (endedRun cd f now (addIncidents (finishIncidents f) r))"
  let ?s = "snd (mutate cd project space (Finish f) actor shared now s)"
  have at: "runOf (lifecycleRuns ?s) (finishRun f) = Some ?r" by (rule finish_run [OF assms(1-9)])
  obtain e where "finishFailureOf cd f (addIncidents (finishIncidents f) r) now = Some e"
    using assms(11) finishFailureOf_None [of cd f "addIncidents (finishIncidents f) r" now]
    by (cases "finishFailureOf cd f (addIncidents (finishIncidents f) r) now") auto
  then have "\<exists>x \<in> set (incidents ?r). incidentId x = finishRun f @ '':failure''"
    using runOf_id [OF assms(3)] by (simp add: bindRun_def endedRun_def Let_def)
  then obtain x where x: "x \<in> set (incidents ?r)" "incidentId x = finishRun f @ '':failure''" by blast
  then have "\<not> LifecycleIncidentSchema x"
    using long by (simp add: LifecycleIncidentSchema_def lifecycleIdSchema_def lengthIn_def)
  with x(1) have "\<not> LifecycleRunSchema ?r"
    unfolding LifecycleRunSchema_def list_all_iff by blast
  moreover obtain y where "y \<in> set (lifecycleRuns ?s)" "recordRun y = ?r"
    using runOf_member [OF at] by blast
  ultimately have "\<exists>y \<in> set (lifecycleRuns ?s). \<not> LifecycleRunSchema (recordRun y)" by (intro bexI [of _ y]) simp_all
  then have "readRuns ?s = Inl Malformed" by (auto simp: readRuns_def list_all_iff)
  then show ?thesis by (simp add: getEnvironment_def stored_def split: prod.splits)
qed

section \<open>What a report of an end does\<close>

lemma owned_None: "runOf rs i = None \<Longrightarrow> owned st rs i = Inl NotFound"
  by (auto simp: owned_def runOf_def find_None_iff split: option.splits dest!: iffD1 [OF find_Some_iff])

lemma mutate_Finish:
  assumes st: "stored s project space shared = Inr st" and "LifecycleMutationSchema (Finish f)"
    and "actorId actor \<noteq> []" and "actorMachine actor \<noteq> []"
    and "finishOp cd ((availableState st)\<lparr>claim := None\<rparr>) (lifecycleRuns s) actor now f = Inl e"
  shows "mutate cd project space (Finish f) actor shared now s = (Inl (Refused e), s)"
proof -
  have "readRuns s = Inr (lifecycleRuns s)"
    using st by (auto simp: stored_def readRuns_def Let_def split: prod.splits if_splits sum.splits)
  then show ?thesis using assms by (simp add: mutate_def transitionLifecycle_def approvesElsewhere_def Let_def)
qed

lemma mutate_Finish_unchanged:
  assumes st: "stored s project space shared = Inr st" and "LifecycleMutationSchema (Finish f)"
    and "actorId actor \<noteq> []" and "actorMachine actor \<noteq> []"
    and "finishOp cd ((availableState st)\<lparr>claim := None\<rparr>) (lifecycleRuns s) actor now f = Inr (Unchanged v)"
  shows "mutate cd project space (Finish f) actor shared now s = (Inr ((v, None), []), s)"
proof -
  have "readRuns s = Inr (lifecycleRuns s)"
    using st by (auto simp: stored_def readRuns_def Let_def split: prod.splits if_splits sum.splits)
  then show ?thesis using assms by (simp add: mutate_def transitionLifecycle_def approvesElsewhere_def Let_def)
qed



end
