(* ===== verification/Lifecycle_Log.thy ===== *)
theory Lifecycle_Log
  imports Lifecycle_Transition Base64
begin

text \<open>
  \<open>protocol-environment/src/lifecycle-log.ts\<close>: \<open>LifecycleLogReader\<close> decodes the log of a run, in
  which the runner frames each script's output by control lines, from chunks cut anywhere. The step
  the code holds in \<open>active\<close> is an element of \<open>results\<close>, and no two of those share an id, so the
  model holds its id. \<open>utf8\<close> is the \<open>TextDecoder\<close>, which rejects malformed bytes.
\<close>

section \<open>Searching a text\<close>

fun indexOf :: "string \<Rightarrow> string \<Rightarrow> nat option" where
  "indexOf t [] = (if t = [] then Some 0 else None)"
| "indexOf t (x # xs) = (if startsWithText (x # xs) t then Some 0 else map_option Suc (indexOf t xs))"

lemma indexOf_bound: "indexOf t s = Some i \<Longrightarrow> i + length t \<le> length s"
proof (induction s arbitrary: i)
  case (Cons x xs)
  show ?case
  proof (cases "startsWithText (x # xs) t")
    case True
    then have "length t \<le> length (x # xs)" by (metis nat_le_linear startsWithText_def take_all)
    then show ?thesis using Cons.prems True by simp
  next
    case False
    then obtain j where "indexOf t xs = Some j" "i = Suc j" using Cons.prems by auto
    then show ?thesis using Cons.IH [of j] by simp
  qed
qed (auto split: if_splits)

definition PREFIX :: string where "PREFIX = ''__GITSPACE_''"

text \<open>The longest end of a text that begins a marker.\<close>

definition retained :: "string \<Rightarrow> nat" where
  "retained s = foldl (\<lambda>kept size'. if endsWithText s (take size' PREFIX) then size' else kept) 0 [1..<length PREFIX]"

section \<open>The reader\<close>

record log_options =
  knownIds :: "string list option"
  outputLimit :: "nat option"
  selectedId :: "string option"

record log_reader =
  logResults :: "LifecycleResult list"
  logPending :: string
  logActive :: "string option"

definition newReader :: log_reader where
  "newReader = \<lparr>logResults = [], logPending = [], logActive = None\<rparr>"

text \<open>\<open>output.slice(-limit)\<close>; \<open>slice(-0)\<close> is the whole text.\<close>

definition sliceEnd :: "nat option \<Rightarrow> string \<Rightarrow> string" where
  "sliceEnd limit' s = (case limit' of None \<Rightarrow> s | Some n \<Rightarrow> if n = 0 then s else lastN n s)"

definition changeStep :: "string \<Rightarrow> (LifecycleResult \<Rightarrow> LifecycleResult) \<Rightarrow> log_reader \<Rightarrow> log_reader" where
  "changeStep i f r = r\<lparr>logResults := map (\<lambda>step. if resultId step = i then f step else step) (logResults r)\<rparr>"

definition appendLog :: "log_options \<Rightarrow> string \<Rightarrow> log_reader \<Rightarrow> log_reader" where
  "appendLog opts output r =
     (case logActive r of
        None \<Rightarrow> r
      | Some i \<Rightarrow>
          if output = [] \<or> selectedId opts \<noteq> None \<and> Some i \<noteq> selectedId opts then r
          else changeStep i (\<lambda>step. step\<lparr>resultOutput := sliceEnd (outputLimit opts) (resultOutput step @ output)\<rparr>) r)"

text \<open>
  \<open>/^__GITSPACE_(START|END)__([A-Za-z0-9_-]+)(?::(-?\d+))?\r?$/u\<close>, on the text after the prefix:
  whether it starts a step, the encoded id and the digits.
\<close>

definition frameId :: "char \<Rightarrow> bool" where
  "frameId c \<longleftrightarrow> isWord c \<or> c = CHR ''-''"

definition signedDigits :: "string \<Rightarrow> bool" where
  "signedDigits s = fullMatch (Then (optional (literally ''-'')) (some (Chars isNumeral))) s"

definition frameBody :: "string \<Rightarrow> (string \<times> string option) option" where
  "frameBody s =
     (let body = dropReturn s; i = takeWhile frameId body; rest = drop (length i) body in
      if i = [] then None
      else if rest = [] then Some (i, None)
      else if hd rest = CHR '':'' \<and> signedDigits (tl rest) then Some (i, Some (tl rest))
      else None)"

definition readFrame :: "string \<Rightarrow> (bool \<times> string \<times> string option) option" where
  "readFrame line =
     (let s = drop (length PREFIX) line in
      if startsWithText s ''START__'' then map_option (Pair True) (frameBody (drop 7 s))
      else if startsWithText s ''END__'' then map_option (Pair False) (frameBody (drop 5 s))
      else None)"

definition readNumber :: "string \<Rightarrow> int" where
  "readNumber s = (if startsWithText s ''-'' then - int (parseRadix 10 (tl s)) else int (parseRadix 10 s))"

definition safeNumber :: "int \<Rightarrow> bool" where
  "safeNumber n \<longleftrightarrow> \<bar>n\<bar> \<le> 9007199254740991"

definition frameText :: "(bytes \<Rightarrow> string option) \<Rightarrow> string \<Rightarrow> string option" where
  "frameText utf8 encoded =
     Option.bind (fromBase64 (map (\<lambda>c. if c = CHR ''-'' then CHR ''+'' else if c = CHR ''_'' then CHR ''/'' else c) encoded)) utf8"

definition startStep :: "instant option \<Rightarrow> string \<Rightarrow> log_reader \<Rightarrow> log_reader" where
  "startStep t i r =
     (let step = \<lparr>resultId = i, resultExit = None, resultOutput = [], resultStarted = t,
            resultFinished = (case t of None \<Rightarrow> None | Some _ \<Rightarrow> Some None)\<rparr> in
      if list_ex (\<lambda>s. resultId s = i) (logResults r)
      then (changeStep i (\<lambda>_. step) r)\<lparr>logActive := Some i\<rparr>
      else r\<lparr>logResults := logResults r @ [step], logActive := Some i\<rparr>)"

definition endStep :: "instant option \<Rightarrow> string \<Rightarrow> int \<Rightarrow> log_reader \<Rightarrow> log_reader" where
  "endStep t i code r =
     (changeStep i (\<lambda>step. step\<lparr>resultExit := Some code,
        resultFinished := (case t of None \<Rightarrow> resultFinished step | Some now \<Rightarrow> Some (Some now))\<rparr>) r)\<lparr>logActive := None\<rparr>"

definition applyFrame :: "(bytes \<Rightarrow> string option) \<Rightarrow> log_options \<Rightarrow> instant option \<Rightarrow> string \<Rightarrow> log_reader \<Rightarrow> log_reader" where
  "applyFrame utf8 opts t line r =
     (case readFrame line of
        None \<Rightarrow> r
      | Some (starts, encoded, digits) \<Rightarrow>
          (case frameText utf8 encoded of
             None \<Rightarrow> r
           | Some i \<Rightarrow>
               if i = [] \<or> 160 < length i \<or> (case knownIds opts of None \<Rightarrow> False | Some ids \<Rightarrow> i \<notin> set ids) then r
               else (case digits of
                   None \<Rightarrow> if starts then startStep t i r else r
                 | Some ds \<Rightarrow>
                     if \<not> starts \<and> logActive r = Some i \<and> safeNumber (readNumber ds)
                     then endStep t i (readNumber ds) r else r)))"

text \<open>The loop of \<open>push\<close>: \<open>s\<close> is \<open>this.pending\<close>, which the answer's reader keeps.\<close>

function drain ::
    "(bytes \<Rightarrow> string option) \<Rightarrow> log_options \<Rightarrow> instant option \<Rightarrow> bool \<Rightarrow> string \<Rightarrow> log_reader \<Rightarrow> log_reader" where
  "drain utf8 opts t final s r =
     (case indexOf PREFIX s of
        None \<Rightarrow>
          let n = length s - retained s in
          (appendLog opts (take n s) r)\<lparr>logPending := (if final then [] else drop n s)\<rparr>
      | Some marker \<Rightarrow>
          let r' = appendLog opts (take marker s) r; rest = drop marker s in
          (case indexOf [CHR 0x0A] rest of
             None \<Rightarrow> r'\<lparr>logPending := (if final \<or> 512 < length rest then [] else rest)\<rparr>
           | Some end' \<Rightarrow>
               drain utf8 opts t final (drop (Suc end') rest) (applyFrame utf8 opts t (take end' rest) r')))"
  by auto
termination
  by (relation "measure (\<lambda>(_, _, _, _, s, _). length s)") (auto dest: indexOf_bound)

declare drain.simps [simp del]

definition push ::
    "(bytes \<Rightarrow> string option) \<Rightarrow> log_options \<Rightarrow> instant option \<Rightarrow> bool \<Rightarrow> string \<Rightarrow> log_reader \<Rightarrow> log_reader" where
  "push utf8 opts t final chunk r = drain utf8 opts t final (logPending r @ chunk) r"

datatype ExecutionOutcome = Step_succeeded | Step_failed | Step_running | Step_interrupted | Not_started

definition lifecycleExecutionOutcome :: "LifecycleRun \<Rightarrow> string \<Rightarrow> ExecutionOutcome" where
  "lifecycleExecutionOutcome r i =
     (case List.find (\<lambda>result. resultId result = i) (runResults r) of
        None \<Rightarrow> Not_started
      | Some step \<Rightarrow>
          (case resultExit step of
             Some code \<Rightarrow> if code = 0 then Step_succeeded else Step_failed
           | None \<Rightarrow> if isLifecycleRunActive r then Step_running else Step_interrupted))"

section \<open>Where a marker is\<close>

lemma startsWithText_iff: "startsWithText s t \<longleftrightarrow> (\<exists>u. s = t @ u)"
  unfolding startsWithText_def by (metis append_eq_conv_conj)

lemma indexOf_iff:
  "indexOf t s = Some i \<longleftrightarrow>
     i \<le> length s \<and> startsWithText (drop i s) t \<and> (\<forall>j < i. \<not> startsWithText (drop j s) t)"
proof (induction s arbitrary: i)
  case Nil
  then show ?case by (auto simp: startsWithText_def)
next
  case (Cons x xs)
  show ?case
  proof (cases i)
    case 0
    then show ?thesis by simp
  next
    case (Suc n)
    then show ?thesis using Cons [of n] by (auto simp: less_Suc_eq_0_disj split: if_splits)
  qed
qed

lemma indexOf_None: "indexOf t s = None \<longleftrightarrow> (\<forall>j \<le> length s. \<not> startsWithText (drop j s) t)"
proof (induction s)
  case (Cons x xs)
  have "(\<forall>j \<le> Suc (length xs). P j) \<longleftrightarrow> P 0 \<and> (\<forall>j \<le> length xs. P (Suc j))" for P :: "nat \<Rightarrow> bool"
    by (simp only: less_Suc_eq_le [symmetric] All_less_Suc2)
  then show ?case using Cons by simp
qed (auto simp: startsWithText_def)

lemma endsWithText_iff: "endsWithText s t \<longleftrightarrow> (\<exists>u. s = u @ t)"
  unfolding endsWithText_def by (metis append_take_drop_id length_append le_add2 add_diff_cancel_right' append_eq_conv_conj)

lemma retained_upto:
  fixes s :: string
  defines "r n \<equiv> foldl (\<lambda>kept size'. if endsWithText s (take size' PREFIX) then size' else kept) 0 [1..<n]"
  shows "(r n = 0 \<or> r n < n \<and> endsWithText s (take (r n) PREFIX)) \<and> (\<forall>k < n. r n < k \<longrightarrow> \<not> endsWithText s (take k PREFIX))"
proof (induction n)
  case (Suc n)
  show ?case
  proof (cases "n = 0")
    case False
    then have "r (Suc n) = (if endsWithText s (take n PREFIX) then n else r n)" by (simp add: r_def)
    then show ?thesis using Suc by (auto simp: less_Suc_eq)
  qed (simp add: r_def)
qed (simp add: r_def)

lemma retained_spec:
  "(retained s = 0 \<or> retained s < length PREFIX \<and> endsWithText s (take (retained s) PREFIX))
   \<and> (\<forall>k < length PREFIX. retained s < k \<longrightarrow> \<not> endsWithText s (take k PREFIX))"
  using retained_upto [of s "length PREFIX"] unfolding retained_def .

lemma length_PREFIX: "length PREFIX = 11"
  by (simp add: PREFIX_def)

lemma retained_less: "retained s < length PREFIX"
  using retained_spec [of s] length_PREFIX by (elim conjE disjE) simp_all

lemma retained_ends: "endsWithText s (take (retained s) PREFIX)"
  using retained_spec [of s] by (elim conjE disjE) (simp_all add: endsWithText_def)

lemma retained_most: "k < length PREFIX \<Longrightarrow> endsWithText s (take k PREFIX) \<Longrightarrow> k \<le> retained s"
  using retained_spec [of s] by (meson not_le)

lemma retained_le: "retained s \<le> length s"
  using retained_ends [of s] retained_less [of s] by (simp add: endsWithText_def)

section \<open>A text cut anywhere\<close>

lemma startsWithText_within:
  "j + length t \<le> length p \<Longrightarrow> startsWithText (drop j (p @ c)) t = startsWithText (drop j p) t"
  by (simp add: startsWithText_def)

lemma startsWithText_length: "startsWithText s t \<Longrightarrow> length t \<le> length s"
  by (auto simp: startsWithText_iff)

lemma indexOf_append: "indexOf t p = Some m \<Longrightarrow> indexOf t (p @ c) = Some m"
  using indexOf_bound [of t p m] startsWithText_within [of _ t p c]
  unfolding indexOf_iff by (auto simp del: drop_append)

lemma indexOf_skip:
  "\<forall>j < n. \<not> startsWithText (drop j s) t \<Longrightarrow> n \<le> length s \<Longrightarrow> indexOf t s = map_option ((+) n) (indexOf t (drop n s))"
proof (induction n arbitrary: s)
  case 0
  then show ?case by (simp add: option.map_ident_strong)
next
  case (Suc n)
  then obtain x xs where s: "s = x # xs" by (cases s) auto
  have "\<not> startsWithText s t" using Suc.prems(1) by force
  moreover have "indexOf t xs = map_option ((+) n) (indexOf t (drop n xs))"
    using Suc.prems s by (intro Suc.IH) fastforce+
  ultimately show ?case by (simp add: s option.map_comp comp_def)
qed

lemma marker_after:
  assumes none: "indexOf PREFIX p = None" and j: "startsWithText (drop j (p @ c)) (take k PREFIX)" "j + k = length (p @ c) \<or> k = length PREFIX"
    and "j < length p" and k: "length p \<le> j + k" "k \<le> length PREFIX"
  shows "length p - retained p \<le> j"
proof -
  let ?k = "length p - j"
  have le: "?k \<le> k" using k(1) by simp
  have "take ?k (drop j (p @ c)) = take ?k (take k PREFIX)"
    using j(1) le k(2) unfolding startsWithText_def
    by (metis length_take min.absorb2 min.absorb1 take_take)
  then have eq: "drop j p = take ?k PREFIX" using le by (simp add: take_take min.absorb1)
  show ?thesis
  proof (cases "?k < length PREFIX")
    case True
    have "endsWithText p (take ?k PREFIX)"
      unfolding endsWithText_iff eq [symmetric] by (intro exI [of _ "take j p"]) simp
    from retained_most [OF True this] show ?thesis by simp
  next
    case False
    then have "startsWithText (drop j p) PREFIX"
      using eq k(2) le by (simp add: startsWithText_iff)
    then show ?thesis using none \<open>j < length p\<close> by (simp add: indexOf_None)
  qed
qed

lemma indexOf_retained:
  assumes "indexOf PREFIX p = None"
  defines "n \<equiv> length p - retained p"
  shows "indexOf PREFIX (p @ c) = map_option ((+) n) (indexOf PREFIX (drop n p @ c))"
proof -
  have "\<not> startsWithText (drop j (p @ c)) PREFIX" if "j < n" for j
  proof
    assume s: "startsWithText (drop j (p @ c)) PREFIX"
    show False
    proof (cases "length p \<le> j + length PREFIX")
      case True
      then have "n \<le> j"
        unfolding n_def using s that by (intro marker_after [OF assms(1), where k = "length PREFIX" and c = c]) (simp_all add: n_def)
      then show False using that by simp
    next
      case False
      then have "startsWithText (drop j p) PREFIX"
        using s startsWithText_within [of j PREFIX p c] by simp
      then show False using assms(1) that by (simp add: indexOf_None n_def)
    qed
  qed
  then show ?thesis using indexOf_skip [of n "p @ c" PREFIX] by (simp add: n_def)
qed

lemma endsWithText_append: "endsWithText y t \<Longrightarrow> endsWithText (q @ y) t"
  unfolding endsWithText_iff by (metis append_assoc)

lemma endsWithText_within: "length t \<le> length y \<Longrightarrow> endsWithText (q @ y) t = endsWithText y t"
  by (simp add: endsWithText_def)

lemma retained_append:
  assumes "indexOf PREFIX p = None"
  defines "n \<equiv> length p - retained p"
  shows "retained (p @ c) = retained (drop n p @ c)"
proof (rule antisym)
  let ?y = "drop n p @ c"
  have y: "p @ c = take n p @ ?y" by simp
  show "retained ?y \<le> retained (p @ c)"
    using endsWithText_append [OF retained_ends [of ?y], of "take n p", folded y] retained_less [of ?y] by (intro retained_most) simp_all
  let ?k = "retained (p @ c)"
  have "?k \<le> length ?y"
  proof (rule ccontr)
    assume "\<not> ?k \<le> length ?y"
    moreover define j where "j = length (p @ c) - ?k"
    ultimately have j: "j < n" "j + ?k = length (p @ c)" using retained_le [of "p @ c"] by (simp_all add: n_def)
    have "drop j (p @ c) = take ?k PREFIX"
    proof -
      have l: "length (take ?k PREFIX) = ?k" using retained_less [of "p @ c"] by simp
      show ?thesis using retained_ends [of "p @ c"] unfolding endsWithText_def j_def l by (rule conjunct2)
    qed
    then have "startsWithText (drop j (p @ c)) (take ?k PREFIX)" unfolding startsWithText_iff by (intro exI [of _ "[]"]) simp
    moreover have "j < length p" using j(1) unfolding n_def by linarith
    moreover have "length p \<le> j + ?k" using j(2) unfolding length_append by linarith
    ultimately have "n \<le> j"
      unfolding n_def using j(2) retained_less [of "p @ c"] marker_after [OF assms(1)] by (meson less_imp_le)
    then show False using j(1) by simp
  qed
  then have "endsWithText ?y (take ?k PREFIX)"
    using retained_ends [of "p @ c"] retained_less [of "p @ c"]
    by (simp add: endsWithText_within [of _ ?y "take n p", folded y])
  then show "?k \<le> retained ?y" by (rule retained_most [OF retained_less])
qed

section \<open>Reading chunk by chunk\<close>

lemma lastN_lastN: "lastN n (lastN n x @ y) = lastN n (x @ y)"
proof (cases "n \<le> length x")
  case True
  then have "length x + length y - n = (length x - n) + length y" by simp
  then show ?thesis using True by (simp add: lastN_def drop_drop add.commute)
qed (simp add: lastN_def)

lemma sliceEnd_sliceEnd: "sliceEnd l (sliceEnd l x @ y) = sliceEnd l (x @ y)"
  by (simp add: sliceEnd_def lastN_lastN split: option.splits)

lemma changeStep_simps [simp]:
  "logActive (changeStep i f r) = logActive r" "logPending (changeStep i f r) = logPending r"
  by (simp_all add: changeStep_def)

lemma appendLog_simps [simp]:
  "logActive (appendLog opts x r) = logActive r" "logPending (appendLog opts x r) = logPending r"
  "appendLog opts [] r = r"
  by (simp_all add: appendLog_def split: option.splits)

lemma appendLog_append: "appendLog opts y (appendLog opts x r) = appendLog opts (x @ y) r"
proof (cases "logActive r")
  case (Some i)
  show ?thesis
  proof (cases "x = [] \<or> y = [] \<or> selectedId opts \<noteq> None \<and> Some i \<noteq> selectedId opts")
    case True
    then show ?thesis using Some by (auto simp: appendLog_def)
  next
    case False
    then show ?thesis using Some
      by (auto simp: appendLog_def changeStep_def comp_def sliceEnd_sliceEnd intro!: map_cong)
  qed
qed (simp add: appendLog_def)

lemma pending_appendLog: "appendLog opts x (r\<lparr>logPending := p\<rparr>) = (appendLog opts x r)\<lparr>logPending := p\<rparr>"
  by (auto simp: appendLog_def changeStep_def split: option.splits)

lemma pending_applyFrame: "applyFrame utf8 opts t line (r\<lparr>logPending := p\<rparr>) = (applyFrame utf8 opts t line r)\<lparr>logPending := p\<rparr>"
  by (simp add: applyFrame_def startStep_def endStep_def changeStep_def Let_def split: option.splits prod.splits)

lemma drain_pending: "drain utf8 opts t final s (r\<lparr>logPending := p\<rparr>) = drain utf8 opts t final s r"
proof (induction utf8 opts t final s r rule: drain.induct)
  case (1 utf8 opts t final s r)
  show ?case
  proof (cases "indexOf PREFIX s")
    case None
    then show ?thesis by (subst (1 2) drain.simps) (simp add: Let_def pending_appendLog)
  next
    case (Some m)
    show ?thesis
    proof (cases "indexOf [CHR 0x0A] (drop m s)")
      case None
      then show ?thesis using Some by (subst (1 2) drain.simps) (simp add: Let_def pending_appendLog)
    next
      case (Some e)
      then show ?thesis using \<open>indexOf PREFIX s = Some m\<close> "1.IH" [OF \<open>indexOf PREFIX s = Some m\<close> refl refl Some]
        by (subst (1 2) drain.simps) (simp add: Let_def pending_appendLog pending_applyFrame)
    qed
  qed
qed

text \<open>No control line, from its marker on, is longer than the reader waits for.\<close>

definition shortMarkers :: "string \<Rightarrow> bool" where
  "shortMarkers s \<longleftrightarrow>
     list_all (\<lambda>i. \<not> startsWithText (drop i s) PREFIX \<or> length (takeWhile ((\<noteq>) CHR 0x0A) (drop i s)) \<le> 512) [0..<length s]"

lemma shortMarkers_drop: "shortMarkers s \<Longrightarrow> shortMarkers (drop n s)"
  by (auto simp: shortMarkers_def list_all_iff add.commute)

lemma shortMarkers_at:
  assumes "shortMarkers s" and "indexOf PREFIX s = Some m" and "indexOf [CHR 0x0A] (drop m s) = None"
  shows "length (drop m s) \<le> 512"
proof -
  have m: "startsWithText (drop m s) PREFIX" "m + length PREFIX \<le> length s"
    using assms(2) indexOf_bound [OF assms(2)] by (simp_all add: indexOf_iff)
  have "CHR 0x0A \<notin> set (drop m s)"
  proof
    assume "CHR 0x0A \<in> set (drop m s)"
    then obtain a b where "drop m s = a @ CHR 0x0A # b" by (meson split_list)
    then have "startsWithText (drop (length a) (drop m s)) [CHR 0x0A]" "length a \<le> length (drop m s)"
      by (simp_all add: startsWithText_def)
    then show False using assms(3) unfolding indexOf_None by blast
  qed
  then have whole: "takeWhile ((\<noteq>) CHR 0x0A) (drop m s) = drop m s" unfolding takeWhile_eq_all_conv by auto
  have "m < length s" using m(2) unfolding length_PREFIX by simp
  then have "length (takeWhile ((\<noteq>) CHR 0x0A) (drop m s)) \<le> 512"
    using assms(1) m(1) unfolding shortMarkers_def list_all_iff by simp
  then show ?thesis unfolding whole .
qed

lemma drain_skip:
  assumes "indexOf PREFIX (a @ q) = map_option ((+) (length a)) (indexOf PREFIX q)" and "retained (a @ q) = retained q"
  shows "drain utf8 opts t final q (appendLog opts a r) = drain utf8 opts t final (a @ q) r"
proof (cases "indexOf PREFIX q")
  case None
  then have aq: "indexOf PREFIX (a @ q) = None" using assms(1) by simp
  have n: "length (a @ q) - retained (a @ q) = length a + (length q - retained q)"
    using retained_le [of q] assms(2) by simp
  have t: "take (length a + i) (a @ q) = a @ take i q" "drop (length a + i) (a @ q) = drop i q" for i by simp_all
  show ?thesis by (subst (1 2) drain.simps) (simp only: None aq option.case Let_def n t appendLog_append)
next
  case (Some m)
  then have aq: "indexOf PREFIX (a @ q) = Some (length a + m)" using assms(1) by simp
  have t: "take (length a + i) (a @ q) = a @ take i q" "drop (length a + i) (a @ q) = drop i q" for i by simp_all
  show ?thesis by (subst (1 2) drain.simps) (simp only: Some aq option.case Let_def t appendLog_append)
qed

lemma drain_append:
  "shortMarkers s \<Longrightarrow>
   drain utf8 opts t final (logPending (drain utf8 opts t False s r) @ c) (drain utf8 opts t False s r)
     = drain utf8 opts t final (s @ c) r"
proof (induction "length s" arbitrary: s r rule: less_induct)
  case less
  show ?case
  proof (cases "indexOf PREFIX s")
    case None
    let ?n = "length s - retained s"
    have d: "drain utf8 opts t False s r = (appendLog opts (take ?n s) r)\<lparr>logPending := drop ?n s\<rparr>"
      using None by (subst drain.simps) (simp add: Let_def)
    show ?thesis unfolding d drain_pending
    proof (simp add: drain_pending)
      show "drain utf8 opts t final (drop ?n s @ c) (appendLog opts (take ?n s) r) = drain utf8 opts t final (s @ c) r"
        using drain_skip [of "take ?n s" "drop ?n s @ c" utf8 opts t final r] indexOf_retained [OF None, of c]
          retained_append [OF None, of c] by (simp add: min.absorb2 flip: append_assoc)
    qed
  next
    case (Some m)
    show ?thesis
    proof (cases "indexOf [CHR 0x0A] (drop m s)")
      case None
      have short: "length (drop m s) \<le> 512" by (rule shortMarkers_at [OF less.prems Some None])
      have d: "drain utf8 opts t False s r = (appendLog opts (take m s) r)\<lparr>logPending := drop m s\<rparr>"
        using Some None short by (subst drain.simps) (simp add: Let_def)
      have m: "m \<le> length s" using indexOf_bound [OF Some] by simp
      have zero: "indexOf PREFIX (drop m s @ c) = Some 0"
        using Some indexOf_bound [OF Some] startsWithText_within [of m PREFIX s c]
        by (simp add: indexOf_iff)
      show ?thesis unfolding d
        using zero indexOf_append [OF Some, of c] m
        by (simp add: drain_pending) (subst (1 2) drain.simps, simp add: Let_def)
    next
      case E: (Some e)
      let ?r = "applyFrame utf8 opts t (take e (drop m s)) (appendLog opts (take m s) r)"
      let ?s = "drop (Suc e) (drop m s)"
      have b: "m + length PREFIX \<le> length s" "e + 1 \<le> length (drop m s)"
        using indexOf_bound [OF Some] indexOf_bound [OF E] by simp_all
      then have "length ?s < length s" by (simp add: length_PREFIX)
      from less.hyps [OF this shortMarkers_drop [OF shortMarkers_drop [OF less.prems]]]
      have IH: "drain utf8 opts t final (logPending (drain utf8 opts t False ?s ?r) @ c) (drain utf8 opts t False ?s ?r)
        = drain utf8 opts t final (?s @ c) ?r" .
      have d: "drain utf8 opts t False s r = drain utf8 opts t False ?s ?r"
        using Some E by (subst drain.simps) (simp add: Let_def)
      have e': "indexOf [CHR 0x0A] (drop m (s @ c)) = Some e"
        using indexOf_append [OF E, of c] b by simp
      have "drain utf8 opts t final (s @ c) r = drain utf8 opts t final (?s @ c) ?r"
        using indexOf_append [OF Some, of c] e' b by (subst drain.simps) (simp add: Let_def)
      then show ?thesis unfolding d using IH by simp
    qed
  qed
qed

definition pushAll ::
    "(bytes \<Rightarrow> string option) \<Rightarrow> log_options \<Rightarrow> instant option \<Rightarrow> string list \<Rightarrow> log_reader \<Rightarrow> log_reader" where
  "pushAll utf8 opts t chunks r = foldl (\<lambda>reader chunk. push utf8 opts t False chunk reader) r chunks"

lemma takeWhile_longer: "length (takeWhile P a) \<le> length (takeWhile P (a @ b))"
  by (induction a) simp_all

lemma shortMarkers_prefix:
  assumes "shortMarkers (a @ b)"
  shows "shortMarkers a"
  unfolding shortMarkers_def list_all_iff
proof
  fix i assume "i \<in> set [0..<length a]"
  then have i: "i < length a" "drop i (a @ b) = drop i a @ b" by simp_all
  have "length (takeWhile ((\<noteq>) CHR 0x0A) (drop i a)) \<le> length (takeWhile ((\<noteq>) CHR 0x0A) (drop i (a @ b)))"
    unfolding i(2) by (rule takeWhile_longer)
  moreover have "\<not> startsWithText (drop i (a @ b)) PREFIX \<or> length (takeWhile ((\<noteq>) CHR 0x0A) (drop i (a @ b))) \<le> 512"
    using assms i(1) unfolding shortMarkers_def list_all_iff by (simp del: drop_append)
  moreover have "startsWithText (drop i a) PREFIX \<Longrightarrow> startsWithText (drop i (a @ b)) PREFIX"
    unfolding i(2) by (auto simp: startsWithText_iff)
  ultimately show "\<not> startsWithText (drop i a) PREFIX \<or> length (takeWhile ((\<noteq>) CHR 0x0A) (drop i a)) \<le> 512"
    by linarith
qed

lemma pushAll_concat:
  "shortMarkers (concat chunks) \<Longrightarrow>
   push utf8 opts t final c (pushAll utf8 opts t chunks newReader) = drain utf8 opts t final (concat chunks @ c) newReader"
proof (induction chunks arbitrary: final c rule: rev_induct)
  case (snoc x xs)
  have short: "shortMarkers (concat xs)" using shortMarkers_prefix [of "concat xs" x] snoc.prems by simp
  let ?r = "drain utf8 opts t False (concat xs @ x) newReader"
  have "pushAll utf8 opts t (xs @ [x]) newReader = ?r"
    using snoc.IH [OF short, of False x] by (simp add: pushAll_def)
  then have "push utf8 opts t final c (pushAll utf8 opts t (xs @ [x]) newReader) = drain utf8 opts t final (logPending ?r @ c) ?r"
    by (simp add: push_def)
  also have "\<dots> = drain utf8 opts t final ((concat xs @ x) @ c) newReader"
    using snoc.prems by (intro drain_append) simp
  finally show ?case by simp
qed (simp add: pushAll_def push_def newReader_def)

text \<open>
  C40. Reading a log chunk by chunk gives the reader that reading it whole gives, wherever the cuts
  fall: inside a control line, inside its marker, or in a script's output that is cut to its limit.
  The log's control lines must be no longer than the 512 characters the reader waits for.
\<close>

theorem chunks_irrelevant:
  assumes "shortMarkers (concat chunks)"
  shows "push utf8 opts t final rest (pushAll utf8 opts t chunks newReader)
    = push utf8 opts t final (concat chunks @ rest) newReader"
  using pushAll_concat [OF assms] by (simp add: push_def newReader_def)

definition asText :: "bytes \<Rightarrow> string option" where
  "asText b = (if b = [0x61] then Some ''a'' else None)"
definition sampleOptions :: log_options where
  "sampleOptions = \<lparr>knownIds = Some [''a''], outputLimit = Some 4, selectedId = None\<rparr>"
lemma sample_id: "fromBase64 ''YQ'' = Some [0x61]" by (simp add: fromBase64_def base64Alphabet_def dropPadding_def value64_def decodeGroups.simps Let_def)

definition sampleLog :: "string list" where
  "sampleLog = [''__GITSPACE_STA'', ''RT__YQ'' @ [CHR 0x0A] @ ''hel'', ''lo__GITSP'', ''ACE_END__YQ:0'' @ [CHR 0x0A]]"
lemma sample_text: "frameText asText ''YQ'' = Some ''a''" by (simp add: frameText_def sample_id asText_def)
lemma sample_options: "selectedId sampleOptions = None" "outputLimit sampleOptions = Some 4" by (simp_all add: sampleOptions_def)
lemma sample_start: "applyFrame asText sampleOptions None ''__GITSPACE_START__YQ'' r = startStep None ''a'' r"
proof -
  have "readFrame ''__GITSPACE_START__YQ'' = Some (True, ''YQ'', None)" by code_simp
  then show ?thesis by (simp add: applyFrame_def sample_text sampleOptions_def)
qed
lemma sample_end: "logActive r = Some ''a'' \<Longrightarrow> applyFrame asText sampleOptions None ''__GITSPACE_END__YQ:0'' r = endStep None ''a'' 0 r"
proof -
  have "readFrame ''__GITSPACE_END__YQ:0'' = Some (False, ''YQ'', Some ''0'')" "readNumber ''0'' = 0" by code_simp+
  then show "logActive r = Some ''a'' \<Longrightarrow> ?thesis" by (simp add: applyFrame_def sample_text sampleOptions_def safeNumber_def)
qed
lemma sample_read:
  "logResults (push asText sampleOptions None True (concat sampleLog @ ''tail'') newReader)
     = [\<lparr>resultId = ''a'', resultExit = Some 0, resultOutput = ''ello'', resultStarted = None, resultFinished = None\<rparr>]"
 by (simp add: push_def drain.simps PREFIX_def sampleLog_def newReader_def startsWithText_def sample_start startStep_def appendLog_def sample_end changeStep_def endStep_def Let_def sample_options sliceEnd_def lastN_def retained_def endsWithText_def upt_rec)

lemma chunks_irrelevant_witness:
  "push asText sampleOptions None True ''tail'' (pushAll asText sampleOptions None sampleLog newReader)
     = push asText sampleOptions None True (concat sampleLog @ ''tail'') newReader
   \<and> logResults (push asText sampleOptions None True ''tail'' (pushAll asText sampleOptions None sampleLog newReader))
     = [\<lparr>resultId = ''a'', resultExit = Some 0, resultOutput = ''ello'', resultStarted = None, resultFinished = None\<rparr>]"
proof -
  have "shortMarkers (concat sampleLog)" by code_simp
  then have "push asText sampleOptions None True ''tail'' (pushAll asText sampleOptions None sampleLog newReader)
     = push asText sampleOptions None True (concat sampleLog @ ''tail'') newReader"
    by (rule chunks_irrelevant)
  then show ?thesis using sample_read by simp
qed

end
