(* ===== verification/Machine_Credentials.thy ===== *)
theory Machine_Credentials
  imports Device_Grants Environment_Bundle
begin

text \<open>
  \<open>protocol/src/credential-vault.ts\<close>, and the relay authorization of \<open>protocol/src/relay.ts\<close>: what a
  machine holds and signs. The root key, or a browser the account trusts with its fleet, signs the
  grant of a machine; a machine the account provisions signs its own, which proves possession only.
  The machine's key signs its requests. The sealing of secrets (AES-GCM, X25519 and HKDF) is not modelled.
\<close>

section \<open>Machine grants\<close>

datatype GrantCapability =
  Credential_access | Credential_refresh | Credential_manage | Storage_provision | Storage_access | Space_control

fun grantCapabilityText :: "GrantCapability \<Rightarrow> string" where
  "grantCapabilityText Credential_access = ''credential.access''"
| "grantCapabilityText Credential_refresh = ''credential.refresh''"
| "grantCapabilityText Credential_manage = ''credential.manage''"
| "grantCapabilityText Storage_provision = ''storage.provision''"
| "grantCapabilityText Storage_access = ''storage.access''"
| "grantCapabilityText Space_control = ''space.control''"

record CredentialAuthorityGrant =
  grantUser :: string
  grantMachine :: string
  grantSigningKey :: string
  grantExchangeKey :: string
  grantCapabilities :: "GrantCapability list"
  grantGeneration :: int
  grantIssuer :: "string option"
  grantExpires :: "int option"

record SignedCredentialAuthorityGrant =
  machineGrant :: CredentialAuthorityGrant
  grantSignature :: string
  issuerChain :: "DeviceGrantRecord list option"

definition positiveInt :: "int \<Rightarrow> bool" where
  "positiveInt n \<longleftrightarrow> safeInt n \<and> 0 < n"

definition credentialAuthorityGrantSchema :: "platform \<Rightarrow> CredentialAuthorityGrant \<Rightarrow> bool" where
  "credentialAuthorityGrantSchema pf g \<longleftrightarrow>
     idSchema (grantUser g) \<and> idSchema (grantMachine g) \<and> keySchema (grantSigningKey g) \<and> keySchema (grantExchangeKey g)
     \<and> grantCapabilities g \<noteq> [] \<and> positiveInt (grantGeneration g)
     \<and> pred_option (isUuid pf) (grantIssuer g) \<and> pred_option positiveInt (grantExpires g)"

definition signedCredentialAuthorityGrantSchema :: "platform \<Rightarrow> SignedCredentialAuthorityGrant \<Rightarrow> bool" where
  "signedCredentialAuthorityGrantSchema pf s \<longleftrightarrow>
     credentialAuthorityGrantSchema pf (machineGrant s) \<and> signatureSchema (grantSignature s)
     \<and> pred_option (\<lambda>rs. 1 \<le> length rs \<and> length rs \<le> MAX_DELEGATION_DEPTH \<and> list_all (deviceGrantRecordSchema pf) rs) (issuerChain s)"

definition optionalField :: "string \<Rightarrow> ('a \<Rightarrow> json) \<Rightarrow> 'a option \<Rightarrow> (string \<times> json) list" where
  "optionalField k f v = (case v of None \<Rightarrow> [] | Some x \<Rightarrow> [(k, f x)])"

definition grantJson :: "CredentialAuthorityGrant \<Rightarrow> json" where
  "grantJson g = JObject ([
     (''version'', JNumber 1), (''userId'', JString (grantUser g)), (''machineId'', JString (grantMachine g)),
     (''signingPublicKey'', JString (grantSigningKey g)), (''exchangePublicKey'', JString (grantExchangeKey g)),
     (''capabilities'', JArray (map (\<lambda>c. JString (grantCapabilityText c)) (grantCapabilities g))),
     (''generation'', JNumber (grantGeneration g))]
     @ optionalField ''issuerDeviceId'' JString (grantIssuer g) @ optionalField ''expiresAt'' JNumber (grantExpires g))"

definition credentialAuthorityGrantPayload :: "platform \<Rightarrow> CredentialAuthorityGrant \<Rightarrow> bytes option" where
  "credentialAuthorityGrantPayload pf g = (if credentialAuthorityGrantSchema pf g then Some (payload pf (grantJson g)) else None)"

definition signCredentialAuthorityGrant :: "platform \<Rightarrow> CredentialAuthorityGrant \<Rightarrow> bytes \<Rightarrow> SignedCredentialAuthorityGrant option" where
  "signCredentialAuthorityGrant pf g key =
     (if credentialAuthorityGrantSchema pf g
      then Some \<lparr>machineGrant = g, grantSignature = toBase64 (ed25519Sign pf (payload pf (grantJson g)) key), issuerChain = None\<rparr>
      else None)"

text \<open>The capabilities a browser needs that enrolls machines, and what it may not hand out.\<close>

definition delegatorCapabilities :: "DeviceCapability list" where
  "delegatorCapabilities = [Devices_manage, Fleet_control, Rpc_write, Session_prompt, Deployment_control]"

definition delegates :: "VerifiedDevice \<Rightarrow> int \<Rightarrow> CredentialAuthorityGrant \<Rightarrow> bool" where
  "delegates d expires g \<longleftrightarrow>
     kind d = Browser \<and> mayDelegate d \<and> deviceScope d = User_scope
     \<and> list_all (\<lambda>c. c \<in> set (deviceCapabilities d)) delegatorCapabilities
     \<and> (case verifiedExpiresAt d of None \<Rightarrow> True | Some t \<Rightarrow> expires \<le> t)
     \<and> Storage_provision \<notin> set (grantCapabilities g)"

text \<open>\<open>new Map\<close> of the embedded chain keeps the last record of an id; a second one is rejected.\<close>

definition embeddedResolver :: "DeviceGrantRecord list \<Rightarrow> resolver" where
  "embeddedResolver rs i = map_of (rev (map (\<lambda>r. (deviceId (binding r), r)) rs)) i"

definition grantResolver :: "resolver option \<Rightarrow> DeviceGrantRecord list \<Rightarrow> string \<Rightarrow> resolver" where
  "grantResolver canonical' rs user i =
     (case (case canonical' of Some resolve \<Rightarrow> resolve i | None \<Rightarrow> embeddedResolver rs i) of
        None \<Rightarrow> None
      | Some r \<Rightarrow> if recordUser r = user then Some r else None)"

text \<open>The key a grant must be signed with.\<close>

definition grantKey ::
    "platform \<Rightarrow> SignedCredentialAuthorityGrant \<Rightarrow> bytes \<Rightarrow> int \<Rightarrow> resolver option \<Rightarrow> bytes option" where
  "grantKey pf s root now canonical' =
     (let g = machineGrant s in
      case grantIssuer g of
        None \<Rightarrow> (case issuerChain s of None \<Rightarrow> Some root | Some _ \<Rightarrow> None)
      | Some i \<Rightarrow>
          (case (issuerChain s, grantExpires g) of
             (Some rs, Some expires) \<Rightarrow>
               if \<not> distinct (map (\<lambda>r. deviceId (binding r)) rs) then None
               else do {
                 r \<leftarrow> grantResolver canonical' rs (grantUser g) i;
                 d \<leftarrow> verifyDeviceGrantRecord pf r root now (grantResolver canonical' rs (grantUser g)) 0;
                 if delegates d expires g then Some (publicKey d) else None
               }
           | _ \<Rightarrow> None))"

definition verifyCredentialAuthorityGrant ::
    "platform \<Rightarrow> SignedCredentialAuthorityGrant \<Rightarrow> bytes \<Rightarrow> int \<Rightarrow> resolver option \<Rightarrow> CredentialAuthorityGrant option" where
  "verifyCredentialAuthorityGrant pf s root now canonical' =
     (let g = machineGrant s in
      if \<not> signedCredentialAuthorityGrantSchema pf s then None
      else if (case grantExpires g of Some t \<Rightarrow> t \<le> now | None \<Rightarrow> False) then None
      else (case grantKey pf s root now canonical' of
          None \<Rightarrow> None
        | Some key \<Rightarrow> if verifies pf (grantSignature s) (payload pf (grantJson g)) key then Some g else None))"

definition verifyManagedDeviceGrant :: "platform \<Rightarrow> SignedCredentialAuthorityGrant \<Rightarrow> int \<Rightarrow> CredentialAuthorityGrant option" where
  "verifyManagedDeviceGrant pf s now =
     (if \<not> signedCredentialAuthorityGrantSchema pf s \<or> issuerChain s \<noteq> None \<or> grantIssuer (machineGrant s) \<noteq> None then None
      else case fromBase64 (grantSigningKey (machineGrant s)) of
          None \<Rightarrow> None
        | Some key \<Rightarrow> verifyCredentialAuthorityGrant pf s key now None)"

section \<open>Signed requests of a machine\<close>

record CredentialAccessRequest =
  accessUser :: string
  accessMachine :: string
  accessCredential :: string
  accessTimestamp :: int
  accessNonce :: string
  accessSignature :: string

definition credentialAccessRequestSchema :: "platform \<Rightarrow> CredentialAccessRequest \<Rightarrow> bool" where
  "credentialAccessRequestSchema pf q \<longleftrightarrow>
     idSchema (accessUser q) \<and> idSchema (accessMachine q) \<and> idSchema (accessCredential q)
     \<and> safeInt (accessTimestamp q) \<and> 0 \<le> accessTimestamp q \<and> isUuid pf (accessNonce q) \<and> signatureSchema (accessSignature q)"

definition accessRequestPayload :: "platform \<Rightarrow> CredentialAccessRequest \<Rightarrow> bytes" where
  "accessRequestPayload pf q = payload pf (JObject [
     (''version'', JNumber 1), (''userId'', JString (accessUser q)), (''machineId'', JString (accessMachine q)),
     (''credentialId'', JString (accessCredential q)), (''timestamp'', JNumber (accessTimestamp q)),
     (''nonce'', JString (accessNonce q))])"

text \<open>The request with its signature still to come is \<open>draft\<close>.\<close>

definition createCredentialAccessRequest :: "platform \<Rightarrow> CredentialAccessRequest \<Rightarrow> bytes \<Rightarrow> CredentialAccessRequest option" where
  "createCredentialAccessRequest pf draft key =
     (let q = draft\<lparr>accessSignature := toBase64 (ed25519Sign pf (accessRequestPayload pf draft) key)\<rparr> in
      if credentialAccessRequestSchema pf q then Some q else None)"

definition verifyCredentialAccessRequest :: "platform \<Rightarrow> CredentialAccessRequest \<Rightarrow> bytes \<Rightarrow> bool" where
  "verifyCredentialAccessRequest pf q key \<longleftrightarrow>
     credentialAccessRequestSchema pf q \<and> verifies pf (accessSignature q) (accessRequestPayload pf q) key"

definition controlOperations :: "string list" where
  "controlOperations = [
     ''secrets.materialize'', ''secrets.effective.list'', ''mcp.connections.status'', ''mcp.audit.append'',
     ''project.get'', ''project.environment.get'', ''project.environment.mutate'', ''project.environment.runLog'',
     ''project.workspaces.list'', ''project.mcp.grants.list'', ''project.routes.list'', ''project.routes.lease'',
     ''project.routes.pin'', ''project.routes.release'', ''project.routes.ingress'', ''project.events.append'',
     ''devices.list'', ''browser.pair'', ''account.issues.list'', ''account.issues.resolve'',
     ''deploy.stage'', ''deploy.launch'', ''deploy.status'', ''deploy.launchProgress'', ''deploy.machineApplied'',
     ''deploy.launcherStarted'', ''deploy.machineChannelApplied'', ''deploy.machineProtocol'',
     ''data.head'', ''data.get'', ''data.put'', ''data.multipart.create'', ''data.multipart.part'',
     ''data.multipart.complete'', ''data.multipart.abort'', ''storage.migration.start'', ''storage.migration.status'',
     ''storage.migration.verify'', ''storage.migration.purge'', ''lfs.pin'', ''lfs.release'',
     ''catalog.machine.put'', ''catalog.machine.list'', ''settings.get'', ''settings.git.get'', ''settings.git.update'',
     ''settings.subscribe'', ''runtime.detach'', ''runtime.heartbeat'', ''runtime.repository.credentials'',
     ''runtime.repository.originAccess'', ''runtime.repository.githubToken'', ''runtime.browser.authority'',
     ''runtime.snapshot'', ''runtime.submit'', ''runtime.cancel'', ''runtime.answer'', ''runtime.session'',
     ''runtime.snapshot.commit'', ''runtime.assignments'', ''runtime.attachment.cache.request'',
     ''runtime.attachment.ready'', ''runtime.process.exited'']"

record SignedControlRequest =
  controlUser :: string
  controlMachine :: string
  operation :: string
  controlTimestamp :: int
  controlNonce :: string
  controlPayload :: "(string \<times> json) list"
  controlSignature :: string

definition signedControlRequestSchema :: "platform \<Rightarrow> SignedControlRequest \<Rightarrow> bool" where
  "signedControlRequestSchema pf q \<longleftrightarrow>
     idSchema (controlUser q) \<and> idSchema (controlMachine q) \<and> operation q \<in> set controlOperations
     \<and> safeInt (controlTimestamp q) \<and> 0 \<le> controlTimestamp q \<and> isUuid pf (controlNonce q) \<and> signatureSchema (controlSignature q)"

definition controlJson :: "SignedControlRequest \<Rightarrow> json" where
  "controlJson q = JObject [
     (''version'', JNumber 1), (''userId'', JString (controlUser q)), (''machineId'', JString (controlMachine q)),
     (''operation'', JString (operation q)), (''timestamp'', JNumber (controlTimestamp q)),
     (''nonce'', JString (controlNonce q)), (''payload'', JObject (controlPayload q))]"

fun objectOf :: "json \<Rightarrow> (string \<times> json) list option" where
  "objectOf (JObject fs) = Some fs"
| "objectOf v = None"

text \<open>\<open>signedControlRequestSchema.safeParse\<close> of a request that came as JSON.\<close>

definition readControlRequest :: "platform \<Rightarrow> json \<Rightarrow> SignedControlRequest option" where
  "readControlRequest pf v = do {
     version \<leftarrow> intField ''version'' v;
     u \<leftarrow> textField ''userId'' v; m \<leftarrow> textField ''machineId'' v; op \<leftarrow> textField ''operation'' v;
     t \<leftarrow> intField ''timestamp'' v; n \<leftarrow> textField ''nonce'' v;
     p \<leftarrow> Option.bind (fieldOf ''payload'' v) objectOf; s \<leftarrow> textField ''signature'' v;
     let q = \<lparr>controlUser = u, controlMachine = m, operation = op, controlTimestamp = t, controlNonce = n,
       controlPayload = p, controlSignature = s\<rparr>;
     if version = 1 \<and> signedControlRequestSchema pf q then Some q else None
   }"

definition createSignedControlRequest :: "platform \<Rightarrow> SignedControlRequest \<Rightarrow> bytes \<Rightarrow> SignedControlRequest option" where
  "createSignedControlRequest pf draft key =
     (let q = draft\<lparr>controlSignature := toBase64 (ed25519Sign pf (payload pf (controlJson draft)) key)\<rparr> in
      if signedControlRequestSchema pf q then Some q else None)"

definition verifySignedControlRequest :: "platform \<Rightarrow> SignedControlRequest \<Rightarrow> bytes \<Rightarrow> bool" where
  "verifySignedControlRequest pf q key \<longleftrightarrow>
     signedControlRequestSchema pf q \<and> verifies pf (controlSignature q) (payload pf (controlJson q)) key"

definition SIGNED_REQUEST_MAX_AGE_MS :: int where "SIGNED_REQUEST_MAX_AGE_MS = 60000"
definition SIGNED_UPLOAD_MAX_AGE_MS :: int where "SIGNED_UPLOAD_MAX_AGE_MS = 30 * 60000"

section \<open>Relay authorization\<close>

definition authorizationPayload :: "string \<Rightarrow> string \<Rightarrow> string \<Rightarrow> bytes" where
  "authorizationPayload time nonce' target = encodeText (time @ [CHR 0x0A] @ nonce' @ [CHR 0x0A] @ target)"

definition createRelayAuthorization :: "platform \<Rightarrow> bytes \<Rightarrow> string \<Rightarrow> int \<Rightarrow> string \<Rightarrow> string" where
  "createRelayAuthorization pf key target now nonce' =
     ''GitSpace '' @ printInt now @ ''.'' @ nonce' @ ''.'' @
     toBase64Url (ed25519Sign pf (authorizationPayload (printInt now) nonce' target) key)"

definition nonceChar :: "char \<Rightarrow> bool" where
  "nonceChar c \<longleftrightarrow> isNumeral c \<or> c \<in> set ''abcdef-''"

text \<open>\<open>/^GitSpace (\d+)\.([0-9a-f-]{36})\.([A-Za-z0-9_-]+)$/u\<close>; none of the classes has a dot.\<close>

definition readAuthorization :: "string \<Rightarrow> (string \<times> string \<times> string) option" where
  "readAuthorization header =
     (if \<not> startsWithText header ''GitSpace '' then None
      else case splitOn CHR ''.'' (drop 9 header) of
          [digits, nonce', signature] \<Rightarrow>
            if digits \<noteq> [] \<and> list_all isNumeral digits \<and> length nonce' = 36 \<and> list_all nonceChar nonce'
              \<and> signature \<noteq> [] \<and> list_all (\<lambda>c. isWord c \<or> c = CHR ''-'') signature
            then Some (digits, nonce', signature) else None
        | _ \<Rightarrow> None)"

datatype RelayDenial = Relay_malformed | Relay_key_invalid | Relay_signature_invalid | Relay_expired

text \<open>\<open>Number(match[1])\<close>: the timestamp is signed as it prints, not as it was written.\<close>

definition verifyRelayAuthorization ::
    "platform \<Rightarrow> string option \<Rightarrow> string \<Rightarrow> string \<Rightarrow> int \<Rightarrow> int \<Rightarrow> RelayDenial + int \<times> string" where
  "verifyRelayAuthorization pf header key target now maxSkewMs =
     (case Option.bind header readAuthorization of
        None \<Rightarrow> Inl Relay_malformed
      | Some (digits, nonce', signature) \<Rightarrow>
          let t = int (parseRadix 10 digits) in
          if \<not> safeInt t then Inl Relay_malformed
          else case (fromBase64Url signature, fromBase64 key) of
              (Some s, Some k) \<Rightarrow>
                (case ed25519Verify pf s (authorizationPayload (printInt t) nonce' target) k of
                   None \<Rightarrow> Inl Relay_key_invalid
                 | Some False \<Rightarrow> Inl Relay_signature_invalid
                 | Some True \<Rightarrow> if maxSkewMs < \<bar>now - t\<bar> then Inl Relay_expired else Inr (t, nonce'))
            | _ \<Rightarrow> Inl Relay_key_invalid)"

end
