(* ===== verification/Device_Authority.thy ===== *)
theory Device_Authority
  imports Machine_Credentials "HOL-Library.AList"
begin

text \<open>
  \<open>account-worker/src/device-authority.ts\<close>, its \<open>DeviceVerifier\<close>: every request of a machine or a
  device is checked against the registry of the account's credentials. The outcome of a verification
  is remembered under the identity of the credential and of the issuers above it, until the first of
  them expires. The memo is threaded through the operations; without one it is \<open>None\<close>. A \<open>Map\<close> is
  the list of its entries, and \<open>Infinity\<close>, for a time, is \<open>None\<close>.
\<close>

section \<open>Registry and verdicts\<close>

record MachineCredential =
  credentialMachine :: string
  machineSigningKey :: string
  machineExchangeKey :: string
  machineCapabilities :: "string list"
  machineGeneration :: int
  pairedGrant :: "SignedCredentialAuthorityGrant option"

record DeviceRegistrySnapshot =
  snapshotUser :: string
  snapshotRoot :: string
  snapshotMachines :: "MachineCredential list"
  snapshotDevices :: "DeviceGrantRecord list"

record DeviceRegistry =
  registryUser :: string
  registryRoot :: string
  machineRow :: "string \<Rightarrow> MachineCredential option"
  deviceRow :: "string \<Rightarrow> DeviceGrantRecord option"

definition snapshotRegistry :: "DeviceRegistrySnapshot \<Rightarrow> DeviceRegistry" where
  "snapshotRegistry s = \<lparr>registryUser = snapshotUser s, registryRoot = snapshotRoot s,
     machineRow = map_of (rev (map (\<lambda>m. (credentialMachine m, m)) (snapshotMachines s))),
     deviceRow = map_of (rev (map (\<lambda>r. (deviceId (binding r), r)) (snapshotDevices s)))\<rparr>"

datatype 'a DeviceVerdict = Allowed 'a | Rejected (code: string) (message: string) (miss: bool) | Throws

definition rejectHard :: "string \<Rightarrow> string \<Rightarrow> 'a DeviceVerdict" where
  "rejectHard c m = Rejected c m False"

definition requestExpired :: "'a DeviceVerdict" where
  "requestExpired = rejectHard ''REQUEST_EXPIRED'' ''Signed request expired''"

text \<open>The verifier's registry with the root key its constructor decodes; a key that does not decode throws.\<close>

type_synonym verifier = "(DeviceRegistry \<times> bytes) option"

definition newVerifier :: "DeviceRegistry option \<Rightarrow> verifier option" where
  "newVerifier registry =
     (case registry of
        None \<Rightarrow> Some None
      | Some r \<Rightarrow> map_option (\<lambda>key. Some (r, key)) (fromBase64 (registryRoot r)))"

definition resolveIn :: "DeviceRegistry \<Rightarrow> resolver" where
  "resolveIn reg i =
     (case deviceRow reg i of None \<Rightarrow> None | Some r \<Rightarrow> if recordUser r = registryUser reg then Some r else None)"

section \<open>Issuer chains\<close>

definition earlier :: "int option \<Rightarrow> int option \<Rightarrow> int option" where
  "earlier a b = (case (a, b) of (Some x, Some y) \<Rightarrow> Some (min x y) | (None, _) \<Rightarrow> b | (_, None) \<Rightarrow> a)"

definition before :: "int \<Rightarrow> int option \<Rightarrow> bool" where
  "before now until = (case until of None \<Rightarrow> True | Some t \<Rightarrow> now < t)"

definition issuerId :: "DeviceGrantRecord \<Rightarrow> string option" where
  "issuerId r = (case issuer (signedInvite r) of Root \<Rightarrow> None | Device i \<Rightarrow> Some i)"

definition linkText :: "string \<Rightarrow> DeviceGrantRecord option \<Rightarrow> string" where
  "linkText i r = ''/'' @ i @ '':'' @ (case r of None \<Rightarrow> ''-'' | Some x \<Rightarrow> printInt (generation x))"

text \<open>The loop of \<open>chain\<close>; its first argument is the number of turns left.\<close>

fun chainLoop :: "nat \<Rightarrow> resolver \<Rightarrow> string option \<Rightarrow> string \<Rightarrow> int option \<Rightarrow> string \<times> int option" where
  "chainLoop (Suc n) resolve (Some i) key until =
     (case resolve i of
        None \<Rightarrow> (key @ linkText i None, until)
      | Some r \<Rightarrow> chainLoop n resolve (issuerId r) (key @ linkText i (Some r)) (earlier until (deviceGrantExpiresAt r)))"
| "chainLoop _ resolve _ key until = (key, until)"

definition chain :: "DeviceRegistry \<Rightarrow> string option \<Rightarrow> string \<times> int option" where
  "chain reg i = chainLoop (MAX_DELEGATION_DEPTH + 1) (resolveIn reg) i [] None"

section \<open>The memo\<close>

type_synonym 'a remembered = "'a \<times> int option"

record memo =
  machineMemo :: "(string \<times> bool remembered) list"
  deviceMemo :: "(string \<times> VerifiedDevice option remembered) list"
  grantMemo :: "(string \<times> (CredentialAuthorityGrant \<times> bool) option remembered) list"

definition noMemo :: memo where "noMemo = \<lparr>machineMemo = [], deviceMemo = [], grantMemo = []\<rparr>"

definition MEMO_LIMIT :: nat where "MEMO_LIMIT = 4096"

definition recall :: "(string \<times> 'a remembered) list \<Rightarrow> string \<Rightarrow> int \<Rightarrow> 'a option" where
  "recall entries key now =
     (case map_of entries key of
        None \<Rightarrow> None
      | Some (v, until) \<Rightarrow> if before now until then Some v else None)"

definition keep :: "(string \<times> 'a remembered) list \<Rightarrow> string \<Rightarrow> 'a remembered \<Rightarrow> (string \<times> 'a remembered) list" where
  "keep entries key computed = AList.update key computed (if MEMO_LIMIT \<le> length entries then [] else entries)"

definition remember :: "(string \<times> 'a remembered) list \<Rightarrow> string \<Rightarrow> int \<Rightarrow> 'a remembered \<Rightarrow> 'a \<times> (string \<times> 'a remembered) list" where
  "remember entries key now computed =
     (case recall entries key now of
        Some v \<Rightarrow> (v, entries)
      | None \<Rightarrow> (fst computed, keep entries key computed))"

section \<open>Verification\<close>

definition machineKey :: "string \<Rightarrow> int \<Rightarrow> string \<Rightarrow> string" where
  "machineKey i g links = i @ '':'' @ printInt g @ links"

definition machineCheck :: "platform \<Rightarrow> DeviceRegistry \<Rightarrow> bytes \<Rightarrow> SignedCredentialAuthorityGrant \<Rightarrow> int \<Rightarrow> bool remembered" where
  "machineCheck pf reg root grant now =
     (case verifyCredentialAuthorityGrant pf grant root now (Some (resolveIn reg)) of
        None \<Rightarrow> (False, None)
      | Some g \<Rightarrow> (True, earlier (grantExpires g) (snd (chain reg (grantIssuer (machineGrant grant))))))"

definition machine ::
    "platform \<Rightarrow> verifier \<Rightarrow> string \<Rightarrow> int \<Rightarrow> memo option \<Rightarrow> MachineCredential option \<times> memo option" where
  "machine pf v i now m =
     (case v of
        None \<Rightarrow> (None, m)
      | Some (reg, root) \<Rightarrow>
          (case machineRow reg i of
             None \<Rightarrow> (None, m)
           | Some row \<Rightarrow>
               (case pairedGrant row of
                  None \<Rightarrow> (Some row, m)
                | Some grant \<Rightarrow>
                    let key = machineKey i (machineGeneration row) (fst (chain reg (grantIssuer (machineGrant grant))));
                        computed = machineCheck pf reg root grant now in
                    (case m of
                       None \<Rightarrow> (if fst computed then Some row else None, None)
                     | Some memo \<Rightarrow>
                         (case remember (machineMemo memo) key now computed of
                            (valid, entries) \<Rightarrow> (if valid then Some row else None, Some (memo\<lparr>machineMemo := entries\<rparr>)))))))"

definition deviceCheck :: "platform \<Rightarrow> DeviceRegistry \<Rightarrow> bytes \<Rightarrow> DeviceGrantRecord \<Rightarrow> string \<Rightarrow> int \<Rightarrow> VerifiedDevice option remembered" where
  "deviceCheck pf reg root r i now =
     (case verifyDeviceGrantRecord pf r root now (resolveIn reg) 0 of
        None \<Rightarrow> (None, None)
      | Some d \<Rightarrow> (Some d, snd (chain reg (Some i))))"

definition device ::
    "platform \<Rightarrow> verifier \<Rightarrow> string \<Rightarrow> int \<Rightarrow> memo option \<Rightarrow> VerifiedDevice option \<times> memo option" where
  "device pf v i now m =
     (case v of
        None \<Rightarrow> (None, m)
      | Some (reg, root) \<Rightarrow>
          (case resolveIn reg i of
             None \<Rightarrow> (None, m)
           | Some r \<Rightarrow>
               let computed = deviceCheck pf reg root r i now in
               (case m of
                  None \<Rightarrow> (fst computed, None)
                | Some memo \<Rightarrow>
                    (case remember (deviceMemo memo) (fst (chain reg (Some i))) now computed of
                       (d, entries) \<Rightarrow> (d, Some (memo\<lparr>deviceMemo := entries\<rparr>))))))"

text \<open>\<open>maxAgeMs\<close> is the clock window, \<open>SIGNED_UPLOAD_MAX_AGE_MS\<close> only for a buffered \<open>data.put\<close>.\<close>

definition authorizeControl ::
    "platform \<Rightarrow> verifier \<Rightarrow> json \<Rightarrow> GrantCapability \<Rightarrow> int \<Rightarrow> int \<Rightarrow> memo option \<Rightarrow> (string \<times> int) DeviceVerdict \<times> memo option" where
  "authorizeControl pf v request capability maxAgeMs now m =
     (case v of
        None \<Rightarrow> (Rejected ''VAULT_UNCONFIGURED'' ''Vault is not configured'' True, m)
      | Some (reg, root) \<Rightarrow>
          (case readControlRequest pf request of
             None \<Rightarrow> (rejectHard ''INVALID_REQUEST'' ''Control request is invalid'', m)
           | Some q \<Rightarrow>
               if controlUser q \<noteq> registryUser reg then (rejectHard ''INVALID_REQUEST'' ''Control request is invalid'', m)
               else (case machine pf v (controlMachine q) now m of
                   (None, m') \<Rightarrow> (Rejected ''DEVICE_UNAUTHORIZED'' ''Device is not authorized'' True, m')
                 | (Some row, m') \<Rightarrow>
                     (case fromBase64 (machineSigningKey row) of
                        None \<Rightarrow> (Throws, m')
                      | Some key \<Rightarrow>
                          if \<not> verifySignedControlRequest pf q key
                          then (Rejected ''DEVICE_UNAUTHORIZED'' ''Device is not authorized'' True, m')
                          else if grantCapabilityText capability \<notin> set (machineCapabilities row)
                          then (rejectHard ''ACCESS_DENIED'' (''Device lacks '' @ grantCapabilityText capability), m')
                          else if maxAgeMs < \<bar>now - controlTimestamp q\<bar>
                          then (requestExpired, m')
                          else (Allowed (credentialMachine row, machineGeneration row), m')))))"

definition controlSubscription ::
    "platform \<Rightarrow> verifier \<Rightarrow> string \<Rightarrow> string \<Rightarrow> int \<Rightarrow> GrantCapability \<Rightarrow> int \<Rightarrow> memo option \<Rightarrow> bool \<times> memo option" where
  "controlSubscription pf v user i g capability now m =
     (case machine pf v i now m of
        (row, m') \<Rightarrow>
          (case (v, row) of
             (Some (reg, root), Some r) \<Rightarrow>
               (user = registryUser reg \<and> machineGeneration r = g \<and> grantCapabilityText capability \<in> set (machineCapabilities r), m')
           | _ \<Rightarrow> (False, m')))"

record device_request =
  requestHeader :: "string option"
  requestMethod :: string
  requestTarget :: string
  requestBody :: "bytes option"
  requestCapabilities :: "DeviceCapability list"
  browserOnly :: bool
  accountScope :: bool

definition requestSigned :: "platform \<Rightarrow> device_request \<Rightarrow> SignedRpcHeader \<Rightarrow> bytes \<Rightarrow> bool" where
  "requestSigned pf q h key =
     (case requestBody q of
        None \<Rightarrow> verifyRpcDigestSignature pf h (requestMethod q) (requestTarget q) key
      | Some body \<Rightarrow> verifyRpcSignature pf h (requestMethod q) (requestTarget q) body key)"

definition requestPermitted :: "device_request \<Rightarrow> VerifiedDevice \<Rightarrow> bool" where
  "requestPermitted q d \<longleftrightarrow>
     (browserOnly q \<longrightarrow> kind d = Browser) \<and> (accountScope q \<longrightarrow> deviceScope d = User_scope)
     \<and> list_all (\<lambda>c. c \<in> set (deviceCapabilities d)) (requestCapabilities q)"

definition authorizeRequest ::
    "platform \<Rightarrow> verifier \<Rightarrow> device_request \<Rightarrow> int \<Rightarrow> memo option \<Rightarrow> (VerifiedDevice \<times> string) DeviceVerdict \<times> memo option" where
  "authorizeRequest pf v q now m =
     (case v of
        None \<Rightarrow> (Rejected ''RPC_FORBIDDEN'' ''Account credential authority does not own this tenant'' True, m)
      | Some (reg, root) \<Rightarrow>
          (case (case requestHeader q of None \<Rightarrow> None | Some h \<Rightarrow> if h = [] then None else decodeSignedRpcHeader pf h) of
             None \<Rightarrow> (rejectHard ''RPC_UNAUTHORIZED'' ''Device signature is missing or invalid'', m)
           | Some h \<Rightarrow>
               (case device pf v (headerDeviceId h) now m of
                  (None, m') \<Rightarrow>
                    let unknown = (resolveIn reg (headerDeviceId h) = None) in
                    (if requestMethod q = ''GET''
                     then Rejected ''RPC_DEVICE_UNKNOWN'' ''Device grant is unknown, expired or revoked'' unknown
                     else Rejected ''RPC_UNAUTHORIZED'' ''Device signature is invalid or its grant is revoked'' unknown, m')
                | (Some d, m') \<Rightarrow>
                    if \<not> requestSigned pf q h (publicKey d)
                    then (rejectHard ''RPC_UNAUTHORIZED'' ''Device signature is invalid or its grant is revoked'', m')
                    else if \<not> requestPermitted q d
                    then (rejectHard ''RPC_FORBIDDEN'' ''Device is out of scope or lacks permission'', m')
                    else if SIGNED_REQUEST_MAX_AGE_MS < \<bar>now - timestamp h\<bar>
                    then (requestExpired, m')
                    else (Allowed (d, bodySha256 h), m'))))"

text \<open>\<open>JSON.stringify\<close> of a signed grant.\<close>

fun issuerJson :: "DeviceInviteIssuer \<Rightarrow> json" where
  "issuerJson Root = JObject [(''kind'', JString ''root'')]"
| "issuerJson (Device i) = JObject [(''kind'', JString ''device''), (''deviceId'', JString i)]"

fun extended :: "json \<Rightarrow> (string \<times> json) list \<Rightarrow> json" where
  "extended (JObject fs) gs = JObject (fs @ gs)"
| "extended v gs = v"

definition recordJson :: "DeviceGrantRecord \<Rightarrow> json" where
  "recordJson r = JObject [
     (''invite'', JObject [(''invite'', inviteJson (invite (signedInvite r))),
       (''signature'', JString (inviteSignature (signedInvite r))), (''issuer'', issuerJson (issuer (signedInvite r)))]),
     (''binding'', extended (bindingJson (binding r)) [(''signature'', JString (bindingSignature (binding r)))]),
     (''generation'', JNumber (generation r)), (''revokedAt'', nullable JNumber (revokedAt r))]"

definition signedGrantJson :: "SignedCredentialAuthorityGrant \<Rightarrow> json" where
  "signedGrantJson s = JObject ([(''grant'', grantJson (machineGrant s)), (''signature'', JString (grantSignature s))]
     @ optionalField ''issuerChain'' (\<lambda>rs. JArray (map recordJson rs)) (issuerChain s))"

definition grantCheck ::
    "platform \<Rightarrow> DeviceRegistry \<Rightarrow> bytes \<Rightarrow> SignedCredentialAuthorityGrant \<Rightarrow> int \<Rightarrow> (CredentialAuthorityGrant \<times> bool) option remembered" where
  "grantCheck pf reg root s now =
     (case verifyCredentialAuthorityGrant pf s root now (Some (resolveIn reg)) of
        Some g \<Rightarrow> (Some (g, False), earlier (grantExpires g) (snd (chain reg (grantIssuer (machineGrant s)))))
      | None \<Rightarrow>
          (case verifyManagedDeviceGrant pf s now of
             Some g \<Rightarrow> (Some (g, True), grantExpires g)
           | None \<Rightarrow> (None, None)))"

definition relayGrant ::
    "platform \<Rightarrow> DeviceRegistry \<Rightarrow> bytes \<Rightarrow> SignedCredentialAuthorityGrant \<Rightarrow> int \<Rightarrow> memo option \<Rightarrow>
     (CredentialAuthorityGrant \<times> bool) option \<times> memo option" where
  "relayGrant pf reg root s now m =
     (let computed = grantCheck pf reg root s now in
      case m of
        None \<Rightarrow> (fst computed, None)
      | Some memo \<Rightarrow>
          (case remember (grantMemo memo) (stringify (signedGrantJson s) @ fst (chain reg (grantIssuer (machineGrant s)))) now computed of
             (verified, entries) \<Rightarrow> (verified, Some (memo\<lparr>grantMemo := entries\<rparr>))))"

text \<open>Whether the machine's row is the credential that the grant names, and both hold the capability.\<close>

definition matchesRow :: "CredentialAuthorityGrant \<Rightarrow> GrantCapability \<Rightarrow> MachineCredential \<Rightarrow> bool" where
  "matchesRow g capability row \<longleftrightarrow>
     machineGeneration row = grantGeneration g \<and> machineSigningKey row = grantSigningKey g
     \<and> machineExchangeKey row = grantExchangeKey g \<and> capability \<in> set (grantCapabilities g)
     \<and> grantCapabilityText capability \<in> set (machineCapabilities row)"

definition managedRow :: "CredentialAuthorityGrant \<Rightarrow> MachineCredential option \<Rightarrow> bool" where
  "managedRow g row =
     (case row of
        None \<Rightarrow> False
      | Some r \<Rightarrow> pairedGrant r = None \<and> machineCapabilities r = map grantCapabilityText (grantCapabilities g))"

definition authorizeRelayGrant ::
    "platform \<Rightarrow> verifier \<Rightarrow> SignedCredentialAuthorityGrant \<Rightarrow> GrantCapability \<Rightarrow> int \<Rightarrow> memo option \<Rightarrow>
     CredentialAuthorityGrant DeviceVerdict \<times> memo option" where
  "authorizeRelayGrant pf v s capability now m =
     (case v of
        None \<Rightarrow> (Rejected ''VAULT_UNCONFIGURED'' ''Vault is not configured'' True, m)
      | Some (reg, root) \<Rightarrow>
          (case relayGrant pf reg root s now m of
             (None, m') \<Rightarrow> (rejectHard ''DEVICE_UNAUTHORIZED'' ''Device grant is invalid'', m')
           | (Some (g, managed), m') \<Rightarrow>
               if grantUser g \<noteq> registryUser reg then (rejectHard ''DEVICE_UNAUTHORIZED'' ''Device grant is invalid'', m')
               else let row = machineRow reg (grantMachine g);
                 superseded = (case row of None \<Rightarrow> True | Some r \<Rightarrow> machineGeneration r < grantGeneration g) in
               if managed \<and> \<not> managedRow g row
               then (Rejected ''DEVICE_UNAUTHORIZED'' ''Device grant is not a current managed device credential'' superseded, m')
               else (case machine pf v (grantMachine g) now m' of
                   (current, m'') \<Rightarrow>
                     (if pred_option (matchesRow g capability) current \<and> current \<noteq> None then Allowed g
                      else Rejected ''DEVICE_UNAUTHORIZED'' ''Device grant is revoked, superseded, or lacks the required capability'' superseded,
                      m''))))"

definition authorizeMachineRelay ::
    "platform \<Rightarrow> verifier \<Rightarrow> string option \<Rightarrow> string \<Rightarrow> string \<Rightarrow> int \<Rightarrow> memo option \<Rightarrow> string DeviceVerdict \<times> memo option" where
  "authorizeMachineRelay pf v header target i now m =
     (case machine pf v i now m of
        (None, m') \<Rightarrow> (Rejected ''DEVICE_UNAUTHORIZED'' ''Machine is not enrolled'' True, m')
      | (Some row, m') \<Rightarrow>
          (if machineCapabilities row = [] then rejectHard ''DEVICE_UNAUTHORIZED'' ''Machine is not enrolled''
           else case verifyRelayAuthorization pf header (machineSigningKey row) target now SIGNED_REQUEST_MAX_AGE_MS of
               Inr _ \<Rightarrow> Allowed i
             | Inl Relay_expired \<Rightarrow> requestExpired
             | Inl Relay_malformed \<Rightarrow> Rejected ''DEVICE_UNAUTHORIZED'' ''Missing or malformed relay authorization'' True
             | Inl Relay_key_invalid \<Rightarrow> Rejected ''DEVICE_UNAUTHORIZED'' ''Relay authorization key or signature is invalid'' True
             | Inl Relay_signature_invalid \<Rightarrow> Rejected ''DEVICE_UNAUTHORIZED'' ''Relay authorization signature is invalid'' True,
           m'))"

text \<open>The answer's \<open>expiresAt\<close>, if the browser may write at account scope.\<close>

definition serviceDeviceAuthority ::
    "platform \<Rightarrow> verifier \<Rightarrow> string \<Rightarrow> int \<Rightarrow> memo option \<Rightarrow> int option option \<times> memo option" where
  "serviceDeviceAuthority pf v i now m =
     (case device pf v i now m of
        (None, m') \<Rightarrow> (None, m')
      | (Some d, m') \<Rightarrow>
          (if kind d \<noteq> Browser \<or> deviceScope d \<noteq> User_scope \<or> Rpc_write \<notin> set (deviceCapabilities d) then None
           else Some (earlier (verifiedExpiresAt d) (case v of None \<Rightarrow> None | Some (reg, root) \<Rightarrow> snd (chain reg (Some i)))),
           m'))"

end
