(* ===== verification/Device_Memo.thy ===== *)
theory Device_Memo
  imports Device_Authority
begin

text \<open>
  The memo of \<open>account-worker/src/device-authority.ts\<close> does not change an answer. What is remembered
  under the key of an issuer chain holds in any later registry in which that key comes up, until the
  first grant of the chain expires, provided that a registry's records are identified by id and
  generation and that no revocation lies in the future.
\<close>

section \<open>Remembering a check\<close>

locale remembered_check =
  fixes keyOf :: "'q \<Rightarrow> string" and check :: "'q \<Rightarrow> int \<Rightarrow> 'a remembered" and compatible :: "int \<Rightarrow> 'q \<Rightarrow> 'q \<Rightarrow> bool"
  assumes persists: "compatible T q q' \<Longrightarrow> keyOf q = keyOf q' \<Longrightarrow> T \<le> t \<Longrightarrow> t \<le> t' \<Longrightarrow> before t' (snd (check q t)) \<Longrightarrow>
    fst (check q' t') = fst (check q t)"
begin

definition sound :: "'q set \<Rightarrow> int \<Rightarrow> (string \<times> 'a remembered) list \<Rightarrow> bool" where
  "sound asks now entries \<longleftrightarrow>
     (\<forall>key v until q t. map_of entries key = Some (v, until) \<longrightarrow> q \<in> asks \<longrightarrow> keyOf q = key \<longrightarrow> now \<le> t \<longrightarrow> before t until \<longrightarrow>
        fst (check q t) = v)"

lemma sound_nil: "sound asks now []"
  by (simp add: sound_def)

lemma sound_later: "sound asks now entries \<Longrightarrow> now \<le> now' \<Longrightarrow> sound asks now' entries"
  unfolding sound_def by (blast intro: order_trans)

lemma remember_sound:
  assumes entries: "sound asks now entries" and q: "q \<in> asks" and compat: "\<And>q'. q' \<in> asks \<Longrightarrow> compatible T q q'" and now: "T \<le> now"
  shows "fst (remember entries (keyOf q) now (check q now)) = fst (check q now)"
    and "sound asks now (snd (remember entries (keyOf q) now (check q now)))"
proof -
  have cached: "fst (check q now) = v" if "recall entries (keyOf q) now = Some v" for v
  proof -
    from that obtain until where "map_of entries (keyOf q) = Some (v, until)" "before now until"
      by (auto simp: recall_def split: option.splits if_splits)
    then show ?thesis using entries q unfolding sound_def by blast
  qed
  then show "fst (remember entries (keyOf q) now (check q now)) = fst (check q now)"
    by (simp add: remember_def split: option.split)
  have smaller: "sound asks now (if MEMO_LIMIT \<le> length entries then [] else entries)"
    using entries sound_nil by simp
  have "sound asks now (keep entries (keyOf q) (check q now))"
    unfolding sound_def keep_def
  proof (intro allI impI)
    fix key v until q' t
    assume m: "map_of (AList.update (keyOf q) (check q now) (if MEMO_LIMIT \<le> length entries then [] else entries)) key = Some (v, until)"
      and q': "q' \<in> asks" "keyOf q' = key" and t: "now \<le> t" "before t until"
    show "fst (check q' t) = v"
    proof (cases "key = keyOf q")
      case True
      then have c: "check q now = (v, until)" using m by (simp add: update_conv')
      then show ?thesis using persists [OF compat [OF q'(1)] _ now t(1)] True q'(2) t(2) by simp
    next
      case False
      then show ?thesis using m smaller q' t unfolding sound_def by (auto simp: update_conv')
    qed
  qed
  then show "sound asks now (snd (remember entries (keyOf q) now (check q now)))"
    using entries by (simp add: remember_def split: option.split)
qed

end

section \<open>The links of a chain\<close>

fun chainOf :: "nat \<Rightarrow> resolver \<Rightarrow> string option \<Rightarrow> (string \<times> DeviceGrantRecord option) list" where
  "chainOf (Suc n) resolve (Some i) =
     (case resolve i of None \<Rightarrow> [(i, None)] | Some r \<Rightarrow> (i, Some r) # chainOf n resolve (issuerId r))"
| "chainOf _ resolve _ = []"

definition linksText :: "(string \<times> DeviceGrantRecord option) list \<Rightarrow> string" where
  "linksText ls = concat (map (\<lambda>(i, r). linkText i r) ls)"

fun chainExpiry :: "(string \<times> DeviceGrantRecord option) list \<Rightarrow> int option" where
  "chainExpiry [] = None"
| "chainExpiry ((i, None) # ls) = chainExpiry ls"
| "chainExpiry ((i, Some r) # ls) = earlier (deviceGrantExpiresAt r) (chainExpiry ls)"

lemma earlier_simps [simp]: "earlier a None = a" "earlier None a = a" "earlier (earlier a b) c = earlier a (earlier b c)"
  by (simp_all add: earlier_def min.assoc split: option.splits)

lemma before_earlier [simp]: "before t (earlier a b) \<longleftrightarrow> before t a \<and> before t b"
  by (auto simp: before_def earlier_def split: option.splits)

lemma chainLoop_links:
  "chainLoop n resolve i key until = (key @ linksText (chainOf n resolve i), earlier until (chainExpiry (chainOf n resolve i)))"
  by (induction n resolve i key until rule: chainLoop.induct) (auto simp: linksText_def split: option.splits)

lemma chain_links:
  "chain reg i = (linksText (chainOf 5 (resolveIn reg) i), chainExpiry (chainOf 5 (resolveIn reg) i))"
  unfolding chain_def chainLoop_links by (simp add: MAX_DELEGATION_DEPTH_def numeral_eq_Suc)

definition plainId :: "string \<Rightarrow> bool" where
  "plainId i \<longleftrightarrow> CHR '':'' \<notin> set i \<and> CHR ''/'' \<notin> set i"

definition generationText :: "DeviceGrantRecord option \<Rightarrow> string" where
  "generationText r = (case r of None \<Rightarrow> ''-'' | Some x \<Rightarrow> printInt (generation x))"

lemma linkText_parts: "linkText i r = CHR ''/'' # i @ CHR '':'' # generationText r"
  by (simp add: linkText_def generationText_def)

lemma split_at_char:
  assumes "a @ c # x = b @ c # y" and "c \<notin> set a" and "c \<notin> set b"
  shows "a = b" and "x = y"
proof -
  have "takeWhile ((\<noteq>) c) (a @ c # x) = a" "takeWhile ((\<noteq>) c) (b @ c # y) = b"
    using assms(2,3) by (auto simp: takeWhile_append)
  then show "a = b" using assms(1) by simp
  then show "x = y" using assms(1) by simp
qed

lemma printInt_chars: "c \<in> set (printInt n) \<Longrightarrow> c = CHR ''-'' \<or> isDigit c"
  using digits_of_radix [of "nat n"] digits_of_radix [of "nat (- n)"]
  by (auto simp: printInt_def list_all_iff split: if_splits)

lemma printInt_no_slash: "CHR ''/'' \<notin> set (printInt n)" "CHR '':'' \<notin> set (printInt n)"
  using printInt_chars [of "CHR ''/''" n] printInt_chars [of "CHR '':''" n] by (auto simp: isDigit_def)

lemma generationText_no_slash: "CHR ''/'' \<notin> set (generationText r)"
  using printInt_no_slash by (simp add: generationText_def split: option.split)

lemma printInt_inject: "printInt m = printInt n \<Longrightarrow> m = n"
  using stringify_inject [of "JNumber m" "JNumber n"] by simp

lemma dash_not_int: "printInt n \<noteq> ''-''" "''-'' \<noteq> printInt n"
proof -
  have "\<not> list_all isDigit ''-''" by (simp add: isDigit_def)
  then have "toRadix 10 k \<noteq> ''-''" for k using digits_of_radix [of k] by metis
  then show "printInt n \<noteq> ''-''" by (simp add: printInt_def)
  then show "''-'' \<noteq> printInt n" by simp
qed

lemma generationText_inject:
  "generationText r = generationText r' \<Longrightarrow> map_option generation r = map_option generation r'"
  using dash_not_int by (cases r; cases r') (auto simp: generationText_def dest: printInt_inject)

definition slashed :: "string \<Rightarrow> bool" where
  "slashed s \<longleftrightarrow> s = [] \<or> hd s = CHR ''/''"

lemma linksText_slashed: "slashed (linksText ls)"
  by (cases ls) (auto simp: slashed_def linksText_def linkText_parts)

lemma split_slashed:
  assumes "a @ x = b @ y" and "slashed x" and "slashed y" and "CHR ''/'' \<notin> set a" and "CHR ''/'' \<notin> set b"
  shows "a = b" and "x = y"
proof -
  have "takeWhile ((\<noteq>) CHR ''/'') (u @ v) = u" if "slashed v" "CHR ''/'' \<notin> set u" for u v
    using that by (cases v) (auto simp: takeWhile_append slashed_def takeWhile_eq_all_conv)
  then show "a = b" using assms by metis
  then show "x = y" using assms(1) by simp
qed

definition plainLinks :: "(string \<times> DeviceGrantRecord option) list \<Rightarrow> bool" where
  "plainLinks ls \<longleftrightarrow> list_all (\<lambda>(i, r). plainId i) ls"

lemma linksText_inject:
  "linksText ls = linksText ls' \<Longrightarrow> plainLinks ls \<Longrightarrow> plainLinks ls' \<Longrightarrow>
   map (\<lambda>(i, r). (i, map_option generation r)) ls = map (\<lambda>(i, r). (i, map_option generation r)) ls'"
proof (induction ls arbitrary: ls')
  case Nil
  then show ?case by (cases ls') (auto simp: linksText_def linkText_parts)
next
  case (Cons l ls)
  obtain i r where l: "l = (i, r)" by fastforce
  obtain i' r' rest where ls': "ls' = (i', r') # rest"
    using Cons.prems(1) l by (cases ls') (auto simp: linksText_def linkText_parts)
  have ids: "plainId i" "plainId i'" "plainLinks ls" "plainLinks rest"
    using Cons.prems(2,3) by (simp_all add: l ls' plainLinks_def)
  have "i @ CHR '':'' # generationText r @ linksText ls = i' @ CHR '':'' # generationText r' @ linksText rest"
    using Cons.prems(1) by (simp add: l ls' linksText_def linkText_parts)
  from split_at_char [OF this] ids have i: "i = i'" and g: "generationText r @ linksText ls = generationText r' @ linksText rest"
    by (simp_all add: plainId_def)
  note parts = split_slashed [OF g linksText_slashed linksText_slashed generationText_no_slash generationText_no_slash]
  have "map_option generation r = map_option generation r'" by (rule generationText_inject [OF parts(1)])
  then show ?case using Cons.IH [OF parts(2) ids(3,4)] i by (simp add: l ls')
qed

section \<open>Registries that may be cached\<close>

definition plainUuids :: "platform \<Rightarrow> bool" where
  "plainUuids pf \<longleftrightarrow> (\<forall>s. isUuid pf s \<longrightarrow> plainId s)"

definition soundRegistry :: "platform \<Rightarrow> DeviceRegistry \<Rightarrow> bool" where
  "soundRegistry pf reg \<longleftrightarrow>
     (\<forall>d r. deviceRow reg d = Some r \<longrightarrow> deviceId (binding r) = d \<and> deviceBindingSchema pf (binding r) \<and> signedDeviceInviteSchema pf (signedInvite r))
     \<and> (\<forall>i row. machineRow reg i = Some row \<longrightarrow> credentialMachine row = i \<and> CHR ''/'' \<notin> set i
          \<and> pred_option (signedCredentialAuthorityGrantSchema pf) (pairedGrant row))"

text \<open>No revocation of the registry lies after the instant \<open>T\<close>.\<close>

definition settled :: "int \<Rightarrow> DeviceRegistry \<Rightarrow> bool" where
  "settled T reg \<longleftrightarrow> (\<forall>d r t. deviceRow reg d = Some r \<longrightarrow> revokedAt r = Some t \<longrightarrow> t \<le> T)"

text \<open>Two registries of an account: a credential is identified by its id and generation.\<close>

definition consistent :: "DeviceRegistry \<Rightarrow> DeviceRegistry \<Rightarrow> bool" where
  "consistent reg reg' \<longleftrightarrow>
     registryUser reg = registryUser reg' \<and> registryRoot reg = registryRoot reg'
     \<and> (\<forall>d r r'. deviceRow reg d = Some r \<longrightarrow> deviceRow reg' d = Some r' \<longrightarrow> generation r = generation r' \<longrightarrow> r = r')
     \<and> (\<forall>i row row'. machineRow reg i = Some row \<longrightarrow> machineRow reg' i = Some row' \<longrightarrow>
          machineGeneration row = machineGeneration row' \<longrightarrow> pairedGrant row = pairedGrant row')"

lemma resolveIn_row: "resolveIn reg i = Some r \<longleftrightarrow> deviceRow reg i = Some r \<and> recordUser r = registryUser reg"
  by (auto simp: resolveIn_def split: option.splits)

lemma resolve_plain:
  assumes "plainUuids pf" and "soundRegistry pf reg" and "resolveIn reg i = Some r"
  shows "plainId i" and "pred_option plainId (issuerId r)"
proof -
  have "deviceBindingSchema pf (binding r)" "signedDeviceInviteSchema pf (signedInvite r)" "deviceId (binding r) = i"
    using assms(2,3) by (auto simp: soundRegistry_def resolveIn_row)
  then show "plainId i" "pred_option plainId (issuerId r)"
    using assms(1) by (auto simp: deviceBindingSchema_def signedDeviceInviteSchema_def
      plainUuids_def issuerId_def split: DeviceInviteIssuer.split)
qed

lemma chainOf_plain:
  assumes "plainUuids pf" and "soundRegistry pf reg"
  shows "pred_option plainId i \<Longrightarrow> plainLinks (chainOf n (resolveIn reg) i)"
proof (induction n "resolveIn reg" i rule: chainOf.induct)
  case (1 n i)
  then show ?case using resolve_plain [OF assms]
    by (cases "resolveIn reg i") (auto simp: plainLinks_def)
qed (auto simp: plainLinks_def)

lemma chainOf_records: "(i, Some r) \<in> set (chainOf n resolve j) \<Longrightarrow> resolve i = Some r"
  by (induction n resolve j rule: chainOf.induct) (auto split: option.splits)

lemma chainOf_missing: "(i, None) \<in> set (chainOf n resolve j) \<Longrightarrow> resolve i = None"
  by (induction n resolve j rule: chainOf.induct) (auto split: option.splits)

lemma link_agrees:
  assumes "consistent reg reg'" and "d = d'" and "map_option generation r = map_option generation r'"
    and "(d, r) \<in> set (chainOf n (resolveIn reg) i)" and "(d', r') \<in> set (chainOf n (resolveIn reg') i')"
  shows "r = r'"
proof (cases r)
  case None
  then show ?thesis using assms(3) by simp
next
  case (Some x)
  then obtain y where y: "r' = Some y" "generation x = generation y" using assms(3) by (cases r') auto
  have "deviceRow reg d = Some x" "deviceRow reg' d = Some y"
    using chainOf_records [OF assms(4) [unfolded Some]] chainOf_records [OF assms(5) [unfolded y(1)]] assms(2)
    by (simp_all add: resolveIn_row)
  then show ?thesis using assms(1) y Some unfolding consistent_def by blast
qed

lemma chain_agrees:
  assumes "plainUuids pf" and "soundRegistry pf reg" and "soundRegistry pf reg'" and "consistent reg reg'"
    and "pred_option plainId i" and "pred_option plainId i'" and key: "fst (chain reg i) = fst (chain reg' i')"
  shows "chainOf 5 (resolveIn reg) i = chainOf 5 (resolveIn reg') i'"
proof -
  let ?ls = "chainOf 5 (resolveIn reg) i" and ?ls' = "chainOf 5 (resolveIn reg') i'"
  have same: "map (\<lambda>(i, r). (i, map_option generation r)) ?ls = map (\<lambda>(i, r). (i, map_option generation r)) ?ls'"
    by (rule linksText_inject [OF _ chainOf_plain [OF assms(1,2,5)] chainOf_plain [OF assms(1,3,6)]])
      (use key in \<open>simp add: chain_links\<close>)
  have len: "length ?ls = length ?ls'" using arg_cong [OF same, of length] by simp
  show ?thesis
  proof (rule nth_equalityI [OF len])
    fix k assume k: "k < length ?ls"
    obtain d r where a: "?ls ! k = (d, r)" by fastforce
    obtain d' r' where b: "?ls' ! k = (d', r')" by fastforce
    have "d = d'" "map_option generation r = map_option generation r'"
      using arg_cong [OF same, of "\<lambda>xs. xs ! k"] k len a b by simp_all
    moreover have "(d, r) \<in> set ?ls" "(d', r') \<in> set ?ls'" using k len a b nth_mem by metis+
    ultimately have "r = r'" by (intro link_agrees [OF assms(4)])
    then show "?ls ! k = ?ls' ! k" using a b \<open>d = d'\<close> by simp
  qed
qed

section \<open>Verification and the chain\<close>

definition ofUser :: "string \<Rightarrow> resolver \<Rightarrow> resolver" where
  "ofUser user resolve i = (case resolve i of None \<Rightarrow> None | Some r \<Rightarrow> if recordUser r = user then Some r else None)"

lemma grantResolver_ofUser: "grantResolver (Some resolve) rs user = ofUser user resolve"
  by (rule ext) (simp add: grantResolver_def ofUser_def)

lemma chainOf_ofUser:
  "chainOf n resolve i = chainOf n resolve' i' \<Longrightarrow> chainOf n (ofUser user resolve) i = chainOf n (ofUser user resolve') i'"
proof (induction n arbitrary: i i')
  case (Suc n)
  show ?case
  proof (cases i)
    case None
    then have "i' = None" using Suc.prems by (cases i') (auto split: option.splits)
    then show ?thesis using None by simp
  next
    case (Some j)
    then have i': "i' = Some j" using Suc.prems by (cases i') (auto split: option.splits)
    show ?thesis
    proof (cases "resolve j")
      case None
      then have "resolve' j = None" using Suc.prems Some i' by (auto split: option.splits)
      then show ?thesis using None Some i' by (simp add: ofUser_def)
    next
      case R: (Some r)
      then have r': "resolve' j = Some r" using Suc.prems Some i' by (auto split: option.splits)
      then have "chainOf n resolve (issuerId r) = chainOf n resolve' (issuerId r)" using Suc.prems Some i' R by simp
      from Suc.IH [OF this] show ?thesis using R r' Some i' by (simp add: ofUser_def)
    qed
  qed
qed simp

lemma chainOf_ofUser_subset: "(j, Some r) \<in> set (chainOf n (ofUser user resolve) i) \<Longrightarrow> (j, Some r) \<in> set (chainOf n resolve i)"
  by (induction n resolve i rule: chainOf.induct) (auto simp: ofUser_def split: option.splits if_splits)

lemma chainOf_shorter:
  "chainOf (Suc n) resolve i = chainOf (Suc n) resolve' i' \<Longrightarrow> chainOf n resolve i = chainOf n resolve' i'"
proof (induction n arbitrary: i i')
  case (Suc n)
  then show ?case
    by (cases i; cases i') (auto split: option.splits)
qed simp

lemma chainOf_Some: "chainOf (Suc n) resolve (Some i) =
    (case resolve i of None \<Rightarrow> [(i, None)] | Some r \<Rightarrow> (i, Some r) # chainOf n resolve (issuerId r))"
  by simp

lemma chainOf_five: "chainOf 5 resolve (Some i) =
    (case resolve i of None \<Rightarrow> [(i, None)] | Some r \<Rightarrow> (i, Some r) # chainOf 4 resolve (issuerId r))"
  using chainOf_Some [of 4 resolve i] by simp

lemma verify_chain_cong:
  "chainOf n resolve (issuerId r) = chainOf n resolve' (issuerId r) \<Longrightarrow> n + depth = MAX_DELEGATION_DEPTH \<Longrightarrow>
   verifyDeviceGrantRecord pf r root now resolve depth = verifyDeviceGrantRecord pf r root now resolve' depth"
proof (induction n arbitrary: r depth)
  case 0
  then show ?case by (subst (1 2) verifyDeviceGrantRecord.simps) simp
next
  case (Suc n)
  show ?case
  proof (cases "issuer (signedInvite r)")
    case Root
    then show ?thesis by (subst (1 2) verifyDeviceGrantRecord.simps) simp
  next
    case (Device i)
    then have eq: "chainOf (Suc n) resolve (Some i) = chainOf (Suc n) resolve' (Some i)"
      using Suc.prems(1) by (simp add: issuerId_def del: chainOf.simps)
    then have same: "resolve i = resolve' i" by (cases "resolve i"; cases "resolve' i") auto
    show ?thesis
    proof (cases "resolve i")
      case None
      then show ?thesis using Device same by (subst (1 2) verifyDeviceGrantRecord.simps) simp
    next
      case (Some parent)
      then have "chainOf n resolve (issuerId parent) = chainOf n resolve' (issuerId parent)" using eq same by simp
      from Suc.IH [OF this] have "verifyDeviceGrantRecord pf parent root now resolve (Suc depth)
          = verifyDeviceGrantRecord pf parent root now resolve' (Suc depth)"
        using Suc.prems(2) by simp
      moreover have "resolve' i = Some parent" using same Some by simp
      ultimately show ?thesis using Device Some by (subst (1 2) verifyDeviceGrantRecord.simps) simp
    qed
  qed
qed

section \<open>Verification and time\<close>

lemma grantCurrent_earlier: "grantCurrent t' r \<Longrightarrow> t \<le> t' \<Longrightarrow> grantCurrent t r"
  by (auto simp: grantCurrent_def split: option.splits)

lemma verifyGrant_current: "verifyGrant pf r t key = Some d \<Longrightarrow> grantCurrent t' r \<Longrightarrow> verifyGrant pf r t' key = Some d"
proof -
  assume v: "verifyGrant pf r t key = Some d" and "grantCurrent t' r"
  moreover have "grantCurrent t r" by (rule verifyGrant_fields(6) [OF v])
  ultimately have eq: "grantCurrent t' r = grantCurrent t r" by simp
  have "verifyGrant pf r t' key = verifyGrant pf r t key" unfolding verifyGrant_def eq ..
  then show ?thesis using v by simp
qed

lemma verifyGrant_earlier: "verifyGrant pf r t' key = Some d \<Longrightarrow> t \<le> t' \<Longrightarrow> verifyGrant pf r t key = Some d"
  by (rule verifyGrant_current [OF _ grantCurrent_earlier [OF verifyGrant_fields(6)]])

definition lasting :: "int \<Rightarrow> int \<Rightarrow> DeviceGrantRecord \<Rightarrow> bool" where
  "lasting T t' r \<longleftrightarrow> (\<forall>t. revokedAt r = Some t \<longrightarrow> t \<le> T) \<and> before t' (deviceGrantExpiresAt r)"

lemma verifyGrant_later:
  assumes "verifyGrant pf r t key = Some d" and "T \<le> t" and "lasting T t' r"
  shows "verifyGrant pf r t' key = Some d"
proof -
  have "grantCurrent t r" by (rule verifyGrant_fields(6) [OF assms(1)])
  then have "grantCurrent t' r" using assms(2,3)
    by (cases "revokedAt r") (force simp: grantCurrent_def lasting_def before_def split: option.splits)+
  then show ?thesis by (rule verifyGrant_current [OF assms(1)])
qed

lemma verify_earlier:
  "verifyDeviceGrantRecord pf r root t' resolve depth = Some d \<Longrightarrow> t \<le> t' \<Longrightarrow>
   verifyDeviceGrantRecord pf r root t resolve depth = Some d"
proof (induction pf r root t' resolve depth arbitrary: d rule: verifyDeviceGrantRecord.induct)
  case (1 pf r root t' resolve depth)
  have s: "deviceGrantRecordSchema pf r" "\<not> MAX_DELEGATION_DEPTH \<le> depth"
    using "1.prems"(1) by (subst (asm) verifyDeviceGrantRecord.simps, simp split: if_splits)+
  show ?case
  proof (cases "issuer (signedInvite r)")
    case Root
    then have "verifyGrant pf r t' root = Some d" using "1.prems"(1) s
      by (subst (asm) verifyDeviceGrantRecord.simps) simp
    from verifyGrant_earlier [OF this "1.prems"(2)] show ?thesis using Root s
      by (subst verifyDeviceGrantRecord.simps) simp
  next
    case (Device i)
    with "1.prems"(1) s obtain parent p where p: "resolve i = Some parent"
      "verifyDeviceGrantRecord pf parent root t' resolve (Suc depth) = Some p" "issuerAllows r parent p"
      "verifyGrant pf r t' (publicKey p) = Some d"
      by (subst (asm) verifyDeviceGrantRecord.simps) (auto split: option.splits if_splits)
    have "verifyDeviceGrantRecord pf parent root t resolve (Suc depth) = Some p"
      using s by (intro "1.IH" [OF _ Device p(1,2) "1.prems"(2)]) simp
    then show ?thesis using Device s p(1,3) verifyGrant_earlier [OF p(4) "1.prems"(2)]
      by (subst verifyDeviceGrantRecord.simps) simp
  qed
qed

lemma verify_later:
  "verifyDeviceGrantRecord pf r root t resolve depth = Some d \<Longrightarrow> n + depth = MAX_DELEGATION_DEPTH \<Longrightarrow> T \<le> t \<Longrightarrow>
   lasting T t' r \<Longrightarrow> \<forall>j x. (j, Some x) \<in> set (chainOf n resolve (issuerId r)) \<longrightarrow> lasting T t' x \<Longrightarrow>
   verifyDeviceGrantRecord pf r root t' resolve depth = Some d"
proof (induction n arbitrary: r depth d)
  case 0
  then show ?case by (subst (asm) verifyDeviceGrantRecord.simps) (simp split: if_splits)
next
  case (Suc n)
  have s: "deviceGrantRecordSchema pf r" "\<not> MAX_DELEGATION_DEPTH \<le> depth"
    using Suc.prems(1) by (subst (asm) verifyDeviceGrantRecord.simps, simp split: if_splits)+
  show ?case
  proof (cases "issuer (signedInvite r)")
    case Root
    then have "verifyGrant pf r t root = Some d" using Suc.prems(1) s
      by (subst (asm) verifyDeviceGrantRecord.simps) simp
    from verifyGrant_later [OF this Suc.prems(3,4)] show ?thesis using Root s
      by (subst verifyDeviceGrantRecord.simps) simp
  next
    case (Device i)
    with Suc.prems(1) s obtain parent p where p: "resolve i = Some parent"
      "verifyDeviceGrantRecord pf parent root t resolve (Suc depth) = Some p" "issuerAllows r parent p"
      "verifyGrant pf r t (publicKey p) = Some d"
      by (subst (asm) verifyDeviceGrantRecord.simps) (auto split: option.splits if_splits)
    have links: "chainOf (Suc n) resolve (issuerId r) = (i, Some parent) # chainOf n resolve (issuerId parent)"
      using Device p(1) by (simp add: issuerId_def)
    have "verifyDeviceGrantRecord pf parent root t' resolve (Suc depth) = Some p"
      using Suc.prems(2,3,5) links by (intro Suc.IH [OF p(2)]) auto
    then show ?thesis using Device s p(1,3) verifyGrant_later [OF p(4) Suc.prems(3,4)]
      by (subst verifyDeviceGrantRecord.simps) simp
  qed
qed

lemma chain_lasting:
  assumes "settled T reg" and "before t' (chainExpiry (chainOf n (resolveIn reg) i))"
    and "(j, Some r) \<in> set (chainOf n (resolveIn reg) i)"
  shows "lasting T t' r"
proof -
  have "deviceRow reg j = Some r" using chainOf_records [OF assms(3)] by (simp add: resolveIn_row)
  moreover have "before t' (deviceGrantExpiresAt x)" if "before t' (chainExpiry ls)" "(j, Some x) \<in> set ls" for ls x
    using that by (induction ls rule: chainExpiry.induct) auto
  ultimately show ?thesis using assms unfolding lasting_def settled_def by blast
qed

section \<open>The three checks persist\<close>

definition registries :: "platform \<Rightarrow> int \<Rightarrow> DeviceRegistry \<Rightarrow> DeviceRegistry \<Rightarrow> bool" where
  "registries pf T reg reg' \<longleftrightarrow>
     plainUuids pf \<and> soundRegistry pf reg \<and> soundRegistry pf reg' \<and> consistent reg reg' \<and> settled T reg"

lemma registries_chain:
  assumes "registries pf T reg reg'" and "pred_option plainId i" and "pred_option plainId i'"
    and "fst (chain reg i) = fst (chain reg' i')"
  shows "chainOf 5 (resolveIn reg) i = chainOf 5 (resolveIn reg') i'" and "snd (chain reg i) = snd (chain reg' i')"
proof -
  show "chainOf 5 (resolveIn reg) i = chainOf 5 (resolveIn reg') i'"
    using assms unfolding registries_def by (intro chain_agrees [where pf = pf]) simp_all
  then show "snd (chain reg i) = snd (chain reg' i')" by (simp add: chain_links)
qed

definition deviceQuestion :: "DeviceRegistry \<times> string \<Rightarrow> string" where
  "deviceQuestion q = (case q of (reg, i) \<Rightarrow> fst (chain reg (Some i)))"

definition deviceRemembered :: "platform \<Rightarrow> bytes \<Rightarrow> DeviceRegistry \<times> string \<Rightarrow> int \<Rightarrow> VerifiedDevice option remembered" where
  "deviceRemembered pf root q now = (case q of (reg, i) \<Rightarrow> deviceCheck pf reg root (the (resolveIn reg i)) i now)"

definition deviceCompatible :: "platform \<Rightarrow> int \<Rightarrow> DeviceRegistry \<times> string \<Rightarrow> DeviceRegistry \<times> string \<Rightarrow> bool" where
  "deviceCompatible pf T q q' \<longleftrightarrow>
     registries pf T (fst q) (fst q') \<and> resolveIn (fst q) (snd q) \<noteq> None \<and> resolveIn (fst q') (snd q') \<noteq> None"

lemma device_persists:
  assumes "deviceCompatible pf T q q'" and "deviceQuestion q = deviceQuestion q'" and "T \<le> t" and "t \<le> t'"
    and "before t' (snd (deviceRemembered pf root q t))"
  shows "fst (deviceRemembered pf root q' t') = fst (deviceRemembered pf root q t)"
proof -
  obtain reg i where q: "q = (reg, i)" by fastforce
  obtain reg' i' where q': "q' = (reg', i')" by fastforce
  from assms(1) obtain r r' where rs: "registries pf T reg reg'" "resolveIn reg i = Some r" "resolveIn reg' i' = Some r'"
    by (auto simp: deviceCompatible_def q q')
  have plain: "plainId i" "plainId i'"
    using rs resolve_plain(1) unfolding registries_def by metis+
  have c: "chainOf 5 (resolveIn reg) (Some i) = chainOf 5 (resolveIn reg') (Some i')"
    using assms(2) plain by (intro registries_chain(1) [OF rs(1)]) (simp_all add: deviceQuestion_def q q')
  note five = chainOf_five
  have r: "r' = r" "chainOf 4 (resolveIn reg) (issuerId r) = chainOf 4 (resolveIn reg') (issuerId r)"
    using c rs(2,3) by (auto simp add: five)
  have v: "verifyDeviceGrantRecord pf r root s (resolveIn reg') 0 = verifyDeviceGrantRecord pf r root s (resolveIn reg) 0" for s
    using verify_chain_cong [OF r(2), of 0 pf root s] by (simp add: MAX_DELEGATION_DEPTH_def)
  show ?thesis
  proof (cases "verifyDeviceGrantRecord pf r root t (resolveIn reg) 0")
    case None
    then have "verifyDeviceGrantRecord pf r root t' (resolveIn reg) 0 = None"
      using verify_earlier [of pf r root t' "resolveIn reg" 0 _ t] assms(4) by (metis not_None_eq)
    then show ?thesis using None rs r(1) v by (simp add: deviceRemembered_def deviceCheck_def q q')
  next
    case (Some d)
    have b: "before t' (chainExpiry (chainOf 5 (resolveIn reg) (Some i)))"
      using assms(5) Some rs(2) by (simp add: deviceRemembered_def deviceCheck_def q chain_links)
    have last: "lasting T t' x" if "(j, Some x) \<in> set (chainOf 5 (resolveIn reg) (Some i))" for j x
      by (rule chain_lasting [OF _ b that]) (use rs(1) in \<open>simp add: registries_def\<close>)
    have "verifyDeviceGrantRecord pf r root t' (resolveIn reg) 0 = Some d"
      by (rule verify_later [OF Some _ assms(3), where n = 4]) (use last rs(2) in \<open>auto simp: five MAX_DELEGATION_DEPTH_def\<close>)
    then show ?thesis using Some rs r(1) v by (simp add: deviceRemembered_def deviceCheck_def q q')
  qed
qed

interpretation devices: remembered_check deviceQuestion "deviceRemembered pf root" "deviceCompatible pf" for pf root
  by unfold_locales (rule device_persists)

lemma device_chain_cong:
  assumes "chainOf 5 resolve (Some i) = chainOf 5 resolve' (Some i)"
  shows "resolve i = resolve' i"
    and "resolve i = Some r \<Longrightarrow> verifyDeviceGrantRecord pf r root t resolve 0 = verifyDeviceGrantRecord pf r root t resolve' 0"
proof -
  show same: "resolve i = resolve' i" using assms by (simp add: chainOf_five split: option.splits)
  show "verifyDeviceGrantRecord pf r root t resolve 0 = verifyDeviceGrantRecord pf r root t resolve' 0" if "resolve i = Some r"
  proof (rule verify_chain_cong)
    show "chainOf 4 resolve (issuerId r) = chainOf 4 resolve' (issuerId r)"
      using assms that same by (simp add: chainOf_five)
  qed (simp add: MAX_DELEGATION_DEPTH_def)
qed

lemma grantKey_cong:
  assumes "chainOf 5 resolve (grantIssuer (machineGrant s)) = chainOf 5 resolve' (grantIssuer (machineGrant s))"
  shows "grantKey pf s root t (Some resolve) = grantKey pf s root t (Some resolve')"
proof (cases "grantIssuer (machineGrant s)")
  case (Some i)
  let ?u = "grantUser (machineGrant s)"
  have c: "chainOf 5 (ofUser ?u resolve) (Some i) = chainOf 5 (ofUser ?u resolve') (Some i)"
    using chainOf_ofUser assms Some by metis
  have "ofUser ?u resolve i = ofUser ?u resolve' i" by (rule device_chain_cong(1) [OF c])
  then show ?thesis using Some device_chain_cong(2) [OF c]
    by (simp add: grantKey_def grantResolver_ofUser Let_def split: option.split bind_split)
qed (simp add: grantKey_def)

lemma grantKey_earlier:
  assumes "grantKey pf s root t' (Some resolve) = Some key" and "t \<le> t'"
  shows "grantKey pf s root t (Some resolve) = Some key"
  using assms(1) verify_earlier [OF _ assms(2)]
  by (auto simp: grantKey_def Let_def split: option.splits bind_splits if_splits)

lemma grantKey_later:
  assumes "grantKey pf s root t (Some (resolveIn reg)) = Some key" and "T \<le> t" and "settled T reg"
    and "before t' (snd (chain reg (grantIssuer (machineGrant s))))"
  shows "grantKey pf s root t' (Some (resolveIn reg)) = Some key"
proof (cases "grantIssuer (machineGrant s)")
  case None
  then show ?thesis using assms(1) by (simp add: grantKey_def)
next
  case (Some i)
  let ?res = "ofUser (grantUser (machineGrant s)) (resolveIn reg)"
  have b: "before t' (chainExpiry (chainOf 5 (resolveIn reg) (Some i)))" using assms(4) Some by (simp add: chain_links)
  have last: "lasting T t' x" if "(j, Some x) \<in> set (chainOf 5 ?res (Some i))" for j x
    by (rule chain_lasting [OF assms(3) b chainOf_ofUser_subset [OF that]])
  have "verifyDeviceGrantRecord pf r root t' ?res 0 = Some d"
    if "?res i = Some r" "verifyDeviceGrantRecord pf r root t ?res 0 = Some d" for r d
    by (rule verify_later [OF that(2) _ assms(2), where n = 4])
      (use last that(1) in \<open>auto simp: chainOf_five MAX_DELEGATION_DEPTH_def\<close>)
  then show ?thesis using assms(1) Some
    by (auto simp: grantKey_def grantResolver_ofUser Let_def split: option.splits bind_splits if_splits)
qed

lemma verifyGrant_iff:
  "verifyCredentialAuthorityGrant pf s root now canonical' = Some g \<longleftrightarrow>
     g = machineGrant s \<and> signedCredentialAuthorityGrantSchema pf s \<and> before now (grantExpires g)
     \<and> (\<exists>key. grantKey pf s root now canonical' = Some key \<and> verifies pf (grantSignature s) (payload pf (grantJson g)) key)"
  by (auto simp: verifyCredentialAuthorityGrant_def Let_def before_def split: option.splits if_splits)

lemma before_antitone: "before t' until \<Longrightarrow> t \<le> t' \<Longrightarrow> before t until"
  by (auto simp: before_def split: option.splits)

lemma grant_earlier:
  "verifyCredentialAuthorityGrant pf s root t' (Some resolve) = Some g \<Longrightarrow> t \<le> t' \<Longrightarrow>
   verifyCredentialAuthorityGrant pf s root t (Some resolve) = Some g"
  using grantKey_earlier before_antitone unfolding verifyGrant_iff by blast

lemma grant_later:
  "verifyCredentialAuthorityGrant pf s root t (Some (resolveIn reg)) = Some g \<Longrightarrow> T \<le> t \<Longrightarrow> settled T reg \<Longrightarrow>
   before t' (grantExpires g) \<Longrightarrow> before t' (snd (chain reg (grantIssuer (machineGrant s)))) \<Longrightarrow>
   verifyCredentialAuthorityGrant pf s root t' (Some (resolveIn reg)) = Some g"
  using grantKey_later unfolding verifyGrant_iff by blast

lemma grant_cong:
  assumes "chainOf 5 resolve (grantIssuer (machineGrant s)) = chainOf 5 resolve' (grantIssuer (machineGrant s))"
  shows "verifyCredentialAuthorityGrant pf s root t (Some resolve) = verifyCredentialAuthorityGrant pf s root t (Some resolve')"
  unfolding verifyCredentialAuthorityGrant_def grantKey_cong [OF assms] ..

lemma issuer_plain:
  "plainUuids pf \<Longrightarrow> signedCredentialAuthorityGrantSchema pf s \<Longrightarrow> pred_option plainId (grantIssuer (machineGrant s))"
  by (auto simp: plainUuids_def signedCredentialAuthorityGrantSchema_def credentialAuthorityGrantSchema_def pred_option_def)

definition machineQuestion :: "DeviceRegistry \<times> string \<times> SignedCredentialAuthorityGrant \<Rightarrow> string" where
  "machineQuestion q = (case q of (reg, i, s) \<Rightarrow>
     machineKey i (machineGeneration (the (machineRow reg i))) (fst (chain reg (grantIssuer (machineGrant s)))))"

definition machineRemembered ::
    "platform \<Rightarrow> bytes \<Rightarrow> DeviceRegistry \<times> string \<times> SignedCredentialAuthorityGrant \<Rightarrow> int \<Rightarrow> bool remembered" where
  "machineRemembered pf root q now = (case q of (reg, i, s) \<Rightarrow> machineCheck pf reg root s now)"

definition pairedIn :: "DeviceRegistry \<times> string \<times> SignedCredentialAuthorityGrant \<Rightarrow> bool" where
  "pairedIn q \<longleftrightarrow> (case q of (reg, i, s) \<Rightarrow> \<exists>row. machineRow reg i = Some row \<and> pairedGrant row = Some s)"

definition machineCompatible ::
    "platform \<Rightarrow> int \<Rightarrow> DeviceRegistry \<times> string \<times> SignedCredentialAuthorityGrant \<Rightarrow>
     DeviceRegistry \<times> string \<times> SignedCredentialAuthorityGrant \<Rightarrow> bool" where
  "machineCompatible pf T q q' \<longleftrightarrow> registries pf T (fst q) (fst q') \<and> pairedIn q \<and> pairedIn q'"

lemma machineKey_inject:
  assumes "machineKey i g x = machineKey i' g' x'" and "CHR ''/'' \<notin> set i" and "CHR ''/'' \<notin> set i'" and "slashed x" and "slashed x'"
  shows "i = i'" and "g = g'" and "x = x'"
proof -
  have eq: "(i @ CHR '':'' # printInt g) @ x = (i' @ CHR '':'' # printInt g') @ x'" using assms(1) by (simp add: machineKey_def)
  note parts = split_slashed [OF eq assms(4,5)]
  have ids: "i @ CHR '':'' # printInt g = i' @ CHR '':'' # printInt g'"
    by (rule parts(1)) (use assms(2,3) printInt_no_slash in auto)
  show "x = x'" by (rule parts(2)) (use assms(2,3) printInt_no_slash in auto)
  have rev: "rev (printInt g) @ CHR '':'' # rev i = rev (printInt g') @ CHR '':'' # rev i'"
    using arg_cong [OF ids, of rev] by simp
  have "rev i = rev i'" "rev (printInt g) = rev (printInt g')"
    using split_at_char [OF rev] printInt_no_slash(2) by simp_all
  then show "i = i'" "g = g'" by (simp_all add: printInt_inject)
qed

lemma chain_slashed: "slashed (fst (chain reg i))"
  by (simp add: chain_links linksText_slashed)

lemma machine_persists:
  assumes "machineCompatible pf T q q'" and "machineQuestion q = machineQuestion q'" and "T \<le> t" and "t \<le> t'"
    and "before t' (snd (machineRemembered pf root q t))"
  shows "fst (machineRemembered pf root q' t') = fst (machineRemembered pf root q t)"
proof -
  obtain reg i s where q: "q = (reg, i, s)" by (cases q) auto
  obtain reg' i' s' where q': "q' = (reg', i', s')" by (cases q') auto
  from assms(1) obtain row row' where rs: "registries pf T reg reg'" "machineRow reg i = Some row" "pairedGrant row = Some s"
    "machineRow reg' i' = Some row'" "pairedGrant row' = Some s'"
    by (auto simp: machineCompatible_def pairedIn_def q q')
  have plain: "CHR ''/'' \<notin> set i" "signedCredentialAuthorityGrantSchema pf s" "CHR ''/'' \<notin> set i'"
    "signedCredentialAuthorityGrantSchema pf s'"
    using rs by (force simp: registries_def soundRegistry_def)+
  have eq: "machineKey i (machineGeneration row) (fst (chain reg (grantIssuer (machineGrant s))))
      = machineKey i' (machineGeneration row') (fst (chain reg' (grantIssuer (machineGrant s'))))"
    using assms(2) rs(2,4) by (simp add: machineQuestion_def q q')
  note parts = machineKey_inject [OF eq plain(1,3) chain_slashed chain_slashed]
  have s: "s' = s" using rs parts(1,2) unfolding registries_def consistent_def by (metis option.inject)
  have p: "pred_option plainId (grantIssuer (machineGrant s))"
    using rs(1) plain(2) by (auto simp: registries_def intro: issuer_plain)
  have c: "chainOf 5 (resolveIn reg) (grantIssuer (machineGrant s)) = chainOf 5 (resolveIn reg') (grantIssuer (machineGrant s))"
    by (rule registries_chain(1) [OF rs(1) p p]) (use parts(3) s in simp)
  have v: "verifyCredentialAuthorityGrant pf s root u (Some (resolveIn reg')) = verifyCredentialAuthorityGrant pf s root u (Some (resolveIn reg))" for u
    by (rule grant_cong [OF c, symmetric])
  show ?thesis
  proof (cases "verifyCredentialAuthorityGrant pf s root t (Some (resolveIn reg))")
    case None
    then have "verifyCredentialAuthorityGrant pf s root t' (Some (resolveIn reg)) = None"
      using grant_earlier [OF _ assms(4)] by (metis not_None_eq)
    then show ?thesis using None v s by (simp add: machineRemembered_def machineCheck_def q q')
  next
    case (Some g)
    have "verifyCredentialAuthorityGrant pf s root t' (Some (resolveIn reg)) = Some g"
      by (rule grant_later [OF Some assms(3)]) (use assms(5) Some rs(1) in \<open>simp_all add: registries_def machineRemembered_def machineCheck_def q\<close>)
    then show ?thesis using Some v s by (simp add: machineRemembered_def machineCheck_def q q')
  qed
qed

interpretation machines: remembered_check machineQuestion "machineRemembered pf root" "machineCompatible pf" for pf root
  by unfold_locales (rule machine_persists)

section \<open>The text of a signed grant names it\<close>

lemma capabilityText_inject [simp]: "capabilityText c = capabilityText c' \<longleftrightarrow> c = c'"
  by (cases c; cases c') simp_all

lemma grantCapabilityText_inject [simp]: "grantCapabilityText c = grantCapabilityText c' \<longleftrightarrow> c = c'"
  by (cases c; cases c') simp_all

lemma kindText_inject [simp]: "kindText k = kindText k' \<longleftrightarrow> k = k'"
  by (cases k; cases k') simp_all

lemma scopeJson_inject [simp]: "scopeJson s = scopeJson s' \<longleftrightarrow> s = s'"
  by (cases s; cases s') simp_all

lemma issuerJson_inject [simp]: "issuerJson i = issuerJson i' \<longleftrightarrow> i = i'"
  by (cases i; cases i') simp_all

lemma nullable_inject [simp]:
  "nullable JString v = nullable JString v' \<longleftrightarrow> v = v'" "nullable JNumber n = nullable JNumber n' \<longleftrightarrow> n = n'"
  by (simp_all add: nullable_def split: option.splits)

lemma texts_inject: "(\<And>c c'. f c = f c' \<Longrightarrow> c = c') \<Longrightarrow> map f cs = map f cs' \<Longrightarrow> cs = cs'"
  by (induction cs arbitrary: cs') (auto simp: Cons_eq_map_conv)

lemma inviteJson_inject: "inviteJson i = inviteJson i' \<Longrightarrow> i = i'"
  by (cases i; cases i') (auto simp: inviteJson_def dest!: texts_inject [rotated])

lemma bindingJson_inject: "bindingJson b = bindingJson b' \<Longrightarrow> bindingSignature b = bindingSignature b' \<Longrightarrow> b = b'"
  by (cases b; cases b') (auto simp: bindingJson_def)

lemma recordJson_inject: "recordJson r = recordJson r' \<Longrightarrow> r = r'"
proof -
  assume r: "recordJson r = recordJson r'"
  have "bindingJson (binding r) = bindingJson (binding r')" "bindingSignature (binding r) = bindingSignature (binding r')"
    using r by (auto simp: recordJson_def bindingJson_def)
  from bindingJson_inject [OF this] have "binding r = binding r'" .
  moreover have "invite (signedInvite r) = invite (signedInvite r')" using r by (auto simp: recordJson_def dest: inviteJson_inject)
  moreover have "inviteSignature (signedInvite r) = inviteSignature (signedInvite r')"
    "issuer (signedInvite r) = issuer (signedInvite r')" "generation r = generation r'" "revokedAt r = revokedAt r'"
    using r by (simp_all add: recordJson_def)
  ultimately show ?thesis by (cases r; cases r'; cases "signedInvite r"; cases "signedInvite r'") simp
qed

lemma optionalField_inject: "(\<And>x y. f x = f y \<Longrightarrow> x = y) \<Longrightarrow> optionalField k f v = optionalField k f v' \<Longrightarrow> v = v'"
  by (auto simp: optionalField_def split: option.splits)

lemma grantJson_inject: "grantJson g = grantJson g' \<Longrightarrow> g = g'"
  by (cases g; cases g') (auto simp: grantJson_def optionalField_def split: option.splits dest!: texts_inject [rotated])

lemma recordsJson_inject: "map recordJson rs = map recordJson rs' \<longleftrightarrow> rs = rs'"
  using recordJson_inject by (intro inj_map_eq_map injI)

lemma signedGrantJson_inject: "signedGrantJson s = signedGrantJson s' \<Longrightarrow> s = s'"
  by (cases s; cases s')
    (auto simp: signedGrantJson_def optionalField_def recordsJson_inject split: option.splits dest!: grantJson_inject)

lemma stringify_prefix:
  assumes "stringify v @ x = stringify w @ y" and "slashed x" and "slashed y"
  shows "v = w" and "x = y"
proof -
  have n: "noDigit x" "noDigit y" using assms(2,3) by (cases x; cases y; simp add: slashed_def noDigit_def isDigit_def)+
  have "parseValue (weight v + weight w) (stringify v @ x) = Some (v, x)" by (rule parseValue_print [OF _ n(1)]) simp
  moreover have "parseValue (weight v + weight w) (stringify w @ y) = Some (w, y)" by (rule parseValue_print [OF _ n(2)]) simp
  ultimately have "Some (v, x) = Some (w, y)" unfolding assms(1) by (rule trans [OF sym])
  then show "v = w" "x = y" by blast+
qed

definition grantQuestion :: "DeviceRegistry \<times> SignedCredentialAuthorityGrant \<Rightarrow> string" where
  "grantQuestion q = (case q of (reg, s) \<Rightarrow> stringify (signedGrantJson s) @ fst (chain reg (grantIssuer (machineGrant s))))"

definition grantRemembered ::
    "platform \<Rightarrow> bytes \<Rightarrow> DeviceRegistry \<times> SignedCredentialAuthorityGrant \<Rightarrow> int \<Rightarrow> (CredentialAuthorityGrant \<times> bool) option remembered" where
  "grantRemembered pf root q now = (case q of (reg, s) \<Rightarrow> grantCheck pf reg root s now)"

definition grantCompatible ::
    "platform \<Rightarrow> int \<Rightarrow> DeviceRegistry \<times> SignedCredentialAuthorityGrant \<Rightarrow> DeviceRegistry \<times> SignedCredentialAuthorityGrant \<Rightarrow> bool" where
  "grantCompatible pf T q q' \<longleftrightarrow> registries pf T (fst q) (fst q')"

lemma managed_iff:
  "verifyManagedDeviceGrant pf s now = Some g \<longleftrightarrow>
     issuerChain s = None \<and> grantIssuer (machineGrant s) = None
     \<and> (\<exists>key. fromBase64 (grantSigningKey (machineGrant s)) = Some key \<and> verifyCredentialAuthorityGrant pf s key now None = Some g)"
  by (auto simp: verifyManagedDeviceGrant_def verifyGrant_iff split: option.splits)

lemma managed_time:
  assumes "verifyManagedDeviceGrant pf s t = Some g" and "before t' (grantExpires g)"
  shows "verifyManagedDeviceGrant pf s t' = Some g"
  using assms by (auto simp: managed_iff verifyGrant_iff grantKey_def)

lemma managed_earlier: "verifyManagedDeviceGrant pf s t' = Some g \<Longrightarrow> t \<le> t' \<Longrightarrow> verifyManagedDeviceGrant pf s t = Some g"
  by (rule managed_time) (auto simp: managed_iff verifyGrant_iff intro: before_antitone)

lemma grantCheck_fst:
  "fst (grantCheck pf reg root s now) =
     (case verifyCredentialAuthorityGrant pf s root now (Some (resolveIn reg)) of
        Some g \<Rightarrow> Some (g, False) | None \<Rightarrow> map_option (\<lambda>g. (g, True)) (verifyManagedDeviceGrant pf s now))"
  by (simp add: grantCheck_def split: option.split)

lemma grant_persists:
  assumes "grantCompatible pf T q q'" and "grantQuestion q = grantQuestion q'" and "T \<le> t" and "t \<le> t'"
    and "before t' (snd (grantRemembered pf root q t))"
  shows "fst (grantRemembered pf root q' t') = fst (grantRemembered pf root q t)"
proof -
  obtain reg s where q: "q = (reg, s)" by fastforce
  obtain reg' s' where q': "q' = (reg', s')" by fastforce
  have r: "registries pf T reg reg'" using assms(1) by (simp add: grantCompatible_def q q')
  have eq: "stringify (signedGrantJson s) @ fst (chain reg (grantIssuer (machineGrant s)))
      = stringify (signedGrantJson s') @ fst (chain reg' (grantIssuer (machineGrant s')))"
    using assms(2) by (simp add: grantQuestion_def q q')
  have s: "s' = s" using stringify_prefix(1) [OF eq chain_slashed chain_slashed] by (auto dest: signedGrantJson_inject)
  have v: "verifyCredentialAuthorityGrant pf s root u (Some (resolveIn reg')) = verifyCredentialAuthorityGrant pf s root u (Some (resolveIn reg))" for u
  proof (cases "signedCredentialAuthorityGrantSchema pf s")
    case False
    then show ?thesis by (simp add: verifyCredentialAuthorityGrant_def Let_def)
  next
    case True
    have p: "pred_option plainId (grantIssuer (machineGrant s))"
      using r True by (auto simp: registries_def intro: issuer_plain)
    show ?thesis
      by (rule grant_cong [symmetric], rule registries_chain(1) [OF r p p])
        (use stringify_prefix(2) [OF eq chain_slashed chain_slashed] s in simp)
  qed
  have "fst (grantCheck pf reg root s t') = fst (grantCheck pf reg root s t)"
  proof (cases "verifyCredentialAuthorityGrant pf s root t (Some (resolveIn reg))")
    case None
    then have rooted: "verifyCredentialAuthorityGrant pf s root t' (Some (resolveIn reg)) = None"
      using grant_earlier [OF _ assms(4)] by (metis not_None_eq)
    have "verifyManagedDeviceGrant pf s t' = verifyManagedDeviceGrant pf s t"
    proof (cases "verifyManagedDeviceGrant pf s t")
      case None
      then show ?thesis using managed_earlier [OF _ assms(4)] by (metis not_None_eq)
    next
      case (Some g)
      then show ?thesis using managed_time [OF Some] assms(5) None by (simp add: grantRemembered_def grantCheck_def q)
    qed
    then show ?thesis using None rooted by (simp add: grantCheck_fst)
  next
    case (Some g)
    have "verifyCredentialAuthorityGrant pf s root t' (Some (resolveIn reg)) = Some g"
      by (rule grant_later [OF Some assms(3)]) (use assms(5) Some r in \<open>simp_all add: registries_def grantRemembered_def grantCheck_def q\<close>)
    then show ?thesis using Some by (simp add: grantCheck_fst)
  qed
  then show ?thesis using s v by (simp add: grantRemembered_def grantCheck_fst q q')
qed

interpretation grants: remembered_check grantQuestion "grantRemembered pf root" "grantCompatible pf" for pf root
  by unfold_locales (rule grant_persists)

end
