(* ===== verification/Device_Answers.thy ===== *)
theory Device_Answers
  imports Device_Memo
begin

text \<open>
  Every question to the verifier of \<open>account-worker/src/device-authority.ts\<close>, asked one after the
  other over registries loaded at different times with one shared memo: the answers are those of the
  verification without the memo.
\<close>

section \<open>Questions\<close>

datatype auth_query =
  Control json GrantCapability int
| Subscription string string int GrantCapability
| Request device_request
| Relay_grant SignedCredentialAuthorityGrant GrantCapability
| Machine_relay "string option" string string
| Service string

datatype auth_answer =
  Control_verdict "(string \<times> int) DeviceVerdict"
| Live bool
| Request_verdict "(VerifiedDevice \<times> string) DeviceVerdict"
| Grant_verdict "CredentialAuthorityGrant DeviceVerdict"
| Relay_verdict "string DeviceVerdict"
| Service_authority "int option option"

fun answer :: "platform \<Rightarrow> verifier \<Rightarrow> auth_query \<Rightarrow> int \<Rightarrow> memo option \<Rightarrow> auth_answer \<times> memo option" where
  "answer pf v (Control request c age) now m = apfst Control_verdict (authorizeControl pf v request c age now m)"
| "answer pf v (Subscription u i g c) now m = apfst Live (controlSubscription pf v u i g c now m)"
| "answer pf v (Request q) now m = apfst Request_verdict (authorizeRequest pf v q now m)"
| "answer pf v (Relay_grant s c) now m = apfst Grant_verdict (authorizeRelayGrant pf v s c now m)"
| "answer pf v (Machine_relay h target i) now m = apfst Relay_verdict (authorizeMachineRelay pf v h target i now m)"
| "answer pf v (Service i) now m = apfst Service_authority (serviceDeviceAuthority pf v i now m)"

text \<open>Each question with its registry and time; a registry whose root key does not decode has no verifier.\<close>

fun answers :: "platform \<Rightarrow> (DeviceRegistry option \<times> auth_query \<times> int) list \<Rightarrow> memo option \<Rightarrow> auth_answer option list" where
  "answers pf [] m = []"
| "answers pf ((reg, q, now) # rest) m =
     (case newVerifier reg of
        None \<Rightarrow> None # answers pf rest m
      | Some v \<Rightarrow> (case answer pf v q now m of (a, m') \<Rightarrow> Some a # answers pf rest m'))"

section \<open>A sound memo\<close>

definition family :: "platform \<Rightarrow> DeviceRegistry set \<Rightarrow> bool" where
  "family pf W \<longleftrightarrow> plainUuids pf \<and> (\<forall>reg \<in> W. soundRegistry pf reg) \<and> (\<forall>reg \<in> W. \<forall>reg' \<in> W. consistent reg reg')"

definition memoSound :: "platform \<Rightarrow> bytes \<Rightarrow> DeviceRegistry set \<Rightarrow> int \<Rightarrow> memo \<Rightarrow> bool" where
  "memoSound pf root W now m \<longleftrightarrow>
     remembered_check.sound deviceQuestion (deviceRemembered pf root) {q. fst q \<in> W \<and> resolveIn (fst q) (snd q) \<noteq> None} now (deviceMemo m)
     \<and> remembered_check.sound machineQuestion (machineRemembered pf root) {q. fst q \<in> W \<and> pairedIn q} now (machineMemo m)
     \<and> remembered_check.sound grantQuestion (grantRemembered pf root) {q. fst q \<in> W} now (grantMemo m)"

lemma memoSound_empty: "memoSound pf root W now noMemo"
  by (simp add: memoSound_def noMemo_def devices.sound_nil machines.sound_nil grants.sound_nil)

lemma memoSound_later: "memoSound pf root W now m \<Longrightarrow> now \<le> now' \<Longrightarrow> memoSound pf root W now' m"
  unfolding memoSound_def using devices.sound_later machines.sound_later grants.sound_later by blast

text \<open>An operation that answers with a sound memo as without one, and leaves the memo sound.\<close>

definition unaffected :: "(memo \<Rightarrow> bool) \<Rightarrow> (memo option \<Rightarrow> 'a \<times> memo option) \<Rightarrow> bool" where
  "unaffected good f \<longleftrightarrow>
     snd (f None) = None
     \<and> (\<forall>m. good m \<longrightarrow> fst (f (Some m)) = fst (f None) \<and> (\<exists>m'. snd (f (Some m)) = Some m' \<and> good m'))"

lemma unaffected_const: "unaffected good (\<lambda>m. (x, m))"
  by (simp add: unaffected_def)

lemma unaffected_bind:
  assumes "unaffected good g" and "\<And>x. unaffected good (h x)"
  shows "unaffected good (\<lambda>m. case g m of (x, m') \<Rightarrow> h x m')"
proof -
  have g: "g None = (fst (g None), None)" using assms(1) by (simp add: unaffected_def prod_eq_iff)
  show ?thesis unfolding unaffected_def
  proof (intro conjI allI impI)
    show "snd (case g None of (x, m') \<Rightarrow> h x m') = None"
      using assms(2) g by (metis case_prod_conv unaffected_def)
    fix m assume m: "good m"
    then obtain m' where m': "g (Some m) = (fst (g None), Some m')" "good m'"
      using assms(1) by (auto simp: unaffected_def prod_eq_iff)
    then have "fst (h (fst (g None)) (Some m')) = fst (h (fst (g None)) None)"
      "\<exists>m''. snd (h (fst (g None)) (Some m')) = Some m'' \<and> good m''"
      using assms(2) by (simp_all add: unaffected_def)
    then show "fst (case g (Some m) of (x, m') \<Rightarrow> h x m') = fst (case g None of (x, m') \<Rightarrow> h x m')"
      "\<exists>m''. snd (case g (Some m) of (x, m') \<Rightarrow> h x m') = Some m'' \<and> good m''"
      using m'(1) g by (metis case_prod_conv)+
  qed
qed

lemma unaffected_if: "(b \<Longrightarrow> unaffected good f) \<Longrightarrow> (\<not> b \<Longrightarrow> unaffected good g) \<Longrightarrow> unaffected good (\<lambda>m. if b then f m else g m)"
  by (cases b) simp_all

lemma unaffected_option:
  "unaffected good f \<Longrightarrow> (\<And>y. x = Some y \<Longrightarrow> unaffected good (g y)) \<Longrightarrow> unaffected good (\<lambda>m. case x of None \<Rightarrow> f m | Some y \<Rightarrow> g y m)"
  by (cases x) simp_all

lemma unaffected_apfst: "unaffected good f \<Longrightarrow> (\<And>m. g m = apfst k (f m)) \<Longrightarrow> unaffected good g"
  by (simp add: unaffected_def)

lemma unaffected_prod: "(\<And>a b. x = (a, b) \<Longrightarrow> unaffected good (f a b)) \<Longrightarrow> unaffected good (\<lambda>m. case x of (a, b) \<Rightarrow> f a b m)"
  by (cases x) simp_all

lemmas unaffected_rules = unaffected_const unaffected_prod unaffected_bind unaffected_if unaffected_option

section \<open>The three verifications\<close>

lemma family_registries: "family pf W \<Longrightarrow> reg \<in> W \<Longrightarrow> reg' \<in> W \<Longrightarrow> settled now reg \<Longrightarrow> registries pf now reg reg'"
  by (simp add: family_def registries_def)

lemma device_unaffected:
  assumes "family pf W" and "reg \<in> W" and "settled now reg"
  shows "unaffected (memoSound pf root W now) (device pf (Some (reg, root)) i now)"
proof (cases "resolveIn reg i")
  case None
  then have "device pf (Some (reg, root)) i now = (\<lambda>m. (None, m))" by (simp add: device_def fun_eq_iff)
  then show ?thesis by (simp add: unaffected_const)
next
  case (Some r)
  let ?asks = "{q. fst q \<in> W \<and> resolveIn (fst q) (snd q) \<noteq> None}"
  have ask: "(reg, i) \<in> ?asks" using assms(2) Some by simp
  have compat: "deviceCompatible pf now (reg, i) q'" if "q' \<in> ?asks" for q'
    using that Some family_registries [OF assms(1,2) _ assms(3)] by (simp add: deviceCompatible_def)
  have q: "deviceQuestion (reg, i) = fst (chain reg (Some i))" "deviceRemembered pf root (reg, i) now = deviceCheck pf reg root r i now"
    by (simp_all add: deviceQuestion_def deviceRemembered_def Some)
  show ?thesis unfolding unaffected_def
  proof (intro conjI allI impI)
    show "snd (device pf (Some (reg, root)) i now None) = None" by (simp add: device_def Some Let_def)
    fix m assume m: "memoSound pf root W now m"
    then have "remembered_check.sound deviceQuestion (deviceRemembered pf root) ?asks now (deviceMemo m)"
      by (simp add: memoSound_def)
    note r = devices.remember_sound [OF this ask compat order_refl, unfolded q]
    show "fst (device pf (Some (reg, root)) i now (Some m)) = fst (device pf (Some (reg, root)) i now None)"
      using r(1) by (simp add: device_def Some Let_def case_prod_unfold)
    show "\<exists>m'. snd (device pf (Some (reg, root)) i now (Some m)) = Some m' \<and> memoSound pf root W now m'"
      using r(2) m by (auto simp: device_def Some Let_def memoSound_def case_prod_unfold)
  qed
qed

lemma machine_unaffected:
  assumes "family pf W" and "reg \<in> W" and "settled now reg"
  shows "unaffected (memoSound pf root W now) (machine pf (Some (reg, root)) i now)"
proof (cases "\<exists>row s. machineRow reg i = Some row \<and> pairedGrant row = Some s")
  case False
  then have "machine pf (Some (reg, root)) i now = (\<lambda>m. (machineRow reg i, m))"
    by (auto simp add: machine_def fun_eq_iff split: option.split)
  then show ?thesis by (simp add: unaffected_const)
next
  case True
  then obtain row s where row: "machineRow reg i = Some row" "pairedGrant row = Some s" by blast
  let ?asks = "{q. fst q \<in> W \<and> pairedIn q}"
  have ask: "(reg, i, s) \<in> ?asks" using assms(2) row by (simp add: pairedIn_def)
  have compat: "machineCompatible pf now (reg, i, s) q'" if "q' \<in> ?asks" for q'
    using that ask family_registries [OF assms(1,2) _ assms(3)] by (simp add: machineCompatible_def)
  have q: "machineQuestion (reg, i, s) = machineKey i (machineGeneration row) (fst (chain reg (grantIssuer (machineGrant s))))"
    "machineRemembered pf root (reg, i, s) now = machineCheck pf reg root s now"
    by (simp_all add: machineQuestion_def machineRemembered_def row)
  show ?thesis unfolding unaffected_def
  proof (intro conjI allI impI)
    show "snd (machine pf (Some (reg, root)) i now None) = None" by (simp add: machine_def row Let_def)
    fix m assume m: "memoSound pf root W now m"
    then have "remembered_check.sound machineQuestion (machineRemembered pf root) ?asks now (machineMemo m)"
      by (simp add: memoSound_def)
    note r = machines.remember_sound [OF this ask compat order_refl, unfolded q]
    show "fst (machine pf (Some (reg, root)) i now (Some m)) = fst (machine pf (Some (reg, root)) i now None)"
      using r(1) by (simp add: machine_def row Let_def case_prod_unfold)
    show "\<exists>m'. snd (machine pf (Some (reg, root)) i now (Some m)) = Some m' \<and> memoSound pf root W now m'"
      using r(2) m by (auto simp: machine_def row Let_def memoSound_def case_prod_unfold)
  qed
qed

lemma relayGrant_unaffected:
  assumes "family pf W" and "reg \<in> W" and "settled now reg"
  shows "unaffected (memoSound pf root W now) (relayGrant pf reg root s now)"
proof -
  let ?asks = "{q. fst q \<in> W} :: (DeviceRegistry \<times> SignedCredentialAuthorityGrant) set"
  have ask: "(reg, s) \<in> ?asks" using assms(2) by simp
  have compat: "grantCompatible pf now (reg, s) q'" if "q' \<in> ?asks" for q'
    using that family_registries [OF assms(1,2) _ assms(3)] by (simp add: grantCompatible_def)
  have q: "grantQuestion (reg, s) = stringify (signedGrantJson s) @ fst (chain reg (grantIssuer (machineGrant s)))"
    "grantRemembered pf root (reg, s) now = grantCheck pf reg root s now"
    by (simp_all add: grantQuestion_def grantRemembered_def)
  show ?thesis unfolding unaffected_def
  proof (intro conjI allI impI)
    show "snd (relayGrant pf reg root s now None) = None" by (simp add: relayGrant_def Let_def)
    fix m assume m: "memoSound pf root W now m"
    then have "remembered_check.sound grantQuestion (grantRemembered pf root) ?asks now (grantMemo m)"
      by (simp add: memoSound_def)
    note r = grants.remember_sound [OF this ask compat order_refl, unfolded q]
    show "fst (relayGrant pf reg root s now (Some m)) = fst (relayGrant pf reg root s now None)"
      using r(1) by (simp add: relayGrant_def Let_def case_prod_unfold)
    show "\<exists>m'. snd (relayGrant pf reg root s now (Some m)) = Some m' \<and> memoSound pf root W now m'"
      using r(2) m by (auto simp: relayGrant_def Let_def memoSound_def case_prod_unfold)
  qed
qed

section \<open>The operations\<close>

lemma operations_unaffected:
  assumes "family pf W" and "reg \<in> W" and "settled now reg"
  shows "unaffected (memoSound pf root W now) (answer pf (Some (reg, root)) q now)"
proof (cases q)
  case (Control request c age)
  have "unaffected (memoSound pf root W now) (authorizeControl pf (Some (reg, root)) request c age now)"
    unfolding authorizeControl_def option.case prod.case
    by (intro unaffected_rules machine_unaffected [OF assms])
  then show ?thesis by (rule unaffected_apfst) (simp add: Control)
next
  case (Subscription u i g c)
  have "unaffected (memoSound pf root W now) (controlSubscription pf (Some (reg, root)) u i g c now)"
    unfolding controlSubscription_def option.case prod.case
    by (intro unaffected_rules machine_unaffected [OF assms])
  then show ?thesis by (rule unaffected_apfst) (simp add: Subscription)
next
  case (Request r)
  have "unaffected (memoSound pf root W now) (authorizeRequest pf (Some (reg, root)) r now)"
    unfolding authorizeRequest_def option.case prod.case Let_def
    by (intro unaffected_rules device_unaffected [OF assms])
  then show ?thesis by (rule unaffected_apfst) (simp add: Request)
next
  case (Relay_grant s c)
  have "unaffected (memoSound pf root W now) (authorizeRelayGrant pf (Some (reg, root)) s c now)"
    unfolding authorizeRelayGrant_def option.case prod.case Let_def
    by (intro unaffected_rules machine_unaffected [OF assms] relayGrant_unaffected [OF assms])
  then show ?thesis by (rule unaffected_apfst) (simp add: Relay_grant)
next
  case (Machine_relay h target i)
  have "unaffected (memoSound pf root W now) (authorizeMachineRelay pf (Some (reg, root)) h target i now)"
    unfolding authorizeMachineRelay_def
    by (intro unaffected_rules machine_unaffected [OF assms])
  then show ?thesis by (rule unaffected_apfst) (simp add: Machine_relay)
next
  case (Service i)
  have "unaffected (memoSound pf root W now) (serviceDeviceAuthority pf (Some (reg, root)) i now)"
    unfolding serviceDeviceAuthority_def
    by (intro unaffected_rules device_unaffected [OF assms])
  then show ?thesis by (rule unaffected_apfst) (simp add: Service)
qed

lemma no_registry: "newVerifier reg = Some None \<Longrightarrow> unaffected good (answer pf None q now)"
  by (cases q) (rule unaffected_apfst [OF unaffected_const], simp add: authorizeControl_def controlSubscription_def
    authorizeRequest_def authorizeRelayGrant_def authorizeMachineRelay_def serviceDeviceAuthority_def machine_def device_def; fail)+

fun askedIn :: "DeviceRegistry set \<Rightarrow> int \<Rightarrow> (DeviceRegistry option \<times> auth_query \<times> int) list \<Rightarrow> bool" where
  "askedIn W t [] \<longleftrightarrow> True"
| "askedIn W t ((reg, q, now) # rest) \<longleftrightarrow>
     t \<le> now \<and> (case reg of None \<Rightarrow> True | Some r \<Rightarrow> r \<in> W \<and> settled now r) \<and> askedIn W now rest"

lemma answers_unaffected:
  assumes "family pf W" and "\<And>reg key. reg \<in> W \<Longrightarrow> fromBase64 (registryRoot reg) = Some key \<Longrightarrow> key = root"
  shows "memoSound pf root W t m \<Longrightarrow> askedIn W t qs \<Longrightarrow> answers pf qs (Some m) = answers pf qs None"
proof (induction qs arbitrary: t m)
  case (Cons x qs)
  obtain reg q now where x: "x = (reg, q, now)" by (cases x) auto
  have m: "memoSound pf root W now m" using Cons.prems x by (intro memoSound_later [OF Cons.prems(1)]) simp
  have rest: "askedIn W now qs" using Cons.prems(2) x by simp
  show ?case
  proof (cases "newVerifier reg")
    case None
    then show ?thesis using Cons.IH [OF m rest] x by simp
  next
    case (Some v)
    have "unaffected (memoSound pf root W now) (answer pf v q now)"
    proof (cases v)
      case None
      then show ?thesis using Some by (auto intro: no_registry)
    next
      case V: (Some p)
      then obtain r where r: "reg = Some r" "p = (r, root)" "r \<in> W" "settled now r"
        using Some Cons.prems(2) assms(2) x by (auto simp: newVerifier_def split: option.splits)
      then show ?thesis using operations_unaffected [OF assms(1) r(3,4)] V by simp
    qed
    then obtain m' where "fst (answer pf v q now (Some m)) = fst (answer pf v q now None)"
      "snd (answer pf v q now None) = None" "snd (answer pf v q now (Some m)) = Some m'" "memoSound pf root W now m'"
      using m unfolding unaffected_def by blast
    then show ?thesis using Cons.IH [OF _ rest] Some x by (simp add: case_prod_unfold)
  qed
qed simp

text \<open>
  The memo changes no answer: for any questions, asked at times that do not go back over any
  registries of one account, the verifier that shares one memo across all of them answers as the one
  that verifies every chain anew.
\<close>

theorem memo_transparent:
  assumes "family pf W" and "askedIn W t qs"
  shows "answers pf qs (Some noMemo) = answers pf qs None"
proof -
  obtain root where root: "\<And>reg key. reg \<in> W \<Longrightarrow> fromBase64 (registryRoot reg) = Some key \<Longrightarrow> key = root"
    using assms(1) unfolding family_def consistent_def by (metis option.inject)
  show ?thesis by (rule answers_unaffected [OF assms(1) root memoSound_empty assms(2)])
qed


section \<open>Examples\<close>

definition revokedBrowser :: DeviceGrantRecord where
  "revokedBrowser = exampleBrowser\<lparr>generation := 2, revokedAt := Some 60\<rparr>"

definition exampleRegistry :: "DeviceGrantRecord \<Rightarrow> DeviceRegistry" where
  "exampleRegistry r = snapshotRegistry
     \<lparr>snapshotUser = ''user'', snapshotRoot = toBase64 (exampleKey 1), snapshotMachines = [], snapshotDevices = [r]\<rparr>"

lemma revoked_fields [simp]:
  "signedInvite revokedBrowser = signedInvite exampleBrowser" "binding revokedBrowser = binding exampleBrowser"
  "generation revokedBrowser = 2" "revokedAt revokedBrowser = Some 60"
  by (simp_all add: revokedBrowser_def)

lemma browser_fields [simp]:
  "generation exampleBrowser = 1" "revokedAt exampleBrowser = None" "deviceId (binding exampleBrowser) = ''dev1''"
  "userId (invite (signedInvite exampleBrowser)) = ''user''" "recordUser exampleBrowser = ''user''" "issuer (signedInvite exampleBrowser) = Root"
  "grantTtlMs (invite (signedInvite exampleBrowser)) = None"
  by (simp_all add: exampleBrowser_def exampleGrant_def exampleInvite_def recordUser_def)

lemma browser_schemas [simp]:
  "deviceGrantRecordSchema examplePlatform exampleBrowser" "deviceGrantRecordSchema examplePlatform revokedBrowser"
proof -
  show b: "deviceGrantRecordSchema examplePlatform exampleBrowser"
    unfolding exampleBrowser_def by (rule example_schema) simp_all
  then show "deviceGrantRecordSchema examplePlatform revokedBrowser"
    by (simp add: deviceGrantRecordSchema_def safeInt_def)
qed

lemma example_rows [simp]:
  "registryUser (exampleRegistry r) = ''user''" "registryRoot (exampleRegistry r) = toBase64 (exampleKey 1)"
  "machineRow (exampleRegistry r) i = None" "deviceRow (exampleRegistry r) d = (if d = deviceId (binding r) then Some r else None)"
  by (simp_all add: exampleRegistry_def snapshotRegistry_def)

lemma example_plain: "plainUuids examplePlatform"
  by (simp add: plainUuids_def examplePlatform_def plainId_def)

lemma browser_verifies:
  "verifyDeviceGrantRecord examplePlatform exampleBrowser (exampleKey 1) 50 resolve 0
     = Some \<lparr>verifiedId = ''dev1'', kind = Browser, label = ''x'', deviceScope = User_scope,
         deviceCapabilities = [Rpc_read, Rpc_write], mayDelegate = True, publicKey = exampleKey 2,
         verifiedGeneration = 1, verifiedBoundAt = 10, verifiedExpiresAt = None\<rparr>"
  by (subst verifyDeviceGrantRecord.simps)
    (simp add: MAX_DELEGATION_DEPTH_def, simp add: exampleBrowser_def example_verifyGrant)

lemma verify_expiry:
  "verifyDeviceGrantRecord pf r root t resolve depth = Some d \<Longrightarrow> verifiedExpiresAt d = deviceGrantExpiresAt r"
  by (subst (asm) verifyDeviceGrantRecord.simps) (auto simp: verifyGrant_def split: DeviceInviteIssuer.splits option.splits if_splits)

lemma revoked_verifies:
  "map_option kind (verifyDeviceGrantRecord examplePlatform revokedBrowser (exampleKey 1) 50 resolve 0) = Some Browser"
  "map_option deviceScope (verifyDeviceGrantRecord examplePlatform revokedBrowser (exampleKey 1) 50 resolve 0) = Some User_scope"
  "map_option deviceCapabilities (verifyDeviceGrantRecord examplePlatform revokedBrowser (exampleKey 1) 50 resolve 0) = Some [Rpc_read, Rpc_write]"
  "60 \<le> t \<Longrightarrow> verifyDeviceGrantRecord examplePlatform revokedBrowser (exampleKey 1) t resolve 0 = None"
proof -
  have g: "verifyGrant examplePlatform exampleBrowser 50 (exampleKey 1)
     = Some \<lparr>verifiedId = ''dev1'', kind = Browser, label = ''x'', deviceScope = User_scope,
         deviceCapabilities = [Rpc_read, Rpc_write], mayDelegate = True, publicKey = exampleKey 2,
         verifiedGeneration = 1, verifiedBoundAt = 10, verifiedExpiresAt = None\<rparr>"
    unfolding exampleBrowser_def by (simp add: example_verifyGrant)
  have c: "grantCurrent 50 revokedBrowser" "grantCurrent 50 exampleBrowser" "60 \<le> t \<Longrightarrow> \<not> grantCurrent t revokedBrowser"
    by (simp_all add: grantCurrent_def deviceGrantExpiresAt_def)
  have "map_option kind (verifyGrant examplePlatform revokedBrowser 50 (exampleKey 1)) = Some Browser"
    "map_option deviceScope (verifyGrant examplePlatform revokedBrowser 50 (exampleKey 1)) = Some User_scope"
    "map_option deviceCapabilities (verifyGrant examplePlatform revokedBrowser 50 (exampleKey 1)) = Some [Rpc_read, Rpc_write]"
    using g c by (auto simp: verifyGrant_def split: option.splits if_splits)
  moreover have "60 \<le> t \<Longrightarrow> verifyGrant examplePlatform revokedBrowser t (exampleKey 1) = None"
    using c(3) by (simp add: verifyGrant_def split: option.split)
  ultimately show
    "map_option kind (verifyDeviceGrantRecord examplePlatform revokedBrowser (exampleKey 1) 50 resolve 0) = Some Browser"
    "map_option deviceScope (verifyDeviceGrantRecord examplePlatform revokedBrowser (exampleKey 1) 50 resolve 0) = Some User_scope"
    "map_option deviceCapabilities (verifyDeviceGrantRecord examplePlatform revokedBrowser (exampleKey 1) 50 resolve 0) = Some [Rpc_read, Rpc_write]"
    "60 \<le> t \<Longrightarrow> verifyDeviceGrantRecord examplePlatform revokedBrowser (exampleKey 1) t resolve 0 = None"
    by (subst verifyDeviceGrantRecord.simps, simp add: MAX_DELEGATION_DEPTH_def)+
qed

lemma example_verifier [simp]: "newVerifier (Some (exampleRegistry r)) = Some (Some (exampleRegistry r, exampleKey 1))"
  by (simp add: newVerifier_def)

lemma example_answers:
  "answers examplePlatform
     [(Some (exampleRegistry exampleBrowser), Service ''dev1'', 50), (Some (exampleRegistry revokedBrowser), Service ''dev1'', 70)] None
   = [Some (Service_authority (Some None)), Some (Service_authority None)]"
proof -
  have "chain (exampleRegistry exampleBrowser) (Some ''dev1'') = (linkText ''dev1'' (Some exampleBrowser), None)"
    by (simp add: chain_links chainOf_five linksText_def resolveIn_def issuerId_def deviceGrantExpiresAt_def)
  then show ?thesis using revoked_verifies(4) [of 70]
    by (simp add: serviceDeviceAuthority_def device_def resolveIn_def deviceCheck_def browser_verifies recordUser_def)
qed

text \<open>
  A revocation whose time the asking isolate's clock has not reached yet: the grant still verifies, is
  remembered under the revoked generation until its own expiry (never, for a grant without one), and
  stays accepted after the revocation has taken effect.
\<close>

lemma future_revocation_remembered:
  assumes "60 \<le> t"
  defines "ask \<equiv> \<lambda>now :: int. (Some (exampleRegistry revokedBrowser), Service ''dev1'', now)"
  shows "answers examplePlatform [ask 50, ask t] None = [Some (Service_authority (Some None)), Some (Service_authority None)]"
    and "answers examplePlatform [ask 50, ask t] (Some noMemo)
      = [Some (Service_authority (Some None)), Some (Service_authority (Some None))]"
proof -
  let ?res = "resolveIn (exampleRegistry revokedBrowser)"
  obtain d where d: "verifyDeviceGrantRecord examplePlatform revokedBrowser (exampleKey 1) 50 ?res 0 = Some d"
    "kind d = Browser" "deviceScope d = User_scope" "deviceCapabilities d = [Rpc_read, Rpc_write]" "verifiedExpiresAt d = None"
    using revoked_verifies(1-3) [of ?res] verify_expiry [of examplePlatform revokedBrowser "exampleKey 1" 50 ?res 0]
    by (cases "verifyDeviceGrantRecord examplePlatform revokedBrowser (exampleKey 1) 50 ?res 0")
      (auto simp: deviceGrantExpiresAt_def)
  have c: "chain (exampleRegistry revokedBrowser) (Some ''dev1'') = (linkText ''dev1'' (Some revokedBrowser), None)"
    by (simp add: chain_links chainOf_five linksText_def resolveIn_def issuerId_def deviceGrantExpiresAt_def recordUser_def)
  have r: "?res ''dev1'' = Some revokedBrowser" by (simp add: resolveIn_row recordUser_def)
  show "answers examplePlatform [ask 50, ask t] None = [Some (Service_authority (Some None)), Some (Service_authority None)]"
    using revoked_verifies(4) [OF assms(1), of ?res] by (simp add: ask_def serviceDeviceAuthority_def device_def r deviceCheck_def d c)
  show "answers examplePlatform [ask 50, ask t] (Some noMemo)
      = [Some (Service_authority (Some None)), Some (Service_authority (Some None))]"
    by (simp add: ask_def serviceDeviceAuthority_def device_def r deviceCheck_def d c Let_def remember_def recall_def noMemo_def
      keep_def before_def MEMO_LIMIT_def)
qed

end
