(* ===== verification/Credential_Vault.thy ===== *)
theory Credential_Vault
  imports Device_Answers
begin

text \<open>
  The credential registry of \<open>CredentialVaultDO\<close> (\<open>account-worker/src/application.ts\<close>): the account's
  machines, devices and browser invitations, what registers, enrolls and revokes them, and the
  snapshot that the isolates cache. A table is the list of its rows. The grants and capabilities that
  a row holds as JSON are held as values; a request comes with its parsed body.
\<close>

section \<open>Tables\<close>

record device_row =
  rowRecord :: DeviceGrantRecord
  rowGeneration :: int
  rowRevokedAt :: "int option"
  rowUpdated :: int

datatype invitation_status = Pending | Redeemed | Cancelled | Expired

record invitation_row =
  invitationId :: string
  invitationCreator :: string
  invitationPayload :: string
  invitationExpires :: int
  invitationStatus :: invitation_status
  invitationDevice :: "string option"

record vault =
  vaultConfig :: "(string \<times> string) option"
  machineRows :: "MachineCredential list"
  deviceRows :: "device_row list"
  invitationRows :: "invitation_row list"

type_synonym 'a vault_result = "(string + 'a) \<times> vault"

definition newVault :: vault where
  "newVault = \<lparr>vaultConfig = None, machineRows = [], deviceRows = [], invitationRows = []\<rparr>"

definition rowDevice :: "device_row \<Rightarrow> string" where "rowDevice r = deviceId (binding (rowRecord r))"
definition rowInvite :: "device_row \<Rightarrow> string" where "rowInvite r = inviteId (invite (signedInvite (rowRecord r)))"

definition grantOf :: "device_row \<Rightarrow> DeviceGrantRecord" where
  "grantOf r = (rowRecord r)\<lparr>generation := rowGeneration r, revokedAt := rowRevokedAt r\<rparr>"

definition deviceGrant :: "vault \<Rightarrow> resolver" where
  "deviceGrant v i = map_option grantOf (List.find (\<lambda>r. rowDevice r = i) (deviceRows v))"

definition listDeviceGrants :: "vault \<Rightarrow> DeviceGrantRecord list" where
  "listDeviceGrants v = map grantOf (sort_key rowUpdated (deviceRows v))"

text \<open>A row whose grant no longer parses is no credential.\<close>

definition machineCredential :: "platform \<Rightarrow> MachineCredential \<Rightarrow> MachineCredential option" where
  "machineCredential pf row = (if pred_option (signedCredentialAuthorityGrantSchema pf) (pairedGrant row) then Some row else None)"

definition machineRowOf :: "vault \<Rightarrow> string \<Rightarrow> MachineCredential option" where
  "machineRowOf v i = List.find (\<lambda>r. credentialMachine r = i) (machineRows v)"

definition deviceRegistrySnapshot :: "platform \<Rightarrow> vault \<Rightarrow> DeviceRegistrySnapshot option" where
  "deviceRegistrySnapshot pf v =
     (case vaultConfig v of
        None \<Rightarrow> None
      | Some (user, root) \<Rightarrow> Some \<lparr>snapshotUser = user, snapshotRoot = root,
          snapshotMachines = List.map_filter (machineCredential pf) (machineRows v),
          snapshotDevices = listDeviceGrants v\<rparr>)"

text \<open>The registry that the vault's own verifier reads.\<close>

definition vaultRegistry :: "platform \<Rightarrow> vault \<Rightarrow> DeviceRegistry option" where
  "vaultRegistry pf v =
     (case vaultConfig v of
        None \<Rightarrow> None
      | Some (user, root) \<Rightarrow> Some \<lparr>registryUser = user, registryRoot = root,
          machineRow = (\<lambda>i. Option.bind (machineRowOf v i) (machineCredential pf)), deviceRow = deviceGrant v\<rparr>)"

definition hasKeyBytes :: "string \<Rightarrow> bool" where
  "hasKeyBytes key = (case fromBase64 key of Some b \<Rightarrow> length b = 32 | None \<Rightarrow> False)"

section \<open>Operations\<close>

definition bootstrap :: "string \<Rightarrow> string \<Rightarrow> string \<Rightarrow> vault \<Rightarrow> string vault_result" where
  "bootstrap user root vaultKey v =
     (if user = [] \<or> \<not> hasKeyBytes root \<or> \<not> hasKeyBytes vaultKey then (Inl ''INVALID_BOOTSTRAP'', v)
      else case vaultConfig v of
          Some (u, _) \<Rightarrow> (if u = user then Inr u else Inl ''VAULT_ALREADY_BOOTSTRAPPED'', v)
        | None \<Rightarrow> (Inr user, v\<lparr>vaultConfig := Some (user, root)\<rparr>))"

text \<open>\<open>INSERT \<dots> ON CONFLICT(machine_id) DO UPDATE\<close>, with the write of \<open>grant_json\<close> after it.\<close>

definition upsertMachine :: "MachineCredential \<Rightarrow> MachineCredential list \<Rightarrow> MachineCredential list" where
  "upsertMachine row rows =
     (if list_ex (\<lambda>r. credentialMachine r = credentialMachine row) rows
      then map (\<lambda>r. if credentialMachine r = credentialMachine row then row else r) rows else rows @ [row])"

definition registerDevice :: "platform \<Rightarrow> SignedCredentialAuthorityGrant \<Rightarrow> int \<Rightarrow> vault \<Rightarrow> (string \<times> int) vault_result" where
  "registerDevice pf s now v =
     (case vaultConfig v of
        None \<Rightarrow> (Inl ''VAULT_UNCONFIGURED'', v)
      | Some (user, root) \<Rightarrow>
          (case Option.bind (fromBase64 root) (\<lambda>key. verifyCredentialAuthorityGrant pf s key now (Some (deviceGrant v))) of
             None \<Rightarrow> (Inl ''INVALID_DEVICE_GRANT'', v)
           | Some g \<Rightarrow>
               if grantUser g \<noteq> user \<or> \<not> hasKeyBytes (grantSigningKey g) \<or> \<not> hasKeyBytes (grantExchangeKey g)
               then (Inl ''INVALID_DEVICE_GRANT'', v)
               else if pred_option (\<lambda>r. grantGeneration g \<le> machineGeneration r) (machineRowOf v (grantMachine g))
                 \<and> machineRowOf v (grantMachine g) \<noteq> None
               then (Inl ''STALE_DEVICE_GRANT'', v)
               else (Inr (grantMachine g, grantGeneration g),
                 v\<lparr>machineRows := upsertMachine \<lparr>credentialMachine = grantMachine g, machineSigningKey = grantSigningKey g,
                    machineExchangeKey = grantExchangeKey g, machineCapabilities = map grantCapabilityText (grantCapabilities g),
                    machineGeneration = grantGeneration g, pairedGrant = Some s\<rparr> (machineRows v)\<rparr>)))"

definition registerManagedDevice ::
    "string \<Rightarrow> string \<Rightarrow> string \<Rightarrow> string \<Rightarrow> GrantCapability list \<Rightarrow> vault \<Rightarrow> (string \<times> int) vault_result" where
  "registerManagedDevice user i signing exchange capabilities' v =
     (case vaultConfig v of
        None \<Rightarrow> (Inl ''INVALID_MANAGED_DEVICE'', v)
      | Some (u, _) \<Rightarrow>
          if user \<noteq> u \<or> i = [] \<or> capabilities' = [] \<or> \<not> hasKeyBytes signing \<or> \<not> hasKeyBytes exchange
          then (Inl ''INVALID_MANAGED_DEVICE'', v)
          else let g = (case machineRowOf v i of Some r \<Rightarrow> machineGeneration r | None \<Rightarrow> 0) + 1 in
            (Inr (i, g),
             v\<lparr>machineRows := upsertMachine \<lparr>credentialMachine = i, machineSigningKey = signing, machineExchangeKey = exchange,
                machineCapabilities = map grantCapabilityText capabilities', machineGeneration = g, pairedGrant = None\<rparr> (machineRows v)\<rparr>))"

definition removeManagedDevice :: "string \<Rightarrow> vault \<Rightarrow> vault" where
  "removeManagedDevice i v =
     v\<lparr>machineRows := map (\<lambda>r. if credentialMachine r = i then r\<lparr>machineCapabilities := []\<rparr> else r) (machineRows v)\<rparr>"

text \<open>A pending invitation that has expired is marked so when it is looked up.\<close>

definition expireInvitation :: "string \<Rightarrow> int \<Rightarrow> invitation_row list \<Rightarrow> invitation_row list" where
  "expireInvitation i now rows =
     map (\<lambda>r. if invitationId r = i \<and> invitationStatus r = Pending \<and> invitationExpires r \<le> now
              then r\<lparr>invitationStatus := Expired\<rparr> else r) rows"

definition browserInvitation :: "string \<Rightarrow> int \<Rightarrow> vault \<Rightarrow> invitation_row option \<times> vault" where
  "browserInvitation i now v =
     (let rows = expireInvitation i now (invitationRows v) in
      (List.find (\<lambda>r. invitationId r = i) rows, v\<lparr>invitationRows := rows\<rparr>))"

definition ENROLLMENT_CLOCK_SKEW_MS :: int where "ENROLLMENT_CLOCK_SKEW_MS = 60000"

text \<open>What an invitation in the vault asks of the invite that redeems it.\<close>

definition redeemable :: "platform \<Rightarrow> SignedDeviceInvite \<Rightarrow> invitation_row option \<Rightarrow> string option" where
  "redeemable pf s row =
     (case row of
        None \<Rightarrow> if inviteKind (invite s) = Browser \<and> issuer s \<noteq> Root then Some ''BROWSER_INVITATION_UNREGISTERED'' else None
      | Some r \<Rightarrow>
          if issuer s \<noteq> Device (invitationCreator r) \<or> Some (invitationPayload r) \<noteq> map_option toBase64 (deviceInvitePayload pf (invite s))
          then Some ''INVALID_DEVICE_INVITE''
          else (case invitationStatus r of
              Cancelled \<Rightarrow> Some ''DEVICE_INVITE_CANCELLED''
            | Expired \<Rightarrow> Some ''DEVICE_INVITE_EXPIRED''
            | Redeemed \<Rightarrow> Some ''DEVICE_INVITE_USED''
            | Pending \<Rightarrow> None))"

definition redeemInvitation :: "string \<Rightarrow> string \<Rightarrow> invitation_row list \<Rightarrow> invitation_row list" where
  "redeemInvitation i d rows =
     map (\<lambda>r. if invitationId r = i \<and> invitationStatus r = Pending
              then r\<lparr>invitationStatus := Redeemed, invitationDevice := Some d\<rparr> else r) rows"

definition enrollDevice ::
    "platform \<Rightarrow> SignedDeviceInvite \<Rightarrow> DeviceBinding \<Rightarrow> int \<Rightarrow> vault \<Rightarrow> (string \<times> int option) vault_result" where
  "enrollDevice pf s b now v =
     (case vaultConfig v of
        None \<Rightarrow> (Inl ''VAULT_UNCONFIGURED'', v)
      | Some (user, root) \<Rightarrow>
          if userId (invite s) \<noteq> user then (Inl ''INVALID_DEVICE_INVITE'', v)
          else if expiresAt (invite s) \<le> now then (Inl ''DEVICE_INVITE_EXPIRED'', v)
          else if \<not> verifyDeviceBinding pf b \<or> bindingInviteId b \<noteq> inviteId (invite s) then (Inl ''INVALID_DEVICE_BINDING'', v)
          else if ENROLLMENT_CLOCK_SKEW_MS < \<bar>boundAt b - now\<bar> then (Inl ''INVALID_DEVICE_BINDING'', v)
          else let r = \<lparr>signedInvite = s, binding = b, generation = 1, revokedAt = None\<rparr> in
            (case Option.bind (fromBase64 root) (\<lambda>key. verifyDeviceGrantRecord pf r key now (deviceGrant v) 0) of
               None \<Rightarrow> (Inl ''INVALID_DEVICE_INVITE'', v)
             | Some _ \<Rightarrow>
                 (case browserInvitation (inviteId (invite s)) now v of
                    (row, v') \<Rightarrow>
                      (case redeemable pf s row of
                         Some e \<Rightarrow> (Inl e, v')
                       | None \<Rightarrow>
                           if list_ex (\<lambda>x. rowDevice x = deviceId b \<or> rowInvite x = inviteId (invite s)) (deviceRows v')
                           then (Inl ''DEVICE_INVITE_USED'', v')
                           else (Inr (deviceId b, deviceGrantExpiresAt r),
                             v'\<lparr>deviceRows := deviceRows v' @ [\<lparr>rowRecord = r, rowGeneration = 1, rowRevokedAt = None, rowUpdated = now\<rparr>],
                                invitationRows := (if row = None then invitationRows v'
                                  else redeemInvitation (inviteId (invite s)) (deviceId b) (invitationRows v'))\<rparr>)))))"

definition recordDeviceRevocation :: "string \<Rightarrow> int \<Rightarrow> vault \<Rightarrow> (string \<times> int) vault_result" where
  "recordDeviceRevocation i now v =
     (case List.find (\<lambda>r. rowDevice r = i) (deviceRows v) of
        None \<Rightarrow> (Inl ''DEVICE_NOT_FOUND'', v)
      | Some row \<Rightarrow>
          (case rowRevokedAt row of
             Some t \<Rightarrow> (Inr (i, t), v)
           | None \<Rightarrow> (Inr (i, now),
               v\<lparr>deviceRows := map (\<lambda>r. if rowDevice r = i
                   then r\<lparr>rowRevokedAt := Some now, rowGeneration := rowGeneration r + 1, rowUpdated := now\<rparr> else r) (deviceRows v)\<rparr>)))"

section \<open>Browser invitations\<close>

datatype invitation_request = Create_invitation SignedDeviceInvite | Read_invitation string | Cancel_invitation string

definition BROWSER_INVITATION_TTL_MS :: int where "BROWSER_INVITATION_TTL_MS = 5 * 60000"

text \<open>The walk over the ancestors of an issuer; a row that names itself above itself would never end.\<close>

partial_function (option) authorityExpiresAt :: "vault \<Rightarrow> DeviceGrantRecord \<Rightarrow> int option option" where
  "authorityExpiresAt v r =
     (case Option.bind (issuerId r) (deviceGrant v) of
        None \<Rightarrow> Some (deviceGrantExpiresAt r)
      | Some parent \<Rightarrow> Option.bind (authorityExpiresAt v parent) (\<lambda>t. Some (earlier (deviceGrantExpiresAt r) t)))"

definition vaultVerifier :: "platform \<Rightarrow> vault \<Rightarrow> verifier option" where
  "vaultVerifier pf v = newVerifier (vaultRegistry pf v)"

text \<open>A request with a device signature, checked over the vault's own rows; a vault whose root key does not decode throws.\<close>

record signed_body =
  signedHeader :: "string option"
  signedTarget :: string
  signedBytes :: bytes

definition authorizeBrowserRequest ::
    "platform \<Rightarrow> signed_body \<Rightarrow> DeviceCapability list \<Rightarrow> int \<Rightarrow> vault \<Rightarrow> string + string" where
  "authorizeBrowserRequest pf q needed now v =
     (case vaultVerifier pf v of
        None \<Rightarrow> Inl ''throws''
      | Some verifier \<Rightarrow>
          (case fst (authorizeRequest pf verifier \<lparr>requestHeader = signedHeader q, requestMethod = ''POST'',
              requestTarget = signedTarget q, requestBody = Some (signedBytes q), requestCapabilities = needed,
              browserOnly = True, accountScope = True\<rparr> now None) of
             Allowed (d, _) \<Rightarrow> Inr (verifiedId d)
           | Rejected c _ _ \<Rightarrow> Inl c
           | Throws \<Rightarrow> Inl ''throws''))"

record invitation_view =
  viewId :: string
  viewExpires :: int
  viewStatus :: invitation_status
  viewDevice :: "string option"

definition viewOfRow :: "invitation_row \<Rightarrow> invitation_view" where
  "viewOfRow r = \<lparr>viewId = invitationId r, viewExpires = invitationExpires r, viewStatus = invitationStatus r, viewDevice = invitationDevice r\<rparr>"

text \<open>Whether the invite of a browser may be registered by the browser \<open>d\<close> that issued it.\<close>

definition invitable ::
    "platform \<Rightarrow> SignedDeviceInvite \<Rightarrow> string \<Rightarrow> DeviceGrantRecord \<Rightarrow> int \<Rightarrow> vault \<Rightarrow> string option" where
  "invitable pf s d issuer' now v =
     (let i = invite s in
      case vaultConfig v of
        None \<Rightarrow> Some ''INVALID_BROWSER_INVITATION''
      | Some (user, root) \<Rightarrow>
          if issuer s \<noteq> Device d \<or> userId i \<noteq> user \<or> inviteKind i \<noteq> Browser \<or> scope i \<noteq> User_scope
          then Some ''INVALID_DEVICE_INVITE''
          else (case Option.bind (fromBase64 root) (\<lambda>key. verifyDeviceGrantRecord pf issuer' key now (deviceGrant v) 1) of
              None \<Rightarrow> Some ''INVALID_DEVICE_INVITE''
            | Some parent \<Rightarrow>
                if verifyDeviceInvite pf s (publicKey parent) = None
                  \<or> \<not> list_all (\<lambda>c. c \<in> set (deviceCapabilities parent)) (capabilities i)
                then Some ''INVALID_DEVICE_INVITE''
                else if expiresAt i \<le> now then Some ''DEVICE_INVITE_EXPIRED''
                else if now + ENROLLMENT_CLOCK_SKEW_MS < issuedAt i \<or> expiresAt i \<le> issuedAt i
                  \<or> BROWSER_INVITATION_TTL_MS < expiresAt i - issuedAt i \<or> now + BROWSER_INVITATION_TTL_MS < expiresAt i
                then Some ''INVALID_DEVICE_INVITE''
                else (case authorityExpiresAt v issuer' of
                    None \<Rightarrow> Some ''throws''
                  | Some None \<Rightarrow> None
                  | Some (Some t) \<Rightarrow>
                      (case grantTtlMs i of
                         None \<Rightarrow> Some ''INVALID_DEVICE_INVITE''
                       | Some ttl \<Rightarrow> if t < expiresAt i + ttl then Some ''INVALID_DEVICE_INVITE'' else None))))"

definition createInvitation ::
    "platform \<Rightarrow> SignedDeviceInvite \<Rightarrow> string \<Rightarrow> DeviceGrantRecord \<Rightarrow> int \<Rightarrow> vault \<Rightarrow> invitation_view vault_result" where
  "createInvitation pf s d issuer' now v =
     (case invitable pf s d issuer' now v of
        Some e \<Rightarrow> (Inl e, v)
      | None \<Rightarrow>
          let i = invite s in
          if list_ex (\<lambda>r. rowInvite r = inviteId i) (deviceRows v) then (Inl ''DEVICE_INVITE_EXISTS'', v)
          else (case browserInvitation (inviteId i) now v of
              (Some _, v') \<Rightarrow> (Inl ''DEVICE_INVITE_EXISTS'', v')
            | (None, v') \<Rightarrow>
                (case deviceInvitePayload pf i of
                   None \<Rightarrow> (Inl ''throws'', v')
                 | Some bytes \<Rightarrow>
                     let row = \<lparr>invitationId = inviteId i, invitationCreator = d, invitationPayload = toBase64 bytes,
                       invitationExpires = expiresAt i, invitationStatus = Pending, invitationDevice = None\<rparr> in
                     (Inr (viewOfRow row), v'\<lparr>invitationRows := invitationRows v' @ [row]\<rparr>))))"

definition cancelInvitation :: "string \<Rightarrow> invitation_row list \<Rightarrow> invitation_row list" where
  "cancelInvitation i rows =
     map (\<lambda>r. if invitationId r = i \<and> invitationStatus r = Pending then r\<lparr>invitationStatus := Cancelled\<rparr> else r) rows"

definition readInvitation :: "string \<Rightarrow> bool \<Rightarrow> int \<Rightarrow> vault \<Rightarrow> invitation_view vault_result" where
  "readInvitation i cancels now v =
     (case browserInvitation i now v of
        (None, v') \<Rightarrow> (Inl ''BROWSER_INVITATION_UNAVAILABLE'', v')
      | (Some r, v') \<Rightarrow>
          if cancels \<and> invitationStatus r = Pending
          then (Inr (viewOfRow (r\<lparr>invitationStatus := Cancelled\<rparr>)), v'\<lparr>invitationRows := cancelInvitation i (invitationRows v')\<rparr>)
          else (Inr (viewOfRow r), v'))"

definition REQUEST_MAX_BYTES :: nat where "REQUEST_MAX_BYTES = 512 * 1024"

text \<open>\<open>user\<close> is the account that the parsed body names.\<close>

definition browserInvitationRequest ::
    "platform \<Rightarrow> signed_body \<Rightarrow> string \<Rightarrow> invitation_request \<Rightarrow> int \<Rightarrow> vault \<Rightarrow> invitation_view vault_result" where
  "browserInvitationRequest pf q user request now v =
     (case vaultConfig v of
        None \<Rightarrow> (Inl ''INVALID_BROWSER_INVITATION'', v)
      | Some (u, _) \<Rightarrow>
          if REQUEST_MAX_BYTES < length (signedBytes q) \<or> user \<noteq> u then (Inl ''INVALID_BROWSER_INVITATION'', v)
          else (case authorizeBrowserRequest pf q [Devices_manage] now v of
              Inl e \<Rightarrow> (Inl e, v)
            | Inr d \<Rightarrow>
                (case deviceGrant v d of
                   None \<Rightarrow> (Inl ''throws'', v)
                 | Some issuer' \<Rightarrow>
                     if \<not> canDelegate (invite (signedInvite issuer')) then (Inl ''RPC_FORBIDDEN'', v)
                     else (case request of
                         Create_invitation s \<Rightarrow> createInvitation pf s d issuer' now v
                       | Read_invitation i \<Rightarrow> readInvitation i False now v
                       | Cancel_invitation i \<Rightarrow> readInvitation i True now v))))"

section \<open>Calls\<close>

datatype vault_call =
  Bootstrap string string string
| Register_device SignedCredentialAuthorityGrant
| Register_managed string string string string "GrantCapability list"
| Remove_managed string
| Enroll SignedDeviceInvite DeviceBinding
| Revoke string
| Invitation signed_body string invitation_request

fun callVault :: "platform \<Rightarrow> vault_call \<Rightarrow> int \<Rightarrow> vault \<Rightarrow> vault" where
  "callVault pf (Bootstrap u r k) now v = snd (bootstrap u r k v)"
| "callVault pf (Register_device s) now v = snd (registerDevice pf s now v)"
| "callVault pf (Register_managed u i a b cs) now v = snd (registerManagedDevice u i a b cs v)"
| "callVault pf (Remove_managed i) now v = removeManagedDevice i v"
| "callVault pf (Enroll s b) now v = snd (enrollDevice pf s b now v)"
| "callVault pf (Revoke i) now v = snd (recordDeviceRevocation i now v)"
| "callVault pf (Invitation q u r) now v = snd (browserInvitationRequest pf q u r now v)"

definition afterCalls :: "platform \<Rightarrow> (vault_call \<times> int) list \<Rightarrow> vault" where
  "afterCalls pf calls = foldl (\<lambda>v (c, now). callVault pf c now v) newVault calls"

end
