(* ===== verification/Vault_History.thy ===== *)
theory Vault_History
  imports Credential_Vault
begin

text \<open>
  What no call on the vault of \<open>account-worker/src/application.ts\<close> breaks: every row of an id stays,
  with the record it was enrolled with and a generation that only grows, so the snapshots that
  isolates cache are identified by id and generation.
\<close>

section \<open>The order of vault states\<close>

definition rowLater :: "device_row \<Rightarrow> device_row \<Rightarrow> bool" where
  "rowLater r r' \<longleftrightarrow> rowRecord r' = rowRecord r
     \<and> (rowGeneration r' = rowGeneration r \<and> rowRevokedAt r' = rowRevokedAt r \<or> rowGeneration r < rowGeneration r')"

definition machineLater :: "MachineCredential \<Rightarrow> MachineCredential \<Rightarrow> bool" where
  "machineLater m m' \<longleftrightarrow> credentialMachine m' = credentialMachine m
     \<and> (machineGeneration m' = machineGeneration m \<and> pairedGrant m' = pairedGrant m \<or> machineGeneration m < machineGeneration m')"

definition later :: "vault \<Rightarrow> vault \<Rightarrow> bool" where
  "later v v' \<longleftrightarrow>
     (\<forall>c. vaultConfig v = Some c \<longrightarrow> vaultConfig v' = Some c)
     \<and> (\<forall>r \<in> set (deviceRows v). \<exists>r' \<in> set (deviceRows v'). rowLater r r')
     \<and> (\<forall>m \<in> set (machineRows v). \<exists>m' \<in> set (machineRows v'). machineLater m m')"

lemma rowLater_refl [simp]: "rowLater r r" by (simp add: rowLater_def)
lemma machineLater_refl [simp]: "machineLater m m" by (simp add: machineLater_def)

lemma rowLater_trans: "rowLater a b \<Longrightarrow> rowLater b c \<Longrightarrow> rowLater a c"
  by (auto simp: rowLater_def)

lemma machineLater_trans: "machineLater a b \<Longrightarrow> machineLater b c \<Longrightarrow> machineLater a c"
  by (auto simp: machineLater_def)

lemma kept [simp]:
  "\<forall>r \<in> set rows. \<exists>r' \<in> set rows. rowLater r r'" "\<forall>m \<in> set ms. \<exists>m' \<in> set ms. machineLater m m'"
  using rowLater_refl machineLater_refl by blast+

lemma later_refl [simp]: "later v v"
  unfolding later_def by simp

lemma later_trans: "later a b \<Longrightarrow> later b c \<Longrightarrow> later a c"
  unfolding later_def by (meson rowLater_trans machineLater_trans)

text \<open>The rows of a vault.\<close>

definition plainMachine :: "string \<Rightarrow> bool" where "plainMachine i \<longleftrightarrow> CHR ''/'' \<notin> set i"

definition vaultOk :: "platform \<Rightarrow> int \<Rightarrow> vault \<Rightarrow> bool" where
  "vaultOk pf t v \<longleftrightarrow>
     distinct (map rowDevice (deviceRows v)) \<and> distinct (map credentialMachine (machineRows v))
     \<and> (\<forall>r \<in> set (deviceRows v). deviceBindingSchema pf (binding (rowRecord r)) \<and> signedDeviceInviteSchema pf (signedInvite (rowRecord r))
          \<and> (\<forall>x. rowRevokedAt r = Some x \<longrightarrow> x \<le> t))
     \<and> (\<forall>m \<in> set (machineRows v). plainMachine (credentialMachine m) \<and> pred_option (signedCredentialAuthorityGrantSchema pf) (pairedGrant m))"

lemma vaultOk_later_time: "vaultOk pf t v \<Longrightarrow> t \<le> t' \<Longrightarrow> vaultOk pf t' v"
  unfolding vaultOk_def by (meson order_trans)

lemma vaultOk_new: "vaultOk pf t newVault"
  by (simp add: vaultOk_def newVault_def)

section \<open>Every call keeps it\<close>

lemma find_row: "List.find P xs = Some x \<Longrightarrow> x \<in> set xs \<and> P x"
  by (metis find_Some_iff nth_mem)

lemma upsert_distinct: "distinct (map credentialMachine rows) \<Longrightarrow> distinct (map credentialMachine (upsertMachine row rows))"
proof -
  have "map credentialMachine (map (\<lambda>r. if credentialMachine r = credentialMachine row then row else r) rows) = map credentialMachine rows"
    by (simp cong: map_cong)
  then show "distinct (map credentialMachine rows) \<Longrightarrow> ?thesis"
    by (auto simp: upsertMachine_def list_ex_iff simp del: map_map)
qed

lemma upsert_members: "m \<in> set (upsertMachine row rows) \<Longrightarrow> m = row \<or> m \<in> set rows"
  by (auto simp: upsertMachine_def split: if_splits)

lemma upsert_later:
  assumes "distinct (map credentialMachine rows)" and "m \<in> set rows"
    and "\<And>r. List.find (\<lambda>r. credentialMachine r = credentialMachine row) rows = Some r \<Longrightarrow> machineGeneration r < machineGeneration row"
  shows "\<exists>m' \<in> set (upsertMachine row rows). machineLater m m'"
proof (cases "credentialMachine m = credentialMachine row")
  case True
  then obtain r where r: "List.find (\<lambda>r. credentialMachine r = credentialMachine row) rows = Some r"
    using assms(2) by (cases "List.find (\<lambda>r. credentialMachine r = credentialMachine row) rows") (auto simp: find_None_iff)
  from find_row [OF r] have "r \<in> set rows" "credentialMachine r = credentialMachine m" using True by simp_all
  then have "r = m" using assms(1,2) inj_onD [of credentialMachine "set rows" r m] by (simp add: distinct_map)
  then have "machineLater m row" using assms(3) [OF r] True by (simp add: machineLater_def)
  moreover have "row \<in> set (upsertMachine row rows)" using True assms(2) by (force simp: upsertMachine_def list_ex_iff)
  ultimately show ?thesis by blast
next
  case False
  then have "m \<in> set (upsertMachine row rows)" using assms(2) by (force simp: upsertMachine_def)
  then show ?thesis by (intro bexI [of _ m]) simp_all
qed

definition grows :: "platform \<Rightarrow> int \<Rightarrow> vault \<Rightarrow> vault \<Rightarrow> bool" where
  "grows pf t v v' \<longleftrightarrow> later v v' \<and> vaultOk pf t v'"

lemma grows_same: "vaultOk pf t v \<Longrightarrow> grows pf t v v"
  by (simp add: grows_def)

lemma grows_machine:
  assumes "vaultOk pf t v" and "plainMachine (credentialMachine row)" and "pred_option (signedCredentialAuthorityGrantSchema pf) (pairedGrant row)"
    and "\<And>r. machineRowOf v (credentialMachine row) = Some r \<Longrightarrow> machineGeneration r < machineGeneration row"
  shows "grows pf t v (v\<lparr>machineRows := upsertMachine row (machineRows v)\<rparr>)"
proof -
  have d: "distinct (map credentialMachine (machineRows v))" using assms(1) by (simp add: vaultOk_def)
  have "\<forall>m \<in> set (machineRows v). \<exists>m' \<in> set (upsertMachine row (machineRows v)). machineLater m m'"
    using upsert_later [OF d _ assms(4) [unfolded machineRowOf_def]] by blast
  then have "later v (v\<lparr>machineRows := upsertMachine row (machineRows v)\<rparr>)"
    by (simp add: later_def)
  moreover have "vaultOk pf t (v\<lparr>machineRows := upsertMachine row (machineRows v)\<rparr>)"
    using assms(1-3) upsert_distinct [OF d] by (auto simp: vaultOk_def dest: upsert_members)
  ultimately show ?thesis by (simp add: grows_def)
qed

lemma grows_devices:
  assumes "vaultOk pf t v" and "\<And>r. r \<in> set (deviceRows v) \<Longrightarrow> \<exists>r' \<in> set rows. rowLater r r'"
    and "distinct (map rowDevice rows)"
    and "\<And>r. r \<in> set rows \<Longrightarrow> deviceBindingSchema pf (binding (rowRecord r)) \<and> signedDeviceInviteSchema pf (signedInvite (rowRecord r))"
    and "\<And>r x. r \<in> set rows \<Longrightarrow> rowRevokedAt r = Some x \<Longrightarrow> x \<le> t"
  shows "grows pf t v (v\<lparr>deviceRows := rows, invitationRows := invs\<rparr>)"
proof -
  have "later v (v\<lparr>deviceRows := rows, invitationRows := invs\<rparr>)"
    using assms(2) by (simp add: later_def)
  moreover have "vaultOk pf t (v\<lparr>deviceRows := rows, invitationRows := invs\<rparr>)"
    using assms unfolding vaultOk_def by simp
  ultimately show ?thesis by (simp add: grows_def)
qed

lemma grows_invitations: "vaultOk pf t v \<Longrightarrow> grows pf t v (v\<lparr>invitationRows := invs\<rparr>)"
  unfolding grows_def vaultOk_def later_def by simp

lemma grows_trans: "grows pf t a b \<Longrightarrow> grows pf t b c \<Longrightarrow> grows pf t a c"
  unfolding grows_def using later_trans by blast

section \<open>The calls\<close>

lemma register_grows:
  assumes ok: "vaultOk pf t v" and "plainMachine (grantMachine (machineGrant s))"
  shows "grows pf t v (snd (registerDevice pf s now v))"
proof (cases "snd (registerDevice pf s now v) = v")
  case False
  then obtain user root key g where g: "verifyCredentialAuthorityGrant pf s key now (Some (deviceGrant v)) = Some g"
    "\<not> (pred_option (\<lambda>r. grantGeneration g \<le> machineGeneration r) (machineRowOf v (grantMachine g)) \<and> machineRowOf v (grantMachine g) \<noteq> None)"
    "snd (registerDevice pf s now v) = v\<lparr>machineRows := upsertMachine \<lparr>credentialMachine = grantMachine g, machineSigningKey = grantSigningKey g,
        machineExchangeKey = grantExchangeKey g, machineCapabilities = map grantCapabilityText (grantCapabilities g),
        machineGeneration = grantGeneration g, pairedGrant = Some s\<rparr> (machineRows v)\<rparr>"
    unfolding registerDevice_def by (auto split: option.splits bind_splits if_splits)
  have s: "g = machineGrant s" "signedCredentialAuthorityGrantSchema pf s" using g(1) by (simp_all add: verifyGrant_iff)
  show ?thesis unfolding g(3)
    by (rule grows_machine [OF ok]) (use assms(2) s g(2) in \<open>auto simp: not_le\<close>)
qed (simp add: grows_same ok)

lemma managed_grows:
  assumes "vaultOk pf t v" and "plainMachine i"
  shows "grows pf t v (snd (registerManagedDevice u i a b cs v))"
  unfolding registerManagedDevice_def using assms
  by (auto simp: Let_def grows_same split: option.splits intro!: grows_machine)

lemma remove_grows:
  assumes "vaultOk pf t v"
  shows "grows pf t v (removeManagedDevice i v)"
proof -
  have m: "credentialMachine \<circ> (\<lambda>r. if credentialMachine r = i then r\<lparr>machineCapabilities := []\<rparr> else r) = credentialMachine"
    by (rule ext) simp
  have "\<forall>m \<in> set (machineRows v). \<exists>m' \<in> set (machineRows (removeManagedDevice i v)). machineLater m m'"
  proof (intro ballI)
    fix m assume m: "m \<in> set (machineRows v)"
    show "\<exists>m' \<in> set (machineRows (removeManagedDevice i v)). machineLater m m'"
    proof (rule bexI)
      show "machineLater m (if credentialMachine m = i then m\<lparr>machineCapabilities := []\<rparr> else m)" by (simp add: machineLater_def)
      show "(if credentialMachine m = i then m\<lparr>machineCapabilities := []\<rparr> else m) \<in> set (machineRows (removeManagedDevice i v))"
        using m by (simp add: removeManagedDevice_def)
    qed
  qed
  then have "later v (removeManagedDevice i v)" by (simp add: later_def) (simp add: removeManagedDevice_def)
  moreover have "vaultOk pf t (removeManagedDevice i v)"
    using assms by (auto simp: vaultOk_def removeManagedDevice_def m split: if_splits)
  ultimately show ?thesis by (simp add: grows_def)
qed

lemma revoke_grows:
  assumes ok: "vaultOk pf t v" and "t \<le> now"
  shows "grows pf now v (snd (recordDeviceRevocation i now v))"
proof -
  have ok': "vaultOk pf now v" by (rule vaultOk_later_time [OF assms])
  show ?thesis
  proof (cases "\<exists>row. List.find (\<lambda>r. rowDevice r = i) (deviceRows v) = Some row \<and> rowRevokedAt row = None")
    case False
    then show ?thesis using grows_same [OF ok'] by (auto simp: recordDeviceRevocation_def split: option.splits)
  next
    case True
    let ?f = "\<lambda>r. if rowDevice r = i then r\<lparr>rowRevokedAt := Some now, rowGeneration := rowGeneration r + 1, rowUpdated := now\<rparr> else r"
    have s: "snd (recordDeviceRevocation i now v) = v\<lparr>deviceRows := map ?f (deviceRows v), invitationRows := invitationRows v\<rparr>"
      using True by (auto simp: recordDeviceRevocation_def)
    have f: "rowLater r (?f r)" "rowDevice (?f r) = rowDevice r" "rowRecord (?f r) = rowRecord r" for r
      by (simp_all add: rowLater_def rowDevice_def)
    have m: "map rowDevice (map ?f rows) = map rowDevice rows" for rows using f(2) by simp
    show ?thesis unfolding s
    proof (rule grows_devices [OF ok'])
      show "\<exists>r' \<in> set (map ?f (deviceRows v)). rowLater r r'" if "r \<in> set (deviceRows v)" for r
        using that f(1) by (intro bexI [of _ "?f r"]) simp_all
      show "distinct (map rowDevice (map ?f (deviceRows v)))" unfolding m using ok by (simp add: vaultOk_def)
      show "deviceBindingSchema pf (binding (rowRecord r)) \<and> signedDeviceInviteSchema pf (signedInvite (rowRecord r))"
        if "r \<in> set (map ?f (deviceRows v))" for r
        using that ok f(3) by (auto simp: vaultOk_def)
      show "x \<le> now" if "r \<in> set (map ?f (deviceRows v))" "rowRevokedAt r = Some x" for r x
        using that ok' by (auto simp: vaultOk_def split: if_splits)
    qed
  qed
qed

lemma browserInvitation_vault: "snd (browserInvitation i now v) = v\<lparr>invitationRows := expireInvitation i now (invitationRows v)\<rparr>"
  by (simp add: browserInvitation_def Let_def)

lemma verified_schemas:
  "verifyDeviceGrantRecord pf r root now resolve depth = Some d \<Longrightarrow>
     deviceBindingSchema pf (binding r) \<and> signedDeviceInviteSchema pf (signedInvite r)"
  by (subst (asm) verifyDeviceGrantRecord.simps) (auto simp: deviceGrantRecordSchema_def split: if_splits)

text \<open>Either no device is added, or the one that verified.\<close>

lemma enroll_cases:
  obtains (unchanged) invs where "snd (enrollDevice pf s b now v) = v\<lparr>invitationRows := invs\<rparr>"
  | (enrolled) root d invs where
      "verifyDeviceGrantRecord pf \<lparr>signedInvite = s, binding = b, generation = 1, revokedAt = None\<rparr> root now (deviceGrant v) 0 = Some d"
      "\<not> list_ex (\<lambda>x. rowDevice x = deviceId b \<or> rowInvite x = inviteId (invite s)) (deviceRows v)"
      "snd (enrollDevice pf s b now v) = v\<lparr>deviceRows := deviceRows v @
         [\<lparr>rowRecord = \<lparr>signedInvite = s, binding = b, generation = 1, revokedAt = None\<rparr>, rowGeneration = 1, rowRevokedAt = None, rowUpdated = now\<rparr>],
         invitationRows := invs\<rparr>"
proof -
  have same: "snd (x, v) = v\<lparr>invitationRows := invitationRows v\<rparr>" for x :: "string + string \<times> int option" by simp
  obtain row v' where inv: "browserInvitation (inviteId (invite s)) now v = (row, v')" by fastforce
  then have v': "v' = v\<lparr>invitationRows := expireInvitation (inviteId (invite s)) now (invitationRows v)\<rparr>"
    using browserInvitation_vault [of "inviteId (invite s)" now v] by simp
  show ?thesis
  proof (cases "\<exists>invs. snd (enrollDevice pf s b now v) = v\<lparr>invitationRows := invs\<rparr>")
    case True
    then show ?thesis using unchanged by blast
  next
    case False
    have n: "snd (enrollDevice pf s b now v) \<noteq> v" "snd (enrollDevice pf s b now v) \<noteq> v'"
      using False [unfolded not_ex] same v' by (metis snd_conv, simp)
    obtain user root where c: "vaultConfig v = Some (user, root)"
      using n(1) unfolding enrollDevice_def by (cases "vaultConfig v") auto
    obtain key d where d: "fromBase64 root = Some key"
      "verifyDeviceGrantRecord pf \<lparr>signedInvite = s, binding = b, generation = 1, revokedAt = None\<rparr> key now (deviceGrant v) 0 = Some d"
      using n(1) unfolding enrollDevice_def by (auto simp: c Let_def split: if_splits option.splits bind_splits)
    have e: "snd (enrollDevice pf s b now v) = v'\<lparr>deviceRows := deviceRows v' @
         [\<lparr>rowRecord = \<lparr>signedInvite = s, binding = b, generation = 1, revokedAt = None\<rparr>, rowGeneration = 1, rowRevokedAt = None, rowUpdated = now\<rparr>],
         invitationRows := (if row = None then invitationRows v' else redeemInvitation (inviteId (invite s)) (deviceId b) (invitationRows v'))\<rparr>"
      "\<not> list_ex (\<lambda>x. rowDevice x = deviceId b \<or> rowInvite x = inviteId (invite s)) (deviceRows v')"
      using n unfolding enrollDevice_def by (auto simp: c d inv Let_def split: if_splits option.splits)
    show ?thesis by (rule enrolled [OF d(2)]) (use e v' in simp_all)
  qed
qed

lemma enroll_grows:
  assumes ok: "vaultOk pf t v" and "t \<le> now"
  shows "grows pf now v (snd (enrollDevice pf s b now v))"
proof -
  have ok': "vaultOk pf now v" by (rule vaultOk_later_time [OF assms])
  show ?thesis
  proof (cases rule: enroll_cases [of pf s b now v])
    case (unchanged invs)
    then show ?thesis using grows_invitations [OF ok'] by simp
  next
    case (enrolled root d invs)
    show ?thesis unfolding enrolled(3)
    proof (rule grows_devices [OF ok'])
      let ?row = "\<lparr>rowRecord = \<lparr>signedInvite = s, binding = b, generation = 1, revokedAt = None\<rparr>, rowGeneration = 1, rowRevokedAt = None, rowUpdated = now\<rparr>"
      show "\<exists>r' \<in> set (deviceRows v @ [?row]). rowLater r r'" if "r \<in> set (deviceRows v)" for r
        using that by (intro bexI [of _ r]) simp_all
      have "rowDevice ?row = deviceId b" by (simp add: rowDevice_def)
      then show "distinct (map rowDevice (deviceRows v @ [?row]))"
        using ok enrolled(2) by (auto simp: vaultOk_def list_ex_iff)
      show "deviceBindingSchema pf (binding (rowRecord r)) \<and> signedDeviceInviteSchema pf (signedInvite (rowRecord r))"
        if "r \<in> set (deviceRows v @ [?row])" for r
        using that ok verified_schemas [OF enrolled(1)] by (auto simp: vaultOk_def)
      show "x \<le> now" if "r \<in> set (deviceRows v @ [?row])" "rowRevokedAt r = Some x" for r x
        using that ok' by (auto simp: vaultOk_def)
    qed
  qed
qed

lemma invitation_vault: "\<exists>invs. snd (browserInvitationRequest pf q u r now v) = v\<lparr>invitationRows := invs\<rparr>"
proof -
  have same: "\<exists>invs. v = v\<lparr>invitationRows := invs\<rparr>" by (rule exI [of _ "invitationRows v"]) simp
  have inv: "\<exists>invs. w = v\<lparr>invitationRows := invs\<rparr>" if "browserInvitation i now v = (x, w)" for i x w
    using browserInvitation_vault [of i now v] that by auto
  have read: "\<exists>invs. snd (readInvitation i c now v) = v\<lparr>invitationRows := invs\<rparr>" for i c
    using inv by (cases "browserInvitation i now v") (fastforce simp: readInvitation_def split: option.splits)
  have create: "\<exists>invs. snd (createInvitation pf s d issuer' now v) = v\<lparr>invitationRows := invs\<rparr>" for s d issuer'
  proof (cases "browserInvitation (inviteId (invite s)) now v")
    case (Pair x w)
    then obtain invs where "w = v\<lparr>invitationRows := invs\<rparr>" using inv by blast
    then show ?thesis using Pair same by (auto simp: createInvitation_def Let_def split: option.split)
  qed
  show ?thesis
    using same read create
    by (auto simp: browserInvitationRequest_def split: option.split sum.split invitation_request.split)
qed

fun plainCall :: "vault_call \<Rightarrow> bool" where
  "plainCall (Register_device s) \<longleftrightarrow> plainMachine (grantMachine (machineGrant s))"
| "plainCall (Register_managed u i a b cs) \<longleftrightarrow> plainMachine i"
| "plainCall c \<longleftrightarrow> True"

lemma call_grows:
  assumes "vaultOk pf t v" and "t \<le> now" and "plainCall c"
  shows "grows pf now v (callVault pf c now v)"
proof -
  have ok: "vaultOk pf now v" by (rule vaultOk_later_time [OF assms(1,2)])
  show ?thesis
  proof (cases c)
    case (Bootstrap u r k)
    have "later v (snd (bootstrap u r k v)) \<and> vaultOk pf now (snd (bootstrap u r k v))"
      using ok by (auto simp: bootstrap_def later_def vaultOk_def split: option.split)
    then show ?thesis using Bootstrap by (simp add: grows_def)
  next
    case (Invitation q u r)
    then show ?thesis using invitation_vault [of pf q u r now v] grows_invitations [OF ok] by auto
  qed (use assms ok in \<open>simp_all add: register_grows managed_grows remove_grows enroll_grows revoke_grows\<close>)
qed

section \<open>Histories\<close>

fun history :: "platform \<Rightarrow> vault \<Rightarrow> (vault_call \<times> int) list \<Rightarrow> (vault \<times> int) list" where
  "history pf v [] = []"
| "history pf v ((c, now) # calls) = (let v' = callVault pf c now v in (v', now) # history pf v' calls)"

lemma history_grows:
  "vaultOk pf t v \<Longrightarrow> sorted (t # map snd calls) \<Longrightarrow> list_all (\<lambda>(c, now). plainCall c) calls \<Longrightarrow>
   (w, u) \<in> set (history pf v calls) \<Longrightarrow> later v w \<and> vaultOk pf u w \<and> t \<le> u"
proof (induction pf v calls arbitrary: t rule: history.induct)
  case (2 pf v c now calls)
  let ?v = "callVault pf c now v"
  have g: "grows pf now v ?v" using "2.prems" by (intro call_grows) auto
  show ?case
  proof (cases "(w, u) = (?v, now)")
    case True
    then show ?thesis using g "2.prems"(2) by (simp add: grows_def)
  next
    case False
    then have "later ?v w \<and> vaultOk pf u w \<and> now \<le> u"
      using "2.prems" g by (intro "2.IH" [OF refl]) (auto simp: grows_def Let_def)
    then show ?thesis using g "2.prems"(2) later_trans by (auto simp: grows_def)
  qed
qed simp

lemma history_ordered:
  "vaultOk pf t v \<Longrightarrow> sorted (t # map snd calls) \<Longrightarrow> list_all (\<lambda>(c, now). plainCall c) calls \<Longrightarrow>
   (w, u) \<in> set (history pf v calls) \<Longrightarrow> (w', u') \<in> set (history pf v calls) \<Longrightarrow> later w w' \<or> later w' w"
proof (induction pf v calls arbitrary: t rule: history.induct)
  case (2 pf v c now calls)
  let ?v = "callVault pf c now v"
  have g: "vaultOk pf now ?v" using call_grows [of pf t v now c] "2.prems" by (simp add: grows_def)
  have s: "sorted (now # map snd calls)" "list_all (\<lambda>(c, now). plainCall c) calls" using "2.prems" by auto
  have after: "later ?v x" if "(x, y) \<in> set (history pf ?v calls)" for x y
    using history_grows [OF g s that] by simp
  show ?case using "2.IH" [OF refl g s] "2.prems"(4,5) after by (fastforce simp: Let_def)
qed simp

section \<open>Snapshots\<close>

definition registryAt :: "platform \<Rightarrow> vault \<Rightarrow> DeviceRegistry option" where
  "registryAt pf v = map_option snapshotRegistry (deviceRegistrySnapshot pf v)"

lemma distinct_find: "distinct (map f xs) \<Longrightarrow> List.find (\<lambda>x. f x = k) xs = Some x \<longleftrightarrow> x \<in> set xs \<and> f x = k"
  by (induction xs) (auto split: if_splits)

lemma deviceGrant_iff:
  "vaultOk pf t v \<Longrightarrow> deviceGrant v i = Some r \<longleftrightarrow> (\<exists>x \<in> set (deviceRows v). rowDevice x = i \<and> r = grantOf x)"
  using distinct_find [of rowDevice "deviceRows v" i] by (auto simp: deviceGrant_def vaultOk_def)

lemma map_of_last:
  "distinct (map f xs) \<Longrightarrow> map_of (rev (map (\<lambda>x. (f x, x)) xs)) k = Some x \<longleftrightarrow> x \<in> set xs \<and> f x = k"
  by (subst map_of_eq_Some_iff) (auto simp: comp_def rev_map [symmetric])

lemma binding_grantOf [simp]: "binding (grantOf x) = binding (rowRecord x)" "signedInvite (grantOf x) = signedInvite (rowRecord x)"
  "generation (grantOf x) = rowGeneration x" "revokedAt (grantOf x) = rowRevokedAt x"
  by (simp_all add: grantOf_def)

lemma snapshot_devices:
  assumes "vaultOk pf t v"
  shows "map_of (rev (map (\<lambda>r. (deviceId (binding r), r)) (listDeviceGrants v))) = deviceGrant v"
proof (rule ext)
  fix i
  have d: "distinct (map (\<lambda>r. deviceId (binding r)) (listDeviceGrants v))"
    using assms by (simp add: listDeviceGrants_def vaultOk_def comp_def rowDevice_def [symmetric] distinct_map)
  have "map_of (rev (map (\<lambda>r. (deviceId (binding r), r)) (listDeviceGrants v))) i = Some r \<longleftrightarrow> deviceGrant v i = Some r" for r
    unfolding map_of_last [OF d] deviceGrant_iff [OF assms] by (auto simp: listDeviceGrants_def rowDevice_def)
  then show "map_of (rev (map (\<lambda>r. (deviceId (binding r), r)) (listDeviceGrants v))) i = deviceGrant v i"
    by (metis not_None_eq)
qed

lemma machine_map: "List.map_filter (machineCredential pf) ms = filter (\<lambda>m. pred_option (signedCredentialAuthorityGrantSchema pf) (pairedGrant m)) ms"
  by (induction ms) (simp_all add: map_filter_simps machineCredential_def)

lemma machineRowOf_iff: "vaultOk pf t v \<Longrightarrow> machineRowOf v i = Some m \<longleftrightarrow> m \<in> set (machineRows v) \<and> credentialMachine m = i"
  using distinct_find [of credentialMachine "machineRows v" i] by (simp add: machineRowOf_def vaultOk_def)

lemma snapshot_machines:
  assumes "vaultOk pf t v"
  shows "map_of (rev (map (\<lambda>m. (credentialMachine m, m)) (List.map_filter (machineCredential pf) (machineRows v))))
    = (\<lambda>i. Option.bind (machineRowOf v i) (machineCredential pf))"
proof (rule ext)
  fix i
  have d: "distinct (map credentialMachine (machineRows v))" using assms by (simp add: vaultOk_def)
  then have f: "distinct (map credentialMachine (List.map_filter (machineCredential pf) (machineRows v)))"
    by (simp add: machine_map distinct_map_filter)
  have "map_of (rev (map (\<lambda>m. (credentialMachine m, m)) (List.map_filter (machineCredential pf) (machineRows v)))) i = Some m
      \<longleftrightarrow> Option.bind (machineRowOf v i) (machineCredential pf) = Some m" for m
    unfolding map_of_last [OF f] bind_eq_Some_conv machineRowOf_iff [OF assms]
    by (auto simp: machine_map machineCredential_def split: if_splits)
  then show "map_of (rev (map (\<lambda>m. (credentialMachine m, m)) (List.map_filter (machineCredential pf) (machineRows v)))) i
      = Option.bind (machineRowOf v i) (machineCredential pf)"
    by (metis not_None_eq)
qed

text \<open>A snapshot answers every look-up as the vault's own rows do.\<close>

lemma registryAt_vault: "vaultOk pf t v \<Longrightarrow> registryAt pf v = vaultRegistry pf v"
  using snapshot_devices snapshot_machines
  by (auto simp: registryAt_def vaultRegistry_def deviceRegistrySnapshot_def snapshotRegistry_def split: option.split)

lemma registry_sound:
  assumes "vaultOk pf t v" and "registryAt pf v = Some reg"
  shows "soundRegistry pf reg" and "settled t reg"
proof -
  obtain user root where reg: "reg = \<lparr>registryUser = user, registryRoot = root,
      machineRow = (\<lambda>i. Option.bind (machineRowOf v i) (machineCredential pf)), deviceRow = deviceGrant v\<rparr>"
    using assms(2) unfolding registryAt_vault [OF assms(1)] by (auto simp: vaultRegistry_def split: option.splits)
  have "deviceId (binding r) = d \<and> deviceBindingSchema pf (binding r) \<and> signedDeviceInviteSchema pf (signedInvite r)"
    if "deviceGrant v d = Some r" for d r
    using that assms(1) unfolding deviceGrant_iff [OF assms(1)] by (auto simp: vaultOk_def rowDevice_def)
  moreover have "credentialMachine row = i \<and> CHR ''/'' \<notin> set i \<and> pred_option (signedCredentialAuthorityGrantSchema pf) (pairedGrant row)"
    if "Option.bind (machineRowOf v i) (machineCredential pf) = Some row" for i row
    using that assms(1) unfolding bind_eq_Some_conv machineRowOf_iff [OF assms(1)]
    by (auto simp: vaultOk_def machineCredential_def plainMachine_def split: if_splits)
  ultimately show "soundRegistry pf reg" by (simp add: soundRegistry_def reg)
  show "settled t reg"
    using assms(1) unfolding settled_def reg by (auto simp: deviceGrant_iff [OF assms(1)] vaultOk_def)
qed

lemma registry_consistent:
  assumes ok: "vaultOk pf t v" "vaultOk pf t' v'" and "later v v'" and reg: "registryAt pf v = Some reg" "registryAt pf v' = Some reg'"
  shows "consistent reg reg'" and "consistent reg' reg"
proof -
  obtain user root where c: "vaultConfig v = Some (user, root)" "reg = \<lparr>registryUser = user, registryRoot = root,
      machineRow = (\<lambda>i. Option.bind (machineRowOf v i) (machineCredential pf)), deviceRow = deviceGrant v\<rparr>"
    using reg(1) unfolding registryAt_vault [OF ok(1)] by (auto simp: vaultRegistry_def split: option.splits)
  then have c': "reg' = \<lparr>registryUser = user, registryRoot = root,
      machineRow = (\<lambda>i. Option.bind (machineRowOf v' i) (machineCredential pf)), deviceRow = deviceGrant v'\<rparr>"
    using reg(2) assms(3) unfolding registryAt_vault [OF ok(2)] by (auto simp: vaultRegistry_def later_def split: option.splits)
  have d: "r = r'" if g: "deviceGrant v i = Some r" "deviceGrant v' i = Some r'" "generation r = generation r'" for i r r'
  proof -
    obtain x where x: "x \<in> set (deviceRows v)" "rowDevice x = i" "r = grantOf x" using g(1) deviceGrant_iff [OF ok(1)] by blast
    obtain y where y: "y \<in> set (deviceRows v')" "rowDevice y = i" "r' = grantOf y" using g(2) deviceGrant_iff [OF ok(2)] by blast
    obtain z where z: "z \<in> set (deviceRows v')" "rowLater x z" using assms(3) x(1) unfolding later_def by blast
    then have "rowDevice z = i" using x(2) by (simp add: rowDevice_def rowLater_def)
    then have "z = y" using ok(2) y z(1) by (metis (no_types, lifting) vaultOk_def distinct_map inj_onD)
    then show ?thesis using z(2) g(3) x(3) y(3) by (simp add: rowLater_def grantOf_def)
  qed
  have m: "pairedGrant r = pairedGrant r'" if g: "machineRowOf v i = Some r" "machineRowOf v' i = Some r'" "machineGeneration r = machineGeneration r'" for i r r'
  proof -
    have x: "r \<in> set (machineRows v)" "credentialMachine r = i" using g(1) machineRowOf_iff [OF ok(1)] by blast+
    have y: "r' \<in> set (machineRows v')" "credentialMachine r' = i" using g(2) machineRowOf_iff [OF ok(2)] by blast+
    obtain z where z: "z \<in> set (machineRows v')" "machineLater r z" using assms(3) x(1) unfolding later_def by blast
    then have "credentialMachine z = i" using x(2) by (simp add: machineLater_def)
    then have "z = r'" using ok(2) y z(1) by (metis (no_types, lifting) vaultOk_def distinct_map inj_onD)
    then show ?thesis using z(2) g(3) by (simp add: machineLater_def)
  qed
  show "consistent reg reg'" unfolding consistent_def c(2) c'
    using d m by (auto simp: bind_eq_Some_conv machineCredential_def split: if_splits)
  show "consistent reg' reg" unfolding consistent_def c(2) c'
    using d m by (auto simp: bind_eq_Some_conv machineCredential_def split: if_splits) metis+
qed

lemma history_family:
  assumes "plainUuids pf" and "sorted (map snd calls)" and "list_all (\<lambda>(c, now). plainCall c) calls"
  shows "family pf {reg. \<exists>v u. (v, u) \<in> set (history pf newVault calls) \<and> registryAt pf v = Some reg}"
proof -
  obtain t where t: "sorted (t # map snd calls)"
    using assms(2) by (cases calls) (auto intro: that [of 0] that [of "snd (hd calls)"])
  have ok: "vaultOk pf u v" if "(v, u) \<in> set (history pf newVault calls)" for v u
    using history_grows [OF vaultOk_new t assms(3) that] by simp
  show ?thesis unfolding family_def
  proof (intro conjI ballI)
    fix reg reg' assume "reg \<in> {reg. \<exists>v u. (v, u) \<in> set (history pf newVault calls) \<and> registryAt pf v = Some reg}"
      and "reg' \<in> {reg. \<exists>v u. (v, u) \<in> set (history pf newVault calls) \<and> registryAt pf v = Some reg}"
    then obtain v u v' u' where v: "(v, u) \<in> set (history pf newVault calls)" "registryAt pf v = Some reg"
      "(v', u') \<in> set (history pf newVault calls)" "registryAt pf v' = Some reg'" by blast
    show "consistent reg reg'"
      using history_ordered [OF vaultOk_new t assms(3) v(1,3)] registry_consistent [OF ok [OF v(1)] ok [OF v(3)] _ v(2,4)]
        registry_consistent [OF ok [OF v(3)] ok [OF v(1)] _ v(4,2)] by blast
  qed (use assms(1) registry_sound ok in blast)+
qed

text \<open>
  C5. The memo changes no answer where clocks agree. Take any calls on the account's vault (bootstrap, machines
  registered, paired or removed, devices enrolled and revoked, browsers invited) whose times do not go back and whose
  machine ids have no slash, as no uuid has. Then questions asked one after the other over snapshots that were taken
  in between, in any order of the snapshots, get from the verifier with one shared memo the answers of the one that
  verifies every chain anew, if the times of the questions do not go back and each snapshot is asked no earlier, on the
  asking isolate's clock, than the call before it was made on the vault's (\<open>future_revocation_remembered\<close> shows that
  this is needed).
\<close>

theorem vault_memo_transparent:
  assumes "plainUuids pf" and "sorted (map snd calls)" and "list_all (\<lambda>(c, now). plainCall c) calls"
    and "list_all (\<lambda>((v, u), q, now). (v, u) \<in> set (history pf newVault calls) \<and> u \<le> now) qs"
    and "sorted (map (\<lambda>(s, q, now). now) qs)"
  shows "answers pf (map (\<lambda>((v, u), q, now). (registryAt pf v, q, now)) qs) (Some noMemo)
    = answers pf (map (\<lambda>((v, u), q, now). (registryAt pf v, q, now)) qs) None"
proof -
  let ?W = "{reg. \<exists>v u. (v, u) \<in> set (history pf newVault calls) \<and> registryAt pf v = Some reg}"
  obtain t where t: "sorted (t # map snd calls)"
    using assms(2) by (cases calls) (auto intro: that [of 0] that [of "snd (hd calls)"])
  have asked: "askedIn ?W t0 (map (\<lambda>((v, u), q, now). (registryAt pf v, q, now)) qs)"
    if "sorted (t0 # map (\<lambda>(s, q, now). now) qs)" "list_all (\<lambda>((v, u), q, now). (v, u) \<in> set (history pf newVault calls) \<and> u \<le> now) qs" for t0 qs
    using that
  proof (induction qs arbitrary: t0)
    case (Cons x qs)
    obtain v u q now where x: "x = ((v, u), q, now)" by (cases x) auto
    have v: "(v, u) \<in> set (history pf newVault calls)" "u \<le> now" using Cons.prems(2) x by simp_all
    have "settled now reg" if "registryAt pf v = Some reg" for reg
      using registry_sound(2) [OF vaultOk_later_time [OF _ v(2)] that] history_grows [OF vaultOk_new t assms(3) v(1)] by blast
    then show ?case using Cons x v by (auto split: option.split)
  qed simp
  obtain t0 where "sorted (t0 # map (\<lambda>(s, q, now). now) qs)"
    using assms(5) by (cases qs) (auto intro: that [of 0] that [of "snd (snd (hd qs))"])
  from memo_transparent [OF history_family [OF assms(1-3)] asked [OF this assms(4)]] show ?thesis .
qed

definition exampleCalls :: "(vault_call \<times> int) list" where
  "exampleCalls = [(Bootstrap ''user'' (toBase64 (exampleKey 1)) (toBase64 (exampleKey 9)), 10),
     (Enroll (signedInvite exampleBrowser) (binding exampleBrowser), 50), (Revoke ''dev1'', 60)]"

definition bootstrapped :: vault where
  "bootstrapped = newVault\<lparr>vaultConfig := Some (''user'', toBase64 (exampleKey 1))\<rparr>"

definition withBrowser :: vault where
  "withBrowser = bootstrapped\<lparr>deviceRows := [\<lparr>rowRecord = exampleBrowser, rowGeneration = 1, rowRevokedAt = None, rowUpdated = 50\<rparr>]\<rparr>"

definition withRevoked :: vault where
  "withRevoked = bootstrapped\<lparr>deviceRows := [\<lparr>rowRecord = exampleBrowser, rowGeneration = 2, rowRevokedAt = Some 60, rowUpdated = 60\<rparr>]\<rparr>"

lemma exampleBrowser_parts: "\<lparr>signedInvite = signedInvite exampleBrowser, binding = binding exampleBrowser, generation = 1, revokedAt = None\<rparr> = exampleBrowser"
  by (rule DeviceGrantRecord.equality) simp_all

lemma browser_bound:
  "expiresAt (invite (signedInvite exampleBrowser)) = 100" "boundAt (binding exampleBrowser) = 10"
  "bindingInviteId (binding exampleBrowser) = inviteId (invite (signedInvite exampleBrowser))"
  "inviteKind (invite (signedInvite exampleBrowser)) = Browser"
  by (simp_all add: exampleBrowser_def exampleGrant_def exampleInvite_def)

lemma browser_binding: "verifyDeviceBinding examplePlatform (binding exampleBrowser)"
proof -
  have "deviceBindingSchema examplePlatform (binding exampleBrowser)"
    using browser_schemas(1) by (simp add: deviceGrantRecordSchema_def)
  then show ?thesis by (simp add: verifyDeviceBinding_def) (simp add: exampleBrowser_def exampleGrant_def exampleKey_def)
qed

lemma example_history: "history examplePlatform newVault exampleCalls = [(bootstrapped, 10), (withBrowser, 50), (withRevoked, 60)]"
proof -
  have k: "hasKeyBytes (toBase64 (exampleKey n))" for n by (simp add: hasKeyBytes_def exampleKey_def)
  have b: "snd (bootstrap ''user'' (toBase64 (exampleKey 1)) (toBase64 (exampleKey 9)) newVault) = bootstrapped"
    by (simp add: bootstrap_def k newVault_def bootstrapped_def)
  have e: "snd (enrollDevice examplePlatform (signedInvite exampleBrowser) (binding exampleBrowser) 50 bootstrapped) = withBrowser"
    by (simp add: enrollDevice_def exampleBrowser_parts browser_verifies browser_binding browser_bound redeemable_def browserInvitation_def
      expireInvitation_def ENROLLMENT_CLOCK_SKEW_MS_def bootstrapped_def newVault_def withBrowser_def)
  have r: "snd (recordDeviceRevocation ''dev1'' 60 withBrowser) = withRevoked"
    by (simp add: recordDeviceRevocation_def withBrowser_def withRevoked_def rowDevice_def)
  show ?thesis by (simp add: exampleCalls_def b e r)
qed

lemma example_snapshots:
  "registryAt examplePlatform withBrowser = Some (exampleRegistry exampleBrowser)"
  "registryAt examplePlatform withRevoked = Some (exampleRegistry revokedBrowser)"
proof -
  have g: "grantOf \<lparr>rowRecord = exampleBrowser, rowGeneration = 1, rowRevokedAt = None, rowUpdated = 50\<rparr> = exampleBrowser"
    "grantOf \<lparr>rowRecord = exampleBrowser, rowGeneration = 2, rowRevokedAt = Some 60, rowUpdated = 60\<rparr> = revokedBrowser"
    by (rule DeviceGrantRecord.equality; simp)+
  show "registryAt examplePlatform withBrowser = Some (exampleRegistry exampleBrowser)"
    "registryAt examplePlatform withRevoked = Some (exampleRegistry revokedBrowser)"
    by (simp_all add: registryAt_def deviceRegistrySnapshot_def withBrowser_def withRevoked_def bootstrapped_def newVault_def
      listDeviceGrants_def exampleRegistry_def map_filter_simps g)
qed

lemma vault_memo_transparent_witness:
  "answers examplePlatform [(registryAt examplePlatform withBrowser, Service ''dev1'', 50), (registryAt examplePlatform withRevoked, Service ''dev1'', 70)] (Some noMemo)
   = [Some (Service_authority (Some None)), Some (Service_authority None)]"
proof -
  have calls: "sorted (map snd exampleCalls)" "list_all (\<lambda>(c, now). plainCall c) exampleCalls" by (simp_all add: exampleCalls_def)
  have asked: "list_all (\<lambda>((v, u), q, now). (v, u) \<in> set (history examplePlatform newVault exampleCalls) \<and> u \<le> now)
      [((withBrowser, 50), Service ''dev1'', 50), ((withRevoked, 60), Service ''dev1'', 70)]"
    "sorted (map (\<lambda>(s, q, now). now) [((withBrowser, 50 :: int), Service ''dev1'', 50), ((withRevoked, 60), Service ''dev1'', 70 :: int)])"
    by (simp_all add: example_history)
  from vault_memo_transparent [OF example_plain calls asked, unfolded list.map prod.case]
  show ?thesis unfolding example_snapshots example_answers .
qed

end
