(* ===== verification/Authority_Cache.thy ===== *)
theory Authority_Cache
  imports Vault_History
begin

text \<open>
  \<open>DeviceAuthorityCache\<close> of \<open>account-worker/src/device-authority.ts\<close>: each isolate keeps one view of
  the account's credentials, loads another behind it, and answers none that is stale or that a
  credential change has overtaken. A promise is the load it settles with: one under way, or the one
  that is started when the load it is chained to settles. The steps between two awaits are one
  transition; what the runtime may interleave is left open.
\<close>

section \<open>The cache\<close>

definition DEVICE_AUTHORITY_REFRESH_MS :: int where "DEVICE_AUTHORITY_REFRESH_MS = 30000"
definition DEVICE_AUTHORITY_MAX_STALE_MS :: int where "DEVICE_AUTHORITY_MAX_STALE_MS = 120000"
definition LOAD_ABANDON_MS :: int where "LOAD_ABANDON_MS = 10000"

datatype promise = On_load nat | On_chain nat

record 'v entry =
  entryId :: nat
  startedAt :: int
  view :: 'v

record 'v cache =
  entry :: "'v entry option"
  started :: nat
  invalidatedThrough :: nat
  inflight :: "(nat \<times> int) option"
  queued :: "nat option"
  loading :: "(nat \<times> int) list"
  chained :: "nat list"

definition newCache :: "'v cache" where
  "newCache = \<lparr>entry = None, started = 0, invalidatedThrough = 0, inflight = None, queued = None, loading = [], chained = []\<rparr>"

definition usable :: "int \<Rightarrow> 'v cache \<Rightarrow> 'v entry \<Rightarrow> bool" where
  "usable now c e \<longleftrightarrow> invalidatedThrough c < entryId e \<and> now - startedAt e < DEVICE_AUTHORITY_MAX_STALE_MS"

definition usableEntry :: "int \<Rightarrow> 'v cache \<Rightarrow> 'v entry option" where
  "usableEntry now c = (case entry c of None \<Rightarrow> None | Some e \<Rightarrow> if usable now c e then Some e else None)"

definition startLoad :: "int \<Rightarrow> 'v cache \<Rightarrow> promise \<times> 'v cache" where
  "startLoad now c =
     (let i = Suc (started c) in
      (On_load i, c\<lparr>started := i, inflight := Some (i, now), loading := loading c @ [(i, now)]\<rparr>))"

definition abandon :: "int \<Rightarrow> 'v cache \<Rightarrow> 'v cache" where
  "abandon now c =
     (case inflight c of
        Some (i, s) \<Rightarrow> if LOAD_ABANDON_MS < now - s then c\<lparr>inflight := None, queued := None\<rparr> else c
      | None \<Rightarrow> c)"

definition refresh :: "int \<Rightarrow> nat \<Rightarrow> 'v cache \<Rightarrow> promise \<times> 'v cache" where
  "refresh now after c =
     (let c' = abandon now c in
      case inflight c' of
        None \<Rightarrow> startLoad now c'
      | Some (i, s) \<Rightarrow>
          if after < i then (On_load i, c')
          else (case queued c' of
              Some k \<Rightarrow> (On_chain k, c')
            | None \<Rightarrow> (On_chain i, c'\<lparr>queued := Some i, chained := chained c' @ [i]\<rparr>)))"

definition invalidate :: "'v cache \<Rightarrow> 'v cache" where
  "invalidate c = c\<lparr>invalidatedThrough := started c\<rparr>"

text \<open>The load \<open>i\<close> settles, with a view or rejected.\<close>

definition settle :: "nat \<Rightarrow> int \<Rightarrow> 'v option \<Rightarrow> 'v cache \<Rightarrow> 'v cache" where
  "settle i s result c =
     (let c' = (case result of
          None \<Rightarrow> c
        | Some v \<Rightarrow>
            if (case entry c of Some e \<Rightarrow> i < entryId e | None \<Rightarrow> False) then c
            else c\<lparr>entry := Some \<lparr>entryId = i, startedAt = s, view = v\<rparr>\<rparr>) in
      c'\<lparr>inflight := (case inflight c' of Some (j, t) \<Rightarrow> if j = i then None else inflight c' | None \<Rightarrow> None),
         loading := filter (\<lambda>(j, t). j \<noteq> i) (loading c')\<rparr>)"

text \<open>What was chained to the load \<open>i\<close> starts the next one.\<close>

definition runChain :: "nat \<Rightarrow> int \<Rightarrow> 'v cache \<Rightarrow> promise \<times> 'v cache" where
  "runChain i now c = startLoad now (c\<lparr>queued := None, chained := remove1 i (chained c)\<rparr>)"

text \<open>\<open>current\<close>: the entry it answers at once, or the promise it awaits.\<close>

definition current :: "int \<Rightarrow> 'v cache \<Rightarrow> ('v entry + promise) \<times> 'v cache" where
  "current now c =
     (case usableEntry now c of
        None \<Rightarrow> apfst Inr (refresh now (max (case entry c of Some e \<Rightarrow> entryId e | None \<Rightarrow> 0) (invalidatedThrough c)) c)
      | Some e \<Rightarrow>
          (Inl e, if DEVICE_AUTHORITY_REFRESH_MS \<le> now - startedAt e then snd (refresh now (entryId e) c) else c))"

section \<open>The account's vault and an isolate\<close>

text \<open>\<open>env\<close> names the account and its root key; a vault that does not own them authorizes nothing.\<close>

definition loadDeviceAuthority :: "platform \<Rightarrow> string \<times> string \<Rightarrow> vault \<Rightarrow> DeviceRegistry option" where
  "loadDeviceAuthority pf env v =
     (case deviceRegistrySnapshot pf v of
        None \<Rightarrow> None
      | Some s \<Rightarrow> if (snapshotUser s, snapshotRoot s) = env then Some (snapshotRegistry s) else None)"

text \<open>A check on the cached view, and once more on a fresh one when the credential may have just enrolled.\<close>

definition verdictResult :: "'a DeviceVerdict \<Rightarrow> string + 'a" where
  "verdictResult d = (case d of Allowed x \<Rightarrow> Inr x | Rejected c _ _ \<Rightarrow> Inl c | Throws \<Rightarrow> Inl ''throws'')"

definition withDeviceAuthority :: "'v option \<Rightarrow> 'v option \<Rightarrow> ('v \<Rightarrow> 'a DeviceVerdict) \<Rightarrow> string + 'a" where
  "withDeviceAuthority cached fresh ask =
     (case cached of
        None \<Rightarrow> Inl ''DEVICE_AUTHORITY_UNAVAILABLE''
      | Some v \<Rightarrow>
          (case ask v of
             Rejected c m again \<Rightarrow>
               (case fresh of Some f \<Rightarrow> verdictResult (if again then ask f else ask v) | None \<Rightarrow> Inl c)
           | Allowed x \<Rightarrow> Inr x
           | Throws \<Rightarrow> Inl ''throws''))"

record isolate =
  cache :: "DeviceRegistry option cache"
  reads :: "(nat \<times> DeviceRegistry option) list"
  waiting :: "(nat \<times> promise) list"

definition newIsolate :: isolate where
  "newIsolate = \<lparr>cache = newCache, reads = [], waiting = []\<rparr>"

datatype event =
  Changed vault_call int
| Asked nat int
| Answered nat nat "DeviceRegistry option" int
| Denied nat int
| Loads nat int
| Reads nat int
| Settled nat bool
| Chains nat int

text \<open>The credential changes after which the vault invalidates the cache of its own isolate.\<close>

fun credentialsChanged :: "platform \<Rightarrow> vault_call \<Rightarrow> int \<Rightarrow> vault \<Rightarrow> bool" where
  "credentialsChanged pf (Bootstrap u r k) now v \<longleftrightarrow> vaultConfig (snd (bootstrap u r k v)) \<noteq> vaultConfig v"
| "credentialsChanged pf (Register_device s) now v \<longleftrightarrow> \<not> isl (fst (registerDevice pf s now v))"
| "credentialsChanged pf (Register_managed u i a b cs) now v \<longleftrightarrow> \<not> isl (fst (registerManagedDevice u i a b cs v))"
| "credentialsChanged pf (Remove_managed i) now v \<longleftrightarrow> True"
| "credentialsChanged pf (Enroll s b) now v \<longleftrightarrow> \<not> isl (fst (enrollDevice pf s b now v))"
| "credentialsChanged pf (Revoke i) now v \<longleftrightarrow> deviceRows (snd (recordDeviceRevocation i now v)) \<noteq> deviceRows v"
| "credentialsChanged pf (Invitation q u r) now v \<longleftrightarrow> False"

definition loadsOf :: "'v cache \<Rightarrow> 'v cache \<Rightarrow> int \<Rightarrow> event list" where
  "loadsOf c c' now = (if started c' = started c then [] else [Loads (started c') now])"

definition awaited :: "nat \<Rightarrow> promise \<Rightarrow> promise \<Rightarrow> promise" where
  "awaited i p q = (if q = On_chain i then p else q)"

text \<open>
  A step of the account (\<open>own\<close> says that the isolate is the vault's) with its events. \<open>Asked\<close> is a call of
  \<open>current\<close>, and \<open>refreshed\<close> of a caller whose credential is missing.
\<close>

inductive step :: "platform \<Rightarrow> string \<times> string \<Rightarrow> bool \<Rightarrow> vault \<times> isolate \<Rightarrow> event list \<Rightarrow> vault \<times> isolate \<Rightarrow> bool"
  for pf :: platform and env :: "string \<times> string" and own :: bool where
  change:
    "step pf env own (v, s) [Changed c now]
       (callVault pf c now v, if own \<and> credentialsChanged pf c now v then s\<lparr>cache := invalidate (cache s)\<rparr> else s)"
| answered:
    "current now (cache s) = (Inl e, c') \<Longrightarrow>
     step pf env own (v, s) ([Asked k now] @ loadsOf (cache s) c' now @ [Answered k (entryId e) (view e) now]) (v, s\<lparr>cache := c'\<rparr>)"
| awaits:
    "current now (cache s) = (Inr p, c') \<Longrightarrow>
     step pf env own (v, s) ([Asked k now] @ loadsOf (cache s) c' now) (v, s\<lparr>cache := c', waiting := (k, p) # waiting s\<rparr>)"
| refreshes:
    "refresh now (started (cache s)) (cache s) = (p, c') \<Longrightarrow>
     step pf env own (v, s) ([Asked k now] @ loadsOf (cache s) c' now) (v, s\<lparr>cache := c', waiting := (k, p) # waiting s\<rparr>)"
| reads:
    "i \<in> fst ` set (loading (cache s)) \<Longrightarrow> i \<notin> fst ` set (reads s) \<Longrightarrow>
     step pf env own (v, s) [Reads i now] (v, s\<lparr>reads := (i, loadDeviceAuthority pf env v) # reads s\<rparr>)"
| loaded:
    "(i, t) \<in> set (loading (cache s)) \<Longrightarrow> (i, r) \<in> set (reads s) \<Longrightarrow>
     step pf env own (v, s) [Settled i True] (v, s\<lparr>cache := settle i t (Some r) (cache s)\<rparr>)"
| failed:
    "(i, t) \<in> set (loading (cache s)) \<Longrightarrow>
     step pf env own (v, s) [Settled i False] (v, s\<lparr>cache := settle i t None (cache s)\<rparr>)"
| chains:
    "i \<in> set (chained (cache s)) \<Longrightarrow> i \<notin> fst ` set (loading (cache s)) \<Longrightarrow> runChain i now (cache s) = (p, c') \<Longrightarrow>
     step pf env own (v, s) [Chains i now, Loads (started c') now]
       (v, s\<lparr>cache := c', waiting := map (\<lambda>(k, q). (k, awaited i p q)) (waiting s)\<rparr>)"
| resumes:
    "(k, On_load i) \<in> set (waiting s) \<Longrightarrow> i \<notin> fst ` set (loading (cache s)) \<Longrightarrow>
     step pf env own (v, s)
       [case usableEntry now (cache s) of Some e \<Rightarrow> Answered k (entryId e) (view e) now | None \<Rightarrow> Denied k now]
       (v, s\<lparr>waiting := remove1 (k, On_load i) (waiting s)\<rparr>)"

inductive run :: "platform \<Rightarrow> string \<times> string \<Rightarrow> bool \<Rightarrow> event list \<Rightarrow> vault \<times> isolate \<Rightarrow> bool"
  for pf :: platform and env :: "string \<times> string" and own :: bool where
  begins: "run pf env own [] (newVault, newIsolate)"
| continues: "run pf env own es w \<Longrightarrow> step pf env own w es' w' \<Longrightarrow> run pf env own (es @ es') w'"

inductive_cases stepE: "step pf env own w es w'"

section \<open>What an isolate answers\<close>

definition sameRegistry :: "vault \<Rightarrow> vault \<Rightarrow> bool" where
  "sameRegistry v w \<longleftrightarrow> vaultConfig v = vaultConfig w \<and> machineRows v = machineRows w \<and> deviceRows v = deviceRows w"

lemma load_same: "sameRegistry v w \<Longrightarrow> loadDeviceAuthority pf env v = loadDeviceAuthority pf env w"
  by (cases "vaultConfig w")
    (auto simp: sameRegistry_def loadDeviceAuthority_def deviceRegistrySnapshot_def listDeviceGrants_def)

lemma unchanged_registry:
  assumes "\<not> credentialsChanged pf c now v"
  shows "sameRegistry (callVault pf c now v) v"
proof (cases c)
  case (Bootstrap u r k)
  then show ?thesis using assms by (auto simp: sameRegistry_def bootstrap_def split: option.splits)
next
  case (Register_device s)
  then show ?thesis using assms by (auto simp: sameRegistry_def registerDevice_def split: option.splits)
next
  case (Register_managed u i a b cs)
  then show ?thesis using assms by (auto simp: sameRegistry_def registerManagedDevice_def Let_def split: option.splits)
next
  case (Enroll s b)
  then show ?thesis using assms browserInvitation_vault [of "inviteId (invite s)" now v]
    by (auto simp: sameRegistry_def enrollDevice_def Let_def split: option.splits prod.splits if_splits)
next
  case (Revoke i)
  then show ?thesis using assms by (auto simp: sameRegistry_def recordDeviceRevocation_def split: option.splits)
next
  case (Invitation q u r)
  then show ?thesis using invitation_vault [of pf q u r now v] by (auto simp: sameRegistry_def)
qed (use assms in simp)

text \<open>What starting a load changes.\<close>

lemma startLoad_fields [simp]:
  "started (snd (startLoad now c)) = Suc (started c)" "entry (snd (startLoad now c)) = entry c"
  "invalidatedThrough (snd (startLoad now c)) = invalidatedThrough c"
  "loading (snd (startLoad now c)) = loading c @ [(Suc (started c), now)]" "chained (snd (startLoad now c)) = chained c"
  by (simp_all add: startLoad_def Let_def)

lemma abandon_fields [simp]:
  "started (abandon now c) = started c" "entry (abandon now c) = entry c" "invalidatedThrough (abandon now c) = invalidatedThrough c"
  "loading (abandon now c) = loading c" "chained (abandon now c) = chained c"
  by (simp_all add: abandon_def split: option.splits prod.splits)

lemma refresh_fields:
  "entry (snd (refresh now after c)) = entry c" "invalidatedThrough (snd (refresh now after c)) = invalidatedThrough c"
  "started c \<le> started (snd (refresh now after c))"
  "loading (snd (refresh now after c)) = loading c \<and> started (snd (refresh now after c)) = started c
   \<or> loading (snd (refresh now after c)) = loading c @ [(Suc (started c), now)] \<and> started (snd (refresh now after c)) = Suc (started c)"
  by (simp_all add: refresh_def Let_def split: option.split prod.split)

lemma current_refresh: "current now c = (x, c') \<Longrightarrow> c' = c \<or> (\<exists>after. c' = snd (refresh now after c))"
  by (auto simp: current_def apfst_def map_prod_def split: option.splits prod.splits if_splits) (metis snd_conv)+

lemma current_fields:
  assumes "current now c = (x, c')"
  shows "entry c' = entry c" "invalidatedThrough c' = invalidatedThrough c" "started c \<le> started c'"
    "loading c' = loading c \<and> started c' = started c \<or> loading c' = loading c @ [(Suc (started c), now)] \<and> started c' = Suc (started c)"
proof -
  consider "c' = c" | after where "c' = snd (refresh now after c)" using current_refresh [OF assms] by blast
  then show "entry c' = entry c" "invalidatedThrough c' = invalidatedThrough c" "started c \<le> started c'"
    "loading c' = loading c \<and> started c' = started c \<or> loading c' = loading c @ [(Suc (started c), now)] \<and> started c' = Suc (started c)"
    by (cases; simp add: refresh_fields; fail)+
qed

lemma settle_fields [simp]:
  "started (settle i t r c) = started c" "invalidatedThrough (settle i t r c) = invalidatedThrough c"
  "loading (settle i t r c) = filter (\<lambda>(j, t). j \<noteq> i) (loading c)" "chained (settle i t r c) = chained c"
  by (simp_all add: settle_def Let_def split: option.split)

lemma settle_entry:
  "entry (settle i t r c) = entry c \<or> (\<exists>v. r = Some v \<and> entry (settle i t r c) = Some \<lparr>entryId = i, startedAt = t, view = v\<rparr>)"
  by (simp add: settle_def Let_def split: option.split)

lemma runChain_fields:
  assumes "runChain i now c = (p, c')"
  shows "entry c' = entry c" "invalidatedThrough c' = invalidatedThrough c" "started c' = Suc (started c)"
    "loading c' = loading c @ [(Suc (started c), now)]" "p = On_load (Suc (started c))" "chained c' = remove1 i (chained c)"
  using assms by (auto simp: runChain_def startLoad_def Let_def)

text \<open>In the vault's own isolate, what was read since the last change is what the vault holds.\<close>

definition upToDate :: "platform \<Rightarrow> string \<times> string \<Rightarrow> vault \<times> isolate \<Rightarrow> bool" where
  "upToDate pf env w \<longleftrightarrow>
     (case w of (v, s) \<Rightarrow>
       (\<forall>i r. (i, r) \<in> set (reads s) \<longrightarrow> i \<le> started (cache s)
          \<and> (invalidatedThrough (cache s) < i \<longrightarrow> r = loadDeviceAuthority pf env v))
       \<and> (\<forall>i t. (i, t) \<in> set (loading (cache s)) \<longrightarrow> i \<le> started (cache s))
       \<and> (\<forall>e. entry (cache s) = Some e \<longrightarrow> entryId e \<le> started (cache s)
          \<and> (invalidatedThrough (cache s) < entryId e \<longrightarrow> view e = loadDeviceAuthority pf env v)))"

lemma upToDate_cache:
  assumes "upToDate pf env (v, s)" and "entry c' = entry (cache s)" and "invalidatedThrough c' = invalidatedThrough (cache s)"
    and "loading c' = loading (cache s) \<and> started c' = started (cache s)
      \<or> loading c' = loading (cache s) @ [(Suc (started (cache s)), now)] \<and> started c' = Suc (started (cache s))"
  shows "upToDate pf env (v, s\<lparr>cache := c', waiting := ws\<rparr>)"
  using assms by (force simp: upToDate_def)

lemma upToDate_step: "step pf env True w es w' \<Longrightarrow> upToDate pf env w \<Longrightarrow> upToDate pf env w'"
proof (induction w es w' rule: step.induct)
  case (change v s c now)
  show ?case
  proof (cases "credentialsChanged pf c now v")
    case True
    then show ?thesis using change by (force simp: upToDate_def invalidate_def)
  next
    case False
    then show ?thesis using change load_same [OF unchanged_registry [OF False]] by (simp add: upToDate_def)
  qed
next
  case (answered now s e c' v k)
  then show ?case using upToDate_cache [OF answered.prems current_fields(1,2,4) [OF answered.hyps], where ws = "waiting s"] by simp
next
  case (awaits now s p c' v k)
  show ?case by (rule upToDate_cache [OF awaits.prems current_fields(1,2,4) [OF awaits.hyps]])
next
  case (refreshes now s p c' v k)
  have c': "c' = snd (refresh now (started (cache s)) (cache s))" using refreshes.hyps by simp
  show ?case unfolding c'
    by (rule upToDate_cache [OF refreshes.prems refresh_fields(1,2,4)])
next
  case (reads i s v now)
  then show ?case by (auto simp: upToDate_def)
next
  case (loaded i t s r v)
  then show ?case using settle_entry [of i t "Some r" "cache s"] by (force simp: upToDate_def)
next
  case (failed i t s v)
  then show ?case using settle_entry [of i t None "cache s"] by (force simp: upToDate_def)
next
  case (chains i s now p c' v)
  note f = runChain_fields [OF chains.hyps(3)]
  show ?case by (rule upToDate_cache [OF chains.prems f(1,2), of now]) (simp add: f)
next
  case (resumes k i s v now)
  then show ?case by (simp add: upToDate_def)
qed

lemma upToDate_run: "run pf env True es w \<Longrightarrow> upToDate pf env w"
proof (induction rule: run.induct)
  case begins
  then show ?case by (simp add: upToDate_def newIsolate_def newCache_def)
qed (rule upToDate_step)

lemma usableEntry_Some: "usableEntry now c = Some e \<Longrightarrow> entry c = Some e \<and> usable now c e"
  by (auto simp: usableEntry_def split: option.splits if_splits)

lemma current_answers: "current now c = (Inl e, c') \<Longrightarrow> usableEntry now c = Some e"
  by (auto simp: current_def apfst_def map_prod_def split: option.splits prod.splits)

lemma no_answer_loading [simp]: "Answered k i r now \<notin> set (loadsOf c c' t)"
  by (simp add: loadsOf_def)

lemma step_answers:
  "step pf env own w es w' \<Longrightarrow> Answered k i r now \<in> set es \<Longrightarrow>
     \<exists>e. usableEntry now (cache (snd w)) = Some e \<and> entryId e = i \<and> view e = r \<and> fst w' = fst w"
proof (induction w es w' rule: step.induct)
  case (answered now s e c' v k)
  then show ?case using current_answers [OF answered.hyps] by auto
next
  case (resumes k i s v now)
  then show ?case by (cases "usableEntry now (cache s)") (auto split: option.splits)
qed simp_all

text \<open>A run of an isolate: the account is bootstrapped, a caller waits for the first load and is answered.\<close>

definition exampleChange :: vault_call where
  "exampleChange = Bootstrap ''user'' (toBase64 (exampleKey 1)) (toBase64 (exampleKey 9))"

definition exampleEnv :: "string \<times> string" where
  "exampleEnv = (''user'', toBase64 (exampleKey 1))"

definition exampleView :: "DeviceRegistry option" where
  "exampleView = loadDeviceAuthority examplePlatform exampleEnv bootstrapped"

definition loadingOne :: isolate where
  "loadingOne = newIsolate\<lparr>cache := newCache\<lparr>started := 1, inflight := Some (1, 130010), loading := [(1, 130010)]\<rparr>, waiting := [(7, On_load 1)]\<rparr>"

definition holdingOne :: isolate where
  "holdingOne = newIsolate\<lparr>cache := newCache\<lparr>started := 1, entry := Some \<lparr>entryId = 1, startedAt = 130010, view = exampleView\<rparr>\<rparr>,
     reads := [(1, exampleView)], waiting := [(7, On_load 1)]\<rparr>"

lemma example_bootstrap [simp]: "callVault examplePlatform exampleChange 10 newVault = bootstrapped"
proof -
  have k: "hasKeyBytes (toBase64 (exampleKey n))" for n by (simp add: hasKeyBytes_def exampleKey_def)
  show ?thesis by (simp add: exampleChange_def bootstrap_def k newVault_def bootstrapped_def)
qed

lemma run_loading:
  "run examplePlatform exampleEnv own [Changed exampleChange 10, Asked 7 130010, Loads 1 130010] (bootstrapped, loadingOne)"
proof -
  have "invalidate newCache = (newCache :: DeviceRegistry option cache)" by (simp add: invalidate_def newCache_def)
  then have "run examplePlatform exampleEnv own ([] @ [Changed exampleChange 10]) (bootstrapped, newIsolate)"
    using run.continues [OF run.begins step.change [where c = exampleChange and now = 10], of examplePlatform exampleEnv own]
    by (simp add: newIsolate_def split: if_splits)
  from run.continues [OF this step.awaits [where k = 7 and now = 130010 and p = "On_load 1" and c' = "cache loadingOne"]]
  show ?thesis
    by (simp add: loadingOne_def newIsolate_def newCache_def current_def usableEntry_def refresh_def abandon_def startLoad_def loadsOf_def)
qed

lemma run_holding:
  "run examplePlatform exampleEnv own [Changed exampleChange 10, Asked 7 130010, Loads 1 130010, Reads 1 130020, Settled 1 True] (bootstrapped, holdingOne)"
proof -
  have "(1 :: nat) \<in> fst ` set (loading (cache loadingOne))" "(1 :: nat) \<notin> fst ` set (reads loadingOne)"
    by (simp_all add: loadingOne_def newIsolate_def)
  from run.continues [OF run_loading step.reads [OF this, where now = 130020], where own = own]
  have r: "run examplePlatform exampleEnv own [Changed exampleChange 10, Asked 7 130010, Loads 1 130010, Reads 1 130020]
    (bootstrapped, loadingOne\<lparr>reads := [(1, exampleView)]\<rparr>)"
    by (simp add: exampleView_def loadingOne_def newIsolate_def)
  have "(1, 130010) \<in> set (loading (cache (loadingOne\<lparr>reads := [(1, exampleView)]\<rparr>)))" "(1, exampleView) \<in> set (reads (loadingOne\<lparr>reads := [(1, exampleView)]\<rparr>))"
    by (simp_all add: loadingOne_def)
  from run.continues [OF r step.loaded [OF this]]
  show ?thesis by (simp add: holdingOne_def loadingOne_def newIsolate_def newCache_def settle_def)
qed

lemma answered_one:
  "step examplePlatform exampleEnv own (bootstrapped, holdingOne) [Answered 7 1 exampleView 130030] (bootstrapped, holdingOne\<lparr>waiting := []\<rparr>)"
  using step.resumes [of 7 1 holdingOne examplePlatform exampleEnv own bootstrapped 130030]
  by (simp add: holdingOne_def newIsolate_def newCache_def usableEntry_def usable_def DEVICE_AUTHORITY_MAX_STALE_MS_def)

text \<open>
  C9. The isolate that shares the vault's code never answers a view that a credential change has
  overtaken: whatever was called on the vault and however loads, reads and answers interleave, the
  view it answers is what the vault holds at that moment, so a revocation takes effect at once.
\<close>

theorem own_view_current:
  assumes "run pf env True es (v, s)" and "step pf env True (v, s) es' w" and "Answered k i r now \<in> set es'"
  shows "r = loadDeviceAuthority pf env v"
proof -
  have u: "upToDate pf env (v, s)" by (rule upToDate_run [OF assms(1)])
  obtain e where "usableEntry now (cache s) = Some e" "view e = r" using step_answers [OF assms(2,3)] by auto
  then have "entry (cache s) = Some e" "usable now (cache s) e" using usableEntry_Some by blast+
  then show ?thesis using u \<open>view e = r\<close> by (simp add: upToDate_def usable_def)
qed

lemma own_view_current_witness: "exampleView = loadDeviceAuthority examplePlatform exampleEnv bootstrapped"
  by (rule own_view_current [OF run_holding answered_one [where own = True], where k = 7 and i = 1 and now = 130030]) simp

section \<open>Other isolates\<close>

fun applyEvent :: "platform \<Rightarrow> event \<Rightarrow> vault \<Rightarrow> vault" where
  "applyEvent pf (Changed c now) v = callVault pf c now v"
| "applyEvent pf e v = v"

definition vaultOf :: "platform \<Rightarrow> event list \<Rightarrow> vault" where
  "vaultOf pf es = foldl (\<lambda>v e. applyEvent pf e v) newVault es"

lemma vaultOf_append: "vaultOf pf (es @ es') = foldl (\<lambda>v e. applyEvent pf e v) (vaultOf pf es) es'"
  by (simp add: vaultOf_def)

lemma loadsOf_vault [simp]: "foldl (\<lambda>v e. applyEvent pf e v) v (loadsOf c c' now) = v"
  by (simp add: loadsOf_def)

lemma step_vault: "step pf env own w es w' \<Longrightarrow> fst w' = foldl (\<lambda>v e. applyEvent pf e v) (fst w) es"
proof (induction w es w' rule: step.induct)
  case (resumes k i s v now)
  then show ?case by (simp split: option.split)
qed simp_all

lemma run_vault: "run pf env own es w \<Longrightarrow> fst w = vaultOf pf es"
proof (induction rule: run.induct)
  case begins
  then show ?case by (simp add: vaultOf_def)
next
  case (continues es w es' w')
  then show ?case using step_vault by (simp add: vaultOf_append)
qed

text \<open>The load \<open>i\<close> was started at \<open>t\<close> and then read \<open>r\<close>.\<close>

definition readAt :: "platform \<Rightarrow> string \<times> string \<Rightarrow> event list \<Rightarrow> nat \<Rightarrow> int \<Rightarrow> DeviceRegistry option \<Rightarrow> bool" where
  "readAt pf env es i t r \<longleftrightarrow>
     (\<exists>a b c u. es = a @ Loads i t # b @ Reads i u # c \<and> r = loadDeviceAuthority pf env (vaultOf pf (a @ Loads i t # b)))"

lemma readAt_append: "readAt pf env es i t r \<Longrightarrow> readAt pf env (es @ es') i t r"
  unfolding readAt_def by fastforce

definition recorded :: "platform \<Rightarrow> string \<times> string \<Rightarrow> event list \<Rightarrow> isolate \<Rightarrow> bool" where
  "recorded pf env es s \<longleftrightarrow>
     (\<forall>i t. (i, t) \<in> set (loading (cache s)) \<longrightarrow> i \<le> started (cache s) \<and> Loads i t \<in> set es)
     \<and> distinct (map fst (loading (cache s)))
     \<and> (\<forall>i r. (i, r) \<in> set (reads s) \<longrightarrow> i \<le> started (cache s) \<and> (\<forall>t. (i, t) \<in> set (loading (cache s)) \<longrightarrow> readAt pf env es i t r))
     \<and> (\<forall>e. entry (cache s) = Some e \<longrightarrow> readAt pf env es (entryId e) (startedAt e) (view e))"

lemma recorded_more: "recorded pf env es s \<Longrightarrow> recorded pf env (es @ es') s"
  by (auto simp: recorded_def intro: readAt_append)

lemma recorded_cache:
  assumes "recorded pf env es s" and "entry c' = entry (cache s)"
    and "loading c' = loading (cache s) \<and> started c' = started (cache s)
      \<or> loading c' = loading (cache s) @ [(Suc (started (cache s)), now)] \<and> started c' = Suc (started (cache s)) \<and> Loads (started c') now \<in> set es'"
  shows "recorded pf env (es @ es') (s\<lparr>cache := c', waiting := ws\<rparr>)"
proof -
  have r: "recorded pf env (es @ es') s" by (rule recorded_more [OF assms(1)])
  have new: "Suc (started (cache s)) \<notin> fst ` set (loading (cache s))" "Suc (started (cache s)) \<notin> fst ` set (reads s)"
    using assms(1) by (fastforce simp: recorded_def)+
  from assms(3) show ?thesis
  proof (elim disjE conjE)
    assume "loading c' = loading (cache s)" "started c' = started (cache s)"
    then show ?thesis using r assms(2) by (simp add: recorded_def)
  next
    assume l: "loading c' = loading (cache s) @ [(Suc (started (cache s)), now)]" "started c' = Suc (started (cache s))" "Loads (started c') now \<in> set es'"
    show ?thesis using r assms(2) l new unfolding recorded_def by (fastforce simp: le_SucI)
  qed
qed

lemma current_loads:
  "current now (cache s) = (x, c') \<Longrightarrow> started c' = Suc (started (cache s)) \<Longrightarrow> Loads (started c') now \<in> set (loadsOf (cache s) c' now)"
  by (simp add: loadsOf_def)

lemma recorded_step: "step pf env own w es' w' \<Longrightarrow> recorded pf env es (snd w) \<Longrightarrow> fst w = vaultOf pf es \<Longrightarrow> recorded pf env (es @ es') (snd w')"
proof (induction w es' w' rule: step.induct)
  case (change v s c now)
  then show ?case using recorded_more [of pf env es s "[Changed c now]"] by (auto simp: recorded_def invalidate_def)
next
  case (answered now s e c' v k)
  have "recorded pf env (es @ [Asked k now] @ loadsOf (cache s) c' now @ [Answered k (entryId e) (view e) now]) (s\<lparr>cache := c', waiting := waiting s\<rparr>)"
    using answered.prems current_fields [OF answered.hyps] by (intro recorded_cache [where now = now]) (auto simp: loadsOf_def)
  then show ?case by simp
next
  case (awaits now s p c' v k)
  then show ?case using current_fields [OF awaits.hyps] by (simp, intro recorded_cache [where now = now]) (auto simp: loadsOf_def)
next
  case (refreshes now s p c' v k)
  have c': "c' = snd (refresh now (started (cache s)) (cache s))" using refreshes.hyps by simp
  show ?case using refreshes.prems refresh_fields(1,4) [where now = now and c = "cache s" and after = "started (cache s)"]
    unfolding snd_conv by (intro recorded_cache [where now = now]) (auto simp: loadsOf_def c')
next
  case (reads i s v now)
  then obtain t where t: "(i, t) \<in> set (loading (cache s))" by auto
  have new: "readAt pf env (es @ [Reads i now]) i u (loadDeviceAuthority pf env v)" if "(i, u) \<in> set (loading (cache s))" for u
  proof -
    have "Loads i u \<in> set es" using reads.prems(1) that by (auto simp: recorded_def)
    then obtain a b where "es = a @ Loads i u # b" by (meson split_list)
    then have "es @ [Reads i now] = a @ Loads i u # b @ Reads i now # []"
      "loadDeviceAuthority pf env v = loadDeviceAuthority pf env (vaultOf pf (a @ Loads i u # b))"
      using reads.prems(2) by simp_all
    then show ?thesis unfolding readAt_def by blast
  qed
  have "i \<le> started (cache s)" using reads.prems(1) t by (auto simp: recorded_def)
  then show ?case using recorded_more [OF reads.prems(1), of "[Reads i now]"] new by (auto simp: recorded_def)
next
  case (loaded i t s r v)
  have "readAt pf env (es @ [Settled i True]) i t r"
    using loaded by (intro readAt_append) (auto simp: recorded_def)
  then show ?case using recorded_more [OF loaded.prems(1), of "[Settled i True]"] settle_entry [of i t "Some r" "cache s"]
    by (auto simp: recorded_def distinct_map_filter)
next
  case (failed i t s v)
  then show ?case using recorded_more [of pf env es s "[Settled i False]"] settle_entry [of i t None "cache s"]
    by (auto simp: recorded_def distinct_map_filter)
next
  case (chains i s now p c' v)
  note f = runChain_fields [OF chains.hyps(3)]
  show ?case using chains.prems f unfolding snd_conv by (intro recorded_cache [where now = now]) auto
next
  case (resumes k i s v now)
  then show ?case using recorded_more [OF resumes.prems(1)] by (simp add: recorded_def)
qed

lemma recorded_run: "run pf env own es w \<Longrightarrow> recorded pf env es (snd w)"
proof (induction rule: run.induct)
  case begins
  then show ?case by (simp add: recorded_def newIsolate_def newCache_def)
next
  case (continues es w es' w')
  show ?case by (rule recorded_step [OF continues.hyps(2) continues.IH run_vault [OF continues.hyps(1)]])
qed

lemma append_position:
  assumes "xs @ ys = a @ x # b"
  obtains zs where "a = xs @ zs" "ys = zs @ x # b" | zs where "xs = a @ x # zs" "b = zs @ ys"
proof -
  from assms obtain us where "xs = a @ us \<and> us @ ys = x # b \<or> xs @ us = a \<and> ys = us @ x # b"
    by (auto simp: append_eq_append_conv2)
  then show ?thesis by (cases us) (auto intro: that)
qed

text \<open>An answered view was read by a load that began less than the stale limit before.\<close>

lemma answered_recently:
  "run pf env own es w \<Longrightarrow> es = xs @ Answered k i r now # ys \<Longrightarrow> \<exists>t. readAt pf env xs i t r \<and> now - t < DEVICE_AUTHORITY_MAX_STALE_MS"
proof (induction arbitrary: xs ys rule: run.induct)
  case (continues es w es' w')
  show ?case
  proof (cases rule: append_position [OF continues.prems])
    case (2 zs)
    show ?thesis by (rule continues.IH [OF 2(1)])
  next
    case (1 zs)
    then have "Answered k i r now \<in> set es'" by simp
    from step_answers [OF continues.hyps(2) this] obtain e where "usableEntry now (cache (snd w)) = Some e" "entryId e = i" "view e = r"
      by blast
    then have "readAt pf env es i (startedAt e) r" "now - startedAt e < DEVICE_AUTHORITY_MAX_STALE_MS"
      using recorded_run [OF continues.hyps(1)] usableEntry_Some [of now "cache (snd w)" e] by (auto simp: recorded_def usable_def)
    then show ?thesis unfolding 1(1) using readAt_append by blast
  qed
qed simp

fun eventTimes :: "event \<Rightarrow> int list" where
  "eventTimes (Changed c t) = [t]"
| "eventTimes (Asked k t) = [t]"
| "eventTimes (Answered k i r t) = [t]"
| "eventTimes (Denied k t) = [t]"
| "eventTimes (Loads i t) = [t]"
| "eventTimes (Reads i t) = [t]"
| "eventTimes (Settled i b) = []"
| "eventTimes (Chains i t) = [t]"

definition clockForward :: "event list \<Rightarrow> bool" where
  "clockForward es \<longleftrightarrow> sorted (concat (map eventTimes es))"

text \<open>
  C10. In any isolate, also one that no change invalidates, a change that is at least two minutes old is
  in every answered view: the view is the vault's registry as it was at some moment after the change,
  so a revoked device or machine is refused everywhere within the stale limit.
\<close>

theorem change_seen_everywhere:
  assumes "run pf env own es w" and "es = p @ Changed c t # q @ Answered k i r now # ys"
    and "clockForward es" and "t + 120000 \<le> now"
  shows "\<exists>q1 q2. q = q1 @ q2 \<and> r = loadDeviceAuthority pf env (vaultOf pf (p @ Changed c t # q1))"
proof -
  have "es = (p @ Changed c t # q) @ Answered k i r now # ys" using assms(2) by simp
  from answered_recently [OF assms(1) this] obtain u where
    u: "readAt pf env (p @ Changed c t # q) i u r" "now - u < DEVICE_AUTHORITY_MAX_STALE_MS" by blast
  then obtain a b d s where x: "p @ Changed c t # q = a @ Loads i u # b @ Reads i s # d"
    "r = loadDeviceAuthority pf env (vaultOf pf (a @ Loads i u # b))" unfolding readAt_def by blast
  have "t < u" using u(2) assms(4) by (simp add: DEVICE_AUTHORITY_MAX_STALE_MS_def)
  show ?thesis
  proof (cases rule: append_position [OF x(1)])
    case (1 zs)
    then obtain q0 where "a = p @ Changed c t # q0" "q = q0 @ Loads i u # b @ Reads i s # d" by (cases zs) auto
    then show ?thesis using x(2) by (intro exI [of _ "q0 @ Loads i u # b"] exI [of _ "Reads i s # d"]) simp
  next
    case (2 zs)
    then have "u \<le> t" using assms(2,3) by (auto simp: clockForward_def sorted_append)
    then show ?thesis using \<open>t < u\<close> by simp
  qed
qed

lemma change_seen_everywhere_witness:
  "\<exists>q1 q2. [Asked 7 130010, Loads 1 130010, Reads 1 130020, Settled 1 True] = q1 @ q2
     \<and> exampleView = loadDeviceAuthority examplePlatform exampleEnv (vaultOf examplePlatform ([] @ Changed exampleChange 10 # q1))"
  by (rule change_seen_everywhere [OF run.continues [OF run_holding [where own = False] answered_one], where k = 7 and i = 1 and now = 130030 and ys = "[]" and t = 10])
    (simp_all add: clockForward_def)

section \<open>Nobody waits forever\<close>

definition chainReady :: "'v cache \<Rightarrow> promise \<Rightarrow> bool" where
  "chainReady c p \<longleftrightarrow> (case p of On_load i \<Rightarrow> True | On_chain i \<Rightarrow> i \<in> set (chained c))"

definition attended :: "isolate \<Rightarrow> bool" where
  "attended s \<longleftrightarrow> (\<forall>k p. (k, p) \<in> set (waiting s) \<longrightarrow> chainReady (cache s) p)
     \<and> (\<forall>i. queued (cache s) = Some i \<longrightarrow> i \<in> set (chained (cache s)))"

lemma refresh_ready:
  assumes "\<forall>i. queued c = Some i \<longrightarrow> i \<in> set (chained c)"
  shows "chainReady (snd (refresh now after c)) (fst (refresh now after c))"
    and "\<forall>i. queued (snd (refresh now after c)) = Some i \<longrightarrow> i \<in> set (chained (snd (refresh now after c)))"
    and "set (chained c) \<subseteq> set (chained (snd (refresh now after c)))"
  using assms
  by (auto simp: refresh_def abandon_def startLoad_def chainReady_def Let_def split: option.split)

lemma current_ready:
  assumes "\<forall>i. queued c = Some i \<longrightarrow> i \<in> set (chained c)" and "current now c = (x, c')"
  shows "\<And>p. x = Inr p \<Longrightarrow> chainReady c' p"
    and "\<forall>i. queued c' = Some i \<longrightarrow> i \<in> set (chained c')" and "set (chained c) \<subseteq> set (chained c')"
proof -
  show "chainReady c' p" if x: "x = Inr p" for p
  proof -
    have "\<exists>after. refresh now after c = (p, c')"
      using assms(2) x by (auto simp: current_def apfst_def map_prod_def split: option.splits prod.splits)
    then obtain after where r: "refresh now after c = (p, c')" by blast
    show ?thesis using refresh_ready(1) [OF assms(1), where now = now and after = after] by (simp add: r)
  qed
  consider "c' = c" | after where "c' = snd (refresh now after c)" using current_refresh [OF assms(2)] by blast
  then show "\<forall>i. queued c' = Some i \<longrightarrow> i \<in> set (chained c')" "set (chained c) \<subseteq> set (chained c')"
    using assms(1) refresh_ready [OF assms(1)] by (cases; simp)+
qed

lemma chainReady_mono: "chainReady c p \<Longrightarrow> set (chained c) \<subseteq> set (chained c') \<Longrightarrow> chainReady c' p"
  by (auto simp: chainReady_def split: promise.splits)

lemma settle_chained [simp]: "queued (settle i t r c) = queued c"
  by (simp add: settle_def Let_def split: option.split)

lemma attended_step: "step pf env own w es w' \<Longrightarrow> attended (snd w) \<Longrightarrow> attended (snd w')"
proof (induction w es w' rule: step.induct)
  case (answered now s e c' v k)
  note r = current_ready [OF _ answered.hyps]
  then have "\<forall>i. queued c' = Some i \<longrightarrow> i \<in> set (chained c')" "set (chained (cache s)) \<subseteq> set (chained c')"
    using answered.prems by (simp_all add: attended_def)
  then show ?case using answered.prems chainReady_mono [of "cache s" _ c'] by (simp add: attended_def)
next
  case (awaits now s p c' v k)
  note r = current_ready [OF _ awaits.hyps]
  show ?case using awaits.prems r chainReady_mono [of "cache s" _ c'] by (auto simp: attended_def)
next
  case (refreshes now s p c' v k)
  have q: "\<forall>i. queued (cache s) = Some i \<longrightarrow> i \<in> set (chained (cache s))" using refreshes.prems by (simp add: attended_def)
  have c': "c' = snd (refresh now (started (cache s)) (cache s))" "p = fst (refresh now (started (cache s)) (cache s))"
    using refreshes.hyps by simp_all
  show ?case using refreshes.prems refresh_ready [OF q, of now "started (cache s)"]
      chainReady_mono [of "cache s" _ "snd (refresh now (started (cache s)) (cache s))"]
    unfolding c' by (auto simp: attended_def)
next
  case (chains i s now p c' v)
  note f = runChain_fields [OF chains.hyps(3)]
  have q: "queued c' = None" using chains.hyps(3) by (auto simp: runChain_def startLoad_def Let_def)
  have "chainReady c' (awaited i p x)" if "chainReady (cache s) x" for x
    using that f(5,6) by (cases x) (auto simp: chainReady_def awaited_def)
  then show ?case using chains.prems q by (auto simp: attended_def)
next
  case (resumes k i s v now)
  then show ?case using set_remove1_subset [of "(k, On_load i)" "waiting s"] unfolding attended_def by fastforce
qed (auto simp: attended_def chainReady_def invalidate_def split: promise.splits)

lemma attended_run: "run pf env own es w \<Longrightarrow> attended (snd w)"
proof (induction rule: run.induct)
  case begins
  then show ?case by (simp add: attended_def newIsolate_def newCache_def)
next
  case (continues es w es' w')
  then show ?case using attended_step by blast
qed

definition tells :: "nat \<Rightarrow> event \<Rightarrow> bool" where
  "tells k e \<longleftrightarrow> (\<exists>i r now. e = Answered k i r now) \<or> (\<exists>now. e = Denied k now)"

text \<open>What may happen while a caller waits when nothing succeeds: loads fail, those chained to them start and fail too.\<close>

definition hopeless :: "nat \<Rightarrow> event \<Rightarrow> bool" where
  "hopeless k e \<longleftrightarrow> tells k e \<or> (\<exists>i. e = Settled i False) \<or> (\<exists>i now. e = Chains i now) \<or> (\<exists>i now. e = Loads i now)"

definition endsIn :: "platform \<Rightarrow> string \<times> string \<Rightarrow> bool \<Rightarrow> event list \<Rightarrow> nat \<Rightarrow> nat \<Rightarrow> bool" where
  "endsIn pf env own es k n \<longleftrightarrow>
     (\<exists>es' w. run pf env own (es @ es') w \<and> list_ex (tells k) es' \<and> list_all (hopeless k) es' \<and> length es' \<le> n)"

lemma endsIn_behind: "endsIn pf env own (es @ ds) k n \<Longrightarrow> list_all (hopeless k) ds \<Longrightarrow> endsIn pf env own es k (length ds + n)"
proof -
  assume "endsIn pf env own (es @ ds) k n" and d: "list_all (hopeless k) ds"
  then obtain es' w where "run pf env own (es @ ds @ es') w" "list_ex (tells k) es'" "list_all (hopeless k) es'" "length es' \<le> n"
    by (auto simp: endsIn_def)
  then show ?thesis using d unfolding endsIn_def by (intro exI [of _ "ds @ es'"] exI [of _ w]) simp
qed

lemma endsIn_before: "endsIn pf env own es k n \<Longrightarrow> n \<le> m \<Longrightarrow> endsIn pf env own es k m"
  unfolding endsIn_def by (meson order_trans)

lemma hopeless_fails: "list_all (hopeless k) [Settled i False]" and hopeless_chain: "list_all (hopeless k) [Chains i t, Loads j u]"
  by (simp_all add: hopeless_def)

text \<open>A load that has not settled may fail, and a caller whose load has settled may resume.\<close>

lemma load_settles:
  assumes "run pf env own es (v, s)" and "i \<in> fst ` set (loading (cache s))"
  shows "\<exists>s'. run pf env own (es @ [Settled i False]) (v, s') \<and> waiting s' = waiting s \<and> chained (cache s') = chained (cache s)
    \<and> started (cache s') = started (cache s) \<and> i \<notin> fst ` set (loading (cache s'))"
proof -
  obtain t where t: "(i, t) \<in> set (loading (cache s))" using assms(2) by auto
  show ?thesis
    by (rule exI [of _ "s\<lparr>cache := settle i t None (cache s)\<rparr>"]) (use run.continues [OF assms(1) step.failed [OF t]] in auto)
qed

lemma load_ends:
  assumes "run pf env own es (v, s)" and "(k, On_load i) \<in> set (waiting s)"
  shows "endsIn pf env own es k 2"
proof -
  have told: "endsIn pf env own es k 1"
    if "run pf env own es (v, s)" "(k, On_load i) \<in> set (waiting s)" "i \<notin> fst ` set (loading (cache s))" for es v s
  proof -
    let ?e = "case usableEntry 0 (cache s) of Some e \<Rightarrow> Answered k (entryId e) (view e) 0 | None \<Rightarrow> Denied k 0"
    have "tells k ?e" by (simp add: tells_def split: option.split)
    then show ?thesis using run.continues [OF that(1) step.resumes [OF that(2,3), where now = 0]]
      unfolding endsIn_def by (intro exI [of _ "[?e]"]) (auto simp: hopeless_def)
  qed
  show ?thesis
  proof (cases "i \<in> fst ` set (loading (cache s))")
    case False
    from told [OF assms this] show ?thesis by (rule endsIn_before) simp
  next
    case True
    obtain s' where "run pf env own (es @ [Settled i False]) (v, s')" "waiting s' = waiting s" "i \<notin> fst ` set (loading (cache s'))"
      using load_settles [OF assms(1) True] by blast
    then have "endsIn pf env own (es @ [Settled i False]) k 1" using told assms(2) by simp
    from endsIn_behind [OF this hopeless_fails] show ?thesis by (simp add: numeral_2_eq_2)
  qed
qed

text \<open>
  C17. No caller of the cache waits forever, even when every load from then on fails: from every reachable state
  a caller that awaits a load, or one that is to be started, is answered or denied after at most five events in which
  no load succeeds, no credential changes and nobody else asks. They are the failure of the load it awaits, or the
  failure of the one before, the start of the one it is chained to and the failure of that; it does not try again.
\<close>

theorem waiting_can_end:
  assumes "run pf env own es (v, s)" and "(k, p) \<in> set (waiting s)"
  shows "\<exists>es' w. run pf env own (es @ es') w \<and> length es' \<le> 5 \<and> list_ex (tells k) es'
    \<and> (\<forall>e \<in> set es'. tells k e \<or> (\<exists>i. e = Settled i False) \<or> (\<exists>i now. e = Chains i now) \<or> (\<exists>i now. e = Loads i now))"
proof -
  have "endsIn pf env own es k 5"
  proof (cases p)
    case (On_load i)
    then have "(k, On_load i) \<in> set (waiting s)" using assms(2) by simp
    from load_ends [OF assms(1) this] show ?thesis by (rule endsIn_before) simp
  next
    case (On_chain i)
    have i: "i \<in> set (chained (cache s))"
      using attended_run [OF assms(1)] assms(2) On_chain by (force simp: attended_def chainReady_def)
    have chain: "endsIn pf env own es k 4"
      if r: "run pf env own es (v, s)" "(k, On_chain i) \<in> set (waiting s)" "i \<in> set (chained (cache s))" "i \<notin> fst ` set (loading (cache s))" for es v s
    proof -
      obtain q c' where c: "runChain i 0 (cache s) = (q, c')" by fastforce
      let ?s = "s\<lparr>cache := c', waiting := map (\<lambda>(k, x). (k, awaited i q x)) (waiting s)\<rparr>"
      have "(k, On_load (Suc (started (cache s)))) \<in> set (waiting ?s)"
        using r(2) runChain_fields(5) [OF c] by (force simp: awaited_def)
      from endsIn_behind [OF load_ends [OF run.continues [OF r(1) step.chains [OF r(3,4) c]] this] hopeless_chain]
      show ?thesis by (rule endsIn_before) simp
    qed
    show ?thesis
    proof (cases "i \<in> fst ` set (loading (cache s))")
      case False
      have "(k, On_chain i) \<in> set (waiting s)" using assms(2) On_chain by simp
      from chain [OF assms(1) this i False] show ?thesis by (rule endsIn_before) simp
    next
      case True
      obtain s' where "run pf env own (es @ [Settled i False]) (v, s')" "waiting s' = waiting s" "chained (cache s') = chained (cache s)"
        "i \<notin> fst ` set (loading (cache s'))" using load_settles [OF assms(1) True] by blast
      then have "endsIn pf env own (es @ [Settled i False]) k 4" using chain assms(2) i On_chain by simp
      from endsIn_behind [OF this hopeless_fails] show ?thesis by simp
    qed
  qed
  then obtain es' w where "run pf env own (es @ es') w" "length es' \<le> 5" "list_ex (tells k) es'" "list_all (hopeless k) es'"
    unfolding endsIn_def by blast
  then show ?thesis unfolding list_all_iff hopeless_def by blast
qed

lemma waiting_can_end_witness:
  "\<exists>es' w. run examplePlatform exampleEnv False ([Changed exampleChange 10, Asked 7 130010, Loads 1 130010] @ es') w
     \<and> length es' \<le> 5 \<and> list_ex (tells 7) es'"
  using waiting_can_end [OF run_loading [where own = False], of 7 "On_load 1"] by (auto simp: loadingOne_def)

end
