(* ===== verification/Conversation_Events.thy ===== *)
theory Conversation_Events
  imports Lifecycle_Log "HOL-Library.Monad_Syntax"
begin

text \<open>
  \<open>blocks/src/conversation-events.ts\<close>: what GitSpace tells an agent on someone else's behalf reaches
  the model as user input, each note in an envelope, so that neither the model nor the transcript
  takes it for the user's own words.
\<close>

record ConversationEventNote =
  noteKind :: string
  noteSource :: string
  noteText :: string

abbreviation newline :: char where "newline \<equiv> CHR 0x0A"
abbreviation quote :: char where "quote \<equiv> CHR 0x22"

text \<open>The end of an envelope, as a body may hold it and as a body is written.\<close>

definition closing :: string where "closing = ''</gitspace-event>''"
definition escapedClosing :: string where "escapedClosing = ''<'' @ [CHR 0x5C] @ ''/gitspace-event>''"
definition CLOSE :: string where "CLOSE = newline # closing"

section \<open>Writing\<close>

definition cleanSource :: "string \<Rightarrow> string" where
  "cleanSource s = map (\<lambda>c. if c = newline then CHR '' '' else c) (map (\<lambda>c. if c = quote then CHR 0x27 else c) s)"

definition formatEvent :: "ConversationEventNote \<Rightarrow> string" where
  "formatEvent e =
     ''<gitspace-event kind='' @ [quote] @ noteKind e @ [quote] @ '' source='' @ [quote] @ cleanSource (noteSource e)
       @ [quote] @ ''>'' @ [newline] @ replaceText closing escapedClosing (noteText e) @ CLOSE"

definition formatConversationEvents :: "ConversationEventNote list \<Rightarrow> string" where
  "formatConversationEvents events = joinWith [newline, newline] (map formatEvent events)"

section \<open>Reading\<close>

definition afterText :: "string \<Rightarrow> string \<Rightarrow> string option" where
  "afterText p s = (if startsWithText s p then Some (drop (length p) s) else None)"

definition kindChar :: "char \<Rightarrow> bool" where
  "kindChar c \<longleftrightarrow> isLower c \<or> c = CHR ''-''"

definition sourceChar :: "char \<Rightarrow> bool" where
  "sourceChar c \<longleftrightarrow> c \<noteq> quote \<and> c \<noteq> newline"

text \<open>The pattern \<open>OPEN\<close>: the kind, the source and what follows the match.\<close>

definition readOpen :: "string \<Rightarrow> (string \<times> string \<times> string) option" where
  "readOpen s = do {
     a \<leftarrow> afterText (''<gitspace-event kind='' @ [quote]) s;
     let kind = takeWhile kindChar a;
     b \<leftarrow> (if kind = [] then None else afterText ([quote] @ '' source='' @ [quote]) (dropWhile kindChar a));
     let source = takeWhile sourceChar b;
     c \<leftarrow> afterText ([quote] @ ''>'' @ [newline]) (dropWhile sourceChar b);
     Some (kind, source, c)
   }"

function readEvents :: "string \<Rightarrow> ConversationEventNote list option" where
  "readEvents input =
     (if input = [] then Some []
      else case readOpen input of
        None \<Rightarrow> None
      | Some (kind, source, body) \<Rightarrow>
          (let opened = length input - length body in
           case indexOf CLOSE (drop (opened - 1) input) of
             None \<Rightarrow> None
           | Some k \<Rightarrow>
               (let end' = opened - 1 + k;
                  text' = (if end' < opened then [] else Patterns.slice input opened end');
                  note = \<lparr>noteKind = kind, noteSource = source, noteText = replaceText escapedClosing closing text'\<rparr>;
                  left' = drop (end' + length CLOSE) input in
                if startsWithText left' [newline, newline] then map_option ((#) note) (readEvents (drop 2 left'))
                else if left' \<noteq> [] then None
                else Some [note])))"
  by auto
termination
  by (relation "measure length") (auto simp: CLOSE_def)

declare readEvents.simps [simp del]

definition parseConversationEvents :: "string \<Rightarrow> ConversationEventNote list option" where
  "parseConversationEvents text' = (case readEvents text' of Some (e # es) \<Rightarrow> Some (e # es) | _ \<Rightarrow> None)"

section \<open>Replacing a text\<close>

function replaced :: "string \<Rightarrow> string \<Rightarrow> string \<Rightarrow> string" where
  "replaced old new s =
     (if s = [] then []
      else if startsWithText s old \<and> old \<noteq> [] then new @ replaced old new (drop (length old) s)
      else hd s # replaced old new (tl s))"
  by auto
termination
  by (relation "measure (\<lambda>(_, _, s). length s)") auto

declare replaced.simps [simp del]

lemma replaced_Nil [simp]: "replaced old new [] = []"
  by (subst replaced.simps) simp

lemma replaced_here: "old \<noteq> [] \<Longrightarrow> replaced old new (old @ s) = new @ replaced old new s"
  by (subst replaced.simps) (simp add: startsWithText_def)

lemma replaced_Cons: "\<not> startsWithText (x # s) old \<Longrightarrow> replaced old new (x # s) = x # replaced old new s"
  by (subst replaced.simps) simp

lemma captured_literally:
  assumes "old \<noteq> []"
  shows "captured (literally old) Nothing s i
    = (if startsWithText (drop i s) old then Some (i + length old, i + length old) else None)"
proof -
  have d: "ends (literally old) s i = (if Patterns.slice s i (i + length old) = old then [i + length old] else [])"
  proof (induction old arbitrary: i)
    case Nil
    then show ?case by (simp add: literally_def Patterns.slice_def)
  next
    case (Cons c t)
    show ?case
    proof (cases "i < length s")
      case True
      then have "drop i s = s ! i # drop (Suc i) s" by (simp add: Cons_nth_drop_Suc)
      then show ?thesis using Cons [of "Suc i"] True by (auto simp: literally_def Patterns.slice_def)
    qed (simp add: literally_def Patterns.slice_def)
  qed
  show ?thesis by (simp add: captured_def d startsWithText_def Patterns.slice_def)
qed

lemma replaceFrom_literally:
  "old \<noteq> [] \<Longrightarrow> replaceFrom (literally old) Nothing (\<lambda>_. new) s i = replaced old new (drop i s)"
proof (induction "length s - i" arbitrary: i rule: less_induct)
  case less
  show ?case
  proof (cases "length s \<le> i")
    case True
    then show ?thesis by (subst replaceFrom.simps) simp
  next
    case False
    then have d: "drop i s = s ! i # drop (Suc i) s" and i: "i < length s" by (simp_all add: Cons_nth_drop_Suc)
    have l: "0 < length old" using less.prems by simp
    show ?thesis
    proof (cases "startsWithText (drop i s) old")
      case True
      have "replaceFrom (literally old) Nothing (\<lambda>_. new) s (i + length old) = replaced old new (drop (i + length old) s)"
        by (rule less.hyps [OF _ less.prems]) (use i l in linarith)
      moreover have "replaceFrom (literally old) Nothing (\<lambda>_. new) s i = new @ replaceFrom (literally old) Nothing (\<lambda>_. new) s (i + length old)"
        using True i l less.prems by (subst replaceFrom.simps) (simp add: captured_literally)
      moreover have "replaced old new (drop i s) = new @ replaced old new (drop (length old) (drop i s))"
        using True i less.prems by (subst replaced.simps) simp
      ultimately show ?thesis by (simp add: add.commute)
    next
      case False
      have "replaceFrom (literally old) Nothing (\<lambda>_. new) s (Suc i) = replaced old new (drop (Suc i) s)"
        using i by (intro less.hyps) (auto simp: less.prems)
      then show ?thesis using False i d less.prems
        by (subst replaceFrom.simps) (simp add: captured_literally replaced_Cons)
    qed
  qed
qed

lemma replaceText_replaced: "old \<noteq> [] \<Longrightarrow> replaceText old new s = replaced old new s"
  by (simp add: replaceText_def replaceMatches_def replaceFrom_literally)


text \<open>What is left unchanged in front of a character the pattern begins with, and only begins with.\<close>

lemma starts_with_first: "startsWithText (x # s) p \<Longrightarrow> p \<noteq> [] \<Longrightarrow> x = hd p"
  by (cases p) (auto simp: startsWithText_def)

lemma replaced_keeps:
  "hd old \<notin> set p \<Longrightarrow> old \<noteq> [] \<Longrightarrow> replaced old new (p @ s) = p @ replaced old new s"
proof (induction p)
  case (Cons a p)
  then have "\<not> startsWithText (a # p @ s) old" using starts_with_first by fastforce
  then show ?case using Cons by (simp add: replaced_Cons)
qed simp

lemma replaced_start:
  assumes "old \<noteq> []" and "new \<noteq> []" and "hd new = hd old" and "hd old \<notin> set p"
  shows "startsWithText (replaced old new s) p \<longleftrightarrow> startsWithText s p"
  using assms(4)
proof (induction p arbitrary: s)
  case Nil
  then show ?case by (simp add: startsWithText_def)
next
  case (Cons c p)
  show ?case
  proof (cases s)
    case (Cons x xs)
    show ?thesis
    proof (cases "startsWithText s old")
      case True
      then obtain u where "s = old @ u" by (auto simp: startsWithText_iff)
      then have r: "replaced old new s = new @ replaced old new u" by (simp add: replaced_here assms(1))
      have "\<not> startsWithText (x # y) (c # p)" if "x = hd old" for x y using that Cons.prems starts_with_first [of x y "c # p"] by auto
      then show ?thesis using assms(1-3) r \<open>s = old @ u\<close> by (cases old; cases new) simp_all
    next
      case False
      then show ?thesis using Cons Cons.IH [of xs] Cons.prems by (simp add: replaced_Cons startsWithText_def)
    qed
  qed (simp add: startsWithText_def)
qed

text \<open>Two texts with one first character that neither holds again: \<open>old\<close> is written as \<open>new\<close>.\<close>

locale escape_pair =
  fixes old new :: string
  assumes distinct_texts: "old \<noteq> new" and same_length: "\<And>s. startsWithText s old \<Longrightarrow> \<not> startsWithText s new"
    and not_empty: "old \<noteq> []" "new \<noteq> []"
    and one_start: "hd old = hd new" "hd old \<notin> set (tl old)" "hd old \<notin> set (tl new)"
begin

lemma escape_start: "startsWithText (replaced old new s) (tl new) \<longleftrightarrow> startsWithText s (tl new)"
  using replaced_start [OF not_empty] one_start by simp

lemma start_Cons: "p \<noteq> [] \<Longrightarrow> startsWithText (x # s) p \<longleftrightarrow> x = hd p \<and> startsWithText s (tl p)"
  by (cases p) (auto simp: startsWithText_def)

text \<open>Reading an escaped text back is reading the text itself: only what it holds of \<open>new\<close> is lost.\<close>

lemma unescape_escape: "replaced new old (replaced old new s) = replaced new old s"
proof (induction "length s" arbitrary: s rule: less_induct)
  case less
  show ?case
  proof (cases "startsWithText s old")
    case True
    then obtain u where u: "s = old @ u" by (auto simp: startsWithText_iff)
    obtain x xs where o: "old = x # xs" using not_empty by (cases old) auto
    have "replaced new old (old @ u) = old @ replaced new old u"
      using replaced_keeps [of new xs old u] replaced_Cons [of x "xs @ u" new old] same_length [of "old @ u"] True u o one_start not_empty
      by simp
    then show ?thesis using u less [of u] not_empty by (simp add: replaced_here)
  next
    case no: False
    show ?thesis
    proof (cases s)
      case (Cons x xs)
      have esc: "replaced old new s = x # replaced old new xs" using no Cons by (simp add: replaced_Cons)
      show ?thesis
      proof (cases "startsWithText s new")
        case True
        then obtain u where u: "s = new @ u" by (auto simp: startsWithText_iff)
        obtain y ys where n: "new = y # ys" using not_empty by (cases new) auto
        have "replaced old new s = new @ replaced old new u"
          using replaced_keeps [of old ys new u] esc u n Cons one_start not_empty by simp
        then show ?thesis using less [of u] not_empty u by (simp add: replaced_here)
      next
        case False
        then have "\<not> startsWithText (x # replaced old new xs) new"
          using not_empty Cons escape_start [of xs] by (simp add: start_Cons)
        then show ?thesis using less [of xs] Cons esc False by (simp add: replaced_Cons)
      qed
    qed simp
  qed
qed

text \<open>No written text holds \<open>old\<close>.\<close>

lemma escaped_free: "\<not> startsWithText (drop i (replaced old new s)) old"
proof (induction "length s" arbitrary: s i rule: less_induct)
  case less
  show ?case
  proof (cases "startsWithText s old")
    case True
    then obtain u where u: "s = old @ u" by (auto simp: startsWithText_iff)
    obtain y ys where n: "new = y # ys" using not_empty by (cases new) auto
    show ?thesis
    proof (cases "i < length new")
      case True
      show ?thesis
      proof (cases i)
        case 0
        have "startsWithText (new @ replaced old new u) new" by (auto simp: startsWithText_iff)
        then show ?thesis using same_length u 0 not_empty by (auto simp: replaced_here)
      next
        case (Suc j)
        then have j: "j < length ys" using True n by simp
        then have d: "drop i (replaced old new s) = ys ! j # drop (Suc j) ys @ replaced old new u"
          using u Suc n not_empty by (simp add: replaced_here Cons_nth_drop_Suc [symmetric])
        have "ys ! j \<noteq> hd old" using one_start n j by (metis list.sel(3) nth_mem)
        then show ?thesis unfolding d using starts_with_first not_empty by blast
      qed
    next
      case False
      then show ?thesis using less [of u "i - length new"] u not_empty by (simp add: replaced_here)
    qed
  next
    case no: False
    show ?thesis
    proof (cases s)
      case Nil
      then show ?thesis using not_empty by (simp add: startsWithText_def)
    next
      case (Cons x xs)
      have esc: "replaced old new s = x # replaced old new xs" using no Cons by (simp add: replaced_Cons)
      show ?thesis
      proof (cases i)
        case 0
        have "startsWithText (replaced old new xs) (tl old) \<longleftrightarrow> startsWithText xs (tl old)"
          using replaced_start [OF not_empty] one_start by simp
        then show ?thesis using 0 esc no Cons not_empty by (simp add: start_Cons)
      next
        case (Suc j)
        then show ?thesis using less [of xs j] Cons esc by simp
      qed
    qed
  qed
qed

end

interpretation envelope: escape_pair closing escapedClosing
proof
  show "\<not> startsWithText s escapedClosing" if "startsWithText s closing" for s
    using that by (auto simp: startsWithText_iff closing_def escapedClosing_def)
qed (simp_all add: closing_def escapedClosing_def)


section \<open>What was written is read\<close>

lemma afterText_append [simp]: "afterText p (p @ s) = Some s"
  by (simp add: afterText_def startsWithText_def)

definition kindOk :: "string \<Rightarrow> bool" where
  "kindOk k \<longleftrightarrow> k \<noteq> [] \<and> list_all kindChar k"

lemma takeWhile_until: "list_all P a \<Longrightarrow> \<not> P x \<Longrightarrow> takeWhile P (a @ x # s) = a \<and> dropWhile P (a @ x # s) = x # s"
  by (induction a) auto

lemma cleanSource_chars: "list_all sourceChar (cleanSource s)"
  by (auto simp: cleanSource_def list_all_iff sourceChar_def)

lemma readOpen_written:
  assumes "kindOk k"
  shows "readOpen (''<gitspace-event kind='' @ [quote] @ k @ [quote] @ '' source='' @ [quote] @ cleanSource s @ [quote] @ ''>'' @ [newline] @ body)
    = Some (k, cleanSource s, body)"
proof -
  have q: "\<not> kindChar quote" "\<not> sourceChar quote" by (simp_all add: kindChar_def between_def sourceChar_def)
  have k: "takeWhile kindChar (k @ quote # t) = k" "dropWhile kindChar (k @ quote # t) = quote # t" for t
    using takeWhile_until [of kindChar k quote t] assms q by (simp_all add: kindOk_def)
  have c: "takeWhile sourceChar (cleanSource s @ quote # t) = cleanSource s" "dropWhile sourceChar (cleanSource s @ quote # t) = quote # t" for t
    using takeWhile_until [OF cleanSource_chars q(2)] by simp_all
  show ?thesis using assms unfolding readOpen_def
    by (simp add: k c kindOk_def afterText_def startsWithText_def)
qed

lemma closing_at:
  assumes "\<And>j. \<not> startsWithText (drop j body) closing"
  shows "indexOf CLOSE (newline # body @ CLOSE @ after) = Some (Suc (length body))"
  unfolding indexOf_iff
proof (intro conjI allI impI)
  show "startsWithText (drop (Suc (length body)) (newline # body @ CLOSE @ after)) CLOSE"
    by (simp add: startsWithText_def)
  show "Suc (length body) \<le> length (newline # body @ CLOSE @ after)" by simp
next
  fix j assume j: "j < Suc (length body)"
  have n: "newline \<notin> set closing" by (simp add: closing_def)
  show "\<not> startsWithText (drop j (newline # body @ CLOSE @ after)) CLOSE"
  proof
    assume "startsWithText (drop j (newline # body @ CLOSE @ after)) CLOSE"
    then obtain u where u: "drop j (newline # body @ CLOSE @ after) = newline # closing @ u"
      by (auto simp: startsWithText_iff CLOSE_def)
    then have "tl (drop j (newline # body @ CLOSE @ after)) = closing @ u" by simp
    then have d: "drop j body @ CLOSE @ after = closing @ u" using j by (simp add: tl_drop)
    show False
    proof (cases "length (drop j body) < length closing")
      case True
      then have "take (Suc (length (drop j body))) (closing @ u) = take (Suc (length (drop j body))) closing" by simp
      moreover have "newline \<in> set (take (Suc (length (drop j body))) (drop j body @ CLOSE @ after))" by (simp add: CLOSE_def)
      ultimately show False using d n by (metis in_set_takeD)
    next
      case False
      then have "startsWithText (drop j body) closing"
        using arg_cong [OF d, of "take (length closing)"] by (simp add: startsWithText_def)
      then show False using assms by blast
    qed
  qed
qed

text \<open>What a reader gets for a written note.\<close>

definition received :: "ConversationEventNote \<Rightarrow> ConversationEventNote" where
  "received e = e\<lparr>noteSource := cleanSource (noteSource e), noteText := replaceText escapedClosing closing (noteText e)\<rparr>"

lemma closings: "closing \<noteq> []" "escapedClosing \<noteq> []" "CLOSE \<noteq> []"
  by (simp_all add: closing_def escapedClosing_def CLOSE_def)

lemma readEvents_one:
  assumes "kindOk (noteKind e)"
  shows "readEvents (formatEvent e @ after) =
    (if startsWithText after [newline, newline] then map_option ((#) (received e)) (readEvents (drop 2 after))
     else if after \<noteq> [] then None else Some [received e])"
proof -
  let ?esc = "replaceText closing escapedClosing (noteText e)"
  let ?head = "''<gitspace-event kind='' @ [quote] @ noteKind e @ [quote] @ '' source='' @ [quote] @ cleanSource (noteSource e) @ [quote] @ ''>''"
  let ?w = "formatEvent e @ after"
  obtain head where head: "head = ?head" by blast
  have w: "?w = (head @ [newline]) @ ?esc @ CLOSE @ after" by (simp add: formatEvent_def head)
  have open': "readOpen ?w = Some (noteKind e, cleanSource (noteSource e), ?esc @ CLOSE @ after)"
    unfolding w using readOpen_written [OF assms, of "noteSource e" "?esc @ CLOSE @ after"] by (simp add: head)
  define n where "n = length (head @ [newline])"
  have n: "length ?w - length (?esc @ CLOSE @ after) = n" "drop (n - 1) ?w = newline # ?esc @ CLOSE @ after"
    "0 < n" unfolding w n_def by simp_all
  have at: "indexOf CLOSE (newline # ?esc @ CLOSE @ after) = Some (Suc (length ?esc))"
    by (rule closing_at) (simp add: replaceText_replaced closings envelope.escaped_free)
  have s: "Patterns.slice ?w n (n - 1 + Suc (length ?esc)) = ?esc"
    "drop (n - 1 + Suc (length ?esc) + length CLOSE) ?w = after" "\<not> n - 1 + Suc (length ?esc) < n"
    unfolding w n_def by (simp_all add: Patterns.slice_def)
  have r: "\<lparr>noteKind = noteKind e, noteSource = cleanSource (noteSource e), noteText = replaceText escapedClosing closing ?esc\<rparr> = received e"
    by (simp add: received_def replaceText_replaced closings envelope.unescape_escape)
  have "?w \<noteq> []" by (simp add: formatEvent_def)
  then have "readEvents w = (if startsWithText after [newline, newline] then map_option ((#) (received e)) (readEvents (drop 2 after))
     else if after \<noteq> [] then None else Some [received e])" if "w = ?w" "b = ?esc @ CLOSE @ after" for w b
    by (subst readEvents.simps, use open' n at s r that in \<open>simp only: Let_def option.case prod.case if_False\<close>)
  from this [OF refl refl] show ?thesis .
qed

text \<open>What a reader gets is what was sent, but for quotes and line breaks of a source and for the escaped form in a text.\<close>

lemma replaced_absent:
  assumes "\<not> (\<exists>u v. s = u @ old @ v)"
  shows "replaced old new s = s"
  using assms
proof (induction s)
  case (Cons x s)
  have "\<not> startsWithText (x # s) old"
  proof
    assume "startsWithText (x # s) old"
    then have "x # s = [] @ old @ drop (length old) (x # s)" by (auto simp: startsWithText_def) (metis append_take_drop_id)
    then show False using Cons.prems by blast
  qed
  moreover have "\<not> (\<exists>u v. s = u @ old @ v)" using Cons.prems by (metis append_Cons)
  ultimately show ?case using Cons.IH by (simp add: replaced_Cons)
qed simp

lemma received_text: "\<not> (\<exists>u v. noteText e = u @ escapedClosing @ v) \<Longrightarrow> noteText (received e) = noteText e"
  by (simp add: received_def replaceText_replaced closings replaced_absent)

lemma received_source: "noteSource (received e) = map (\<lambda>c. if c = newline then CHR '' '' else if c = quote then CHR 0x27 else c) (noteSource e)"
  by (simp add: received_def cleanSource_def)

text \<open>
  C21. The notes an agent is sent, at least one and each of a kind that the pattern of the reader takes (small letters
  and hyphens), are read back in their order and no others: whatever a note's text holds, it cannot end its own envelope
  or forge another one. A note keeps its kind. Its source keeps all but quotes, which become apostrophes, and line
  breaks, which become blanks. Its text is read back as it was sent if it does not hold the escaped form of the closing
  tag; what holds it is read with the tag in its place.
\<close>

theorem notes_roundtrip:
  assumes "events \<noteq> []" and "list_all (\<lambda>e. kindOk (noteKind e)) events"
  shows "parseConversationEvents (formatConversationEvents events) = Some (map received events)
    \<and> (\<forall>e \<in> set events. noteKind (received e) = noteKind e
        \<and> noteSource (received e) = map (\<lambda>c. if c = newline then CHR '' '' else if c = quote then CHR 0x27 else c) (noteSource e)
        \<and> noteText (received e) = replaceText escapedClosing closing (noteText e)
        \<and> ((\<exists>u v. noteText e = u @ escapedClosing @ v) \<or> noteText (received e) = noteText e))"
proof -
  have "readEvents (formatConversationEvents events) = Some (map received events)"
    using assms
  proof (induction events)
    case (Cons e es)
    show ?case
    proof (cases es)
      case Nil
      then show ?thesis using Cons.prems readEvents_one [of e "[]"] by (simp add: formatConversationEvents_def startsWithText_def)
    next
      case (Cons f fs)
      then have "formatConversationEvents (e # es) = formatEvent e @ [newline, newline] @ formatConversationEvents es"
        by (simp add: formatConversationEvents_def)
      then show ?thesis using Cons.IH Cons.prems Cons readEvents_one [of e "[newline, newline] @ formatConversationEvents es"]
        by (simp add: startsWithText_def)
    qed
  qed simp
  then have "parseConversationEvents (formatConversationEvents events) = Some (map received events)"
    using assms(1) by (cases events) (simp_all add: parseConversationEvents_def)
  moreover have "noteKind (received e) = noteKind e" "noteText (received e) = replaceText escapedClosing closing (noteText e)" for e
    by (simp_all add: received_def)
  ultimately show ?thesis using received_text received_source by blast
qed

lemma notes_roundtrip_witness:
  "parseConversationEvents (formatConversationEvents [\<lparr>noteKind = ''job'', noteSource = ''a'', noteText = CLOSE\<rparr>])
   = Some [\<lparr>noteKind = ''job'', noteSource = ''a'', noteText = CLOSE\<rparr>]"
proof -
  have "replaceText escapedClosing closing CLOSE = CLOSE"
    unfolding replaceText_replaced [OF closings(2)] CLOSE_def closing_def escapedClosing_def by code_simp
  moreover have "list_all (\<lambda>e. kindOk (noteKind e)) [\<lparr>noteKind = ''job'', noteSource = ''a'', noteText = CLOSE\<rparr>]"
    by (simp add: kindOk_def kindChar_def between_def)
  ultimately show ?thesis
    using notes_roundtrip [of "[\<lparr>noteKind = ''job'', noteSource = ''a'', noteText = CLOSE\<rparr>]"]
    by (simp add: received_def cleanSource_def)
qed

text \<open>A text that holds the escaped form is not read back: the two are written alike.\<close>

lemma escaped_form_lost:
  "formatEvent \<lparr>noteKind = k, noteSource = s, noteText = escapedClosing\<rparr> = formatEvent \<lparr>noteKind = k, noteSource = s, noteText = closing\<rparr>"
proof -
  have "replaceText closing escapedClosing escapedClosing = replaceText closing escapedClosing closing"
    unfolding replaceText_replaced [OF closings(1)] closing_def escapedClosing_def by code_simp
  then show ?thesis by (simp add: formatEvent_def)
qed

end
