(* ===== verification/Executions.thy ===== *)
theory Executions
  imports Conversation_Events "HOL-Library.Multiset"
begin

text \<open>
  \<open>blocks/src/execution.ts\<close>: the cards of a conversation. What tools report of jobs, processes and
  agents is observed, each observation names its card by the identity the runtime gave it, and
  merging an observation into its card keeps what was settled. A value of unknown shape is a JSON
  value or absent. \<open>dates\<close> is \<open>Date.parse\<close>; what it makes of a text \<open>toISOString\<close> printed is the
  instant that was printed.
\<close>

section \<open>The library\<close>

text \<open>\<open>encodeURIComponent\<close> and \<open>decodeURIComponent\<close> on characters below 256, of two bytes from 128 on.\<close>

definition unreserved :: "char \<Rightarrow> bool" where
  "unreserved c \<longleftrightarrow> isNumeral c \<or> isUpper c \<or> isLower c \<or> c \<in> set ''-_.!~*()'' \<or> c = CHR 0x27"

definition hexDigit :: "nat \<Rightarrow> char" where
  "hexDigit d = ''0123456789ABCDEF'' ! d"

definition percent :: "nat \<Rightarrow> string" where
  "percent n = [CHR ''%'', hexDigit (n div 16), hexDigit (n mod 16)]"

definition encodeChar :: "char \<Rightarrow> string" where
  "encodeChar c =
     (let n = of_char c :: nat in
      if unreserved c then [c] else if n < 128 then percent n else percent (192 + n div 64) @ percent (128 + n mod 64))"

definition encodeURIComponent :: "string \<Rightarrow> string" where
  "encodeURIComponent s = concat (map encodeChar s)"

definition hexNumber :: "char \<Rightarrow> nat option" where
  "hexNumber c =
     (if isNumeral c then Some (of_char c - 48)
      else if between 65 70 c then Some (of_char c - 55) else if between 97 102 c then Some (of_char c - 87) else None)"

fun decodeURIComponent :: "string \<Rightarrow> string option" where
  "decodeURIComponent [] = Some []"
| "decodeURIComponent (c # s) =
     (if c \<noteq> CHR ''%'' then map_option ((#) c) (decodeURIComponent s)
      else case s of
        a # b # t \<Rightarrow>
          (case (hexNumber a, hexNumber b) of
             (Some x, Some y) \<Rightarrow>
               if x * 16 + y < 128 then map_option ((#) (char_of (x * 16 + y))) (decodeURIComponent t)
               else if x * 16 + y \<noteq> 194 \<and> x * 16 + y \<noteq> 195 then None
               else (case t of
                   p # d # e # u \<Rightarrow>
                     (case (hexNumber d, hexNumber e) of
                        (Some z, Some w) \<Rightarrow>
                          if p = CHR ''%'' \<and> 128 \<le> z * 16 + w \<and> z * 16 + w < 192
                          then map_option ((#) (char_of ((x * 16 + y - 192) * 64 + (z * 16 + w - 128)))) (decodeURIComponent u)
                          else None
                      | _ \<Rightarrow> None)
                 | _ \<Rightarrow> None)
           | _ \<Rightarrow> None)
      | _ \<Rightarrow> None)"

text \<open>\<open>new Date(ms).toISOString()\<close>\<close>

definition civil :: "int \<Rightarrow> int \<times> int \<times> int" where
  "civil days =
     (let z = days + 719468;
        era = z div 146097;
        doe = z mod 146097;
        yoe = (doe - doe div 1460 + doe div 36524 - doe div 146096) div 365;
        doy = doe - (365 * yoe + yoe div 4 - yoe div 100);
        mp = (5 * doy + 2) div 153;
        month = (if mp < 10 then mp + 3 else mp - 9) in
      (yoe + era * 400 + (if month \<le> 2 then 1 else 0), month, doy - (153 * mp + 2) div 5 + 1))"

definition digits :: "nat \<Rightarrow> int \<Rightarrow> string" where
  "digits k n = padStart k CHR ''0'' (toRadix 10 (nat n))"

definition isoText :: "int \<Rightarrow> string" where
  "isoText ms =
     (let (year, month, day) = civil (ms div 86400000);
        t = ms mod 86400000 in
      (if 0 \<le> year \<and> year \<le> 9999 then digits 4 year else (if year < 0 then ''-'' else ''+'') @ digits 6 \<bar>year\<bar>)
        @ ''-'' @ digits 2 month @ ''-'' @ digits 2 day @ ''T'' @ digits 2 (t div 3600000) @ '':''
        @ digits 2 (t div 60000 mod 60) @ '':'' @ digits 2 (t div 1000 mod 60) @ ''.'' @ digits 3 (t mod 1000) @ ''Z'')"

text \<open>\<open>JSON.stringify(value, null, 2)\<close>\<close>

fun pretty :: "nat \<Rightarrow> json \<Rightarrow> string" where
  "pretty n (JArray []) = ''[]''"
| "pretty n (JArray (x # xs)) =
     ''['' @ [newline] @ joinWith ('','' @ [newline]) (map (\<lambda>y. replicate (n + 2) CHR '' '' @ pretty (n + 2) y) (x # xs))
       @ [newline] @ replicate n CHR '' '' @ '']''"
| "pretty n (JObject []) = ''{}''"
| "pretty n (JObject (f # fs)) =
     ''{'' @ [newline]
       @ joinWith ('','' @ [newline]) (map (\<lambda>(k, y). replicate (n + 2) CHR '' '' @ quoteString k @ '': '' @ pretty (n + 2) y) (f # fs))
       @ [newline] @ replicate n CHR '' '' @ ''}''"
| "pretty n v = stringify v"

section \<open>Values of unknown shape\<close>

type_synonym fields = "(string \<times> json) list"

fun asRecord :: "json option \<Rightarrow> fields option" where
  "asRecord (Some (JObject fs)) = Some fs"
| "asRecord _ = None"

fun asArray :: "json option \<Rightarrow> json list option" where
  "asArray (Some (JArray xs)) = Some xs"
| "asArray _ = None"

definition fieldOf :: "fields option \<Rightarrow> string \<Rightarrow> json option" where
  "fieldOf fs k = Option.bind fs (\<lambda>fs. map_of fs k)"

fun nonEmptyText :: "json option \<Rightarrow> string option" where
  "nonEmptyText (Some (JString s)) = (if s = [] then None else Some s)"
| "nonEmptyText _ = None"

fun asNumber :: "json option \<Rightarrow> int option" where
  "asNumber (Some (JNumber n)) = (if 0 \<le> n then Some n else None)"
| "asNumber _ = None"

fun truthy :: "json option \<Rightarrow> bool" where
  "truthy None = False"
| "truthy (Some JNull) = False"
| "truthy (Some (JBool b)) = b"
| "truthy (Some (JNumber n)) = (n \<noteq> 0)"
| "truthy (Some (JString s)) = (s \<noteq> [])"
| "truthy (Some _) = True"

definition isText :: "string \<Rightarrow> json option \<Rightarrow> bool" where
  "isText s v \<longleftrightarrow> v = Some (JString s)"

definition nonEmptyArray :: "json option \<Rightarrow> bool" where
  "nonEmptyArray v \<longleftrightarrow> (case asArray v of Some (x # xs) \<Rightarrow> True | _ \<Rightarrow> False)"

text \<open>An instant's text with what \<open>Date.parse\<close> makes of it.\<close>

fun instantOf :: "(string \<Rightarrow> int option) \<Rightarrow> json option \<Rightarrow> (string \<times> int) option" where
  "instantOf dates (Some (JString s)) = map_option (Pair s) (dates s)"
| "instantOf dates (Some (JNumber n)) = (if \<bar>n\<bar> \<le> 8640000000000000 then Some (isoText n, n) else None)"
| "instantOf dates _ = None"

definition compact :: "string option \<Rightarrow> nat \<Rightarrow> string option" where
  "compact raw limit' =
     (case raw of
        Some s \<Rightarrow> (let t = trim (take limit' s) in if s = [] \<or> t = [] then None else Some t)
      | None \<Rightarrow> None)"

fun firstText :: "json option list \<Rightarrow> string option" where
  "firstText [] = None"
| "firstText (Some (JString s) # vs) = (if trim s \<noteq> [] then Some s else firstText vs)"
| "firstText (v # vs) = firstText vs"

section \<open>Identities\<close>

definition executionIdentity :: "string \<Rightarrow> string \<Rightarrow> string list \<Rightarrow> string" where
  "executionIdentity sessionId namespace identity =
     sessionId @ '':execution:'' @ namespace @ '':'' @ joinWith '':'' (map encodeURIComponent identity)"


text \<open>The agent a card names, for the inspector.\<close>

definition agentMarker :: string where "agentMarker = '':execution:agent:''"

definition lastIndexOf :: "string \<Rightarrow> string \<Rightarrow> nat option" where
  "lastIndexOf t s = map_option (\<lambda>i. length s - length t - i) (indexOf (rev t) (rev s))"

section \<open>Observations\<close>

datatype ExecutionStatus = Is_queued | Is_running | Is_blocked | Is_done | Is_failed | Is_cancelled
datatype ExecutionKind = Is_job | Is_process | Is_agent

record ExecutionObservation =
  obsId :: string
  obsKind :: ExecutionKind
  obsLabel :: "string option"
  obsStatus :: ExecutionStatus
  obsStarted :: "string option"
  obsEnded :: "string option"
  obsDuration :: "int option"
  obsAgent :: "string option"
  obsModel :: "string option"
  obsSummary :: "string option"
  obsFailures :: bool
  runStartedAt :: "string option"
  launch :: bool

definition executionStatus :: "json option \<Rightarrow> ExecutionStatus option" where
  "executionStatus v =
     (case v of
        Some (JString s) \<Rightarrow>
          if s \<in> set [''pending'', ''queued'', ''starting''] then Some Is_queued
          else if s \<in> set [''running'', ''ready'', ''restarting'', ''stopping''] then Some Is_running
          else if s = ''blocked'' then Some Is_blocked
          else if s \<in> set [''completed'', ''done'', ''exited''] then Some Is_done
          else if s \<in> set [''failed'', ''error''] then Some Is_failed
          else if s \<in> set [''aborted'', ''cancelled''] then Some Is_cancelled
          else None
      | _ \<Rightarrow> None)"

definition executionSettled :: "ExecutionStatus \<Rightarrow> bool" where
  "executionSettled s \<longleftrightarrow> s \<in> {Is_done, Is_failed, Is_cancelled}"

text \<open>The attributes \<open>/\b(id|agent|status)="([^"<>]*)"/gu\<close> finds, \<open>b\<close> where a word character is before.\<close>

definition attributeAt :: "string \<Rightarrow> string \<Rightarrow> (string \<times> string \<times> string) option" where
  "attributeAt name s =
     Option.bind (afterText (name @ ''='' @ [quote]) s) (\<lambda>r.
       case dropWhile (noneOf (quote # ''<>'')) r of
         c # t \<Rightarrow> if c = quote then Some (name, takeWhile (noneOf (quote # ''<>'')) r, t) else None
       | [] \<Rightarrow> None)"

definition attributeHere :: "string \<Rightarrow> (string \<times> string \<times> string) option" where
  "attributeHere s =
     (case attributeAt ''id'' s of Some x \<Rightarrow> Some x
      | None \<Rightarrow> (case attributeAt ''agent'' s of Some x \<Rightarrow> Some x | None \<Rightarrow> attributeAt ''status'' s))"

lemma attributeAt_shorter: "attributeAt name s = Some (k, v, t) \<Longrightarrow> length t < length s"
proof -
  assume "attributeAt name s = Some (k, v, t)"
  then obtain r where r: "afterText (name @ ''='' @ [quote]) s = Some r" "dropWhile (noneOf (quote # ''<>'')) r = quote # t"
    unfolding attributeAt_def bind_eq_Some_conv by (elim exE conjE) (simp split: list.split_asm if_split_asm)
  have "length (dropWhile (noneOf (quote # ''<>'')) r) \<le> length r" by (rule length_dropWhile_le)
  moreover have "length r \<le> length s" using r(1) by (auto simp: afterText_def split: if_splits)
  ultimately show ?thesis using r(2) by simp
qed

lemma attributeHere_shorter: "attributeHere s = Some (k, v, t) \<Longrightarrow> length t < length s"
  by (auto simp: attributeHere_def attributeAt_shorter split: option.splits)

function attributes :: "bool \<Rightarrow> string \<Rightarrow> (string \<times> string) list" where
  "attributes b [] = []"
| "attributes b (c # s) =
     (case (if b then None else attributeHere (c # s)) of
        Some (k, v, t) \<Rightarrow> (k, v) # attributes False t
      | None \<Rightarrow> attributes (isWord c) s)"
  by pat_completeness auto
termination
  by (relation "measure (\<lambda>(b, s). length s)") (auto split: if_splits dest!: attributeHere_shorter)

text \<open>\<open>/^failed \(exit -?\d+\)$/u\<close>\<close>

definition failedExit :: "string \<Rightarrow> bool" where
  "failedExit s =
     (case afterText ''failed (exit '' s of
        None \<Rightarrow> False
      | Some r \<Rightarrow>
          (let d = (if startsWithText r ''-'' then tl r else r) in
           takeWhile isNumeral d \<noteq> [] \<and> dropWhile isNumeral d = '')''))"

text \<open>The task-summary envelope \<open>/^\s*<task-result\s+([^<>]+)>/u\<close>.\<close>

definition taskEnvelope :: "json option \<Rightarrow> (string \<times> string) list option" where
  "taskEnvelope value =
     (case value of
        Some (JString s) \<Rightarrow>
          Option.bind (afterText ''<task-result'' (dropWhile isSpace s)) (\<lambda>r.
            let run = takeWhile (noneOf ''<>'') r;
              found = rev (attributes False (dropWhile isSpace run));
              status = map_of found ''status'';
              kept = (if pred_option (\<lambda>s. s = ''merge failed'' \<or> failedExit s) status \<and> status \<noteq> None
                then (''status'', ''failed'') # found else found) in
            if 2 \<le> length run \<and> isSpace (hd run) \<and> startsWithText (drop (length run) r) ''>''
              \<and> map_of kept ''id'' \<noteq> None \<and> map_of kept ''id'' \<noteq> Some []
            then Some kept else None)
      | _ \<Rightarrow> None)"

definition envelopeField :: "(string \<times> string) list option \<Rightarrow> string \<Rightarrow> string option" where
  "envelopeField e name = Option.bind e (\<lambda>fs. map_of fs name)"

text \<open>\<open>/<output>\s*([\s\S]*?)\s*<\/output>/u\<close>\<close>

definition outputOf :: "string \<Rightarrow> string option" where
  "outputOf s =
     Option.bind (indexOf ''<output>'' s) (\<lambda>i.
       let r = drop (i + 8) s in map_option (\<lambda>j. trim (take j r)) (indexOf ''</output>'' r))"

definition summaryOf :: "(string \<Rightarrow> json option) \<Rightarrow> string option \<Rightarrow> string option" where
  "summaryOf parse value =
     (case value of
        None \<Rightarrow> None
      | Some s \<Rightarrow>
          if taskEnvelope (Some (JString s)) = None then compact (Some s) 600
          else (case outputOf s of
              None \<Rightarrow> None
            | Some output \<Rightarrow>
                if output = [] then None
                else (case parse output of
                    None \<Rightarrow> compact (Some output) 600
                  | Some v \<Rightarrow>
                      (case fieldOf (asRecord (Some v)) ''summary'' of
                         None \<Rightarrow> compact (Some output) 600
                       | Some JNull \<Rightarrow> compact (Some output) 600
                       | Some (JString t) \<Rightarrow> compact (Some t) 600
                       | Some _ \<Rightarrow> None))))"


section \<open>What a source reports\<close>

record library =
  parseOf :: "string \<Rightarrow> json option"
  datesOf :: "string \<Rightarrow> int option"

definition nullish :: "json option \<Rightarrow> json option \<Rightarrow> json option" where
  "nullish v w = (if v = None \<or> v = Some JNull then w else v)"

definition orElse :: "'a option \<Rightarrow> 'a option \<Rightarrow> 'a option" where
  "orElse x y = (case x of None \<Rightarrow> y | Some _ \<Rightarrow> x)"

definition unlessEmpty :: "string option \<Rightarrow> string option" where
  "unlessEmpty x = (if x = Some [] then None else x)"

definition invalidResult :: "fields option \<Rightarrow> bool" where
  "invalidResult fs \<longleftrightarrow> isText ''invalid'' (fieldOf fs ''status'') \<or> isText ''error'' (fieldOf fs ''status'')"

definition agentState :: "fields \<Rightarrow> ExecutionStatus option" where
  "agentState source =
     (if map_of source ''aborted'' = Some (JBool True) then Some Is_cancelled
      else case map_of source ''exitCode'' of
        Some (JNumber n) \<Rightarrow> Some (if n = 0 then Is_done else Is_failed)
      | _ \<Rightarrow> if truthy (map_of source ''retryState'') then Some Is_blocked else executionStatus (map_of source ''status''))"

definition agentObservation :: "library \<Rightarrow> string \<Rightarrow> string option \<Rightarrow> fields \<Rightarrow> ExecutionObservation option" where
  "agentObservation lib sessionId observedAt source =
     (let get = map_of source;
        model = firstText [get ''resolvedModel'', get ''model'', get ''modelRole''] in
      case (nonEmptyText (get ''id''), agentState source) of
        (Some i, Some state) \<Rightarrow>
          Some \<lparr>obsId = executionIdentity sessionId ''agent'' [i], obsKind = Is_agent,
            obsLabel = compact (firstText [get ''description'', get ''label'', Some (JString i)]) 160, obsStatus = state,
            obsStarted = None, obsEnded = (if executionSettled state then unlessEmpty observedAt else None),
            obsDuration = asNumber (get ''durationMs''), obsAgent = compact (nonEmptyText (get ''agent'')) 160, obsModel = compact model 160,
            obsSummary = summaryOf (parseOf lib)
              (firstText [get ''error'', get ''output'', get ''summary'', get ''lastIntent'', get ''assignment'']),
            obsFailures = (state = Is_failed \<or> nonEmptyText (get ''error'') \<noteq> None \<or> invalidResult (asRecord (get ''structuredOutput''))),
            runStartedAt = None, launch = False\<rparr>
      | _ \<Rightarrow> None)"

definition jobObservation ::
    "library \<Rightarrow> string \<Rightarrow> bool \<Rightarrow> string option \<Rightarrow> bool \<Rightarrow> fields \<Rightarrow> ExecutionObservation option" where
  "jobObservation lib sessionId completion observedAt launched source =
     (let get = map_of source;
        envelope = taskEnvelope (get ''resultText'');
        envelopeStatus = executionStatus (map_option JString (envelopeField envelope ''status''));
        state = orElse (executionStatus (get ''status'')) (orElse envelopeStatus (if completion then Some Is_done else None));
        schema = asRecord (nullish (get ''schema'') (get ''structured''));
        began = map_option fst (instantOf (datesOf lib) (get ''startedAt'')) in
      case (nonEmptyText (get (if completion then ''jobId'' else ''id'')), state) of
        (Some i, Some state) \<Rightarrow>
          if \<not> list_ex (\<lambda>t. isText t (get ''type'')) [''bash'', ''eval'', ''task''] then None
          else (let agentId = (if isText ''task'' (get ''type'')
                  then Some (the (orElse (nonEmptyText (get ''agentUrlId'')) (orElse (envelopeField envelope ''id'') (Some i)))) else None) in
            Some \<lparr>obsId = (case agentId of Some a \<Rightarrow> executionIdentity sessionId ''agent'' [a] | None \<Rightarrow> executionIdentity sessionId ''job'' [i]),
              obsKind = (if agentId \<noteq> None then Is_agent else Is_job),
              obsLabel = compact (firstText [get ''label'', Some (JString i)]) 160, obsStatus = state,
              obsStarted = began, obsEnded = (if executionSettled state then unlessEmpty observedAt else None),
              obsDuration = asNumber (get ''durationMs''), obsAgent = compact (envelopeField envelope ''agent'') 160,
              obsModel = compact (nonEmptyText (get ''resolvedModel'')) 160,
              obsSummary = summaryOf (parseOf lib) (firstText [get ''errorText'', get ''resultText'', fieldOf schema ''error'']),
              obsFailures = (state = Is_failed \<or> envelopeStatus = Some Is_failed \<or> nonEmptyText (get ''errorText'') \<noteq> None \<or> invalidResult schema),
              runStartedAt = began, launch = (launched \<and> agentId = None)\<rparr>)
      | _ \<Rightarrow> None)"

text \<open>During the backoff before a restart the times are those of the old run, and the count is the next one's.\<close>

definition processObservation :: "library \<Rightarrow> string \<Rightarrow> fields \<Rightarrow> ExecutionObservation option" where
  "processObservation lib sessionId source =
     (let get = map_of source in
      case (nonEmptyText (get ''id''), instantOf (datesOf lib) (get ''startedAt''), asNumber (get ''restartCount''), executionStatus (get ''state'')) of
        (Some i, Some (began, beganMs), Some restarts, Some state) \<Rightarrow>
          (let restarting = isText ''restarting'' (get ''state'');
             failed = (state = Is_failed \<or> restarting \<and> (case get ''exitCode'' of Some (JNumber n) \<Rightarrow> n \<noteq> 0 | _ \<Rightarrow> False));
             ended = instantOf (datesOf lib) (get ''exitedAt'') in
           Some \<lparr>obsId = executionIdentity sessionId ''process'' [i, began, printInt (if restarting then max 0 (restarts - 1) else restarts)],
             obsKind = Is_process, obsLabel = compact (firstText [get ''name'', Some (JString i)]) 160,
             obsStatus = (if failed then Is_failed else if restarting then Is_done else state),
             obsStarted = Some began, obsEnded = map_option fst ended,
             obsDuration = map_option (\<lambda>(t, ms). max 0 (ms - beganMs)) ended,
             obsAgent = None, obsModel = None, obsSummary = compact (firstText [get ''exitReason'', get ''readyMatch'']) 600,
             obsFailures = failed, runStartedAt = None, launch = False\<rparr>)
      | _ \<Rightarrow> None)"

section \<open>Extraction\<close>

record extraction =
  found :: "ExecutionObservation list"
  recognized :: nat
  total :: nat

definition nothingFound :: extraction where
  "nothingFound = \<lparr>found = [], recognized = 0, total = 0\<rparr>"

definition collect :: "json option \<Rightarrow> (fields \<Rightarrow> ExecutionObservation option) \<Rightarrow> extraction \<Rightarrow> extraction" where
  "collect values' extract e =
     (case asArray values' of
        None \<Rightarrow> e
      | Some vs \<Rightarrow>
          foldl (\<lambda>e v. case Option.bind (asRecord (Some v)) extract of
              None \<Rightarrow> e\<lparr>total := total e + 1\<rparr>
            | Some x \<Rightarrow> e\<lparr>found := found e @ [x], recognized := recognized e + 1, total := total e + 1\<rparr>) e vs)"

text \<open>\<open>{ ...source, name: value }\<close> with a value that may be undefined\<close>

definition withField :: "string \<Rightarrow> json option \<Rightarrow> fields \<Rightarrow> fields" where
  "withField name v source =
     (case v of Some v \<Rightarrow> AList.update name v source | None \<Rightarrow> filter (\<lambda>(k, _). k \<noteq> name) source)"

fun sameMember :: "json \<Rightarrow> json option list \<Rightarrow> bool" where
  "sameMember (JArray xs) ids = False"
| "sameMember (JObject fs) ids = False"
| "sameMember v ids = (Some v \<in> set ids)"

definition finishExtraction :: "bool \<Rightarrow> bool \<Rightarrow> extraction \<Rightarrow> ExecutionObservation list \<times> bool" where
  "finishExtraction isError represented e =
     (if isError then map (\<lambda>x. x\<lparr>obsFailures := True\<rparr>) (found e) else found e,
      represented \<and> 0 < recognized e \<and> recognized e = total e)"

definition extractHub :: "library \<Rightarrow> string \<Rightarrow> fields \<Rightarrow> fields \<Rightarrow> string option \<Rightarrow> bool \<Rightarrow> ExecutionObservation list \<times> bool" where
  "extractHub lib sessionId args detail observedAt isError =
     (let get = map_of detail;
        operation = orElse (nonEmptyText (map_of args ''op'')) (nonEmptyText (get ''op''));
        e1 = collect (get ''jobs'') (jobObservation lib sessionId False observedAt False) nothingFound;
        e2 = (case get ''daemon'' of Some d \<Rightarrow> collect (Some (JArray [d])) (processObservation lib sessionId) e1 | None \<Rightarrow> e1);
        e3 = collect (get ''daemons'') (processObservation lib sessionId) e2;
        returned = (case asArray (get ''jobs'') of Some js \<Rightarrow> map (\<lambda>v. fieldOf (asRecord (Some v)) ''id'') js | None \<Rightarrow> []);
        represented = (operation \<notin> Some ` set [''send'', ''cancel'', ''inbox'', ''list'']
          \<and> \<not> truthy (map_of args ''from'') \<and> \<not> truthy (map_of args ''to'') \<and> \<not> truthy (get ''waited'')
          \<and> \<not> list_ex (\<lambda>k. nonEmptyArray (get k)) [''inbox'', ''receipts'', ''agents'', ''peers'', ''cancelled'']
          \<and> (case asArray (map_of args ''ids'') of Some ids \<Rightarrow> list_all (\<lambda>i. sameMember i returned) ids | None \<Rightarrow> True)) in
      finishExtraction isError represented e3)"

text \<open>The hub calls an evaluation displayed: the extraction so far, and whether all of it was observed.\<close>

definition displayOps :: "string list" where
  "displayOps = [''wait'', ''jobs'', ''start'', ''ps'', ''list'', ''logs'', ''stop'', ''restart'', ''describe'', ''send'', ''cancel'']"

definition collectDisplay :: "library \<Rightarrow> string \<Rightarrow> string option \<Rightarrow> extraction \<times> bool \<Rightarrow> json \<Rightarrow> extraction \<times> bool" where
  "collectDisplay lib sessionId observedAt = (\<lambda>(e, all) v.
     let e = e\<lparr>total := total e + 1\<rparr>;
       output = asRecord (Some v);
       nested = asRecord (fieldOf output ''details'') in
     case (fieldOf output ''text'', nested, fieldOf nested ''op'') of
       (Some (JString t), Some detail, Some (JString op)) \<Rightarrow>
         if op \<notin> set displayOps then (e, False)
         else (let hasError = (fieldOf output ''hasError'' = Some (JBool True));
             (observations, represented) = extractHub lib sessionId [] detail observedAt hasError in
           (e\<lparr>found := found e @ observations, recognized := (if represented then recognized e + 1 else recognized e)\<rparr>,
            all \<and> represented \<and> \<not> hasError \<and> \<not> nonEmptyArray (fieldOf output ''images'')))
     | _ \<Rightarrow> (e, False))"

text \<open>\<open>`display[${index + 1}]:\n${JSON.stringify(value, null, 2)}`\<close>, joined by blank lines\<close>

definition displayed :: "json list \<Rightarrow> string" where
  "displayed outputs =
     joinWith [newline, newline]
       (map (\<lambda>(i, v). ''display['' @ printInt (int i + 1) @ '']:'' @ [newline] @ pretty 0 v) (zip [0..<length outputs] outputs))"

definition statusEventsOf :: "fields \<Rightarrow> json list" where
  "statusEventsOf detail =
     (case asArray (map_of detail ''statusEvents'') of Some xs \<Rightarrow> xs | None \<Rightarrow> []) @
     (case asArray (map_of detail ''cells'') of
        Some cells \<Rightarrow> concat (map (\<lambda>c. case asArray (fieldOf (asRecord (Some c)) ''statusEvents'') of Some xs \<Rightarrow> xs | None \<Rightarrow> []) cells)
      | None \<Rightarrow> [])"

definition extractDisplays :: "library \<Rightarrow> string \<Rightarrow> fields \<Rightarrow> string option \<Rightarrow> bool \<Rightarrow> extraction \<Rightarrow> extraction \<times> bool" where
  "extractDisplays lib sessionId detail observedAt isError e =
     (case asArray (map_of detail ''jsonOutputs'') of
        None \<Rightarrow> (e, True)
      | Some outputs \<Rightarrow>
          (let events = map (\<lambda>v. asRecord (Some v)) (statusEventsOf detail) in
           if \<not> list_ex (\<lambda>v. isText ''hub'' (fieldOf v ''op'')) events then (e, True)
           else (let (e, allObserved) = foldl (collectDisplay lib sessionId observedAt) (e, outputs \<noteq> []) outputs;
               cell = (case asArray (map_of detail ''cells'') of Some [c] \<Rightarrow> asRecord (Some c) | _ \<Rightarrow> None) in
             (e, allObserved
               \<and> list_all (\<lambda>v. isText ''hub'' (fieldOf v ''op'') \<and> \<not> truthy (fieldOf v ''hasError'') \<and> \<not> truthy (fieldOf v ''error'')) events
               \<and> isText ''complete'' (fieldOf cell ''status'') \<and> \<not> truthy (fieldOf cell ''hasMarkdown'')
               \<and> \<not> truthy (map_of detail ''isError'') \<and> \<not> isError \<and> \<not> nonEmptyArray (map_of detail ''images'')
               \<and> isText (displayed outputs) (fieldOf cell ''output'')))))"


record extraction_input =
  inSession :: string
  inTool :: string
  inArgs :: "json option"
  inDetails :: "json option"
  inCustom :: "string option"
  inObserved :: "string option"
  inError :: bool

text \<open>\<open>collect\<close> of the one source an asynchronous call describes.\<close>

definition collectAsync :: "(fields \<Rightarrow> ExecutionObservation option) \<Rightarrow> fields \<Rightarrow> extraction \<Rightarrow> extraction" where
  "collectAsync extract source e =
     collect (Some (JArray [JObject (withField ''status'' (map_of source ''state'') source)])) extract e"

definition extractTask :: "library \<Rightarrow> extraction_input \<Rightarrow> fields \<Rightarrow> extraction" where
  "extractTask lib input detail =
     (let e1 = collect (map_of detail ''progress'') (agentObservation lib (inSession input) (inObserved input)) nothingFound;
        e2 = collect (map_of detail ''results'') (agentObservation lib (inSession input) (inObserved input)) e1 in
      case asRecord (map_of detail ''async'') of
        Some async \<Rightarrow>
          if total e2 = 0 \<and> isText ''task'' (map_of async ''type'')
          then collectAsync (jobObservation lib (inSession input) True (inObserved input) False) async e2
          else e2
      | None \<Rightarrow> e2)"

definition extractScript :: "library \<Rightarrow> extraction_input \<Rightarrow> fields \<Rightarrow> fields \<Rightarrow> extraction" where
  "extractScript lib input args detail =
     (case asRecord (map_of detail ''async'') of
        Some async \<Rightarrow>
          if isText (inTool input) (map_of async ''type'')
          then collectAsync (jobObservation lib (inSession input) True (inObserved input) True)
            (withField ''label'' (map_option JString (firstText [map_of args ''i'', map_of args ''title'', Some (JString (inTool input))])) async)
            nothingFound
          else nothingFound
      | None \<Rightarrow> nothingFound)"

definition extractExecutions :: "library \<Rightarrow> extraction_input \<Rightarrow> ExecutionObservation list \<times> bool" where
  "extractExecutions lib input =
     (case asRecord (inDetails input) of
        None \<Rightarrow> ([], False)
      | Some detail \<Rightarrow>
          (let args = (case asRecord (inArgs input) of Some a \<Rightarrow> a | None \<Rightarrow> []);
             custom = unlessEmpty (inCustom input);
             finish = finishExtraction (inError input) in
           if custom = Some ''async-result'' then
             finish True (collect (map_of detail ''jobs'') (jobObservation lib (inSession input) True (inObserved input) False) nothingFound)
           else if custom = Some ''launch-completion'' then
             finish True (collect (map_of detail ''daemons'') (processObservation lib (inSession input)) nothingFound)
           else if custom \<noteq> None then finish False nothingFound
           else if inTool input = ''task'' then finish True (extractTask lib input detail)
           else if inTool input = ''bash'' then finish True (extractScript lib input args detail)
           else if inTool input = ''eval'' then
             (case extractDisplays lib (inSession input) detail (inObserved input) (inError input) (extractScript lib input args detail) of
                (e, represented) \<Rightarrow> finish represented e)
           else if inTool input = ''hub'' then extractHub lib (inSession input) args detail (inObserved input) (inError input)
           else finish False nothingFound))"

section \<open>Merging\<close>

record ExecutionBlock =
  cardId :: string
  cardKind :: ExecutionKind
  cardLabel :: "string option"
  cardStatus :: ExecutionStatus
  cardStarted :: "string option"
  cardEnded :: "string option"
  cardDuration :: "int option"
  cardAgent :: "string option"
  cardModel :: "string option"
  cardSummary :: "string option"
  historyCount :: nat
  cardFailures :: bool

text \<open>The card's own identity is that of the latest observation; absent and undefined fields are the same.\<close>

definition staleFor :: "ExecutionBlock option \<Rightarrow> ExecutionObservation \<Rightarrow> bool" where
  "staleFor previous x =
     (case previous of
        None \<Rightarrow> False
      | Some p \<Rightarrow>
          executionSettled (cardStatus p) \<and> \<not> executionSettled (obsStatus x)
          \<or> obsStatus x = Is_queued \<and> cardStatus p \<noteq> Is_queued
          \<or> \<not> executionSettled (obsStatus x)
            \<and> (case (cardDuration p, obsDuration x) of (Some a, Some b) \<Rightarrow> b < a | _ \<Rightarrow> False))"

definition nextStatus :: "ExecutionBlock option \<Rightarrow> ExecutionObservation \<Rightarrow> ExecutionStatus" where
  "nextStatus previous x =
     (let s = (case previous of Some p \<Rightarrow> if staleFor previous x then cardStatus p else obsStatus x | None \<Rightarrow> obsStatus x) in
      if map_option cardStatus previous = Some Is_failed \<or> obsStatus x = Is_failed then Is_failed
      else if map_option cardStatus previous = Some Is_cancelled \<and> s = Is_done then Is_cancelled
      else s)"

definition mergeExecution :: "ExecutionBlock option \<Rightarrow> ExecutionObservation \<Rightarrow> bool \<Rightarrow> ExecutionBlock" where
  "mergeExecution previous x inserted =
     (let fresh = (\<lambda>v. if staleFor previous x then None else unlessEmpty v) in
      \<lparr>cardId = obsId x, cardKind = (case previous of Some p \<Rightarrow> cardKind p | None \<Rightarrow> obsKind x),
       cardLabel = orElse (Option.bind previous cardLabel) (obsLabel x), cardStatus = nextStatus previous x,
       cardStarted = orElse (unlessEmpty (Option.bind previous cardStarted)) (orElse (unlessEmpty (obsStarted x)) (Option.bind previous cardStarted)),
       cardEnded = orElse (unlessEmpty (Option.bind previous cardEnded)) (orElse (fresh (obsEnded x)) (Option.bind previous cardEnded)),
       cardDuration = (case obsDuration x of
           Some d \<Rightarrow> Some (max (case Option.bind previous cardDuration of Some a \<Rightarrow> a | None \<Rightarrow> 0) d)
         | None \<Rightarrow> Option.bind previous cardDuration),
       cardAgent = orElse (fresh (obsAgent x)) (Option.bind previous cardAgent), cardModel = orElse (fresh (obsModel x)) (Option.bind previous cardModel),
       cardSummary = orElse (fresh (obsSummary x)) (Option.bind previous cardSummary),
       historyCount = (case previous of Some p \<Rightarrow> historyCount p | None \<Rightarrow> 0) + (if inserted then 1 else 0),
       cardFailures = ((case previous of Some p \<Rightarrow> cardFailures p | None \<Rightarrow> False) \<or> obsFailures x)\<rparr>)"


definition executionAgentId :: "ExecutionBlock \<Rightarrow> string option" where
  "executionAgentId block =
     (if cardKind block \<noteq> Is_agent then None
      else Option.bind (lastIndexOf agentMarker (cardId block)) (\<lambda>offset.
        decodeURIComponent (drop (offset + length agentMarker) (cardId block))))"

section \<open>Identities tell cards apart\<close>

lemma hexDigits_read: "\<forall>d < 16. hexNumber (hexDigit d) = Some d"
  by code_simp

lemma hexNumber_hexDigit [simp]: "d < 16 \<Longrightarrow> hexNumber (hexDigit d) = Some d"
  using hexDigits_read by blast

lemma unreserved_percent: "\<not> unreserved CHR ''%''"
  by (simp add: unreserved_def between_def)

lemma decode_encodeChar: "decodeURIComponent (encodeChar c @ t) = map_option ((#) c) (decodeURIComponent t)"
proof -
  let ?n = "of_char c :: nat"
  have n: "?n < 256" by simp
  have c: "char_of ?n = c" by simp
  consider "unreserved c" | "\<not> unreserved c" "?n < 128" | "\<not> unreserved c" "128 \<le> ?n" by linarith
  then show ?thesis
  proof cases
    case 1
    then have "c \<noteq> CHR ''%''" using unreserved_percent by blast
    then show ?thesis using 1 by (simp add: encodeChar_def)
  next
    case 2
    then have "?n div 16 < 16" "?n div 16 * 16 + ?n mod 16 = ?n" by simp_all
    then show ?thesis using 2 c by (simp add: encodeChar_def percent_def Let_def)
  next
    case 3
    define a b where "a = 192 + ?n div 64" and "b = 128 + ?n mod 64"
    have "?n div 64 = 2 \<or> ?n div 64 = 3" using n 3 by linarith
    then have a: "a = 194 \<or> a = 195" by (auto simp: a_def)
    have b: "128 \<le> b" "b < 192" by (simp_all add: b_def)
    have d: "a div 16 < 16" "b div 16 < 16" "a div 16 * 16 + a mod 16 = a" "b div 16 * 16 + b mod 16 = b" using a b by auto
    have e: "(a - 192) * 64 + (b - 128) = ?n" by (simp add: a_def b_def)
    have s: "encodeChar c = percent a @ percent b" using 3 by (simp add: encodeChar_def a_def b_def Let_def)
    show ?thesis unfolding s using a b d c e by (auto simp: percent_def)
  qed
qed

lemma decode_encode [simp]: "decodeURIComponent (encodeURIComponent s) = Some s"
  by (induction s) (simp_all add: encodeURIComponent_def decode_encodeChar)

lemma encode_no_colon: "CHR '':'' \<notin> set (encodeURIComponent s)"
proof -
  have h: "\<forall>d < 16. hexDigit d \<noteq> CHR '':''" by code_simp
  have "CHR '':'' \<notin> set (percent n)" if "n < 256" for n
  proof -
    have "n div 16 < 16" "n mod 16 < 16" using that by simp_all
    then have "hexDigit (n div 16) \<noteq> CHR '':''" "hexDigit (n mod 16) \<noteq> CHR '':''" using h by blast+
    then show ?thesis by (auto simp: percent_def)
  qed
  moreover have "192 + of_char c div 64 < (256 :: nat)" "128 + of_char c mod 64 < (256 :: nat)" for c
  proof -
    have "of_char c < (256 :: nat)" by simp
    then show "192 + of_char c div 64 < (256 :: nat)" "128 + of_char c mod 64 < (256 :: nat)" by linarith+
  qed
  ultimately have "CHR '':'' \<notin> set (encodeChar c)" for c
    by (auto simp: encodeChar_def Let_def unreserved_def between_def)
  then show ?thesis by (simp add: encodeURIComponent_def)
qed

lemma splitOn_join:
  "xs \<noteq> [] \<Longrightarrow> list_all (\<lambda>x. c \<notin> set x) xs \<Longrightarrow> splitOn c (joinWith [c] xs) = xs"
  by (induction "[c]" xs rule: joinWith.induct) (simp_all add: splitOn_last splitOn_part)

text \<open>
  A card's identity names what the runtime named: within a session, two identities of jobs,
  agents or processes are equal only when their kinds and all their parts are, so observations of
  different things never share a card.
\<close>

theorem identities_distinct:
  assumes "executionIdentity s n xs = executionIdentity s m ys"
    and "n \<in> {''job'', ''agent'', ''process''}" and "m \<in> {''job'', ''agent'', ''process''}" and "xs \<noteq> []" and "ys \<noteq> []"
  shows "n = m \<and> xs = ys"
proof -
  have e: "n @ CHR '':'' # joinWith '':'' (map encodeURIComponent xs) = m @ CHR '':'' # joinWith '':'' (map encodeURIComponent ys)"
    using assms(1) by (simp add: executionIdentity_def)
  have c: "CHR '':'' \<notin> set n" "CHR '':'' \<notin> set m" using assms(2,3) by auto
  have split: "splitOn CHR '':'' (k @ CHR '':'' # joinWith '':'' (map encodeURIComponent zs)) = k # map encodeURIComponent zs"
    if "CHR '':'' \<notin> set k" "zs \<noteq> []" for k zs
    using that splitOn_join [of "map encodeURIComponent zs" "CHR '':''"] encode_no_colon by (simp add: splitOn_part list_all_iff)
  have "n # map encodeURIComponent xs = m # map encodeURIComponent ys"
    using arg_cong [OF e, of "splitOn CHR '':''"] split [OF c(1) assms(4)] split [OF c(2) assms(5)] by simp
  moreover have "inj encodeURIComponent" by (metis decode_encode injI option.inject)
  ultimately show ?thesis by (simp add: inj_map_eq_map)
qed

lemma identities_distinct_witness:
  "\<not> executionIdentity ''s'' ''process'' [''a'', ''b:c''] = executionIdentity ''s'' ''process'' [''a:b'', ''c'']"
  using identities_distinct [of "''s''" "''process''" "[''a'', ''b:c'']" "''process''" "[''a:b'', ''c'']"] by auto

text \<open>
  The inspector recovers the agent of a card from its identity alone: it is the id the runtime
  reported, whatever characters the session or the id hold.
\<close>

theorem agent_recovered:
  assumes "agentObservation lib session' at source = Some x"
  shows "executionAgentId (mergeExecution None x inserted) = nonEmptyText (map_of source ''id'')"
proof -
  obtain i where i: "nonEmptyText (map_of source ''id'') = Some i" "obsId x = executionIdentity session' ''agent'' [i]" "obsKind x = Is_agent"
    using assms by (auto simp: agentObservation_def Let_def split: option.splits)
  let ?e = "encodeURIComponent i"
  have e: "obsId x = session' @ agentMarker @ ?e" using i(2) by (simp add: executionIdentity_def agentMarker_def)
  have "indexOf (rev agentMarker) (rev (session' @ agentMarker @ ?e)) = Some (length ?e)"
    unfolding indexOf_iff
  proof (intro conjI allI impI)
    fix j assume j: "j < length ?e"
    then have d: "drop j (rev (session' @ agentMarker @ ?e)) = rev ?e ! j # drop (Suc j) (rev ?e) @ rev agentMarker @ rev session'"
      by (simp add: Cons_nth_drop_Suc [symmetric])
    have "rev ?e ! j \<in> set ?e" using j by (metis length_rev nth_mem set_rev)
    then have "rev ?e ! j \<noteq> CHR '':''" using encode_no_colon by metis
    then show "\<not> startsWithText (drop j (rev (session' @ agentMarker @ ?e))) (rev agentMarker)"
      unfolding d using starts_with_first by (fastforce simp: agentMarker_def)
  qed (simp_all add: startsWithText_def)
  then have "lastIndexOf agentMarker (obsId x) = Some (length session')"
    unfolding e by (simp add: lastIndexOf_def)
  then show ?thesis unfolding executionAgentId_def mergeExecution_def using i(1,3) by (simp add: e)
qed


lemma agent_recovered_witness:
  "executionAgentId (mergeExecution None
     (the (agentObservation \<lparr>parseOf = (\<lambda>_. None), datesOf = (\<lambda>_. None)\<rparr> ''s:execution:agent:'' None
       [(''id'', JString ''a:b''), (''status'', JString ''running'')])) True) = Some ''a:b''"
proof -
  obtain x where x: "agentObservation \<lparr>parseOf = (\<lambda>_. None), datesOf = (\<lambda>_. None)\<rparr> ''s:execution:agent:'' None
       [(''id'', JString ''a:b''), (''status'', JString ''running'')] = Some x"
    by (simp add: agentObservation_def agentState_def executionStatus_def)
  show ?thesis using agent_recovered [OF x, of True] by (simp add: x)
qed

section \<open>The order of observations does not matter\<close>

text \<open>The card after a list of observations, each with whether its source is new.\<close>

definition mergeAll :: "ExecutionBlock option \<Rightarrow> (ExecutionObservation \<times> bool) list \<Rightarrow> ExecutionBlock option" where
  "mergeAll c xs = foldl (\<lambda>c (x, inserted). Some (mergeExecution c x inserted)) c xs"

text \<open>What is settled is ordered: done, cancelled, failed.\<close>

definition severity :: "ExecutionStatus \<Rightarrow> nat" where
  "severity s = (case s of Is_done \<Rightarrow> 1 | Is_cancelled \<Rightarrow> 2 | Is_failed \<Rightarrow> 3 | _ \<Rightarrow> 0)"

lemma severity_settled: "executionSettled s \<longleftrightarrow> 0 < severity s"
  by (cases s) (simp_all add: executionSettled_def severity_def)

lemma severity_inj: "0 < severity s \<Longrightarrow> severity s = severity t \<Longrightarrow> s = t"
  by (cases s; cases t) (simp_all add: severity_def)

definition severityOf :: "ExecutionBlock option \<Rightarrow> nat" where
  "severityOf c = (case c of Some p \<Rightarrow> severity (cardStatus p) | None \<Rightarrow> 0)"

lemma merge_severity: "severity (nextStatus c x) = max (severityOf c) (severity (obsStatus x))"
proof (cases c)
  case None
  then show ?thesis by (cases "obsStatus x") (simp_all add: nextStatus_def severityOf_def severity_def)
next
  case (Some p)
  show ?thesis
  proof (cases "executionSettled (cardStatus p)")
    case True
    then show ?thesis using Some
      by (cases "cardStatus p"; cases "obsStatus x")
        (simp_all add: nextStatus_def staleFor_def severityOf_def severity_def executionSettled_def)
  next
    case False
    then show ?thesis using Some
      by (cases "cardStatus p"; cases "obsStatus x")
        (simp_all add: nextStatus_def staleFor_def severityOf_def severity_def executionSettled_def)
  qed
qed

text \<open>A card as far as it converges: how bad its result is, its length, its failures and its history.\<close>

type_synonym outcome = "nat \<times> int option \<times> bool \<times> nat"

definition outcomeOf :: "ExecutionBlock option \<Rightarrow> outcome" where
  "outcomeOf c =
     (severityOf c, Option.bind c cardDuration, (case c of Some p \<Rightarrow> cardFailures p | None \<Rightarrow> False),
      (case c of Some p \<Rightarrow> historyCount p | None \<Rightarrow> 0))"

definition observeOutcome :: "ExecutionObservation \<times> bool \<Rightarrow> outcome \<Rightarrow> outcome" where
  "observeOutcome = (\<lambda>(x, inserted) (worst, duration, failures, history).
     (max worst (severity (obsStatus x)),
      (case obsDuration x of Some d \<Rightarrow> Some (max (case duration of Some a \<Rightarrow> a | None \<Rightarrow> 0) d) | None \<Rightarrow> duration),
      failures \<or> obsFailures x, history + (if inserted then 1 else 0)))"

lemma merge_outcome: "outcomeOf (Some (mergeExecution c x inserted)) = observeOutcome (x, inserted) (outcomeOf c)"
  using merge_severity [of c x]
  by (cases c) (auto simp: outcomeOf_def observeOutcome_def mergeExecution_def severityOf_def split: option.splits)

lemma observe_commutes: "observeOutcome x (observeOutcome y z) = observeOutcome y (observeOutcome x z)"
  by (cases x; cases y; cases z) (auto simp: observeOutcome_def max.left_commute max.commute split: option.splits)

interpretation observed: comp_fun_commute observeOutcome
  by standard (simp add: fun_eq_iff observe_commutes)

lemma mergeAll_outcome: "outcomeOf (mergeAll c xs) = fold_mset observeOutcome (outcomeOf c) (mset xs)"
proof -
  have f: "fold observeOutcome ys z = fold_mset observeOutcome z (mset ys)" for ys z
    by (induction ys arbitrary: z) (simp_all add: observed.fold_mset_fun_left_comm)
  have "outcomeOf (mergeAll c xs) = foldl (\<lambda>o' x. observeOutcome x o') (outcomeOf c) xs"
    by (induction xs arbitrary: c) (auto simp: mergeAll_def merge_outcome)
  also have "\<dots> = fold observeOutcome xs (outcomeOf c)" by (simp add: foldl_conv_fold)
  also have "\<dots> = fold_mset observeOutcome (outcomeOf c) (mset xs)" by (rule f)
  finally show ?thesis .
qed

lemma outcome_settled:
  assumes "mergeAll c xs = Some a"
  shows "severity (cardStatus a) = fst (outcomeOf (mergeAll c xs))"
  using assms by (simp add: outcomeOf_def severityOf_def)

text \<open>The result is as bad as the worst report, and no worse than all of them and the card before.\<close>

lemma observed_snoc: "outcomeOf (mergeAll c (ys @ [y])) = observeOutcome y (outcomeOf (mergeAll c ys))"
  by (cases y) (simp add: mergeAll_def merge_outcome)

lemma severity_reached: "x \<in> set xs \<Longrightarrow> severity (obsStatus (fst x)) \<le> fst (outcomeOf (mergeAll c xs))"
  and severity_kept: "severityOf c \<le> fst (outcomeOf (mergeAll c xs))"
  and severity_reported: "fst (outcomeOf (mergeAll c xs)) \<in> insert (severityOf c) ((\<lambda>x. severity (obsStatus (fst x))) ` set xs)"
proof (induction xs rule: rev_induct)
  case (snoc y ys)
  have "fst (outcomeOf (mergeAll c (ys @ [y]))) = max (fst (outcomeOf (mergeAll c ys))) (severity (obsStatus (fst y)))"
    by (simp add: observed_snoc observeOutcome_def case_prod_unfold)
  note m = this
  { case 1 then show ?case using snoc(1) unfolding m by auto }
  { case 2 then show ?case using snoc(2) unfolding m by simp }
  { case 3 then show ?case using snoc(3) unfolding m by (auto simp: max_def) }
qed (simp_all add: mergeAll_def outcomeOf_def)

text \<open>The statuses there are: of the card before, if there was one, and of the reports.\<close>

definition reported :: "ExecutionBlock option \<Rightarrow> (ExecutionObservation \<times> bool) list \<Rightarrow> ExecutionStatus set" where
  "reported c xs = (case c of Some p \<Rightarrow> {cardStatus p} | None \<Rightarrow> {}) \<union> (\<lambda>x. obsStatus (fst x)) ` set xs"

lemma shown_reported:
  assumes "mergeAll c xs = Some a" and "s \<in> reported c xs" and "executionSettled s"
  shows "cardStatus a \<in> reported c xs" and "\<forall>t \<in> reported c xs. severity t \<le> severity (cardStatus a)"
proof -
  note a = outcome_settled [OF assms(1)]
  show all: "\<forall>t \<in> reported c xs. severity t \<le> severity (cardStatus a)"
    using severity_reached [of _ xs c] severity_kept [of c xs] unfolding a
    by (auto simp: reported_def severityOf_def split: option.splits)
  have "0 < severity s" using assms(3) by (simp add: severity_settled)
  then have pos: "0 < severity (cardStatus a)" using all assms(2) by fastforce
  then have "\<exists>t \<in> reported c xs. severity (cardStatus a) = severity t"
    using severity_reported [of c xs] unfolding a by (auto simp: reported_def severityOf_def split: option.splits)
  then show "cardStatus a \<in> reported c xs" using severity_inj [OF pos] by blast
qed

lemma failures_reported:
  "fst (snd (snd (outcomeOf (mergeAll c xs)))) \<longleftrightarrow>
     (case c of Some p \<Rightarrow> cardFailures p | None \<Rightarrow> False) \<or> (\<exists>x \<in> set xs. obsFailures (fst x))"
  and sources_counted:
  "snd (snd (snd (outcomeOf (mergeAll c xs)))) = (case c of Some p \<Rightarrow> historyCount p | None \<Rightarrow> 0) + length (filter snd xs)"
proof (induction xs rule: rev_induct)
  case (snoc y ys)
  { case 1 then show ?case using snoc(1) by (simp add: observed_snoc observeOutcome_def case_prod_unfold) blast }
  { case 2 then show ?case using snoc(2) by (simp add: observed_snoc observeOutcome_def case_prod_unfold) }
qed (simp_all add: mergeAll_def outcomeOf_def)

text \<open>
  C22. The order in which a conversation's tools report an execution does not matter once one of them
  reported its end: the card shows failed if a report or the card before it says so, else cancelled if one says so, else
  done, whatever stale or repeated progress came before, between or after. It tells of failures exactly if one of them
  does, it counts the sources that were new, and its length is the same.
\<close>

theorem reports_converge:
  assumes "mergeAll c xs = Some a" and "mergeAll c ys = Some b" and "mset xs = mset ys"
    and "x \<in> set xs" and "executionSettled (obsStatus (fst x))"
  shows "cardStatus a = (if Is_failed \<in> reported c xs then Is_failed else if Is_cancelled \<in> reported c xs then Is_cancelled else Is_done)
    \<and> (cardFailures a \<longleftrightarrow> (case c of Some p \<Rightarrow> cardFailures p | None \<Rightarrow> False) \<or> (\<exists>x \<in> set xs. obsFailures (fst x)))
    \<and> historyCount a = (case c of Some p \<Rightarrow> historyCount p | None \<Rightarrow> 0) + length (filter snd xs)
    \<and> cardStatus a = cardStatus b \<and> cardDuration a = cardDuration b \<and> cardFailures a = cardFailures b \<and> historyCount a = historyCount b"
proof -
  have same: "outcomeOf (Some a) = outcomeOf (Some b)"
    using mergeAll_outcome [of c xs] mergeAll_outcome [of c ys] assms(1-3) by simp
  have "obsStatus (fst x) \<in> reported c xs" using assms(4) by (auto simp: reported_def)
  note shown = shown_reported [OF assms(1) this assms(5)]
  have "0 < severity (cardStatus a)" using shown(2) \<open>obsStatus (fst x) \<in> _\<close> assms(5) by (fastforce simp: severity_settled)
  then have settled: "executionSettled (cardStatus a)" by (simp add: severity_settled)
  then have "cardStatus a = (if Is_failed \<in> reported c xs then Is_failed else if Is_cancelled \<in> reported c xs then Is_cancelled else Is_done)"
    using shown by (cases "cardStatus a") (auto simp: severity_def executionSettled_def)
  moreover have "cardStatus a = cardStatus b"
    using same severity_inj \<open>0 < severity (cardStatus a)\<close> by (auto simp: outcomeOf_def severityOf_def)
  moreover have "cardFailures a \<longleftrightarrow> fst (snd (snd (outcomeOf (mergeAll c xs))))"
    "historyCount a = snd (snd (snd (outcomeOf (mergeAll c xs))))" by (simp_all add: assms(1) outcomeOf_def)
  moreover have "cardDuration a = cardDuration b \<and> cardFailures a = cardFailures b \<and> historyCount a = historyCount b"
    using same by (simp add: outcomeOf_def)
  ultimately show ?thesis unfolding failures_reported sources_counted by blast
qed

definition exampleReport :: "ExecutionStatus \<Rightarrow> int \<Rightarrow> ExecutionObservation" where
  "exampleReport s d = \<lparr>obsId = ''s:execution:job:1'', obsKind = Is_job, obsLabel = Some ''build'', obsStatus = s, obsStarted = None,
     obsEnded = None, obsDuration = Some d, obsAgent = None, obsModel = None, obsSummary = None, obsFailures = False,
     runStartedAt = None, launch = False\<rparr>"

lemma reports_converge_witness:
  "cardStatus (the (mergeAll None [(exampleReport Is_cancelled 5, True), (exampleReport Is_done 7, False), (exampleReport Is_running 2, True)]))
   = Is_cancelled \<and>
   cardStatus (the (mergeAll None [(exampleReport Is_cancelled 5, True), (exampleReport Is_done 7, False), (exampleReport Is_running 2, True)]))
   = cardStatus (the (mergeAll None [(exampleReport Is_running 2, True), (exampleReport Is_done 7, False), (exampleReport Is_cancelled 5, True)]))"
proof -
  let ?xs = "[(exampleReport Is_cancelled 5, True), (exampleReport Is_done 7, False), (exampleReport Is_running 2, True)]"
  let ?ys = "[(exampleReport Is_running 2, True), (exampleReport Is_done 7, False), (exampleReport Is_cancelled 5, True)]"
  obtain a b where m: "mergeAll None ?xs = Some a" "mergeAll None ?ys = Some b" by (simp add: mergeAll_def)
  have "mset ?xs = mset ?ys" by simp
  from reports_converge [OF m this, of "(exampleReport Is_done 7, False)"] have "cardStatus a = cardStatus b" "cardStatus a = Is_cancelled"
    by (auto simp: exampleReport_def executionSettled_def reported_def)
  then show ?thesis unfolding m by simp
qed

end
