(* ===== verification/Transcript_Items.thy ===== *)
theory Transcript_Items
  imports Executions
begin

text \<open>
  The data of \<open>blocks/src/model.ts\<close> that a transcript is projected to, and what
  \<open>blocks/src/reducer.ts\<close>, \<open>approval.ts\<close> and \<open>provider-error.ts\<close> make of one message or tool call.
  Values of unknown shape are JSON values; a field that is undefined is as one that is absent.
  The one character beyond 255 in a text, an arrow, is written \<open>->\<close>.
\<close>

section \<open>Data\<close>

datatype MessageImage = Inline_image string string | Linked_image string string

datatype RichContent = Code_content string string "string option" | Image_content string string string

record AskOption =
  optionId :: string
  optionTitle :: string
  optionDescription :: "string option"
  optionPreview :: "string option"

datatype AskAnswer = One_answer string | Answers "string list"

record AskQuestion =
  questionId :: string
  prompt :: string
  header :: "string option"
  options :: "AskOption list option"
  multiple :: bool
  recommended :: "int option"
  neverWritten :: bool
  skippable :: bool
  answer :: "AskAnswer option"

datatype AskStatus = Ask_pending | Ask_answered | Ask_dismissed

record AskBlock =
  askId :: string
  isPlan :: bool
  askCall :: string
  askStatus :: AskStatus
  questions :: "AskQuestion list"

datatype ToolStatus = Tool_running | Tool_done | Tool_error

record ToolCallBlock =
  toolBlock :: string
  toolCall :: string
  tool :: string
  target :: "string option"
  toolStatus :: ToolStatus
  toolStarted :: "string option"
  toolEnded :: "string option"
  toolInput :: "RichContent list option"
  toolResult :: "RichContent list option"
  toolArgs :: "json option"
  toolDetails :: "json option"

record SideAgentBlock =
  sideId :: string
  sideAgent :: string
  sideQueued :: bool
  sideSummary :: "string option"

record WorkspaceTurnReport =
  reportProject :: string
  reportWorkspace :: string
  reportName :: string
  reportRequest :: string
  reportOutcome :: string
  reportExcerpt :: "string option"

datatype InterruptionReason = Aborted_turn | Compacted | Rule_changed | Machine_notice | Event_note

record InterruptionBlock =
  interruptionId :: string
  reason :: InterruptionReason
  title :: string
  detail :: "string option"
  body :: "string option"
  recovered :: bool

record MessageBlock =
  messageId :: string
  fromUser :: bool
  messageText :: string
  images :: "MessageImage list"
  messagePending :: "bool option"

datatype TranscriptItem =
  Message_item MessageBlock
| Thinking_item string string
| Tool_item ToolCallBlock
| Ask_item AskBlock
| Interruption_item InterruptionBlock
| Report_item string WorkspaceTurnReport
| Execution_item ExecutionBlock
| Side_item SideAgentBlock

fun itemId :: "TranscriptItem \<Rightarrow> string" where
  "itemId (Message_item m) = messageId m"
| "itemId (Thinking_item i t) = i"
| "itemId (Tool_item t) = toolBlock t"
| "itemId (Ask_item a) = askId a"
| "itemId (Interruption_item b) = interruptionId b"
| "itemId (Report_item i r) = i"
| "itemId (Execution_item e) = cardId e"
| "itemId (Side_item s) = sideId s"

definition pendingItem :: "TranscriptItem option \<Rightarrow> int" where
  "pendingItem item =
     (case item of
        Some (Message_item m) \<Rightarrow> if messagePending m = Some True then 1 else 0
      | Some (Tool_item t) \<Rightarrow> if toolStatus t = Tool_running then 1 else 0
      | Some (Ask_item a) \<Rightarrow> if askStatus a = Ask_pending then 1 else 0
      | _ \<Rightarrow> 0)"

section \<open>Contents\<close>

fun asString :: "json option \<Rightarrow> string option" where
  "asString (Some (JString s)) = Some s"
| "asString _ = None"

definition contentText :: "json option \<Rightarrow> string" where
  "contentText content =
     (case content of
        Some (JString s) \<Rightarrow> s
      | Some (JArray parts) \<Rightarrow>
          concat (map (\<lambda>part. let item = asRecord (Some part) in
            if isText ''text'' (fieldOf item ''type'') then (case asString (fieldOf item ''text'') of Some t \<Rightarrow> t | None \<Rightarrow> []) else []) parts)
      | _ \<Rightarrow> [])"

definition IMAGE_MIME_TYPES :: "string list" where
  "IMAGE_MIME_TYPES = [''image/png'', ''image/jpeg'', ''image/webp'']"

definition STORED_IMAGE :: string where "STORED_IMAGE = ''gs-image:v1:''"

definition contentImages :: "json option \<Rightarrow> MessageImage list" where
  "contentImages content =
     (case asArray content of
        None \<Rightarrow> []
      | Some parts \<Rightarrow>
          concat (map (\<lambda>part. let item = asRecord (Some part) in
            case (asString (fieldOf item ''data''), asString (fieldOf item ''mimeType'')) of
              (Some d, Some mime) \<Rightarrow>
                if \<not> isText ''image'' (fieldOf item ''type'') \<or> d = [] \<or> mime \<notin> set IMAGE_MIME_TYPES then []
                else if startsWithText d STORED_IMAGE then [Linked_image (d @ '';'' @ mime) mime] else [Inline_image d mime]
            | _ \<Rightarrow> []) parts))"

fun imageUrl :: "MessageImage \<Rightarrow> string" where
  "imageUrl (Linked_image url mime) = url"
| "imageUrl (Inline_image d mime) = ''data:'' @ mime @ '';base64,'' @ d"

definition richImages :: "string \<Rightarrow> json option \<Rightarrow> RichContent list" where
  "richImages i content =
     map (\<lambda>(n, image). Image_content (i @ '':'' @ printInt (int n)) (imageUrl image) (''Tool output image '' @ printInt (int n + 1)))
       (let found = contentImages content in zip [0..<length found] found)"

definition richText :: "string \<Rightarrow> string \<Rightarrow> string option \<Rightarrow> RichContent list" where
  "richText i t language = (if trim t = [] then [] else [Code_content i t language])"

definition toolTarget :: "string \<Rightarrow> fields \<Rightarrow> string option" where
  "toolTarget tool' args =
     (case concat (map (\<lambda>key. case asString (map_of args key) of Some s \<Rightarrow> if trim s = [] then [] else [trim s] | None \<Rightarrow> [])
         [''path'', ''file_path'', ''url'', ''query'', ''command'', ''name'']) of
        t # _ \<Rightarrow> Some t
      | [] \<Rightarrow>
          (case asArray (map_of args ''tasks'') of
             Some tasks \<Rightarrow> if tool' = ''task'' then Some (printInt (int (length tasks)) @ '' side agents'') else None
           | None \<Rightarrow> None))"

section \<open>Questions\<close>

definition plainQuestion :: "string \<Rightarrow> string \<Rightarrow> AskQuestion" where
  "plainQuestion i p = \<lparr>questionId = i, prompt = p, header = None, options = None, multiple = False, recommended = None,
     neverWritten = False, skippable = False, answer = None\<rparr>"

definition plainOption :: "string \<Rightarrow> AskOption" where
  "plainOption t = \<lparr>optionId = t, optionTitle = t, optionDescription = None, optionPreview = None\<rparr>"

definition planQuestions :: "string \<Rightarrow> AskQuestion list" where
  "planQuestions plan =
     [(plainQuestion ''decision'' plan)\<lparr>neverWritten := True, options := Some
        [(plainOption ''Approve'')\<lparr>optionDescription := Some ''The workspace moves to Code and the agent implements the plan.''\<rparr>,
         (plainOption ''Reject'')\<lparr>optionDescription := Some ''The workspace stays in Plan and the agent revises it.''\<rparr>]\<rparr>,
      (plainQuestion ''note'' ''Anything to add?'')\<lparr>skippable := True\<rparr>]"

definition strings :: "json option \<Rightarrow> string list" where
  "strings v = (case asArray v of Some xs \<Rightarrow> concat (map (\<lambda>x. case asString (Some x) of Some s \<Rightarrow> [s] | None \<Rightarrow> []) xs) | None \<Rightarrow> [])"

definition askOption :: "json \<Rightarrow> AskOption list" where
  "askOption raw =
     (case asString (Some raw) of
        Some s \<Rightarrow> [plainOption s]
      | None \<Rightarrow>
          (let option' = asRecord (Some raw) in
           case asString (fieldOf option' ''label'') of
             None \<Rightarrow> []
           | Some label \<Rightarrow>
               [\<lparr>optionId = label, optionTitle = label, optionDescription = asString (fieldOf option' ''description''),
                 optionPreview = asString (fieldOf option' ''preview'')\<rparr>]))"

definition unlessNil :: "'a list \<Rightarrow> 'a list option" where
  "unlessNil xs = (if xs = [] then None else Some xs)"

definition askQuestion :: "nat \<Rightarrow> json \<Rightarrow> AskQuestion list" where
  "askQuestion index raw =
     (let question = asRecord (Some raw) in
      case asString (fieldOf question ''question'') of
        None \<Rightarrow> []
      | Some p \<Rightarrow>
          [(plainQuestion (case asString (fieldOf question ''id'') of Some i \<Rightarrow> i | None \<Rightarrow> ''question-'' @ printInt (int index + 1)) p)
            \<lparr>header := asString (fieldOf question ''header''),
             options := Option.bind (asArray (fieldOf question ''options'')) (\<lambda>os. unlessNil (concat (map askOption os))),
             multiple := (fieldOf question ''multi'' = Some (JBool True)),
             recommended := asNumber (fieldOf question ''recommended'')\<rparr>])"

definition askQuestions :: "fields \<Rightarrow> AskQuestion list" where
  "askQuestions args =
     (case asString (map_of args ''prompt'') of
        Some p \<Rightarrow> [(plainQuestion ''question-1'' p)\<lparr>options := unlessNil (map plainOption (strings (map_of args ''choices'')))\<rparr>]
      | None \<Rightarrow>
          (case asArray (map_of args ''questions'') of
             None \<Rightarrow> []
           | Some qs \<Rightarrow> concat (map (\<lambda>(index, raw). askQuestion index raw) (zip [0..<length qs] qs))))"

fun changeFirst :: "('a \<Rightarrow> bool) \<Rightarrow> ('a \<Rightarrow> 'a) \<Rightarrow> 'a list \<Rightarrow> 'a list" where
  "changeFirst P f [] = []"
| "changeFirst P f (x # xs) = (if P x then f x # xs else x # changeFirst P f xs)"

definition applyAnswer :: "json \<Rightarrow> AskQuestion list \<Rightarrow> AskQuestion list" where
  "applyAnswer raw qs =
     (case asRecord (Some raw) of
        None \<Rightarrow> qs
      | Some result \<Rightarrow>
          (let custom = (case asString (map_of result ''customInput'') of Some s \<Rightarrow> if trim s = [] then [] else [trim s] | None \<Rightarrow> []);
             given = strings (map_of result ''selectedOptions'') @ custom;
             answered = (\<lambda>q. case given of
                 [a] \<Rightarrow> q\<lparr>answer := Some (if multiple q then Answers [a] else One_answer a)\<rparr>
               | [] \<Rightarrow> q
               | _ \<Rightarrow> q\<lparr>answer := Some (Answers given)\<rparr>) in
           case asString (map_of result ''id'') of
             Some i \<Rightarrow> changeFirst (\<lambda>q. questionId q = i) answered qs
           | None \<Rightarrow>
               (case asString (map_of result ''question'') of
                  Some p \<Rightarrow> changeFirst (\<lambda>q. prompt q = p) answered qs
                | None \<Rightarrow> if length qs = 1 then map answered qs else qs)))"

definition applyAskAnswers :: "json option \<Rightarrow> AskQuestion list \<Rightarrow> AskQuestion list" where
  "applyAskAnswers details qs =
     (case asRecord details of
        None \<Rightarrow> qs
      | Some root \<Rightarrow>
          foldl (\<lambda>qs raw. applyAnswer raw qs) qs
            (case asArray (map_of root ''results'') of Some results \<Rightarrow> results | None \<Rightarrow> [JObject root]))"

section \<open>Provider errors\<close>

definition nextStep :: "int \<Rightarrow> string \<Rightarrow> string \<Rightarrow> string" where
  "nextStep status type' message =
     (let names = (\<lambda>t. contains (literally t) type') in
      if status = 401 \<or> status = 403 \<or> names ''authentication'' \<or> names ''permission''
      then ''Sign in to this provider again under Inference '' @ ''->'' @ '' Providers.''
      else if contains (ignoringCase ''fast mode'') message
      then ''Turn off Fast mode in the agent controls, or add usage credits to the account.''
      else if status = 429 \<or> names ''rate_limit'' \<or> names ''quota''
      then ''Wait for the limit to reset, or choose another model or account.''
      else if status = 404 \<or> names ''not_found'' then ''This account cannot use the model; choose another model.''
      else if status = 529 \<or> 500 \<le> status \<or> names ''overloaded'' \<or> names ''api_error'' \<or> names ''server''
      then ''The provider is failing or overloaded; send the message again shortly.''
      else [])"

definition optionalText :: "json option \<Rightarrow> bool" where
  "optionalText v \<longleftrightarrow> v = None \<or> asString v \<noteq> None"

text \<open>\<open>ProviderErrorBodySchema\<close>\<close>

definition providerErrorBody :: "fields \<Rightarrow> bool" where
  "providerErrorBody fs \<longleftrightarrow>
     optionalText (map_of fs ''message'') \<and> optionalText (map_of fs ''detail'')
     \<and> (case map_of fs ''error'' of
          None \<Rightarrow> True
        | Some (JString s) \<Rightarrow> True
        | Some (JObject e) \<Rightarrow>
            optionalText (map_of e ''type'') \<and> optionalText (map_of e ''message'')
            \<and> (optionalText (map_of e ''code'') \<or> map_of e ''code'' = Some JNull)
        | Some _ \<Rightarrow> False)"

definition textOr :: "string \<Rightarrow> json option \<Rightarrow> string" where
  "textOr d v = (case asString v of Some s \<Rightarrow> s | None \<Rightarrow> d)"

definition providerErrorText :: "(string \<Rightarrow> json option) \<Rightarrow> string \<Rightarrow> string" where
  "providerErrorText parse raw =
     (let s = trim raw; status = take 3 s; body' = dropWhile isSpace (drop 3 s) in
      if \<not> (length status = 3 \<and> list_all isNumeral status \<and> drop 3 s \<noteq> [] \<and> isSpace (hd (drop 3 s))
        \<and> 2 \<le> length body' \<and> hd body' = CHR ''{'' \<and> List.last body' = CHR ''}'') then raw
      else case Option.bind (parse body') (\<lambda>v. asRecord (Some v)) of
        None \<Rightarrow> raw
      | Some fs \<Rightarrow>
          if \<not> providerErrorBody fs then raw
          else (let code = int (parseRadix 10 status);
              error = (case map_of fs ''error'' of Some (JString m) \<Rightarrow> [(''message'', JString m)] | v \<Rightarrow> (case asRecord v of Some e \<Rightarrow> e | None \<Rightarrow> []));
              message = trim (textOr (textOr (textOr [] (map_of fs ''detail'')) (map_of fs ''message'')) (map_of error ''message''));
              type' = (case asRecord (map_of fs ''error'') of
                  Some e \<Rightarrow> textOr [] (map_of e ''type'') @ '' '' @ textOr [] (map_of e ''code'')
                | None \<Rightarrow> '' '');
              sentence = (if message \<noteq> [] then (if List.last message \<in> set ''.!?'' then message else message @ ''.'')
                else ''The provider refused the request (HTTP '' @ printInt code @ '').'');
              step' = nextStep code type' message in
            if step' \<noteq> [] then sentence @ '' '' @ step' else sentence))"

section \<open>Reports\<close>

definition WORKSPACE_REPORT_ENTRY :: string where "WORKSPACE_REPORT_ENTRY = ''gitspace.workspace''"

text \<open>\<open>workspaceTurnReportSchema.safeParse\<close>\<close>

definition workspaceTurnReport :: "json option \<Rightarrow> WorkspaceTurnReport option" where
  "workspaceTurnReport v =
     Option.bind (asRecord v) (\<lambda>fs.
       case (asString (map_of fs ''projectId''), asString (map_of fs ''workspaceId''), asString (map_of fs ''name''),
             asString (map_of fs ''requestId''), asString (map_of fs ''outcome''), map_of fs ''excerpt'') of
         (Some p, Some w, Some n, Some r, Some outcome, Some e) \<Rightarrow>
           if p \<noteq> [] \<and> w \<noteq> [] \<and> r \<noteq> [] \<and> outcome \<in> set [''finished'', ''failed'', ''asked'', ''approval'']
             \<and> (e = JNull \<or> asString (Some e) \<noteq> None)
           then Some \<lparr>reportProject = p, reportWorkspace = w, reportName = n, reportRequest = r, reportOutcome = outcome,
             reportExcerpt = asString (Some e)\<rparr>
           else None
       | _ \<Rightarrow> None)"

end
