(* ===== verification/Transcript_Projection.thy ===== *)
theory Transcript_Projection
  imports Transcript_Items
begin

text \<open>
  \<open>TranscriptProjector\<close> and \<open>collectTranscriptProjection\<close> of \<open>blocks/src/reducer.ts\<close>: the events of a
  session, in order, are projected to the turns people read. The projector keeps the current turn
  with its counters and the current message; the store keeps every item, here the maps of
  \<open>collectTranscriptProjection\<close>. Where the code would throw, \<open>raised\<close> is set.
\<close>

section \<open>The store\<close>

datatype TurnStatus = Turn_running | Turn_done | Turn_error

text \<open>A \<open>Date\<close> holds an instant or is invalid; of an invalid one \<open>toISOString\<close> throws.\<close>

datatype created = At_date "int option" | At_text string

fun timestamp :: "created option \<Rightarrow> string option" where
  "timestamp (Some (At_date (Some ms))) = Some (isoText ms)"
| "timestamp (Some (At_date None)) = None"
| "timestamp (Some (At_text s)) = Some s"
| "timestamp None = None"

record TranscriptEventInput =
  eventSession :: string
  ordinal :: int
  eventKind :: string
  payload :: fields
  createdAt :: "created option"

record TurnHead =
  turnStatus :: TurnStatus
  turnStarted :: "string option"
  turnEnded :: "string option"

record store =
  turns :: "(string \<times> TurnHead) list"
  items :: "(string \<times> string \<times> TranscriptItem) list"
  memberships :: "(string \<times> (string \<times> bool) list) list"
  hidden :: "string list"
  runs :: "(string \<times> string) list"
  rowExecutions :: "(string \<times> string list) list"

definition emptyStore :: store where
  "emptyStore = \<lparr>turns = [], items = [], memberships = [], hidden = [], runs = [], rowExecutions = []\<rparr>"

definition readItem :: "store \<Rightarrow> string \<Rightarrow> TranscriptItem option" where
  "readItem st i = map_option snd (map_of (items st) i)"

definition ownerOf :: "store \<Rightarrow> string \<Rightarrow> string option" where
  "ownerOf st i = map_option fst (map_of (items st) i)"

definition storeItem :: "string \<Rightarrow> TranscriptItem \<Rightarrow> store \<Rightarrow> store" where
  "storeItem turn item st =
     st\<lparr>items := AList.update (itemId item) (case ownerOf st (itemId item) of Some t \<Rightarrow> t | None \<Rightarrow> turn, item) (items st)\<rparr>"

text \<open>A user's message ends the turn before it, as the markers of a turn do.\<close>

definition closesTurn :: "TranscriptEventInput \<Rightarrow> bool" where
  "closesTurn event \<longleftrightarrow>
     eventKind event \<in> set [''turn_start'', ''turn_end'', ''agent_end'']
     \<or> eventKind event = ''message_end'' \<and> isText ''user'' (fieldOf (asRecord (map_of (payload event) ''message'')) ''role'')"

definition storeTurn :: "TranscriptEventInput option \<Rightarrow> string \<Rightarrow> TurnStatus \<Rightarrow> store \<Rightarrow> store" where
  "storeTurn event i status st =
     (let known = (case map_of (turns st) i of
          Some t \<Rightarrow> t
        | None \<Rightarrow> \<lparr>turnStatus = status, turnStarted = timestamp (Option.bind event createdAt), turnEnded = None\<rparr>);
        ended = (case event of
            Some e \<Rightarrow> if status = Turn_done \<and> closesTurn e then timestamp (createdAt e) else turnEnded known
          | None \<Rightarrow> turnEnded known) in
      st\<lparr>turns := AList.update i (known\<lparr>turnStatus := status, turnEnded := ended\<rparr>) (turns st)\<rparr>)"

definition executionRun :: "store \<Rightarrow> string \<Rightarrow> string \<Rightarrow> string option" where
  "executionRun st identity row =
     (case List.find (\<lambda>x. x = identity \<or> startsWithText x (identity @ '':run:''))
         (case map_of (rowExecutions st) row of Some xs \<Rightarrow> xs | None \<Rightarrow> []) of
        Some x \<Rightarrow> Some x
      | None \<Rightarrow> map_of (runs st) identity)"

definition bindExecutionRun :: "string \<Rightarrow> string \<Rightarrow> store \<Rightarrow> store" where
  "bindExecutionRun identity execution st = st\<lparr>runs := AList.update identity execution (runs st)\<rparr>"

definition linkExecution :: "string \<Rightarrow> string \<Rightarrow> bool \<Rightarrow> store \<Rightarrow> bool \<times> store" where
  "linkExecution execution row hide st =
     (let members = (case map_of (memberships st) execution of Some m \<Rightarrow> m | None \<Rightarrow> []);
        rows = (case map_of (rowExecutions st) row of Some xs \<Rightarrow> xs | None \<Rightarrow> []) in
      (map_of members row = None,
       st\<lparr>memberships := AList.update execution (AList.update row (hide \<or> map_of members row = Some True) members) (memberships st),
          rowExecutions := AList.update row (if execution \<in> set rows then rows else rows @ [execution]) (rowExecutions st),
          hidden := (if hide \<and> row \<notin> set (hidden st) then hidden st @ [row] else hidden st)\<rparr>))"

section \<open>The projector\<close>

record ProjectionTurn =
  turnId :: string
  hasContent :: bool
  pending :: int
  turnFailed :: bool

datatype part = Message_part | Thinking_part

record ProjectionMessage =
  messageOrdinal :: int
  parts :: "(nat \<times> part) list"

record projector =
  current :: "ProjectionTurn option"
  message :: "ProjectionMessage option"
  store :: store
  raised :: bool

definition newProjector :: projector where
  "newProjector = \<lparr>current = None, message = None, store = emptyStore, raised = False\<rparr>"

text \<open>Where \<open>timestamp\<close> is called on the time of an event.\<close>

definition invalidDate :: "TranscriptEventInput \<Rightarrow> bool" where
  "invalidDate event \<longleftrightarrow> createdAt event = Some (At_date None)"

definition stamped :: "TranscriptEventInput \<Rightarrow> projector \<Rightarrow> projector" where
  "stamped event p = p\<lparr>raised := raised p \<or> invalidDate event\<rparr>"

definition putTurn :: "TranscriptEventInput \<Rightarrow> string \<Rightarrow> TurnStatus \<Rightarrow> projector \<Rightarrow> projector" where
  "putTurn event i status p =
     (let p' = p\<lparr>store := storeTurn (Some event) i status (store p)\<rparr> in
      if map_of (turns (store p)) i = None \<or> status = Turn_done \<and> closesTurn event then stamped event p' else p')"

definition ensureTurn :: "string \<Rightarrow> TranscriptEventInput \<Rightarrow> projector \<Rightarrow> projector" where
  "ensureTurn session' event p =
     (case current p of
        Some t \<Rightarrow> p
      | None \<Rightarrow>
          (let i = session' @ '':turn:'' @ printInt (ordinal event) in
           putTurn event i Turn_running
             (p\<lparr>current := Some \<lparr>turnId = i, hasContent = False, pending = 0, turnFailed = False\<rparr>\<rparr>)))"

definition commitTurn :: "TranscriptEventInput \<Rightarrow> TurnStatus \<Rightarrow> projector \<Rightarrow> projector" where
  "commitTurn event status p =
     (case current p of
        Some t \<Rightarrow> (putTurn event (turnId t) status p)\<lparr>current := None, message := None\<rparr>
      | None \<Rightarrow> p\<lparr>message := None\<rparr>)"

text \<open>\<open>#write\<close>, with what the caller read before.\<close>

definition writeOver :: "TranscriptItem \<Rightarrow> TranscriptItem option \<Rightarrow> projector \<Rightarrow> projector" where
  "writeOver item previous p =
     (case current p of
        None \<Rightarrow> p\<lparr>raised := True\<rparr>
      | Some turn \<Rightarrow>
          (let counted = (previous = None \<or> ownerOf (store p) (itemId item) = Some (turnId turn));
             turn' = turn\<lparr>pending := pending turn + (if counted then pendingItem (Some item) - pendingItem previous else 0),
               hasContent := (hasContent turn \<or> (case item of Side_item s \<Rightarrow> False | _ \<Rightarrow> True))\<rparr> in
           p\<lparr>current := Some turn', store := storeItem (turnId turn) item (store p)\<rparr>))"

definition writeItem :: "TranscriptItem \<Rightarrow> projector \<Rightarrow> projector" where
  "writeItem item p = writeOver item (readItem (store p) (itemId item)) p"

definition turnIdOf :: "projector \<Rightarrow> string" where
  "turnIdOf p = (case current p of Some t \<Rightarrow> turnId t | None \<Rightarrow> [])"

definition executionAt :: "store \<Rightarrow> string \<Rightarrow> ExecutionBlock option" where
  "executionAt st i = (case readItem st i of Some (Execution_item e) \<Rightarrow> Some e | _ \<Rightarrow> None)"

text \<open>
  A job's runtime id is used again after eviction or a restart, so an observation of a job names its
  run, or joins the one that is bound. \<open>None\<close> drops it.
\<close>

definition correlate :: "store \<Rightarrow> string \<Rightarrow> ExecutionObservation \<Rightarrow> string option" where
  "correlate st source x =
     (let identity = obsId x;
        bound = executionRun st identity source;
        origin = identity @ '':run:'' @ encodeURIComponent source;
        exact = map_option (\<lambda>t. identity @ '':run:'' @ encodeURIComponent t) (unlessEmpty (runStartedAt x)) in
      if obsKind x \<noteq> Is_job then Some identity
      else if \<not> launch x \<and> exact = None
        \<and> (case Option.bind (unlessEmpty bound) (executionAt st) of
             Some e \<Rightarrow> executionSettled (cardStatus e) \<and> \<not> executionSettled (obsStatus x) | None \<Rightarrow> False)
      then None
      else Some (if launch x then (if executionAt st origin \<noteq> None then origin else case exact of Some e \<Rightarrow> e | None \<Rightarrow> origin)
        else case exact of
            Some e \<Rightarrow> e
          | None \<Rightarrow> (case bound of Some b \<Rightarrow> b | None \<Rightarrow> identity @ '':run:observed:'' @ encodeURIComponent source)))"

definition correlateOne ::
    "string \<Rightarrow> store \<times> ExecutionObservation list \<times> bool \<Rightarrow> ExecutionObservation \<Rightarrow> store \<times> ExecutionObservation list \<times> bool" where
  "correlateOne source = (\<lambda>(st, kept, represented) x.
     case correlate st source x of
       None \<Rightarrow> (st, kept, False)
     | Some i \<Rightarrow>
         (if obsKind x = Is_job \<and> readItem st i = None then bindExecutionRun (obsId x) i st else st,
          kept @ [x\<lparr>obsId := i\<rparr>], represented))"

definition writeExecution :: "string \<Rightarrow> bool \<Rightarrow> projector \<Rightarrow> ExecutionObservation \<Rightarrow> projector" where
  "writeExecution source hide p x =
     (let previous = readItem (store p) (obsId x);
        (inserted, st) = linkExecution (obsId x) source hide (store p) in
      writeOver (Execution_item (mergeExecution (executionAt (store p) (obsId x)) x inserted)) previous (p\<lparr>store := st\<rparr>))"

text \<open>Live agents of the registry that no job backs.\<close>

definition sideAgentOf :: "string \<Rightarrow> fields \<Rightarrow> string \<Rightarrow> SideAgentBlock" where
  "sideAgentOf session' agent i =
     \<lparr>sideId = session' @ '':side-agent:'' @ encodeURIComponent i, sideAgent = i,
      sideQueued = (map_of agent ''live'' = Some (JBool False)),
      sideSummary = map_option (take 600) (asString (map_of agent ''activity''))\<rparr>"

definition writeSideAgent :: "string \<Rightarrow> projector \<Rightarrow> json \<Rightarrow> projector" where
  "writeSideAgent session' p value' =
     (case asRecord (Some value') of
        None \<Rightarrow> p
      | Some agent \<Rightarrow>
          (case asString (map_of agent ''id'') of
             None \<Rightarrow> p
           | Some i \<Rightarrow>
               if executionAt (store p) (executionIdentity session' ''agent'' [i]) \<noteq> None then p
               else writeItem (Side_item (sideAgentOf session' agent i)) p))"

definition projectExecutions :: "library \<Rightarrow> string \<Rightarrow> ToolCallBlock \<Rightarrow> bool \<Rightarrow> string option \<Rightarrow> projector \<Rightarrow> projector" where
  "projectExecutions lib session' source final custom p =
     (let (observations, represented) = extractExecutions lib
          \<lparr>inSession = session', inTool = tool source, inArgs = toolArgs source, inDetails = toolDetails source,
           inCustom = custom, inObserved = toolEnded source, inError = (toolStatus source = Tool_error)\<rparr>;
        (st, kept, represented') = foldl (correlateOne (toolBlock source)) (store p, [], represented) observations;
        p1 = foldl (writeExecution (toolBlock source) (final \<and> represented')) (p\<lparr>store := st\<rparr>) kept in
      if tool source = ''hub''
      then (case asArray (fieldOf (asRecord (toolDetails source)) ''agents'') of
          Some agents \<Rightarrow> foldl (writeSideAgent session') p1 agents
        | None \<Rightarrow> p1)
      else p1)"


section \<open>Tools and questions\<close>

definition toolKey :: "string \<Rightarrow> string \<Rightarrow> string" where
  "toolKey session' call = session' @ '':tool:'' @ call"

definition askKey :: "string \<Rightarrow> string \<Rightarrow> string" where
  "askKey session' call = session' @ '':ask:'' @ call"

definition findTool :: "string \<Rightarrow> string \<Rightarrow> projector \<Rightarrow> ToolCallBlock option" where
  "findTool session' call p = (case readItem (store p) (toolKey session' call) of Some (Tool_item t) \<Rightarrow> Some t | _ \<Rightarrow> None)"

definition findAsk :: "string \<Rightarrow> string \<Rightarrow> projector \<Rightarrow> AskBlock option" where
  "findAsk session' call p = (case readItem (store p) (askKey session' call) of Some (Ask_item a) \<Rightarrow> Some a | _ \<Rightarrow> None)"

definition startTool :: "string \<Rightarrow> string \<Rightarrow> string \<Rightarrow> fields \<Rightarrow> string option \<Rightarrow> bool \<Rightarrow> projector \<Rightarrow> projector" where
  "startTool session' call name args began includeInput p =
     (if name = ''ask'' \<or> name = ''propose_plan''
      then (case findAsk session' call p of
          Some _ \<Rightarrow> p
        | None \<Rightarrow>
            writeItem (Ask_item \<lparr>askId = askKey session' call, isPlan = (name = ''propose_plan''), askCall = call, askStatus = Ask_pending,
              questions = (if name = ''propose_plan'' then planQuestions (textOr [] (map_of args ''prompt'')) else askQuestions args)\<rparr>) p)
      else (case findTool session' call p of
          Some _ \<Rightarrow> p
        | None \<Rightarrow>
            writeItem (Tool_item \<lparr>toolBlock = toolKey session' call, toolCall = call, tool = name, target = toolTarget name args,
              toolStatus = Tool_running, toolStarted = unlessEmpty began, toolEnded = None,
              toolInput = (if includeInput
                then map_option (\<lambda>c. richText (toolKey session' call @ '':input'') c (Some ''bash'')) (asString (map_of args ''command'')) else None),
              toolResult = None, toolArgs = Some (JObject args), toolDetails = None\<rparr>) p))"

text \<open>\<open>None\<close> where the call is not a question.\<close>

definition answerAsk :: "string \<Rightarrow> string \<Rightarrow> bool \<Rightarrow> json option \<Rightarrow> projector \<Rightarrow> projector option" where
  "answerAsk session' call isError details p =
     (case findAsk session' call p of
        None \<Rightarrow> None
      | Some previous \<Rightarrow>
          Some (writeOver
            (Ask_item (previous\<lparr>askStatus := (if isError then Ask_dismissed else Ask_answered),
              questions := applyAskAnswers details (questions previous)\<rparr>))
            (Some (Ask_item previous)) p))"

definition finishTool :: "library \<Rightarrow> string \<Rightarrow> ToolCallBlock \<Rightarrow> ToolCallBlock \<Rightarrow> bool \<Rightarrow> projector \<Rightarrow> projector" where
  "finishTool lib session' completed previous final p =
     projectExecutions lib session' completed final None (writeOver (Tool_item completed) (Some (Tool_item previous)) p)"

definition resultContent :: "ToolCallBlock \<Rightarrow> string \<Rightarrow> json option \<Rightarrow> RichContent list option" where
  "resultContent t text' content =
     Some (richText (toolBlock t @ '':result'') text' None @ richImages (toolBlock t @ '':result:image'') content)"

section \<open>Messages\<close>

definition messageKey :: "string \<Rightarrow> int \<Rightarrow> nat \<Rightarrow> string" where
  "messageKey turn n index = turn @ '':message:'' @ printInt n @ '':'' @ printInt (int index)"

definition thinkingKey :: "string \<Rightarrow> int \<Rightarrow> nat \<Rightarrow> string" where
  "thinkingKey turn n index = turn @ '':thinking:'' @ printInt n @ '':'' @ printInt (int index)"

definition assistantMessage :: "string \<Rightarrow> string \<Rightarrow> bool option \<Rightarrow> TranscriptItem" where
  "assistantMessage i t pending' =
     Message_item \<lparr>messageId = i, fromUser = False, messageText = t, images = [], messagePending = pending'\<rparr>"

definition isMessage :: "TranscriptItem option \<Rightarrow> bool" where
  "isMessage item \<longleftrightarrow> (case item of Some (Message_item m) \<Rightarrow> True | _ \<Rightarrow> False)"

definition isThinking :: "TranscriptItem option \<Rightarrow> bool" where
  "isThinking item \<longleftrightarrow> (case item of Some (Thinking_item i t) \<Rightarrow> True | _ \<Rightarrow> False)"

definition notePart :: "nat \<Rightarrow> part \<Rightarrow> projector \<Rightarrow> projector" where
  "notePart index part p = p\<lparr>message := map_option (\<lambda>m. m\<lparr>parts := AList.update index part (parts m)\<rparr>) (message p)\<rparr>"

definition writeText :: "string \<Rightarrow> int \<Rightarrow> bool \<Rightarrow> nat \<Rightarrow> string \<Rightarrow> projector \<Rightarrow> projector" where
  "writeText turn n final index t p =
     (let i = messageKey turn n index;
        previous = readItem (store p) i in
      if isMessage previous \<or> (if final then trim t else t) \<noteq> []
      then notePart index Message_part
        (writeOver (assistantMessage i t (if \<not> final then Some True else if isMessage previous then Some False else None)) previous p)
      else p)"

definition writeThinking :: "string \<Rightarrow> int \<Rightarrow> bool \<Rightarrow> nat \<Rightarrow> string \<Rightarrow> projector \<Rightarrow> projector" where
  "writeThinking turn n final index t p =
     (let i = thinkingKey turn n index;
        previous = readItem (store p) i in
      if isThinking previous \<or> (if final then trim t else t) \<noteq> []
      then notePart index Thinking_part (writeOver (Thinking_item i t) previous p)
      else p)"

definition assistantPart :: "string \<Rightarrow> string \<Rightarrow> int \<Rightarrow> bool \<Rightarrow> projector \<Rightarrow> nat \<times> json \<Rightarrow> projector" where
  "assistantPart session' turn n final = (\<lambda>p (index, raw).
     let part = asRecord (Some raw);
       get = fieldOf part in
     case asString (get ''type'') of
       None \<Rightarrow> p
     | Some kind \<Rightarrow>
         (case (asString (get ''text''), asString (get ''thinking''), asString (get ''id''), asString (get ''name'')) of
            (t, th, call, name) \<Rightarrow>
              if kind = ''text'' \<and> t \<noteq> None then writeText turn n final index (the t) p
              else if kind = ''thinking'' \<and> th \<noteq> None then writeThinking turn n final index (the th) p
              else if final \<and> kind = ''toolCall'' \<and> call \<noteq> None \<and> name \<noteq> None
              then startTool session' (the call) (the name) (case asRecord (get ''arguments'') of Some a \<Rightarrow> a | None \<Rightarrow> []) None True p
              else p))"

definition settlePart :: "string \<Rightarrow> int \<Rightarrow> projector \<Rightarrow> nat \<times> part \<Rightarrow> projector" where
  "settlePart turn n = (\<lambda>p (index, part).
     case readItem (store p) (messageKey turn n index) of
       Some (Message_item m) \<Rightarrow>
         if part = Message_part \<and> messagePending m = Some True
         then writeOver (Message_item (m\<lparr>messagePending := Some False\<rparr>)) (Some (Message_item m)) p else p
     | _ \<Rightarrow> p)"

definition finishMessage :: "projector \<Rightarrow> projector" where
  "finishMessage p =
     (case (message p, current p) of
        (Some m, Some t) \<Rightarrow> (foldl (settlePart (turnId t) (messageOrdinal m)) p (parts m))\<lparr>message := None\<rparr>
      | _ \<Rightarrow> p)"

definition assistantParts :: "string \<Rightarrow> TranscriptEventInput \<Rightarrow> json list \<Rightarrow> bool \<Rightarrow> projector \<Rightarrow> projector" where
  "assistantParts session' event content final p =
     (let p1 = ensureTurn session' event p;
        m = (case message p1 of Some m \<Rightarrow> m | None \<Rightarrow> \<lparr>messageOrdinal = ordinal event, parts = []\<rparr>);
        p2 = foldl (assistantPart session' (turnIdOf p1) (messageOrdinal m) final) (p1\<lparr>message := Some m\<rparr>)
          (zip [0..<length content] content) in
      if final then finishMessage p2 else p2)"

section \<open>Events\<close>

definition isTrue :: "json option \<Rightarrow> bool" where
  "isTrue v \<longleftrightarrow> v = Some (JBool True)"

definition interruption :: "string \<Rightarrow> InterruptionReason \<Rightarrow> string \<Rightarrow> string option \<Rightarrow> string option \<Rightarrow> bool \<Rightarrow> TranscriptItem" where
  "interruption i r t d b rec' =
     Interruption_item \<lparr>interruptionId = i, reason = r, title = t, detail = d, body = b, recovered = rec'\<rparr>"

text \<open>\<open>text.split('\n').slice(0, 2).join('\n').slice(0, 240)\<close>\<close>

definition noteDetail :: "string \<Rightarrow> string" where
  "noteDetail t = take 240 (joinWith [newline] (take 2 (splitOn newline t)))"

definition writeNote :: "TranscriptEventInput \<Rightarrow> projector \<Rightarrow> nat \<times> ConversationEventNote \<Rightarrow> projector" where
  "writeNote event = (\<lambda>p (index, note).
     if noteKind note = ''workspace'' then p
     else (let d = noteDetail (noteText note) in
       writeItem (interruption (turnIdOf p @ '':event:'' @ printInt (ordinal event) @ '':'' @ printInt (int index)) Event_note (noteSource note)
         (Some d) (if length d < length (noteText note) then Some (noteText note) else None) False) p))"

definition userMessage :: "string \<Rightarrow> TranscriptEventInput \<Rightarrow> fields \<Rightarrow> projector \<Rightarrow> projector" where
  "userMessage session' event m p =
     (let text' = contentText (map_of m ''content'');
        found = contentImages (map_of m ''content'');
        opened = ensureTurn session' event
          (if pred_option hasContent (current p) \<and> current p \<noteq> None then commitTurn event Turn_done p else p) in
      if text' = [] \<and> found = [] then p
      else case (if found = [] then parseConversationEvents text' else None) of
          Some notes \<Rightarrow> foldl (writeNote event) opened (zip [0..<length notes] notes)
        | None \<Rightarrow>
            writeItem (Message_item \<lparr>messageId = turnIdOf opened @ '':user'', fromUser = True, messageText = text', images = found,
              messagePending = None\<rparr>) opened)"

definition customRow :: "library \<Rightarrow> string \<Rightarrow> TranscriptEventInput \<Rightarrow> fields \<Rightarrow> projector \<Rightarrow> projector" where
  "customRow lib session' event m p =
     (let i = turnIdOf p @ '':custom:'' @ printInt (ordinal event);
        source = \<lparr>toolBlock = i, toolCall = i, tool = textOr ''custom'' (map_of m ''customType''), target = None, toolStatus = Tool_done,
          toolStarted = None, toolEnded = timestamp (createdAt event), toolInput = None,
          toolResult = Some (richText (i @ '':result'') (contentText (map_of m ''content'')) None @ richImages (i @ '':image'') (map_of m ''content'')),
          toolArgs = None, toolDetails = map_of m ''details''\<rparr> in
      projectExecutions lib session' source True (Some (tool source)) (writeItem (Tool_item source) (stamped event p)))"

definition customMessage :: "library \<Rightarrow> string \<Rightarrow> TranscriptEventInput \<Rightarrow> fields \<Rightarrow> projector \<Rightarrow> projector" where
  "customMessage lib session' event m p =
     (let custom = map_of m ''customType'';
        shown = isTrue (map_of m ''display'');
        key = (\<lambda>name. turnIdOf p @ name @ printInt (ordinal event)) in
      if isText ''gitspace.machine-notice'' custom \<and> shown
      then writeItem (interruption (key '':machine:'') Machine_notice (textOr ''Machine'' (map_of m ''title''))
        (Some (contentText (map_of m ''content''))) None False) p
      else if isText WORKSPACE_REPORT_ENTRY custom \<and> shown
      then (case workspaceTurnReport (map_of m ''details'') of
          Some report \<Rightarrow> writeItem (Report_item (key '':workspace:'') report) p
        | None \<Rightarrow> p)
      else if isText ''gitspace-instructions-changed'' custom \<and> shown
      then writeItem (interruption (key '':instructions:'') Rule_changed ''Workspace instructions changed''
        (Some (contentText (map_of m ''content''))) None True) p
      else if shown \<or> isText ''async-result'' custom \<or> isText ''launch-completion'' custom
      then customRow lib session' event m p
      else p)"

definition toolResultMessage :: "library \<Rightarrow> string \<Rightarrow> TranscriptEventInput \<Rightarrow> string \<Rightarrow> fields \<Rightarrow> projector \<Rightarrow> projector" where
  "toolResultMessage lib session' event call m p =
     (case answerAsk session' call (isTrue (map_of m ''isError'')) (map_of m ''details'') p of
        Some p' \<Rightarrow> p'
      | None \<Rightarrow>
          (case findTool session' call p of
             None \<Rightarrow> p
           | Some t \<Rightarrow>
               finishTool lib session'
                 (t\<lparr>toolStatus := (if isTrue (map_of m ''isError'') then Tool_error else Tool_done), toolEnded := timestamp (createdAt event),
                    toolDetails := nullish (map_of m ''details'') (toolDetails t),
                    toolResult := resultContent t (contentText (map_of m ''content'')) (map_of m ''content'')\<rparr>) t True (stamped event p)))"

definition messageEnd :: "library \<Rightarrow> string \<Rightarrow> TranscriptEventInput \<Rightarrow> projector \<Rightarrow> projector" where
  "messageEnd lib session' event p =
     (case asRecord (map_of (payload event) ''message'') of
        None \<Rightarrow> p
      | Some m \<Rightarrow>
          (case asString (map_of m ''role'') of
             None \<Rightarrow> p
           | Some role \<Rightarrow>
               if role = ''system'' then p
               else if role = ''user'' then userMessage session' event m p
               else (let p1 = ensureTurn session' event p in
                 if role = ''custom'' then customMessage lib session' event m p1
                 else if role = ''assistant''
                 then (case map_of m ''content'' of
                     Some (JArray content) \<Rightarrow> assistantParts session' event content True p1
                   | Some (JString t) \<Rightarrow>
                       assistantParts session' event [JObject [(''type'', JString ''text''), (''text'', JString t)]] True p1
                   | _ \<Rightarrow> finishMessage p1)
                 else (case (role = ''toolResult'', asString (map_of m ''toolCallId'')) of
                     (True, Some call) \<Rightarrow> toolResultMessage lib session' event call m p1
                   | _ \<Rightarrow> p1))))"


definition partialText :: "json option \<Rightarrow> string" where
  "partialText partial =
     (let content = fieldOf (asRecord partial) ''content'' in
      case partial of
        None \<Rightarrow> []
      | Some (JString t) \<Rightarrow> t
      | Some v \<Rightarrow> if content \<noteq> None then contentText content else pretty 0 v)"

definition executionUpdate :: "library \<Rightarrow> string \<Rightarrow> TranscriptEventInput \<Rightarrow> projector \<Rightarrow> projector" where
  "executionUpdate lib session' event p =
     (let partial = map_of (payload event) ''partialResult''; result = asRecord partial in
      case findTool session' (textOr [] (map_of (payload event) ''toolCallId'')) p of
        None \<Rightarrow> p
      | Some t \<Rightarrow>
          finishTool lib session'
            (t\<lparr>toolDetails := nullish (fieldOf result ''details'') (toolDetails t),
               toolResult := resultContent t (partialText partial) (fieldOf result ''content'')\<rparr>) t False p)"

definition executionEnd :: "library \<Rightarrow> string \<Rightarrow> TranscriptEventInput \<Rightarrow> projector \<Rightarrow> projector" where
  "executionEnd lib session' event p =
     (let get = map_of (payload event);
        call = textOr [] (get ''toolCallId'');
        result = asRecord (get ''result'') in
      case answerAsk session' call (isTrue (get ''isError'')) (get ''details'') p of
        Some p' \<Rightarrow> p'
      | None \<Rightarrow>
          (case findTool session' call p of
             None \<Rightarrow> p
           | Some t \<Rightarrow>
               finishTool lib session'
                 (t\<lparr>toolStatus := (if isTrue (get ''isError'') then Tool_error else Tool_done), toolEnded := timestamp (createdAt event),
                    toolDetails := nullish (get ''details'') (nullish (fieldOf result ''details'') (toolDetails t)),
                    toolResult := resultContent t
                      (case asString (get ''result'') of Some s \<Rightarrow> s | None \<Rightarrow> contentText (fieldOf result ''content'')) (fieldOf result ''content'')\<rparr>) t True
                 (stamped event p)))"

definition failTurn :: "library \<Rightarrow> TranscriptEventInput \<Rightarrow> projector \<Rightarrow> projector" where
  "failTurn lib event p =
     (let p1 = writeItem (interruption (turnIdOf p @ '':error:'' @ printInt (ordinal event)) Aborted_turn ''Agent turn failed''
          (map_option (providerErrorText (parseOf lib)) (asString (map_of (payload event) ''message''))) None False) p in
      putTurn event (turnIdOf p1) Turn_error (p1\<lparr>current := map_option (\<lambda>t. t\<lparr>turnFailed := True\<rparr>) (current p1)\<rparr>))"

definition applyEvent :: "library \<Rightarrow> string \<Rightarrow> projector \<Rightarrow> TranscriptEventInput \<Rightarrow> projector" where
  "applyEvent lib session' p event =
     (let kind = eventKind event; get = map_of (payload event); m = asRecord (get ''message'') in
      if kind = ''turn_start'' then ensureTurn session' event (commitTurn event Turn_done p)
      else if kind = ''turn_end'' \<or> kind = ''agent_end'' then commitTurn event Turn_done p
      else if kind = ''session_compact'' \<or> kind = ''compaction'' then
        (let p1 = ensureTurn session' event p in
         writeItem (interruption (turnIdOf p1 @ '':compact:'' @ printInt (ordinal event)) Compacted ''Context compacted'' None None True) p1)
      else if kind = ''message_start'' then
        (if isText ''assistant'' (fieldOf m ''role'')
         then (finishMessage (ensureTurn session' event p))\<lparr>message := Some \<lparr>messageOrdinal = ordinal event, parts = []\<rparr>\<rparr>
         else p)
      else if kind = ''message_update'' then
        (case asArray (fieldOf m ''content'') of
           Some content \<Rightarrow> if isText ''assistant'' (fieldOf m ''role'') then assistantParts session' event content False p else p
         | None \<Rightarrow> p)
      else if kind = ''message_end'' then messageEnd lib session' event p
      else if kind = ''tool_execution_start'' then
        startTool session' (textOr (''tool-'' @ printInt (ordinal event)) (get ''toolCallId'')) (textOr ''tool'' (get ''toolName''))
          (case asRecord (get ''args'') of Some a \<Rightarrow> a | None \<Rightarrow> []) (timestamp (createdAt event)) False
          (stamped event (ensureTurn session' event p))
      else if kind = ''tool_execution_update'' then executionUpdate lib session' event (ensureTurn session' event p)
      else if kind = ''tool_execution_end'' then executionEnd lib session' event (ensureTurn session' event p)
      else if kind = ''error'' then failTurn lib event (ensureTurn session' event p)
      else p)"

definition flushStatus :: "ProjectionTurn \<Rightarrow> TurnStatus" where
  "flushStatus t = (if turnFailed t then Turn_error else if 0 < pending t then Turn_running else Turn_done)"

definition flush :: "projector \<Rightarrow> projector" where
  "flush p =
     (case current p of
        Some t \<Rightarrow> p\<lparr>store := storeTurn None (turnId t) (flushStatus t) (store p)\<rparr>
      | None \<Rightarrow> p)"

section \<open>The whole transcript\<close>

record TurnBlock =
  blockId :: string
  blockHead :: TurnHead
  blockUser :: "TranscriptItem option"
  blockItems :: "TranscriptItem list"
  sideAgents :: "TranscriptItem list"

definition placeItem :: "TurnBlock \<Rightarrow> TranscriptItem \<Rightarrow> TurnBlock" where
  "placeItem turn item =
     (case item of
        Message_item m \<Rightarrow> if fromUser m then turn\<lparr>blockUser := Some item\<rparr> else turn\<lparr>blockItems := blockItems turn @ [item]\<rparr>
      | Side_item s \<Rightarrow> turn\<lparr>sideAgents := sideAgents turn @ [item]\<rparr>
      | _ \<Rightarrow> turn\<lparr>blockItems := blockItems turn @ [item]\<rparr>)"

text \<open>\<open>None\<close> where the turn of an item is not known, which would throw.\<close>

definition placeAll :: "store \<Rightarrow> TurnBlock list \<Rightarrow> TurnBlock list option" where
  "placeAll st blocks =
     foldl (\<lambda>acc (i, turn, item).
       if i \<in> set (hidden st) then acc
       else Option.bind acc (\<lambda>bs.
         if turn \<in> set (map blockId bs) then Some (map (\<lambda>b. if blockId b = turn then placeItem b item else b) bs) else None))
       (Some blocks) (items st)"

definition turnBlocks :: "store \<Rightarrow> TurnBlock list option" where
  "turnBlocks st =
     map_option (filter (\<lambda>b. blockUser b \<noteq> None \<or> blockItems b \<noteq> [] \<or> sideAgents b \<noteq> []))
       (placeAll st (map (\<lambda>(i, h). \<lparr>blockId = i, blockHead = h, blockUser = None, blockItems = [], sideAgents = []\<rparr>) (turns st)))"

record projection =
  projectedTurns :: "TurnBlock list"
  projectedRows :: "(string \<times> TranscriptItem) list"
  projectedLinks :: "(string \<times> string \<times> bool) list"

definition sessionOf :: "TranscriptEventInput list \<Rightarrow> string" where
  "sessionOf events = (case events of e # _ \<Rightarrow> eventSession e | [] \<Rightarrow> [])"

definition projectEvents :: "library \<Rightarrow> TranscriptEventInput list \<Rightarrow> projector" where
  "projectEvents lib ordered = foldl (applyEvent lib (sessionOf ordered)) newProjector ordered"

definition collectTranscriptProjection :: "library \<Rightarrow> TranscriptEventInput list \<Rightarrow> projection option" where
  "collectTranscriptProjection lib events =
     (let p = flush (projectEvents lib (sort_key ordinal events)) in
      if raised p then None
      else map_option (\<lambda>bs.
        \<lparr>projectedTurns = bs, projectedRows = map snd (items (store p)),
         projectedLinks = concat (map (\<lambda>(execution, members). map (\<lambda>(row, hide). (execution, row, hide)) members) (memberships (store p)))\<rparr>)
        (turnBlocks (store p)))"

definition reduceTranscriptToTurns :: "library \<Rightarrow> TranscriptEventInput list \<Rightarrow> TurnBlock list option" where
  "reduceTranscriptToTurns lib events = map_option projectedTurns (collectTranscriptProjection lib events)"

section \<open>Checkpoints\<close>

definition partText :: "part \<Rightarrow> string" where
  "partText part = (case part of Message_part \<Rightarrow> ''message'' | Thinking_part \<Rightarrow> ''thinking'')"

definition checkpointJson :: "projector \<Rightarrow> json" where
  "checkpointJson p =
     JObject
       ((case current p of
           Some t \<Rightarrow> [(''current'', JObject [(''id'', JString (turnId t)), (''hasContent'', JBool (hasContent t)),
             (''pending'', JNumber (pending t)), (''failed'', JBool (turnFailed t))])]
         | None \<Rightarrow> []) @
        (case message p of
           Some m \<Rightarrow> [(''message'', JObject [(''ordinal'', JNumber (messageOrdinal m)),
             (''parts'', JArray (map (\<lambda>(i, part). JArray [JNumber (int i), JString (partText part)]) (parts m)))])]
         | None \<Rightarrow> []))"

definition checkpoint :: "projector \<Rightarrow> string" where
  "checkpoint p = stringify (checkpointJson p)"

definition readTurn :: "fields \<Rightarrow> ProjectionTurn" where
  "readTurn fs =
     \<lparr>turnId = textOr [] (map_of fs ''id''), hasContent = isTrue (map_of fs ''hasContent''),
      pending = (case map_of fs ''pending'' of Some (JNumber n) \<Rightarrow> n | _ \<Rightarrow> 0), turnFailed = isTrue (map_of fs ''failed'')\<rparr>"

definition readPart :: "json \<Rightarrow> nat \<times> part" where
  "readPart v =
     (case v of
        JArray [JNumber i, JString k] \<Rightarrow> (nat i, if k = ''message'' then Message_part else Thinking_part)
      | _ \<Rightarrow> (0, Thinking_part))"

definition readMessage :: "fields \<Rightarrow> ProjectionMessage" where
  "readMessage fs =
     \<lparr>messageOrdinal = (case map_of fs ''ordinal'' of Some (JNumber n) \<Rightarrow> n | _ \<Rightarrow> 0),
      parts = (case map_of fs ''parts'' of Some (JArray xs) \<Rightarrow> map readPart xs | _ \<Rightarrow> [])\<rparr>"

text \<open>A projector over the store that was kept, from a checkpoint's text; a text that does not parse throws.\<close>

definition restore :: "(string \<Rightarrow> json option) \<Rightarrow> string \<Rightarrow> store \<Rightarrow> projector option" where
  "restore parse text' st =
     map_option (\<lambda>v. let state = asRecord (Some v) in
       \<lparr>current = map_option readTurn (asRecord (fieldOf state ''current'')),
        message = map_option readMessage (asRecord (fieldOf state ''message'')), store = st, raised = False\<rparr>) (parse text')"

end
