(* ===== verification/Transcript_Properties.thy ===== *)
theory Transcript_Properties
  imports Transcript_Projection
begin

text \<open>
  What holds of a projected transcript. Every operation of the projector is a series of edits: a
  write over what was read, or a change of what only links rows and cards. So an invariant of the
  projector is one of the edits, of opening and of closing a turn.
\<close>

section \<open>Edits\<close>

inductive edit :: "projector \<Rightarrow> projector \<Rightarrow> bool" where
  books: "items (store q) = items (store p) \<Longrightarrow> turns (store q) = turns (store p) \<Longrightarrow> current q = current p \<Longrightarrow> raised q = raised p \<Longrightarrow> edit p q"
| writes: "current p = Some t \<Longrightarrow> edit p (writeOver item (readItem (store p) (itemId item)) p)"

abbreviation edits :: "projector \<Rightarrow> projector \<Rightarrow> bool" where
  "edits \<equiv> edit\<^sup>*\<^sup>*"

lemma edits_books:
  "items (store q) = items (store p) \<Longrightarrow> turns (store q) = turns (store p) \<Longrightarrow> current q = current p \<Longrightarrow> raised q = raised p \<Longrightarrow> edits p q"
  by (rule r_into_rtranclp) (rule edit.books)

lemma edits_write: "current p \<noteq> None \<Longrightarrow> previous = readItem (store p) (itemId item) \<Longrightarrow> edits p (writeOver item previous p)"
  by (auto intro: edit.writes)

lemma edits_writeItem: "current p \<noteq> None \<Longrightarrow> edits p (writeItem item p)"
  by (simp add: writeItem_def edits_write)

lemma edit_turn: "edit p q \<Longrightarrow> map_option turnId (current q) = map_option turnId (current p) \<and> turns (store q) = turns (store p)"
  by (induction rule: edit.induct) (auto simp: writeOver_def storeItem_def Let_def)

lemma edits_turn: "edits p q \<Longrightarrow> map_option turnId (current q) = map_option turnId (current p) \<and> turns (store q) = turns (store p)"
  by (induction rule: rtranclp_induct) (use edit_turn in auto)

lemma edits_open: "edits p q \<Longrightarrow> current p \<noteq> None \<Longrightarrow> current q \<noteq> None"
  using edits_turn [of p q] by auto

lemma edits_foldl:
  assumes "\<And>p x. current p \<noteq> None \<Longrightarrow> edits p (f p x)" and "current p \<noteq> None"
  shows "edits p (foldl f p xs)"
  using assms(2)
proof (induction xs arbitrary: p)
  case (Cons x xs)
  have "edits p (f p x)" by (rule assms(1) [OF Cons.prems])
  moreover have "edits (f p x) (foldl f (f p x) xs)" using Cons edits_open [OF calculation] by blast
  ultimately show ?case by simp
qed simp

lemma edits_then: "edits p q \<Longrightarrow> (current q \<noteq> None \<Longrightarrow> edits q r) \<Longrightarrow> current p \<noteq> None \<Longrightarrow> edits p r"
  using edits_open by (meson rtranclp_trans)

section \<open>Every operation is a series of edits\<close>

lemma bindExecutionRun_rows [simp]:
  "items (bindExecutionRun i e st) = items st" "turns (bindExecutionRun i e st) = turns st" "readItem (bindExecutionRun i e st) k = readItem st k"
  by (simp_all add: bindExecutionRun_def readItem_def)

lemma linkExecution_rows [simp]:
  "items (snd (linkExecution e r h st)) = items st" "turns (snd (linkExecution e r h st)) = turns st"
  by (simp_all add: linkExecution_def Let_def)

lemma correlate_rows:
  "items (fst (foldl (correlateOne s) a xs)) = items (fst a) \<and> turns (fst (foldl (correlateOne s) a xs)) = turns (fst a)"
  by (induction xs arbitrary: a) (auto simp: correlateOne_def split: option.split prod.split)

lemma cardId_merge [simp]: "cardId (mergeExecution c x i) = obsId x"
  by (simp add: mergeExecution_def)

lemma edits_writeExecution: "current p \<noteq> None \<Longrightarrow> edits p (writeExecution s h p x)"
proof -
  assume c: "current p \<noteq> None"
  obtain inserted st where l: "linkExecution (obsId x) s h (store p) = (inserted, st)" by fastforce
  then have st: "items st = items (store p)" "turns st = turns (store p)" using linkExecution_rows [of "obsId x" s h "store p"] by simp_all
  have "edits p (p\<lparr>store := st\<rparr>)" by (rule edits_books) (simp_all add: st)
  moreover have "edits (p\<lparr>store := st\<rparr>) (writeExecution s h p x)"
    unfolding writeExecution_def l Let_def prod.case using c by (intro edits_write) (simp_all add: readItem_def st)
  ultimately show ?thesis by (rule rtranclp_trans)
qed

lemma edits_writeSideAgent: "current p \<noteq> None \<Longrightarrow> edits p (writeSideAgent s p v)"
  by (auto simp: writeSideAgent_def edits_writeItem split: option.split)

lemma edits_projectExecutions: "current p \<noteq> None \<Longrightarrow> edits p (projectExecutions lib s source final custom p)"
proof -
  assume c: "current p \<noteq> None"
  obtain obs rep where e: "extractExecutions lib
          \<lparr>inSession = s, inTool = tool source, inArgs = toolArgs source, inDetails = toolDetails source,
           inCustom = custom, inObserved = toolEnded source, inError = (toolStatus source = Tool_error)\<rparr> = (obs, rep)" by fastforce
  obtain st kept rep' where f: "foldl (correlateOne (toolBlock source)) (store p, [], rep) obs = (st, kept, rep')" using prod_cases3 by blast
  have st: "items st = items (store p)" "turns st = turns (store p)" using correlate_rows [of "toolBlock source" "(store p, [], rep)" obs] f by simp_all
  let ?p1 = "foldl (writeExecution (toolBlock source) (final \<and> rep')) (p\<lparr>store := st\<rparr>) kept"
  have "edits p (p\<lparr>store := st\<rparr>)" by (rule edits_books) (simp_all add: st)
  moreover have "edits (p\<lparr>store := st\<rparr>) ?p1" using c by (intro edits_foldl edits_writeExecution) auto
  ultimately have p1: "edits p ?p1" by (rule rtranclp_trans)
  have "edits ?p1 (foldl (writeSideAgent s) ?p1 agents)" for agents
    using edits_open [OF p1 c] by (intro edits_foldl edits_writeSideAgent)
  then have "edits p (foldl (writeSideAgent s) ?p1 agents)" for agents using rtranclp_trans [OF p1] by blast
  then show ?thesis using p1 by (simp add: projectExecutions_def e f Let_def split: option.split)
qed

lemma edits_startTool: "current p \<noteq> None \<Longrightarrow> edits p (startTool s call name args b i p)"
  by (auto simp: startTool_def edits_writeItem split: option.split)

lemma readItem_findAsk: "findAsk s call p = Some a \<Longrightarrow> readItem (store p) (askKey s call) = Some (Ask_item a)"
  by (auto simp: findAsk_def split: option.splits TranscriptItem.splits)

lemma readItem_findTool: "findTool s call p = Some t \<Longrightarrow> readItem (store p) (toolKey s call) = Some (Tool_item t)"
  by (auto simp: findTool_def split: option.splits TranscriptItem.splits)

section \<open>The shape of a store\<close>

text \<open>Rows are kept under their ids, and their turns are known.\<close>

definition keyed :: "store \<Rightarrow> bool" where
  "keyed st \<longleftrightarrow> distinct (map fst (items st)) \<and> (\<forall>i t x. (i, t, x) \<in> set (items st) \<longrightarrow> itemId x = i \<and> t \<in> fst ` set (turns st))"

lemma keyed_read: "keyed st \<Longrightarrow> readItem st i = Some x \<Longrightarrow> itemId x = i"
  by (auto simp: keyed_def readItem_def dest!: map_of_SomeD)

definition shaped :: "projector \<Rightarrow> bool" where
  "shaped p \<longleftrightarrow> \<not> raised p \<and> keyed (store p) \<and> (\<forall>t. current p = Some t \<longrightarrow> turnId t \<in> fst ` set (turns (store p)))"

lemma shaped_findAsk: "shaped p \<Longrightarrow> findAsk s call p = Some a \<Longrightarrow> askId a = askKey s call"
  using keyed_read [of "store p"] readItem_findAsk [of s call p a] by (fastforce simp: shaped_def)

lemma shaped_findTool: "shaped p \<Longrightarrow> findTool s call p = Some t \<Longrightarrow> toolBlock t = toolKey s call"
  using keyed_read [of "store p"] readItem_findTool [of s call p t] by (fastforce simp: shaped_def)

lemma set_update: "(i, x) \<in> set (AList.update k v m) \<Longrightarrow> i = k \<and> x = v \<or> (i, x) \<in> set m"
  by (induction m) (auto split: if_splits)

lemma shaped_edit: "edit p q \<Longrightarrow> shaped p \<Longrightarrow> shaped q"
proof (induction rule: edit.induct)
  case (books q p)
  then show ?case by (simp add: shaped_def keyed_def)
next
  case (writes p t item)
  have k: "keyed (store p)" "turnId t \<in> fst ` set (turns (store p))" using writes by (simp_all add: shaped_def)
  have o: "t' \<in> fst ` set (turns (store p))" if "ownerOf (store p) i = Some t'" for i t'
    using that k(1) by (auto simp: ownerOf_def keyed_def dest!: map_of_SomeD)
  have "keyed (storeItem (turnId t) item (store p))"
    using k o by (auto simp: keyed_def storeItem_def dest!: set_update split: option.splits)
  then show ?case using writes by (simp add: shaped_def writeOver_def storeItem_def Let_def)
qed

lemma shaped_edits: "edits p q \<Longrightarrow> shaped p \<Longrightarrow> shaped q"
  by (induction rule: rtranclp_induct) (use shaped_edit in auto)


section \<open>Events are edits after a turn is opened\<close>

lemma edits_answerAsk: "current p \<noteq> None \<Longrightarrow> shaped p \<Longrightarrow> answerAsk s call e d p = Some q \<Longrightarrow> edits p q"
  by (auto simp: answerAsk_def readItem_findAsk shaped_findAsk split: option.splits intro!: edits_write)

lemma edits_finishTool:
  assumes "current p \<noteq> None" and "shaped p" and "findTool s call p = Some t" and "toolBlock t' = toolBlock t"
  shows "edits p (finishTool lib s t' t final p)"
proof -
  have "edits p (writeOver (Tool_item t') (Some (Tool_item t)) p)"
    using assms by (intro edits_write) (simp_all add: readItem_findTool shaped_findTool)
  then show ?thesis unfolding finishTool_def
    using edits_then edits_projectExecutions assms(1) by blast
qed

lemma edits_notePart: "edits p (notePart i part p)"
  by (rule edits_books) (simp_all add: notePart_def)

lemma edits_writeText: "current p \<noteq> None \<Longrightarrow> edits p (writeText turn n final i t p)"
proof -
  assume c: "current p \<noteq> None"
  have "edits p (notePart i Message_part (writeOver (assistantMessage k t b) (readItem (store p) k) p))" for k b
    by (rule edits_then [OF edits_write [OF c] edits_notePart c]) (simp add: assistantMessage_def)
  then show ?thesis by (simp add: writeText_def Let_def)
qed

lemma edits_writeThinking: "current p \<noteq> None \<Longrightarrow> edits p (writeThinking turn n final i t p)"
proof -
  assume c: "current p \<noteq> None"
  have "edits p (notePart i Thinking_part (writeOver (Thinking_item k t) (readItem (store p) k) p))" for k
    by (rule edits_then [OF edits_write [OF c] edits_notePart c]) simp
  then show ?thesis by (simp add: writeThinking_def Let_def)
qed

lemma edits_assistantPart: "current p \<noteq> None \<Longrightarrow> edits p (assistantPart s turn n final p x)"
  by (cases x) (auto simp: assistantPart_def Let_def edits_writeText edits_writeThinking edits_startTool split: option.split)

lemma shaped_message: "shaped p \<Longrightarrow> readItem (store p) i = Some (Message_item m) \<Longrightarrow> messageId m = i"
  using keyed_read [of "store p" i "Message_item m"] by (simp add: shaped_def)

lemma edits_settlePart: "current p \<noteq> None \<Longrightarrow> shaped p \<Longrightarrow> edits p (settlePart turn n p x)"
  by (cases x) (auto simp: settlePart_def shaped_message split: option.split TranscriptItem.split intro!: edits_write)

lemma edits_foldl_shaped:
  assumes "\<And>p x. current p \<noteq> None \<Longrightarrow> shaped p \<Longrightarrow> edits p (f p x)" and "current p \<noteq> None" and "shaped p"
  shows "edits p (foldl f p xs)"
  using assms(2,3)
proof (induction xs arbitrary: p)
  case (Cons x xs)
  have e: "edits p (f p x)" by (rule assms(1) [OF Cons.prems])
  have "edits (f p x) (foldl f (f p x) xs)" by (rule Cons.IH [OF edits_open [OF e Cons.prems(1)] shaped_edits [OF e Cons.prems(2)]])
  with e show ?case by simp
qed simp

lemma edits_finishMessage: "current p \<noteq> None \<Longrightarrow> shaped p \<Longrightarrow> edits p (finishMessage p)"
proof -
  assume a: "current p \<noteq> None" "shaped p"
  have "edits p (foldl (settlePart turn n) p xs)" for turn n xs using a by (intro edits_foldl_shaped edits_settlePart)
  moreover have "edits q (q\<lparr>message := None\<rparr>)" for q by (rule edits_books) simp_all
  ultimately have "edits p ((foldl (settlePart turn n) p xs)\<lparr>message := None\<rparr>)" for turn n xs by (meson rtranclp_trans)
  then show ?thesis by (simp add: finishMessage_def split: option.split)
qed

lemma ensureTurn_open [simp]: "current (ensureTurn s event p) \<noteq> None"
  by (simp add: ensureTurn_def putTurn_def stamped_def Let_def split: option.split)

lemma ensureTurn_known: "current p \<noteq> None \<Longrightarrow> ensureTurn s event p = p"
  by (auto simp: ensureTurn_def)

lemma ensureTurn_again [simp]: "ensureTurn s event (ensureTurn s event' p) = ensureTurn s event' p"
  by (rule ensureTurn_known) simp

lemma edits_assistantParts:
  assumes "current p \<noteq> None" and "shaped p"
  shows "edits p (assistantParts s event content final p)"
proof -
  define m where "m = (case message p of Some m \<Rightarrow> m | None \<Rightarrow> \<lparr>messageOrdinal = ordinal event, parts = []\<rparr>)"
  let ?p2 = "foldl (assistantPart s (turnIdOf p) (messageOrdinal m) final) (p\<lparr>message := Some m\<rparr>) (zip [0..<length content] content)"
  have e: "edits p (p\<lparr>message := Some m\<rparr>)" by (rule edits_books) simp_all
  have "edits (p\<lparr>message := Some m\<rparr>) ?p2" using assms(1) by (intro edits_foldl edits_assistantPart) auto
  with e have p2: "edits p ?p2" by (rule rtranclp_trans)
  have "edits ?p2 (finishMessage ?p2)" by (rule edits_finishMessage [OF edits_open [OF p2 assms(1)] shaped_edits [OF p2 assms(2)]])
  then have "edits p (finishMessage ?p2)" using p2 by (rule rtranclp_trans [rotated])
  then show ?thesis using p2 unfolding assistantParts_def ensureTurn_known [OF assms(1)] Let_def m_def [symmetric]
    by (cases final) simp_all
qed

lemma edits_writeNote: "current p \<noteq> None \<Longrightarrow> edits p (writeNote event p x)"
  by (cases x) (simp add: writeNote_def Let_def edits_writeItem)

lemma stamped_valid [simp]: "\<not> invalidDate event \<Longrightarrow> stamped event p = p"
  by (simp add: stamped_def)

lemma edits_customMessage: "\<not> invalidDate event \<Longrightarrow> current p \<noteq> None \<Longrightarrow> edits p (customMessage lib s event m p)"
proof -
  assume v: "\<not> invalidDate event" and c: "current p \<noteq> None"
  have "edits p (customRow lib s event m p)" unfolding customRow_def Let_def stamped_valid [OF v]
    by (rule edits_then [OF edits_writeItem [OF c] edits_projectExecutions c])
  then show ?thesis using c by (simp add: customMessage_def Let_def edits_writeItem split: option.split)
qed

lemma edits_toolResultMessage:
  "\<not> invalidDate event \<Longrightarrow> current p \<noteq> None \<Longrightarrow> shaped p \<Longrightarrow> edits p (toolResultMessage lib s event call m p)"
  by (auto simp: toolResultMessage_def edits_answerAsk split: option.split intro!: edits_finishTool)

lemma edits_executionUpdate: "current p \<noteq> None \<Longrightarrow> shaped p \<Longrightarrow> edits p (executionUpdate lib s event p)"
  by (auto simp: executionUpdate_def Let_def split: option.split intro!: edits_finishTool)

lemma edits_executionEnd: "\<not> invalidDate event \<Longrightarrow> current p \<noteq> None \<Longrightarrow> shaped p \<Longrightarrow> edits p (executionEnd lib s event p)"
  by (auto simp: executionEnd_def Let_def edits_answerAsk split: option.split intro!: edits_finishTool)


section \<open>An event closes a turn, opens one and edits\<close>

lemma turns_storeTurn: "fst ` set (turns (storeTurn event i status st)) = insert i (fst ` set (turns st))"
  by (simp add: storeTurn_def Let_def dom_map_of_conv_image_fst [symmetric])

lemma items_storeTurn [simp]: "items (storeTurn event i status st) = items st"
  by (simp add: storeTurn_def Let_def)

lemma keyed_storeTurn: "keyed st \<Longrightarrow> keyed (storeTurn event i status st)"
  by (auto simp: keyed_def turns_storeTurn)

lemma putTurn_valid [simp]: "\<not> invalidDate event \<Longrightarrow> putTurn event i status p = p\<lparr>store := storeTurn (Some event) i status (store p)\<rparr>"
  by (simp add: putTurn_def Let_def)

lemma shaped_ensureTurn: "\<not> invalidDate event \<Longrightarrow> shaped p \<Longrightarrow> shaped (ensureTurn s event p)"
  by (auto simp: shaped_def ensureTurn_def Let_def keyed_storeTurn turns_storeTurn split: option.split)

lemma shaped_commitTurn: "\<not> invalidDate event \<Longrightarrow> shaped p \<Longrightarrow> shaped (commitTurn event status p)"
  by (auto simp: shaped_def commitTurn_def keyed_storeTurn split: option.split)

definition failCurrent :: "TranscriptEventInput \<Rightarrow> projector \<Rightarrow> projector" where
  "failCurrent event p =
     p\<lparr>current := map_option (\<lambda>t. t\<lparr>turnFailed := True\<rparr>) (current p), store := storeTurn (Some event) (turnIdOf p) Turn_error (store p)\<rparr>"

lemma shaped_failCurrent: "shaped p \<Longrightarrow> current p \<noteq> None \<Longrightarrow> shaped (failCurrent event p)"
  by (auto simp: shaped_def failCurrent_def keyed_storeTurn turns_storeTurn turnIdOf_def)

definition entered :: "string \<Rightarrow> TranscriptEventInput \<Rightarrow> projector \<Rightarrow> projector set" where
  "entered s event p =
     {p, commitTurn event Turn_done p, ensureTurn s event p, ensureTurn s event (commitTurn event Turn_done p)}"

text \<open>What an event does: all but an error are edits after a turn is closed and opened; an error fails the turn.\<close>

definition goesOn :: "string \<Rightarrow> TranscriptEventInput \<Rightarrow> projector \<Rightarrow> projector \<Rightarrow> bool" where
  "goesOn s event p q \<longleftrightarrow> (\<exists>p1 \<in> entered s event p. edits p1 q)"

definition fails :: "string \<Rightarrow> TranscriptEventInput \<Rightarrow> projector \<Rightarrow> projector \<Rightarrow> bool" where
  "fails s event p q \<longleftrightarrow> (\<exists>p2. edits (ensureTurn s event p) p2 \<and> current p2 \<noteq> None \<and> q = failCurrent event p2)"

definition follows :: "string \<Rightarrow> TranscriptEventInput \<Rightarrow> projector \<Rightarrow> projector \<Rightarrow> bool" where
  "follows s event p q \<longleftrightarrow> (if eventKind event = ''error'' then fails s event p q else goesOn s event p q)"

lemma shaped_entered: "\<not> invalidDate event \<Longrightarrow> shaped p \<Longrightarrow> p1 \<in> entered s event p \<Longrightarrow> shaped p1"
  by (auto simp: entered_def shaped_ensureTurn shaped_commitTurn)

lemma shaped_follows: "\<not> invalidDate event \<Longrightarrow> shaped p \<Longrightarrow> follows s event p q \<Longrightarrow> shaped q"
  unfolding follows_def goesOn_def fails_def using shaped_entered shaped_edits shaped_failCurrent shaped_ensureTurn
  by (metis (no_types, lifting))

lemma goesOn_here: "edits p q \<Longrightarrow> goesOn s event p q"
  unfolding goesOn_def entered_def by blast

lemma goesOn_opened: "edits (ensureTurn s event p) q \<Longrightarrow> goesOn s event p q"
  unfolding goesOn_def entered_def by blast

lemma goesOn_refl: "goesOn s event p p"
  by (rule goesOn_here) simp

lemma userMessage_goesOn: "goesOn s event p (userMessage s event m p)"
proof -
  have w: "goesOn s event p (foldl (writeNote event) (ensureTurn s event q) xs)" "goesOn s event p (writeItem item (ensureTurn s event q))"
    if "ensureTurn s event q \<in> entered s event p" for q xs item
  proof -
    have "edits (ensureTurn s event q) (foldl (writeNote event) (ensureTurn s event q) xs)" by (intro edits_foldl edits_writeNote ensureTurn_open)
    moreover have "edits (ensureTurn s event q) (writeItem item (ensureTurn s event q))" by (intro edits_writeItem ensureTurn_open)
    ultimately show "goesOn s event p (foldl (writeNote event) (ensureTurn s event q) xs)" "goesOn s event p (writeItem item (ensureTurn s event q))"
      using that unfolding goesOn_def by blast+
  qed
  have "ensureTurn s event p \<in> entered s event p" "ensureTurn s event (commitTurn event Turn_done p) \<in> entered s event p"
    by (simp_all add: entered_def)
  note w [OF this(1)] w [OF this(2)]
  then show ?thesis unfolding userMessage_def Let_def by (simp add: goesOn_refl split: option.split)
qed

lemma messageEnd_goesOn: "\<not> invalidDate event \<Longrightarrow> shaped p \<Longrightarrow> goesOn s event p (messageEnd lib s event p)"
proof -
  assume v: "\<not> invalidDate event" and p: "shaped p"
  let ?p1 = "ensureTurn s event p"
  have o: "current ?p1 \<noteq> None" "shaped ?p1" using v p by (simp_all add: shaped_ensureTurn)
  have "edits ?p1 (customMessage lib s event m ?p1)" "edits ?p1 (assistantParts s event content final ?p1)"
    "edits ?p1 (finishMessage ?p1)" "edits ?p1 (toolResultMessage lib s event call m ?p1)" for m content final call
    using edits_customMessage [OF v o(1)] edits_assistantParts [OF o] edits_finishMessage [OF o] edits_toolResultMessage [OF v o] by blast+
  note q = this [THEN goesOn_opened] goesOn_opened [OF rtranclp.rtrancl_refl]
  show ?thesis unfolding messageEnd_def Let_def by (simp add: q goesOn_refl userMessage_goesOn split: option.split json.split bool.split)
qed

lemma applyEvent_goesOn: "eventKind event \<noteq> ''error'' \<Longrightarrow> \<not> invalidDate event \<Longrightarrow> shaped p \<Longrightarrow> goesOn s event p (applyEvent lib s p event)"
proof -
  assume k: "eventKind event \<noteq> ''error''" and v: "\<not> invalidDate event" and p: "shaped p"
  let ?p1 = "ensureTurn s event p"
  have o: "current ?p1 \<noteq> None" "shaped ?p1" using v p by (simp_all add: shaped_ensureTurn)
  have close: "goesOn s event p (commitTurn event Turn_done p)" "goesOn s event p (ensureTurn s event (commitTurn event Turn_done p))"
    unfolding goesOn_def entered_def by blast+
  have "edits ?p1 (writeItem item ?p1)" "edits ?p1 (startTool s call name args b i ?p1)" "edits ?p1 (executionUpdate lib s event ?p1)"
    "edits ?p1 (executionEnd lib s event ?p1)" "edits ?p1 ((finishMessage ?p1)\<lparr>message := m\<rparr>)" for item call name args b i m
    using edits_writeItem [OF o(1)] edits_startTool [OF o(1)] edits_executionUpdate [OF o] edits_executionEnd [OF v o]
      rtranclp_trans [OF edits_finishMessage [OF o] edits_books [of "(finishMessage ?p1)\<lparr>message := m\<rparr>" "finishMessage ?p1"]] by simp_all
  note q = this [THEN goesOn_opened]
  have "assistantParts s event content final p = assistantParts s event content final ?p1" for content final
    by (simp add: assistantParts_def)
  then have parts: "goesOn s event p (assistantParts s event content final p)" for content final
    using goesOn_opened [OF edits_assistantParts [OF o]] by metis
  show ?thesis unfolding applyEvent_def Let_def
    by (simp add: k v close q parts messageEnd_goesOn [OF v p] goesOn_refl split: option.split)
qed

lemma applyEvent_fails:
  assumes "eventKind event = ''error''" and "\<not> invalidDate event" and "shaped p"
  shows "fails s event p (applyEvent lib s p event)"
proof -
  let ?p1 = "ensureTurn s event p"
  obtain item where f: "applyEvent lib s p event = failCurrent event (writeItem item ?p1)"
    using assms(1,2) by (simp add: applyEvent_def failTurn_def failCurrent_def Let_def turnIdOf_def)
  have "edits ?p1 (writeItem item ?p1)" by (rule edits_writeItem [OF ensureTurn_open])
  moreover have "current (writeItem item ?p1) \<noteq> None" using edits_open [OF calculation ensureTurn_open] .
  ultimately show ?thesis unfolding f fails_def by blast
qed

lemma applyEvent_follows: "\<not> invalidDate event \<Longrightarrow> shaped p \<Longrightarrow> follows s event p (applyEvent lib s p event)"
  by (simp add: follows_def applyEvent_fails applyEvent_goesOn)

definition validDates :: "TranscriptEventInput list \<Rightarrow> bool" where
  "validDates events \<longleftrightarrow> (\<forall>event \<in> set events. createdAt event \<noteq> Some (At_date None))"

lemma validDates_sorted [simp]: "validDates (sort_key f events) \<longleftrightarrow> validDates events"
  by (simp add: validDates_def)

lemma validDates_Cons [simp]: "validDates (event # events) \<longleftrightarrow> \<not> invalidDate event \<and> validDates events"
  by (simp add: validDates_def invalidDate_def)

text \<open>What the projector writes belongs to an open turn, whatever the events are.\<close>

lemma shaped_new: "shaped newProjector"
  by (simp add: shaped_def newProjector_def keyed_def emptyStore_def)

lemma shaped_foldl: "validDates events \<Longrightarrow> shaped p \<Longrightarrow> shaped (foldl (applyEvent lib s) p events)"
  by (induction events arbitrary: p) (auto intro: shaped_follows applyEvent_follows)

lemma shaped_project: "validDates events \<Longrightarrow> shaped (projectEvents lib events)"
  unfolding projectEvents_def by (rule shaped_foldl [OF _ shaped_new])


section \<open>Turns show their rows\<close>

definition isSide :: "TranscriptItem \<Rightarrow> bool" where
  "isSide x \<longleftrightarrow> (case x of Side_item s \<Rightarrow> True | _ \<Rightarrow> False)"

definition isUser :: "TranscriptItem \<Rightarrow> bool" where
  "isUser x \<longleftrightarrow> (case x of Message_item m \<Rightarrow> fromUser m | _ \<Rightarrow> False)"

definition visibleRows :: "store \<Rightarrow> string \<Rightarrow> TranscriptItem list" where
  "visibleRows st turn = map (\<lambda>(i, t, x). x) (filter (\<lambda>(i, t, x). i \<notin> set (hidden st) \<and> t = turn) (items st))"

definition transcriptStore :: "library \<Rightarrow> TranscriptEventInput list \<Rightarrow> store" where
  "transcriptStore lib events = store (flush (projectEvents lib (sort_key ordinal events)))"

lemma placed:
  "blockId (foldl placeItem b xs) = blockId b" "blockHead (foldl placeItem b xs) = blockHead b"
  "blockItems (foldl placeItem b xs) = blockItems b @ filter (\<lambda>x. \<not> isUser x \<and> \<not> isSide x) xs"
  "sideAgents (foldl placeItem b xs) = sideAgents b @ filter isSide xs"
  "blockUser (foldl placeItem b xs) = (case filter isUser xs of [] \<Rightarrow> blockUser b | us \<Rightarrow> Some (List.last us))"
  by (induction xs arbitrary: b; auto simp: placeItem_def isUser_def isSide_def split: TranscriptItem.splits list.splits)+

lemma blockId_placeItem [simp]: "blockId (placeItem b x) = blockId b"
  by (auto simp: placeItem_def split: TranscriptItem.split)

lemma placeAll_rows:
  assumes "keyed st" and "set (map blockId bs) = fst ` set (turns st)"
  shows "placeAll st bs = Some (map (\<lambda>b. foldl placeItem b (visibleRows st (blockId b))) bs)"
proof -
  let ?place = "\<lambda>acc (i, turn, item). if i \<in> set (hidden st) then acc else Option.bind acc (\<lambda>bs.
    if turn \<in> set (map blockId bs) then Some (map (\<lambda>b. if blockId b = turn then placeItem b item else b) bs) else None)"
  have "foldl ?place (Some bs) xs = Some (map (\<lambda>b. foldl placeItem b
      (map (\<lambda>(i, t, x). x) (filter (\<lambda>(i, t, x). i \<notin> set (hidden st) \<and> t = blockId b) xs))) bs)"
    if "\<forall>i t x. (i, t, x) \<in> set xs \<longrightarrow> t \<in> fst ` set (turns st)" and "set (map blockId bs) = fst ` set (turns st)" for xs bs
    using that
  proof (induction xs arbitrary: bs)
    case (Cons y ys)
    obtain i t x where y: "y = (i, t, x)" by (cases y) auto
    let ?bs = "map (\<lambda>b. if blockId b = t then placeItem b x else b) bs"
    have "set (map blockId ?bs) = fst ` set (turns st)" using Cons.prems(2) by (auto simp: image_image if_distrib cong: image_cong)
    moreover have "\<forall>i t x. (i, t, x) \<in> set ys \<longrightarrow> t \<in> fst ` set (turns st)" using Cons.prems(1) by auto
    ultimately have IH: "foldl ?place (Some ?bs) ys = Some (map (\<lambda>b. foldl placeItem b
      (map (\<lambda>(i, t, x). x) (filter (\<lambda>(i, t, x). i \<notin> set (hidden st) \<and> t = blockId b) ys))) ?bs)"
      and IH': "foldl ?place (Some bs) ys = Some (map (\<lambda>b. foldl placeItem b
      (map (\<lambda>(i, t, x). x) (filter (\<lambda>(i, t, x). i \<notin> set (hidden st) \<and> t = blockId b) ys))) bs)"
      using Cons.IH [of ?bs] Cons.IH [of bs] Cons.prems(2) by blast+
    show ?case
    proof (cases "i \<in> set (hidden st)")
      case True
      then show ?thesis using IH' by (simp add: y)
    next
      case False
      have "t \<in> blockId ` set bs" using Cons.prems y by auto
      then have "foldl ?place (Some bs) (y # ys) = foldl ?place (Some ?bs) ys" using False by (simp add: y)
      then show ?thesis unfolding IH using False by (simp add: y)
    qed
  qed simp
  moreover have "\<forall>i t x. (i, t, x) \<in> set (items st) \<longrightarrow> t \<in> fst ` set (turns st)" using assms(1) by (auto simp: keyed_def)
  ultimately show ?thesis using assms(2) unfolding placeAll_def visibleRows_def by blast
qed

text \<open>
  C12. The events of a session, in any order and of any content, project to a transcript without a throw, if no
  event has an invalid date, of which \<open>toISOString\<close> would throw. (A text of the model has characters below 256, so
  never a lone surrogate, on which \<open>encodeURIComponent\<close> would.) Each of the turns shows the rows of that turn in
  the order they first appeared, the side agents apart and the user's message on top, and every row that no execution
  card stands for is shown in the turn it belongs to.
\<close>

theorem transcript_shows_rows:
  assumes "validDates events"
  shows "\<exists>p. collectTranscriptProjection lib events = Some p
    \<and> (\<forall>b \<in> set (projectedTurns p). let rows = visibleRows (transcriptStore lib events) (blockId b) in
         blockItems b = filter (\<lambda>x. \<not> isUser x \<and> \<not> isSide x) rows \<and> sideAgents b = filter isSide rows
         \<and> blockUser b = (case filter isUser rows of [] \<Rightarrow> None | us \<Rightarrow> Some (List.last us)))
    \<and> (\<forall>(i, t, x) \<in> set (items (transcriptStore lib events)). i \<notin> set (hidden (transcriptStore lib events)) \<longrightarrow> t \<in> blockId ` set (projectedTurns p))"
proof -
  let ?p = "flush (projectEvents lib (sort_key ordinal events))"
  let ?start = "map (\<lambda>(i, h). \<lparr>blockId = i, blockHead = h, blockUser = None, blockItems = [], sideAgents = []\<rparr>) (turns (store ?p))"
  let ?show = "\<lambda>b. foldl placeItem b (visibleRows (store ?p) (blockId b))"
  have s: "\<not> raised ?p" "keyed (store ?p)"
    using shaped_project [of "sort_key ordinal events" lib] assms
    by (auto simp: shaped_def flush_def keyed_storeTurn split: option.split)
  have "map blockId ?start = map fst (turns (store ?p))" by (simp add: case_prod_unfold)
  then have b: "set (map blockId ?start) = fst ` set (turns (store ?p))" by simp
  let ?turns = "filter (\<lambda>b. blockUser b \<noteq> None \<or> blockItems b \<noteq> [] \<or> sideAgents b \<noteq> []) (map ?show ?start)"
  obtain p where p: "collectTranscriptProjection lib events = Some p" "projectedTurns p = ?turns"
    using s placeAll_rows [OF s(2) b] by (simp add: collectTranscriptProjection_def Let_def turnBlocks_def)
  have shown: "let rows = visibleRows (store ?p) (blockId b) in
         blockItems b = filter (\<lambda>x. \<not> isUser x \<and> \<not> isSide x) rows \<and> sideAgents b = filter isSide rows
         \<and> blockUser b = (case filter isUser rows of [] \<Rightarrow> None | us \<Rightarrow> Some (List.last us))" if "b \<in> set (projectedTurns p)" for b
    using that unfolding p(2) by (auto simp: placed Let_def split: list.split)
  have all: "t \<in> blockId ` set (projectedTurns p)" if "(i, t, x) \<in> set (items (store ?p))" "i \<notin> set (hidden (store ?p))" for i t x
  proof -
    have "t \<in> blockId ` set ?start" using s(2) that(1) b unfolding keyed_def by (metis list.set_map)
    then obtain c where c: "c \<in> set ?start" "blockId c = t" by auto
    have x: "x \<in> set (visibleRows (store ?p) t)" using that by (force simp: visibleRows_def)
    have "blockUser (?show c) \<noteq> None \<or> blockItems (?show c) \<noteq> [] \<or> sideAgents (?show c) \<noteq> []"
      using x c by (auto simp: placed filter_empty_conv split: list.splits)
    moreover have "?show c \<in> set (map ?show ?start)" unfolding set_map [of ?show] by (rule imageI [OF c(1)])
    ultimately have m: "?show c \<in> set ?turns" by (simp only: set_filter mem_Collect_eq)
    have i: "blockId (?show c) = t" unfolding placed(1) by (rule c(2))
    show ?thesis unfolding p(2) using imageI [OF m, of blockId] unfolding i .
  qed
  show ?thesis unfolding transcriptStore_def using p(1) shown all by blast
qed


section \<open>The status of a turn\<close>

lemma printInt_inj: "printInt i = printInt j \<Longrightarrow> i = j"
  using parseJson_stringify [of "JNumber i"] parseJson_stringify [of "JNumber j"] by simp

definition pendingIn :: "store \<Rightarrow> string \<Rightarrow> int" where
  "pendingIn st turn = sum_list (map (\<lambda>(i, t, x). if t = turn then pendingItem (Some x) else 0) (items st))"

lemma sum_update:
  fixes f :: "'a \<times> 'b \<Rightarrow> int"
  shows "sum_list (map f (AList.update k v m)) = sum_list (map f m) + f (k, v) - (case map_of m k of Some w \<Rightarrow> f (k, w) | None \<Rightarrow> 0)"
  by (induction m) auto

text \<open>The counter of the current turn is what its rows say, and every turn is named by an ordinal so far.\<close>

definition counted :: "string \<Rightarrow> int \<Rightarrow> projector \<Rightarrow> bool" where
  "counted s latest p \<longleftrightarrow>
     (\<forall>t. current p = Some t \<longrightarrow> pending t = pendingIn (store p) (turnId t))
     \<and> (\<forall>i \<in> fst ` set (turns (store p)). \<exists>n \<le> latest. i = s @ '':turn:'' @ printInt n)"

lemma counted_edit: "edit p q \<Longrightarrow> shaped p \<Longrightarrow> counted s n p \<Longrightarrow> counted s n q"
proof (induction rule: edit.induct)
  case (books q p)
  then show ?case by (simp add: counted_def pendingIn_def)
next
  case (writes p t item)
  let ?i = "itemId item"
  have "pending t = pendingIn (store p) (turnId t)" using writes by (simp add: counted_def)
  moreover have "pendingIn (storeItem (turnId t) item (store p)) (turnId t)
    = pendingIn (store p) (turnId t) + (if readItem (store p) ?i = None \<or> ownerOf (store p) ?i = Some (turnId t)
        then pendingItem (Some item) - pendingItem (readItem (store p) ?i) else 0)"
    unfolding pendingIn_def storeItem_def
    by (cases "map_of (items (store p)) ?i")
      (auto simp: sum_update readItem_def ownerOf_def pendingItem_def split: prod.splits)
  ultimately have "pending (the (current (writeOver item (readItem (store p) ?i) p)))
    = pendingIn (storeItem (turnId t) item (store p)) (turnId t)"
    using writes by (simp add: writeOver_def Let_def)
  then show ?case using writes by (auto simp: counted_def writeOver_def storeItem_def Let_def)
qed

lemma counted_edits: "edits p q \<Longrightarrow> shaped p \<Longrightarrow> counted s n p \<Longrightarrow> counted s n q"
proof (induction rule: rtranclp_induct)
  case (step q r)
  then show ?case using counted_edit shaped_edits by blast
qed

lemma counted_later: "counted s n p \<Longrightarrow> n \<le> m \<Longrightarrow> counted s m p"
  unfolding counted_def by (meson order_trans)

lemma turns_storeTurn_known: "i \<in> fst ` set (turns st) \<Longrightarrow> fst ` set (turns (storeTurn event i status st)) = fst ` set (turns st)"
  unfolding turns_storeTurn by (rule insert_absorb)

lemma counted_commit: "\<not> invalidDate event \<Longrightarrow> shaped p \<Longrightarrow> counted s n p \<Longrightarrow> counted s n (commitTurn event status p)"
proof (cases "current p")
  case (Some t)
  assume v: "\<not> invalidDate event" and "shaped p" "counted s n p"
  moreover have "fst ` set (turns (storeTurn (Some event) (turnId t) status (store p))) = fst ` set (turns (store p))"
    using \<open>shaped p\<close> Some by (intro turns_storeTurn_known) (simp add: shaped_def)
  ultimately show ?thesis unfolding counted_def by (simp add: v commitTurn_def Some del: ball_simps)
qed (simp add: counted_def commitTurn_def)

lemma counted_ensure:
  assumes "\<not> invalidDate event" and "shaped p" and "counted s n p" and "n < ordinal event"
  shows "counted s (ordinal event) (ensureTurn s event p)"
proof (cases "current p")
  case (Some t)
  then show ?thesis using counted_later assms by (simp add: ensureTurn_def)
next
  case None
  let ?i = "s @ '':turn:'' @ printInt (ordinal event)"
  have new: "?i \<notin> fst ` set (turns (store p))"
  proof
    assume "?i \<in> fst ` set (turns (store p))"
    then obtain m where "m \<le> n" "printInt (ordinal event) = printInt m" using assms(3) by (force simp: counted_def)
    then show False using printInt_inj assms(4) by fastforce
  qed
  have "t \<noteq> ?i" if "(i, t, x) \<in> set (items (store p))" for i t x
    using that assms(2) new by (auto simp: shaped_def keyed_def)
  then have "map (\<lambda>(i, t, x). if t = ?i then pendingItem (Some x) else 0) (items (store p)) = map (\<lambda>x. 0) (items (store p))" by auto
  then have "pendingIn (store p) ?i = sum_list (map (\<lambda>x. 0) (items (store p)))" unfolding pendingIn_def by (rule arg_cong)
  then have "pendingIn (store p) ?i = 0" by simp
  then have c: "pendingIn (storeTurn e ?i Turn_running (store p)) ?i = 0" for e by (simp add: pendingIn_def)
  have "\<exists>m \<le> ordinal event. i = s @ '':turn:'' @ printInt m" if "i \<in> fst ` set (turns (storeTurn (Some event) ?i Turn_running (store p)))" for i
  proof -
    from that consider "i = ?i" | "i \<in> fst ` set (turns (store p))" unfolding turns_storeTurn by blast
    then show ?thesis
    proof cases
      case 2
      then obtain m where "m \<le> n" "i = s @ '':turn:'' @ printInt m" using assms(3) unfolding counted_def by blast
      then show ?thesis using assms(4) by (intro exI [of _ m]) simp
    qed blast
  qed
  then show ?thesis unfolding counted_def using None c assms(1) by (simp add: ensureTurn_def Let_def del: ball_simps)
qed

lemma counted_fail: "current p \<noteq> None \<Longrightarrow> shaped p \<Longrightarrow> counted s n p \<Longrightarrow> counted s n (failCurrent event p)"
proof (cases "current p")
  case (Some t)
  assume "shaped p" "counted s n p"
  moreover have "fst ` set (turns (storeTurn (Some event) (turnId t) Turn_error (store p))) = fst ` set (turns (store p))"
    using calculation(1) Some by (intro turns_storeTurn_known) (simp add: shaped_def)
  ultimately show ?thesis unfolding counted_def by (simp add: failCurrent_def turnIdOf_def pendingIn_def Some del: ball_simps)
qed simp

lemma counted_follows:
  assumes "follows s event p q" and "\<not> invalidDate event" and "shaped p" and "counted s n p" and "n < ordinal event"
  shows "counted s (ordinal event) q"
proof -
  note ensure = counted_ensure [OF assms(2)]
  have e: "counted s (ordinal event) p1" if "p1 \<in> entered s event p" for p1
    using that assms counted_later [of s n _ "ordinal event"] counted_commit [OF assms(2), of p s n Turn_done] ensure [of p s n]
      ensure [OF shaped_commitTurn [OF assms(2,3)]]
    unfolding entered_def by auto
  show ?thesis
  proof (cases "eventKind event = ''error''")
    case True
    then obtain p2 where p2: "edits (ensureTurn s event p) p2" "current p2 \<noteq> None" "q = failCurrent event p2"
      using assms(1) by (auto simp: follows_def fails_def)
    then show ?thesis
      using counted_fail counted_edits [OF p2(1)] shaped_edits [OF p2(1)] ensure [OF assms(3-5)] shaped_ensureTurn [OF assms(2,3)] by metis
  next
    case False
    then obtain p1 where "p1 \<in> entered s event p" "edits p1 q" using assms(1) by (auto simp: follows_def goesOn_def)
    then show ?thesis using counted_edits e shaped_entered [OF assms(2,3)] by blast
  qed
qed

lemma counted_foldl:
  "sorted_wrt (<) (n # map ordinal events) \<Longrightarrow> validDates events \<Longrightarrow> shaped p \<Longrightarrow> counted s n p
   \<Longrightarrow> \<exists>m. counted s m (foldl (applyEvent lib s) p events)"
proof (induction events arbitrary: n p)
  case (Cons event events)
  have v: "\<not> invalidDate event" "validDates events" using Cons.prems(2) by simp_all
  have f: "follows s event p (applyEvent lib s p event)" by (rule applyEvent_follows [OF v(1) Cons.prems(3)])
  then have "counted s (ordinal event) (applyEvent lib s p event)" using counted_follows v Cons.prems by simp
  then show ?case using Cons.IH [of "ordinal event"] v Cons.prems shaped_follows [OF _ _ f] by auto
qed auto

text \<open>Before any event, an ordinal that all of them pass.\<close>

lemma ordinals_sorted:
  assumes "distinct (map ordinal events)"
  shows "\<exists>n. sorted_wrt (<) (n # map ordinal (sort_key ordinal events))"
proof -
  let ?es = "sort_key ordinal events"
  have "sorted (map ordinal ?es)" "distinct (map ordinal ?es)" using assms by (simp_all add: distinct_map)
  then have sorted: "sorted_wrt (<) (map ordinal ?es)" by (simp add: strict_sorted_iff)
  show ?thesis
  proof (cases ?es)
    case (Cons e es)
    then have "\<forall>x \<in> set (map ordinal ?es). ordinal e - 1 < x" using sorted by auto
    then show ?thesis using sorted by (intro exI [of _ "ordinal e - 1"]) simp
  qed simp
qed

lemma counted_project:
  assumes "distinct (map ordinal events)" and "validDates events"
  shows "\<exists>m. counted (sessionOf (sort_key ordinal events)) m (projectEvents lib (sort_key ordinal events))"
proof -
  obtain n where n: "sorted_wrt (<) (n # map ordinal (sort_key ordinal events))" using ordinals_sorted [OF assms(1)] by blast
  have "counted s n newProjector" for s by (simp add: counted_def newProjector_def emptyStore_def)
  then show ?thesis unfolding projectEvents_def using counted_foldl [OF n _ shaped_new] assms(2) by simp
qed

text \<open>The open turn is named by the ordinal of the event that opened it, and marked by the errors since then.\<close>

definition errorSince :: "int \<Rightarrow> TranscriptEventInput list \<Rightarrow> bool" where
  "errorSince n events \<longleftrightarrow> (\<exists>e \<in> set events. eventKind e = ''error'' \<and> n \<le> ordinal e)"

definition marked :: "string \<Rightarrow> TranscriptEventInput list \<Rightarrow> projector \<Rightarrow> bool" where
  "marked s seen p \<longleftrightarrow>
     (\<forall>t. current p = Some t \<longrightarrow>
        (\<exists>n. turnId t = s @ '':turn:'' @ printInt n \<and> (\<exists>e \<in> set seen. n \<le> ordinal e) \<and> turnFailed t = errorSince n seen))"

lemma edit_mark: "edit p q \<Longrightarrow> map_option (\<lambda>t. (turnId t, turnFailed t)) (current q) = map_option (\<lambda>t. (turnId t, turnFailed t)) (current p)"
  by (induction rule: edit.induct) (auto simp: writeOver_def Let_def)

lemma edits_mark: "edits p q \<Longrightarrow> map_option (\<lambda>t. (turnId t, turnFailed t)) (current q) = map_option (\<lambda>t. (turnId t, turnFailed t)) (current p)"
  by (induction rule: rtranclp_induct) (use edit_mark in auto)

lemma marked_edits: "edits p q \<Longrightarrow> marked s seen p \<Longrightarrow> marked s seen q"
proof -
  assume e: "edits p q" and m: "marked s seen p"
  show "marked s seen q"
    unfolding marked_def
  proof (intro allI impI)
    fix t assume "current q = Some t"
    then obtain t' where "current p = Some t'" "turnId t' = turnId t" "turnFailed t' = turnFailed t"
      using edits_mark [OF e] by (cases "current p") auto
    then show "\<exists>n. turnId t = s @ '':turn:'' @ printInt n \<and> (\<exists>e \<in> set seen. n \<le> ordinal e) \<and> turnFailed t = errorSince n seen"
      using m unfolding marked_def by metis
  qed
qed

text \<open>Opening a turn, or keeping it, at an event after all others.\<close>

lemma marked_ensure:
  assumes "\<not> invalidDate event" and "marked s seen p" and "\<forall>e \<in> set seen. ordinal e < ordinal event"
  shows "\<exists>t n. current (ensureTurn s event p) = Some t \<and> turnId t = s @ '':turn:'' @ printInt n \<and> n \<le> ordinal event \<and> turnFailed t = errorSince n seen"
proof (cases "current p")
  case None
  have "\<not> errorSince (ordinal event) seen" using assms(3) by (force simp: errorSince_def)
  then show ?thesis using None assms(1) by (auto simp: ensureTurn_def Let_def)
next
  case (Some t)
  then obtain n e where "turnId t = s @ '':turn:'' @ printInt n" "e \<in> set seen" "n \<le> ordinal e" "turnFailed t = errorSince n seen"
    using assms(2) by (auto simp: marked_def)
  then show ?thesis using Some assms(3) by (intro exI [of _ t] exI [of _ n]) (force simp: ensureTurn_def)
qed

lemma marked_later: "marked s seen p \<Longrightarrow> eventKind event \<noteq> ''error'' \<Longrightarrow> marked s (seen @ [event]) p"
  by (fastforce simp: marked_def errorSince_def)

lemma marked_follows:
  assumes "follows s event p q" and v: "\<not> invalidDate event" and "marked s seen p" and later: "\<forall>e \<in> set seen. ordinal e < ordinal event"
  shows "marked s (seen @ [event]) q"
proof (cases "eventKind event = ''error''")
  case True
  then obtain p2 where p2: "edits (ensureTurn s event p) p2" "q = failCurrent event p2" using assms(1) by (auto simp: follows_def fails_def)
  obtain t n where t: "current (ensureTurn s event p) = Some t" "turnId t = s @ '':turn:'' @ printInt n" "n \<le> ordinal event"
    using marked_ensure [OF v assms(3) later] by blast
  obtain t2 where "current p2 = Some t2" "turnId t2 = turnId t" using edits_mark [OF p2(1)] t(1) by auto
  then show ?thesis using t p2(2) True by (auto simp: marked_def errorSince_def failCurrent_def intro!: exI [of _ n])
next
  case False
  then obtain p1 where p1: "p1 \<in> entered s event p" "edits p1 q" using assms(1) by (auto simp: follows_def goesOn_def)
  have committed: "marked s seen (commitTurn event Turn_done p)" by (simp add: marked_def commitTurn_def split: option.split)
  have opened: "marked s (seen @ [event]) (ensureTurn s event p')" if m: "marked s seen p'" for p'
  proof -
    obtain t n where t: "current (ensureTurn s event p') = Some t" "turnId t = s @ '':turn:'' @ printInt n" "n \<le> ordinal event"
      "turnFailed t = errorSince n seen" using marked_ensure [OF v m later] by blast
    then show ?thesis using False by (auto simp: marked_def errorSince_def intro!: exI [of _ n])
  qed
  have "marked s (seen @ [event]) p1"
    using p1(1) marked_later [OF _ False] assms(3) committed opened unfolding entered_def by blast
  then show ?thesis by (rule marked_edits [OF p1(2)])
qed

lemma marked_foldl:
  "sorted_wrt (<) (map ordinal (seen @ events)) \<Longrightarrow> validDates events \<Longrightarrow> shaped p \<Longrightarrow> marked s seen p
   \<Longrightarrow> marked s (seen @ events) (foldl (applyEvent lib s) p events)"
proof (induction events arbitrary: seen p)
  case (Cons event events)
  have v: "\<not> invalidDate event" "validDates events" using Cons.prems(2) by simp_all
  have f: "follows s event p (applyEvent lib s p event)" by (rule applyEvent_follows [OF v(1) Cons.prems(3)])
  have "\<forall>e \<in> set seen. ordinal e < ordinal event" using Cons.prems(1) by (auto simp: sorted_wrt_append)
  then have "marked s (seen @ [event]) (applyEvent lib s p event)" using marked_follows [OF f v(1) Cons.prems(4)] by blast
  moreover have "shaped (applyEvent lib s p event)" by (rule shaped_follows [OF v(1) Cons.prems(3) f])
  ultimately show ?case using Cons.IH [of "seen @ [event]" "applyEvent lib s p event"] Cons.prems(1) v(2) by simp
qed simp

lemma marked_project:
  assumes "distinct (map ordinal events)" and "validDates events"
  shows "marked (sessionOf (sort_key ordinal events)) (sort_key ordinal events) (projectEvents lib (sort_key ordinal events))"
proof -
  have "sorted_wrt (<) (map ordinal (sort_key ordinal events))" using ordinals_sorted [OF assms(1)] by auto
  moreover have "marked s [] newProjector" for s by (simp add: marked_def newProjector_def)
  ultimately show ?thesis unfolding projectEvents_def
    using marked_foldl [of "[]" "sort_key ordinal events" newProjector "sessionOf (sort_key ordinal events)" lib] shaped_new assms(2) by simp
qed

lemma pendingItem_nonneg: "0 \<le> pendingItem x"
  by (simp add: pendingItem_def split: option.split TranscriptItem.split)

lemma pendingIn_pos: "0 < pendingIn st turn \<longleftrightarrow> (\<exists>i x. (i, turn, x) \<in> set (items st) \<and> 0 < pendingItem (Some x))"
proof -
  have "0 < sum_list (map (\<lambda>(i, t, x). if t = turn then pendingItem (Some x) else 0) xs)
    \<longleftrightarrow> (\<exists>i x. (i, turn, x) \<in> set xs \<and> 0 < pendingItem (Some x))" for xs :: "(string \<times> string \<times> TranscriptItem) list"
  proof (induction xs)
    case (Cons y ys)
    obtain i t x where y: "y = (i, t, x)" by (cases y) auto
    have "0 \<le> sum_list (map (\<lambda>(i, t, x). if t = turn then pendingItem (Some x) else 0) ys)"
      by (rule sum_list_nonneg) (auto simp: pendingItem_nonneg)
    then show ?case using Cons pendingItem_nonneg [of "Some x"] by (auto simp: y) blast
  qed simp
  then show ?thesis unfolding pendingIn_def .
qed

text \<open>
  C11. The status a transcript shows for the turn that is open is what its events and rows say, whatever was
  streamed, started, answered, finished late or written twice before: failed exactly if an error came since the event
  that opened the turn and gave it its name, else running exactly while one of its own messages, tool calls or
  questions is pending. The ordinals of the events are distinct and no date is invalid.
\<close>

theorem open_turn_status:
  assumes "distinct (map ordinal events)" and "validDates events" and "current (projectEvents lib (sort_key ordinal events)) = Some t"
  shows "\<exists>n. turnId t = sessionOf (sort_key ordinal events) @ '':turn:'' @ printInt n
    \<and> map_option turnStatus (map_of (turns (transcriptStore lib events)) (turnId t))
      = Some (if \<exists>e \<in> set events. eventKind e = ''error'' \<and> n \<le> ordinal e then Turn_error
          else if \<exists>i x. (i, turnId t, x) \<in> set (items (transcriptStore lib events)) \<and> 0 < pendingItem (Some x) then Turn_running
          else Turn_done)"
proof -
  let ?p = "projectEvents lib (sort_key ordinal events)"
  have "pending t = pendingIn (store ?p) (turnId t)"
    using counted_project [OF assms(1,2), of lib] assms(3) by (auto simp: counted_def)
  then have pending: "0 < pending t \<longleftrightarrow> (\<exists>i x. (i, turnId t, x) \<in> set (items (store ?p)) \<and> 0 < pendingItem (Some x))"
    by (simp add: pendingIn_pos)
  obtain n where n: "turnId t = sessionOf (sort_key ordinal events) @ '':turn:'' @ printInt n" "turnFailed t = errorSince n events"
    using marked_project [OF assms(1,2), of lib] assms(3) by (auto simp: marked_def errorSince_def)
  have shown: "map_option turnStatus (map_of (turns (transcriptStore lib events)) (turnId t)) = Some (flushStatus t)"
    and rows: "items (transcriptStore lib events) = items (store ?p)"
    using assms(3) by (simp_all add: transcriptStore_def flush_def storeTurn_def Let_def)
  note shown [unfolded flushStatus_def n(2) errorSince_def pending rows [symmetric]]
  then show ?thesis using n(1) by blast
qed

section \<open>Checkpoints\<close>

lemma readPart_print: "readPart (JArray [JNumber (int i), JString (partText part)]) = (i, part)"
  by (cases part) (simp_all add: readPart_def partText_def)

lemma readMessage_print: "readMessage [(''ordinal'', JNumber (messageOrdinal m)), (''parts'', JArray (map (\<lambda>(i, part). JArray [JNumber (int i), JString (partText part)]) (parts m)))] = m"
proof -
  have "map readPart (map (\<lambda>(i, part). JArray [JNumber (int i), JString (partText part)]) ps) = ps" for ps
    by (induction ps) (auto simp: readPart_print)
  then show ?thesis by (simp add: readMessage_def)
qed

lemma readTurn_print:
  "readTurn [(''id'', JString (turnId t)), (''hasContent'', JBool (hasContent t)), (''pending'', JNumber (pending t)), (''failed'', JBool (turnFailed t))] = t"
  by (cases t) (simp add: readTurn_def textOr_def isTrue_def)

lemma restore_checkpoint:
  assumes "parse (stringify (checkpointJson p)) = Some (checkpointJson p)" and "\<not> raised p"
  shows "restore parse (checkpoint p) (store p) = Some p"
proof -
  have "restore parse (checkpoint p) (store p) =
    Some \<lparr>current = current p, message = message p, store = store p, raised = False\<rparr>"
    unfolding restore_def checkpoint_def assms(1)
    by (cases "current p"; cases "message p")
      (simp_all add: checkpointJson_def fieldOf_def readTurn_print readMessage_print Let_def)
  then show ?thesis using assms(2) by (cases p) simp
qed

text \<open>
  C23. A transcript may be projected in pieces: a projector restored from its checkpoint over the kept
  store goes on as the one that saw every event, wherever the session was cut. The events so far had no
  invalid date, and the checkpoint, an object of literal keys, is parsed as it was printed.
\<close>

theorem checkpoint_resumes:
  assumes "p = foldl (applyEvent lib s) newProjector seen" and "validDates seen"
    and "parse (stringify (checkpointJson p)) = Some (checkpointJson p)"
  shows "map_option (\<lambda>q. foldl (applyEvent lib s) q rest) (restore parse (checkpoint p) (store p))
    = Some (foldl (applyEvent lib s) newProjector (seen @ rest))"
proof -
  have "\<not> raised p" using shaped_foldl [OF assms(2) shaped_new, of lib s] assms(1) by (simp add: shaped_def)
  then show ?thesis using restore_checkpoint [of parse p] assms by simp
qed

section \<open>Examples\<close>

definition exampleLibrary :: library where
  "exampleLibrary = \<lparr>parseOf = parseJson, datesOf = (\<lambda>_. None)\<rparr>"

definition exampleEvents :: "TranscriptEventInput list" where
  "exampleEvents =
     [\<lparr>eventSession = ''s'', ordinal = 2, eventKind = ''tool_execution_start'',
        payload = [(''toolCallId'', JString ''c''), (''toolName'', JString ''bash'')], createdAt = None\<rparr>,
      \<lparr>eventSession = ''s'', ordinal = 1, eventKind = ''turn_start'', payload = [], createdAt = None\<rparr>]"

lemma example_project:
  "current (projectEvents exampleLibrary (sort_key ordinal exampleEvents))
     = Some \<lparr>turnId = ''s:turn:1'', hasContent = True, pending = 1, turnFailed = False\<rparr>"
  "map fst (items (transcriptStore exampleLibrary exampleEvents)) = [''s:tool:c'']"
  "map (\<lambda>(i, t, x). t) (items (transcriptStore exampleLibrary exampleEvents)) = [''s:turn:1'']"
  "hidden (transcriptStore exampleLibrary exampleEvents) = []"
  by code_simp+


lemma example_row: "\<exists>x. items (transcriptStore exampleLibrary exampleEvents) = [(''s:tool:c'', ''s:turn:1'', x)] \<and> 0 < pendingItem (Some x)"
  unfolding ex_simps [symmetric] by (rule exI, rule conjI, code_simp, code_simp)

lemma example_dates: "validDates exampleEvents" by (simp add: validDates_def exampleEvents_def)

lemma transcript_shows_rows_witness:
  "\<exists>p. collectTranscriptProjection exampleLibrary exampleEvents = Some p \<and> ''s:turn:1'' \<in> blockId ` set (projectedTurns p)"
proof -
  obtain x where x: "items (transcriptStore exampleLibrary exampleEvents) = [(''s:tool:c'', ''s:turn:1'', x)]" using example_row by blast
  show ?thesis using transcript_shows_rows [of exampleEvents exampleLibrary] by (auto simp: x example_project(4) example_dates)
qed

lemma open_turn_status_witness:
  "map_option turnStatus (map_of (turns (transcriptStore exampleLibrary exampleEvents)) ''s:turn:1'') = Some Turn_running"
proof -
  have "distinct (map ordinal exampleEvents)" by (simp add: exampleEvents_def)
  moreover obtain x where "items (transcriptStore exampleLibrary exampleEvents) = [(''s:tool:c'', ''s:turn:1'', x)]" "0 < pendingItem (Some x)"
    using example_row by blast
  ultimately show ?thesis using open_turn_status [OF _ example_dates example_project(1)] by (auto simp: exampleEvents_def split: if_splits)
qed

lemma checkpoint_resumes_witness:
  "map_option (\<lambda>q. foldl (applyEvent exampleLibrary ''s'') q [hd exampleEvents])
     (restore parseJson (checkpoint (foldl (applyEvent exampleLibrary ''s'') newProjector [exampleEvents ! 1]))
       (store (foldl (applyEvent exampleLibrary ''s'') newProjector [exampleEvents ! 1])))
   = Some (foldl (applyEvent exampleLibrary ''s'') newProjector ([exampleEvents ! 1] @ [hd exampleEvents]))"
  by (rule checkpoint_resumes [OF refl]) (simp_all add: exampleEvents_def validDates_def)

end
