(* ===== verification/Transcript_Entries.thy ===== *)
theory Transcript_Entries
  imports Transcript_Projection
begin

text \<open>
  The first half of \<open>runtime-workspace-do/src/transcript.ts\<close>: a conversation's stored entries as
  transcript events, the two generators that scan the entries, oldest and newest first, and the
  range of events a transcript response streams. The storage is a library the source calls: its
  scan is a parameter, and \<open>scansEntries\<close> states what the code relies on. Entries are immutable and
  are read at one state of the storage. An entry's id is a natural number, and a message carries its
  timestamp as a number, as the library types them, an instant that a \<open>Date\<close> can hold.
\<close>

section \<open>Entries\<close>

record PiMessage =
  said :: fields
  sentAt :: int

record EntryRecord =
  entryId :: nat
  entryKind :: string
  entryConversation :: string
  entryModel :: "PiMessage list option"
  entryData :: "json option"

record RuntimeToolResult =
  resultStatus :: string
  content :: json

text \<open>What the reader is made over: the library's kind of a compaction, the withdrawn notices and the executor's results.\<close>

record transcriptContext =
  compactionKind :: string
  withdrawn :: "string \<Rightarrow> bool"
  executorResult :: "string \<Rightarrow> string \<Rightarrow> string \<Rightarrow> RuntimeToolResult option"

definition ENTRY_ORDINALS :: nat where "ENTRY_ORDINALS = 1024"
definition SCAN_ENTRIES :: nat where "SCAN_ENTRIES = 64"
definition WINDOW_ENTRIES :: nat where "WINDOW_ENTRIES = 32"
definition WINDOW_LIMIT :: nat where "WINDOW_LIMIT = 512"
definition FORWARD_IDS :: nat where "FORWARD_IDS = 256"
definition FORWARD_STEPS :: nat where "FORWARD_STEPS = 16"

definition entryOf :: "nat \<Rightarrow> nat" where
  "entryOf n = n div ENTRY_ORDINALS"

definition MACHINE_NOTICE :: string where "MACHINE_NOTICE = ''gitspace.machine-notice''"

definition modelOf :: "EntryRecord \<Rightarrow> PiMessage list" where
  "modelOf entry = (case entryModel entry of Some messages \<Rightarrow> messages | None \<Rightarrow> [])"

definition opensTurn :: "transcriptContext \<Rightarrow> EntryRecord \<Rightarrow> bool" where
  "opensTurn cx entry \<longleftrightarrow>
     entryKind entry \<noteq> MACHINE_NOTICE \<and> entryKind entry \<noteq> compactionKind cx \<and> entryKind entry \<noteq> WORKSPACE_REPORT_ENTRY
     \<and> (case modelOf entry of m # _ \<Rightarrow> isText ''user'' (map_of (said m) ''role'') | [] \<Rightarrow> False)"

section \<open>Their events\<close>

definition idText :: "nat \<Rightarrow> string" where
  "idText n = toRadix 10 n"

definition optionalField :: "string \<Rightarrow> json option \<Rightarrow> fields" where
  "optionalField k v = (case v of Some x \<Rightarrow> [(k, x)] | None \<Rightarrow> [])"

text \<open>A workspace's report as the message the transcript draws as a row.\<close>

definition workspaceReportMessage :: "EntryRecord \<Rightarrow> fields" where
  "workspaceReportMessage entry =
     (let data = asRecord (entryData entry) in
      [(''role'', JString ''custom''), (''customType'', JString WORKSPACE_REPORT_ENTRY), (''display'', JBool True),
       (''content'', case fieldOf data ''text'' of Some (JString s) \<Rightarrow> JString s | _ \<Rightarrow> JString []),
       (''details'', case fieldOf data ''payload'' of Some v \<Rightarrow> v | None \<Rightarrow> JNull)])"

definition noticeTitle :: "EntryRecord \<Rightarrow> string" where
  "noticeTitle entry = (case fieldOf (asRecord (entryData entry)) ''source'' of Some (JString s) \<Rightarrow> s | _ \<Rightarrow> ''Machine'')"

definition noticeMessage :: "EntryRecord \<Rightarrow> PiMessage \<Rightarrow> fields" where
  "noticeMessage entry source =
     [(''role'', JString ''custom''), (''customType'', JString MACHINE_NOTICE), (''display'', JBool True),
      (''title'', JString (noticeTitle entry))] @ optionalField ''content'' (map_of (said source) ''content'')"

text \<open>A tool result that was recorded by reference shows what the executor stored.\<close>

definition storedResult :: "transcriptContext \<Rightarrow> EntryRecord \<Rightarrow> PiMessage \<Rightarrow> RuntimeToolResult option" where
  "storedResult cx entry source =
     (if \<not> isText ''toolResult'' (map_of (said source) ''role'') then None
      else let reference = asRecord (fieldOf (asRecord (map_of (said source) ''details'')) ''executorResultReference'') in
        case (fieldOf reference ''attemptId'', fieldOf reference ''sha256'') of
          (Some (JString attempt), Some (JString sha256)) \<Rightarrow> executorResult cx attempt sha256 (entryConversation entry)
        | _ \<Rightarrow> None)"

definition shownMessage :: "transcriptContext \<Rightarrow> EntryRecord \<Rightarrow> PiMessage \<Rightarrow> fields" where
  "shownMessage cx entry source =
     (case storedResult cx entry source of
        Some result \<Rightarrow> spread (said source) [(''content'', content result), (''isError'', JBool (resultStatus result \<noteq> ''completed''))]
      | None \<Rightarrow> said source)"

definition entryPayload :: "transcriptContext \<Rightarrow> EntryRecord \<Rightarrow> PiMessage \<Rightarrow> string \<times> fields" where
  "entryPayload cx entry source =
     (let named = (\<lambda>message. [(''message'', JObject message), (''entryId'', JString (idText (entryId entry)))]) in
      if entryKind entry = MACHINE_NOTICE then (''message_end'', named (noticeMessage entry source))
      else if entryKind entry = WORKSPACE_REPORT_ENTRY then (''message_end'', named (workspaceReportMessage entry))
      else if entryKind entry = compactionKind cx then (''compaction'', [(''entryId'', JString (idText (entryId entry)))])
      else (''message_end'', named (shownMessage cx entry source)))"

definition entryEvent :: "transcriptContext \<Rightarrow> EntryRecord \<Rightarrow> nat \<times> PiMessage \<Rightarrow> TranscriptEventInput" where
  "entryEvent cx entry im =
     \<lparr>eventSession = [], ordinal = int (entryId entry * ENTRY_ORDINALS + fst im),
      eventKind = fst (entryPayload cx entry (snd im)), payload = snd (entryPayload cx entry (snd im)),
      createdAt = Some (At_text (isoText (sentAt (snd im))))\<rparr>"

definition entryEvents :: "transcriptContext \<Rightarrow> EntryRecord \<Rightarrow> TranscriptEventInput list" where
  "entryEvents cx entry =
     (if withdrawn cx (idText (entryId entry)) then []
      else map (entryEvent cx entry) (zip [0..<length (modelOf entry)] (modelOf entry)))"

text \<open>The entries that are only shown: a fallback to another model, and a report that was delivered as an event.\<close>

definition noticeEvent :: "EntryRecord \<Rightarrow> TranscriptEventInput option" where
  "noticeEvent entry =
     (let event = (\<lambda>message. \<lparr>eventSession = [], ordinal = int (entryId entry * ENTRY_ORDINALS + length (modelOf entry)),
        eventKind = ''message_end'', payload = [(''message'', JObject message)], createdAt = None\<rparr>) in
      if entryKind entry = WORKSPACE_REPORT_ENTRY
      then (if modelOf entry \<noteq> [] then None else Some (event (workspaceReportMessage entry)))
      else if entryKind entry = ''gitspace.model-fallback''
      then (case fieldOf (asRecord (entryData entry)) ''message'' of
          None \<Rightarrow> None
        | Some text \<Rightarrow> Some (event [(''role'', JString ''custom''), (''customType'', JString (entryKind entry)), (''display'', JBool True),
            (''content'', case text of JString s \<Rightarrow> JString s | _ \<Rightarrow> JString [])]))
      else None)"

section \<open>The storage\<close>

text \<open>
  A scan of a conversation asks for the entries from an id on and below a cursor, at most so many; it
  answers them newest first, with the cursor to go on from when there are more.
\<close>

type_synonym scanner = "nat option \<Rightarrow> nat \<Rightarrow> nat option \<Rightarrow> EntryRecord list \<times> nat option"

definition scanned :: "nat option \<Rightarrow> nat option \<Rightarrow> EntryRecord list \<Rightarrow> EntryRecord list" where
  "scanned minimum cursor es =
     rev (filter (\<lambda>e. (case minimum of Some m \<Rightarrow> m \<le> entryId e | None \<Rightarrow> True)
                     \<and> (case cursor of Some c \<Rightarrow> entryId e < c | None \<Rightarrow> True)) es)"

definition scansEntries :: "scanner \<Rightarrow> EntryRecord list \<Rightarrow> bool" where
  "scansEntries scan es \<longleftrightarrow>
     sorted_wrt (<) (map entryId es)
     \<and> (\<forall>minimum limit cursor. 0 < limit \<longrightarrow>
          fst (scan minimum limit cursor) = take limit (scanned minimum cursor es)
          \<and> (case snd (scan minimum limit cursor) of
               None \<Rightarrow> length (scanned minimum cursor es) \<le> limit
             | Some c \<Rightarrow> scanned minimum cursor es \<noteq> [] \<and> c = entryId (List.last (fst (scan minimum limit cursor)))))"

text \<open>A storage that answers like this.\<close>

definition storageOf :: "EntryRecord list \<Rightarrow> scanner" where
  "storageOf es minimum limit cursor =
     (let newest = scanned minimum cursor es in
      (take limit newest,
       if length newest \<le> limit then None else Some (entryId (List.last (take limit newest)))))"

lemma storageOf_scans: "sorted_wrt (<) (map entryId es) \<Longrightarrow> scansEntries (storageOf es) es"
  by (auto simp: scansEntries_def storageOf_def Let_def)

text \<open>The newest entries first, a page at a time, while the page names a cursor.\<close>

partial_function (option) entriesFrom :: "scanner \<Rightarrow> nat option \<Rightarrow> EntryRecord list option" where
  [code]: "entriesFrom scan cursor =
     (let page = scan None SCAN_ENTRIES cursor in
      case snd page of
        None \<Rightarrow> Some (fst page)
      | Some c \<Rightarrow> Option.bind (entriesFrom scan (Some c)) (\<lambda>older. Some (fst page @ older)))"

definition entriesBackward :: "scanner \<Rightarrow> nat option \<Rightarrow> EntryRecord list option" where
  "entriesBackward scan maxEntry = entriesFrom scan (map_option (\<lambda>m. m + 1) maxEntry)"

text \<open>The oldest first: each range of ids is read whole and turned round. Without \<open>steps\<close> there is no bound.\<close>

function entriesOnward :: "scanner \<Rightarrow> EntryRecord option \<Rightarrow> nat \<Rightarrow> nat \<Rightarrow> nat option \<Rightarrow> EntryRecord list" where
  "entriesOnward scan minimum upper highWater steps =
     (if highWater < upper \<or> steps = Some 0 then []
      else let page = fst (scan (map_option entryId minimum) (FORWARD_IDS + 1) (Some (upper + FORWARD_IDS)));
               newer = rev (filter (\<lambda>e. entryId e \<le> highWater
                 \<and> (case minimum of None \<Rightarrow> True | Some m \<Rightarrow> entryId m < entryId e)) page) in
        newer @ entriesOnward scan (if newer = [] then minimum else Some (List.last newer)) (upper + FORWARD_IDS)
          highWater (map_option (\<lambda>n. n - 1) steps))"
  by pat_completeness auto
termination by (relation "measure (\<lambda>(scan, minimum, upper, highWater, steps). Suc highWater - upper)") (auto simp: FORWARD_IDS_def)

declare entriesOnward.simps [simp del]

definition entriesForward :: "scanner \<Rightarrow> EntryRecord option \<Rightarrow> nat \<Rightarrow> nat option \<Rightarrow> EntryRecord list" where
  "entriesForward scan after highWater steps =
     entriesOnward scan after (case after of None \<Rightarrow> 0 | Some e \<Rightarrow> entryId e + 1) highWater steps"

definition newestEntry :: "scanner \<Rightarrow> EntryRecord option" where
  "newestEntry scan = (case fst (scan None 1 None) of e # _ \<Rightarrow> Some e | [] \<Rightarrow> None)"

text \<open>The events of a transcript response, in the range of ordinals that was asked for.\<close>

record RuntimeTranscriptRange =
  rangeFrom :: "nat option"
  rangeBefore :: "nat option"
  newestFirst :: bool

definition inRange :: "nat \<Rightarrow> nat \<Rightarrow> TranscriptEventInput \<Rightarrow> bool" where
  "inRange from before event \<longleftrightarrow> int from \<le> ordinal event \<and> ordinal event < int before"

definition fromOf :: "RuntimeTranscriptRange \<Rightarrow> nat" where
  "fromOf asked = (case rangeFrom asked of Some n \<Rightarrow> n | None \<Rightarrow> 0)"

definition beforeOf :: "RuntimeTranscriptRange \<Rightarrow> nat" where
  "beforeOf asked = (case rangeBefore asked of Some n \<Rightarrow> n | None \<Rightarrow> 2 ^ 53 - 1)"

text \<open>The stream does not read what the executor stored.\<close>

definition streamed :: "transcriptContext \<Rightarrow> transcriptContext" where
  "streamed cx = cx\<lparr>executorResult := (\<lambda>_ _ _. None)\<rparr>"

definition transcriptEvents :: "transcriptContext \<Rightarrow> scanner \<Rightarrow> string \<Rightarrow> RuntimeTranscriptRange \<Rightarrow> TranscriptEventInput list option" where
  "transcriptEvents cx scan session asked =
     (let from = fromOf asked; before = beforeOf asked;
          sent = map (\<lambda>event. event\<lparr>eventSession := session\<rparr>) in
      case newestEntry scan of
        None \<Rightarrow> Some []
      | Some newest \<Rightarrow>
          if before \<le> from then Some []
          else if newestFirst asked
          then map_option (\<lambda>entries.
                 sent (concat (map (\<lambda>entry. filter (inRange from before) (rev (entryEvents (streamed cx) entry)))
                   (takeWhile (\<lambda>entry. \<not> entryId entry < entryOf from) entries))))
               (entriesBackward scan (Some (min (entryId newest) (entryOf (before - 1)))))
          else let start = (if from = 0 then None
                      else case fst (scan None 1 (Some (entryOf from))) of e # _ \<Rightarrow> Some e | [] \<Rightarrow> None) in
            Some (sent (concat (map (\<lambda>entry. filter (inRange from before) (entryEvents (streamed cx) entry))
              (takeWhile (\<lambda>entry. \<not> entryOf (before - 1) < entryId entry) (entriesForward scan start (entryId newest) None))))))"

section \<open>The generators\<close>

lemma takeWhile_sorted: "sorted_wrt (\<lambda>a b. P b \<longrightarrow> P a) xs \<Longrightarrow> takeWhile P xs = filter P xs"
  by (induction xs) (auto simp: filter_empty_conv)

lemma concat_map_where: "(\<And>x. x \<in> set xs \<Longrightarrow> \<not> P x \<Longrightarrow> f x = []) \<Longrightarrow> concat (map f (filter P xs)) = concat (map f xs)"
  by (induction xs) auto

lemma sorted_split:
  assumes "sorted_wrt (<) (map f xs)"
  shows "filter (\<lambda>x. R x \<and> f x < (c :: nat)) xs @ filter (\<lambda>x. R x \<and> c \<le> f x) xs = filter R xs"
  using assms
proof (induction xs)
  case (Cons x xs)
  show ?case
  proof (cases "c \<le> f x")
    case True
    then have "filter (\<lambda>x. R x \<and> f x < c) xs = []" using Cons.prems by (fastforce simp: filter_empty_conv)
    with True show ?thesis using Cons by simp
  next
    case False
    then show ?thesis using Cons by simp
  qed
qed simp

lemma below_cut:
  "sorted_wrt (\<lambda>a b. entryId b < entryId a) xs \<Longrightarrow> take n xs \<noteq> [] \<Longrightarrow>
   filter (\<lambda>e. entryId e < entryId (List.last (take n xs))) xs = drop n xs"
proof (induction xs arbitrary: n)
  case (Cons x xs)
  from Cons.prems(2) obtain k where k: "n = Suc k" by (cases n) auto
  show ?case
  proof (cases "take k xs = []")
    case True
    have "filter (\<lambda>e. entryId e < entryId x) xs = xs" using Cons.prems(1) by (simp add: filter_id_conv)
    moreover have "k = 0 \<or> xs = []" using True by simp
    ultimately show ?thesis using k by auto
  next
    case False
    have "entryId (List.last (take k xs)) < entryId x"
      using Cons.prems(1) in_set_takeD [OF last_in_set [OF False]] by simp
    then show ?thesis using Cons k False by auto
  qed
qed simp

lemma scanned_descends:
  assumes "sorted_wrt (<) (map entryId es)"
  shows "sorted_wrt (\<lambda>a b. entryId b < entryId a) (scanned minimum cursor es)"
  using assms by (simp add: scanned_def sorted_wrt_rev sorted_wrt_map sorted_wrt_filter)

lemma scanned_lower:
  assumes "e \<in> set (scanned None cursor es)"
  shows "scanned None (Some (entryId e)) es = filter (\<lambda>x. entryId x < entryId e) (scanned None cursor es)"
proof -
  have "filter (\<lambda>x. entryId x < entryId e) es
      = filter (\<lambda>x. entryId x < entryId e \<and> (case cursor of Some c \<Rightarrow> entryId x < c | None \<Rightarrow> True)) es"
    using assms by (intro filter_cong) (auto simp: scanned_def split: option.splits)
  then show ?thesis by (simp add: scanned_def rev_filter conj_commute)
qed

lemma scan_pageD:
  assumes "scansEntries scan es" "0 < limit"
  shows "fst (scan minimum limit cursor) = take limit (scanned minimum cursor es)"
    and "snd (scan minimum limit cursor) = None \<Longrightarrow> length (scanned minimum cursor es) \<le> limit"
    and "snd (scan minimum limit cursor) = Some c \<Longrightarrow>
         scanned minimum cursor es \<noteq> [] \<and> c = entryId (List.last (take limit (scanned minimum cursor es)))"
proof -
  have law: "fst (scan minimum limit cursor) = take limit (scanned minimum cursor es)
      \<and> (case snd (scan minimum limit cursor) of
           None \<Rightarrow> length (scanned minimum cursor es) \<le> limit
         | Some c \<Rightarrow> scanned minimum cursor es \<noteq> [] \<and> c = entryId (List.last (fst (scan minimum limit cursor))))"
    using assms unfolding scansEntries_def by blast
  then show "fst (scan minimum limit cursor) = take limit (scanned minimum cursor es)" ..
  show "snd (scan minimum limit cursor) = None \<Longrightarrow> length (scanned minimum cursor es) \<le> limit"
    and "snd (scan minimum limit cursor) = Some c \<Longrightarrow>
         scanned minimum cursor es \<noteq> [] \<and> c = entryId (List.last (take limit (scanned minimum cursor es)))"
    using law by simp_all
qed

lemma scansEntries_sorted: "scansEntries scan es \<Longrightarrow> sorted_wrt (<) (map entryId es)"
  by (simp add: scansEntries_def)

lemma entriesFrom_all:
  assumes "scansEntries scan es"
  shows "entriesFrom scan cursor = Some (scanned None cursor es)"
proof (induction "length (scanned None cursor es)" arbitrary: cursor rule: less_induct)
  case less
  note law = scan_pageD [OF assms, of SCAN_ENTRIES None cursor]
  have pos: "0 < SCAN_ENTRIES" by (simp add: SCAN_ENTRIES_def)
  show ?case
  proof (cases "snd (scan None SCAN_ENTRIES cursor)")
    case None
    then show ?thesis using law [OF pos] by (subst entriesFrom.simps) (simp add: Let_def)
  next
    case (Some c)
    let ?xs = "scanned None cursor es"
    have some: "?xs \<noteq> []" and c: "c = entryId (List.last (take SCAN_ENTRIES ?xs))" using law(3) [OF pos Some] by blast+
    have part: "take SCAN_ENTRIES ?xs \<noteq> []" using some pos by simp
    then have mem: "List.last (take SCAN_ENTRIES ?xs) \<in> set ?xs" by (metis in_set_takeD last_in_set)
    have left: "scanned None (Some c) es = drop SCAN_ENTRIES ?xs"
      unfolding c scanned_lower [OF mem] by (rule below_cut [OF scanned_descends [OF scansEntries_sorted [OF assms]] part])
    moreover have "length (drop SCAN_ENTRIES ?xs) < length ?xs" using some pos by simp
    ultimately have "entriesFrom scan (Some c) = Some (drop SCAN_ENTRIES ?xs)" using less by simp
    then show ?thesis using Some law(1) [OF pos] by (subst entriesFrom.simps) (simp add: Let_def)
  qed
qed

lemma entriesBackward_all:
  assumes "scansEntries scan es"
  shows "entriesBackward scan (Some m) = Some (rev (filter (\<lambda>e. entryId e \<le> m) es))"
    and "entriesBackward scan None = Some (rev es)"
  by (simp_all add: entriesBackward_def entriesFrom_all [OF assms] scanned_def less_Suc_eq_le)

definition newerThan :: "EntryRecord option \<Rightarrow> EntryRecord \<Rightarrow> bool" where
  "newerThan after e \<longleftrightarrow> (case after of None \<Rightarrow> True | Some m \<Rightarrow> entryId m < entryId e)"

lemma length_card_map: "distinct (map f xs) \<Longrightarrow> length xs = card (f ` set xs)"
  by (metis distinct_card length_map set_map)

text \<open>A range of ids with the entry before it never holds more entries than the page that asks for it.\<close>

lemma range_fits:
  assumes "sorted_wrt (<) (map entryId es)"
    and "\<And>e. e \<in> set es \<Longrightarrow> newerThan minimum e \<Longrightarrow> upper \<le> entryId e"
  shows "length (scanned (map_option entryId minimum) (Some (upper + n)) es) \<le> n + 1"
proof -
  let ?xs = "filter (\<lambda>e. (case map_option entryId minimum of Some m \<Rightarrow> m \<le> entryId e | None \<Rightarrow> True) \<and> entryId e < upper + n) es"
  let ?low = "case minimum of None \<Rightarrow> upper | Some m \<Rightarrow> entryId m"
  have "entryId ` set ?xs \<subseteq> insert ?low {upper..<upper + n}"
    using assms(2) by (force simp: newerThan_def split: option.splits)
  then have "card (entryId ` set ?xs) \<le> card (insert ?low {upper..<upper + n})" by (intro card_mono) auto
  also have "\<dots> \<le> n + 1" by (simp add: card_insert_if)
  finally have few: "card (entryId ` set ?xs) \<le> n + 1" .
  have "distinct (map entryId es)" using assms(1) strict_sorted_iff by blast
  then have "distinct (map entryId ?xs)" by (rule distinct_map_filter)
  then have "length ?xs = card (entryId ` set ?xs)" by (rule length_card_map)
  with few show ?thesis by (simp add: scanned_def)
qed

text \<open>What the forward scan yields: the entries after \<open>minimum\<close>, in order, up to where its steps end.\<close>

definition onward :: "EntryRecord option \<Rightarrow> nat \<Rightarrow> nat \<Rightarrow> nat option \<Rightarrow> EntryRecord \<Rightarrow> bool" where
  "onward minimum upper highWater steps e \<longleftrightarrow>
     newerThan minimum e \<and> entryId e \<le> highWater
     \<and> (case steps of None \<Rightarrow> True | Some n \<Rightarrow> entryId e < upper + FORWARD_IDS * n)"

lemma newer_range:
  assumes "newer = filter (\<lambda>e. (newerThan minimum e \<and> entryId e \<le> highWater) \<and> entryId e < upper) es"
    and "sorted_wrt (<) (map entryId es)" and "e \<in> set es" and "entryId e \<le> highWater"
  shows "newerThan (if newer = [] then minimum else Some (List.last newer)) e \<longleftrightarrow> newerThan minimum e \<and> (newer \<noteq> [] \<longrightarrow> upper \<le> entryId e)"
    (is "?now \<longleftrightarrow> ?then")
proof (cases "newer = []")
  case False
  have "sorted_wrt (<) (map entryId newer)" using assms(1,2) by (simp add: sorted_wrt_map sorted_wrt_filter)
  then have greatest: "x \<in> set newer \<Longrightarrow> entryId x \<le> entryId (List.last newer)" for x
    by (induction newer rule: rev_induct) (auto simp: sorted_wrt_append)
  have "List.last newer \<in> set newer" using False by simp
  then have last: "newerThan minimum (List.last newer)" "entryId (List.last newer) < upper" using assms(1) by auto
  show ?thesis
  proof
    assume now: ?now
    then have later: "entryId (List.last newer) < entryId e" using False by (simp add: newerThan_def)
    then have "newerThan minimum e" using last(1) by (auto simp: newerThan_def split: option.splits)
    moreover have "e \<notin> set newer" using later greatest by fastforce
    ultimately show ?then using assms by auto
  next
    assume ?then
    then show ?now using last(2) False by (simp add: newerThan_def)
  qed
qed simp

lemma entriesOnward_all:
  assumes "scansEntries scan es"
    and "\<And>e. e \<in> set es \<Longrightarrow> newerThan minimum e \<Longrightarrow> entryId e \<le> highWater \<Longrightarrow> upper \<le> entryId e"
    and "\<And>m. minimum = Some m \<Longrightarrow> entryId m < upper"
  shows "entriesOnward scan minimum upper highWater steps = filter (onward minimum upper highWater steps) es"
  using assms(2,3)
proof (induction "Suc highWater - upper" arbitrary: minimum upper steps rule: less_induct)
  case less
  have sorted: "sorted_wrt (<) (map entryId es)" by (rule scansEntries_sorted [OF assms(1)])
  show ?case
  proof (cases "highWater < upper \<or> steps = Some 0")
    case True
    have "filter (onward minimum upper highWater steps) es = []"
      using True less.prems(1) by (force simp: onward_def filter_empty_conv split: option.splits)
    then show ?thesis using True by (simp add: entriesOnward.simps)
  next
    case False
    let ?page = "scanned (map_option entryId minimum) (Some (upper + FORWARD_IDS)) es"
    define newer where "newer = filter (\<lambda>e. (newerThan minimum e \<and> entryId e \<le> highWater) \<and> entryId e < upper + FORWARD_IDS) es"
    define next_min where "next_min = (if newer = [] then minimum else Some (List.last newer))"
    have "upper \<le> entryId e" if "e \<in> set es" "newerThan minimum e" for e
      using less.prems(1) [OF that] False by linarith
    then have "length ?page \<le> FORWARD_IDS + 1" using sorted by (rule range_fits [rotated])
    then have page: "fst (scan (map_option entryId minimum) (FORWARD_IDS + 1) (Some (upper + FORWARD_IDS))) = ?page"
      using scan_pageD(1) [OF assms(1)] by simp
    have read: "rev (filter (\<lambda>e. entryId e \<le> highWater \<and> (case minimum of None \<Rightarrow> True | Some m \<Rightarrow> entryId m < entryId e)) ?page) = newer"
      unfolding scanned_def newer_def rev_filter rev_rev_ident filter_filter
      by (intro filter_cong) (auto simp: newerThan_def split: option.splits)
    have onwards: "entriesOnward scan minimum upper highWater steps
        = newer @ entriesOnward scan next_min (upper + FORWARD_IDS) highWater (map_option (\<lambda>n. n - 1) steps)"
      using False by (subst entriesOnward.simps) (simp only: if_False page read Let_def next_min_def)
    have newest: "newerThan next_min e \<longleftrightarrow> newerThan minimum e \<and> (newer \<noteq> [] \<longrightarrow> upper + FORWARD_IDS \<le> entryId e)"
      if "e \<in> set es" "entryId e \<le> highWater" for e
      unfolding next_min_def by (rule newer_range [OF newer_def sorted that])
    have gone: "upper + FORWARD_IDS \<le> entryId e" if "e \<in> set es" "newerThan minimum e" "entryId e \<le> highWater" "newer = []" for e
      using that unfolding newer_def filter_empty_conv by (meson not_le)
    have "entriesOnward scan next_min (upper + FORWARD_IDS) highWater (map_option (\<lambda>n. n - 1) steps)
        = filter (onward next_min (upper + FORWARD_IDS) highWater (map_option (\<lambda>n. n - 1) steps)) es"
    proof (rule less.hyps)
      show "Suc highWater - (upper + FORWARD_IDS) < Suc highWater - upper" using False by (auto simp: FORWARD_IDS_def)
      show "upper + FORWARD_IDS \<le> entryId e" if "e \<in> set es" "newerThan next_min e" "entryId e \<le> highWater" for e
        using newest [OF that(1,3)] that gone by blast
      show "entryId m < upper + FORWARD_IDS" if "next_min = Some m" for m
      proof (cases "newer = []")
        case True
        then show ?thesis using that less.prems(2) by (fastforce simp: next_min_def)
      next
        case False
        then have "m \<in> set newer" using that last_in_set by (auto simp: next_min_def)
        then show ?thesis by (simp add: newer_def)
      qed
    qed
    also have "\<dots> = filter (\<lambda>e. onward minimum upper highWater steps e \<and> upper + FORWARD_IDS \<le> entryId e) es"
    proof (rule filter_cong [OF refl])
      fix e assume "e \<in> set es"
      then show "onward next_min (upper + FORWARD_IDS) highWater (map_option (\<lambda>n. n - 1) steps) e
          \<longleftrightarrow> onward minimum upper highWater steps e \<and> upper + FORWARD_IDS \<le> entryId e"
        using newest [of e] gone [of e] False
        by (cases "entryId e \<le> highWater"; cases steps; cases "the steps") (auto simp: onward_def)
    qed
    finally have "entriesOnward scan minimum upper highWater steps
        = newer @ filter (\<lambda>e. onward minimum upper highWater steps e \<and> upper + FORWARD_IDS \<le> entryId e) es"
      using onwards by simp
    also have "newer = filter (\<lambda>e. onward minimum upper highWater steps e \<and> entryId e < upper + FORWARD_IDS) es"
      unfolding newer_def
      by (intro filter_cong refl) (use False in \<open>cases steps; cases "the steps"; auto simp: onward_def\<close>)
    finally show ?thesis using sorted_split [OF sorted] by simp
  qed
qed

lemma entriesForward_all:
  assumes "scansEntries scan es"
  shows "entriesForward scan after highWater None = filter (\<lambda>e. newerThan after e \<and> entryId e \<le> highWater) es"
    and "entriesForward scan (Some m) highWater (Some n)
         = filter (\<lambda>e. entryId m < entryId e \<and> entryId e \<le> highWater \<and> entryId e \<le> entryId m + FORWARD_IDS * n) es"
proof -
  show "entriesForward scan after highWater None = filter (\<lambda>e. newerThan after e \<and> entryId e \<le> highWater) es"
    unfolding entriesForward_def
    by (subst entriesOnward_all [OF assms]) (auto simp: onward_def [abs_def] newerThan_def split: option.splits)
  show "entriesForward scan (Some m) highWater (Some n)
      = filter (\<lambda>e. entryId m < entryId e \<and> entryId e \<le> highWater \<and> entryId e \<le> entryId m + FORWARD_IDS * n) es"
    unfolding entriesForward_def
    by (subst entriesOnward_all [OF assms]) (auto simp: onward_def [abs_def] newerThan_def less_Suc_eq_le)
qed

section \<open>The streams\<close>

lemma entry_ordinals:
  assumes "event \<in> set (entryEvents cx entry)" and "length (modelOf entry) \<le> ENTRY_ORDINALS"
  shows "int (entryId entry * ENTRY_ORDINALS) \<le> ordinal event" and "ordinal event < int (entryId entry * ENTRY_ORDINALS + ENTRY_ORDINALS)"
  using assms by (auto simp: entryEvents_def entryEvent_def set_zip split: if_splits)

text \<open>An entry outside the range holds no event of it.\<close>

lemma outside_range:
  assumes "length (modelOf entry) \<le> ENTRY_ORDINALS"
    and "entryId entry < entryOf from \<or> entryOf (before - 1) < entryId entry \<and> from < before"
  shows "filter (inRange from before) (entryEvents cx entry) = []"
proof -
  have "\<not> inRange from before event" if "event \<in> set (entryEvents cx entry)" for event
  proof
    assume "inRange from before event"
    then have between: "from < entryId entry * ENTRY_ORDINALS + ENTRY_ORDINALS" "entryId entry * ENTRY_ORDINALS < before"
      using entry_ordinals [OF that assms(1)] by (simp_all only: inRange_def ENTRY_ORDINALS_def) linarith+
    then have "entryOf from \<le> entryId entry" "entryId entry \<le> entryOf (before - 1)"
      by (auto simp: entryOf_def ENTRY_ORDINALS_def div_le_dividend less_eq_div_iff_mult_less_eq)
    with assms(2) show False by linarith
  qed
  then show ?thesis by (simp add: filter_empty_conv)
qed

definition eventsWithin :: "transcriptContext \<Rightarrow> nat \<Rightarrow> nat \<Rightarrow> EntryRecord list \<Rightarrow> TranscriptEventInput list" where
  "eventsWithin cx from before es = filter (inRange from before) (concat (map (entryEvents cx) es))"

lemma eventsWithin_map: "eventsWithin cx from before es = concat (map (\<lambda>entry. filter (inRange from before) (entryEvents cx entry)) es)"
  by (simp add: eventsWithin_def filter_concat comp_def)

lemma rev_entries: "concat (map (\<lambda>entry. filter P (rev (f entry))) (rev es)) = rev (concat (map (\<lambda>entry. filter P (f entry)) es))"
  by (simp add: rev_concat rev_map rev_filter comp_def)

lemma ascending_all:
  assumes "sorted_wrt (<) (map entryId es)" and "\<forall>entry \<in> set es. length (modelOf entry) \<le> ENTRY_ORDINALS"
  shows "sorted_wrt (<) (map ordinal (concat (map (entryEvents cx) es)))"
  using assms
proof (induction es)
  case (Cons entry es)
  have own: "sorted_wrt (<) (map ordinal (entryEvents cx entry))"
    by (auto simp: entryEvents_def entryEvent_def sorted_wrt_iff_nth_less)
  have "ordinal a < ordinal b" if "a \<in> set (entryEvents cx entry)" "e \<in> set es" "b \<in> set (entryEvents cx e)" for a b e
  proof -
    have "Suc (entryId entry) \<le> entryId e" using Cons.prems(1) that(2) by auto
    then have "entryId entry * ENTRY_ORDINALS + ENTRY_ORDINALS \<le> entryId e * ENTRY_ORDINALS"
      by (metis add.commute mult_Suc mult_le_mono1)
    moreover have "length (modelOf entry) \<le> ENTRY_ORDINALS" "length (modelOf e) \<le> ENTRY_ORDINALS"
      using Cons.prems(2) that(2) by simp_all
    ultimately show ?thesis using entry_ordinals(2) [OF that(1)] entry_ordinals(1) [OF that(3)] by linarith
  qed
  then show ?case using own Cons by (auto simp: sorted_wrt_append)
qed simp

lemma newest_last:
  assumes "scansEntries scan es"
  shows "newestEntry scan = (if es = [] then None else Some (List.last es))"
proof -
  have "fst (scan None 1 None) = take 1 (rev es)" using scan_pageD(1) [OF assms, of 1 None None] by (simp add: scanned_def)
  then show ?thesis by (cases es rule: rev_cases) (simp_all add: newestEntry_def)
qed

lemma newest_greatest:
  assumes "sorted_wrt (<) (map entryId es)" and "e \<in> set es"
  shows "entryId e \<le> entryId (List.last es)"
  using assms by (induction es rule: rev_induct) (auto simp: sorted_wrt_append)

lemma stream_back:
  assumes scans: "scansEntries scan es" and short: "\<forall>entry \<in> set es. length (modelOf entry) \<le> ENTRY_ORDINALS"
    and some: "es \<noteq> []" and "from < before"
  shows "map_option (\<lambda>entries. concat (map (\<lambda>entry. filter (inRange from before) (rev (entryEvents cx entry)))
           (takeWhile (\<lambda>entry. \<not> entryId entry < entryOf from) entries)))
         (entriesBackward scan (Some (min (entryId (List.last es)) (entryOf (before - 1)))))
       = Some (rev (eventsWithin cx from before es))"
proof -
  note sorted = scansEntries_sorted [OF scans]
  let ?low = "\<lambda>entry. \<not> entryId entry < entryOf from"
  let ?top = "\<lambda>entry. entryId entry \<le> min (entryId (List.last es)) (entryOf (before - 1))"
  have "sorted_wrt (\<lambda>a b. entryId b < entryId a) (rev (filter ?top es))"
    using sorted by (simp add: sorted_wrt_rev sorted_wrt_map sorted_wrt_filter)
  then have "sorted_wrt (\<lambda>a b. ?low b \<longrightarrow> ?low a) (rev (filter ?top es))" by (rule sorted_wrt_mono_rel [rotated]) auto
  then have "takeWhile ?low (rev (filter ?top es)) = rev (filter (\<lambda>e. ?top e \<and> ?low e) es)"
    by (simp only: takeWhile_sorted rev_filter [symmetric] filter_filter)
  moreover have "concat (map (\<lambda>entry. filter (inRange from before) (entryEvents cx entry)) (filter (\<lambda>e. ?top e \<and> ?low e) es))
      = eventsWithin cx from before es"
    unfolding eventsWithin_map
  proof (rule concat_map_where)
    fix e assume e: "e \<in> set es" "\<not> (?top e \<and> ?low e)"
    have "entryId e \<le> entryId (List.last es)" by (rule newest_greatest [OF sorted e(1)])
    then have "entryId e < entryOf from \<or> entryOf (before - 1) < entryId e \<and> from < before"
      using e(2) assms(4) by auto
    then show "filter (inRange from before) (entryEvents cx e) = []" using short e(1) by (intro outside_range) auto
  qed
  ultimately show ?thesis by (simp only: entriesBackward_all(1) [OF scans] option.map rev_entries)
qed

lemma stream_start:
  assumes scans: "scansEntries scan es"
    and start: "start = (if from = 0 then None else case fst (scan None 1 (Some (entryOf from))) of e # _ \<Rightarrow> Some e | [] \<Rightarrow> None)"
    and e: "e \<in> set es"
  shows "entryOf from \<le> entryId e \<Longrightarrow> newerThan start e" and "newerThan start e \<Longrightarrow> entryOf from \<le> entryId e"
proof -
  note sorted = scansEntries_sorted [OF scans]
  let ?below = "filter (\<lambda>e. entryId e < entryOf from) es"
  have "fst (scan None 1 (Some (entryOf from))) = take 1 (rev ?below)"
    using scan_pageD(1) [OF scans, of 1 None "Some (entryOf from)"] by (simp add: scanned_def)
  then have now: "start = (if from = 0 \<or> ?below = [] then None else Some (List.last ?below))"
    unfolding start by (cases ?below rule: rev_cases) simp_all
  have greatest: "x \<in> set ?below \<Longrightarrow> entryId x \<le> entryId (List.last ?below)" for x
    by (rule newest_greatest) (use sorted in \<open>simp_all add: sorted_wrt_map sorted_wrt_filter\<close>)
  show "newerThan start e" if "entryOf from \<le> entryId e"
  proof (cases "from = 0 \<or> ?below = []")
    case False
    then have "List.last ?below \<in> set ?below" by (intro last_in_set) blast
    then have "entryId (List.last ?below) < entryOf from" by simp
    with False that show ?thesis by (simp add: now newerThan_def)
  qed (simp add: now newerThan_def)
  show "entryOf from \<le> entryId e" if "newerThan start e"
  proof (cases "from = 0 \<or> ?below = []")
    case True
    then show ?thesis using e by (auto simp: filter_empty_conv entryOf_def)
  next
    case False
    with that have "entryId (List.last ?below) < entryId e" by (simp add: now newerThan_def)
    then have "e \<notin> set ?below" using greatest by fastforce
    with e show ?thesis by simp
  qed
qed

lemma stream_on:
  assumes scans: "scansEntries scan es" and short: "\<forall>entry \<in> set es. length (modelOf entry) \<le> ENTRY_ORDINALS"
    and some: "es \<noteq> []" and range: "from < before"
    and start: "start = (if from = 0 then None else case fst (scan None 1 (Some (entryOf from))) of e # _ \<Rightarrow> Some e | [] \<Rightarrow> None)"
  shows "concat (map (\<lambda>entry. filter (inRange from before) (entryEvents cx entry))
           (takeWhile (\<lambda>entry. \<not> entryOf (before - 1) < entryId entry) (entriesForward scan start (entryId (List.last es)) None)))
       = eventsWithin cx from before es"
proof -
  note sorted = scansEntries_sorted [OF scans]
  let ?top = "\<lambda>entry. \<not> entryOf (before - 1) < entryId entry"
  have all: "entriesForward scan start (entryId (List.last es)) None = filter (newerThan start) es"
    unfolding entriesForward_all(1) [OF scans] by (intro filter_cong refl) (simp add: newest_greatest [OF sorted])
  have "sorted_wrt (\<lambda>a b. entryId a < entryId b) (filter (newerThan start) es)"
    using sorted by (simp add: sorted_wrt_map sorted_wrt_filter)
  then have "sorted_wrt (\<lambda>a b. ?top b \<longrightarrow> ?top a) (filter (newerThan start) es)" by (rule sorted_wrt_mono_rel [rotated]) auto
  then have "takeWhile ?top (filter (newerThan start) es) = filter (\<lambda>e. newerThan start e \<and> ?top e) es"
    by (simp only: takeWhile_sorted filter_filter)
  moreover have "concat (map (\<lambda>entry. filter (inRange from before) (entryEvents cx entry)) (filter (\<lambda>e. newerThan start e \<and> ?top e) es))
      = eventsWithin cx from before es"
    unfolding eventsWithin_map
  proof (rule concat_map_where)
    fix e assume e: "e \<in> set es" "\<not> (newerThan start e \<and> ?top e)"
    then have "entryId e < entryOf from \<or> entryOf (before - 1) < entryId e \<and> from < before"
      using stream_start(1) [OF scans start e(1)] range by (cases "entryOf from \<le> entryId e") auto
    then show "filter (inRange from before) (entryEvents cx e) = []" using short e(1) by (intro outside_range) auto
  qed
  ultimately show ?thesis by (simp only: all)
qed

text \<open>
  C19. A transcript response streams exactly the events of the conversation whose ordinals are in the
  range that was asked for, each once and in ascending order; asked for the newest first, it streams
  the same events the other way round, though it scans the storage in the other direction. An entry
  is to hold at most 1024 messages, so that its ordinals do not reach into the next entry's.
\<close>

theorem stream_directions:
  assumes "scansEntries scan es" and "\<forall>entry \<in> set es. length (modelOf entry) \<le> ENTRY_ORDINALS"
  shows "\<exists>events.
     transcriptEvents cx scan session (asked\<lparr>newestFirst := False\<rparr>) = Some events
     \<and> transcriptEvents cx scan session (asked\<lparr>newestFirst := True\<rparr>) = Some (rev events)
     \<and> events = map (\<lambda>event. event\<lparr>eventSession := session\<rparr>)
         (filter (inRange (fromOf asked) (beforeOf asked)) (concat (map (entryEvents (streamed cx)) es)))
     \<and> sorted_wrt (<) (map ordinal events)"
proof -
  let ?from = "fromOf asked" and ?before = "beforeOf asked"
  let ?sent = "map (\<lambda>event. event\<lparr>eventSession := session\<rparr>)"
  have same: "fromOf (asked\<lparr>newestFirst := b\<rparr>) = ?from" "beforeOf (asked\<lparr>newestFirst := b\<rparr>) = ?before" for b
    by (simp_all add: fromOf_def beforeOf_def)
  have sorted: "sorted_wrt (<) (map ordinal (?sent (eventsWithin (streamed cx) ?from ?before es)))"
    using ascending_all [OF scansEntries_sorted [OF assms(1)] assms(2), of "streamed cx"]
    by (simp add: eventsWithin_def comp_def sorted_wrt_map sorted_wrt_filter)
  show ?thesis
  proof (cases "es = [] \<or> ?before \<le> ?from")
    case True
    then have "eventsWithin (streamed cx) ?from ?before es = []"
      by (auto simp: eventsWithin_def inRange_def filter_empty_conv)
    moreover have "transcriptEvents cx scan session (asked\<lparr>newestFirst := b\<rparr>) = Some []" for b
      using True by (auto simp: transcriptEvents_def same newest_last [OF assms(1)])
    ultimately show ?thesis by (simp add: eventsWithin_def)
  next
    case False
    then have some: "es \<noteq> []" and less: "?from < ?before" by simp_all
    have on: "transcriptEvents cx scan session (asked\<lparr>newestFirst := False\<rparr>) = Some (?sent (eventsWithin (streamed cx) ?from ?before es))"
      using some less stream_on [OF assms some less refl, of "streamed cx"]
      by (simp add: transcriptEvents_def same newest_last [OF assms(1)] Let_def)
    obtain entries where entries:
      "entriesBackward scan (Some (min (entryId (List.last es)) (entryOf (?before - 1)))) = Some entries"
      "concat (map (\<lambda>entry. filter (inRange ?from ?before) (rev (entryEvents (streamed cx) entry)))
         (takeWhile (\<lambda>entry. \<not> entryId entry < entryOf ?from) entries)) = rev (eventsWithin (streamed cx) ?from ?before es)"
      using stream_back [OF assms some less, of "streamed cx"] by (auto simp only: map_option_eq_Some)
    have backward: "transcriptEvents cx scan session (asked\<lparr>newestFirst := True\<rparr>) = Some (?sent (rev (eventsWithin (streamed cx) ?from ?before es)))"
      using some less by (simp add: transcriptEvents_def same newest_last [OF assms(1)] Let_def entries del: One_nat_def)
    show ?thesis
      by (intro exI conjI, rule on, rule backward [unfolded rev_map [symmetric]], simp only: eventsWithin_def, rule sorted)
  qed
qed

definition saidBy :: "string \<Rightarrow> string \<Rightarrow> PiMessage" where
  "saidBy role text = \<lparr>said = [(''role'', JString role), (''content'', JString text)], sentAt = 0\<rparr>"

definition exampleEntry :: "nat \<Rightarrow> PiMessage list \<Rightarrow> EntryRecord" where
  "exampleEntry i messages = \<lparr>entryId = i, entryKind = ''message'', entryConversation = ''7'', entryModel = Some messages, entryData = None\<rparr>"

definition exampleConversation :: "EntryRecord list" where
  "exampleConversation =
     [exampleEntry 1 [saidBy ''user'' ''Ship it.''], exampleEntry 3 [saidBy ''assistant'' ''Building.'', saidBy ''toolResult'' ''ok''],
      exampleEntry 4 [saidBy ''assistant'' ''Done.'']]"

definition exampleContext :: transcriptContext where
  "exampleContext = \<lparr>compactionKind = ''compaction'', withdrawn = (\<lambda>_. False), executorResult = (\<lambda>_ _ _. None)\<rparr>"

definition exampleRange :: "bool \<Rightarrow> RuntimeTranscriptRange" where
  "exampleRange reversed = \<lparr>rangeFrom = Some 3073, rangeBefore = None, newestFirst = reversed\<rparr>"

lemma stream_directions_witness:
  "\<exists>events. transcriptEvents exampleContext (storageOf exampleConversation) ''pi:7'' (exampleRange False) = Some events
     \<and> transcriptEvents exampleContext (storageOf exampleConversation) ''pi:7'' (exampleRange True) = Some (rev events)
     \<and> map ordinal events = [3073, 4096]"
proof -
  have "scansEntries (storageOf exampleConversation) exampleConversation"
    by (rule storageOf_scans) (simp add: exampleConversation_def exampleEntry_def)
  moreover have "\<forall>entry \<in> set exampleConversation. length (modelOf entry) \<le> ENTRY_ORDINALS"
    by (simp add: exampleConversation_def exampleEntry_def modelOf_def ENTRY_ORDINALS_def)
  ultimately obtain events where events:
    "transcriptEvents exampleContext (storageOf exampleConversation) ''pi:7'' (exampleRange False\<lparr>newestFirst := False\<rparr>) = Some events"
    "transcriptEvents exampleContext (storageOf exampleConversation) ''pi:7'' (exampleRange False\<lparr>newestFirst := True\<rparr>) = Some (rev events)"
    "events = map (\<lambda>event. event\<lparr>eventSession := ''pi:7''\<rparr>)
      (filter (inRange (fromOf (exampleRange False)) (beforeOf (exampleRange False))) (concat (map (entryEvents (streamed exampleContext)) exampleConversation)))"
    using stream_directions [of "storageOf exampleConversation" exampleConversation exampleContext "''pi:7''" "exampleRange False"] by blast
  have "map ordinal (filter (inRange 3073 (2 ^ 53 - 1)) (concat (map (entryEvents (streamed exampleContext)) exampleConversation))) = [3073, 4096]"
    by (simp add: exampleConversation_def exampleEntry_def modelOf_def entryEvents_def entryEvent_def exampleContext_def streamed_def
        ENTRY_ORDINALS_def inRange_def saidBy_def upt_rec)
  then have "map ordinal events = [3073, 4096]"
    unfolding events(3) by (simp add: exampleRange_def fromOf_def beforeOf_def comp_def)
  then show ?thesis using events(1,2) by (simp add: exampleRange_def)
qed

end
