(* ===== verification/Transcript_Reader.thy ===== *)
theory Transcript_Reader
  imports Transcript_Entries
begin

text \<open>
  The second half of \<open>runtime-workspace-do/src/transcript.ts\<close>: the store a window's projection is
  kept in, the windows of entries a page is made of, the search for a row's window and the page of
  rows that fits a response. Projecting a window and measuring a row are arguments where they are used.
\<close>

section \<open>The store of a projection\<close>

record ProjectedRow =
  rowItem :: TranscriptItem
  rowTurn :: string
  rowOrdinal :: nat
  rowRevision :: nat

record Projection =
  rows :: "(string \<times> ProjectedRow) list"
  turnsShown :: "(string \<times> TurnStatus) list"
  hiddenRows :: "string list"
  cards :: "(string \<times> string list) list"
  bindings :: "(string \<times> string) list"

definition emptyProjection :: Projection where
  "emptyProjection = \<lparr>rows = [], turnsShown = [], hiddenRows = [], cards = [], bindings = []\<rparr>"

text \<open>The entry being projected and how many rows it has written.\<close>

definition runtimeWrite :: "nat \<Rightarrow> nat \<Rightarrow> string \<Rightarrow> TranscriptItem \<Rightarrow> Projection \<Rightarrow> nat \<times> Projection" where
  "runtimeWrite entry written turn item p =
     (case map_of (rows p) (itemId item) of
        Some previous \<Rightarrow> (written, p\<lparr>rows := AList.update (itemId item) (previous\<lparr>rowItem := item, rowRevision := entry\<rparr>) (rows p)\<rparr>)
      | None \<Rightarrow> (written + 1, p\<lparr>rows := AList.update (itemId item)
          \<lparr>rowItem = item, rowTurn = turn, rowOrdinal = entry * ENTRY_ORDINALS + min written (ENTRY_ORDINALS - 1), rowRevision = entry\<rparr> (rows p)\<rparr>))"

definition runtimeTurn :: "string \<Rightarrow> TurnStatus \<Rightarrow> Projection \<Rightarrow> Projection" where
  "runtimeTurn turn status p = p\<lparr>turnsShown := AList.update turn status (turnsShown p)\<rparr>"

definition runtimeLink :: "string \<Rightarrow> string \<Rightarrow> bool \<Rightarrow> Projection \<Rightarrow> bool \<times> Projection" where
  "runtimeLink execution row hide p =
     (let members = (case map_of (cards p) execution of Some m \<Rightarrow> m | None \<Rightarrow> []) in
      (row \<notin> set members,
       p\<lparr>cards := AList.update execution (List.insert row members) (cards p),
         hiddenRows := (if hide then List.insert row (hiddenRows p) else hiddenRows p)\<rparr>))"

definition runtimeExecutionRun :: "Projection \<Rightarrow> string \<Rightarrow> string \<Rightarrow> string option" where
  "runtimeExecutionRun p identity row =
     (case List.find (\<lambda>(execution, members). row \<in> set members) (cards p) of
        Some (execution, members) \<Rightarrow> Some execution
      | None \<Rightarrow> map_of (bindings p) identity)"

definition runtimeBind :: "string \<Rightarrow> string \<Rightarrow> Projection \<Rightarrow> Projection" where
  "runtimeBind identity execution p = p\<lparr>bindings := AList.update identity execution (bindings p)\<rparr>"

text \<open>The last turn is running while the conversation is live, unless it failed.\<close>

definition settleLastTurn :: "bool \<Rightarrow> Projection \<Rightarrow> Projection" where
  "settleLastTurn running p =
     (case rev (turnsShown p) of
        (turn, status) # _ \<Rightarrow>
          if status \<noteq> Turn_error then runtimeTurn turn (if running then Turn_running else Turn_done) p else p
      | [] \<Rightarrow> p)"

section \<open>Windows\<close>

record Window =
  windowEntries :: "EntryRecord list"
  hasOlder :: bool
  newest :: bool
  nextTurn :: "EntryRecord option"

text \<open>Going back from the newest, \<open>pushed\<close> is what was collected so far, in the order it was read.\<close>

fun gatherBack :: "transcriptContext \<Rightarrow> EntryRecord list \<Rightarrow> EntryRecord list \<Rightarrow> EntryRecord list \<times> bool" where
  "gatherBack cx [] pushed = (pushed, False)"
| "gatherBack cx (e # es) pushed =
     (if WINDOW_LIMIT \<le> length pushed \<or> WINDOW_ENTRIES \<le> length pushed \<and> opensTurn cx (List.last pushed)
      then (pushed, True) else gatherBack cx es (pushed @ [e]))"

text \<open>The rest of a turn, and the entry that opens the next.\<close>

fun restOfTurn :: "transcriptContext \<Rightarrow> EntryRecord list \<Rightarrow> EntryRecord list \<times> EntryRecord option" where
  "restOfTurn cx [] = ([], None)"
| "restOfTurn cx (e # es) = (if opensTurn cx e then ([], Some e) else (case restOfTurn cx es of (r, n) \<Rightarrow> (e # r, n)))"

definition window :: "transcriptContext \<Rightarrow> scanner \<Rightarrow> nat option \<Rightarrow> nat \<Rightarrow> Window option" where
  "window cx scan maxEntry highWater =
     map_option (\<lambda>back.
       let (pushed, older) = gatherBack cx back [];
           own = rev pushed;
           atNewest = (case maxEntry of None \<Rightarrow> True | Some m \<Rightarrow> highWater \<le> m) in
       if atNewest \<or> own = []
       then \<lparr>windowEntries = own, hasOlder = older, newest = atNewest, nextTurn = None\<rparr>
       else let (rest, following) = restOfTurn cx (entriesForward scan (Some (List.last own)) highWater (Some FORWARD_STEPS));
                entries = own @ rest in
         \<lparr>windowEntries = entries, hasOlder = older,
          newest = (following = None \<and> highWater \<le> entryId (List.last entries)), nextTurn = following\<rparr>)
     (entriesBackward scan maxEntry)"

text \<open>
  The window that shows a row: from the newest back, at most sixteen of them. A row that names its
  turn's ordinal is looked for in that turn's window only.
\<close>

definition SEARCH_WINDOWS :: nat where "SEARCH_WINDOWS = 16"

fun locateFrom :: "transcriptContext \<Rightarrow> scanner \<Rightarrow> (Window \<Rightarrow> bool) \<Rightarrow> bool \<Rightarrow> nat \<Rightarrow> nat \<Rightarrow> nat option \<Rightarrow> Window option" where
  "locateFrom cx scan holds inTurn highWater 0 maxEntry = None"
| "locateFrom cx scan holds inTurn highWater (Suc visits) maxEntry =
     (case window cx scan maxEntry highWater of
        None \<Rightarrow> None
      | Some view \<Rightarrow>
          if windowEntries view = [] then None
          else if holds view then Some view
          else if inTurn \<or> \<not> hasOlder view then None
          else locateFrom cx scan holds inTurn highWater visits (Some (entryId (hd (windowEntries view)) - 1)))"

text \<open>\<open>turn\<close> is the ordinal the row's id names, if it does.\<close>

definition locate :: "transcriptContext \<Rightarrow> scanner \<Rightarrow> (Window \<Rightarrow> bool) \<Rightarrow> nat \<Rightarrow> nat option \<Rightarrow> Window option" where
  "locate cx scan holds highWater turn =
     locateFrom cx scan holds (turn \<noteq> None) highWater SEARCH_WINDOWS (map_option entryOf turn)"

section \<open>Rows\<close>

record TranscriptRow =
  rowId :: string
  shownAt :: nat
  turnId :: string
  shownStatus :: TurnStatus
  contentRevision :: nat
  shownItem :: TranscriptItem

text \<open>The rows of an execution's card, or those that no card hides, in order.\<close>

definition scoped :: "Projection \<Rightarrow> string option \<Rightarrow> (string \<times> ProjectedRow) list" where
  "scoped p execution =
     sort_key (\<lambda>r. rowOrdinal (snd r)) (filter (\<lambda>(i, r).
       case execution of
         Some (c # e) \<Rightarrow> i \<in> set (case map_of (cards p) (c # e) of Some m \<Rightarrow> m | None \<Rightarrow> [])
       | _ \<Rightarrow> i \<notin> set (hiddenRows p)) (rows p))"

definition rowOf :: "Projection \<Rightarrow> string \<times> ProjectedRow \<Rightarrow> TranscriptRow" where
  "rowOf p r =
     \<lparr>rowId = fst r, shownAt = rowOrdinal (snd r), turnId = rowTurn (snd r),
      shownStatus = (case map_of (turnsShown p) (rowTurn (snd r)) of Some s \<Rightarrow> s | None \<Rightarrow> Turn_done),
      contentRevision = rowRevision (snd r), shownItem = rowItem (snd r)\<rparr>"

definition TRANSCRIPT_PAGE_ROWS :: nat where "TRANSCRIPT_PAGE_ROWS = 64"
definition TRANSCRIPT_PAGE_BYTES :: nat where "TRANSCRIPT_PAGE_BYTES = 96 * 1024"

text \<open>\<open>measured\<close> is the bytes a row takes as JSON, previewed.\<close>

fun fitFrom :: "(TranscriptRow \<Rightarrow> nat) \<Rightarrow> Projection \<Rightarrow> TranscriptRow list \<Rightarrow> nat \<Rightarrow> (string \<times> ProjectedRow) list \<Rightarrow> TranscriptRow list" where
  "fitFrom measured p taken bytes [] = taken"
| "fitFrom measured p taken bytes (r # rs) =
     (let size = measured (rowOf p r) + 1 in
      if TRANSCRIPT_PAGE_ROWS \<le> length taken \<or> TRANSCRIPT_PAGE_BYTES < bytes + size then taken
      else fitFrom measured p (taken @ [rowOf p r]) (bytes + size) rs)"

definition fit :: "(TranscriptRow \<Rightarrow> nat) \<Rightarrow> Projection \<Rightarrow> (string \<times> ProjectedRow) list \<Rightarrow> TranscriptRow list" where
  "fit measured p selected = fitFrom measured p [] 2 selected"

section \<open>What the store keeps\<close>

text \<open>A row keeps the turn and the place it was first written to; its revision is the last entry that wrote it.\<close>

lemma written_row:
  assumes "map_of (rows p) (itemId item) = Some previous"
  shows "map_of (rows (snd (runtimeWrite entry written turn item p))) (itemId item)
       = Some (previous\<lparr>rowItem := item, rowRevision := entry\<rparr>)"
    and "fst (runtimeWrite entry written turn item p) = written"
  using assms by (simp_all add: runtimeWrite_def)

text \<open>The same two jobs in the runtime's store and in the reducer's.\<close>

definition twoCards :: Projection where
  "twoCards =
     snd (runtimeLink ''job:2:run:b'' ''row'' False (snd (runtimeLink ''job:1:run:a'' ''row'' False
       (runtimeBind ''job:2'' ''job:2:run:b'' (runtimeBind ''job:1'' ''job:1:run:a'' emptyProjection)))))"

definition twoJobs :: store where
  "twoJobs =
     snd (linkExecution ''job:2:run:b'' ''row'' False (snd (linkExecution ''job:1:run:a'' ''row'' False
       (bindExecutionRun ''job:2'' ''job:2:run:b'' (bindExecutionRun ''job:1'' ''job:1:run:a'' emptyStore)))))"

text \<open>
  A row that reports two jobs: when it is updated, the reducer's store answers the second job's own
  run, and the runtime's store the first job's, so the second job's progress is written to the first
  job's card.
\<close>

lemma second_job_misplaced:
  "executionRun twoJobs ''job:2'' ''row'' = Some ''job:2:run:b''"
  "runtimeExecutionRun twoCards ''job:2'' ''row'' = Some ''job:1:run:a''"
  by code_simp+

text \<open>A page takes the first rows, as many as fit, and no more than fit.\<close>

lemma fitFrom_prefix:
  "\<exists>n. fitFrom measured p taken bytes rs = taken @ map (rowOf p) (take n rs)
    \<and> (length taken \<le> TRANSCRIPT_PAGE_ROWS \<longrightarrow> length (fitFrom measured p taken bytes rs) \<le> TRANSCRIPT_PAGE_ROWS)
    \<and> (bytes \<le> TRANSCRIPT_PAGE_BYTES \<longrightarrow>
        bytes + (\<Sum>r\<leftarrow>map (rowOf p) (take n rs). measured r + 1) \<le> TRANSCRIPT_PAGE_BYTES)"
proof (induction rs arbitrary: taken bytes)
  case (Cons r rs)
  show ?case
  proof (cases "TRANSCRIPT_PAGE_ROWS \<le> length taken \<or> TRANSCRIPT_PAGE_BYTES < bytes + (measured (rowOf p r) + 1)")
    case True
    then show ?thesis by (intro exI [of _ 0]) (auto simp: Let_def)
  next
    case False
    obtain n where "fitFrom measured p (taken @ [rowOf p r]) (bytes + (measured (rowOf p r) + 1)) rs
          = (taken @ [rowOf p r]) @ map (rowOf p) (take n rs)"
      "length (taken @ [rowOf p r]) \<le> TRANSCRIPT_PAGE_ROWS \<longrightarrow>
        length (fitFrom measured p (taken @ [rowOf p r]) (bytes + (measured (rowOf p r) + 1)) rs) \<le> TRANSCRIPT_PAGE_ROWS"
      "bytes + (measured (rowOf p r) + 1) \<le> TRANSCRIPT_PAGE_BYTES \<longrightarrow>
        bytes + (measured (rowOf p r) + 1) + (\<Sum>r\<leftarrow>map (rowOf p) (take n rs). measured r + 1) \<le> TRANSCRIPT_PAGE_BYTES"
      using Cons.IH [of "taken @ [rowOf p r]" "bytes + (measured (rowOf p r) + 1)"] by blast
    with False show ?thesis by (intro exI [of _ "Suc n"]) (simp add: Let_def)
  qed
qed simp

lemma page_fits:
  "\<exists>n. fit measured p selected = map (rowOf p) (take n selected)
    \<and> length (fit measured p selected) \<le> TRANSCRIPT_PAGE_ROWS
    \<and> 2 + (\<Sum>r\<leftarrow>fit measured p selected. measured r + 1) \<le> TRANSCRIPT_PAGE_BYTES"
proof -
  obtain n where n: "fit measured p selected = map (rowOf p) (take n selected)"
    "length (fit measured p selected) \<le> TRANSCRIPT_PAGE_ROWS"
    "2 + (\<Sum>r\<leftarrow>map (rowOf p) (take n selected). measured r + 1) \<le> TRANSCRIPT_PAGE_BYTES"
    using fitFrom_prefix [of measured p "[]" 2 selected] by (auto simp: fit_def TRANSCRIPT_PAGE_ROWS_def TRANSCRIPT_PAGE_BYTES_def)
  then show ?thesis by metis
qed

section \<open>Windows of entries\<close>

lemma gatherBack_cut:
  assumes "gatherBack cx es pushed = (taken, older)" and "length pushed \<le> WINDOW_LIMIT"
  shows "\<exists>k. taken = pushed @ take k es \<and> (older \<longleftrightarrow> k < length es) \<and> length taken \<le> WINDOW_LIMIT
    \<and> (older \<longrightarrow> length taken = WINDOW_LIMIT \<or> WINDOW_ENTRIES \<le> length taken \<and> opensTurn cx (List.last taken))"
  using assms
proof (induction cx es pushed rule: gatherBack.induct)
  case (1 cx pushed)
  then show ?case by (intro exI [of _ 0]) simp
next
  case (2 cx e es pushed)
  show ?case
  proof (cases "WINDOW_LIMIT \<le> length pushed \<or> WINDOW_ENTRIES \<le> length pushed \<and> opensTurn cx (List.last pushed)")
    case True
    with "2.prems" show ?thesis by (intro exI [of _ 0]) auto
  next
    case False
    then obtain k where "taken = (pushed @ [e]) @ take k es" "older \<longleftrightarrow> k < length es" "length taken \<le> WINDOW_LIMIT"
      "older \<longrightarrow> length taken = WINDOW_LIMIT \<or> WINDOW_ENTRIES \<le> length taken \<and> opensTurn cx (List.last taken)"
      using "2.IH" "2.prems" by auto
    then show ?thesis by (intro exI [of _ "Suc k"]) simp
  qed
qed

lemma restOfTurn_cut:
  "restOfTurn cx es = (rest, following) \<Longrightarrow>
   (\<forall>e \<in> set rest. \<not> opensTurn cx e)
   \<and> (case following of None \<Rightarrow> es = rest | Some e \<Rightarrow> opensTurn cx e \<and> (\<exists>later. es = rest @ e # later))"
  by (induction es arbitrary: rest) (auto split: if_splits prod.splits option.splits)

definition upTo :: "nat option \<Rightarrow> EntryRecord \<Rightarrow> bool" where
  "upTo maxEntry e \<longleftrightarrow> (case maxEntry of None \<Rightarrow> True | Some m \<Rightarrow> entryId e \<le> m)"

lemma backward_upTo:
  assumes "scansEntries scan es"
  shows "entriesBackward scan maxEntry = Some (rev (filter (upTo maxEntry) es))"
  by (cases maxEntry) (simp_all add: entriesBackward_all [OF assms] upTo_def [abs_def])

text \<open>It stops at the first entry that opens a turn once it has 32.\<close>

lemma gatherBack_first:
  assumes "gatherBack cx es pushed = (taken, older)" and "length pushed \<le> k" and "WINDOW_ENTRIES \<le> k" and "k < length taken"
  shows "\<not> opensTurn cx (taken ! (k - 1))"
  using assms
proof (induction cx es pushed rule: gatherBack.induct)
  case (2 cx e es pushed)
  have stop: "\<not> (WINDOW_LIMIT \<le> length pushed \<or> WINDOW_ENTRIES \<le> length pushed \<and> opensTurn cx (List.last pushed))"
    using "2.prems" by (auto split: if_splits)
  then have onward: "gatherBack cx es (pushed @ [e]) = (taken, older)" using "2.prems"(1) by auto
  show ?case
  proof (cases "k = length pushed")
    case True
    then have some: "pushed \<noteq> []" using "2.prems"(3) by (auto simp: WINDOW_ENTRIES_def)
    obtain n where "taken = (pushed @ [e]) @ take n es" using gatherBack_cut [OF onward] stop by auto
    then have "taken ! (k - 1) = List.last pushed" using True some by (simp add: nth_append last_conv_nth)
    then show ?thesis using stop "2.prems"(3) True by simp
  next
    case False
    then show ?thesis using "2.IH" [OF stop onward] "2.prems" by simp
  qed
qed simp

text \<open>A window's own part ends at \<open>maxEntry\<close>; what is older is left whole.\<close>

lemma own_part:
  assumes "gatherBack cx (rev xs) [] = (pushed, left)"
  shows "\<exists>older. xs = older @ rev pushed \<and> (left \<longleftrightarrow> older \<noteq> []) \<and> length pushed \<le> WINDOW_LIMIT
    \<and> (older \<noteq> [] \<longrightarrow> WINDOW_ENTRIES \<le> length pushed \<and> (opensTurn cx (hd (rev pushed)) \<or> length pushed = WINDOW_LIMIT))
    \<and> (\<forall>n. WINDOW_ENTRIES \<le> n \<and> n < length (rev pushed) \<longrightarrow> \<not> opensTurn cx (rev pushed ! (length (rev pushed) - n)))"
proof -
  have first: "\<not> opensTurn cx (rev pushed ! (length (rev pushed) - n))" if "WINDOW_ENTRIES \<le> n" "n < length (rev pushed)" for n
  proof -
    have "0 < n" using that(1) by (simp add: WINDOW_ENTRIES_def)
    then have "rev pushed ! (length (rev pushed) - n) = pushed ! (n - 1)" using that(2) by (simp add: rev_nth)
    then show ?thesis using gatherBack_first [OF assms, of n] that by simp
  qed
  obtain k where k: "pushed = take k (rev xs)" "left \<longleftrightarrow> k < length xs" "length pushed \<le> WINDOW_LIMIT"
    "left \<longrightarrow> length pushed = WINDOW_LIMIT \<or> WINDOW_ENTRIES \<le> length pushed \<and> opensTurn cx (List.last pushed)"
    using gatherBack_cut [OF assms] by auto
  have "xs = rev (drop k (rev xs)) @ rev pushed" unfolding k(1) by (metis append_take_drop_id rev_append rev_rev_ident)
  moreover have "left \<longleftrightarrow> rev (drop k (rev xs)) \<noteq> []" using k(2) by (simp add: not_le)
  moreover have "WINDOW_ENTRIES \<le> WINDOW_LIMIT" by (simp add: WINDOW_ENTRIES_def WINDOW_LIMIT_def)
  ultimately show ?thesis using k(3,4) first by (intro exI [of _ "rev (drop k (rev xs))"]) (auto simp: hd_rev)
qed

lemma below_first:
  assumes "sorted_wrt (<) (map entryId es)" and "filter (upTo maxEntry) es = older @ own" and "own \<noteq> []" and "older \<noteq> []"
  shows "filter (upTo (Some (entryId (hd own) - 1))) es = older"
proof -
  have sorted: "sorted_wrt (<) (map entryId (older @ own))"
    using assms(1) unfolding assms(2) [symmetric] by (simp add: sorted_wrt_map sorted_wrt_filter)
  have less: "entryId e < entryId (hd own)" if "e \<in> set older" for e
    using sorted that assms(3) by (auto simp: sorted_wrt_append)
  have "0 < entryId (hd own)" using less [of "hd older"] assms(4) by simp
  then have first: "upTo (Some (entryId (hd own) - 1)) e \<longleftrightarrow> entryId e < entryId (hd own)" for e by (auto simp: upTo_def)
  have "hd own \<in> set (filter (upTo maxEntry) es)" unfolding assms(2) using assms(3) by simp
  then have "upTo maxEntry (hd own)" by simp
  then have "filter (\<lambda>e. entryId e < entryId (hd own)) es = filter (\<lambda>e. entryId e < entryId (hd own)) (filter (upTo maxEntry) es)"
    unfolding filter_filter by (intro filter_cong refl) (auto simp: upTo_def split: option.splits)
  also have "\<dots> = filter (\<lambda>e. entryId e < entryId (hd own)) older @ filter (\<lambda>e. entryId e < entryId (hd own)) own"
    by (simp add: assms(2))
  also have "filter (\<lambda>e. entryId e < entryId (hd own)) older = older" using less by (simp add: filter_id_conv)
  also have "filter (\<lambda>e. entryId e < entryId (hd own)) own = []"
    using sorted by (cases own) (auto simp: sorted_wrt_append filter_empty_conv)
  also have "(\<lambda>e. entryId e < entryId (hd own)) = upTo (Some (entryId (hd own) - 1))" by (rule ext) (simp only: first)
  finally show ?thesis by simp
qed

definition laterThan :: "EntryRecord list \<Rightarrow> nat \<Rightarrow> EntryRecord list \<Rightarrow> EntryRecord list" where
  "laterThan own bound es = filter (\<lambda>e. entryId (List.last own) < entryId e \<and> entryId e \<le> bound) es"

lemma window_cases:
  assumes "scansEntries scan es" and "window cx scan maxEntry highWater = Some w"
  obtains older own rest where
    "filter (upTo maxEntry) es = older @ own" "windowEntries w = own @ rest" "hasOlder w \<longleftrightarrow> older \<noteq> []"
    "length own \<le> WINDOW_LIMIT"
    "older \<noteq> [] \<Longrightarrow> WINDOW_ENTRIES \<le> length own \<and> (opensTurn cx (hd own) \<or> length own = WINDOW_LIMIT)"
    "\<And>n. WINDOW_ENTRIES \<le> n \<Longrightarrow> n < length own \<Longrightarrow> \<not> opensTurn cx (own ! (length own - n))"
    "(maxEntry = None \<or> highWater \<le> the maxEntry \<or> own = []) \<and> rest = [] \<and> nextTurn w = None
       \<and> newest w = (maxEntry = None \<or> highWater \<le> the maxEntry)
     \<or> maxEntry \<noteq> None \<and> the maxEntry < highWater \<and> own \<noteq> []
       \<and> restOfTurn cx (laterThan own (min highWater (entryId (List.last own) + FORWARD_IDS * FORWARD_STEPS)) es) = (rest, nextTurn w)
       \<and> newest w = (nextTurn w = None \<and> highWater \<le> entryId (List.last (own @ rest)))"
proof -
  obtain pushed left where g: "gatherBack cx (rev (filter (upTo maxEntry) es)) [] = (pushed, left)" by fastforce
  obtain older where o: "filter (upTo maxEntry) es = older @ rev pushed" "left \<longleftrightarrow> older \<noteq> []" "length pushed \<le> WINDOW_LIMIT"
    "older \<noteq> [] \<longrightarrow> WINDOW_ENTRIES \<le> length pushed \<and> (opensTurn cx (hd (rev pushed)) \<or> length pushed = WINDOW_LIMIT)"
    and first: "\<And>n. WINDOW_ENTRIES \<le> n \<Longrightarrow> n < length (rev pushed) \<Longrightarrow> \<not> opensTurn cx (rev pushed ! (length (rev pushed) - n))"
    using own_part [OF g] by blast
  let ?at = "maxEntry = None \<or> highWater \<le> the maxEntry"
  have at: "(case maxEntry of None \<Rightarrow> True | Some m \<Rightarrow> highWater \<le> m) \<longleftrightarrow> ?at" by (cases maxEntry) auto
  have forward: "entriesForward scan (Some (List.last (rev pushed))) highWater (Some FORWARD_STEPS)
      = laterThan (rev pushed) (min highWater (entryId (List.last (rev pushed)) + FORWARD_IDS * FORWARD_STEPS)) es" for n
    by (simp add: entriesForward_all(2) [OF assms(1)] laterThan_def)
  have w: "w = (if ?at \<or> pushed = []
       then \<lparr>windowEntries = rev pushed, hasOlder = left, newest = ?at, nextTurn = None\<rparr>
       else let (rest, following) = restOfTurn cx (entriesForward scan (Some (List.last (rev pushed))) highWater (Some FORWARD_STEPS)) in
         \<lparr>windowEntries = rev pushed @ rest, hasOlder = left,
          newest = (following = None \<and> highWater \<le> entryId (List.last (rev pushed @ rest))), nextTurn = following\<rparr>)"
    using assms(2) unfolding window_def backward_upTo [OF assms(1)] option.map option.inject g Let_def prod.case at rev_is_Nil_conv
    by (rule sym)
  show ?thesis
  proof (cases "?at \<or> pushed = []")
    case True
    then show ?thesis using o w by (intro that [OF _ _ _ _ _ first, of older "[]"]) auto
  next
    case False
    obtain rest following where "restOfTurn cx (entriesForward scan (Some (List.last (rev pushed))) highWater (Some FORWARD_STEPS)) = (rest, following)"
      by fastforce
    then show ?thesis using False o w by (intro that [OF _ _ _ _ _ first, of older rest]) (auto simp: forward not_le)
  qed
qed

lemma window_some: "scansEntries scan es \<Longrightarrow> \<exists>w. window cx scan maxEntry highWater = Some w"
  by (simp add: window_def backward_upTo)

lemma laterThan_split:
  assumes "sorted_wrt (<) (map entryId es)"
  shows "laterThan own bound es = laterThan own (min bound b) es @ filter (\<lambda>e. b < entryId e) (laterThan own bound es)"
proof -
  let ?R = "\<lambda>e. entryId (List.last own) < entryId e \<and> entryId e \<le> bound"
  have "laterThan own (min bound b) es = filter (\<lambda>e. ?R e \<and> entryId e < Suc b) es"
    unfolding laterThan_def by (intro filter_cong refl) auto
  moreover have "filter (\<lambda>e. b < entryId e) (laterThan own bound es) = filter (\<lambda>e. ?R e \<and> Suc b \<le> entryId e) es"
    unfolding laterThan_def filter_filter by (intro filter_cong refl) auto
  ultimately show ?thesis using sorted_split [OF assms, of ?R "Suc b"] by (simp add: laterThan_def)
qed

text \<open>Nothing between the window's own part and \<open>maxEntry\<close> is left out.\<close>

lemma none_later:
  assumes "sorted_wrt (<) (map entryId es)" and "filter (upTo maxEntry) es = older @ own" and "own \<noteq> []"
    and "maxEntry = None \<or> highWater \<le> the maxEntry"
  shows "laterThan own highWater es = []"
proof -
  have upto: "sorted_wrt (<) (map entryId (filter (upTo maxEntry) es))" using assms(1) by (simp add: sorted_wrt_map sorted_wrt_filter)
  have "entryId e \<le> entryId (List.last own)" if "e \<in> set es" "upTo maxEntry e" for e
  proof -
    have "e \<in> set (filter (upTo maxEntry) es)" using that by simp
    then have "entryId e \<le> entryId (List.last (filter (upTo maxEntry) es))" by (rule newest_greatest [OF upto])
    then show ?thesis using assms(2,3) by simp
  qed
  moreover have "upTo maxEntry e" if "entryId e \<le> highWater" for e using assms(4) that by (cases maxEntry) (auto simp: upTo_def)
  ultimately show ?thesis by (force simp: laterThan_def filter_empty_conv)
qed

lemma window_end:
  assumes sorted: "sorted_wrt (<) (map entryId es)" and own: "own \<noteq> []" "entryId (List.last own) < highWater"
    and top: "e0 \<in> set es" "entryId e0 = highWater"
    and rest: "laterThan own (min highWater (entryId (List.last own) + n)) es = rest"
  shows "highWater \<le> entryId (List.last (own @ rest))
     \<longleftrightarrow> filter (\<lambda>e. entryId (List.last own) + n < entryId e) (laterThan own highWater es) = []" (is "_ \<longleftrightarrow> ?tail = []")
proof
  assume end': "highWater \<le> entryId (List.last (own @ rest))"
  have "entryId e \<le> entryId (List.last own) + n" if "e \<in> set rest" for e using that rest by (auto simp: laterThan_def)
  then have "entryId (List.last (own @ rest)) \<le> entryId (List.last own) + n" by (cases "rest = []") simp_all
  with end' show "?tail = []" by (auto simp: filter_empty_conv laterThan_def)
next
  assume "?tail = []"
  then have "laterThan own highWater es = rest"
    using laterThan_split [OF sorted, of own highWater "entryId (List.last own) + n"] rest by simp
  then have "e0 \<in> set rest" using top own by (auto simp: laterThan_def)
  moreover have "sorted_wrt (<) (map entryId rest)"
    using sorted unfolding rest [symmetric] by (simp add: laterThan_def sorted_wrt_map sorted_wrt_filter)
  ultimately show "highWater \<le> entryId (List.last (own @ rest))" using newest_greatest [of rest e0] top(2) by (cases "rest = []") auto
qed

text \<open>What follows a window's own part, and where the window stops in it.\<close>

lemma window_rest:
  assumes sorted: "sorted_wrt (<) (map entryId es)" and parts: "filter (upTo maxEntry) es = older @ own"
    and top: "e0 \<in> set es" "entryId e0 = highWater" and b: "b = entryId (List.last own) + FORWARD_IDS * FORWARD_STEPS"
    and ends: "(maxEntry = None \<or> highWater \<le> the maxEntry \<or> own = []) \<and> rest = [] \<and> following = None
       \<and> new = (maxEntry = None \<or> highWater \<le> the maxEntry)
     \<or> maxEntry \<noteq> None \<and> the maxEntry < highWater \<and> own \<noteq> []
       \<and> restOfTurn cx (laterThan own (min highWater b) es) = (rest, following)
       \<and> new = (following = None \<and> highWater \<le> entryId (List.last (own @ rest)))"
  shows "\<exists>later. own \<noteq> [] \<longrightarrow> laterThan own highWater es = rest @ later \<and> (\<forall>e \<in> set rest. \<not> opensTurn cx e)
      \<and> (new \<longleftrightarrow> later = [])
      \<and> following = (case later of [] \<Rightarrow> None | e # _ \<Rightarrow> if entryId e \<le> b then Some e else None)
      \<and> (\<forall>e. following = Some e \<longrightarrow> opensTurn cx e)"
proof (cases "maxEntry = None \<or> highWater \<le> the maxEntry \<or> own = []")
  case True
  then show ?thesis using ends none_later [OF sorted parts] by (intro exI [of _ "[]"]) auto
next
  case False
  let ?tail = "filter (\<lambda>e. b < entryId e) (laterThan own highWater es)"
  from False ends have run: "restOfTurn cx (laterThan own (min highWater b) es) = (rest, following)"
    and new: "new = (following = None \<and> highWater \<le> entryId (List.last (own @ rest)))" by blast+
  note cut = restOfTurn_cut [OF run]
  have "List.last own \<in> set (filter (upTo maxEntry) es)" unfolding parts using False by simp
  then have "entryId (List.last own) < highWater" using False by (auto simp: upTo_def split: option.splits)
  note end' = window_end [OF sorted _ this top]
  note split = laterThan_split [OF sorted, of own highWater b]
  show ?thesis
  proof (cases "following")
    case None
    have far: "(case ?tail of [] \<Rightarrow> None | e # _ \<Rightarrow> if entryId e \<le> b then Some e else None) = None"
    proof (cases ?tail)
      case (Cons e es')
      then have "b < entryId e" by (auto dest!: filter_eq_ConsD)
      then show ?thesis using Cons by simp
    qed simp
    show ?thesis using None cut split new end' [of "FORWARD_IDS * FORWARD_STEPS" rest] False far b by (intro exI [of _ ?tail]) auto
  next
    case (Some e)
    then obtain later where l: "laterThan own (min highWater b) es = rest @ e # later" using cut by auto
    then have "e \<in> set (laterThan own (min highWater b) es)" by simp
    then have "entryId e \<le> b" by (simp add: laterThan_def)
    then show ?thesis using l Some cut split new by (intro exI [of _ "e # later @ ?tail"]) auto
  qed
qed

text \<open>
  C20. A window is a run of consecutive entries aligned to turns. Its own part ends where it was asked to and goes back
  to the first entry that opens a turn once it has 32, at most 512 of them; what is older is exactly what the next window
  back starts from. Its end is the end of that turn: what follows is read up to the first entry that opens a turn, which
  is \<open>nextTurn\<close>, or up to the newest, or as far as 4096 ids on; and \<open>newest\<close> tells whether anything is left.
\<close>

theorem window_aligned:
  assumes scans: "scansEntries scan es" and top: "\<exists>e \<in> set es. entryId e = highWater"
  shows "\<exists>w older own rest later.
     window cx scan maxEntry highWater = Some w
     \<and> filter (upTo maxEntry) es = older @ own \<and> windowEntries w = own @ rest
     \<and> (hasOlder w \<longleftrightarrow> older \<noteq> []) \<and> length own \<le> WINDOW_LIMIT
     \<and> (older \<noteq> [] \<longrightarrow> WINDOW_ENTRIES \<le> length own \<and> (opensTurn cx (hd own) \<or> length own = WINDOW_LIMIT)
          \<and> filter (upTo (Some (entryId (hd own) - 1))) es = older)
     \<and> (\<forall>n. WINDOW_ENTRIES \<le> n \<and> n < length own \<longrightarrow> \<not> opensTurn cx (own ! (length own - n)))
     \<and> (own \<noteq> [] \<longrightarrow> laterThan own highWater es = rest @ later \<and> (\<forall>e \<in> set rest. \<not> opensTurn cx e)
          \<and> (newest w \<longleftrightarrow> later = [])
          \<and> nextTurn w = (case later of [] \<Rightarrow> None
              | e # _ \<Rightarrow> if entryId e \<le> entryId (List.last own) + FORWARD_IDS * FORWARD_STEPS then Some e else None)
          \<and> (\<forall>e. nextTurn w = Some e \<longrightarrow> opensTurn cx e))"
proof -
  note sorted = scansEntries_sorted [OF scans]
  obtain w where w: "window cx scan maxEntry highWater = Some w" using window_some [OF scans] by blast
  obtain e0 where e0: "e0 \<in> set es" "entryId e0 = highWater" using top by blast
  obtain older own rest where c:
    "filter (upTo maxEntry) es = older @ own" "windowEntries w = own @ rest" "hasOlder w \<longleftrightarrow> older \<noteq> []" "length own \<le> WINDOW_LIMIT"
    "older \<noteq> [] \<Longrightarrow> WINDOW_ENTRIES \<le> length own \<and> (opensTurn cx (hd own) \<or> length own = WINDOW_LIMIT)"
    and first: "\<And>n. WINDOW_ENTRIES \<le> n \<Longrightarrow> n < length own \<Longrightarrow> \<not> opensTurn cx (own ! (length own - n))"
    and ends: "(maxEntry = None \<or> highWater \<le> the maxEntry \<or> own = []) \<and> rest = [] \<and> nextTurn w = None
       \<and> newest w = (maxEntry = None \<or> highWater \<le> the maxEntry)
     \<or> maxEntry \<noteq> None \<and> the maxEntry < highWater \<and> own \<noteq> []
       \<and> restOfTurn cx (laterThan own (min highWater (entryId (List.last own) + FORWARD_IDS * FORWARD_STEPS)) es) = (rest, nextTurn w)
       \<and> newest w = (nextTurn w = None \<and> highWater \<le> entryId (List.last (own @ rest)))"
    using window_cases [OF scans w] by blast
  have older: "WINDOW_ENTRIES \<le> length own \<and> (opensTurn cx (hd own) \<or> length own = WINDOW_LIMIT) \<and> filter (upTo (Some (entryId (hd own) - 1))) es = older"
    if "older \<noteq> []"
  proof -
    have "own \<noteq> []" using c(5) [OF that] by (auto simp: WINDOW_ENTRIES_def)
    then show ?thesis using c(5) [OF that] below_first [OF sorted c(1) _ that] by blast
  qed
  have "\<exists>later. own \<noteq> [] \<longrightarrow> laterThan own highWater es = rest @ later \<and> (\<forall>e \<in> set rest. \<not> opensTurn cx e)
      \<and> (newest w \<longleftrightarrow> later = [])
      \<and> nextTurn w = (case later of [] \<Rightarrow> None
          | e # _ \<Rightarrow> if entryId e \<le> entryId (List.last own) + FORWARD_IDS * FORWARD_STEPS then Some e else None)
      \<and> (\<forall>e. nextTurn w = Some e \<longrightarrow> opensTurn cx e)"
    by (rule window_rest [OF sorted c(1) e0 refl ends])
  then show ?thesis using w c(1-4) older first by blast
qed

lemma window_aligned_witness:
  "\<exists>w older own rest later.
     window exampleContext (storageOf exampleConversation) (Some 3) 4 = Some w
     \<and> filter (upTo (Some 3)) exampleConversation = older @ own \<and> windowEntries w = own @ rest
     \<and> (own \<noteq> [] \<longrightarrow> laterThan own 4 exampleConversation = rest @ later \<and> (newest w \<longleftrightarrow> later = [])
          \<and> nextTurn w = (case later of [] \<Rightarrow> None
              | e # _ \<Rightarrow> if entryId e \<le> entryId (List.last own) + FORWARD_IDS * FORWARD_STEPS then Some e else None))"
proof -
  have "scansEntries (storageOf exampleConversation) exampleConversation"
    by (rule storageOf_scans) (simp add: exampleConversation_def exampleEntry_def)
  moreover have "\<exists>e \<in> set exampleConversation. entryId e = 4" by (simp add: exampleConversation_def exampleEntry_def)
  ultimately show ?thesis
    by (rule window_aligned [of "storageOf exampleConversation" exampleConversation 4 exampleContext "Some 3", THEN exE])
      (elim exE conjE, intro exI conjI impI; (assumption | blast))
qed

section \<open>The search\<close>

lemma window_part:
  assumes "scansEntries scan es" and "window cx scan maxEntry highWater = Some w"
  shows "\<exists>older own rest. filter (upTo maxEntry) es = older @ own \<and> windowEntries w = own @ rest
    \<and> (hasOlder w \<longleftrightarrow> older \<noteq> []) \<and> (older \<noteq> [] \<longrightarrow> WINDOW_ENTRIES \<le> length own)"
proof (rule window_cases [OF assms], goal_cases)
  case (1 older own rest)
  then have "older \<noteq> [] \<longrightarrow> WINDOW_ENTRIES \<le> length own" by (blast dest: 1(5))
  with 1(1-3) show ?case by blast
qed

lemma earlier_part:
  assumes "xs @ e # ys = older @ own" and "e \<notin> set own"
  shows "\<exists>zs. older = xs @ e # zs \<and> ys = zs @ own"
proof -
  from assms(1) consider us where "xs = older @ us" "us @ e # ys = own" | us where "xs @ us = older" "e # ys = us @ own"
    unfolding append_eq_append_conv2 by blast
  then show ?thesis
  proof cases
    case 1
    then show ?thesis using assms(2) by auto
  next
    case 2
    with assms(2) show ?thesis by (cases us) auto
  qed
qed

text \<open>Each window back that does not show the row leaves at least 32 entries behind.\<close>

lemma locateFrom_reaches:
  assumes scans: "scansEntries scan es"
    and shown: "\<And>view. e \<in> set (windowEntries view) \<Longrightarrow> holds view"
  shows "filter (upTo maxEntry) es = xs @ e # ys \<Longrightarrow> length ys < WINDOW_ENTRIES * visits \<Longrightarrow>
    \<exists>view. locateFrom cx scan holds False highWater visits maxEntry = Some view \<and> holds view"
proof (induction visits arbitrary: maxEntry ys)
  case (Suc visits)
  obtain w where w: "window cx scan maxEntry highWater = Some w" using window_some [OF scans] by blast
  obtain older own rest where c:
    "filter (upTo maxEntry) es = older @ own" "windowEntries w = own @ rest" "hasOlder w \<longleftrightarrow> older \<noteq> []"
    "older \<noteq> [] \<longrightarrow> WINDOW_ENTRIES \<le> length own"
    using window_part [OF scans w] by blast
  have split: "xs @ e # ys = older @ own" using Suc.prems(1) c(1) by simp
  have some: "own \<noteq> []"
  proof
    assume "own = []"
    with split c(4) show False by (auto simp: WINDOW_ENTRIES_def)
  qed
  show ?case
  proof (cases "holds w")
    case True
    then show ?thesis using w some c(2) by simp
  next
    case False
    then have "e \<notin> set own" using shown [of w] c(2) by auto
    then obtain zs where zs: "older = xs @ e # zs" "ys = zs @ own"
      using earlier_part [OF split] by metis
    then have older: "older \<noteq> []" by simp
    have "length zs < WINDOW_ENTRIES * visits" using Suc.prems(2) zs(2) c(4) older by simp
    moreover have "filter (upTo (Some (entryId (hd own) - 1))) es = xs @ e # zs"
      using below_first [OF scansEntries_sorted [OF scans] c(1) some older] zs(1) by simp
    ultimately obtain view where "locateFrom cx scan holds False highWater visits (Some (entryId (hd own) - 1)) = Some view" "holds view"
      using Suc.IH by blast
    then show ?thesis using w some c(2,3) older False by simp
  qed
qed simp

text \<open>
  A row is found when one of the newest 512 entries makes it: the search goes back window by
  window, at most sixteen, and each leaves at least 32 entries behind, so it never gives up before.
\<close>

theorem locate_reaches:
  assumes "scansEntries scan es" and "es = older @ e # later" and "length later < WINDOW_ENTRIES * SEARCH_WINDOWS"
    and "\<And>view. e \<in> set (windowEntries view) \<Longrightarrow> holds view"
  shows "\<exists>view. locate cx scan holds highWater None = Some view \<and> holds view"
  using locateFrom_reaches [OF assms(1), where e = e and holds = holds and maxEntry = None and xs = older and ys = later and visits = SEARCH_WINDOWS] assms(2-4)
  by (simp add: locate_def upTo_def [abs_def])

lemma locate_reaches_witness:
  "\<exists>view. locate exampleContext (storageOf exampleConversation)
      (\<lambda>view. exampleEntry 1 [saidBy ''user'' ''Ship it.''] \<in> set (windowEntries view)) 4 None = Some view
    \<and> exampleEntry 1 [saidBy ''user'' ''Ship it.''] \<in> set (windowEntries view)"
proof (rule locate_reaches [of "storageOf exampleConversation" exampleConversation "[]" _ "tl exampleConversation"])
  show "scansEntries (storageOf exampleConversation) exampleConversation"
    by (rule storageOf_scans) (simp add: exampleConversation_def exampleEntry_def)
qed (simp_all add: exampleConversation_def WINDOW_ENTRIES_def SEARCH_WINDOWS_def)

text \<open>
  The limit of 512 bounds a window's own part only: a window that ends within a turn reads the rest
  of the turn too, up to 4096 ids on. Asked up to the entry that opens it, a turn of \<open>n\<close> entries is
  read whole.
\<close>

definition longTurn :: "nat \<Rightarrow> EntryRecord list" where
  "longTurn n = exampleEntry 1 [saidBy ''user'' ''Ship it.''] # map (\<lambda>i. exampleEntry i [saidBy ''assistant'' ''Building.'']) [2..<Suc n]"

lemma restOfTurn_whole: "(\<And>e. e \<in> set es \<Longrightarrow> \<not> opensTurn cx e) \<Longrightarrow> restOfTurn cx es = (es, None)"
  by (induction es) auto

lemma long_window:
  assumes "2 \<le> n" and "n \<le> 4097"
  shows "\<exists>w. window exampleContext (storageOf (longTurn n)) (Some 1) n = Some w \<and> length (windowEntries w) = n"
proof -
  have sorted: "sorted_wrt (<) (map entryId (longTurn n))"
    by (auto simp: longTurn_def exampleEntry_def comp_def sorted_wrt_upt simp del: upt_Suc)
  note scans = storageOf_scans [OF sorted]
  obtain w where w: "window exampleContext (storageOf (longTurn n)) (Some 1) n = Some w" using window_some [OF scans] by blast
  let ?rest = "map (\<lambda>i. exampleEntry i [saidBy ''assistant'' ''Building.'']) [2..<Suc n]"
  have first: "filter (upTo (Some 1)) (longTurn n) = [exampleEntry 1 [saidBy ''user'' ''Ship it.'']]"
    by (auto simp: longTurn_def upTo_def exampleEntry_def filter_empty_conv)
  have rest: "laterThan [exampleEntry 1 [saidBy ''user'' ''Ship it.'']] (min n (1 + FORWARD_IDS * FORWARD_STEPS)) (longTurn n) = ?rest"
    using assms by (auto simp: laterThan_def longTurn_def exampleEntry_def FORWARD_IDS_def FORWARD_STEPS_def filter_id_conv)
  have "restOfTurn exampleContext ?rest = (?rest, None)"
    by (rule restOfTurn_whole) (auto simp: opensTurn_def modelOf_def exampleEntry_def saidBy_def isText_def)
  then have whole: "restOfTurn exampleContext (laterThan [exampleEntry 1 [saidBy ''user'' ''Ship it.'']]
      (min n (1 + FORWARD_IDS * FORWARD_STEPS)) (longTurn n)) = (?rest, None)" by (simp only: rest)
  have "windowEntries w = longTurn n"
  proof (rule window_cases [OF scans w], goal_cases)
    case (1 older own rest)
    have "older = [] \<and> own = [exampleEntry 1 [saidBy ''user'' ''Ship it.'']]"
      using 1(1,5) first by (auto simp: WINDOW_ENTRIES_def append_eq_Cons_conv)
    moreover have "rest = ?rest"
      using 1(7) calculation whole assms by (auto simp: exampleEntry_def)
    ultimately show ?case using 1(2) by (simp add: longTurn_def)
  qed
  then show ?thesis using w assms(1) by (auto simp: longTurn_def simp del: upt_Suc)
qed

end
