(* ===== verification/Machine_Pairing.thy ===== *)
theory Machine_Pairing
  imports Vault_History
begin

text \<open>
  The pairing of machines in \<open>CredentialVaultDO.machinePairingRequest\<close>
  (\<open>account-worker/src/application.ts\<close>): a browser creates a pairing, the machine that was given the token
  claims it with its keys, the browser approves exactly the grant of the machine that claimed, and the
  machine polls until it is enrolled. The vault takes no lock: where a request awaits a digest or
  another Durable Object, the rest of it is a \<open>wait\<close>, and other requests run before it goes on. A
  request comes with its parsed body, in which a field of another type than the code expects is
  absent, and with the random values it would draw. A table's JSON columns hold values.
\<close>

section \<open>Tables and requests\<close>

record PairingMachine =
  pairedId :: string
  pairedLabel :: string
  pairedSigning :: string
  pairedExchange :: string

definition spaceChar :: "char \<Rightarrow> bool" where
  "spaceChar c \<longleftrightarrow> c \<in> set '' '' \<or> between 9 13 c \<or> of_char c = (160 :: nat)"

definition trimLabel :: "string \<Rightarrow> string" where
  "trimLabel s = rev (dropWhile spaceChar (rev (dropWhile spaceChar s)))"

definition machineIdSchema :: "string \<Rightarrow> bool" where
  "machineIdSchema s \<longleftrightarrow>
     (case s of
        [] \<Rightarrow> False
      | c # cs \<Rightarrow> (isNumeral c \<or> isUpper c \<or> isLower c) \<and> length cs \<le> 127
          \<and> list_all (\<lambda>d. isNumeral d \<or> isUpper d \<or> isLower d \<or> d \<in> set ''._-'') cs)"

definition pairingMachineSchema :: "PairingMachine \<Rightarrow> PairingMachine option" where
  "pairingMachineSchema m =
     (if machineIdSchema (pairedId m) \<and> lengthIn 1 160 (trimLabel (pairedLabel m))
         \<and> keySchema (pairedSigning m) \<and> keySchema (pairedExchange m)
      then Some (m\<lparr>pairedLabel := trimLabel (pairedLabel m)\<rparr>) else None)"

datatype pairing_state = Pairing_created | Pairing_claimed | Pairing_approved | Pairing_enrolled | Pairing_cancelled

record PairingRow =
  rowPairing :: string
  rowCreator :: string
  rowTokenHash :: string
  rowExpires :: int
  rowState :: pairing_state
  rowMachine :: "PairingMachine option"
  rowGrant :: "SignedCredentialAuthorityGrant option"

text \<open>\<open>fleet\<close> is what the pairings put into the fleet's catalog.\<close>

record pairing_store =
  credentials :: vault
  pairings :: "PairingRow list"
  fleet :: "string list"

record pairing_body =
  bodyUser :: "string option"
  bodyPairing :: "string option"
  bodyMachine :: "PairingMachine option"
  bodyToken :: "string option"
  bodyGrant :: "SignedCredentialAuthorityGrant option"

record pairing_request =
  pairingOperation :: string
  pairingSigned :: signed_body
  pairingBody :: pairing_body
  drawnId :: string
  drawnToken :: bytes

datatype pairing_value =
  Token_value string string int
| State_value string pairing_state
| Inspect_value string pairing_state int "PairingMachine option" "CredentialAuthorityGrant option" "DeviceGrantRecord list"
| Pending_value
| Enrolled_value string string string SignedCredentialAuthorityGrant

text \<open>What a request still has to do when what it waits for is there.\<close>

datatype wait =
  Token_drawn string string string int
| Claim_hashed PairingRow PairingMachine string
| Settings_asked PairingRow PairingMachine SignedCredentialAuthorityGrant
| Machine_put string string PairingMachine SignedCredentialAuthorityGrant

datatype outcome = Answers "string + pairing_value" | Waits wait

abbreviation Refuses :: "string \<Rightarrow> outcome" where "Refuses e \<equiv> Answers (Inl e)"

definition PAIRING_CAPABILITIES :: "DeviceCapability list" where
  "PAIRING_CAPABILITIES = [Devices_manage, Fleet_control, Rpc_write, Session_prompt, Deployment_control]"

definition MACHINE_PAIRING_TTL_MS :: int where "MACHINE_PAIRING_TTL_MS = 10 * 60000"

definition rowOf :: "string \<Rightarrow> pairing_store \<Rightarrow> PairingRow option" where
  "rowOf i st = List.find (\<lambda>r. rowPairing r = i) (pairings st)"

text \<open>\<open>UPDATE machine_pairings \<dots> WHERE pairing_id = ? AND \<dots>\<close>\<close>

definition updateRow :: "string \<Rightarrow> (PairingRow \<Rightarrow> bool) \<Rightarrow> (PairingRow \<Rightarrow> PairingRow) \<Rightarrow> pairing_store \<Rightarrow> pairing_store" where
  "updateRow i P f st = st\<lparr>pairings := map (\<lambda>r. if rowPairing r = i \<and> P r then f r else r) (pairings st)\<rparr>"

section \<open>The first part of a request\<close>

definition tokenText :: "bytes \<Rightarrow> string" where
  "tokenText bs = toBase64Url bs"

definition tokenHash :: "platform \<Rightarrow> string \<Rightarrow> string" where
  "tokenHash pf token = toBase64 (sha256Of pf (encodeText token))"

definition createPairing :: "pairing_request \<Rightarrow> string \<Rightarrow> int \<Rightarrow> pairing_store \<Rightarrow> outcome" where
  "createPairing q sender now st =
     (case deviceGrant (credentials st) sender of
        None \<Rightarrow> Refuses ''throws''
      | Some issuer' \<Rightarrow>
          if \<not> canDelegate (invite (signedInvite issuer')) then Refuses ''PAIRING_FORBIDDEN''
          else Waits (Token_drawn (drawnId q) (tokenText (drawnToken q)) sender now))"

text \<open>The machine proves with its signing key that it sent the request, in the name of the pairing.\<close>

definition machineProof :: "platform \<Rightarrow> pairing_request \<Rightarrow> string \<Rightarrow> PairingMachine option \<Rightarrow> int \<Rightarrow> string + PairingMachine" where
  "machineProof pf q pairing claimant now =
     (case (claimant, Option.bind (signedHeader (pairingSigned q)) (decodeSignedRpcHeader pf)) of
        (Some m, Some h) \<Rightarrow>
          if headerDeviceId h \<noteq> pairing then Inl ''PAIRING_UNAUTHORIZED''
          else (case fromBase64 (pairedSigning m) of
              None \<Rightarrow> Inl ''PAIRING_UNAUTHORIZED''
            | Some key \<Rightarrow>
                if length key \<noteq> 32 \<or> \<not> hasKeyBytes (pairedExchange m) then Inl ''PAIRING_UNAUTHORIZED''
                else if \<not> verifyRpcSignature pf h ''POST'' (signedTarget (pairingSigned q)) (signedBytes (pairingSigned q)) key
                then Inl ''PAIRING_UNAUTHORIZED''
                else if SIGNED_REQUEST_MAX_AGE_MS < \<bar>now - timestamp h\<bar> then Inl ''REQUEST_EXPIRED''
                else Inr m)
      | _ \<Rightarrow> Inl ''PAIRING_UNAUTHORIZED'')"

definition tokenChar :: "char \<Rightarrow> bool" where
  "tokenChar c \<longleftrightarrow> isNumeral c \<or> isUpper c \<or> isLower c \<or> c \<in> set ''_-''"

definition claimPairing :: "pairing_request \<Rightarrow> PairingRow \<Rightarrow> PairingMachine \<Rightarrow> outcome" where
  "claimPairing q row claimant =
     (if rowMachine row = Some claimant \<and> rowState row \<noteq> Pairing_created
      then Answers (Inr (State_value (rowPairing row) (rowState row)))
      else case bodyToken (pairingBody q) of
          None \<Rightarrow> Refuses ''PAIRING_USED''
        | Some token \<Rightarrow>
            if rowState row \<noteq> Pairing_created \<or> length token \<noteq> 43 \<or> \<not> list_all tokenChar token then Refuses ''PAIRING_USED''
            else Waits (Claim_hashed row claimant token))"

text \<open>The grants from the browser that created the pairing up to the root, at most four.\<close>

function issuerWalk :: "vault \<Rightarrow> string option \<Rightarrow> DeviceGrantRecord list \<Rightarrow> DeviceGrantRecord list option" where
  "issuerWalk v i walked =
     (case i of
        None \<Rightarrow> Some walked
      | Some d \<Rightarrow>
          if d = [] then Some walked
          else if 4 \<le> length walked then None
          else (case deviceGrant v d of
              None \<Rightarrow> None
            | Some r \<Rightarrow>
                if list_ex (\<lambda>w. deviceId (binding w) = d) walked then None
                else issuerWalk v (issuerId r) (walked @ [r])))"
  by pat_completeness auto
termination by (relation "measure (\<lambda>(v, i, walked). 4 - length walked)") auto

declare issuerWalk.simps [simp del]

definition pairingGrant :: "string \<Rightarrow> PairingRow \<Rightarrow> DeviceGrantRecord list \<Rightarrow> PairingMachine \<Rightarrow> CredentialAuthorityGrant" where
  "pairingGrant user row walked m =
     \<lparr>grantUser = user, grantMachine = pairedId m, grantSigningKey = pairedSigning m, grantExchangeKey = pairedExchange m,
      grantCapabilities = [Storage_access, Space_control, Credential_access], grantGeneration = 1, grantIssuer = Some (rowCreator row),
      grantExpires = Some (foldl (\<lambda>t r. case deviceGrantExpiresAt r of Some e \<Rightarrow> min t e | None \<Rightarrow> t)
        (rowExpires row + 365 * 24 * 60 * 60000) walked)\<rparr>"

definition cancelPairing :: "PairingRow \<Rightarrow> pairing_store \<Rightarrow> outcome \<times> pairing_store" where
  "cancelPairing row st =
     (if rowState row = Pairing_enrolled then (Refuses ''PAIRING_USED'', st)
      else let removed = (case rowMachine row of
          Some m \<Rightarrow> if rowState row = Pairing_approved then st\<lparr>credentials := removeManagedDevice (pairedId m) (credentials st)\<rparr> else st
        | None \<Rightarrow> st) in
        (Answers (Inr (State_value (rowPairing row) Pairing_cancelled)),
         updateRow (rowPairing row) (\<lambda>_. True) (\<lambda>r. r\<lparr>rowState := Pairing_cancelled, rowTokenHash := []\<rparr>) removed))"

definition approvePairing ::
    "platform \<Rightarrow> pairing_request \<Rightarrow> PairingRow \<Rightarrow> CredentialAuthorityGrant option \<Rightarrow> int \<Rightarrow> pairing_store \<Rightarrow> outcome \<times> pairing_store" where
  "approvePairing pf q row grant now st =
     (case grant of
        None \<Rightarrow> (Refuses ''PAIRING_NOT_CLAIMED'', st)
      | Some g \<Rightarrow>
          if rowState row \<noteq> Pairing_claimed then (Refuses ''PAIRING_NOT_CLAIMED'', st)
          else (case bodyGrant (pairingBody q) of
              None \<Rightarrow> (Refuses ''throws'', st)
            | Some s \<Rightarrow>
                if \<not> signedCredentialAuthorityGrantSchema pf s then (Refuses ''throws'', st)
                else (case (credentialAuthorityGrantPayload pf (machineGrant s), credentialAuthorityGrantPayload pf g) of
                    (Some a, Some b) \<Rightarrow>
                      if toBase64 a \<noteq> toBase64 b then (Refuses ''PAIRING_GRANT_MISMATCH'', st)
                      else (case registerDevice pf s now (credentials st) of
                          (Inl e, v) \<Rightarrow> (Refuses e, st\<lparr>credentials := v\<rparr>)
                        | (Inr _, v) \<Rightarrow>
                            (Answers (Inr (State_value (rowPairing row) Pairing_approved)),
                             updateRow (rowPairing row) (\<lambda>r. rowState r = Pairing_claimed)
                               (\<lambda>r. r\<lparr>rowState := Pairing_approved, rowGrant := Some s\<rparr>) (st\<lparr>credentials := v\<rparr>)))
                  | _ \<Rightarrow> (Refuses ''throws'', st))))"

definition pollPairing :: "platform \<Rightarrow> PairingRow \<Rightarrow> PairingMachine \<Rightarrow> int \<Rightarrow> pairing_store \<Rightarrow> outcome" where
  "pollPairing pf row m now st =
     (if rowState row = Pairing_claimed then Answers (Inr Pending_value)
      else case rowGrant row of
          None \<Rightarrow> Refuses ''PAIRING_UNAVAILABLE''
        | Some s \<Rightarrow>
            if rowState row \<noteq> Pairing_approved \<and> rowState row \<noteq> Pairing_enrolled then Refuses ''PAIRING_UNAVAILABLE''
            else (case vaultVerifier pf (credentials st) of
                None \<Rightarrow> Refuses ''throws''
              | Some verifier \<Rightarrow>
                  (case fst (authorizeRelayGrant pf verifier s Space_control now None) of
                     Allowed _ \<Rightarrow> Waits (Settings_asked row m s)
                   | Rejected c _ _ \<Rightarrow> Refuses c
                   | Throws \<Rightarrow> Refuses ''throws'')))"

text \<open>A request on a pairing that exists, once its sender is known.\<close>

definition pairingOperationOn ::
    "platform \<Rightarrow> string \<Rightarrow> pairing_request \<Rightarrow> PairingRow \<Rightarrow> int \<Rightarrow> pairing_store \<Rightarrow> outcome \<times> pairing_store" where
  "pairingOperationOn pf user q row now st =
     (case issuerWalk (credentials st) (Some (rowCreator row)) [] of
        None \<Rightarrow> (Refuses ''PAIRING_FORBIDDEN'', st)
      | Some walked \<Rightarrow>
          let grant = map_option (pairingGrant user row walked) (rowMachine row) in
          if pairingOperation q = ''inspect''
          then (Answers (Inr (Inspect_value (rowPairing row) (rowState row) (rowExpires row) (rowMachine row) grant walked)), st)
          else if pairingOperation q = ''cancel'' then cancelPairing row st
          else if pairingOperation q = ''approve'' then approvePairing pf q row grant now st
          else case rowMachine row of
              None \<Rightarrow> (Refuses ''INVALID_PAIRING'', st)
            | Some m \<Rightarrow>
                if pairingOperation q \<noteq> ''poll'' then (Refuses ''INVALID_PAIRING'', st) else (pollPairing pf row m now st, st))"

definition existingPairing ::
    "platform \<Rightarrow> string \<Rightarrow> pairing_request \<Rightarrow> bool \<Rightarrow> int \<Rightarrow> pairing_store \<Rightarrow> outcome \<times> pairing_store" where
  "existingPairing pf user q browser now st =
     (case bodyPairing (pairingBody q) of
        None \<Rightarrow> (Refuses ''throws'', st)
      | Some i \<Rightarrow>
          if \<not> isUuid pf i then (Refuses ''throws'', st)
          else (case rowOf i st of
              None \<Rightarrow> (Refuses ''PAIRING_UNAVAILABLE'', st)
            | Some row \<Rightarrow>
                if rowExpires row \<le> now \<or> rowState row = Pairing_cancelled then (Refuses ''PAIRING_UNAVAILABLE'', st)
                else if browser then pairingOperationOn pf user q row now st
                else if pairingOperation q = ''claim''
                then (case Option.bind (bodyMachine (pairingBody q)) pairingMachineSchema of
                    None \<Rightarrow> (Refuses ''throws'', st)
                  | Some claimant \<Rightarrow>
                      (case machineProof pf q i (Some claimant) now of
                         Inl e \<Rightarrow> (Refuses e, st)
                       | Inr _ \<Rightarrow> (claimPairing q row claimant, st)))
                else (case machineProof pf q i (rowMachine row) now of
                    Inl e \<Rightarrow> (Refuses e, st)
                  | Inr _ \<Rightarrow> pairingOperationOn pf user q row now st)))"

definition browserOperations :: "string list" where
  "browserOperations = [''create'', ''inspect'', ''approve'', ''cancel'']"

definition machinePairingRequest :: "platform \<Rightarrow> pairing_request \<Rightarrow> int \<Rightarrow> pairing_store \<Rightarrow> outcome \<times> pairing_store" where
  "machinePairingRequest pf q now st =
     (case vaultConfig (credentials st) of
        None \<Rightarrow> (Refuses ''INVALID_PAIRING'', st)
      | Some (user, root) \<Rightarrow>
          if REQUEST_MAX_BYTES < length (signedBytes (pairingSigned q)) \<or> bodyUser (pairingBody q) \<noteq> Some user
          then (Refuses ''INVALID_PAIRING'', st)
          else if pairingOperation q \<in> set browserOperations
          then (case authorizeBrowserRequest pf (pairingSigned q) PAIRING_CAPABILITIES now (credentials st) of
              Inl e \<Rightarrow> (Refuses e, st)
            | Inr sender \<Rightarrow>
                if pairingOperation q = ''create'' then (createPairing q sender now st, st)
                else existingPairing pf user q True now st)
          else existingPairing pf user q False now st)"

section \<open>The rest of a request\<close>

text \<open>The pairings that have expired are deleted before the limit of five is checked.\<close>

definition insertPairing :: "platform \<Rightarrow> string \<Rightarrow> string \<Rightarrow> string \<Rightarrow> int \<Rightarrow> pairing_store \<Rightarrow> outcome \<times> pairing_store" where
  "insertPairing pf i token creator now st =
     (let live = filter (\<lambda>r. now < rowExpires r) (pairings st) in
      if 5 \<le> length (filter (\<lambda>r. rowCreator r = creator \<and> rowState r \<noteq> Pairing_cancelled) live)
      then (Refuses ''PAIRING_LIMIT'', st\<lparr>pairings := live\<rparr>)
      else if list_ex (\<lambda>r. rowPairing r = i) live then (Refuses ''throws'', st\<lparr>pairings := live\<rparr>)
      else (Answers (Inr (Token_value i token (now + MACHINE_PAIRING_TTL_MS))),
        st\<lparr>pairings := live @ [\<lparr>rowPairing = i, rowCreator = creator, rowTokenHash = tokenHash pf token,
          rowExpires = now + MACHINE_PAIRING_TTL_MS, rowState = Pairing_created, rowMachine = None, rowGrant = None\<rparr>]\<rparr>))"

definition completeClaim :: "platform \<Rightarrow> PairingRow \<Rightarrow> PairingMachine \<Rightarrow> string \<Rightarrow> int \<Rightarrow> pairing_store \<Rightarrow> outcome \<times> pairing_store" where
  "completeClaim pf row claimant token now st =
     (let open_row = (\<lambda>r. rowState r = Pairing_created \<and> now < rowExpires r) in
      if tokenHash pf token \<noteq> rowTokenHash row then (Refuses ''PAIRING_UNAUTHORIZED'', st)
      else if machineRowOf (credentials st) (pairedId claimant) \<noteq> None then (Refuses ''MACHINE_EXISTS'', st)
      else if list_ex (\<lambda>r. rowPairing r = rowPairing row \<and> open_row r) (pairings st)
      then (Answers (Inr (State_value (rowPairing row) Pairing_claimed)),
        updateRow (rowPairing row) open_row (\<lambda>r. r\<lparr>rowState := Pairing_claimed, rowMachine := Some claimant, rowTokenHash := []\<rparr>) st)
      else (Refuses ''PAIRING_USED'', st))"

definition finishPoll ::
    "string \<Rightarrow> string \<Rightarrow> PairingMachine \<Rightarrow> SignedCredentialAuthorityGrant \<Rightarrow> int \<Rightarrow> pairing_store \<Rightarrow> outcome \<times> pairing_store" where
  "finishPoll i handle m s now st =
     (case rowOf i st of
        None \<Rightarrow> (Refuses ''PAIRING_UNAVAILABLE'', st)
      | Some latest \<Rightarrow>
          if rowExpires latest \<le> now \<or> rowState latest \<noteq> Pairing_approved \<and> rowState latest \<noteq> Pairing_enrolled
          then (Refuses ''PAIRING_UNAVAILABLE'', st)
          else (Answers (Inr (Enrolled_value i handle (pairedId m) s)),
            updateRow i (\<lambda>r. rowState r = Pairing_approved) (\<lambda>r. r\<lparr>rowState := Pairing_enrolled\<rparr>) st))"

text \<open>\<open>handle\<close> is what the user's settings answer; the catalog of the fleet is written before the pairing is read again.\<close>

fun goOn :: "platform \<Rightarrow> string option \<Rightarrow> wait \<Rightarrow> int \<Rightarrow> pairing_store \<Rightarrow> outcome \<times> pairing_store" where
  "goOn pf handle (Token_drawn i token creator began) now st = insertPairing pf i token creator began st"
| "goOn pf handle (Claim_hashed row claimant token) now st = completeClaim pf row claimant token now st"
| "goOn pf handle (Settings_asked row m s) now st =
     (case handle of
        None \<Rightarrow> (Refuses ''ACCOUNT_UNPROVISIONED'', st)
      | Some [] \<Rightarrow> (Refuses ''ACCOUNT_UNPROVISIONED'', st)
      | Some h \<Rightarrow>
          if rowState row = Pairing_approved
          then (Waits (Machine_put (rowPairing row) h m s), st\<lparr>fleet := fleet st @ [pairedId m]\<rparr>)
          else finishPoll (rowPairing row) h m s now st)"
| "goOn pf handle (Machine_put i h m s) now st = finishPoll i h m s now st"

section \<open>Interleaving\<close>

definition waitPairing :: "wait \<Rightarrow> string" where
  "waitPairing w =
     (case w of Token_drawn i _ _ _ \<Rightarrow> i | Claim_hashed row _ _ \<Rightarrow> rowPairing row | Settings_asked row _ _ \<Rightarrow> rowPairing row
      | Machine_put i _ _ _ \<Rightarrow> i)"

text \<open>\<open>randomUUID\<close> draws an id that no pairing has and no other request is about.\<close>

definition drawsFresh :: "wait \<Rightarrow> pairing_store \<Rightarrow> wait list \<Rightarrow> bool" where
  "drawsFresh w st ws \<longleftrightarrow>
     (case w of Token_drawn i _ _ _ \<Rightarrow> i \<notin> rowPairing ` set (pairings st) \<and> i \<notin> waitPairing ` set ws | _ \<Rightarrow> True)"

text \<open>
  A request runs up to where it waits or answers, one that waits goes on, in any order, and meanwhile
  other calls change the vault's credentials in any way.
\<close>

inductive pairing_step :: "platform \<Rightarrow> pairing_store \<times> wait list \<Rightarrow> pairing_store \<times> wait list \<Rightarrow> bool" for pf where
  answered: "machinePairingRequest pf q now st = (Answers a, st') \<Longrightarrow> pairing_step pf (st, ws) (st', ws)"
| waits: "machinePairingRequest pf q now st = (Waits w, st') \<Longrightarrow> pairing_step pf (st, ws) (st', w # ws)"
| resumed: "goOn pf handle w now st = (Answers a, st') \<Longrightarrow> drawsFresh w st (xs @ ys) \<Longrightarrow> pairing_step pf (st, xs @ w # ys) (st', xs @ ys)"
| onward: "goOn pf handle w now st = (Waits w', st') \<Longrightarrow> drawsFresh w st (xs @ ys) \<Longrightarrow> pairing_step pf (st, xs @ w # ys) (st', w' # xs @ ys)"
| elsewhere: "pairing_step pf (st, ws) (st\<lparr>credentials := v\<rparr>, ws)"

inductive pairing_reachable :: "platform \<Rightarrow> pairing_store \<times> wait list \<Rightarrow> bool" for pf where
  start: "pairings st = [] \<Longrightarrow> pairing_reachable pf (st, [])"
| step: "pairing_reachable pf s \<Longrightarrow> pairing_step pf s s' \<Longrightarrow> pairing_reachable pf s'"

text \<open>The life a pairing is meant to have, each move with what allows it.\<close>

inductive pairing_moves :: "platform \<Rightarrow> PairingRow \<Rightarrow> PairingRow \<Rightarrow> bool" for pf where
  stays: "pairing_moves pf r r"
| claims: "rowState r = Pairing_created \<Longrightarrow> bodyToken (pairingBody q) = Some token \<Longrightarrow> tokenHash pf token = rowTokenHash r \<Longrightarrow>
    machineProof pf q (rowPairing r) (Some m) now = Inr m \<Longrightarrow>
    pairing_moves pf r (r\<lparr>rowState := Pairing_claimed, rowMachine := Some m, rowTokenHash := []\<rparr>)"
| approves: "rowState r = Pairing_claimed \<Longrightarrow> rowMachine r = Some m \<Longrightarrow>
    authorizeBrowserRequest pf (pairingSigned (q :: pairing_request)) PAIRING_CAPABILITIES now v = Inr d \<Longrightarrow>
    bodyGrant (pairingBody q) = Some s \<Longrightarrow> machineGrant s = pairingGrant user r walked m \<Longrightarrow>
    fst (registerDevice pf s now v) = Inr g \<Longrightarrow>
    pairing_moves pf r (r\<lparr>rowState := Pairing_approved, rowGrant := Some s\<rparr>)"
| enrolls: "rowState r = Pairing_approved \<Longrightarrow> pairing_moves pf r (r\<lparr>rowState := Pairing_enrolled\<rparr>)"
| cancels: "rowState r \<in> {Pairing_created, Pairing_claimed, Pairing_approved} \<Longrightarrow>
    pairing_moves pf r (r\<lparr>rowState := Pairing_cancelled, rowTokenHash := []\<rparr>)"

inductive_cases moves_cases: "pairing_moves pf r r'"

text \<open>A row that has come, move by move, from a pairing that was just created.\<close>

inductive pairing_life :: "platform \<Rightarrow> PairingRow \<Rightarrow> bool" for pf where
  created: "rowState r = Pairing_created \<Longrightarrow> rowMachine r = None \<Longrightarrow> rowGrant r = None \<Longrightarrow> pairing_life pf r"
| moved: "pairing_life pf r \<Longrightarrow> pairing_moves pf r r' \<Longrightarrow> pairing_life pf r'"

section \<open>What a life tells\<close>

definition grantNames :: "PairingMachine \<Rightarrow> string \<Rightarrow> SignedCredentialAuthorityGrant \<Rightarrow> bool" where
  "grantNames m creator s \<longleftrightarrow>
     grantMachine (machineGrant s) = pairedId m \<and> grantSigningKey (machineGrant s) = pairedSigning m
     \<and> grantExchangeKey (machineGrant s) = pairedExchange m \<and> grantIssuer (machineGrant s) = Some creator
     \<and> grantCapabilities (machineGrant s) = [Storage_access, Space_control, Credential_access] \<and> grantGeneration (machineGrant s) = 1"

lemma life_row:
  assumes "pairing_life pf r"
  shows "(rowState r = Pairing_created \<longrightarrow> rowMachine r = None)
    \<and> (rowState r \<in> {Pairing_created, Pairing_claimed} \<longrightarrow> rowGrant r = None)
    \<and> (rowState r = Pairing_claimed \<longrightarrow> rowMachine r \<noteq> None)
    \<and> (rowState r \<in> {Pairing_approved, Pairing_enrolled} \<longrightarrow> rowGrant r \<noteq> None)
    \<and> (\<forall>s. rowGrant r = Some s \<longrightarrow> (\<exists>m. rowMachine r = Some m \<and> grantNames m (rowCreator r) s))"
  using assms
proof induction
  case (moved r r')
  from moved.hyps(2) moved.IH show ?case
    by (cases rule: pairing_moves.cases) (auto simp: grantNames_def pairingGrant_def)
qed simp

lemma moves_same:
  assumes "pairing_moves pf r r'"
  shows "rowPairing r' = rowPairing r" and "rowCreator r' = rowCreator r" and "rowExpires r' = rowExpires r"
    and "rowState r' = Pairing_created \<Longrightarrow> r' = r"
  using assms by (auto elim: moves_cases)

lemma moves_keep:
  assumes "pairing_life pf r" and "pairing_moves pf r r'"
  shows "rowMachine r = Some m \<Longrightarrow> rowMachine r' = Some m" and "rowGrant r = Some s \<Longrightarrow> rowGrant r' = Some s"
  using assms(2) life_row [OF assms(1)] by (auto elim!: moves_cases)

section \<open>Every step is a move\<close>

text \<open>Grants with the same payload are the same grant.\<close>

lemma grant_payload_inject:
  assumes "credentialAuthorityGrantPayload pf g = Some b" and "credentialAuthorityGrantPayload pf h = Some b"
  shows "g = h"
proof -
  have "payload pf (grantJson g) = payload pf (grantJson h)"
    using assms by (simp add: credentialAuthorityGrantPayload_def split: if_splits)
  then have same: "canonical (localeOrder pf) (grantJson g) = canonical (localeOrder pf) (grantJson h)" by (simp only: payload_inject)
  have distinct: "distinct (map fst ([(''version'', JNumber 1), (''userId'', JString (grantUser g)), (''machineId'', JString (grantMachine g)),
     (''signingPublicKey'', JString (grantSigningKey g)), (''exchangePublicKey'', JString (grantExchangeKey g)),
     (''capabilities'', JArray (map (\<lambda>c. JString (grantCapabilityText c)) (grantCapabilities g))),
     (''generation'', JNumber (grantGeneration g))]
     @ optionalField ''issuerDeviceId'' JString (grantIssuer g) @ optionalField ''expiresAt'' JNumber (grantExpires g)))" for g :: CredentialAuthorityGrant
    by (simp add: optionalField_def split: option.split)
  note fields = canonical_fields [OF same [unfolded grantJson_def] distinct distinct]
  have named: "grantCapabilityText c = grantCapabilityText d \<longleftrightarrow> c = d" for c d by (cases c; cases d) simp_all
  have caps: "map (\<lambda>c. JString (grantCapabilityText c)) xs = map (\<lambda>c. JString (grantCapabilityText c)) ys \<longleftrightarrow> xs = ys" for xs ys
    by (intro inj_map_eq_map injI) (simp add: named)
  show ?thesis
    using fields [of "''userId''"] fields [of "''machineId''"] fields [of "''signingPublicKey''"] fields [of "''exchangePublicKey''"]
      fields [of "''capabilities''"] fields [of "''generation''"] fields [of "''issuerDeviceId''"] fields [of "''expiresAt''"]
    by (cases g; cases h) (auto simp: optionalField_def comp_def caps split: option.splits)
qed

lemma rowOf_in: "rowOf i st = Some row \<Longrightarrow> row \<in> set (pairings st) \<and> rowPairing row = i"
  by (auto simp: rowOf_def find_Some_iff)

lemma rowOf_unique:
  assumes "distinct (map rowPairing (pairings st))" and "r \<in> set (pairings st)" and "row \<in> set (pairings st)" and "rowPairing r = rowPairing row"
  shows "r = row"
  using assms by (metis distinct_map inj_onD)

text \<open>An update of the row of one pairing is a move if it is one on that row.\<close>

lemma updateRow_moves:
  assumes "distinct (map rowPairing (pairings st))" and "row \<in> set (pairings st)" and "P row \<Longrightarrow> pairing_moves pf row (f row)"
    and "pairings st' = pairings (updateRow (rowPairing row) P f st)"
  shows "map rowPairing (pairings st') = map rowPairing (pairings st)"
    and "r' \<in> set (pairings st') \<Longrightarrow> \<exists>r \<in> set (pairings st). pairing_moves pf r r'"
proof -
  have at: "pairing_moves pf r (if rowPairing r = rowPairing row \<and> P r then f r else r)" if "r \<in> set (pairings st)" for r
    using rowOf_unique [OF assms(1) that assms(2)] assms(3) by (auto intro: stays)
  show "map rowPairing (pairings st') = map rowPairing (pairings st)"
    unfolding assms(4) updateRow_def by (simp add: moves_same(1) [OF at])
  assume "r' \<in> set (pairings st')"
  then obtain r where "r \<in> set (pairings st)" "r' = (if rowPairing r = rowPairing row \<and> P r then f r else r)"
    unfolding assms(4) updateRow_def by auto
  then show "\<exists>r \<in> set (pairings st). pairing_moves pf r r'" using at by blast
qed

text \<open>What a part of a request leaves: the rows that were there, moved, and its answer.\<close>

definition rowsMove :: "platform \<Rightarrow> pairing_store \<Rightarrow> pairing_store \<Rightarrow> bool" where
  "rowsMove pf st st' \<longleftrightarrow>
     map rowPairing (pairings st') = map rowPairing (pairings st)
     \<and> (\<forall>r' \<in> set (pairings st'). \<exists>r \<in> set (pairings st). pairing_moves pf r r')"

lemma rowsMove_same [intro]: "pairings st' = pairings st \<Longrightarrow> rowsMove pf st st'"
  by (auto simp: rowsMove_def intro: stays)

lemma rowsMove_refl [simp]: "rowsMove pf st st"
  by (rule rowsMove_same) simp

lemma rowsMove_update:
  assumes "distinct (map rowPairing (pairings st))" and "row \<in> set (pairings st)" and "P row \<Longrightarrow> pairing_moves pf row (f row)"
    and "pairings st'' = pairings st"
  shows "rowsMove pf st (updateRow (rowPairing row) P f st'')"
  using updateRow_moves [where st = st and row = row and P = P and f = f and st' = "updateRow (rowPairing row) P f st''", OF assms(1-3)] assms(4)
  by (simp add: rowsMove_def updateRow_def)

text \<open>What a wait may rely on when it goes on.\<close>

definition holdsGrant :: "pairing_store \<Rightarrow> string \<Rightarrow> PairingMachine \<Rightarrow> SignedCredentialAuthorityGrant \<Rightarrow> bool" where
  "holdsGrant st i m s \<longleftrightarrow> (\<forall>r \<in> set (pairings st). rowPairing r = i \<longrightarrow> rowMachine r = Some m \<and> rowGrant r = Some s)"

fun waitOk :: "platform \<Rightarrow> pairing_store \<Rightarrow> wait \<Rightarrow> bool" where
  "waitOk pf st (Token_drawn i token creator began) = True"
| "waitOk pf st (Claim_hashed row m token) =
     ((\<exists>q now. bodyToken (pairingBody q) = Some token \<and> machineProof pf q (rowPairing row) (Some m) now = Inr m)
      \<and> (\<forall>r \<in> set (pairings st). rowPairing r = rowPairing row \<and> rowState r = Pairing_created \<longrightarrow> r = row))"
| "waitOk pf st (Settings_asked row m s) = holdsGrant st (rowPairing row) m s"
| "waitOk pf st (Machine_put i h m s) = holdsGrant st i m s"

lemma waitOk_moves:
  assumes "waitOk pf st w" and "\<forall>r \<in> set (pairings st). pairing_life pf r"
    and "\<And>r'. r' \<in> set (pairings st') \<Longrightarrow> rowPairing r' = waitPairing w \<Longrightarrow> \<exists>r \<in> set (pairings st). pairing_moves pf r r'"
  shows "waitOk pf st' w"
proof (cases w)
  case (Claim_hashed row m token)
  have "r' = row" if "r' \<in> set (pairings st')" "rowPairing r' = rowPairing row" "rowState r' = Pairing_created" for r'
  proof -
    have "\<exists>r \<in> set (pairings st). pairing_moves pf r r'" using assms(3) [of r'] that Claim_hashed by (simp add: waitPairing_def)
    then obtain r where "r \<in> set (pairings st)" "pairing_moves pf r r'" by blast
    then show ?thesis using moves_same [of pf r r'] that assms(1) Claim_hashed by auto
  qed
  then show ?thesis using assms(1) Claim_hashed by auto
qed (use assms moves_same(1) moves_keep in \<open>fastforce simp: holdsGrant_def waitPairing_def\<close>)+

lemma machineProof_same: "machineProof pf q i (Some m) now = Inr m' \<Longrightarrow> m' = m"
  by (auto simp: machineProof_def split: option.splits if_splits)

lemma toBase64_same: "toBase64 a = toBase64 b \<longleftrightarrow> a = b"
  by (metis fromBase64_toBase64 option.inject)

text \<open>The requests of browsers and the polls, on a row of the table.\<close>

lemma approve_moves:
  assumes "approvePairing pf q row (map_option (pairingGrant user row walked) (rowMachine row)) now st = (out, st')"
    and "distinct (map rowPairing (pairings st))" and "row \<in> set (pairings st)"
    and "authorizeBrowserRequest pf (pairingSigned q) PAIRING_CAPABILITIES now (credentials st) = Inr d"
  shows "rowsMove pf st st' \<and> (\<exists>a. out = Answers a)"
proof (cases "\<exists>m s a v g. rowMachine row = Some m \<and> rowState row = Pairing_claimed \<and> bodyGrant (pairingBody q) = Some s
    \<and> credentialAuthorityGrantPayload pf (machineGrant s) = Some a \<and> credentialAuthorityGrantPayload pf (pairingGrant user row walked m) = Some a
    \<and> registerDevice pf s now (credentials st) = (Inr g, v)
    \<and> out = Answers (Inr (State_value (rowPairing row) Pairing_approved))
    \<and> st' = updateRow (rowPairing row) (\<lambda>r. rowState r = Pairing_claimed)
        (\<lambda>r. r\<lparr>rowState := Pairing_approved, rowGrant := Some s\<rparr>) (st\<lparr>credentials := v\<rparr>)")
  case True
  then obtain m s a v g where t: "rowMachine row = Some m" "rowState row = Pairing_claimed" "bodyGrant (pairingBody q) = Some s"
    "credentialAuthorityGrantPayload pf (machineGrant s) = Some a" "credentialAuthorityGrantPayload pf (pairingGrant user row walked m) = Some a"
    "registerDevice pf s now (credentials st) = (Inr g, v)" "out = Answers (Inr (State_value (rowPairing row) Pairing_approved))"
    "st' = updateRow (rowPairing row) (\<lambda>r. rowState r = Pairing_claimed)
        (\<lambda>r. r\<lparr>rowState := Pairing_approved, rowGrant := Some s\<rparr>) (st\<lparr>credentials := v\<rparr>)" by blast
  have "fst (registerDevice pf s now (credentials st)) = Inr g" using t(6) by simp
  then have "pairing_moves pf row (row\<lparr>rowState := Pairing_approved, rowGrant := Some s\<rparr>)"
    by (rule approves [OF t(2,1) assms(4) t(3) grant_payload_inject [OF t(4,5)]])
  then show ?thesis unfolding t(8) using rowsMove_update [OF assms(2,3), of _ pf] t(7) by simp
next
  case False
  with assms(1) have "pairings st' = pairings st \<and> (\<exists>a. out = Answers a)"
    by (auto simp: approvePairing_def toBase64_same split: option.splits if_splits prod.splits sum.splits)
  then show ?thesis by blast
qed

lemma cancel_moves:
  assumes "cancelPairing row st = (out, st')" and "distinct (map rowPairing (pairings st))" and "row \<in> set (pairings st)"
    and "rowState row \<noteq> Pairing_cancelled"
  shows "rowsMove pf st st' \<and> (\<exists>a. out = Answers a)"
proof (cases "rowState row = Pairing_enrolled")
  case True
  then show ?thesis using assms(1) by (auto simp: cancelPairing_def)
next
  case False
  then have "rowState row \<in> {Pairing_created, Pairing_claimed, Pairing_approved}" using assms(4) by (cases "rowState row") auto
  then have "pairing_moves pf row (row\<lparr>rowState := Pairing_cancelled, rowTokenHash := []\<rparr>)" by (rule cancels)
  moreover define removed where "removed = (case rowMachine row of
          Some m \<Rightarrow> if rowState row = Pairing_approved then st\<lparr>credentials := removeManagedDevice (pairedId m) (credentials st)\<rparr> else st
        | None \<Rightarrow> st)"
  moreover have "pairings removed = pairings st" by (simp add: removed_def split: option.split)
  moreover have "out = Answers (Inr (State_value (rowPairing row) Pairing_cancelled))
      \<and> st' = updateRow (rowPairing row) (\<lambda>_. True) (\<lambda>r. r\<lparr>rowState := Pairing_cancelled, rowTokenHash := []\<rparr>) removed"
    using assms(1) False unfolding cancelPairing_def removed_def Let_def by simp
  ultimately show ?thesis using rowsMove_update [OF assms(2,3)] by simp
qed

lemma poll_waits:
  assumes "pollPairing pf row m now st = Waits w" and "rowMachine row = Some m" and "row \<in> set (pairings st)"
    and "distinct (map rowPairing (pairings st))"
  shows "waitOk pf st w"
proof -
  obtain s where "w = Settings_asked row m s" "rowGrant row = Some s"
    using assms(1) by (auto simp: pollPairing_def split: option.splits if_splits DeviceVerdict.splits)
  then show ?thesis using assms(2,3) rowOf_unique [OF assms(4) _ assms(3)] by (auto simp: holdsGrant_def)
qed

definition goesWell :: "platform \<Rightarrow> pairing_store \<Rightarrow> outcome \<times> pairing_store \<Rightarrow> bool" where
  "goesWell pf st result \<longleftrightarrow> rowsMove pf st (snd result) \<and> (\<forall>w. fst result = Waits w \<longrightarrow> waitOk pf (snd result) w)"

lemma goesWell_refuses [simp]: "goesWell pf st (Answers a, st)"
  by (auto simp: goesWell_def)

lemma operation_goesWell:
  assumes "distinct (map rowPairing (pairings st))" and "row \<in> set (pairings st)" and "rowState row \<noteq> Pairing_cancelled"
    and "pairingOperation q = ''approve'' \<Longrightarrow> \<exists>d. authorizeBrowserRequest pf (pairingSigned q) PAIRING_CAPABILITIES now (credentials st) = Inr d"
  shows "goesWell pf st (pairingOperationOn pf user q row now st)"
proof (cases "issuerWalk (credentials st) (Some (rowCreator row)) []")
  case None
  then show ?thesis by (simp add: pairingOperationOn_def)
next
  case (Some walked)
  consider "pairingOperation q = ''cancel''" | "pairingOperation q = ''approve''" | "pairingOperation q = ''poll''"
    | "pairingOperation q \<notin> set [''cancel'', ''approve'', ''poll'']" by auto
  then show ?thesis
  proof cases
    case 1
    obtain out st' where r: "cancelPairing row st = (out, st')" by fastforce
    show ?thesis using Some 1 r cancel_moves [OF r assms(1-3)] by (auto simp: pairingOperationOn_def goesWell_def)
  next
    case 2
    obtain d where d: "authorizeBrowserRequest pf (pairingSigned q) PAIRING_CAPABILITIES now (credentials st) = Inr d" using assms(4) [OF 2] ..
    obtain out st' where r: "approvePairing pf q row (map_option (pairingGrant user row walked) (rowMachine row)) now st = (out, st')"
      by fastforce
    show ?thesis using Some 2 r approve_moves [OF r assms(1,2) d] by (auto simp: pairingOperationOn_def goesWell_def)
  next
    case 3
    show ?thesis
    proof (cases "rowMachine row")
      case (Some m)
      show ?thesis using \<open>issuerWalk _ _ _ = _\<close> 3 Some poll_waits [OF _ Some assms(2,1)]
        by (auto simp: pairingOperationOn_def goesWell_def)
    qed (use Some 3 in \<open>simp add: pairingOperationOn_def\<close>)
  next
    case 4
    then show ?thesis using Some by (auto simp: pairingOperationOn_def split: option.split)
  qed
qed

lemma claim_goesWell:
  assumes "machineProof pf q (rowPairing row) (Some claimant) now = Inr m" and "distinct (map rowPairing (pairings st))" and "row \<in> set (pairings st)"
  shows "goesWell pf st (claimPairing q row claimant, st)"
proof -
  have "waitOk pf st w" if waiting: "claimPairing q row claimant = Waits w" for w
  proof -
    obtain token where "bodyToken (pairingBody q) = Some token" "w = Claim_hashed row claimant token"
      using waiting by (auto simp: claimPairing_def split: option.splits if_splits)
    then show ?thesis using assms(1) machineProof_same [OF assms(1)] rowOf_unique [OF assms(2) _ assms(3)] by auto
  qed
  then show ?thesis by (auto simp: goesWell_def)
qed

lemma existing_goesWell:
  assumes "distinct (map rowPairing (pairings st))"
    and "pairingOperation q = ''approve'' \<Longrightarrow> \<exists>d. authorizeBrowserRequest pf (pairingSigned q) PAIRING_CAPABILITIES now (credentials st) = Inr d"
  shows "goesWell pf st (existingPairing pf user q browser now st)"
proof (cases "\<exists>i row. bodyPairing (pairingBody q) = Some i \<and> isUuid pf i \<and> rowOf i st = Some row
    \<and> now < rowExpires row \<and> rowState row \<noteq> Pairing_cancelled")
  case False
  then show ?thesis by (auto simp: existingPairing_def split: option.split)
next
  case True
  then obtain i row where r: "bodyPairing (pairingBody q) = Some i" "isUuid pf i" "rowOf i st = Some row" "now < rowExpires row"
    "rowState row \<noteq> Pairing_cancelled" by blast
  have row: "row \<in> set (pairings st)" and i: "rowPairing row = i" using rowOf_in [OF r(3)] by simp_all
  have on: "goesWell pf st (pairingOperationOn pf user q row now st)" by (rule operation_goesWell [OF assms(1) row r(5) assms(2)])
  have claims: "goesWell pf st (claimPairing q row m, st)" if "machineProof pf q i (Some m) now = Inr m'" for m m'
    by (rule claim_goesWell) (use that i assms(1) row in simp_all)
  show ?thesis using r on claims by (auto simp: existingPairing_def split: option.split sum.split)
qed

lemma request_goesWell:
  assumes "distinct (map rowPairing (pairings st))"
  shows "goesWell pf st (machinePairingRequest pf q now st)"
proof (cases "vaultConfig (credentials st)")
  case None
  then show ?thesis by (simp add: machinePairingRequest_def)
next
  case (Some c)
  obtain user root where c: "vaultConfig (credentials st) = Some (user, root)" using Some by (cases c) simp
  show ?thesis
  proof (cases "pairingOperation q \<in> set browserOperations")
    case False
    then have "goesWell pf st (existingPairing pf user q False now st)"
      by (intro existing_goesWell [OF assms]) (auto simp: browserOperations_def)
    then show ?thesis using c False by (simp add: machinePairingRequest_def)
  next
    case True
    have "goesWell pf st (existingPairing pf user q True now st)"
      if "authorizeBrowserRequest pf (pairingSigned q) PAIRING_CAPABILITIES now (credentials st) = Inr d" for d
      using that by (intro existing_goesWell [OF assms]) auto
    moreover have "goesWell pf st (createPairing q d now st, st)" for d
      by (auto simp: createPairing_def goesWell_def split: option.splits if_splits)
    ultimately show ?thesis using c True by (auto simp: machinePairingRequest_def split: sum.split)
  qed
qed

text \<open>The parts that go on.\<close>

lemma claim_completes:
  assumes "waitOk pf st (Claim_hashed row m token)" and "distinct (map rowPairing (pairings st))"
  shows "goesWell pf st (completeClaim pf row m token now st)"
proof (cases "tokenHash pf token = rowTokenHash row \<and> machineRowOf (credentials st) (pairedId m) = None
    \<and> (\<exists>r \<in> set (pairings st). rowPairing r = rowPairing row \<and> rowState r = Pairing_created \<and> now < rowExpires r)")
  case False
  then show ?thesis by (auto simp: completeClaim_def Let_def list_ex_iff)
next
  case True
  then obtain r where r: "r \<in> set (pairings st)" "rowPairing r = rowPairing row" "rowState r = Pairing_created" "now < rowExpires r" by blast
  then have row: "r = row" using assms(1) by auto
  obtain q t where "bodyToken (pairingBody q) = Some token" "machineProof pf q (rowPairing row) (Some m) t = Inr m"
    using assms(1) by auto
  then have "pairing_moves pf row (row\<lparr>rowState := Pairing_claimed, rowMachine := Some m, rowTokenHash := []\<rparr>)"
    using True r(3) row by (auto intro: claims)
  then have "rowsMove pf st (updateRow (rowPairing row) (\<lambda>r. rowState r = Pairing_created \<and> now < rowExpires r)
      (\<lambda>r. r\<lparr>rowState := Pairing_claimed, rowMachine := Some m, rowTokenHash := []\<rparr>) st)"
    using rowsMove_update [OF assms(2), of row _ pf] r(1) row by simp
  then show ?thesis using True r by (auto simp: completeClaim_def Let_def list_ex_iff goesWell_def)
qed

lemma poll_finishes:
  assumes "distinct (map rowPairing (pairings st))"
  shows "goesWell pf st (finishPoll i h m s now st)"
proof (cases "rowOf i st")
  case None
  then show ?thesis by (simp add: finishPoll_def)
next
  case (Some row)
  then have "row \<in> set (pairings st)" "rowPairing row = i" using rowOf_in by blast+
  then have "rowsMove pf st (updateRow i (\<lambda>r. rowState r = Pairing_approved) (\<lambda>r. r\<lparr>rowState := Pairing_enrolled\<rparr>) st)"
    using rowsMove_update [OF assms, of row "\<lambda>r. rowState r = Pairing_approved" pf "\<lambda>r. r\<lparr>rowState := Pairing_enrolled\<rparr>" st] enrolls by blast
  then show ?thesis using Some by (simp add: finishPoll_def goesWell_def)
qed

lemma goOn_goesWell:
  assumes "waitOk pf st w" and "distinct (map rowPairing (pairings st))" and "\<And>i t c b. w \<noteq> Token_drawn i t c b"
  shows "goesWell pf st (goOn pf handle w now st)"
proof (cases w)
  case (Token_drawn i t c b)
  then show ?thesis using assms(3) by blast
next
  case (Claim_hashed row m token)
  then show ?thesis using claim_completes assms(1,2) by simp
next
  case (Settings_asked row m s)
  have "goesWell pf st (Waits (Machine_put (rowPairing row) h m s), st\<lparr>fleet := fleet st @ [pairedId m]\<rparr>)" for h
    using assms(1) Settings_asked by (auto simp: goesWell_def holdsGrant_def)
  then show ?thesis using Settings_asked poll_finishes [OF assms(2)] by (auto split: option.split list.split)
next
  case (Machine_put i h m s)
  then show ?thesis using poll_finishes [OF assms(2)] by simp
qed

text \<open>A pairing is inserted under an id of its own; what is not deleted stays.\<close>

lemma insert_rows:
  assumes "insertPairing pf i token creator now st = (out, st')" and "distinct (map rowPairing (pairings st))"
  shows "distinct (map rowPairing (pairings st'))" and "\<exists>a. out = Answers a"
    and "r \<in> set (pairings st') \<Longrightarrow> r \<in> set (pairings st) \<or> rowPairing r = i \<and> pairing_life pf r"
  using assms by (auto simp: insertPairing_def Let_def list_ex_iff distinct_map_filter intro: created split: if_splits)

section \<open>All interleavings\<close>

definition pairingInv :: "platform \<Rightarrow> pairing_store \<times> wait list \<Rightarrow> bool" where
  "pairingInv pf s \<longleftrightarrow>
     distinct (map rowPairing (pairings (fst s))) \<and> (\<forall>r \<in> set (pairings (fst s)). pairing_life pf r)
     \<and> (\<forall>w \<in> set (snd s). waitOk pf (fst s) w)"

lemma goesWell_inv:
  assumes "pairingInv pf (st, ws)" and "goesWell pf st result"
  shows "pairingInv pf (snd result, ws)" and "fst result = Waits w \<Longrightarrow> pairingInv pf (snd result, w # ws)"
proof -
  have keys: "map rowPairing (pairings (snd result)) = map rowPairing (pairings st)"
    and moves: "\<And>r'. r' \<in> set (pairings (snd result)) \<Longrightarrow> \<exists>r \<in> set (pairings st). pairing_moves pf r r'"
    using assms(2) by (auto simp: goesWell_def rowsMove_def)
  have lives: "\<forall>r \<in> set (pairings st). pairing_life pf r" using assms(1) by (simp add: pairingInv_def)
  have "\<forall>w \<in> set ws. waitOk pf (snd result) w" using assms(1) waitOk_moves [OF _ lives] moves by (auto simp: pairingInv_def)
  then show "pairingInv pf (snd result, ws)"
    using assms(1) keys lives moves by (auto simp: pairingInv_def dest!: moves intro: moved)
  then show "fst result = Waits w \<Longrightarrow> pairingInv pf (snd result, w # ws)"
    using assms(2) by (simp add: pairingInv_def goesWell_def)
qed

lemma draw_inv:
  assumes "pairingInv pf (st, xs @ Token_drawn i t c b # ys)" and "insertPairing pf i t c b st = (out, st')"
    and "drawsFresh (Token_drawn i t c b) st (xs @ ys)"
  shows "pairingInv pf (st', xs @ ys)"
proof -
  have distinct: "distinct (map rowPairing (pairings st))" and lives: "\<forall>r \<in> set (pairings st). pairing_life pf r"
    and waits: "\<forall>w \<in> set (xs @ ys). waitOk pf st w" using assms(1) by (simp_all add: pairingInv_def)
  note rows = insert_rows [OF assms(2) distinct]
  have "waitOk pf st' w" if "w \<in> set (xs @ ys)" for w
  proof (rule waitOk_moves [OF _ lives])
    show "waitOk pf st w" using waits that by blast
    fix r' assume r': "r' \<in> set (pairings st')" "rowPairing r' = waitPairing w"
    have "waitPairing w \<noteq> i" using assms(3) that by (auto simp: drawsFresh_def)
    then have "r' \<in> set (pairings st)" using rows(3) [OF r'(1)] r'(2) by auto
    then show "\<exists>r \<in> set (pairings st). pairing_moves pf r r'" using stays by blast
  qed
  then show ?thesis using rows(1,3) lives by (auto simp: pairingInv_def)
qed

lemma pairingInv_part:
  "pairingInv pf (st, xs @ w # ys) \<Longrightarrow> pairingInv pf (st, xs @ ys) \<and> waitOk pf st w \<and> distinct (map rowPairing (pairings st))"
  by (simp add: pairingInv_def)

lemma step_inv:
  assumes "pairing_step pf s s'" and "pairingInv pf s"
  shows "pairingInv pf s'"
  using assms
proof (cases rule: pairing_step.cases)
  case (answered q now st a st' ws)
  then show ?thesis using goesWell_inv(1) [OF _ request_goesWell, of pf st ws q now] assms(2) by (simp add: pairingInv_def)
next
  case (waits q now st w st' ws)
  then show ?thesis using goesWell_inv(2) [OF _ request_goesWell, of pf st ws q now w] assms(2) by (simp add: pairingInv_def)
next
  case (resumed handle w now st a st' xs ys)
  note part = pairingInv_part [OF assms(2) [unfolded resumed(1)]]
  show ?thesis
  proof (cases w)
    case (Token_drawn i t c b)
    then show ?thesis using draw_inv [of pf st xs i t c b ys] resumed assms(2) by simp
  qed (use goesWell_inv(1) [OF _ goOn_goesWell, of pf st "xs @ ys" w handle now] part resumed in auto)
next
  case (onward handle w now st w' st' xs ys)
  note part = pairingInv_part [OF assms(2) [unfolded onward(1)]]
  show ?thesis
  proof (cases w)
    case (Token_drawn i t c b)
    then show ?thesis using insert_rows(2) [of pf i t c b st] onward part by fastforce
  qed (use goesWell_inv(2) [OF _ goOn_goesWell, of pf st "xs @ ys" w handle now w'] part onward in auto)
next
  case (elsewhere st ws v)
  have "waitOk pf (st\<lparr>credentials := v\<rparr>) w \<longleftrightarrow> waitOk pf st w" for w by (cases w) (simp_all add: holdsGrant_def)
  then show ?thesis using assms(2) elsewhere by (simp add: pairingInv_def)
qed

lemma reachable_inv: "pairing_reachable pf s \<Longrightarrow> pairingInv pf s"
  by (induction rule: pairing_reachable.induct) (auto simp: pairingInv_def [of _ "(_, [])"] intro: step_inv)

lemma rowOf_updated:
  assumes "rowOf i st = Some r" and "\<And>r. rowPairing (f r) = rowPairing r"
  shows "rowOf i (updateRow i P f st) = Some (if P r then f r else r)"
proof -
  have "List.find (\<lambda>r. rowPairing r = i) (map (\<lambda>r. if rowPairing r = i \<and> P r then f r else r) rs)
      = map_option (\<lambda>r. if P r then f r else r) (List.find (\<lambda>r. rowPairing r = i) rs)" for rs
    by (induction rs) (auto simp: assms(2))
  then show ?thesis using assms(1) by (simp add: rowOf_def updateRow_def)
qed

text \<open>
  C6. However the requests of browsers and machines interleave, and whatever else changes the vault
  meanwhile, every pairing lives the life it is meant to have: each step leaves each pairing as it was
  or makes one allowed move of it (a claim with the token it was created with, signed by the key of the
  machine that claims; an approval of exactly that machine's grant by an authorized browser, which the
  vault registers; an enrollment of an approved pairing; a cancellation before that), or creates it.
\<close>

theorem pairing_refines:
  assumes "pairing_reachable pf (st, ws)" and "pairing_step pf (st, ws) (st', ws')" and "r' \<in> set (pairings st')"
  shows "(\<exists>r \<in> set (pairings st). pairing_moves pf r r')
     \<or> rowState r' = Pairing_created \<and> rowMachine r' = None \<and> rowGrant r' = None"
proof -
  note inv = reachable_inv [OF assms(1)]
  then have distinct: "distinct (map rowPairing (pairings st))" by (simp add: pairingInv_def)
  have well: "\<exists>r \<in> set (pairings st). pairing_moves pf r r'" if "goesWell pf st result" "snd result = st'" for result
    using that assms(3) by (auto simp: goesWell_def rowsMove_def)
  have go: ?thesis if "goOn pf handle w now st = (out, st')" "waitOk pf st w" for handle w now out
  proof (cases w)
    case (Token_drawn i t c b)
    then have "r' \<in> set (pairings st) \<or> rowState r' = Pairing_created \<and> rowMachine r' = None \<and> rowGrant r' = None"
      using that(1) assms(3) by (auto simp: insertPairing_def Let_def split: if_splits)
    then show ?thesis using stays by blast
  qed (use that goOn_goesWell [OF that(2) distinct, of handle now] well [of "(out, st')"] in auto)
  from assms(2) show ?thesis
  proof (cases rule: pairing_step.cases)
    case (answered q now a)
    then show ?thesis using well [OF request_goesWell [OF distinct, of pf q now]] by simp
  next
    case (waits q now w)
    then show ?thesis using well [OF request_goesWell [OF distinct, of pf q now]] by simp
  next
    case (resumed handle w now a xs ys)
    then show ?thesis using go inv by (auto simp: pairingInv_def)
  next
    case (onward handle w now w' xs ys)
    then show ?thesis using go inv by (auto simp: pairingInv_def)
  next
    case (elsewhere v)
    then show ?thesis using assms(3) stays by auto
  qed
qed

text \<open>A poll that answers an enrollment has read the row of the pairing after it has waited.\<close>

lemma enrolled_row:
  assumes "pairing_reachable pf (st, xs @ w # ys)" and "goOn pf handle w now st = (Answers (Inr (Enrolled_value i h named s)), st')"
  obtains r m where "rowOf i st = Some r" and "now < rowExpires r" and "rowState r \<in> {Pairing_approved, Pairing_enrolled}"
    and "rowMachine r = Some m" and "rowGrant r = Some s" and "named = pairedId m" and "grantNames m (rowCreator r) s"
    and "rowOf i st' = Some (r\<lparr>rowState := Pairing_enrolled\<rparr>)"
proof -
  have ok: "waitOk pf st w" and lives: "\<forall>r \<in> set (pairings st). pairing_life pf r"
    using reachable_inv [OF assms(1)] by (simp_all add: pairingInv_def)
  obtain m where f: "finishPoll i h m s now st = (Answers (Inr (Enrolled_value i h named s)), st')" and holds: "holdsGrant st i m s"
  proof (cases w)
    case (Settings_asked row m' s')
    then show ?thesis using that assms(2) ok by (auto simp: finishPoll_def split: option.splits list.splits if_splits)
  next
    case (Machine_put i' h' m' s')
    then show ?thesis using that assms(2) ok by (auto simp: finishPoll_def split: option.splits if_splits)
  qed (use assms(2) in \<open>auto simp: insertPairing_def completeClaim_def Let_def split: if_splits\<close>)
  then obtain r where r: "rowOf i st = Some r" "now < rowExpires r" "rowState r \<in> {Pairing_approved, Pairing_enrolled}" "named = pairedId m"
    "st' = updateRow i (\<lambda>r. rowState r = Pairing_approved) (\<lambda>r. r\<lparr>rowState := Pairing_enrolled\<rparr>) st"
    by (auto simp: finishPoll_def split: option.splits if_splits)
  have row: "r \<in> set (pairings st)" "rowPairing r = i" using rowOf_in [OF r(1)] by simp_all
  then have m: "rowMachine r = Some m" "rowGrant r = Some s" using holds by (simp_all add: holdsGrant_def)
  have life: "pairing_life pf r" using lives row(1) by blast
  have "rowOf i st' = Some (r\<lparr>rowState := Pairing_enrolled\<rparr>)"
    using rowOf_updated [OF r(1)] r(3) unfolding r(5) by auto
  moreover have "grantNames m (rowCreator r) s" using life_row [OF life] m by auto
  ultimately show ?thesis using that r m by blast
qed

section \<open>An example\<close>

definition pairHeader :: "string \<Rightarrow> SignedRpcHeader" where
  "pairHeader i = \<lparr>headerDeviceId = i, timestamp = 50, nonce = ''non1'', bodySha256 = toBase64 (replicate 32 0),
     headerSignature = toBase64 (replicate 48 0)\<rparr>"

text \<open>Every signature verifies, and a header's text is read as the browser's or the machine's by its length.\<close>

definition pairPlatform :: platform where
  "pairPlatform = \<lparr>isUuid = (\<lambda>s. length s = 4), isUrl = (\<lambda>s. True), ed25519Verify = (\<lambda>s m key. Some True),
     ed25519Sign = (\<lambda>m key. replicate 48 0), sha256Of = (\<lambda>m. replicate 32 0),
     parseText = (\<lambda>s. Some (headerJson (pairHeader (if length s = 3 then ''dev1'' else ''pair'')))), localeOrder = (\<lambda>_ _. True)\<rparr>"

definition pairBrowser :: DeviceGrantRecord where
  "pairBrowser = exampleBrowser\<lparr>signedInvite := (signedInvite exampleBrowser)\<lparr>invite := (invite (signedInvite exampleBrowser))\<lparr>capabilities := PAIRING_CAPABILITIES\<rparr>\<rparr>\<rparr>"

definition pairVault :: "MachineCredential list \<Rightarrow> vault" where
  "pairVault ms = bootstrapped\<lparr>machineRows := ms,
     deviceRows := [\<lparr>rowRecord = pairBrowser, rowGeneration = 1, rowRevokedAt = None, rowUpdated = 50\<rparr>]\<rparr>"

definition pairMachine :: PairingMachine where
  "pairMachine = \<lparr>pairedId = ''m1'', pairedLabel = ''box'', pairedSigning = toBase64 (exampleKey 3), pairedExchange = toBase64 (exampleKey 4)\<rparr>"

definition browserText :: string where "browserText = toBase64Url [0, 0, 0]"
definition machineText :: string where "machineText = toBase64Url [0, 0, 0, 0, 0, 0]"

definition pairRequest :: "string \<Rightarrow> string \<Rightarrow> SignedCredentialAuthorityGrant option \<Rightarrow> pairing_request" where
  "pairRequest op h g = \<lparr>pairingOperation = op, pairingSigned = \<lparr>signedHeader = Some h, signedTarget = [], signedBytes = []\<rparr>,
     pairingBody = \<lparr>bodyUser = Some ''user'', bodyPairing = Some ''pair'', bodyMachine = Some pairMachine,
       bodyToken = Some (tokenText (replicate 32 0)), bodyGrant = g\<rparr>,
     drawnId = ''pair'', drawnToken = replicate 32 0\<rparr>"

lemma pair_platform [simp]:
  "isUuid pairPlatform s \<longleftrightarrow> length s = 4" "isUrl pairPlatform s" "verifies pairPlatform (toBase64 bs) m key"
  "sha256Of pairPlatform b = replicate 32 0" "rpcBodySha256 pairPlatform b = toBase64 (replicate 32 0)"
  by (simp_all add: pairPlatform_def verifies_def rpcBodySha256_def)

lemma pair_header: "signedRpcHeaderSchema pairPlatform (pairHeader i) \<longleftrightarrow> length i = 4"
  using schema_digest [of "replicate 32 0"]
  by (simp add: signedRpcHeaderSchema_def pairHeader_def safeInt_def signatureSchema_def lengthIn_def length_toBase64)

lemma pair_texts: "browserText \<noteq> []" "machineText \<noteq> []"
proof -
  have "toBase64Url [] = []" by code_simp
  then show "browserText \<noteq> []" "machineText \<noteq> []"
    unfolding browserText_def machineText_def by (metis fromBase64Url_toBase64Url list.distinct(1) option.inject)+
qed

lemma pair_decodes:
  "decodeSignedRpcHeader pairPlatform browserText = Some (pairHeader ''dev1'')"
  "decodeSignedRpcHeader pairPlatform machineText = Some (pairHeader ''pair'')"
proof -
  have l: "length (decodeText bs) = length bs" for bs by (simp add: decodeText_def)
  have r: "readHeader pairPlatform (headerJson (pairHeader i)) = Some (pairHeader i)" if "length i = 4" for i
    using that by (intro readHeader_json) (simp add: pair_header)
  have parse: "parseText pairPlatform x = Some (headerJson (pairHeader (if length x = 3 then ''dev1'' else ''pair'')))" for x
    by (simp add: pairPlatform_def)
  show "decodeSignedRpcHeader pairPlatform browserText = Some (pairHeader ''dev1'')"
    "decodeSignedRpcHeader pairPlatform machineText = Some (pairHeader ''pair'')"
    using length_toBase64Url [of "[0, 0, 0]"] length_toBase64Url [of "[0, 0, 0, 0, 0, 0]"]
    by (simp_all add: decodeSignedRpcHeader_def browserText_def machineText_def l r parse)
qed

lemma pair_fields [simp]:
  "generation pairBrowser = 1" "revokedAt pairBrowser = None" "deviceId (binding pairBrowser) = ''dev1''" "recordUser pairBrowser = ''user''"
  "issuer (signedInvite pairBrowser) = Root" "issuerId pairBrowser = None" "canDelegate (invite (signedInvite pairBrowser))"
  "deviceGrantExpiresAt pairBrowser = None"
  by (simp_all add: pairBrowser_def issuerId_def deviceGrantExpiresAt_def)
    (simp_all add: recordUser_def exampleBrowser_def exampleGrant_def exampleInvite_def)

lemma pair_schema: "deviceGrantRecordSchema pairPlatform pairBrowser"
  by (simp add: pairBrowser_def exampleBrowser_def exampleGrant_def exampleInvite_def exampleKey_def deviceGrantRecordSchema_def
    signedDeviceInviteSchema_def deviceInviteSchema_def deviceBindingSchema_def idSchema_def keySchema_def signatureSchema_def lengthIn_def
    safeInt_def length_toBase64 PAIRING_CAPABILITIES_def)

definition pairDevice :: VerifiedDevice where
  "pairDevice = \<lparr>verifiedId = ''dev1'', kind = Browser, label = ''x'', deviceScope = User_scope, deviceCapabilities = PAIRING_CAPABILITIES,
     mayDelegate = True, publicKey = exampleKey 2, verifiedGeneration = 1, verifiedBoundAt = 10, verifiedExpiresAt = None\<rparr>"

lemma pair_verifies: "verifyDeviceGrantRecord pairPlatform pairBrowser root 50 resolve 0 = Some pairDevice"
proof -
  have "signedDeviceInviteSchema pairPlatform (signedInvite pairBrowser)" "deviceBindingSchema pairPlatform (binding pairBrowser)"
    using pair_schema by (simp_all add: deviceGrantRecordSchema_def)
  then have "verifyGrant pairPlatform pairBrowser 50 root = Some pairDevice"
    by (simp add: verifyGrant_def verifyDeviceInvite_def verifyDeviceBinding_def)
      (simp add: pairBrowser_def exampleBrowser_def exampleGrant_def exampleInvite_def exampleKey_def grantCurrent_def deviceGrantExpiresAt_def pairDevice_def)
  then show ?thesis using pair_schema by (subst verifyDeviceGrantRecord.simps) (simp add: MAX_DELEGATION_DEPTH_def)
qed

lemma pair_vault [simp]:
  "vaultConfig (pairVault ms) = Some (''user'', toBase64 (exampleKey 1))" "deviceGrant (pairVault ms) i = (if i = ''dev1'' then Some pairBrowser else None)"
  "machineRows (pairVault ms) = ms"
proof -
  have g: "grantOf \<lparr>rowRecord = pairBrowser, rowGeneration = 1, rowRevokedAt = None, rowUpdated = 50\<rparr> = pairBrowser"
    by (rule DeviceGrantRecord.equality) (simp_all add: grantOf_def)
  show "vaultConfig (pairVault ms) = Some (''user'', toBase64 (exampleKey 1))" "machineRows (pairVault ms) = ms"
    by (simp_all add: pairVault_def bootstrapped_def newVault_def)
  show "deviceGrant (pairVault ms) i = (if i = ''dev1'' then Some pairBrowser else None)"
    by (auto simp: deviceGrant_def pairVault_def rowDevice_def g)
qed

lemma pair_authorized:
  "authorizeBrowserRequest pairPlatform (pairingSigned (pairRequest op browserText g)) PAIRING_CAPABILITIES 50 (pairVault ms) = Inr ''dev1''"
proof -
  define reg where "reg = \<lparr>registryUser = ''user'', registryRoot = toBase64 (exampleKey 1),
     machineRow = (\<lambda>i. Option.bind (machineRowOf (pairVault ms) i) (machineCredential pairPlatform)), deviceRow = deviceGrant (pairVault ms)\<rparr>"
  have v: "vaultVerifier pairPlatform (pairVault ms) = Some (Some (reg, exampleKey 1))"
    by (simp add: vaultVerifier_def vaultRegistry_def newVerifier_def reg_def)
  have r: "resolveIn reg ''dev1'' = Some pairBrowser" by (simp add: resolveIn_def reg_def)
  have d: "fst (device pairPlatform (Some (reg, exampleKey 1)) ''dev1'' 50 None) = Some pairDevice"
    by (simp add: device_def r deviceCheck_def pair_verifies Let_def)
  then obtain m where "device pairPlatform (Some (reg, exampleKey 1)) ''dev1'' 50 None = (Some pairDevice, m)" by (cases "device pairPlatform (Some (reg, exampleKey 1)) ''dev1'' 50 None") auto
  moreover have "requestSigned pairPlatform q (pairHeader i) key" for q :: device_request and i key
    by (simp add: requestSigned_def verifyRpcSignature_def verifyRpcDigestSignature_def pairHeader_def split: option.split)
  moreover have "requestPermitted q pairDevice" if "requestCapabilities q = PAIRING_CAPABILITIES" for q :: device_request
    using that by (simp add: requestPermitted_def pairDevice_def list_all_iff)
  moreover have "headerDeviceId (pairHeader i) = i" "timestamp (pairHeader i) = 50" "verifiedId pairDevice = ''dev1''" for i
    by (simp_all add: pairHeader_def pairDevice_def)
  ultimately show ?thesis
    by (simp add: authorizeBrowserRequest_def v authorizeRequest_def pairRequest_def pair_decodes pair_texts SIGNED_REQUEST_MAX_AGE_MS_def)
qed

definition pairToken :: string where "pairToken = tokenText (replicate 32 0)"

definition pairRow :: PairingRow where
  "pairRow = \<lparr>rowPairing = ''pair'', rowCreator = ''dev1'', rowTokenHash = tokenHash pairPlatform pairToken, rowExpires = 600050,
     rowState = Pairing_created, rowMachine = None, rowGrant = None\<rparr>"

definition pairSigned :: SignedCredentialAuthorityGrant where
  "pairSigned = \<lparr>machineGrant = pairingGrant ''user'' pairRow [pairBrowser] pairMachine, grantSignature = toBase64 (replicate 48 0),
     issuerChain = Some [pairBrowser]\<rparr>"

definition claimedRow :: PairingRow where
  "claimedRow = pairRow\<lparr>rowState := Pairing_claimed, rowMachine := Some pairMachine, rowTokenHash := []\<rparr>"

definition approvedRow :: PairingRow where
  "approvedRow = claimedRow\<lparr>rowState := Pairing_approved, rowGrant := Some pairSigned\<rparr>"

definition pairCredential :: MachineCredential where
  "pairCredential = \<lparr>credentialMachine = ''m1'', machineSigningKey = toBase64 (exampleKey 3), machineExchangeKey = toBase64 (exampleKey 4),
     machineCapabilities = [''storage.access'', ''space.control'', ''credential.access''], machineGeneration = 1, pairedGrant = Some pairSigned\<rparr>"

definition pairStore :: "MachineCredential list \<Rightarrow> PairingRow list \<Rightarrow> string list \<Rightarrow> pairing_store" where
  "pairStore ms rs f = \<lparr>credentials = pairVault ms, pairings = rs, fleet = f\<rparr>"

lemma pair_store [simp]: "credentials (pairStore ms rs f) = pairVault ms" "pairings (pairStore ms rs f) = rs" "fleet (pairStore ms rs f) = f"
  by (simp_all add: pairStore_def)

lemma pair_request [simp]:
  "pairingOperation (pairRequest op h g) = op" "bodyUser (pairingBody (pairRequest op h g)) = Some ''user''"
  "bodyPairing (pairingBody (pairRequest op h g)) = Some ''pair''" "bodyMachine (pairingBody (pairRequest op h g)) = Some pairMachine"
  "bodyToken (pairingBody (pairRequest op h g)) = Some pairToken" "bodyGrant (pairingBody (pairRequest op h g)) = g"
  "signedBytes (pairingSigned (pairRequest op h g)) = []" "drawnId (pairRequest op h g) = ''pair''" "drawnToken (pairRequest op h g) = replicate 32 0"
  "signedHeader (pairingSigned (pairRequest op h g)) = Some h"
  by (simp_all add: pairRequest_def pairToken_def)

lemma pair_rows [simp]:
  "rowPairing pairRow = ''pair''" "rowCreator pairRow = ''dev1''" "rowExpires pairRow = 600050" "rowState pairRow = Pairing_created"
  "rowPairing claimedRow = ''pair''" "rowCreator claimedRow = ''dev1''" "rowExpires claimedRow = 600050" "rowState claimedRow = Pairing_claimed"
  "rowMachine claimedRow = Some pairMachine" "rowGrant claimedRow = None"
  "rowPairing approvedRow = ''pair''" "rowCreator approvedRow = ''dev1''" "rowExpires approvedRow = 600050" "rowState approvedRow = Pairing_approved"
  "rowMachine approvedRow = Some pairMachine" "rowGrant approvedRow = Some pairSigned" "rowMachine pairRow = None"
  by (simp_all add: pairRow_def claimedRow_def approvedRow_def)

lemma pair_keys [simp]: "hasKeyBytes (toBase64 (exampleKey n))" "keySchema (toBase64 (exampleKey n))"
  by (simp_all add: hasKeyBytes_def exampleKey_def keySchema_def lengthIn_def length_toBase64)

lemma run_create:
  "machinePairingRequest pairPlatform (pairRequest ''create'' browserText None) 50 (pairStore [] [] []) = (Waits (Token_drawn ''pair'' pairToken ''dev1'' 50), pairStore [] [] [])"
  by (simp add: machinePairingRequest_def browserOperations_def pair_authorized createPairing_def pairToken_def)

lemma run_insert:
  "goOn pairPlatform None (Token_drawn ''pair'' pairToken ''dev1'' 50) 50 (pairStore [] [] [])
   = (Answers (Inr (Token_value ''pair'' pairToken 600050)), pairStore [] [pairRow] [])"
  by (simp add: insertPairing_def MACHINE_PAIRING_TTL_MS_def pairRow_def pairStore_def)

lemma pair_schema_machine: "pairingMachineSchema pairMachine = Some pairMachine"
proof -
  have "trimLabel ''box'' = ''box''" "machineIdSchema ''m1''" by code_simp+
  then show ?thesis by (simp add: pairingMachineSchema_def pairMachine_def lengthIn_def)
qed

lemma pair_proof: "machineProof pairPlatform (pairRequest op machineText g) ''pair'' (Some pairMachine) 50 = Inr pairMachine"
proof -
  have "verifyRpcSignature pairPlatform (pairHeader i) a b c key" for i a b c key
    by (simp add: verifyRpcSignature_def verifyRpcDigestSignature_def pairHeader_def)
  moreover have "headerDeviceId (pairHeader i) = i" "timestamp (pairHeader i) = 50" for i by (simp_all add: pairHeader_def)
  moreover have "pairedSigning pairMachine = toBase64 (exampleKey 3)" "pairedExchange pairMachine = toBase64 (exampleKey 4)" "length (exampleKey n) = 32" for n
    by (simp_all add: pairMachine_def exampleKey_def)
  ultimately show ?thesis by (simp add: machineProof_def pair_decodes SIGNED_REQUEST_MAX_AGE_MS_def)
qed

lemma zero_text: "toBase64 (replicate (3 * n) 0 @ [0, 0]) = replicate (4 * n + 3) CHR ''A'' @ ''=''"
proof (induction n)
  case 0
  have "digit64 0 = CHR ''A''" by (simp add: digit64_def base64Alphabet_def)
  then show ?case by (simp add: numeral_3_eq_3)
next
  case (Suc n)
  have "digit64 0 = CHR ''A''" by (simp add: digit64_def base64Alphabet_def)
  moreover have "replicate (3 * Suc n) (0 :: 8 word) = 0 # 0 # 0 # replicate (3 * n) 0" by (simp add: eval_nat_numeral)
  moreover have "replicate (4 * Suc n + 3) CHR ''A'' = CHR ''A'' # CHR ''A'' # CHR ''A'' # CHR ''A'' # replicate (4 * n + 3) CHR ''A''"
    by (simp add: eval_nat_numeral)
  ultimately show ?case using Suc by (simp del: mult_Suc_right replicate_Suc)
qed

lemma pair_token: "length pairToken = 43" "list_all tokenChar pairToken"
proof -
  have token: "pairToken = replicate 43 CHR ''A''" 
  proof -
    have "replicate 32 (0 :: 8 word) = replicate (3 * 10) 0 @ [0, 0]" by (simp add: eval_nat_numeral)
    then show ?thesis unfolding pairToken_def tokenText_def toBase64Url_def zero_text [of 10]
      by (simp only: zero_text) simp
  qed
  show "length pairToken = 43" unfolding token by simp
  show "list_all tokenChar pairToken" unfolding token list_all_iff by (simp add: tokenChar_def between_def)
qed

lemma run_claim:
  "machinePairingRequest pairPlatform (pairRequest ''claim'' machineText None) 50 (pairStore [] [pairRow] [])
   = (Waits (Claim_hashed pairRow pairMachine pairToken), pairStore [] [pairRow] [])"
  by (simp add: machinePairingRequest_def browserOperations_def existingPairing_def rowOf_def pair_schema_machine pair_proof claimPairing_def pair_token)

lemma run_claimed:
  "goOn pairPlatform None (Claim_hashed pairRow pairMachine pairToken) 50 (pairStore [] [pairRow] [])
   = (Answers (Inr (State_value ''pair'' Pairing_claimed)), pairStore [] [claimedRow] [])"
  by (simp add: completeClaim_def machineRowOf_def updateRow_def pairStore_def claimedRow_def)
    (simp add: pairRow_def)

lemma pair_walk: "issuerWalk (pairVault ms) (Some ''dev1'') [] = Some [pairBrowser]"
  by (simp add: issuerWalk.simps)

lemma pair_grant: "pairingGrant ''user'' claimedRow [pairBrowser] pairMachine = machineGrant pairSigned"
  by (simp add: pairSigned_def pairingGrant_def)

lemma pair_signed [simp]:
  "grantUser (machineGrant pairSigned) = ''user''" "grantMachine (machineGrant pairSigned) = ''m1''"
  "grantSigningKey (machineGrant pairSigned) = toBase64 (exampleKey 3)" "grantExchangeKey (machineGrant pairSigned) = toBase64 (exampleKey 4)"
  "grantCapabilities (machineGrant pairSigned) = [Storage_access, Space_control, Credential_access]" "grantGeneration (machineGrant pairSigned) = 1"
  "grantIssuer (machineGrant pairSigned) = Some ''dev1''" "grantExpires (machineGrant pairSigned) = Some 31536600050"
  "grantSignature pairSigned = toBase64 (replicate 48 0)" "issuerChain pairSigned = Some [pairBrowser]"
  by (simp_all add: pairSigned_def pairingGrant_def pairMachine_def)

lemma pair_schema_grant: "signedCredentialAuthorityGrantSchema pairPlatform pairSigned" "credentialAuthorityGrantSchema pairPlatform (machineGrant pairSigned)"
  by (simp_all add: signedCredentialAuthorityGrantSchema_def credentialAuthorityGrantSchema_def idSchema_def lengthIn_def positiveInt_def safeInt_def
    signatureSchema_def length_toBase64 MAX_DELEGATION_DEPTH_def pair_schema)

lemma pair_grant_verifies:
  assumes "resolve ''dev1'' = Some pairBrowser"
  shows "verifyCredentialAuthorityGrant pairPlatform pairSigned root 50 (Some resolve) = Some (machineGrant pairSigned)"
proof -
  have "delegates pairDevice t (machineGrant pairSigned)" for t
    by (simp add: delegates_def pairDevice_def delegatorCapabilities_def PAIRING_CAPABILITIES_def)
  then have "grantKey pairPlatform pairSigned root 50 (Some resolve) = Some (publicKey pairDevice)"
    using assms by (simp add: grantKey_def Let_def grantResolver_def pair_verifies)
  then show ?thesis by (simp add: verifyCredentialAuthorityGrant_def Let_def pair_schema_grant)
qed

lemma pair_registers: "registerDevice pairPlatform pairSigned 50 (pairVault []) = (Inr (''m1'', 1), pairVault [pairCredential])"
  by (simp add: registerDevice_def pair_grant_verifies machineRowOf_def upsertMachine_def pairCredential_def)
    (simp add: pairVault_def)


lemma run_approve:
  "machinePairingRequest pairPlatform (pairRequest ''approve'' browserText (Some pairSigned)) 50 (pairStore [] [claimedRow] [])
   = (Answers (Inr (State_value ''pair'' Pairing_approved)), pairStore [pairCredential] [approvedRow] [])"
proof -
  obtain b where b: "credentialAuthorityGrantPayload pairPlatform (machineGrant pairSigned) = Some b"
    using pair_schema_grant(2) by (simp add: credentialAuthorityGrantPayload_def)
  have "approvePairing pairPlatform (pairRequest ''approve'' browserText (Some pairSigned)) claimedRow (Some (machineGrant pairSigned)) 50
      (pairStore [] [claimedRow] [])
    = (Answers (Inr (State_value ''pair'' Pairing_approved)), pairStore [pairCredential] [approvedRow] [])"
    by (simp add: approvePairing_def pair_schema_grant(1) b pair_registers updateRow_def approvedRow_def pairStore_def)
  then show ?thesis
    by (simp add: machinePairingRequest_def browserOperations_def pair_authorized existingPairing_def rowOf_def pairingOperationOn_def
      pair_walk pair_grant)
qed

lemma pair_relay:
  "\<exists>v. vaultVerifier pairPlatform (pairVault [pairCredential]) = Some v
     \<and> fst (authorizeRelayGrant pairPlatform v pairSigned Space_control 50 None) = Allowed (machineGrant pairSigned)"
proof -
  define reg where "reg = \<lparr>registryUser = ''user'', registryRoot = toBase64 (exampleKey 1),
     machineRow = (\<lambda>i. Option.bind (machineRowOf (pairVault [pairCredential]) i) (machineCredential pairPlatform)),
     deviceRow = deviceGrant (pairVault [pairCredential])\<rparr>"
  have v: "vaultVerifier pairPlatform (pairVault [pairCredential]) = Some (Some (reg, exampleKey 1))"
    by (simp add: vaultVerifier_def vaultRegistry_def newVerifier_def reg_def)
  have c: "credentialMachine pairCredential = ''m1''" "pairedGrant pairCredential = Some pairSigned"
    by (simp_all add: pairCredential_def)
  have row: "machineRow reg ''m1'' = Some pairCredential"
    by (simp add: reg_def machineRowOf_def c machineCredential_def pair_schema_grant)
  have g: "verifyCredentialAuthorityGrant pairPlatform pairSigned root 50 (Some (resolveIn reg)) = Some (machineGrant pairSigned)" for root
    by (rule pair_grant_verifies) (simp add: resolveIn_def reg_def)
  have relay: "relayGrant pairPlatform reg (exampleKey 1) pairSigned 50 None = (Some (machineGrant pairSigned, False), None)"
    by (simp add: relayGrant_def grantCheck_def g Let_def)
  have m: "machine pairPlatform (Some (reg, exampleKey 1)) ''m1'' 50 None = (Some pairCredential, None)"
    by (simp add: machine_def row c machineCheck_def g Let_def)
  have own: "matchesRow (machineGrant pairSigned) Space_control pairCredential" by (simp add: matchesRow_def pairCredential_def)
  have user: "registryUser reg = ''user''" by (simp add: reg_def)
  show ?thesis by (intro exI conjI, rule v) (simp add: authorizeRelayGrant_def relay m own user)
qed

lemma run_poll:
  "machinePairingRequest pairPlatform (pairRequest ''poll'' machineText None) 50 (pairStore [pairCredential] [approvedRow] [])
   = (Waits (Settings_asked approvedRow pairMachine pairSigned), pairStore [pairCredential] [approvedRow] [])"
proof -
  obtain v where v: "vaultVerifier pairPlatform (pairVault [pairCredential]) = Some v"
    "fst (authorizeRelayGrant pairPlatform v pairSigned Space_control 50 None) = Allowed (machineGrant pairSigned)" using pair_relay by blast
  have "pollPairing pairPlatform approvedRow pairMachine 50 (pairStore [pairCredential] [approvedRow] [])
      = Waits (Settings_asked approvedRow pairMachine pairSigned)"
    by (simp add: pollPairing_def v)
  then show ?thesis
    by (simp add: machinePairingRequest_def browserOperations_def existingPairing_def rowOf_def pair_proof pairingOperationOn_def pair_walk)
qed

lemma run_put:
  "goOn pairPlatform (Some ''home'') (Settings_asked approvedRow pairMachine pairSigned) 50 (pairStore [pairCredential] [approvedRow] [])
   = (Waits (Machine_put ''pair'' ''home'' pairMachine pairSigned), pairStore [pairCredential] [approvedRow] [''m1''])"
  by (simp add: pairStore_def) (simp add: pairMachine_def)

lemma run_enrolled:
  "goOn pairPlatform None (Machine_put ''pair'' ''home'' pairMachine pairSigned) 50 (pairStore [pairCredential] [approvedRow] [''m1''])
   = (Answers (Inr (Enrolled_value ''pair'' ''home'' ''m1'' pairSigned)),
      pairStore [pairCredential] [approvedRow\<lparr>rowState := Pairing_enrolled\<rparr>] [''m1''])"
  by (simp add: finishPoll_def rowOf_def updateRow_def pairStore_def) (simp add: pairMachine_def)

text \<open>From the creation to the poll that waits for the fleet.\<close>

lemma run_reachable:
  "pairing_reachable pairPlatform (pairStore [] [pairRow] [], [Claim_hashed pairRow pairMachine pairToken])"
  "pairing_reachable pairPlatform (pairStore [pairCredential] [approvedRow] [''m1''], [Machine_put ''pair'' ''home'' pairMachine pairSigned])"
proof -
  have "pairing_reachable pairPlatform (pairStore [] [] [], [])" by (rule start) simp
  from step [OF this waits [OF run_create]]
  have created: "pairing_reachable pairPlatform (pairStore [] [] [], [] @ Token_drawn ''pair'' pairToken ''dev1'' 50 # [])" by simp
  from step [OF this resumed [OF run_insert]]
  have "pairing_reachable pairPlatform (pairStore [] [pairRow] [], [])" by (simp add: drawsFresh_def)
  from step [OF this waits [OF run_claim]]
  show claimed: "pairing_reachable pairPlatform (pairStore [] [pairRow] [], [Claim_hashed pairRow pairMachine pairToken])" .
  then have "pairing_reachable pairPlatform (pairStore [] [pairRow] [], [] @ Claim_hashed pairRow pairMachine pairToken # [])" by simp
  from step [OF this resumed [OF run_claimed]]
  have "pairing_reachable pairPlatform (pairStore [] [claimedRow] [], [])" by (simp add: drawsFresh_def)
  from step [OF this answered [OF run_approve]]
  have "pairing_reachable pairPlatform (pairStore [pairCredential] [approvedRow] [], [])" .
  from step [OF this waits [OF run_poll]]
  have "pairing_reachable pairPlatform (pairStore [pairCredential] [approvedRow] [], [] @ Settings_asked approvedRow pairMachine pairSigned # [])"
    by simp
  from step [OF this onward [OF run_put]]
  show "pairing_reachable pairPlatform (pairStore [pairCredential] [approvedRow] [''m1''], [Machine_put ''pair'' ''home'' pairMachine pairSigned])"
    by (simp add: drawsFresh_def)
qed

lemma pairing_refines_witness:
  "\<exists>r \<in> set [pairRow]. pairing_moves pairPlatform r claimedRow"
proof -
  have "pairing_step pairPlatform (pairStore [] [pairRow] [], [] @ Claim_hashed pairRow pairMachine pairToken # []) (pairStore [] [claimedRow] [], [] @ [])"
    by (rule resumed [OF run_claimed]) (simp add: drawsFresh_def)
  then show ?thesis using pairing_refines [OF run_reachable(1), of "pairStore [] [claimedRow] []" "[]" claimedRow] by simp
qed

text \<open>
  The catalog of the fleet is written before the pairing is read again: a poll that waits while its
  pairing is cancelled still puts the machine into the fleet, and then refuses.
\<close>

lemma cancelled_in_fleet:
  assumes "rowState row = Pairing_approved" and "rowOf (rowPairing row) st = Some r" and "rowState r = Pairing_cancelled"
  shows "\<exists>st'. goOn pf (Some (c # cs)) (Settings_asked row m s) now st = (Waits (Machine_put (rowPairing row) (c # cs) m s), st')
     \<and> pairedId m \<in> set (fleet st')
     \<and> goOn pf handle (Machine_put (rowPairing row) (c # cs) m s) after st' = (Refuses ''PAIRING_UNAVAILABLE'', st')"
  using assms by (simp add: finishPoll_def) (simp add: rowOf_def)

end
