(* ===== verification/Pairing_Runs.thy ===== *)
theory Pairing_Runs
  imports Machine_Pairing
begin

text \<open>
  The history of the pairings of \<open>Machine_Pairing\<close>: a run with a log of the tokens that were given out
  and of the requests that were received, each with the clock and the credentials it met. What a row
  holds is traced to the log: the token that was answered when the pairing was created, the request
  that claimed with that token, the request that approved.
\<close>

section \<open>Runs with a log\<close>

datatype pairing_event = Issued string string | Received pairing_request int vault

definition issues :: "outcome \<Rightarrow> pairing_event list" where
  "issues out = (case out of Answers (Inr (Token_value i token t)) \<Rightarrow> [Issued i token] | _ \<Rightarrow> [])"

definition waiting :: "outcome \<Rightarrow> wait list \<Rightarrow> wait list" where
  "waiting out ws = (case out of Waits w \<Rightarrow> w # ws | Answers a \<Rightarrow> ws)"

text \<open>\<open>randomUUID\<close> never draws an id again.\<close>

definition neverIssued :: "wait \<Rightarrow> pairing_event list \<Rightarrow> bool" where
  "neverIssued w log \<longleftrightarrow> (case w of Token_drawn i token creator began \<Rightarrow> \<forall>t. Issued i t \<notin> set log | _ \<Rightarrow> True)"

inductive pairing_run :: "platform \<Rightarrow> pairing_event list \<Rightarrow> pairing_store \<times> wait list \<Rightarrow> bool" for pf where
  begins: "pairings st = [] \<Longrightarrow> pairing_run pf [] (st, [])"
| receives: "pairing_run pf log (st, ws) \<Longrightarrow> machinePairingRequest pf q now st = (out, st') \<Longrightarrow>
    pairing_run pf (Received q now (credentials st) # log) (st', waiting out ws)"
| continues: "pairing_run pf log (st, xs @ w # ys) \<Longrightarrow> goOn pf handle w now st = (out, st') \<Longrightarrow>
    drawsFresh w st (xs @ ys) \<Longrightarrow> neverIssued w log \<Longrightarrow> pairing_run pf (issues out @ log) (st', waiting out (xs @ ys))"
| changes: "pairing_run pf log (st, ws) \<Longrightarrow> pairing_run pf log (st\<lparr>credentials := v\<rparr>, ws)"

lemma run_reaches: "pairing_run pf log s \<Longrightarrow> pairing_reachable pf s"
proof (induction rule: pairing_run.induct)
  case (receives log st ws q now out st')
  then show ?case by (cases out) (auto simp: waiting_def intro: step answered waits)
next
  case (continues log st xs w ys handle now out st')
  then show ?case by (cases out) (auto simp: waiting_def intro: step resumed onward)
qed (auto intro: start step elsewhere)

section \<open>What the log tells of a row\<close>

definition claimedIn :: "platform \<Rightarrow> pairing_event list \<Rightarrow> string \<Rightarrow> PairingMachine \<Rightarrow> string \<Rightarrow> bool" where
  "claimedIn pf log i m token \<longleftrightarrow>
     (\<exists>q t v sent. Received q t v \<in> set log \<and> pairingOperation q = ''claim'' \<and> bodyPairing (pairingBody q) = Some i
        \<and> bodyToken (pairingBody q) = Some sent \<and> tokenHash pf sent = tokenHash pf token
        \<and> machineProof pf q i (Some m) t = Inr m)"

definition approvedIn :: "platform \<Rightarrow> pairing_event list \<Rightarrow> string \<Rightarrow> SignedCredentialAuthorityGrant \<Rightarrow> bool" where
  "approvedIn pf log i s \<longleftrightarrow>
     (\<exists>q t v d g. Received q t v \<in> set log \<and> pairingOperation q = ''approve'' \<and> bodyPairing (pairingBody q) = Some i
        \<and> authorizeBrowserRequest pf (pairingSigned q) PAIRING_CAPABILITIES t v = Inr d
        \<and> bodyGrant (pairingBody q) = Some s \<and> fst (registerDevice pf s t v) = Inr g)"

definition backed :: "platform \<Rightarrow> pairing_event list \<Rightarrow> PairingRow \<Rightarrow> bool" where
  "backed pf log r \<longleftrightarrow>
     (\<exists>token. Issued (rowPairing r) token \<in> set log
        \<and> (rowState r = Pairing_created \<longrightarrow> rowTokenHash r = tokenHash pf token)
        \<and> (\<forall>m. rowMachine r = Some m \<longrightarrow> claimedIn pf log (rowPairing r) m token))
     \<and> (\<forall>s. rowGrant r = Some s \<longrightarrow> approvedIn pf log (rowPairing r) s)"

text \<open>A claim whose token is being hashed was received, and sent that token.\<close>

definition sentBy :: "platform \<Rightarrow> pairing_event list \<Rightarrow> wait \<Rightarrow> bool" where
  "sentBy pf log w \<longleftrightarrow>
     (case w of
        Claim_hashed row m sent \<Rightarrow>
          (\<exists>q t v. Received q t v \<in> set log \<and> pairingOperation q = ''claim'' \<and> bodyPairing (pairingBody q) = Some (rowPairing row)
             \<and> bodyToken (pairingBody q) = Some sent \<and> machineProof pf q (rowPairing row) (Some m) t = Inr m)
      | _ \<Rightarrow> True)"

definition oneToken :: "pairing_event list \<Rightarrow> bool" where
  "oneToken log \<longleftrightarrow> (\<forall>i a b. Issued i a \<in> set log \<longrightarrow> Issued i b \<in> set log \<longrightarrow> a = b)"

definition logged :: "platform \<Rightarrow> pairing_event list \<Rightarrow> pairing_store \<times> wait list \<Rightarrow> bool" where
  "logged pf log s \<longleftrightarrow>
     (\<forall>r \<in> set (pairings (fst s)). backed pf log r) \<and> (\<forall>w \<in> set (snd s). sentBy pf log w) \<and> oneToken log"

lemma log_grows:
  assumes "set log \<subseteq> set log'"
  shows "claimedIn pf log i m token \<Longrightarrow> claimedIn pf log' i m token" and "approvedIn pf log i s \<Longrightarrow> approvedIn pf log' i s"
    and "backed pf log r \<Longrightarrow> backed pf log' r" and "sentBy pf log w \<Longrightarrow> sentBy pf log' w"
proof -
  show claimed: "claimedIn pf log i m token \<Longrightarrow> claimedIn pf log' i m token" for i m token
    unfolding claimedIn_def using assms by blast
  show approved: "approvedIn pf log i s \<Longrightarrow> approvedIn pf log' i s" for i s
    unfolding approvedIn_def using assms by blast
  show "backed pf log r \<Longrightarrow> backed pf log' r"
    unfolding backed_def using assms claimed approved by blast
  show "sentBy pf log w \<Longrightarrow> sentBy pf log' w"
    unfolding sentBy_def using assms by (cases w) (simp; blast)+
qed

text \<open>Each move of a row that has its entries in the log.\<close>

lemma backed_cancelled: "backed pf log r \<Longrightarrow> backed pf log (r\<lparr>rowState := Pairing_cancelled, rowTokenHash := []\<rparr>)"
  by (auto simp: backed_def)

lemma backed_enrolled: "backed pf log r \<Longrightarrow> backed pf log (r\<lparr>rowState := Pairing_enrolled\<rparr>)"
  by (auto simp: backed_def)

lemma backed_approved:
  "backed pf log r \<Longrightarrow> approvedIn pf log (rowPairing r) s \<Longrightarrow> backed pf log (r\<lparr>rowState := Pairing_approved, rowGrant := Some s\<rparr>)"
  by (auto simp: backed_def)

lemma backed_claimed:
  assumes "backed pf log row" and "rowState row = Pairing_created" and "sentBy pf log (Claim_hashed row m sent)"
    and "tokenHash pf sent = rowTokenHash row"
  shows "backed pf log (row\<lparr>rowState := Pairing_claimed, rowMachine := Some m, rowTokenHash := []\<rparr>)"
proof -
  obtain token where token: "Issued (rowPairing row) token \<in> set log" "rowTokenHash row = tokenHash pf token"
    using assms(1,2) by (auto simp: backed_def)
  then have "claimedIn pf log (rowPairing row) m token"
    using assms(3,4) unfolding claimedIn_def sentBy_def by fastforce
  then show ?thesis using assms(1) token(1) by (auto simp: backed_def)
qed

section \<open>Requests\<close>

lemma backed_update:
  assumes "\<forall>r \<in> set (pairings st). backed pf log r"
    and "\<And>r. r \<in> set (pairings st) \<Longrightarrow> rowPairing r = i \<Longrightarrow> P r \<Longrightarrow> backed pf log (f r)"
  shows "\<forall>r \<in> set (pairings (updateRow i P f st)). backed pf log r"
  using assms by (auto simp: updateRow_def)

lemma cancel_backed:
  assumes "\<forall>r \<in> set (pairings st). backed pf log r"
  shows "\<forall>r \<in> set (pairings (snd (cancelPairing row st))). backed pf log r"
proof -
  have "\<forall>r \<in> set (pairings (updateRow (rowPairing row) (\<lambda>_. True) (\<lambda>r. r\<lparr>rowState := Pairing_cancelled, rowTokenHash := []\<rparr>) st')). backed pf log r"
    if "pairings st' = pairings st" for st'
    by (rule backed_update) (use assms that backed_cancelled in auto)
  from this [of st] this [of "st\<lparr>credentials := removeManagedDevice (pairedId (the (rowMachine row))) (credentials st)\<rparr>"]
  show ?thesis using assms by (auto simp: cancelPairing_def Let_def split: option.split)
qed

lemma approve_backed:
  assumes "\<forall>r \<in> set (pairings st). backed pf log r" and "Received q now (credentials st) \<in> set log"
    and "pairingOperation q = ''approve''" and "bodyPairing (pairingBody q) = Some (rowPairing row)"
    and "authorizeBrowserRequest pf (pairingSigned q) PAIRING_CAPABILITIES now (credentials st) = Inr d"
  shows "\<forall>r \<in> set (pairings (snd (approvePairing pf q row grant now st))). backed pf log r"
proof -
  have "\<forall>r \<in> set (pairings (updateRow (rowPairing row) (\<lambda>r. rowState r = Pairing_claimed)
      (\<lambda>r. r\<lparr>rowState := Pairing_approved, rowGrant := Some s\<rparr>) (st\<lparr>credentials := v\<rparr>))). backed pf log r"
    if "bodyGrant (pairingBody q) = Some s" "registerDevice pf s now (credentials st) = (Inr g, v)" for s g v
  proof (rule backed_update)
    have "fst (registerDevice pf s now (credentials st)) = Inr g" using that(2) by simp
    then have approved: "approvedIn pf log (rowPairing row) s" unfolding approvedIn_def using assms(2-5) that(1) by blast
    fix r assume "r \<in> set (pairings (st\<lparr>credentials := v\<rparr>))" "rowPairing r = rowPairing row"
    then show "backed pf log (r\<lparr>rowState := Pairing_approved, rowGrant := Some s\<rparr>)"
      using assms(1) approved by (intro backed_approved) auto
  qed (use assms(1) in simp)
  then show ?thesis using assms(1)
    by (auto simp: approvePairing_def split: option.split if_split prod.split sum.split)
qed

definition leaves :: "platform \<Rightarrow> pairing_event list \<Rightarrow> outcome \<times> pairing_store \<Rightarrow> bool" where
  "leaves pf log result \<longleftrightarrow>
     (\<forall>r \<in> set (pairings (snd result)). backed pf log r) \<and> (\<forall>w. fst result = Waits w \<longrightarrow> sentBy pf log w)"

lemma leaves_answers [simp]: "leaves pf log (Answers a, st) \<longleftrightarrow> (\<forall>r \<in> set (pairings st). backed pf log r)"
  by (simp add: leaves_def)

lemma operation_leaves:
  assumes "\<forall>r \<in> set (pairings st). backed pf log r" and "Received q now (credentials st) \<in> set log"
    and "bodyPairing (pairingBody q) = Some (rowPairing row)"
    and "pairingOperation q = ''approve'' \<Longrightarrow> \<exists>d. authorizeBrowserRequest pf (pairingSigned q) PAIRING_CAPABILITIES now (credentials st) = Inr d"
  shows "leaves pf log (pairingOperationOn pf user q row now st)"
proof (cases "issuerWalk (credentials st) (Some (rowCreator row)) []")
  case None
  then show ?thesis using assms(1) by (simp add: pairingOperationOn_def)
next
  case (Some walked)
  have polls: "leaves pf log (pollPairing pf row m now st, st)" for m
    using assms(1) by (auto simp: leaves_def pollPairing_def sentBy_def split: option.splits if_splits DeviceVerdict.splits)
  have cancels: "leaves pf log (cancelPairing row st)"
    using cancel_backed [OF assms(1), of row] by (auto simp: leaves_def cancelPairing_def Let_def)
  have approves: "leaves pf log (approvePairing pf q row grant now st)" if op: "pairingOperation q = ''approve''" for grant
  proof -
    obtain d where "authorizeBrowserRequest pf (pairingSigned q) PAIRING_CAPABILITIES now (credentials st) = Inr d"
      using assms(4) [OF op] ..
    then have "\<forall>r \<in> set (pairings (snd (approvePairing pf q row grant now st))). backed pf log r"
      by (rule approve_backed [OF assms(1,2) op assms(3)])
    moreover have "fst (approvePairing pf q row grant now st) \<noteq> Waits w" for w
      by (auto simp: approvePairing_def split: option.split prod.split sum.split)
    ultimately show ?thesis by (simp add: leaves_def)
  qed
  show ?thesis using Some polls cancels approves assms(1) by (auto simp: pairingOperationOn_def Let_def split: option.split)
qed

lemma claim_leaves:
  assumes "\<forall>r \<in> set (pairings st). backed pf log r" and "Received q now (credentials st) \<in> set log"
    and "bodyPairing (pairingBody q) = Some (rowPairing row)" and "pairingOperation q = ''claim''"
    and "machineProof pf q (rowPairing row) (Some claimant) now = Inr m"
  shows "leaves pf log (claimPairing q row claimant, st)"
proof -
  have "sentBy pf log (Claim_hashed row claimant token)" if "bodyToken (pairingBody q) = Some token" for token
    using assms(2-5) machineProof_same [OF assms(5)] that by (auto simp: sentBy_def)
  then show ?thesis using assms(1) by (auto simp: leaves_def claimPairing_def split: option.splits if_splits)
qed

lemma existing_leaves:
  assumes "\<forall>r \<in> set (pairings st). backed pf log r" and "Received q now (credentials st) \<in> set log"
    and "pairingOperation q = ''approve'' \<Longrightarrow> \<exists>d. authorizeBrowserRequest pf (pairingSigned q) PAIRING_CAPABILITIES now (credentials st) = Inr d"
  shows "leaves pf log (existingPairing pf user q browser now st)"
proof (cases "\<exists>i row. bodyPairing (pairingBody q) = Some i \<and> isUuid pf i \<and> rowOf i st = Some row
    \<and> now < rowExpires row \<and> rowState row \<noteq> Pairing_cancelled")
  case False
  then show ?thesis using assms(1) by (auto simp: existingPairing_def split: option.split)
next
  case True
  then obtain i row where r: "bodyPairing (pairingBody q) = Some i" "isUuid pf i" "rowOf i st = Some row" "now < rowExpires row"
    "rowState row \<noteq> Pairing_cancelled" by blast
  have i: "rowPairing row = i" using rowOf_in [OF r(3)] by simp
  have on: "leaves pf log (pairingOperationOn pf user q row now st)"
    by (rule operation_leaves [OF assms(1,2) _ assms(3)]) (use r(1) i in simp_all)
  have claims: "leaves pf log (claimPairing q row m, st)" if "machineProof pf q i (Some m) now = Inr m'" "pairingOperation q = ''claim''" for m m'
    by (rule claim_leaves [OF assms(1,2)]) (use that r(1) i in simp_all)
  show ?thesis using r on claims assms(1) by (auto simp: existingPairing_def split: option.split sum.split)
qed

lemma request_leaves:
  assumes "\<forall>r \<in> set (pairings st). backed pf log r" and "Received q now (credentials st) \<in> set log"
  shows "leaves pf log (machinePairingRequest pf q now st)"
proof (cases "vaultConfig (credentials st)")
  case None
  then show ?thesis using assms(1) by (simp add: machinePairingRequest_def)
next
  case (Some c)
  obtain user root where c: "vaultConfig (credentials st) = Some (user, root)" using Some by (cases c) simp
  have created: "leaves pf log (createPairing q d now st, st)" for d
    using assms(1) by (auto simp: createPairing_def leaves_def sentBy_def split: option.splits if_splits)
  have browser: "leaves pf log (existingPairing pf user q True now st)"
    if "authorizeBrowserRequest pf (pairingSigned q) PAIRING_CAPABILITIES now (credentials st) = Inr d" for d
    using that by (intro existing_leaves [OF assms]) auto
  have other: "leaves pf log (existingPairing pf user q False now st)" if "pairingOperation q \<notin> set browserOperations"
    using that by (intro existing_leaves [OF assms]) (auto simp: browserOperations_def)
  show ?thesis using c created browser other assms(1) by (auto simp: machinePairingRequest_def split: sum.split)
qed

section \<open>What goes on\<close>

lemma claim_completed:
  assumes "\<forall>r \<in> set (pairings st). backed pf log r" and "waitOk pf st (Claim_hashed row m sent)" and "sentBy pf log (Claim_hashed row m sent)"
  shows "leaves pf log (completeClaim pf row m sent now st)"
proof -
  have "\<forall>r \<in> set (pairings (updateRow (rowPairing row) (\<lambda>r. rowState r = Pairing_created \<and> now < rowExpires r)
      (\<lambda>r. r\<lparr>rowState := Pairing_claimed, rowMachine := Some m, rowTokenHash := []\<rparr>) st)). backed pf log r"
    if "tokenHash pf sent = rowTokenHash row"
  proof (rule backed_update [OF assms(1)])
    fix r assume r: "r \<in> set (pairings st)" "rowPairing r = rowPairing row" "rowState r = Pairing_created \<and> now < rowExpires r"
    then have "r = row" using assms(2) by auto
    then show "backed pf log (r\<lparr>rowState := Pairing_claimed, rowMachine := Some m, rowTokenHash := []\<rparr>)"
      using r assms(1,3) that by (intro backed_claimed) auto
  qed
  then show ?thesis using assms(1) by (auto simp: completeClaim_def Let_def leaves_def)
qed

lemma finish_leaves: "\<forall>r \<in> set (pairings st). backed pf log r \<Longrightarrow> leaves pf log (finishPoll i h m s now st)"
  using backed_update [of st pf log i "\<lambda>r. rowState r = Pairing_approved" "\<lambda>r. r\<lparr>rowState := Pairing_enrolled\<rparr>"] backed_enrolled
  by (auto simp: finishPoll_def split: option.split)

lemma inserted_leaves:
  assumes "\<forall>r \<in> set (pairings st). backed pf log r" and "insertPairing pf i token creator now st = (out, st')"
  shows "leaves pf (issues out @ log) (out, st')"
proof -
  have "\<forall>r \<in> set (pairings st). backed pf (Issued i token # log) r"
    using assms(1) log_grows(3) [of log "Issued i token # log"] by auto
  moreover have "backed pf (Issued i token # log) \<lparr>rowPairing = i, rowCreator = creator, rowTokenHash = tokenHash pf token,
      rowExpires = t, rowState = Pairing_created, rowMachine = None, rowGrant = None\<rparr>" for t
    by (auto simp: backed_def)
  ultimately show ?thesis using assms by (auto simp: insertPairing_def Let_def issues_def split: if_splits)
qed

lemma goOn_leaves:
  assumes "\<forall>r \<in> set (pairings st). backed pf log r" and "waitOk pf st w" and "sentBy pf log w" and "goOn pf handle w now st = (out, st')"
  shows "leaves pf (issues out @ log) (out, st')"
proof -
  have silent: "issues out = []" if "\<And>i token t. out \<noteq> Answers (Inr (Token_value i token t))"
    using that by (auto simp: issues_def split: outcome.split sum.split pairing_value.split)
  show ?thesis
  proof (cases w)
    case (Token_drawn i token creator began)
    then show ?thesis using assms inserted_leaves by simp
  next
    case (Claim_hashed row m sent)
    then have r: "completeClaim pf row m sent now st = (out, st')" using assms(4) by simp
    then have "issues out = []" by (intro silent) (auto simp: completeClaim_def Let_def split: if_splits)
    then show ?thesis using claim_completed [of st pf log row m sent now] assms(1-3) Claim_hashed r by simp
  next
    case (Settings_asked row m s)
    then have "issues out = []" using assms(4)
      by (intro silent) (auto simp: finishPoll_def split: option.splits list.splits if_splits)
    moreover have "leaves pf log (goOn pf handle w now st)"
      using assms(1) finish_leaves [OF assms(1)] Settings_asked
      by (auto simp: leaves_def [of _ _ "(Waits _, _)"] sentBy_def split: option.split list.split)
    ultimately show ?thesis using assms(4) by simp
  next
    case (Machine_put i h m s)
    then have "issues out = []" using assms(4) by (intro silent) (auto simp: finishPoll_def split: option.splits if_splits)
    then show ?thesis using finish_leaves [OF assms(1), of i h m s now] assms(4) Machine_put by simp
  qed
qed

lemma goOn_issues:
  assumes "goOn pf handle w now st = (out, st')" and "Issued i token \<in> set (issues out)"
  shows "\<exists>creator began. w = Token_drawn i token creator began"
  using assms
  by (cases w) (auto simp: insertPairing_def completeClaim_def finishPoll_def Let_def issues_def split: option.splits list.splits if_splits)

section \<open>All runs\<close>

lemma leaves_logged:
  assumes "leaves pf log (out, st')" and "\<forall>w \<in> set ws. sentBy pf log w" and "oneToken log"
  shows "logged pf log (st', waiting out ws)"
  using assms by (cases out) (auto simp: leaves_def logged_def waiting_def)

lemma run_logged: "pairing_run pf log s \<Longrightarrow> logged pf log s"
proof (induction rule: pairing_run.induct)
  case (begins st)
  then show ?case by (simp add: logged_def oneToken_def)
next
  case (receives log st ws q now out st')
  let ?log = "Received q now (credentials st) # log"
  have "set log \<subseteq> set ?log" by auto
  note grows = log_grows [OF this]
  have "leaves pf ?log (machinePairingRequest pf q now st)"
    by (rule request_leaves) (use receives.IH grows(3) in \<open>auto simp: logged_def\<close>)
  then show ?case unfolding receives.hyps(2)
    by (rule leaves_logged) (use receives.IH grows(4) in \<open>auto simp: logged_def oneToken_def\<close>)
next
  case (continues log st xs w ys handle now out st')
  have "set log \<subseteq> set (issues out @ log)" by auto
  note grows = log_grows [OF this]
  have ok: "waitOk pf st w" using reachable_inv [OF run_reaches [OF continues.hyps(1)]] by (simp add: pairingInv_def)
  have "leaves pf (issues out @ log) (out, st')"
    by (rule goOn_leaves [OF _ ok _ continues.hyps(2)]) (use continues.IH in \<open>auto simp: logged_def\<close>)
  then show ?case
  proof (rule leaves_logged)
    show "\<forall>w \<in> set (xs @ ys). sentBy pf (issues out @ log) w" using continues.IH grows(4) by (auto simp: logged_def)
    have "oneToken log" using continues.IH by (simp add: logged_def)
    moreover have "Issued i b \<notin> set log" if "Issued i a \<in> set (issues out)" for i a b
      using goOn_issues [OF continues.hyps(2) that] continues.hyps(4) by (auto simp: neverIssued_def)
    moreover have "a = b" if "Issued i a \<in> set (issues out)" "Issued i b \<in> set (issues out)" for i a b
      using goOn_issues [OF continues.hyps(2) that(1)] goOn_issues [OF continues.hyps(2) that(2)] by auto
    ultimately show "oneToken (issues out @ log)" unfolding oneToken_def set_append by blast
  qed
next
  case (changes log st ws v)
  then show ?case by (simp add: logged_def)
qed

text \<open>
  C7. A poll answers an enrollment only while the pairing is approved or already enrolled and has not
  expired or been cancelled, also after it has waited. In any run, the pairing was created with exactly one
  token, the one that was answered to its creator; the machine is the one whose claim, among the requests
  that were received, sent a token with that token's hash and was signed with the machine's key; the grant
  is the one an approval of this pairing sent, which was received from a browser with the pairing's
  capabilities and which the vault registered; and it names exactly that machine and its keys.
\<close>

theorem enrolled_exactly:
  assumes "pairing_run pf log (st, xs @ w # ys)" and "goOn pf handle w now st = (Answers (Inr (Enrolled_value i h named s)), st')"
  shows "\<exists>r m token. rowOf i st = Some r \<and> now < rowExpires r \<and> rowState r \<in> {Pairing_approved, Pairing_enrolled}
     \<and> rowMachine r = Some m \<and> rowGrant r = Some s \<and> named = pairedId m \<and> grantNames m (rowCreator r) s
     \<and> rowOf i st' = Some (r\<lparr>rowState := Pairing_enrolled\<rparr>)
     \<and> (\<forall>t. Issued i t \<in> set log \<longleftrightarrow> t = token)
     \<and> (\<exists>q t v sent. Received q t v \<in> set log \<and> pairingOperation q = ''claim'' \<and> bodyPairing (pairingBody q) = Some i
          \<and> bodyToken (pairingBody q) = Some sent \<and> tokenHash pf sent = tokenHash pf token \<and> machineProof pf q i (Some m) t = Inr m)
     \<and> (\<exists>q t v d g. Received q t v \<in> set log \<and> pairingOperation q = ''approve'' \<and> bodyPairing (pairingBody q) = Some i
          \<and> authorizeBrowserRequest pf (pairingSigned q) PAIRING_CAPABILITIES t v = Inr d
          \<and> bodyGrant (pairingBody q) = Some s \<and> fst (registerDevice pf s t v) = Inr g)"
proof -
  obtain r m where r: "rowOf i st = Some r" "now < rowExpires r" "rowState r \<in> {Pairing_approved, Pairing_enrolled}"
    "rowMachine r = Some m" "rowGrant r = Some s" "named = pairedId m" "grantNames m (rowCreator r) s"
    "rowOf i st' = Some (r\<lparr>rowState := Pairing_enrolled\<rparr>)"
    by (rule enrolled_row [OF run_reaches [OF assms(1)] assms(2)])
  have row: "r \<in> set (pairings st)" "rowPairing r = i" using rowOf_in [OF r(1)] by simp_all
  have "backed pf log r" and one: "oneToken log" using run_logged [OF assms(1)] row(1) by (simp_all add: logged_def)
  then obtain token where token: "Issued i token \<in> set log" "claimedIn pf log i m token" and approved: "approvedIn pf log i s"
    using r(4,5) row(2) by (auto simp: backed_def)
  have "\<forall>t. Issued i t \<in> set log \<longleftrightarrow> t = token" using one token(1) unfolding oneToken_def by blast
  then show ?thesis using r token(2) approved unfolding claimedIn_def approvedIn_def by blast
qed

section \<open>An example\<close>

text \<open>The run of \<open>run_reachable\<close>, from the creation to the poll that waits for the fleet, with its log.\<close>

lemma example_run:
  "\<exists>log. pairing_run pairPlatform log
     (pairStore [pairCredential] [approvedRow] [''m1''], [] @ Machine_put ''pair'' ''home'' pairMachine pairSigned # [])"
proof -
  have "pairing_run pairPlatform [] (pairStore [] [] [], [])" by (rule begins) simp
  from receives [OF this run_create]
  obtain log where "pairing_run pairPlatform (Received (pairRequest ''create'' browserText None) 50 (pairVault []) # [])
      (pairStore [] [] [], [] @ Token_drawn ''pair'' pairToken ''dev1'' 50 # [])" by (simp add: waiting_def)
  from continues [OF this run_insert]
  obtain log where "pairing_run pairPlatform log (pairStore [] [pairRow] [], [])" by (auto simp: drawsFresh_def neverIssued_def waiting_def)
  from receives [OF this run_claim]
  obtain log where "pairing_run pairPlatform log (pairStore [] [pairRow] [], [] @ Claim_hashed pairRow pairMachine pairToken # [])"
    by (auto simp: waiting_def)
  from continues [OF this run_claimed]
  obtain log where "pairing_run pairPlatform log (pairStore [] [claimedRow] [], [])" by (auto simp: drawsFresh_def neverIssued_def waiting_def)
  from receives [OF this run_approve]
  obtain log where "pairing_run pairPlatform log (pairStore [pairCredential] [approvedRow] [], [])" by (auto simp: waiting_def)
  from receives [OF this run_poll]
  obtain log where "pairing_run pairPlatform log (pairStore [pairCredential] [approvedRow] [], [] @ Settings_asked approvedRow pairMachine pairSigned # [])"
    by (auto simp: waiting_def)
  from continues [OF this run_put]
  show ?thesis by (auto simp: drawsFresh_def neverIssued_def waiting_def)
qed

theorem enrolled_exactly_witness:
  "\<exists>r m. rowOf ''pair'' (pairStore [pairCredential] [approvedRow] [''m1'']) = Some r \<and> rowMachine r = Some m
     \<and> rowGrant r = Some pairSigned \<and> pairedId m = ''m1'' \<and> grantNames m ''dev1'' pairSigned"
proof -
  obtain log where "pairing_run pairPlatform log
      (pairStore [pairCredential] [approvedRow] [''m1''], [] @ Machine_put ''pair'' ''home'' pairMachine pairSigned # [])"
    using example_run ..
  from enrolled_exactly [OF this run_enrolled]
  obtain r m where "rowOf ''pair'' (pairStore [pairCredential] [approvedRow] [''m1'']) = Some r" "rowMachine r = Some m"
    "rowGrant r = Some pairSigned" "''m1'' = pairedId m" "grantNames m (rowCreator r) pairSigned" by blast
  moreover from this(1) have "r = approvedRow" by (simp add: rowOf_def)
  ultimately show ?thesis by simp
qed

end
