(* ===== verification/Spec2Isabelle.thy ===== *)
theory Spec2Isabelle
  imports Prelude Dependency_Graph Relations Stack_Cycles Stack_Checks Credits Credit_Ledger
    Deployment_Plan Deployment_Journal Deployment_Engine Route_Registry Sha256_State Storage_Breaker Json Base64 Device_Grants
    Patterns Environment_Bundle Lifecycle_Data Lifecycle Lifecycle_Transition Space_Environment Lifecycle_Runs Lifecycle_Types
    Lifecycle_Log Machine_Credentials Device_Authority Device_Memo Device_Answers Credential_Vault Vault_History Authority_Cache
    Conversation_Events Executions Transcript_Items Transcript_Projection Transcript_Properties
    Transcript_Entries Transcript_Reader Machine_Pairing Pairing_Runs
begin

text \<open>
  A verification library of the core logic of GitSpace: a browser workspace for coding agents, whose
  state lives in Cloudflare Durable Objects (\<open>packages/account-worker\<close>, \<open>packages/platform\<close>), whose
  contracts and decisions are pure TypeScript (\<open>packages/protocol\<close>, \<open>protocol-workspace\<close>,
  \<open>protocol-environment\<close>, \<open>blocks\<close>), and whose releases are rolled out by \<open>packages/deployment\<close>. All paths
  below are relative to \<open>src/packages\<close>.

  \<^bold>\<open>How the parts interact.\<close> A project holds workspaces that depend on and are stacked on each other
  (relations). A workspace has an environment: a bundle that names its profiles and scripts, and runs
  of its lifecycle phases that a machine claims, reports on and ends; the machine frames the output
  of the scripts in a log. A browser or machine acts with a device grant that a chain of signed
  invites ties to the account's root key; the account's vault keeps the registry of grants, every
  isolate of the account caches a snapshot of it and remembers what it verified. A service of a
  workspace is published under a host name through the route registry. Metered use is charged to a
  credit ledger; a Durable Object that writes too much is stopped by the storage breaker; a release is
  a signed plan that the deployment engine executes and journals. A conversation with an agent is kept
  as entries; the runtime reads windows of them as transcript events, and a projector turns the events
  into the messages, tool calls, questions and cards of executions that people read. Notes of the
  workspace reach the agent as envelopes in the text it is sent, and are read back from it.

  \<^bold>\<open>Modelling conventions.\<close> A \<open>class\<close> or table is a record of its fields or rows; a method is a function
  from the record to its result and the new record. A raise, an error result and an early return are
  branches of a sum or an option. A transaction that raises keeps the state it began with. A JavaScript
  \<open>Map\<close> is an association list in insertion order, a safe integer an \<open>int\<close>, a 32-bit value a word, a
  string a list of characters, an instant its milliseconds. A character has a code below 256, so a text has no
  surrogates: \<open>encodeURIComponent\<close> does not throw on it, \<open>toUpperCase\<close> is that of ASCII, which is all a method has, and
  UTF-8 is left out where only the equality of bytes matters. What is not under \<open>src\<close> is a parameter:
  Ed25519 and SHA-256 as primitives, \<open>JSON.parse\<close> and the formats of the schema library,
  \<open>localeCompare\<close>, \<open>TextDecoder\<close>, the storage of the platform, the drivers of a deployment.

  \<^bold>\<open>Theories.\<close>
  \<^item> \<open>Prelude\<close>: maps, sets, digits and texts as JavaScript has them; the locale \<open>kept_invariant\<close> of a
    component whose operations keep an invariant, interpreted by the components with state.
    \<open>Patterns\<close>: regular expressions with JavaScript's backtracking order. \<open>Json\<close>, \<open>Base64\<close>: the texts
    that are signed, with their round trips.
  \<^item> \<open>Dependency_Graph\<close>, \<open>Relations\<close>, \<open>Stack_Cycles\<close>, \<open>Stack_Checks\<close>
    (\<open>protocol-workspace/src/dependency-graph.ts\<close>, \<open>relations.ts\<close>): the breadth-first search is a
    function with a measure on unvisited nodes; what it answers is a path and it misses none; an
    accepted write keeps the graph acyclic; Tarjan's search is run with one unit of fuel for each
    workspace, which bounds its depth, and validation is proved to return.
  \<^item> \<open>Credits\<close>, \<open>Credit_Ledger\<close> (\<open>platform/src/credits.ts\<close>, \<open>credit-ledger.ts\<close>): prices are rounded up,
    the exposure bound covers every burn, balance and debits are conserved, reservations are backed by
    the rows, a record is debited once, an administrator's nonce is used once.
  \<^item> \<open>Deployment_Plan\<close>, \<open>Deployment_Journal\<close>, \<open>Deployment_Engine\<close> (\<open>deployment/src/contracts.ts\<close>,
    \<open>journal.ts\<close>, \<open>engine.ts\<close>): which entrypoints a plan replaces and in which order (the
    search's fuel is one more than the entrypoints it may visit, and is proved enough), and that execution
    refines the specified attempt: commit in order, finalize after every commit, roll back in reverse.
  \<^item> \<open>Route_Registry\<close> (\<open>account-worker/src/hosted-route-registry.ts\<close>): leases of machine and workspace
    host names and the credentials of their callers; one tenant's calls never move another's route.
  \<^item> \<open>Sha256_State\<close> (\<open>protocol/src/sha256-state.ts\<close>): on 32-bit words; a file hashed in pieces, across
    saves, has the digest of FIPS 180-4 of the whole.
  \<^item> \<open>Storage_Breaker\<close> (\<open>protocol/src/storage-breaker.ts\<close>): the row budget of a window is exact, a
    quarantined object writes nothing, though a transaction that was open when it was quarantined may be rolled back,
    and a restart keeps the quarantine.
  \<^item> \<open>Device_Grants\<close> (\<open>protocol/src/device-grant.ts\<close>): invites, bindings, capabilities and signed
    requests; a grant verifies exactly when it ends a sound chain of at most four records from the root key, where the
    soundness of a record is specified apart from the code's checks (the fuel of the chain is the bound in the
    code), and holds no more than the root signed.
  \<^item> \<open>Environment_Bundle\<close>, \<open>Lifecycle_Data\<close>, \<open>Lifecycle\<close>, \<open>Lifecycle_Transition\<close>,
    \<open>Space_Environment\<close>, \<open>Lifecycle_Runs\<close>, \<open>Lifecycle_Types\<close> (\<open>protocol-environment/src/schema.ts\<close>,
    \<open>lifecycle.ts\<close>, \<open>account-worker/src/space-environment.ts\<close>): the bundle's schema and the state machine
    of a run; under any operations a run only moves along the machine, one run of a phase is current,
    every run can end, and what is stored can be read, if the identities of runs leave room for a suffix. \<open>Lifecycle_Log\<close> (\<open>lifecycle-log.ts\<close>): a log cut
    anywhere into chunks reads as the whole.
  \<^item> \<open>Machine_Credentials\<close>, \<open>Device_Authority\<close>, \<open>Device_Memo\<close>, \<open>Device_Answers\<close>
    (\<open>protocol/src/credential-vault.ts\<close>, \<open>relay.ts\<close>, \<open>account-worker/src/device-authority.ts\<close>): the
    credentials of machines and the verifier of every request; the locale \<open>remembered_check\<close> states
    when remembering a check changes no answer and is interpreted for machines, devices and grants.
    \<open>Credential_Vault\<close>, \<open>Vault_History\<close> (\<open>account-worker/src/application.ts\<close>): the registry, and that
    along any calls on it the remembered answers stay those of a verifier without memory, where the clock of an
    isolate that asks is not behind the vault's.
    \<open>Authority_Cache\<close>: the cache of snapshots as a step relation in which loads, reads and answers
    interleave freely; the vault's own isolate answers no overtaken view, any isolate answers none
    that misses a change two minutes old, and every caller that waits is answered or denied even if no load succeeds
    any more.
    \<open>Machine_Pairing\<close>: the pairing of machines, where a request that waits is interrupted by others; every
    pairing lives its specified life (the refinement of the code's requests to a state machine of one
    row). \<open>Pairing_Runs\<close>: the same with a log of issued tokens and received requests; an enrollment is answered only
    for what was claimed with the issued token, approved and registered, as the log tells.
  \<^item> \<open>Conversation_Events\<close>, \<open>Executions\<close> (\<open>blocks/src/conversation-events.ts\<close>, \<open>execution.ts\<close>): notes are
    read back in their order, and what of them is changed is said exactly; identities of executions are distinct, and the reports of one
    execution converge, whatever their order, to the worst end that is reported.
  \<^item> \<open>Transcript_Items\<close>, \<open>Transcript_Projection\<close>, \<open>Transcript_Properties\<close> (\<open>blocks/src/reducer.ts\<close>,
    \<open>model.ts\<close>, \<open>approval.ts\<close>, \<open>provider-error.ts\<close>): the projector as a series of edits of its store; it does
    not throw unless a date is invalid, an open turn's status is what its rows say, every visible row is in its own turn, and a
    projector restored from a checkpoint goes on as the one it was taken from.
  \<^item> \<open>Transcript_Entries\<close>, \<open>Transcript_Reader\<close> (\<open>runtime-workspace-do/src/transcript.ts\<close>): both scans of the
    entries yield exactly what they are to, a response streams the same events in either direction, and
    windows are consecutive, aligned to turns at both ends and leave nothing out between them; a row of the newest
    512 entries is found in the windows that are searched.

  \<^bold>\<open>Recursion.\<close> A loop whose end is not plain is a function with a measure, or has fuel that is proved
  enough where a result is claimed; the walk over a pairing's issuers has the code's bound of four. \<open>walkBack\<close>, \<open>authorityExpiresAt\<close> and \<open>entriesFrom\<close> are partial functions
  whose value would be \<open>None\<close> if they did not end.

  \<^bold>\<open>Not modelled.\<close> What renders or draws (\<open>account-web\<close>, \<open>ui\<close>, \<open>browser-extension\<close>, \<open>operator-web\<close>);
  what runs processes, files and sockets (\<open>account-machine\<close>, \<open>supervisor\<close>, \<open>runtime-machine\<close>, \<open>cli\<close>);
  the agent loop over model providers and the rest of the agent runtime (\<open>runtime-core\<close>,
  \<open>runtime-workspace-do\<close>, \<open>inference-worker\<close>, \<open>provider-auth\<close>); the previews of rows and the chunks of their
  content (\<open>blocks/src/history.ts\<close>) and the coalescing of events in transport; builders and
  calls to Cloudflare's API; the declarations of RPC shapes, which have no behaviour; and, of the
  account worker, the Durable Objects for projects, automations, browsers and GitHub. Texts of error
  messages are left out, except where code reads them. A lookup by name in a plain object ignores the
  names every JavaScript object inherits (\<open>constructor\<close>). The environment's hashes and
  \<open>deriveLifecycleExecutions\<close>, the vault's secrets, and the sealing of
  credentials are not modelled.
\<close>

end
